(* ===== verification/PyBase.thy ===== *)
theory PyBase
  imports
    Complex_Main
    "HOL-Library.List_Lexorder"
    "HOL-Library.Char_ord"
    "HOL-Library.AList"
begin

text \<open>
  The prelude: the Python values, exceptions and string operations that the modelled
  sources use, with the lemmas every component shares.

  \<^item> \<open>pyval\<close> is a value that \<^verbatim>\<open>yaml.safe_load\<close> or a step configuration holds.  A float is
    given by its two observables: its \<^verbatim>\<open>repr\<close> text and its exact value (\<open>None\<close> for an
    infinity or a NaN).
  \<^item> \<open>pyexn\<close> is a raised exception, and \<open>'a result\<close> what a call gives: \<open>Inl\<close> the exception
    or \<open>Inr\<close> the returned value.
  \<^item> A Python \<^verbatim>\<open>str\<close> is a list of characters with code points below 256; whitespace, case
    and word characters are those of Python on this range.
\<close>

named_theorems py_simps \<open>evaluation rules for Python primitives\<close>

section \<open>Values and exceptions\<close>

datatype pyval =
    PNone
  | PBool bool
  | PInt int
  | PFloat string "rat option"
  | PStr string
  | PList "pyval list"
  | PDict "(pyval \<times> pyval) list"

datatype pyexn =
    AttributeError
  | TypeError
  | KeyError
  | IndexError
  | ValueError string
  | YAMLError string "int option"
  | InvalidYAMLError string "int option"
  | MissingRequiredFieldError string string
  | StepExecutionError string string
  | OtherError string

type_synonym 'a result = "pyexn + 'a"

type_synonym pydict = "(pyval \<times> pyval) list"

definition bindE :: "'a result \<Rightarrow> ('a \<Rightarrow> 'b result) \<Rightarrow> 'b result" where
  "bindE m f = (case m of Inl e \<Rightarrow> Inl e | Inr x \<Rightarrow> f x)"

fun mapE :: "('a \<Rightarrow> 'b result) \<Rightarrow> 'a list \<Rightarrow> 'b list result" where
  "mapE f [] = Inr []"
| "mapE f (x # xs) = bindE (f x) (\<lambda>y. bindE (mapE f xs) (\<lambda>ys. Inr (y # ys)))"

fun foldE :: "('a \<Rightarrow> 's \<Rightarrow> 's result) \<Rightarrow> 'a list \<Rightarrow> 's \<Rightarrow> 's result" where
  "foldE f [] s = Inr s"
| "foldE f (x # xs) s = bindE (f x s) (foldE f xs)"

lemma bindE_Inr [simp]: "bindE (Inr x) f = f x"
  by (simp add: bindE_def)

lemma bindE_Inl [simp]: "bindE (Inl e) f = Inl e"
  by (simp add: bindE_def)

lemma bindE_eq_Inr_iff: "bindE m f = Inr y \<longleftrightarrow> (\<exists>x. m = Inr x \<and> f x = Inr y)"
  by (cases m) simp_all

lemma bindE_eq_InrE [elim!]:
  assumes "bindE m f = Inr y"
  obtains x where "m = Inr x" "f x = Inr y"
  using assms by (auto simp: bindE_eq_Inr_iff)

lemma bindE_assoc: "bindE (bindE m f) g = bindE m (\<lambda>x. bindE (f x) g)"
  by (cases m) simp_all

lemma bindE_cong [fundef_cong]:
  assumes "m = m'" and "\<And>x. m' = Inr x \<Longrightarrow> f x = g x"
  shows "bindE m f = bindE m' g"
  using assms by (cases m') simp_all

lemma mapE_cong [fundef_cong]:
  assumes "xs = ys" and "\<And>x. x \<in> set ys \<Longrightarrow> f x = g x"
  shows "mapE f xs = mapE g ys"
  using assms by (induction ys arbitrary: xs) auto

lemma foldE_cong [fundef_cong]:
  assumes "xs = ys" "s = t" and "\<And>x s. x \<in> set ys \<Longrightarrow> f x s = g x s"
  shows "foldE f xs s = foldE g ys t"
proof -
  have "foldE f ys s = foldE g ys s" for s
    using assms(3)
  proof (induction ys arbitrary: s)
    case Nil
    then show ?case by simp
  next
    case (Cons y ys)
    then show ?case by (cases "g y s") simp_all
  qed
  with assms(1,2) show ?thesis by simp
qed

lemma mapE_Inr_iff: "mapE f xs = Inr ys \<longleftrightarrow> list_all2 (\<lambda>x y. f x = Inr y) xs ys"
proof (induction xs arbitrary: ys)
  case Nil
  then show ?case by auto
next
  case (Cons x xs)
  then show ?case by (cases ys) (auto simp: bindE_eq_Inr_iff)
qed

lemma mapE_Inr_set: "mapE f xs = Inr ys \<Longrightarrow> y \<in> set ys \<Longrightarrow> \<exists>x \<in> set xs. f x = Inr y"
  by (induction xs arbitrary: ys) auto

lemma mapE_length: "mapE f xs = Inr ys \<Longrightarrow> length ys = length xs"
  by (auto simp: mapE_Inr_iff dest: list_all2_lengthD)

lemma mapE_total: "(\<And>x. x \<in> set xs \<Longrightarrow> \<exists>y. f x = Inr y) \<Longrightarrow> \<exists>ys. mapE f xs = Inr ys"
  by (induction xs) (fastforce)+

lemma foldE_append: "foldE f (xs @ ys) s = bindE (foldE f xs s) (foldE f ys)"
proof (induction xs arbitrary: s)
  case Nil
  then show ?case by simp
next
  case (Cons x xs)
  then show ?case by (cases "f x s") simp_all
qed

lemma foldE_invariant:
  assumes "foldE f xs s = Inr t" "P s"
    and "\<And>x s t. x \<in> set xs \<Longrightarrow> P s \<Longrightarrow> f x s = Inr t \<Longrightarrow> P t"
  shows "P t"
  using assms by (induction xs arbitrary: s) auto

lemma foldE_total:
  assumes "\<And>x s. x \<in> set xs \<Longrightarrow> \<exists>t. f x s = Inr t"
  shows "\<exists>t. foldE f xs s = Inr t"
  using assms
proof (induction xs arbitrary: s)
  case Nil
  then show ?case by simp
next
  case (Cons x xs)
  from Cons.prems obtain t where "f x s = Inr t" by fastforce
  with Cons.IH [of t] Cons.prems show ?case by simp
qed


section \<open>Characters and strings\<close>

definition cp :: "char \<Rightarrow> nat" where
  "cp c = of_char c"

lemma cp_eq_iff: "n < 256 \<Longrightarrow> cp c = n \<longleftrightarrow> c = char_of n"
  by (auto simp: cp_def)

lemma cp_char_of [simp]: "n < 256 \<Longrightarrow> cp (char_of n) = n"
  by (simp add: cp_def)

lemma cp_inj: "cp c = cp d \<longleftrightarrow> c = d"
  by (simp add: cp_def)

lemma cp_less: "cp c < 256"
  by (simp add: cp_def)

definition is_space :: "char \<Rightarrow> bool" where
  "is_space c \<longleftrightarrow> (9 \<le> cp c \<and> cp c \<le> 13) \<or> (28 \<le> cp c \<and> cp c \<le> 32) \<or> cp c = 133 \<or> cp c = 160"

definition is_digit :: "char \<Rightarrow> bool" where
  "is_digit c \<longleftrightarrow> 48 \<le> cp c \<and> cp c \<le> 57"

definition is_ascii_letter :: "char \<Rightarrow> bool" where
  "is_ascii_letter c \<longleftrightarrow> (65 \<le> cp c \<and> cp c \<le> 90) \<or> (97 \<le> cp c \<and> cp c \<le> 122)"

text \<open>The class \<^verbatim>\<open>\w\<close> of \<^verbatim>\<open>re\<close>: alphanumeric characters and the underscore.\<close>

definition is_word :: "char \<Rightarrow> bool" where
  "is_word c \<longleftrightarrow> is_digit c \<or> is_ascii_letter c \<or> cp c = 95 \<or>
     cp c \<in> {170, 178, 179, 181, 185, 186, 188, 189, 190} \<or>
     (192 \<le> cp c \<and> cp c \<noteq> 215 \<and> cp c \<noteq> 247)"

definition lower_char :: "char \<Rightarrow> char" where
  "lower_char c =
     (if (65 \<le> cp c \<and> cp c \<le> 90) \<or> (192 \<le> cp c \<and> cp c \<le> 222 \<and> cp c \<noteq> 215)
      then char_of (cp c + 32) else c)"

definition py_lower :: "string \<Rightarrow> string" where
  "py_lower s = map lower_char s"

definition lstrip :: "string \<Rightarrow> string" where
  "lstrip s = dropWhile is_space s"

definition py_strip :: "string \<Rightarrow> string" where
  "py_strip s = rev (dropWhile is_space (rev (dropWhile is_space s)))"

definition starts_with :: "string \<Rightarrow> string \<Rightarrow> bool" where
  "starts_with s p \<longleftrightarrow> take (length p) s = p"

text \<open>\<^verbatim>\<open>p in s\<close>: some suffix of \<open>s\<close> starts with \<open>p\<close>.\<close>

fun contains :: "string \<Rightarrow> string \<Rightarrow> bool" where
  "contains [] p = (p = [])"
| "contains (c # s) p = (starts_with (c # s) p \<or> contains s p)"

text \<open>\<^verbatim>\<open>s.replace(p, r)\<close> for a non-empty \<open>p\<close>: occurrences are replaced left to right and do
  not overlap.\<close>

function replace_all :: "string \<Rightarrow> string \<Rightarrow> string \<Rightarrow> string" where
  "replace_all p r s =
     (case s of [] \<Rightarrow> []
      | c # s' \<Rightarrow> if p \<noteq> [] \<and> starts_with s p then r @ replace_all p r (drop (length p) s)
                 else c # replace_all p r s')"
  by pat_completeness auto
termination
  by (relation "measure (\<lambda>(p, r, s). length s)") auto

declare replace_all.simps [simp del]

fun join :: "string \<Rightarrow> string list \<Rightarrow> string" where
  "join sep [] = []"
| "join sep [s] = s"
| "join sep (s # t # ts) = s @ sep @ join sep (t # ts)"

text \<open>\<^verbatim>\<open>s.split()\<close>: the maximal runs of non-whitespace characters.\<close>

function split_ws :: "string \<Rightarrow> string list" where
  "split_ws s =
     (let t = dropWhile is_space s in
      if t = [] then []
      else takeWhile (\<lambda>c. \<not> is_space c) t # split_ws (dropWhile (\<lambda>c. \<not> is_space c) t))"
  by pat_completeness auto
termination
proof (relation "measure length", simp)
  fix s t :: string
  assume t: "t = dropWhile is_space s" and ne: "t \<noteq> []"
  then have "\<not> is_space (hd t)" by (metis hd_dropWhile)
  with ne have "length (dropWhile (\<lambda>c. \<not> is_space c) t) < length t"
    by (cases t) (auto intro: le_imp_less_Suc length_dropWhile_le)
  also have "length t \<le> length s" by (simp add: t length_dropWhile_le)
  finally show "(dropWhile (\<lambda>c. \<not> is_space c) t, s) \<in> measure length" by simp
qed

declare split_ws.simps [simp del]

text \<open>\<^verbatim>\<open>s.split(d)\<close> for a one-character separator.\<close>

fun split_on :: "char \<Rightarrow> string \<Rightarrow> string list" where
  "split_on d [] = [[]]"
| "split_on d (c # s) =
     (if c = d then [] # split_on d s
      else case split_on d s of [] \<Rightarrow> [[c]] | w # ws \<Rightarrow> (c # w) # ws)"

text \<open>\<^verbatim>\<open>s.splitlines()\<close>: the line boundaries on this range of code points are LF, CR, CR LF,
  VT, FF, FS, GS, RS and NEL; a final boundary opens no further line.\<close>

definition is_linebreak :: "char \<Rightarrow> bool" where
  "is_linebreak c \<longleftrightarrow> cp c \<in> {10, 11, 12, 13, 28, 29, 30, 133}"

fun splitlines_acc :: "string \<Rightarrow> string \<Rightarrow> string list" where
  "splitlines_acc acc [] = (if acc = [] then [] else [rev acc])"
| "splitlines_acc acc (c # s) =
     (if cp c = 13 then
        rev acc # (case s of [] \<Rightarrow> splitlines_acc [] []
                   | d # s' \<Rightarrow> if cp d = 10 then splitlines_acc [] s' else splitlines_acc [] (d # s'))
      else if is_linebreak c then rev acc # splitlines_acc [] s
      else splitlines_acc (c # acc) s)"

definition splitlines :: "string \<Rightarrow> string list" where
  "splitlines s = splitlines_acc [] s"

definition digit_char :: "nat \<Rightarrow> char" where
  "digit_char d = char_of (48 + d)"

fun nat_str :: "nat \<Rightarrow> string" where
  "nat_str n = (if n < 10 then [digit_char n] else nat_str (n div 10) @ [digit_char (n mod 10)])"

declare nat_str.simps [simp del]

definition int_str :: "int \<Rightarrow> string" where
  "int_str i = (if i < 0 then CHR ''-'' # nat_str (nat (- i)) else nat_str (nat i))"

definition hex_digit :: "nat \<Rightarrow> char" where
  "hex_digit d = (if d < 10 then char_of (48 + d) else char_of (87 + d))"

definition is_printable :: "char \<Rightarrow> bool" where
  "is_printable c \<longleftrightarrow> (32 \<le> cp c \<and> cp c \<le> 126) \<or> (161 \<le> cp c \<and> cp c \<noteq> 173)"

text \<open>\<^verbatim>\<open>repr\<close> of a string: single quotes unless the text has a single quote and no double
  quote; the quote, the backslash and unprintable characters are escaped.\<close>

definition repr_char :: "char \<Rightarrow> char \<Rightarrow> string" where
  "repr_char q c =
     (if c = q \<or> cp c = 92 then [char_of (92 :: nat), c]
      else if cp c = 9 then [char_of (92 :: nat), CHR ''t'']
      else if cp c = 10 then [char_of (92 :: nat), CHR ''n'']
      else if cp c = 13 then [char_of (92 :: nat), CHR ''r'']
      else if is_printable c then [c]
      else [char_of (92 :: nat), CHR ''x'', hex_digit (cp c div 16), hex_digit (cp c mod 16)])"

definition repr_str :: "string \<Rightarrow> string" where
  "repr_str s =
     (let q = (if CHR 0x27 \<in> set s \<and> CHR 0x22 \<notin> set s then CHR 0x22 else CHR 0x27)
      in q # concat (map (repr_char q) s) @ [q])"

lemma starts_with_append [simp]: "starts_with (p @ s) p"
  by (simp add: starts_with_def)

lemma starts_with_iff: "starts_with s p \<longleftrightarrow> (\<exists>t. s = p @ t)"
  by (metis append_eq_conv_conj append_take_drop_id starts_with_def)

lemma starts_with_Nil [simp]: "starts_with s []"
  by (simp add: starts_with_def)

lemma starts_with_simps [py_simps]:
  "starts_with s []" "\<not> starts_with [] (p # ps)"
  "starts_with (c # s) (p # ps) \<longleftrightarrow> c = p \<and> starts_with s ps"
  by (auto simp: starts_with_def)

lemmas char_eval [py_simps] =
  cp_def char_of_def bit_0 lower_char_def is_space_def is_digit_def is_ascii_letter_def is_word_def

lemma contains_iff: "contains s p \<longleftrightarrow> (\<exists>u v. s = u @ p @ v)"
proof (induction s)
  case Nil
  then show ?case by auto
next
  case (Cons c s)
  note IH = Cons.IH
  show ?case
  proof
    assume "contains (c # s) p"
    then consider "starts_with (c # s) p" | "contains s p" by auto
    then show "\<exists>u v. c # s = u @ p @ v"
    proof cases
      case 1
      then show ?thesis by (metis append_Nil starts_with_iff)
    next
      case 2
      with Cons.IH obtain u v where "s = u @ p @ v" by blast
      then show ?thesis by (metis append_Cons)
    qed
  next
    assume "\<exists>u v. c # s = u @ p @ v"
    then obtain u v where uv: "c # s = u @ p @ v" by blast
    show "contains (c # s) p"
    proof (cases u)
      case Nil
      with uv have "starts_with (c # s) p" by (simp add: starts_with_iff)
      then show ?thesis by simp
    next
      case (Cons d u')
      with uv have "s = u' @ p @ v" by simp
      then show ?thesis using IH by auto
    qed
  qed
qed

lemma py_strip_eq_Nil_iff: "py_strip s = [] \<longleftrightarrow> (\<forall>c \<in> set s. is_space c)"
proof -
  have "py_strip s = [] \<longleftrightarrow> (\<forall>c \<in> set (dropWhile is_space s). is_space c)"
    by (simp add: py_strip_def dropWhile_eq_Nil_conv)
  also have "\<dots> \<longleftrightarrow> (\<forall>c \<in> set s. is_space c)"
    by (metis dropWhile_eq_Nil_conv hd_dropWhile hd_in_set list.set(1) empty_iff)
  finally show ?thesis .
qed

lemma last_py_strip: "py_strip s \<noteq> [] \<Longrightarrow> \<not> is_space (last (py_strip s))"
  unfolding py_strip_def by (simp add: last_rev hd_dropWhile)


section \<open>Python operations on values\<close>

definition py_num :: "pyval \<Rightarrow> rat option" where
  "py_num v = (case v of PBool b \<Rightarrow> Some (if b then 1 else 0) | PInt i \<Rightarrow> Some (of_int i)
               | PFloat r q \<Rightarrow> q | _ \<Rightarrow> None)"

lemma size_zip_less [termination_simp]:
  "(x, y) \<in> set (zip xs ys) \<Longrightarrow> size x < Suc (size_list size xs)"
proof -
  assume "(x, y) \<in> set (zip xs ys)"
  then have "x \<in> set xs" by (rule set_zip_leftD)
  then have "size x \<le> size_list size xs"
    by (induction xs) auto
  then show ?thesis by simp
qed

text \<open>\<^verbatim>\<open>a == b\<close>: numbers compare by value across \<^verbatim>\<open>bool\<close>, \<^verbatim>\<open>int\<close> and \<^verbatim>\<open>float\<close>; a NaN is
  unequal to everything; mappings compare without regard to order.\<close>

fun py_eq :: "pyval \<Rightarrow> pyval \<Rightarrow> bool" where
  "py_eq PNone PNone = True"
| "py_eq (PStr s) (PStr t) = (s = t)"
| "py_eq (PList xs) (PList ys) =
     (length xs = length ys \<and> list_all (\<lambda>(x, y). py_eq x y) (zip xs ys))"
| "py_eq (PDict xs) (PDict ys) =
     (length xs = length ys \<and>
      list_all (\<lambda>(k, v). list_ex (\<lambda>(k', v'). py_eq k k' \<and> py_eq v v') ys) xs)"
| "py_eq (PFloat r None) (PFloat r' None) = (r = r' \<and> r \<noteq> ''nan'')"
| "py_eq a b = (case (py_num a, py_num b) of (Some p, Some q) \<Rightarrow> p = q | _ \<Rightarrow> False)"

definition truthy :: "pyval \<Rightarrow> bool" where
  "truthy v = (case v of PNone \<Rightarrow> False | PBool b \<Rightarrow> b | PInt i \<Rightarrow> i \<noteq> 0
     | PFloat r q \<Rightarrow> q \<noteq> Some 0 | PStr s \<Rightarrow> s \<noteq> [] | PList xs \<Rightarrow> xs \<noteq> [] | PDict d \<Rightarrow> d \<noteq> [])"

definition hashable :: "pyval \<Rightarrow> bool" where
  "hashable v = (case v of PList _ \<Rightarrow> False | PDict _ \<Rightarrow> False | _ \<Rightarrow> True)"

definition is_str :: "pyval \<Rightarrow> bool" where
  "is_str v = (case v of PStr _ \<Rightarrow> True | _ \<Rightarrow> False)"

definition is_list :: "pyval \<Rightarrow> bool" where
  "is_list v = (case v of PList _ \<Rightarrow> True | _ \<Rightarrow> False)"

fun py_repr :: "pyval \<Rightarrow> string" where
  "py_repr PNone = ''None''"
| "py_repr (PBool b) = (if b then ''True'' else ''False'')"
| "py_repr (PInt i) = int_str i"
| "py_repr (PFloat r q) = r"
| "py_repr (PStr s) = repr_str s"
| "py_repr (PList xs) = ''['' @ join '', '' (map py_repr xs) @ '']''"
| "py_repr (PDict d) = ''{'' @ join '', '' (map (\<lambda>(k, v). py_repr k @ '': '' @ py_repr v) d) @ ''}''"

definition py_str :: "pyval \<Rightarrow> string" where
  "py_str v = (case v of PStr s \<Rightarrow> s | _ \<Rightarrow> py_repr v)"

definition repr_strs :: "string list \<Rightarrow> string" where
  "repr_strs ss = ''['' @ join '', '' (map repr_str ss) @ '']''"

text \<open>\<^verbatim>\<open>v.strip()\<close>: only a \<^verbatim>\<open>str\<close> has the method.\<close>

definition strip_attr :: "pyval \<Rightarrow> string result" where
  "strip_attr v = (case v of PStr s \<Rightarrow> Inr (py_strip s) | _ \<Rightarrow> Inl AttributeError)"

fun dict_get :: "(pyval \<times> 'v) list \<Rightarrow> pyval \<Rightarrow> 'v option" where
  "dict_get [] k = None"
| "dict_get ((k', v) # d) k = (if py_eq k' k then Some v else dict_get d k)"

fun dict_set :: "(pyval \<times> 'v) list \<Rightarrow> pyval \<Rightarrow> 'v \<Rightarrow> (pyval \<times> 'v) list" where
  "dict_set [] k v = [(k, v)]"
| "dict_set ((k', w) # d) k v = (if py_eq k' k then (k', v) # d else (k', w) # dict_set d k v)"

text \<open>\<^verbatim>\<open>d.pop(k, None)\<close>.\<close>

fun dict_pop :: "(pyval \<times> 'v) list \<Rightarrow> pyval \<Rightarrow> (pyval \<times> 'v) list" where
  "dict_pop [] k = []"
| "dict_pop ((k', v) # d) k = (if py_eq k' k then d else (k', v) # dict_pop d k)"

definition get_or :: "pydict \<Rightarrow> string \<Rightarrow> pyval \<Rightarrow> pyval" where
  "get_or d k dflt = (case dict_get d (PStr k) of None \<Rightarrow> dflt | Some v \<Rightarrow> v)"

definition get_none :: "pydict \<Rightarrow> string \<Rightarrow> pyval" where
  "get_none d k = get_or d k PNone"

lemma py_eq_PStr [simp]: "py_eq v (PStr s) \<longleftrightarrow> v = PStr s"
  by (cases v) (auto simp: py_num_def split: option.splits)

lemma py_eq_PStr_left [simp]: "py_eq (PStr s) v \<longleftrightarrow> v = PStr s"
  by (cases v) (auto simp: py_num_def split: option.splits)

lemma dict_get_set_same [simp]: "dict_get (dict_set d (PStr k) v) (PStr k) = Some v"
  by (induction d) auto

lemma dict_get_set_other [simp]:
  "k \<noteq> k' \<Longrightarrow> dict_get (dict_set d (PStr k) v) (PStr k') = dict_get d (PStr k')"
  by (induction d) auto

lemma dict_get_pop_other [simp]:
  "k \<noteq> k' \<Longrightarrow> dict_get (dict_pop d (PStr k)) (PStr k') = dict_get d (PStr k')"
  by (induction d) auto

lemma dict_set_fst_present:
  "dict_get d (PStr k) \<noteq> None \<Longrightarrow> map fst (dict_set d (PStr k) v) = map fst d"
  by (induction d) auto

lemma strip_attr_Inr_iff: "strip_attr v = Inr t \<longleftrightarrow> (\<exists>s. v = PStr s \<and> t = py_strip s)"
  by (cases v) (auto simp: strip_attr_def)

lemma is_strE: "is_str v \<Longrightarrow> (\<And>s. v = PStr s \<Longrightarrow> P) \<Longrightarrow> P"
  by (cases v) (auto simp: is_str_def)

lemma is_str_PStr [simp]: "is_str (PStr s)"
  by (simp add: is_str_def)

lemma truthy_simps [simp]:
  "truthy (PStr s) \<longleftrightarrow> s \<noteq> []" "truthy (PList xs) \<longleftrightarrow> xs \<noteq> []" "\<not> truthy PNone"
  "truthy (PBool b) \<longleftrightarrow> b" "truthy (PDict d) \<longleftrightarrow> d \<noteq> []" "truthy (PInt i) \<longleftrightarrow> i \<noteq> 0"
  by (simp_all add: truthy_def)

end
