(* ===== verification/StringUtils.thy ===== *)
theory StringUtils
  imports PyBase
begin

text \<open>
  \<^verbatim>\<open>backend/utils/string_utils.py\<close> and \<^verbatim>\<open>backend/pipeline/diff_utils.py\<close>: fuzzy name
  suggestions (with the part of \<^verbatim>\<open>difflib\<close> they use), identifiers, safe file names,
  truncation, and the removal of unified-diff markers.
\<close>

section \<open>Definitions\<close>

subsection \<open>difflib: similarity ratio\<close>

fun lcp :: "('a \<Rightarrow> bool) \<Rightarrow> 'a list \<Rightarrow> 'a list \<Rightarrow> nat" where
  "lcp ok (x # xs) (y # ys) = (if x = y \<and> ok y then Suc (lcp ok xs ys) else 0)"
| "lcp ok _ _ = 0"

text \<open>\<^verbatim>\<open>SequenceMatcher\<close> with \<^verbatim>\<open>autojunk\<close>: in a second sequence of 200 or more characters,
  those occurring in more than one percent of the positions do not start a match.\<close>

definition popular :: "'a list \<Rightarrow> 'a \<Rightarrow> bool" where
  "popular b c \<longleftrightarrow> 200 \<le> length b \<and> count_list b c > length b div 100 + 1"

definition better_match :: "nat \<times> nat \<times> nat \<Rightarrow> nat \<times> nat \<times> nat \<Rightarrow> nat \<times> nat \<times> nat" where
  "better_match m best = (if snd (snd m) > snd (snd best) then m else best)"

definition find_longest_match :: "('a \<Rightarrow> bool) \<Rightarrow> 'a list \<Rightarrow> 'a list \<Rightarrow> nat \<times> nat \<times> nat" where
  "find_longest_match pop a b =
     (let (i, j, k) = fold better_match
            (concat (map (\<lambda>i. map (\<lambda>j. (i, j, lcp (\<lambda>c. \<not> pop c) (drop i a) (drop j b)))
                                  [0..<length b]) [0..<length a])) (0, 0, 0);
          l = lcp (\<lambda>_. True) (rev (take i a)) (rev (take j b));
          r = lcp (\<lambda>_. True) (drop (i + k) a) (drop (j + k) b)
      in (i - l, j - l, l + k + r))"

function matched_chars :: "(char \<Rightarrow> bool) \<Rightarrow> string \<Rightarrow> string \<Rightarrow> nat" where
  "matched_chars pop a b =
     (let (i, j, k) = find_longest_match pop a b in
      if k = 0 \<or> length a < i + k then 0
      else k + matched_chars pop (take i a) (take j b)
             + matched_chars pop (drop (i + k) a) (drop (j + k) b))"
  by pat_completeness auto
termination
  by (relation "measure (\<lambda>(pop, a, b). length a)") auto

declare matched_chars.simps [simp del]

definition ratio :: "string \<Rightarrow> string \<Rightarrow> rat" where
  "ratio a b = (if length a + length b = 0 then 1
                else 2 * of_nat (matched_chars (popular b) a b) / of_nat (length a + length b))"

definition better_score :: "rat \<times> string \<Rightarrow> (rat \<times> string) option \<Rightarrow> (rat \<times> string) option" where
  "better_score p best =
     (case best of None \<Rightarrow> Some p
      | Some q \<Rightarrow> if fst q < fst p \<or> (fst q = fst p \<and> snd q < snd p) then Some p else Some q)"

definition find_closest_column :: "string \<Rightarrow> string list \<Rightarrow> string option" where
  "find_closest_column target candidates =
     map_option snd (fold better_score
       (filter (\<lambda>p. fst p \<ge> 3 / 5) (map (\<lambda>x. (ratio x target, x)) candidates)) None)"

subsection \<open>Identifiers, file names, truncation\<close>

definition ident_start :: "char \<Rightarrow> bool" where
  "ident_start c \<longleftrightarrow> is_ascii_letter c \<or> cp c = 95"

definition ident_char :: "char \<Rightarrow> bool" where
  "ident_char c \<longleftrightarrow> is_ascii_letter c \<or> is_digit c \<or> cp c = 95"

text \<open>Plain identifiers, the language the pattern is meant to describe.\<close>

definition is_identifier :: "string \<Rightarrow> bool" where
  "is_identifier s = (case s of [] \<Rightarrow> False | c # cs \<Rightarrow> ident_start c \<and> list_all ident_char cs)"

text \<open>In \<^verbatim>\<open>re.match("^[a-zA-Z_][a-zA-Z0-9_]*$", name)\<close> the anchor \<^verbatim>\<open>$\<close> also matches before a
  final line feed.\<close>

definition is_valid_identifier :: "string \<Rightarrow> bool" where
  "is_valid_identifier s \<longleftrightarrow>
     is_identifier s \<or> (s \<noteq> [] \<and> cp (last s) = 10 \<and> is_identifier (butlast s))"

definition is_safe_filename :: "string \<Rightarrow> bool" where
  "is_safe_filename f =
     (if f = [] then False
      else \<not> (contains f ''..'' \<or> contains f ''/'' \<or> contains f [char_of (92 :: nat)]))"

definition truncate_string :: "string \<Rightarrow> int \<Rightarrow> string \<Rightarrow> string result" where
  "truncate_string text max_length sfx =
     (if max_length < int (length sfx)
      then Inl (ValueError (''max_length ('' @ int_str max_length @ '') must be >= suffix length (''
                            @ int_str (int (length sfx)) @ '')''))
      else if int (length text) \<le> max_length then Inr text
      else Inr (take (nat (max_length - int (length sfx))) text @ sfx))"

definition underscore :: char where
  "underscore = CHR ''_''"

fun collapse :: "string \<Rightarrow> string" where
  "collapse (x # y # s) =
     (if x = underscore \<and> y = underscore then collapse (y # s) else x # collapse (y # s))"
| "collapse s = s"

definition strip_underscores :: "string \<Rightarrow> string" where
  "strip_underscores s =
     rev (dropWhile (\<lambda>c. c = underscore) (rev (dropWhile (\<lambda>c. c = underscore) s)))"

definition sanitize_pipeline_name :: "string \<Rightarrow> string" where
  "sanitize_pipeline_name name =
     (let stripped = py_lower (py_strip name);
          sanitized = map (\<lambda>c. if ident_char c then c else underscore) stripped
      in strip_underscores (collapse sanitized))"

subsection \<open>Removing diff markers\<close>

definition diff_marker :: "string \<Rightarrow> bool" where
  "diff_marker line \<longleftrightarrow> starts_with line ''+'' \<or> starts_with line ''-'' \<or> starts_with line ''@@''"

fun strip_marker_lines :: "string list \<Rightarrow> string list" where
  "strip_marker_lines [] = []"
| "strip_marker_lines (line # rest) =
     (if starts_with line ''---'' \<or> starts_with line ''+++'' \<or> starts_with line ''@@''
      then strip_marker_lines rest
      else if starts_with line ''-'' then strip_marker_lines rest
      else if starts_with line ''+'' \<or> starts_with line '' ''
      then drop 1 line # strip_marker_lines rest
      else line # strip_marker_lines rest)"

definition newline :: string where
  "newline = [char_of (10 :: nat)]"

definition strip_diff_markers :: "string \<Rightarrow> string" where
  "strip_diff_markers text =
     (let lines = splitlines text in
      if \<not> list_ex diff_marker lines then text
      else join newline (strip_marker_lines lines))"


section \<open>Suggestions\<close>

lemma fold_better_score:
  "\<exists>q. fold better_score ps (Some p) = Some q \<and> q \<in> set (p # ps) \<and> (\<forall>x \<in> set (p # ps). fst x \<le> fst q)"
proof (induction ps arbitrary: p)
  case Nil
  then show ?case by simp
next
  case (Cons r ps)
  obtain p' where p': "better_score r (Some p) = Some p'" "p' = p \<or> p' = r"
      "fst p \<le> fst p'" "fst r \<le> fst p'"
    by (cases "fst p < fst r \<or> fst p = fst r \<and> snd p < snd r")
      (auto simp: better_score_def not_less)
  from Cons.IH [of p'] p' show ?case by fastforce
qed

lemma fold_better_score_None:
  "fold better_score ps None = None \<longleftrightarrow> ps = []"
proof (cases ps)
  case (Cons p ps')
  then show ?thesis
    using fold_better_score [of ps' p] by (auto simp: better_score_def)
qed simp

lemma fold_better_score_Some:
  assumes "fold better_score ps None = Some q"
  shows "q \<in> set ps \<and> (\<forall>x \<in> set ps. fst x \<le> fst q)"
proof (cases ps)
  case (Cons p ps')
  with assms fold_better_score [of ps' p] show ?thesis by (simp add: better_score_def)
qed (use assms in simp)

text \<open>\<^verbatim>\<open>find_closest_column\<close> suggests a name exactly when some candidate reaches the
  similarity cutoff of 0.6; what it suggests is one of the candidates, reaches the cutoff,
  and no candidate is more similar to the misspelt name.\<close>

theorem find_closest_column_spec:
  "(find_closest_column target candidates = None \<longleftrightarrow>
      \<not> (\<exists>x. x \<in> set candidates \<and> 3 / 5 \<le> ratio x target)) \<and>
   (case find_closest_column target candidates of None \<Rightarrow> True
    | Some c \<Rightarrow> c \<in> set candidates \<and> 3 / 5 \<le> ratio c target \<and>
        list_all (\<lambda>x. ratio x target \<le> ratio c target) candidates)"
proof -
  let ?ps = "filter (\<lambda>p. fst p \<ge> 3 / 5) (map (\<lambda>x. (ratio x target, x)) candidates)"
  have none: "find_closest_column target candidates = None \<longleftrightarrow> ?ps = []"
    by (simp add: find_closest_column_def fold_better_score_None)
  have some: "c \<in> set candidates \<and> 3 / 5 \<le> ratio c target \<and>
      list_all (\<lambda>x. ratio x target \<le> ratio c target) candidates"
    if "find_closest_column target candidates = Some c" for c
  proof -
    from that obtain q where q: "fold better_score ?ps None = Some q" "c = snd q"
      by (auto simp: find_closest_column_def)
    from fold_better_score_Some [OF q(1)] have *: "q \<in> set ?ps" "\<forall>x \<in> set ?ps. fst x \<le> fst q"
      by auto
    from *(1) q(2) have c: "c \<in> set candidates" "3 / 5 \<le> ratio c target" "fst q = ratio c target"
      by auto
    have "ratio x target \<le> ratio c target" if "x \<in> set candidates" for x
    proof (cases "3 / 5 \<le> ratio x target")
      case True
      with that have "(ratio x target, x) \<in> set ?ps" by simp
      with *(2) c(3) show ?thesis by fastforce
    next
      case False
      with c(2) show ?thesis by linarith
    qed
    with c show ?thesis by (auto simp: list_all_iff)
  qed
  have "?ps = [] \<longleftrightarrow> \<not> (\<exists>x. x \<in> set candidates \<and> 3 / 5 \<le> ratio x target)"
    by (auto simp: filter_empty_conv)
  with none some show ?thesis by (simp split: option.split)
qed


section \<open>Identifiers and names\<close>

lemma is_valid_identifier_chars:
  "is_valid_identifier s \<Longrightarrow> c \<in> set s \<Longrightarrow> ident_char c \<or> cp c = 10"
  by (cases s rule: rev_cases)
    (auto simp: is_valid_identifier_def is_identifier_def ident_start_def ident_char_def list_all_iff
      split: list.splits)

lemma is_valid_identifier_no_colon: "is_valid_identifier s \<Longrightarrow> CHR '':'' \<notin> set s"
  by (auto dest!: is_valid_identifier_chars
      simp: ident_char_def is_ascii_letter_def is_digit_def cp_def)

text \<open>\<^verbatim>\<open>is_valid_identifier\<close> accepts exactly the plain identifiers (a letter or underscore,
  then letters, digits and underscores) and those same texts followed by one line feed,
  although its description allows only letters, digits and underscores.\<close>

theorem is_valid_identifier_trailing_newline:
  "is_valid_identifier s \<longleftrightarrow> is_identifier s \<or> (\<exists>t. s = t @ newline \<and> is_identifier t)"
  by (cases s rule: rev_cases)
    (auto simp: is_valid_identifier_def newline_def cp_eq_iff is_identifier_def)

text \<open>\<^verbatim>\<open>truncate_string\<close> keeps its length bound: whenever it returns, the result is no longer
  than \<^verbatim>\<open>max_length\<close>, a text within the bound is returned unchanged, and it raises exactly
  when the bound is smaller than the suffix.\<close>

theorem truncate_string_bound:
  "(case truncate_string text max_length sfx of
      Inl _ \<Rightarrow> max_length < int (length sfx)
    | Inr r \<Rightarrow> int (length sfx) \<le> max_length \<and> int (length r) \<le> max_length \<and>
        (if int (length text) \<le> max_length then r = text
         else int (length r) = max_length \<and>
           (\<exists>t u. text = t @ u \<and> r = t @ sfx)))"
proof -
  have "\<exists>t u. text = t @ u \<and> take n text @ sfx = t @ sfx" for n
    by (metis append_take_drop_id)
  then show ?thesis
    by (auto simp: truncate_string_def)
qed


subsection \<open>Sanitised pipeline names\<close>

definition no_underscore_pair :: "char \<Rightarrow> char \<Rightarrow> bool" where
  "no_underscore_pair x y \<longleftrightarrow> \<not> (x = underscore \<and> y = underscore)"

abbreviation single_underscores :: "string \<Rightarrow> bool" where
  "single_underscores \<equiv> successively no_underscore_pair"

definition sanitized_char :: "char \<Rightarrow> bool" where
  "sanitized_char c \<longleftrightarrow> (97 \<le> cp c \<and> cp c \<le> 122) \<or> is_digit c \<or> c = underscore"

definition sanitized_name :: "string \<Rightarrow> bool" where
  "sanitized_name s \<longleftrightarrow> list_all sanitized_char s \<and> single_underscores s \<and>
     (s \<noteq> [] \<longrightarrow> hd s \<noteq> underscore \<and> last s \<noteq> underscore)"

lemma hd_collapse: "s \<noteq> [] \<Longrightarrow> collapse s \<noteq> [] \<and> hd (collapse s) = hd s"
  by (induction s rule: collapse.induct) auto

lemma single_underscores_collapse: "single_underscores (collapse s)"
proof (induction s rule: collapse.induct)
  case (1 x y s)
  then show ?case
    using hd_collapse [of "y # s"] by (cases "collapse (y # s)") (auto simp: no_underscore_pair_def)
qed auto

lemma set_collapse: "set (collapse s) \<subseteq> set s"
  by (induction s rule: collapse.induct) auto

lemma collapse_id: "single_underscores s \<Longrightarrow> collapse s = s"
  by (induction s rule: collapse.induct) (auto simp: no_underscore_pair_def)

lemma successively_dropWhile: "successively P s \<Longrightarrow> successively P (dropWhile Q s)"
  by (induction s) (auto simp: successively_Cons)

lemma single_underscores_rev: "single_underscores (rev s) = single_underscores s"
proof -
  have "(\<lambda>x y. no_underscore_pair y x) = no_underscore_pair"
    by (auto simp: no_underscore_pair_def fun_eq_iff)
  then show ?thesis by (simp only: successively_rev)
qed

lemma single_underscores_strip: "single_underscores s \<Longrightarrow> single_underscores (strip_underscores s)"
  unfolding strip_underscores_def single_underscores_rev
  by (intro successively_dropWhile) (simp only: single_underscores_rev successively_dropWhile)

lemma dropWhile_hd_id: "(s \<noteq> [] \<Longrightarrow> \<not> Q (hd s)) \<Longrightarrow> dropWhile Q s = s"
  by (cases s) auto

lemma strip_underscores_ends:
  assumes "strip_underscores s \<noteq> []"
  shows "hd (strip_underscores s) \<noteq> underscore \<and> last (strip_underscores s) \<noteq> underscore"
proof -
  let ?d = "dropWhile (\<lambda>c. c = underscore)"
  have ne: "?d (rev (?d s)) \<noteq> []" using assms by (simp add: strip_underscores_def)
  then have last: "last (strip_underscores s) \<noteq> underscore"
    using hd_dropWhile [of "\<lambda>c. c = underscore" "rev (?d s)"]
    by (simp add: strip_underscores_def last_rev)
  from ne have "?d s \<noteq> []" by (metis dropWhile.simps(1) rev.simps(1))
  then have "hd (?d s) \<noteq> underscore" by (rule hd_dropWhile)
  moreover obtain pre where "rev (?d s) = pre @ ?d (rev (?d s))"
    by (metis takeWhile_dropWhile_id)
  then have "?d s = strip_underscores s @ rev pre"
    by (metis rev_append rev_rev_ident strip_underscores_def)
  ultimately show ?thesis
    using last assms by (metis hd_append2)
qed

lemma strip_underscores_id:
  "(s \<noteq> [] \<Longrightarrow> hd s \<noteq> underscore \<and> last s \<noteq> underscore) \<Longrightarrow> strip_underscores s = s"
  by (cases "s = []") (simp_all add: strip_underscores_def dropWhile_hd_id hd_rev
      del: dropWhile_eq_self_iff)

lemma set_strip_underscores: "set (strip_underscores s) \<subseteq> set s"
  by (auto simp: strip_underscores_def dest!: set_dropWhileD)

lemma underscore_iff: "c = underscore \<longleftrightarrow> cp c = 95"
proof -
  have "cp underscore = 95" by (simp add: underscore_def cp_def)
  then show ?thesis by (metis cp_inj)
qed

lemma lower_char_sanitized: "ident_char (lower_char c) \<Longrightarrow> sanitized_char (lower_char c)"
  using cp_less [of c]
  by (auto simp: lower_char_def ident_char_def sanitized_char_def is_ascii_letter_def is_digit_def
      underscore_iff split: if_splits)

lemma sanitized_char_fixed:
  "sanitized_char c \<Longrightarrow> \<not> is_space c \<and> lower_char c = c \<and> ident_char c"
  by (auto simp: sanitized_char_def is_space_def lower_char_def ident_char_def is_ascii_letter_def
      is_digit_def underscore_iff)

lemma sanitized_name_fixed: "sanitized_name s \<Longrightarrow> sanitize_pipeline_name s = s"
proof -
  assume s: "sanitized_name s"
  then have c: "\<forall>c \<in> set s. \<not> is_space c \<and> lower_char c = c \<and> ident_char c"
    by (auto simp: sanitized_name_def list_all_iff dest!: sanitized_char_fixed)
  then have strip: "py_strip s = s"
    by (cases "s = []") (simp_all add: py_strip_def dropWhile_hd_id hd_rev)
  have "map (\<lambda>c. if ident_char c then c else underscore) (py_lower s) = s"
    unfolding py_lower_def map_map using c by (intro map_idI) simp
  with s strip show ?thesis
    by (simp add: sanitize_pipeline_name_def Let_def sanitized_name_def collapse_id
        strip_underscores_id)
qed

text \<open>\<^verbatim>\<open>sanitize_pipeline_name\<close> always yields a safe identifier fragment: lower-case letters,
  digits and single underscores only, with no underscore at either end; and sanitising
  twice is the same as sanitising once.\<close>

theorem sanitize_pipeline_name_safe:
  "sanitized_name (sanitize_pipeline_name name) \<and>
   sanitize_pipeline_name (sanitize_pipeline_name name) = sanitize_pipeline_name name"
proof -
  let ?m = "map (\<lambda>c. if ident_char c then c else underscore) (py_lower (py_strip name))"
  have "sanitized_char underscore" by (simp add: sanitized_char_def)
  then have "\<forall>c \<in> set ?m. sanitized_char c"
    by (auto simp: py_lower_def lower_char_sanitized)
  then have "list_all sanitized_char (sanitize_pipeline_name name)"
    using set_collapse [of ?m] set_strip_underscores [of "collapse ?m"]
    by (auto simp: sanitize_pipeline_name_def Let_def list_all_iff)
  moreover have "single_underscores (sanitize_pipeline_name name)"
    by (simp add: sanitize_pipeline_name_def Let_def single_underscores_strip
        single_underscores_collapse)
  ultimately have "sanitized_name (sanitize_pipeline_name name)"
    using strip_underscores_ends by (simp add: sanitized_name_def sanitize_pipeline_name_def Let_def)
  then show ?thesis by (simp add: sanitized_name_fixed)
qed


section \<open>Diff markers\<close>

text \<open>A unified diff, line by line, and the text after it is applied.\<close>

datatype diff_line =
    Context string
  | Added string
  | Removed string
  | Hunk string
  | OldFile string
  | NewFile string

fun render_diff_line :: "diff_line \<Rightarrow> string" where
  "render_diff_line (Context s) = '' '' @ s"
| "render_diff_line (Added s) = ''+'' @ s"
| "render_diff_line (Removed s) = ''-'' @ s"
| "render_diff_line (Hunk s) = ''@@'' @ s"
| "render_diff_line (OldFile s) = ''---'' @ s"
| "render_diff_line (NewFile s) = ''+++'' @ s"

fun after_line :: "diff_line \<Rightarrow> string list" where
  "after_line (Context s) = [s]"
| "after_line (Added s) = [s]"
| "after_line _ = []"

definition recoverable_line :: "diff_line \<Rightarrow> bool" where
  "recoverable_line l \<longleftrightarrow> \<not> list_ex is_linebreak (render_diff_line l) \<and>
     (case l of Added s \<Rightarrow> \<not> starts_with s ''++'' | _ \<Rightarrow> True)"

definition is_context :: "diff_line \<Rightarrow> bool" where
  "is_context l = (case l of Context _ \<Rightarrow> True | _ \<Rightarrow> False)"

lemma splitlines_acc_text:
  "\<not> list_ex is_linebreak l \<Longrightarrow> splitlines_acc acc (l @ s) = splitlines_acc (rev l @ acc) s"
  by (induction l arbitrary: acc) (auto simp: is_linebreak_def)

lemma splitlines_acc_newline: "splitlines_acc acc (newline @ s) = rev acc # splitlines_acc [] s"
  by (simp add: newline_def is_linebreak_def cp_def)

lemma splitlines_join:
  "list_all (\<lambda>l. l \<noteq> [] \<and> \<not> list_ex is_linebreak l) ls \<Longrightarrow> splitlines (join newline ls) = ls"
  unfolding splitlines_def
proof (induction newline ls rule: join.induct)
  case (2 l)
  then show ?case using splitlines_acc_text [of l "[]" "[]"] by simp
next
  case (3 l m ms)
  then show ?case by (simp add: splitlines_acc_text splitlines_acc_newline)
qed simp

lemma render_diff_line_Cons: "render_diff_line l \<noteq> []"
  by (cases l) simp_all

lemma strip_marker_lines_append:
  "strip_marker_lines (xs @ ys) = strip_marker_lines xs @ strip_marker_lines ys"
  by (induction xs) auto

lemma strip_marker_render:
  "recoverable_line l \<Longrightarrow> strip_marker_lines [render_diff_line l] = after_line l"
  by (cases l) (simp_all add: recoverable_line_def starts_with_def)

lemma strip_marker_lines_render:
  "list_all recoverable_line d \<Longrightarrow>
   strip_marker_lines (map render_diff_line d) = concat (map after_line d)"
proof (induction d)
  case (Cons l d)
  have "strip_marker_lines (map render_diff_line (l # d)) =
        strip_marker_lines [render_diff_line l] @ strip_marker_lines (map render_diff_line d)"
    by (simp only: list.map(2) append_Cons append_Nil strip_marker_lines_append [symmetric])
  also have "strip_marker_lines [render_diff_line l] = after_line l"
    by (rule strip_marker_render) (use Cons.prems in simp)
  finally show ?case using Cons by simp
qed simp

lemma diff_marker_render: "\<not> is_context l \<Longrightarrow> diff_marker (render_diff_line l)"
  by (cases l) (simp_all add: is_context_def diff_marker_def starts_with_def)

text \<open>\<^verbatim>\<open>strip_diff_markers\<close> recovers the text after a unified diff: for any diff that has at
  least one marker line, whose lines hold no line break of their own, and none of whose
  added lines begins with \<^verbatim>\<open>++\<close>, the result is the context and added lines, in order,
  without their markers.\<close>

theorem strip_diff_markers_recovers:
  assumes "list_all recoverable_line d" and "\<not> list_all is_context d"
  shows "strip_diff_markers (join newline (map render_diff_line d)) =
         join newline (concat (map after_line d))"
proof -
  let ?ls = "map render_diff_line d"
  have "list_all (\<lambda>l. l \<noteq> [] \<and> \<not> list_ex is_linebreak l) ?ls"
    using assms(1) by (auto simp: list_all_iff render_diff_line_Cons recoverable_line_def)
  then have "splitlines (join newline ?ls) = ?ls" by (rule splitlines_join)
  moreover have "list_ex diff_marker ?ls"
    using assms(2) diff_marker_render by (fastforce simp: list_all_iff list_ex_iff)
  ultimately show ?thesis
    using assms(1) by (simp add: strip_diff_markers_def Let_def strip_marker_lines_render)
qed

theorem strip_diff_markers_recovers_witness:
  "strip_diff_markers (join newline (map render_diff_line
     [Hunk '' -1 +1 @@'', Context ''a: 1'', Removed ''b: 2'', Added ''b: 3''])) =
   join newline [''a: 1'', ''b: 3'']"
  using strip_diff_markers_recovers
    [of "[Hunk '' -1 +1 @@'', Context ''a: 1'', Removed ''b: 2'', Added ''b: 3'']"]
  by (simp add: recoverable_line_def is_context_def is_linebreak_def cp_def starts_with_def)

lemma strip_marker_lines_items:
  assumes "list_all (\<lambda>l. \<not> starts_with l ''+'' \<and> \<not> starts_with l ''@@'') ls"
  shows "strip_marker_lines ls =
    map (\<lambda>l. if starts_with l '' '' then drop 1 l else l) (filter (\<lambda>l. \<not> starts_with l ''-'') ls)"
proof -
  have "starts_with l ''---'' \<Longrightarrow> starts_with l ''-''" "starts_with l ''+++'' \<Longrightarrow> starts_with l ''+''"
    for l by (auto simp: starts_with_iff)
  with assms show ?thesis by (induction ls) auto
qed

text \<open>On a text that is no diff, one line that starts with a hyphen is enough for
  \<^verbatim>\<open>strip_diff_markers\<close> to delete every line that does, and to take one leading blank off
  the others.  A YAML block sequence written at column 0, as \<^verbatim>\<open>yaml.safe_dump\<close> writes the
  steps of a pipeline without a \<^verbatim>\<open>pipeline:\<close> key, thus loses all its items.\<close>

theorem strip_diff_markers_drops_items:
  assumes "list_all (\<lambda>l. l \<noteq> [] \<and> \<not> list_ex is_linebreak l) ls"
    and "list_all (\<lambda>l. \<not> starts_with l ''+'' \<and> \<not> starts_with l ''@@'') ls"
    and "list_ex (\<lambda>l. starts_with l ''-'') ls"
  shows "strip_diff_markers (join newline ls) =
    join newline (map (\<lambda>l. if starts_with l '' '' then drop 1 l else l)
                      (filter (\<lambda>l. \<not> starts_with l ''-'') ls))"
proof -
  have "list_ex diff_marker ls"
    using assms(3) by (auto simp: list_ex_iff diff_marker_def)
  then show ?thesis
    using splitlines_join [OF assms(1)] strip_marker_lines_items [OF assms(2)]
    by (simp add: strip_diff_markers_def Let_def)
qed

theorem strip_diff_markers_drops_items_witness:
  "strip_diff_markers (join newline [''name: p'', ''steps:'', ''- name: a'', ''  type: load'']) =
   join newline [''name: p'', ''steps:'', '' type: load'']"
  using strip_diff_markers_drops_items
    [of "[''name: p'', ''steps:'', ''- name: a'', ''  type: load'']"]
  by (simp add: is_linebreak_def cp_def starts_with_def)

end
