(* ===== verification/SqlScan.thy ===== *)
theory SqlScan
  imports StringUtils
begin

text \<open>
  The lexical half of \<^verbatim>\<open>backend/execution/sql_builder.py\<close>: masking of literals and comments,
  identifier and literal quoting, and the validation of a SQL step's query.
\<close>

section \<open>Definitions\<close>

subsection \<open>Masking literals and comments\<close>

datatype scan_state =
    Code
  | SingleQuote
  | DoubleQuote
  | LineComment
  | BlockComment
  | DollarQuote string

definition sq :: char where "sq = CHR 0x27"
definition dq :: char where "dq = CHR 0x22"

abbreviation blank :: char where "blank \<equiv> CHR '' ''"

text \<open>\<^verbatim>\<open>_DOLLAR_QUOTE_START.match(sql, i)\<close> at a dollar sign: the delimiter it matches.\<close>

definition dollar_start :: "string \<Rightarrow> string option" where
  "dollar_start s =
     (let tag = takeWhile ident_char (drop 1 s) in
      if starts_with (drop (Suc (length tag)) s) ''$'' \<and> (tag = [] \<or> ident_start (hd tag))
      then Some (''$'' @ tag @ ''$'') else None)"

text \<open>The loop of \<^verbatim>\<open>_strip_literals_and_comments\<close> from a given state on the remaining text:
  the masked text and the state at the end.\<close>

fun scan :: "scan_state \<Rightarrow> string \<Rightarrow> string \<times> scan_state" where
  "scan st [] = ([], st)"
| "scan Code (c # s) =
     (if c = CHR ''$'' then
        (case dollar_start (c # s) of
           Some d \<Rightarrow> apfst ((@) (replicate (length d) blank)) (scan (DollarQuote d) (drop (length d - 1) s))
         | None \<Rightarrow> apfst ((#) c) (scan Code s))
      else if c = sq then apfst ((#) blank) (scan SingleQuote s)
      else if c = dq then apfst ((#) blank) (scan DoubleQuote s)
      else if c = CHR ''-'' \<and> starts_with s ''-'' then apfst ((@) [blank, blank]) (scan LineComment (drop 1 s))
      else if c = CHR ''/'' \<and> starts_with s ''*'' then apfst ((@) [blank, blank]) (scan BlockComment (drop 1 s))
      else apfst ((#) c) (scan Code s))"
| "scan SingleQuote (c # s) =
     (if c = sq \<and> starts_with s [sq] then apfst ((@) [blank, blank]) (scan SingleQuote (drop 1 s))
      else if c = sq then apfst ((#) blank) (scan Code s)
      else apfst ((#) blank) (scan SingleQuote s))"
| "scan DoubleQuote (c # s) =
     (if c = dq \<and> starts_with s [dq] then apfst ((@) [blank, blank]) (scan DoubleQuote (drop 1 s))
      else if c = dq then apfst ((#) blank) (scan Code s)
      else apfst ((#) blank) (scan DoubleQuote s))"
| "scan LineComment (c # s) =
     (if cp c = 10 then apfst ((#) c) (scan Code s) else apfst ((#) blank) (scan LineComment s))"
| "scan BlockComment (c # s) =
     (if c = CHR ''*'' \<and> starts_with s ''/'' then apfst ((@) [blank, blank]) (scan Code (drop 1 s))
      else apfst ((#) blank) (scan BlockComment s))"
| "scan (DollarQuote d) (c # s) =
     (if d \<noteq> [] \<and> starts_with (c # s) d
      then apfst ((@) (replicate (length d) blank)) (scan Code (drop (length d - 1) s))
      else apfst ((#) blank) (scan (DollarQuote d) s))"

definition terminated :: "scan_state \<Rightarrow> bool" where
  "terminated st = (case st of Code \<Rightarrow> True | LineComment \<Rightarrow> True | _ \<Rightarrow> False)"

definition strip_literals_and_comments :: "string \<Rightarrow> string result" where
  "strip_literals_and_comments sql =
     (case scan Code sql of (r, st) \<Rightarrow>
        if terminated st then Inr r
        else Inl (ValueError ''SQL query contains an unterminated literal or comment''))"

subsection \<open>Quoting\<close>

definition quote_identifier :: "string \<Rightarrow> string result" where
  "quote_identifier ident =
     (if ident = [] then Inl (ValueError ''Identifier must be a non-empty string'')
      else Inr ([dq] @ replace_all [dq] [dq, dq] ident @ [dq]))"

fun sql_literal :: "pyval \<Rightarrow> string result" where
  "sql_literal PNone = Inr ''NULL''"
| "sql_literal (PBool b) = Inr (if b then ''TRUE'' else ''FALSE'')"
| "sql_literal (PInt i) = Inr (int_str i)"
| "sql_literal (PFloat r None) = Inl (ValueError ''NaN/Inf values are not valid SQL literals'')"
| "sql_literal (PFloat r (Some q)) = Inr r"
| "sql_literal (PList vs) = bindE (mapE sql_literal vs) (\<lambda>ls. Inr (''('' @ join '', '' ls @ '')''))"
| "sql_literal (PStr s) = Inr ([sq] @ replace_all [sq] [sq, sq] s @ [sq])"
| "sql_literal (PDict d) = Inr ([sq] @ replace_all [sq] [sq, sq] (py_str (PDict d)) @ [sq])"

subsection \<open>Validating a query\<close>

definition forbidden_keywords :: "string list" where
  "forbidden_keywords =
     [''insert'', ''update'', ''delete'', ''drop'', ''alter'', ''create'', ''truncate'', ''attach'',
      ''detach'', ''copy'', ''export'', ''import'', ''call'', ''pragma'', ''prepare'', ''execute'',
      ''deallocate'', ''explain'', ''analyze'', ''set'', ''install'', ''load'', ''use'', ''checkpoint'',
      ''force'', ''show'', ''describe'', ''summarize'']"

definition forbidden_functions :: "string list" where
  "forbidden_functions =
     [''read_csv'', ''read_csv_auto'', ''read_json'', ''read_json_auto'', ''read_parquet'',
      ''read_blob'', ''read_text'', ''sqlite_scan'', ''postgres_scan'', ''httpfs'']"

definition uri_schemes :: "string list" where
  "uri_schemes = [''s3'', ''http'', ''https'', ''file'', ''ftp'', ''gcs'', ''azure'']"

definition matches_ci :: "string \<Rightarrow> string \<Rightarrow> bool" where
  "matches_ci k s \<longleftrightarrow> length k \<le> length s \<and> py_lower (take (length k) s) = k"

definition word_next :: "string \<Rightarrow> bool" where
  "word_next s = (case s of [] \<Rightarrow> False | c # _ \<Rightarrow> is_word c)"

text \<open>\<^verbatim>\<open>search\<close> for a pattern that starts at a word boundary: \<open>prev\<close> says whether the character
  before the text is a word character, and \<open>p\<close> decides at each start.\<close>

fun search_from :: "bool \<Rightarrow> (string \<Rightarrow> bool) \<Rightarrow> string \<Rightarrow> bool" where
  "search_from prev p [] = False"
| "search_from prev p (c # s) = ((\<not> prev \<and> p (c # s)) \<or> search_from (is_word c) p s)"

definition keyword_at :: "string \<Rightarrow> bool" where
  "keyword_at s \<longleftrightarrow> list_ex (\<lambda>k. matches_ci k s \<and> \<not> word_next (drop (length k) s)) forbidden_keywords"

definition function_at :: "string \<Rightarrow> bool" where
  "function_at s \<longleftrightarrow>
     list_ex (\<lambda>k. matches_ci k s \<and> starts_with (dropWhile is_space (drop (length k) s)) ''('')
       forbidden_functions"

fun has_uri :: "string \<Rightarrow> bool" where
  "has_uri [] = False"
| "has_uri (c # s) =
     (list_ex (\<lambda>k. matches_ci k (c # s) \<and> starts_with (drop (length k) (c # s)) ''://'') uri_schemes
      \<or> has_uri s)"

fun after_block :: "string \<Rightarrow> string option" where
  "after_block [] = None"
| "after_block (c # s) = (if c = CHR ''*'' \<and> starts_with s ''/'' then Some (drop 1 s) else after_block s)"

lemma after_block_length: "after_block s = Some t \<Longrightarrow> length t < length s"
  by (induction s) (auto split: if_splits)

text \<open>The repeated group of \<^verbatim>\<open>_LEADING_COMMENT\<close>: a line comment with its line feed, or a block
  comment with the whitespace after it.\<close>

function skip_comments :: "string \<Rightarrow> string" where
  "skip_comments s =
     (if starts_with s ''--'' then
        (case dropWhile (\<lambda>c. cp c \<noteq> 10) (drop 2 s) of [] \<Rightarrow> s | _ # t \<Rightarrow> skip_comments t)
      else if starts_with s ''/*'' then
        (case after_block (drop 2 s) of None \<Rightarrow> s | Some t \<Rightarrow> skip_comments (lstrip t))
      else s)"
  by pat_completeness auto
termination
proof (relation "measure length", simp, goal_cases)
  case (1 s c t)
  then have "length (c # t) \<le> length (drop 2 s)"
    by (metis length_dropWhile_le)
  then show ?case by simp
next
  case (2 s t)
  from after_block_length [OF 2(3)] have "length t < length s" by simp
  moreover have "length (lstrip t) \<le> length t" by (simp add: lstrip_def length_dropWhile_le)
  ultimately show ?case by simp
qed

declare skip_comments.simps [simp del]

definition leading_comment_removed :: "string \<Rightarrow> string" where
  "leading_comment_removed s = skip_comments (lstrip s)"

definition input_placeholder :: string where
  "input_placeholder = ''{{input}}''"

definition semicolon :: char where
  "semicolon = CHR '';''"

definition allowed_starts :: "string list" where
  "allowed_starts = [''select'', ''with'']"

definition normalize_query :: "string \<Rightarrow> string" where
  "normalize_query query =
     (let s = py_strip query in
      if s \<noteq> [] \<and> last s = semicolon then py_strip (butlast s) else s)"

definition first_token :: "string \<Rightarrow> string result" where
  "first_token s = (case split_ws s of [] \<Rightarrow> Inl IndexError | w # _ \<Rightarrow> Inr w)"

definition check_scanned :: "string \<Rightarrow> unit result" where
  "check_scanned sql =
     bindE (strip_literals_and_comments sql) (\<lambda>m.
       if search_from False keyword_at m
       then Inl (ValueError ''SQL query contains disallowed write/admin keywords'')
       else if search_from False function_at m
       then Inl (ValueError ''SQL query contains disallowed external file access functions'')
       else Inr ())"

definition validate_sql_step_query :: "pyval \<Rightarrow> bool \<Rightarrow> string result" where
  "validate_sql_step_query query require_input =
     (case query of PStr q \<Rightarrow>
       (if py_strip q = [] then Inl (ValueError ''SQL query must be a non-empty string'')
        else let normalized = normalize_query q in
          if semicolon \<in> set normalized then Inl (ValueError ''Only a single SQL statement is allowed'')
          else if has_uri normalized
          then Inl (ValueError ''SQL query cannot reference external URLs or object storage paths'')
          else if require_input \<and> \<not> contains normalized input_placeholder
          then Inl (ValueError ''SQL query must reference the input via {{input}}'')
          else let body = leading_comment_removed normalized in
            if body = [] then Inl (ValueError ''SQL query cannot be empty'')
            else bindE (first_token body) (\<lambda>kw.
              if py_lower kw \<notin> set allowed_starts
              then Inl (ValueError ''Only SELECT/CTE queries are allowed'')
              else bindE (check_scanned body) (\<lambda>_.
                Inr (replace_all input_placeholder ''__input__'' normalized))))
      | _ \<Rightarrow> Inl (ValueError ''SQL query must be a non-empty string''))"


section \<open>Lexical lemmas\<close>

lemma dollar_start_prefix:
  assumes "dollar_start s = Some d"
  shows "length d \<le> length s" "2 \<le> length d"
proof -
  let ?tag = "takeWhile ident_char (drop 1 s)"
  from assms have d: "d = ''$'' @ ?tag @ ''$''" and "starts_with (drop (Suc (length ?tag)) s) ''$''"
    by (auto simp: dollar_start_def Let_def split: if_splits)
  then have "drop (Suc (length ?tag)) s \<noteq> []" by (auto simp: starts_with_def)
  then show "length d \<le> length s" "2 \<le> length d" by (auto simp: d)
qed

text \<open>What masking may do to a character: keep it or blank it out.\<close>

definition masked :: "string \<Rightarrow> string \<Rightarrow> bool" where
  "masked = list_all2 (\<lambda>r c. r = c \<or> r = blank)"

lemma masked_Nil [simp]: "masked [] []"
  by (simp add: masked_def)

lemma masked_keep [simp]: "masked (c # r) (c # s) \<longleftrightarrow> masked r s"
  by (simp add: masked_def)

lemma masked_blank [simp]: "masked (blank # r) (c # s) \<longleftrightarrow> masked r s"
  by (simp add: masked_def)

lemma masked_blanks:
  assumes "masked r (drop (n - 1) s)" "0 < n" "n \<le> Suc (length s)"
  shows "masked (replicate n blank @ r) (c # s)"
proof -
  obtain m where n: "n = Suc m" "m \<le> length s" using assms(2,3) by (cases n) auto
  have "masked (replicate m blank) (take m s)"
    using n by (auto simp: masked_def list_all2_conv_all_nth)
  with assms(1) n have "masked (replicate m blank @ r) (take m s @ drop m s)"
    unfolding masked_def by (intro list_all2_appendI) simp_all
  with n show ?thesis by simp
qed

lemma starts_with_single: "starts_with s [c] \<longleftrightarrow> (\<exists>t. s = c # t)"
  by (auto simp: starts_with_iff)

lemma starts_with_length: "starts_with s p \<Longrightarrow> length p \<le> length s"
  by (auto simp: starts_with_iff)

lemma masked_scan: "masked (fst (scan st s)) s"
proof (induction s arbitrary: st rule: length_induct)
  case (1 s)
  show ?case
  proof (cases s)
    case Nil
    then show ?thesis by simp
  next
    case (Cons c t)
    with "1.IH" have IH: "masked (fst (scan st' (drop n t))) (drop n t)" for st' n
      by (simp add: less_Suc_eq_le)
    have IH0: "masked (fst (scan st' t)) t" for st'
      using IH [of st' 0] by simp
    have IH1: "masked (blank # blank # fst (scan st' (drop 1 t))) (c # t)" if "t \<noteq> []" for st'
      using IH [of st' 1] that by (cases t) auto
    have dollar: "masked (replicate (length d) blank @ fst (scan st' (drop (length d - 1) t))) (c # t)"
      if "0 < length d" "length d \<le> Suc (length t)" for d :: string and st'
      using that IH by (intro masked_blanks) auto
    have ne: "t \<noteq> []" if "starts_with t [x]" for x
      using that by (auto simp: starts_with_def)
    note sw = starts_with_length [where s = t] starts_with_length [where s = "c # t"]
    show ?thesis
    proof (cases st)
      case Code
      show ?thesis
      proof (cases "c = CHR ''$''")
        case True
        show ?thesis
        proof (cases "dollar_start (c # t)")
          case None
          with True Code Cons IH0 show ?thesis by simp
        next
          case (Some d)
          from dollar_start_prefix [OF Some] have "0 < length d" "length d \<le> Suc (length t)" by auto
          with True Code Cons Some dollar [of d] show ?thesis by simp
        qed
      next
        case False
        with ne Code Cons IH0 IH1 show ?thesis by auto
      qed
    next
      case (DollarQuote d)
      then show ?thesis using IH0 dollar sw Cons by simp
    qed (use IH0 IH1 ne Cons in auto)
  qed
qed


lemma length_scan: "length (fst (scan st s)) = length s"
  using masked_scan [of st s] by (auto simp: masked_def dest: list_all2_lengthD)

subsection \<open>Segments of executable text\<close>

definition plain :: "char \<Rightarrow> bool" where
  "plain c \<longleftrightarrow> c \<noteq> CHR ''$'' \<and> c \<noteq> sq \<and> c \<noteq> dq \<and> c \<noteq> CHR ''-'' \<and> c \<noteq> CHR ''/'' \<and> c \<noteq> semicolon"

definition opens_quote :: "string \<Rightarrow> bool" where
  "opens_quote s = (case s of [] \<Rightarrow> False | c # _ \<Rightarrow> c = sq \<or> c = dq)"

text \<open>A piece of SQL that the scanner enters and leaves in the code state, whatever follows it
  (except a quote), without exposing a semicolon.\<close>

definition segment :: "string \<Rightarrow> bool" where
  "segment s \<longleftrightarrow> (\<forall>r. \<not> opens_quote r \<longrightarrow>
     (\<exists>m. length m = length s \<and> semicolon \<notin> set m \<and> scan Code (s @ r) = apfst ((@) m) (scan Code r)))"

lemma scan_plain: "plain c \<Longrightarrow> scan Code (c # s) = apfst ((#) c) (scan Code s)"
  by (simp add: plain_def)

lemma segment_Nil [simp]: "segment []"
  by (auto simp: segment_def prod_eq_iff)

lemma segment_Cons: "plain c \<Longrightarrow> segment s \<Longrightarrow> segment (c # s)"
proof -
  assume c: "plain c" and s: "segment s"
  show ?thesis
    unfolding segment_def
  proof (intro allI impI)
    fix r assume "\<not> opens_quote r"
    with s obtain m where m: "length m = length s" "semicolon \<notin> set m"
        "scan Code (s @ r) = apfst ((@) m) (scan Code r)"
      by (auto simp: segment_def)
    with c show "\<exists>m. length m = length (c # s) \<and> semicolon \<notin> set m \<and>
        scan Code ((c # s) @ r) = apfst ((@) m) (scan Code r)"
      by (intro exI [of _ "c # m"]) (auto simp: scan_plain prod_eq_iff plain_def)
  qed
qed

lemma segment_plain: "list_all plain p \<Longrightarrow> segment s \<Longrightarrow> segment (p @ s)"
  by (induction p) (simp_all add: segment_Cons)

lemma opens_quote_append: "opens_quote (s @ r) \<longleftrightarrow> (if s = [] then opens_quote r else opens_quote s)"
  by (cases s) (simp_all add: opens_quote_def)

lemma segment_append:
  assumes "segment s" "segment t" "\<not> opens_quote t"
  shows "segment (s @ t)"
  unfolding segment_def
proof (intro allI impI)
  fix r assume r: "\<not> opens_quote r"
  with assms(2) obtain n where n: "length n = length t" "semicolon \<notin> set n"
      "scan Code (t @ r) = apfst ((@) n) (scan Code r)"
    by (auto simp: segment_def)
  from r assms(3) have "\<not> opens_quote (t @ r)" by (simp add: opens_quote_append)
  with assms(1) obtain m where m: "length m = length s" "semicolon \<notin> set m"
      "scan Code (s @ t @ r) = apfst ((@) m) (scan Code (t @ r))"
    by (auto simp: segment_def)
  with n show "\<exists>m. length m = length (s @ t) \<and> semicolon \<notin> set m \<and>
      scan Code ((s @ t) @ r) = apfst ((@) m) (scan Code r)"
    by (intro exI [of _ "m @ n"]) (auto simp: prod_eq_iff)
qed

lemma segment_join:
  assumes "list_all segment ss" and "list_all plain sep" and "sep \<noteq> []"
  shows "segment (join sep ss)"
  using assms
proof (induction sep ss rule: join.induct)
  case (3 sep s t ts)
  then have "segment (sep @ join sep (t # ts))" by (simp add: segment_plain)
  moreover have "\<not> opens_quote (sep @ join sep (t # ts))"
    using "3.prems" by (cases sep) (auto simp: opens_quote_def plain_def)
  ultimately show ?case using 3 by (simp add: segment_append)
qed simp_all

lemma segment_scan:
  assumes "segment s"
  shows "\<exists>m. scan Code s = (m, Code) \<and> semicolon \<notin> set m"
  using assms [unfolded segment_def, rule_format, of "[]"] by (auto simp: opens_quote_def)

text \<open>Numbers: plain characters and single hyphens.\<close>

fun number_text :: "string \<Rightarrow> bool" where
  "number_text [] = True"
| "number_text [c] = plain c"
| "number_text (c # d # s) = ((plain c \<or> (c = CHR ''-'' \<and> d \<noteq> CHR ''-'')) \<and> number_text (d # s))"

lemma segment_number: "number_text s \<Longrightarrow> segment s"
proof (induction s rule: number_text.induct)
  case (3 c d s)
  show ?case
  proof (cases "plain c")
    case True
    with 3 show ?thesis by (simp add: segment_Cons)
  next
    case False
    with 3 have c: "c = CHR ''-''" "d \<noteq> CHR ''-''" and IH: "segment (d # s)" by auto
    show ?thesis
      unfolding segment_def
    proof (intro allI impI)
      fix r assume "\<not> opens_quote r"
      with IH obtain m where m: "length m = length (d # s)" "semicolon \<notin> set m"
          "scan Code ((d # s) @ r) = apfst ((@) m) (scan Code r)"
        unfolding segment_def by blast
      have "scan Code (c # d # s @ r) = apfst ((#) c) (scan Code (d # s @ r))"
        using c by (simp add: sq_def dq_def starts_with_def del: scan.simps(2))
          (simp add: scan.simps(2) [of "CHR ''-''"] sq_def dq_def starts_with_def)
      with m c show "\<exists>m. length m = length (c # d # s) \<and> semicolon \<notin> set m \<and>
          scan Code ((c # d # s) @ r) = apfst ((@) m) (scan Code r)"
        by (intro exI [of _ "c # m"]) (auto simp: prod_eq_iff semicolon_def)
    qed
  qed
qed (simp_all add: segment_Cons)

subsection \<open>Quoted text\<close>

lemma replace_all_single: "replace_all [q] r s = concat (map (\<lambda>c. if c = q then r else [c]) s)"
proof (induction s)
  case Nil
  then show ?case by (simp add: replace_all.simps)
next
  case (Cons c s)
  then show ?case by (subst replace_all.simps) (simp add: starts_with_def)
qed

lemma scan_double_body:
  "\<not> starts_with r [dq] \<Longrightarrow>
   scan DoubleQuote (replace_all [dq] [dq, dq] s @ dq # r) =
   apfst ((@) (replicate (Suc (length (replace_all [dq] [dq, dq] s))) blank)) (scan Code r)"
  by (induction s) (auto simp: replace_all_single starts_with_def prod_eq_iff)

lemma scan_single_body:
  "\<not> starts_with r [sq] \<Longrightarrow>
   scan SingleQuote (replace_all [sq] [sq, sq] s @ sq # r) =
   apfst ((@) (replicate (Suc (length (replace_all [sq] [sq, sq] s))) blank)) (scan Code r)"
  by (induction s) (auto simp: replace_all_single starts_with_def prod_eq_iff)

lemma scan_quoted_identifier:
  assumes "\<not> starts_with r [dq]"
  shows "scan Code (([dq] @ replace_all [dq] [dq, dq] s @ [dq]) @ r) =
    apfst ((@) (replicate (length ([dq] @ replace_all [dq] [dq, dq] s @ [dq])) blank)) (scan Code r)"
  using scan_double_body [OF assms, of s] by (simp add: dq_def sq_def prod_eq_iff)

lemma scan_quoted_literal:
  assumes "\<not> starts_with r [sq]"
  shows "scan Code (([sq] @ replace_all [sq] [sq, sq] s @ [sq]) @ r) =
    apfst ((@) (replicate (length ([sq] @ replace_all [sq] [sq, sq] s @ [sq])) blank)) (scan Code r)"
  using scan_single_body [OF assms, of s] by (simp add: sq_def prod_eq_iff)

lemma not_opens_quote: "\<not> opens_quote r \<Longrightarrow> \<not> starts_with r [dq] \<and> \<not> starts_with r [sq]"
  by (cases r) (auto simp: opens_quote_def starts_with_def)

lemma segment_quoted_identifier: "segment ([dq] @ replace_all [dq] [dq, dq] s @ [dq])"
  unfolding segment_def using scan_quoted_identifier not_opens_quote
  by (intro allI impI exI [of _ "replicate (length ([dq] @ replace_all [dq] [dq, dq] s @ [dq])) blank"])
    (auto simp: semicolon_def)

lemma segment_quoted_literal: "segment ([sq] @ replace_all [sq] [sq, sq] s @ [sq])"
  unfolding segment_def using scan_quoted_literal not_opens_quote
  by (intro allI impI exI [of _ "replicate (length ([sq] @ replace_all [sq] [sq, sq] s @ [sq])) blank"])
    (auto simp: semicolon_def)


subsection \<open>Searching at word boundaries\<close>

definition boundary_before :: "string \<Rightarrow> bool" where
  "boundary_before u \<longleftrightarrow> u = [] \<or> \<not> is_word (last u)"

definition boundary_after :: "string \<Rightarrow> bool" where
  "boundary_after v \<longleftrightarrow> v = [] \<or> \<not> is_word (hd v)"

text \<open>The text holds the word \<open>k\<close>, in any letter case, between word boundaries.\<close>

definition has_word :: "string \<Rightarrow> string \<Rightarrow> bool" where
  "has_word k s \<longleftrightarrow> (\<exists>u w v. s = u @ w @ v \<and> py_lower w = k \<and> boundary_before u \<and> boundary_after v)"

text \<open>The text holds a call of \<open>k\<close>, in any letter case: the name at a word boundary, then
  whitespace, then an opening parenthesis.\<close>

definition has_call :: "string \<Rightarrow> string \<Rightarrow> bool" where
  "has_call k s \<longleftrightarrow> (\<exists>u w b v. s = u @ w @ b @ ''('' @ v \<and> py_lower w = k \<and> boundary_before u \<and>
     list_all is_space b)"

lemma search_from_iff:
  "search_from prev p s \<longleftrightarrow>
   (\<exists>u v. s = u @ v \<and> v \<noteq> [] \<and> (if u = [] then \<not> prev else \<not> is_word (last u)) \<and> p v)"
proof (induction s arbitrary: prev)
  case Nil
  then show ?case by simp
next
  case (Cons c s)
  have "(\<exists>u v. c # s = u @ v \<and> v \<noteq> [] \<and> (if u = [] then \<not> prev else \<not> is_word (last u)) \<and> p v) \<longleftrightarrow>
    (\<not> prev \<and> p (c # s)) \<or>
    (\<exists>u v. s = u @ v \<and> v \<noteq> [] \<and> (if u = [] then \<not> is_word c else \<not> is_word (last u)) \<and> p v)"
    (is "?L \<longleftrightarrow> ?R")
  proof
    assume ?L
    then obtain u v where uv: "c # s = u @ v" "v \<noteq> []"
        "if u = [] then \<not> prev else \<not> is_word (last u)" "p v" by blast
    then show ?R by (cases u) (auto split: if_splits)
  next
    assume ?R
    then show ?L
    proof
      assume "\<not> prev \<and> p (c # s)"
      then show ?L by (intro exI [of _ "[]"] exI [of _ "c # s"]) simp
    next
      assume "\<exists>u v. s = u @ v \<and> v \<noteq> [] \<and> (if u = [] then \<not> is_word c else \<not> is_word (last u)) \<and> p v"
      then obtain u v where "s = u @ v" "v \<noteq> []"
          "if u = [] then \<not> is_word c else \<not> is_word (last u)" "p v" by blast
      then show ?L by (intro exI [of _ "c # u"] exI [of _ v]) auto
    qed
  qed
  with Cons.IH show ?case by simp
qed

lemma search_from_False:
  "search_from False p s \<longleftrightarrow> (\<exists>u v. s = u @ v \<and> v \<noteq> [] \<and> boundary_before u \<and> p v)"
  unfolding search_from_iff boundary_before_def by (intro iff_exI) auto

lemma matches_ci_iff: "matches_ci k s \<longleftrightarrow> (\<exists>w v. s = w @ v \<and> py_lower w = k)"
proof
  assume "matches_ci k s"
  then show "\<exists>w v. s = w @ v \<and> py_lower w = k"
    by (metis append_take_drop_id matches_ci_def)
next
  assume "\<exists>w v. s = w @ v \<and> py_lower w = k"
  then show "matches_ci k s" by (auto simp: matches_ci_def py_lower_def)
qed

lemma matches_ci_simps [py_simps]:
  "matches_ci [] s" "\<not> matches_ci (k # ks) []"
  "matches_ci (k # ks) (c # s) \<longleftrightarrow> lower_char c = k \<and> matches_ci ks s"
  by (auto simp: matches_ci_def py_lower_def)

lemma word_next_boundary: "\<not> word_next v \<longleftrightarrow> boundary_after v"
  by (cases v) (simp_all add: word_next_def boundary_after_def)

lemma no_keyword_found:
  assumes "\<not> search_from False keyword_at s" and "k \<in> set forbidden_keywords"
  shows "\<not> has_word k s"
proof
  assume "has_word k s"
  then obtain u w v where s: "s = u @ w @ v" "py_lower w = k" "boundary_before u" "boundary_after v"
    by (auto simp: has_word_def)
  have len: "length k = length w" using s(2) by (auto simp: py_lower_def)
  have "k \<noteq> []" using assms(2) by (auto simp: forbidden_keywords_def)
  with len have "w @ v \<noteq> []" by auto
  moreover have "keyword_at (w @ v)"
    unfolding keyword_at_def list_ex_iff
    using assms(2) s(2,4) len by (intro bexI [of _ k]) (auto simp: matches_ci_iff word_next_boundary)
  ultimately show False
    using assms(1) s by (auto simp: search_from_False)
qed

lemma no_function_found:
  assumes "\<not> search_from False function_at s" and "k \<in> set forbidden_functions"
  shows "\<not> has_call k s"
proof
  assume "has_call k s"
  then obtain u w b v where s: "s = u @ w @ b @ ''('' @ v" "py_lower w = k" "boundary_before u"
      "list_all is_space b"
    by (auto simp: has_call_def)
  have len: "length k = length w" using s(2) by (auto simp: py_lower_def)
  have "dropWhile is_space (b @ ''('' @ v) = ''('' @ v"
    using s(4) by (simp add: list_all_iff is_space_def cp_def)
  then have "function_at (w @ b @ ''('' @ v)"
    unfolding function_at_def list_ex_iff
    using assms(2) s(2) len
    by (intro bexI [of _ k]) (auto simp: matches_ci_iff starts_with_def)
  then show False
    using assms(1) s by (auto simp: search_from_False)
qed

subsection \<open>Substituting the input relation\<close>

lemma starts_with_replaced:
  "starts_with (replace_all input_placeholder ''__input__'' s) t \<Longrightarrow> CHR ''_'' \<notin> set t \<Longrightarrow>
   starts_with s t"
proof (induction t arbitrary: s)
  case (Cons x t)
  show ?case
  proof (cases s)
    case Nil
    with Cons.prems show ?thesis by (simp add: replace_all.simps starts_with_def)
  next
    case (Cons c s')
    with Cons.prems Cons.IH [of s'] show ?thesis
      by (subst (asm) replace_all.simps) (auto simp: starts_with_def split: if_splits)
  qed
qed simp

lemma contains_append_start:
  "contains (w @ s) p \<Longrightarrow> p \<noteq> [] \<Longrightarrow> hd p \<notin> set w \<Longrightarrow> contains s p"
  by (induction w) (auto simp: starts_with_iff neq_Nil_conv)

lemma not_contains_replaced:
  "\<not> contains (replace_all input_placeholder ''__input__'' s) input_placeholder"
proof (induction s rule: length_induct)
  case (1 s)
  show ?case
  proof (cases s)
    case Nil
    then show ?thesis by (simp add: replace_all.simps input_placeholder_def)
  next
    case (Cons c s')
    show ?thesis
    proof (cases "starts_with s input_placeholder")
      case True
      then have "replace_all input_placeholder ''__input__'' s =
          ''__input__'' @ replace_all input_placeholder ''__input__'' (drop (length input_placeholder) s)"
        using Cons by (subst replace_all.simps) (simp add: input_placeholder_def)
      moreover have "length (drop (length input_placeholder) s) < length s"
        using Cons by (simp add: input_placeholder_def)
      moreover have "input_placeholder \<noteq> []" "hd input_placeholder \<notin> set ''__input__''"
        by (simp_all add: input_placeholder_def)
      ultimately show ?thesis
        using "1.IH" contains_append_start by metis
    next
      case False
      then have eq: "replace_all input_placeholder ''__input__'' s =
          c # replace_all input_placeholder ''__input__'' s'"
        using Cons by (subst replace_all.simps) simp
      have "\<not> starts_with (replace_all input_placeholder ''__input__'' s) input_placeholder"
        using False starts_with_replaced [of s input_placeholder] by (auto simp: input_placeholder_def)
      with eq "1.IH" Cons show ?thesis by simp
    qed
  qed
qed

lemma contains_replaced:
  "contains s input_placeholder \<Longrightarrow>
   contains (replace_all input_placeholder ''__input__'' s) ''__input__''"
proof (induction s)
  case (Cons c s)
  show ?case
  proof (cases "starts_with (c # s) input_placeholder")
    case True
    then have "replace_all input_placeholder ''__input__'' (c # s) =
        ''__input__'' @ replace_all input_placeholder ''__input__'' (drop (length input_placeholder) (c # s))"
      by (subst replace_all.simps) (simp add: input_placeholder_def)
    then show ?thesis unfolding contains_iff by (metis append_Nil)
  next
    case False
    then have "replace_all input_placeholder ''__input__'' (c # s) =
        c # replace_all input_placeholder ''__input__'' s"
      by (subst replace_all.simps) simp
    with Cons False show ?thesis by simp
  qed
qed (simp add: input_placeholder_def)

lemma set_replaced: "set (replace_all p r s) \<subseteq> set s \<union> set r"
proof (induction p r s rule: replace_all.induct)
  case (1 p r s)
  show ?case
  proof (cases s)
    case (Cons c s')
    have "set (drop (length p) s) \<subseteq> set s" by (rule set_drop_subset)
    with 1 Cons show ?thesis by (subst replace_all.simps) auto
  qed (simp add: replace_all.simps)
qed

subsection \<open>The text left after the leading comments\<close>

lemma after_block_suffix: "after_block s = Some t \<Longrightarrow> \<exists>u. s = u @ t"
proof (induction s)
  case (Cons c s)
  show ?case
  proof (cases "c = CHR ''*'' \<and> starts_with s ''/''")
    case True
    with Cons.prems have "c # s = (c # take 1 s) @ t" by auto
    then show ?thesis by blast
  next
    case False
    with Cons.prems have "after_block s = Some t" by (simp split: if_split_asm)
    then obtain u where "s = u @ t" using Cons.IH by blast
    then have "c # s = (c # u) @ t" by simp
    then show ?thesis by blast
  qed
qed simp

lemma dropWhile_suffix: "\<exists>u. s = u @ dropWhile P s"
  by (metis takeWhile_dropWhile_id)

lemma skip_comments_suffix: "\<exists>u. s = u @ skip_comments s"
proof (induction s rule: skip_comments.induct)
  case (1 s)
  have drop2: "\<exists>u. s = u @ t" if "\<exists>u. drop 2 s = u @ t" for t
    using that by (metis append.assoc append_take_drop_id)
  show ?case
  proof (cases "starts_with s ''--''")
    case True
    show ?thesis
    proof (cases "dropWhile (\<lambda>c. cp c \<noteq> 10) (drop 2 s)")
      case Nil
      with True have "skip_comments s = s"
        by (subst skip_comments.simps) (simp only: if_True list.case)
      then show ?thesis by simp
    next
      case (Cons c t)
      obtain u where "t = u @ skip_comments t"
        using "1.IH"(1) [OF True Cons] by blast
      moreover have "\<exists>w. drop 2 s = w @ c # t"
        using dropWhile_suffix Cons by metis
      ultimately have "\<exists>u. s = u @ skip_comments t"
        by (intro drop2) (metis append.assoc append_Cons)
      then show ?thesis using True Cons by (subst skip_comments.simps) simp
    qed
  next
    case no_line: False
    show ?thesis
    proof (cases "starts_with s ''/*''")
      case True
      show ?thesis
      proof (cases "after_block (drop 2 s)")
        case None
        with True no_line show ?thesis by (subst skip_comments.simps) simp
      next
        case (Some t)
        obtain u where "lstrip t = u @ skip_comments (lstrip t)"
          using "1.IH"(2) [OF no_line True Some] by blast
        moreover obtain w where "t = w @ lstrip t"
          using dropWhile_suffix unfolding lstrip_def by blast
        moreover obtain x where "drop 2 s = x @ t"
          using after_block_suffix [OF Some] by blast
        ultimately have "\<exists>u. s = u @ skip_comments (lstrip t)"
          by (intro drop2) (metis append.assoc)
        then show ?thesis using True no_line Some by (subst skip_comments.simps) simp
      qed
    next
      case False
      with no_line show ?thesis by (subst skip_comments.simps) simp
    qed
  qed
qed

lemma leading_comment_removed_suffix: "\<exists>u. s = u @ leading_comment_removed s"
  unfolding leading_comment_removed_def lstrip_def
  by (metis append.assoc dropWhile_suffix skip_comments_suffix)

lemma last_normalize_query:
  "normalize_query q \<noteq> [] \<Longrightarrow> \<not> is_space (last (normalize_query q))"
  by (auto simp: normalize_query_def Let_def last_py_strip split: if_splits)

lemma split_ws_Nil: "split_ws s = [] \<Longrightarrow> \<forall>c \<in> set s. is_space c"
  by (subst (asm) split_ws.simps) (auto simp: Let_def split: if_splits)

text \<open>Nothing but whitespace is never left over: the first token always exists.\<close>

lemma first_token_exists:
  assumes "leading_comment_removed (normalize_query q) \<noteq> []"
  shows "\<exists>w. first_token (leading_comment_removed (normalize_query q)) = Inr w"
proof -
  let ?n = "normalize_query q" and ?b = "leading_comment_removed (normalize_query q)"
  obtain u where u: "?n = u @ ?b" using leading_comment_removed_suffix by blast
  with assms have "last ?n = last ?b" "?n \<noteq> []" by (metis last_appendR, auto)
  with last_normalize_query have "\<not> is_space (last ?b)" by metis
  with assms split_ws_Nil [of ?b] have "split_ws ?b \<noteq> []" by auto
  then show ?thesis by (cases "split_ws ?b") (auto simp: first_token_def)
qed


section \<open>Properties\<close>

text \<open>\<^verbatim>\<open>_strip_literals_and_comments\<close> masks in place: when it returns, the result has the
  length of the query and each of its characters is the query's own character or a
  blank; when it raises, the scan ended inside a quoted text or a block comment.\<close>

theorem strip_literals_and_comments_masks:
  "case strip_literals_and_comments sql of
     Inr m \<Rightarrow> length m = length sql \<and>
       list_all2 (\<lambda>r c. r = c \<or> r = CHR '' '') m sql \<and> terminated (snd (scan Code sql))
   | Inl e \<Rightarrow> \<not> terminated (snd (scan Code sql)) \<and>
       e = ValueError ''SQL query contains an unterminated literal or comment''"
  using masked_scan [of Code sql] length_scan [of Code sql]
  by (auto simp: strip_literals_and_comments_def masked_def split: prod.split)

text \<open>A quoted identifier cannot be escaped from: scanning \<^verbatim>\<open>quote_identifier(s)\<close> followed
  by any text that does not itself begin with a double quote blanks out exactly the
  quoted identifier and continues in the code state; only the empty name is refused.\<close>

theorem quote_identifier_closed:
  "case quote_identifier s of
     Inl e \<Rightarrow> s = [] \<and> e = ValueError ''Identifier must be a non-empty string''
   | Inr q \<Rightarrow> s \<noteq> [] \<and> (starts_with r [dq] \<or>
       scan Code (q @ r) = apfst ((@) (replicate (length q) (CHR '' ''))) (scan Code r))"
proof (cases "s = []")
  case False
  then have "quote_identifier s = Inr ([dq] @ replace_all [dq] [dq, dq] s @ [dq])"
    by (simp add: quote_identifier_def)
  with False scan_quoted_identifier [of r s] show ?thesis
    by (simp del: scan.simps append.simps append_Cons append_assoc replicate.simps length_append) blast
qed (simp add: quote_identifier_def)

text \<open>C23.  A query accepted by \<^verbatim>\<open>validate_sql_step_query\<close> is a single statement that starts with
  \<^verbatim>\<open>SELECT\<close> or \<^verbatim>\<open>WITH\<close>; outside its literals and comments it holds no forbidden keyword and
  no forbidden file-access call, in any letter case; and the returned text refers to
  \<^verbatim>\<open>__input__\<close> wherever the query referred to \<^verbatim>\<open>{{input}}\<close>, with no placeholder and no
  semicolon left.\<close>

theorem validate_sql_step_query_safe:
  assumes "validate_sql_step_query (PStr q) req = Inr sql"
  shows "semicolon \<notin> set sql \<and> \<not> contains sql ''{{input}}'' \<and>
    (req \<longrightarrow> contains sql ''__input__'') \<and> \<not> has_uri (normalize_query q) \<and>
    (\<exists>kw m. first_token (leading_comment_removed (normalize_query q)) = Inr kw \<and>
       py_lower kw \<in> set allowed_starts \<and>
       strip_literals_and_comments (leading_comment_removed (normalize_query q)) = Inr m \<and>
       (\<forall>k \<in> set forbidden_keywords. \<not> has_word k m) \<and>
       (\<forall>k \<in> set forbidden_functions. \<not> has_call k m))"
proof -
  let ?n = "normalize_query q" and ?b = "leading_comment_removed (normalize_query q)"
  from assms have 1: "semicolon \<notin> set ?n" "\<not> has_uri ?n" "req \<longrightarrow> contains ?n input_placeholder"
    and 2: "bindE (first_token ?b) (\<lambda>kw.
              if py_lower kw \<notin> set allowed_starts
              then Inl (ValueError ''Only SELECT/CTE queries are allowed'')
              else bindE (check_scanned ?b) (\<lambda>_.
                Inr (replace_all input_placeholder ''__input__'' ?n))) = Inr sql"
    by (simp_all add: validate_sql_step_query_def Let_def split: if_split_asm)
  from 2 obtain kw where 3: "first_token ?b = Inr kw" "py_lower kw \<in> set allowed_starts"
      "check_scanned ?b = Inr ()" "sql = replace_all input_placeholder ''__input__'' ?n"
    by (auto split: if_split_asm)
  from 3(3) obtain m where 4: "strip_literals_and_comments ?b = Inr m"
      "\<not> search_from False keyword_at m" "\<not> search_from False function_at m"
    by (auto simp: check_scanned_def split: if_split_asm)
  have "semicolon \<notin> set sql"
    using 1(1) 3(4) set_replaced [of input_placeholder "''__input__''" ?n]
    by (auto simp: semicolon_def)
  moreover have "\<not> contains sql ''{{input}}''"
    using 3(4) not_contains_replaced [of ?n] by (simp only: input_placeholder_def not_False_eq_True)
  moreover have "req \<longrightarrow> contains sql ''__input__''"
    using 1(3) 3(4) contains_replaced [of ?n] by blast
  ultimately show ?thesis
    using 1(2) 3(1,2) 4(1) no_keyword_found [OF 4(2)] no_function_found [OF 4(3)] by blast
qed

lemma scan_example_keywords:
  "\<not> search_from False keyword_at ''SELECT {{input}}''"
  "\<not> search_from False function_at ''SELECT {{input}}''"
  "\<not> has_uri ''SELECT {{input}}''"
  by (simp_all add: keyword_at_def function_at_def forbidden_keywords_def forbidden_functions_def
      uri_schemes_def py_simps)

lemma validate_sql_example:
  "validate_sql_step_query (PStr ''SELECT {{input}};'') True = Inr ''SELECT __input__''"
proof -
  have n: "py_strip ''SELECT {{input}};'' = ''SELECT {{input}};''"
      "normalize_query ''SELECT {{input}};'' = ''SELECT {{input}}''"
    by (simp_all add: normalize_query_def py_strip_def semicolon_def py_simps)
  have b: "leading_comment_removed ''SELECT {{input}}'' = ''SELECT {{input}}''"
    by (simp add: leading_comment_removed_def lstrip_def skip_comments.simps py_simps)
  have t: "first_token ''SELECT {{input}}'' = Inr ''SELECT''" "py_lower ''SELECT'' = ''select''"
    by (simp_all add: first_token_def split_ws.simps py_lower_def py_simps)
  have c: "contains ''SELECT {{input}}'' input_placeholder"
    by (simp add: input_placeholder_def py_simps)
  have m: "check_scanned ''SELECT {{input}}'' = Inr ()"
    using scan_example_keywords
    by (simp add: check_scanned_def strip_literals_and_comments_def terminated_def sq_def dq_def)
  have r: "replace_all input_placeholder ''__input__'' ''SELECT {{input}}'' = ''SELECT __input__''"
    by (simp add: input_placeholder_def replace_all.simps py_simps)
  show ?thesis
    using n b t c m r scan_example_keywords
    by (simp add: validate_sql_step_query_def Let_def allowed_starts_def semicolon_def)
qed

theorem validate_sql_step_query_safe_witness:
  "semicolon \<notin> set ''SELECT __input__'' \<and> contains ''SELECT __input__'' ''__input__''"
  using validate_sql_step_query_safe [OF validate_sql_example] by simp

lemma validate_sql_step_query_ValueError:
  "case validate_sql_step_query v req of Inl e \<Rightarrow> (\<exists>msg. e = ValueError msg) | Inr _ \<Rightarrow> True"
proof (cases v)
  case (PStr q)
  let ?b = "leading_comment_removed (normalize_query q)"
  have tok: "?b = [] \<or> (\<exists>w. first_token ?b = Inr w)"
    using first_token_exists by blast
  have chk: "case check_scanned ?b of Inl e \<Rightarrow> (\<exists>msg. e = ValueError msg) | Inr _ \<Rightarrow> True"
    by (auto simp: check_scanned_def strip_literals_and_comments_def split: prod.split)
  show ?thesis
    using tok chk PStr
    by (auto simp: validate_sql_step_query_def Let_def bindE_def split: sum.split_asm)
qed (simp_all add: validate_sql_step_query_def)

text \<open>\<^verbatim>\<open>validate_sql_step_query\<close> signals every refusal as a \<^verbatim>\<open>ValueError\<close>, which is what its
  callers catch: in particular the access to the first token never fails.\<close>

theorem validate_sql_step_query_errors:
  "case validate_sql_step_query v req of Inl e \<Rightarrow> (\<exists>msg. e = ValueError msg) | Inr _ \<Rightarrow> True"
  by (rule validate_sql_step_query_ValueError)

end
