(* ===== verification/PyNum.thy ===== *)
theory PyNum
  imports PyBase "HOL-Library.Log_Nat"
begin

text \<open>
  Python number conversions and binary64 arithmetic: \<^verbatim>\<open>int(v)\<close>, \<^verbatim>\<open>float(v)\<close>, rounding to the
  nearest double (ties to even) and the format \<^verbatim>\<open>.6f\<close>.  Doubles are exact rationals;
  subnormal results are not distinguished.
\<close>

text \<open>A run of decimal digits in which single underscores may separate digits.\<close>

fun parse_digits :: "bool \<Rightarrow> nat \<Rightarrow> string \<Rightarrow> nat option" where
  "parse_digits after_digit acc [] = (if after_digit then Some acc else None)"
| "parse_digits after_digit acc (c # s) =
     (if is_digit c then parse_digits True (10 * acc + (cp c - 48)) s
      else if cp c = 95 \<and> after_digit then parse_digits False acc s
      else None)"

definition split_sign :: "string \<Rightarrow> int \<times> string" where
  "split_sign s = (case s of [] \<Rightarrow> (1, [])
     | c # t \<Rightarrow> if c = CHR ''-'' then (-1, t) else if c = CHR ''+'' then (1, t) else (1, s))"

definition int_of_str :: "string \<Rightarrow> int option" where
  "int_of_str s = (case split_sign (py_strip s) of (sg, t) \<Rightarrow>
     map_option (\<lambda>n. sg * int n) (parse_digits False 0 t))"

definition truncate_rat :: "rat \<Rightarrow> int" where
  "truncate_rat q = (if q < 0 then - \<lfloor>- q\<rfloor> else \<lfloor>q\<rfloor>)"

definition py_int :: "pyval \<Rightarrow> int result" where
  "py_int v = (case v of
     PBool b \<Rightarrow> Inr (if b then 1 else 0)
   | PInt i \<Rightarrow> Inr i
   | PFloat r (Some q) \<Rightarrow> Inr (truncate_rat q)
   | PFloat r None \<Rightarrow> Inl (if r = ''nan'' then ValueError ''cannot convert float NaN to integer''
                          else OtherError ''OverflowError'')
   | PStr s \<Rightarrow> (case int_of_str s of Some i \<Rightarrow> Inr i
       | None \<Rightarrow> Inl (ValueError (''invalid literal for int() with base 10: '' @ repr_str s)))
   | _ \<Rightarrow> Inl TypeError)"

definition round_half_even :: "rat \<Rightarrow> int" where
  "round_half_even x =
     (let f = \<lfloor>x\<rfloor>; d = x - of_int f in
      if d < 1 / 2 then f else if d > 1 / 2 then f + 1 else if even f then f else f + 1)"

text \<open>The exponent \<open>e\<close> with \<open>2\<^sup>e \<le> x < 2\<^sup>e\<^sup>+\<^sup>1\<close> of a positive rational.\<close>

definition floor_log2 :: "rat \<Rightarrow> int" where
  "floor_log2 x =
     (if x \<ge> 1 then int (floorlog 2 (nat \<lfloor>x\<rfloor>)) - 1
      else let m = nat \<lceil>1 / x\<rceil> in if m \<le> 1 then 0 else - int (floorlog 2 (m - 1)))"

definition pow2 :: "int \<Rightarrow> rat" where
  "pow2 e = (if e \<ge> 0 then 2 ^ nat e else 1 / 2 ^ nat (- e))"

definition round64 :: "rat \<Rightarrow> rat" where
  "round64 x =
     (if x = 0 then 0
      else let a = \<bar>x\<bar>; u = pow2 (floor_log2 a - 52); r = of_int (round_half_even (a / u)) * u
           in if x < 0 then - r else r)"

text \<open>A float as the code computes with it: a finite value, an infinity (positive or not) or
  a NaN.\<close>

datatype flt = Fin rat | Infinite bool | NaN

definition flt_of_repr :: "string \<Rightarrow> rat option \<Rightarrow> flt" where
  "flt_of_repr r q = (case q of Some x \<Rightarrow> Fin x
     | None \<Rightarrow> if r = ''inf'' then Infinite True else if r = ''-inf'' then Infinite False else NaN)"

definition split_exp :: "string \<Rightarrow> string \<times> string option" where
  "split_exp s = (let m = takeWhile (\<lambda>c. c \<noteq> CHR ''e'') s; t = dropWhile (\<lambda>c. c \<noteq> CHR ''e'') s
     in (m, case t of [] \<Rightarrow> None | _ # u \<Rightarrow> Some u))"

definition split_dot :: "string \<Rightarrow> string \<times> string option" where
  "split_dot s = (let m = takeWhile (\<lambda>c. c \<noteq> CHR ''.'') s; t = dropWhile (\<lambda>c. c \<noteq> CHR ''.'') s
     in (m, case t of [] \<Rightarrow> None | _ # u \<Rightarrow> Some u))"

definition digits_or_zero :: "string \<Rightarrow> nat option" where
  "digits_or_zero s = (if s = [] then Some 0 else parse_digits False 0 s)"

definition mantissa :: "string \<Rightarrow> rat option" where
  "mantissa s = (case split_dot s of
     (a, None) \<Rightarrow> map_option of_nat (parse_digits False 0 a)
   | (a, Some b) \<Rightarrow> if a = [] \<and> b = [] then None else
       (case (digits_or_zero a, digits_or_zero b) of
          (Some x, Some y) \<Rightarrow> Some (of_nat x + of_nat y / 10 ^ length (filter is_digit b))
        | _ \<Rightarrow> None))"

definition flt_of_str :: "string \<Rightarrow> flt option" where
  "flt_of_str s0 =
     (case split_sign (py_lower (py_strip s0)) of (sg, s) \<Rightarrow>
        if s \<in> {''inf'', ''infinity''} then Some (Infinite (sg > 0))
        else if s = ''nan'' then Some NaN
        else case split_exp s of (m, ex) \<Rightarrow>
          (case (mantissa m, case ex of None \<Rightarrow> Some 0
                             | Some t \<Rightarrow> (case split_sign t of (es, u) \<Rightarrow>
                                 map_option (\<lambda>n. es * int n) (parse_digits False 0 u))) of
             (Some q, Some e) \<Rightarrow>
               Some (Fin (round64 (of_int sg * q * (if e \<ge> 0 then 10 ^ nat e else 1 / 10 ^ nat (- e)))))
           | _ \<Rightarrow> None))"

definition py_float :: "pyval \<Rightarrow> flt result" where
  "py_float v = (case v of
     PBool b \<Rightarrow> Inr (Fin (if b then 1 else 0))
   | PInt i \<Rightarrow> Inr (Fin (round64 (of_int i)))
   | PFloat r q \<Rightarrow> Inr (flt_of_repr r q)
   | PStr s \<Rightarrow> (case flt_of_str s of Some f \<Rightarrow> Inr f
       | None \<Rightarrow> Inl (ValueError (''could not convert string to float: '' @ repr_str s)))
   | _ \<Rightarrow> Inl TypeError)"

definition pad6 :: "string \<Rightarrow> string" where
  "pad6 s = replicate (6 - length s) (CHR ''0'') @ s"

text \<open>\<^verbatim>\<open>f"{x:.6f}"\<close> for a non-negative finite double.\<close>

definition format_6f :: "rat \<Rightarrow> string" where
  "format_6f x = (let n = nat (round_half_even (x * 1000000))
     in nat_str (n div 1000000) @ ''.'' @ pad6 (nat_str (n mod 1000000)))"

section \<open>Comparison\<close>

text \<open>A comparison of a number with any value: an infinite one is above or below every number, and nothing holds
  of a value that is not a number in the floating-point sense.\<close>

definition compare_num :: "(rat \<Rightarrow> rat \<Rightarrow> bool) \<Rightarrow> rat \<Rightarrow> pyval \<Rightarrow> bool result" where
  "compare_num rel x v =
     (case v of
        PFloat r None \<Rightarrow> Inr (if r = ''inf'' then rel x (x + 1) else if r = ''-inf'' then rel x (x - 1) else False)
      | _ \<Rightarrow> (case py_num v of None \<Rightarrow> Inl TypeError | Some q \<Rightarrow> Inr (rel x q)))"

section \<open>Digits only\<close>

definition numeric_char :: "char \<Rightarrow> bool" where
  "numeric_char c \<longleftrightarrow> is_digit c \<or> c = CHR ''.''"

lemma digit_char_is_digit: "d < 10 \<Longrightarrow> is_digit (digit_char d)"
  by (simp add: digit_char_def is_digit_def)

lemma nat_str_digits: "list_all is_digit (nat_str n)"
proof (induction n rule: nat_str.induct)
  case (1 n)
  then show ?case
    by (subst nat_str.simps) (simp add: digit_char_is_digit)
qed

lemma nat_str_ne: "nat_str n \<noteq> []"
  by (subst nat_str.simps) simp

lemma format_6f_numeric: "list_all numeric_char (format_6f x)"
proof -
  have "list_all numeric_char (nat_str n)" for n
    using nat_str_digits [of n] by (auto simp: list_all_iff numeric_char_def)
  then show ?thesis
    by (auto simp: format_6f_def Let_def pad6_def list_all_iff numeric_char_def is_digit_def cp_def)
qed

lemma truncate_rat_of_int [simp]: "truncate_rat (of_int i) = i"
  by (simp add: truncate_rat_def)

lemma round_half_even_of_int [simp]: "round_half_even (of_int i) = i"
  by (simp add: round_half_even_def)

lemma round_half_even_mono: "x \<le> y \<Longrightarrow> round_half_even x \<le> round_half_even y"
proof -
  assume "x \<le> y"
  then have "\<lfloor>x\<rfloor> \<le> \<lfloor>y\<rfloor>" by (rule floor_mono)
  then consider "\<lfloor>x\<rfloor> < \<lfloor>y\<rfloor>" | "\<lfloor>x\<rfloor> = \<lfloor>y\<rfloor>" by linarith
  then show ?thesis
  proof cases
    case 1
    then show ?thesis by (auto simp: round_half_even_def Let_def)
  next
    case 2
    with \<open>x \<le> y\<close> show ?thesis by (auto simp: round_half_even_def Let_def)
  qed
qed

end
