(* ===== verification/SqlBuilder.thy ===== *)
theory SqlBuilder
  imports SqlScan PyNum
begin

text \<open>
  The SQL builders of \<^verbatim>\<open>backend/execution/sql_builder.py\<close>.  A step is seen through
  \<^verbatim>\<open>_step_value\<close>: an attribute (or key) lookup, in which an enum attribute is given by its
  \<^verbatim>\<open>value\<close> text, since every builder replaces the enum by it before use.
\<close>

section \<open>Definitions\<close>

type_synonym step_view = "string \<Rightarrow> pyval option"

definition step_value :: "step_view \<Rightarrow> string \<Rightarrow> pyval \<Rightarrow> pyval" where
  "step_value st key dflt = (case st key of None \<Rightarrow> dflt | Some v \<Rightarrow> v)"

definition step_type_str :: "step_view \<Rightarrow> string" where
  "step_type_str st = py_str (step_value st ''step_type'' (step_value st ''type'' (PStr [])))"

definition as_list :: "pyval \<Rightarrow> pyval list" where
  "as_list v = (case v of PNone \<Rightarrow> [] | PList vs \<Rightarrow> vs | _ \<Rightarrow> [v])"

definition quoted_list :: "string list \<Rightarrow> string result" where
  "quoted_list cols = bindE (mapE quote_identifier cols) (\<lambda>qs. Inr (join '', '' qs))"

definition compare_ops :: "(string \<times> string) list" where
  "compare_ops =
     [(''equals'', ''=''), (''eq'', ''=''), (''not_equals'', ''!=''), (''neq'', ''!=''),
      (''greater_than'', ''>''), (''gt'', ''>''), (''less_than'', ''<''), (''lt'', ''<''),
      (''gte'', ''>=''), (''lte'', ''<='')]"

definition like_predicate :: "string \<Rightarrow> string \<Rightarrow> string \<Rightarrow> string result" where
  "like_predicate column op pat =
     bindE (sql_literal (PStr pat)) (\<lambda>l. Inr (''CAST('' @ column @ '' AS VARCHAR) '' @ op @ '' '' @ l))"

definition filter_predicate :: "string \<Rightarrow> string \<Rightarrow> pyval \<Rightarrow> string result" where
  "filter_predicate column op value =
     (case map_of compare_ops op of
        Some cmp \<Rightarrow> bindE (sql_literal value) (\<lambda>l. Inr (column @ '' '' @ cmp @ '' '' @ l))
      | None \<Rightarrow>
          if op = ''contains'' then like_predicate column ''LIKE'' (''%'' @ py_str value @ ''%'')
          else if op = ''not_contains'' then like_predicate column ''NOT LIKE'' (''%'' @ py_str value @ ''%'')
          else if op = ''starts_with'' then like_predicate column ''LIKE'' (py_str value @ ''%'')
          else if op = ''ends_with'' then like_predicate column ''LIKE'' (''%'' @ py_str value)
          else if op = ''is_null'' then Inr (column @ '' IS NULL'')
          else if op = ''is_not_null'' then Inr (column @ '' IS NOT NULL'')
          else Inl (ValueError (''Unsupported filter operator '' @ [sq] @ op @ [sq] @ '' for DuckDB routing'')))"

definition build_filter_sql :: "step_view \<Rightarrow> string result" where
  "build_filter_sql st =
     bindE (quote_identifier (py_str (step_value st ''column'' (PStr [])))) (\<lambda>column.
       let op = py_lower (py_str (step_value st ''operator'' (PStr ''equals'')))
       in bindE (filter_predicate column op (step_value st ''value'' PNone)) (\<lambda>predicate.
            Inr (''SELECT * FROM __input__ WHERE '' @ predicate)))"

definition build_select_sql :: "step_view \<Rightarrow> string result" where
  "build_select_sql st =
     (let columns = as_list (step_value st ''columns'' (PList []));
          mode = py_lower (py_str (step_value st ''mode'' (PStr ''include'')))
      in if columns = [] then Inr ''SELECT * FROM __input__''
         else bindE (quoted_list (map py_str columns)) (\<lambda>quoted.
           if mode \<in> set [''drop'', ''exclude'']
           then Inr (''SELECT * EXCLUDE ('' @ quoted @ '') FROM __input__'')
           else Inr (''SELECT '' @ quoted @ '' FROM __input__'')))"

definition sort_directions :: "step_view \<Rightarrow> nat \<Rightarrow> string list result" where
  "sort_directions st n =
     (let ascending = step_value st ''ascending'' PNone in
      if ascending \<noteq> PNone then
        (let vals = as_list ascending;
             vals' = (if length vals = 1 \<and> n > 1 then concat (replicate n vals) else vals)
         in if length vals' \<noteq> n
            then Inl (ValueError (''Sort '' @ [sq] @ ''ascending'' @ [sq] @ '' length must match '' @
                                  [sq] @ ''by'' @ [sq] @ '' columns''))
            else Inr (map (\<lambda>v. if truthy v then ''ASC'' else ''DESC'') vals'))
      else
        Inr (replicate n (if py_lower (py_str (step_value st ''order'' (PStr ''asc''))) = ''desc''
                          then ''DESC'' else ''ASC'')))"

definition order_item :: "string \<times> string \<Rightarrow> string result" where
  "order_item p = bindE (quote_identifier (fst p)) (\<lambda>q. Inr (q @ '' '' @ snd p))"

definition build_sort_sql :: "step_view \<Rightarrow> string result" where
  "build_sort_sql st =
     (let by_columns = filter (\<lambda>c. c \<noteq> []) (map py_str (as_list (step_value st ''by'' (PStr []))))
      in if by_columns = []
         then Inl (ValueError (''Sort step requires at least one '' @ [sq] @ ''by'' @ [sq] @ '' column''))
         else bindE (sort_directions st (length by_columns)) (\<lambda>directions.
           bindE (mapE order_item (zip by_columns directions)) (\<lambda>items.
             Inr (''SELECT * FROM __input__ ORDER BY '' @ join '', '' items))))"

definition simple_fn_map :: "(string \<times> string) list" where
  "simple_fn_map =
     [(''sum'', ''SUM''), (''mean'', ''AVG''), (''avg'', ''AVG''), (''min'', ''MIN''), (''max'', ''MAX''),
      (''count'', ''COUNT''), (''median'', ''MEDIAN''), (''std'', ''STDDEV_SAMP''),
      (''var'', ''VAR_SAMP''), (''first'', ''FIRST''), (''last'', ''LAST''), (''mode'', ''MODE'')]"

text \<open>Iterating over a value as \<^verbatim>\<open>for x in v\<close> does.\<close>

definition iterate :: "pyval \<Rightarrow> pyval list result" where
  "iterate v = (case v of PList vs \<Rightarrow> Inr vs | PStr s \<Rightarrow> Inr (map (\<lambda>c. PStr [c]) s)
                | PDict d \<Rightarrow> Inr (map fst d) | _ \<Rightarrow> Inl TypeError)"

text \<open>The \<^verbatim>\<open>{column: function}\<close> form of the aggregations as the list form.\<close>

definition aggregation_dicts :: "pyval \<Rightarrow> pyval" where
  "aggregation_dicts v =
     (case v of PDict d \<Rightarrow>
        PList (map (\<lambda>(col, func). PDict [(PStr ''column'', col), (PStr ''function'', func)]) d)
      | _ \<Rightarrow> v)"

definition aggregate_expr :: "string \<Rightarrow> string \<Rightarrow> string result" where
  "aggregate_expr q_col func =
     (if func = ''count_distinct'' then Inr (''COUNT(DISTINCT '' @ q_col @ '')'')
      else if func = ''p50'' \<or> func = ''p95''
      then Inr (''QUANTILE_CONT('' @ q_col @ '', '' @ (if func = ''p50'' then ''0.5'' else ''0.95'') @ '')'')
      else case map_of simple_fn_map func of
          Some fn \<Rightarrow> Inr (fn @ ''('' @ q_col @ '')'')
        | None \<Rightarrow> Inl (ValueError (''Unsupported aggregate function '' @ [sq] @ func @ [sq])))"

definition aggregate_item :: "pyval \<Rightarrow> string result" where
  "aggregate_item agg = (case agg of PDict d \<Rightarrow>
       (let column = py_str (get_or d ''column'' (PStr []));
            func = py_lower (py_str (get_or d ''function'' (PStr [])));
            alias = py_str (get_or d ''alias'' (PStr (column @ ''_'' @ func)))
        in bindE (quote_identifier column) (\<lambda>q_col.
           bindE (quote_identifier alias) (\<lambda>q_alias.
           bindE (aggregate_expr q_col func) (\<lambda>expr. Inr (expr @ '' AS '' @ q_alias)))))
     | _ \<Rightarrow> Inl AttributeError)"

definition build_aggregate_sql :: "step_view \<Rightarrow> string result" where
  "build_aggregate_sql st =
     (let group_by = map py_str (as_list (step_value st ''group_by'' (PList [])));
          aggregations = aggregation_dicts (step_value st ''aggregations'' (PList []))
      in if \<not> truthy aggregations
         then Inl (ValueError ''Aggregate step requires at least one aggregation'')
         else bindE (mapE quote_identifier group_by) (\<lambda>group_parts.
           bindE (iterate aggregations) (\<lambda>aggs.
           bindE (mapE aggregate_item aggs) (\<lambda>agg_parts.
             Inr (''SELECT '' @ join '', '' (group_parts @ agg_parts) @ '' FROM __input__'' @
                  (if group_by = [] then [] else '' GROUP BY '' @ join '', '' group_parts))))))"

definition join_upper :: "(string \<times> string) list" where
  "join_upper = [(''inner'', ''INNER''), (''left'', ''LEFT''), (''right'', ''RIGHT''), (''outer'', ''OUTER'')]"

definition build_join_sql :: "step_view \<Rightarrow> string result" where
  "build_join_sql st =
     (let join_key = py_str (step_value st ''on'' (PStr []));
          how = py_lower (py_str (step_value st ''how'' (PStr ''inner'')))
      in if join_key = [] then Inl (ValueError (''Join step requires '' @ [sq] @ ''on'' @ [sq] @ '' key''))
         else case map_of join_upper how of
             None \<Rightarrow> Inl (ValueError (''Unsupported join type '' @ [sq] @ how @ [sq]))
           | Some how_upper \<Rightarrow> bindE (quote_identifier join_key) (\<lambda>q.
               Inr (''SELECT * FROM __left__ '' @ how_upper @ '' JOIN __right__ USING ('' @ q @ '')'')))"

definition build_deduplicate_sql :: "step_view \<Rightarrow> string result" where
  "build_deduplicate_sql st =
     (let subset = map py_str (as_list (step_value st ''subset'' (PList [])));
          keep = py_lower (py_str (step_value st ''keep'' (PStr ''first'')))
      in if subset = [] then
           (if keep \<in> set [''none'', ''false'']
            then Inl (ValueError (''DuckDB deduplicate with keep='' @ [sq] @ ''none'' @ [sq] @
                                  '' requires subset columns''))
            else Inr ''SELECT DISTINCT * FROM __input__'')
         else bindE (quoted_list subset) (\<lambda>partition.
           if keep \<in> set [''first'', ''last''] then
             Inr (''WITH __base AS (SELECT *, ROW_NUMBER() OVER () AS __rowid__ FROM __input__), __ranked AS (SELECT *, ROW_NUMBER() OVER (PARTITION BY ''
                  @ partition @ '' ORDER BY __rowid__ '' @ (if keep = ''first'' then ''ASC'' else ''DESC'') @
                  '') AS __rn FROM __base) SELECT * EXCLUDE (__rowid__, __rn) FROM __ranked WHERE __rn = 1'')
           else if keep \<in> set [''none'', ''false''] then
             Inr (''WITH __base AS (SELECT *, ROW_NUMBER() OVER () AS __rowid__ FROM __input__), __ranked AS (SELECT *, COUNT(*) OVER (PARTITION BY ''
                  @ partition @
                  '') AS __cnt FROM __base) SELECT * EXCLUDE (__rowid__, __cnt) FROM __ranked WHERE __cnt = 1'')
           else Inl (ValueError (''Unsupported keep strategy '' @ [sq] @ keep @ [sq]))))"

definition clamp_fraction :: "flt \<Rightarrow> flt" where
  "clamp_fraction f = (case f of Fin x \<Rightarrow> Fin (if x < 0 then 0 else if x > 1 then 1 else x)
     | Infinite pos \<Rightarrow> Fin (if pos then 1 else 0) | NaN \<Rightarrow> NaN)"

definition percent_text :: "flt \<Rightarrow> string" where
  "percent_text f = (case clamp_fraction f of Fin x \<Rightarrow> format_6f (round64 (x * 100)) | _ \<Rightarrow> ''nan'')"

definition seeded :: "string \<Rightarrow> pyval \<Rightarrow> string result" where
  "seeded method random_state =
     (if random_state = PNone then Inr method
      else bindE (py_int random_state) (\<lambda>i. Inr (method @ '', '' @ int_str i)))"

definition build_sample_sql :: "step_view \<Rightarrow> string result" where
  "build_sample_sql st =
     (let n = step_value st ''n'' PNone;
          fraction = step_value st ''fraction'' (step_value st ''frac'' PNone);
          random_state = step_value st ''random_state'' PNone
      in if n = PNone \<and> fraction = PNone
         then Inl (ValueError (''Sample step requires either '' @ [sq] @ ''n'' @ [sq] @ '' or '' @
                               [sq] @ ''fraction'' @ [sq]))
         else if n \<noteq> PNone \<and> fraction \<noteq> PNone
         then Inl (ValueError (''Sample step cannot define both '' @ [sq] @ ''n'' @ [sq] @ '' and '' @
                               [sq] @ ''fraction'' @ [sq]))
         else if n \<noteq> PNone then
           bindE (py_int n) (\<lambda>i. bindE (seeded ''reservoir'' random_state) (\<lambda>spec.
             Inr (''SELECT * FROM __input__ USING SAMPLE '' @ int_str (max 0 i) @ '' ROWS ('' @ spec @ '')'')))
         else
           bindE (py_float fraction) (\<lambda>f. bindE (seeded ''bernoulli'' random_state) (\<lambda>spec.
             Inr (''SELECT * FROM __input__ USING SAMPLE '' @ percent_text f @ ''% ('' @ spec @ '')''))))"

definition coalesce_as :: "string \<Rightarrow> string \<Rightarrow> string" where
  "coalesce_as q expr = ''COALESCE('' @ q @ '', '' @ expr @ '') AS '' @ q"

definition constant_item :: "pyval \<Rightarrow> string \<Rightarrow> string result" where
  "constant_item v col = bindE (quote_identifier col) (\<lambda>q. bindE (sql_literal v) (\<lambda>l.
     Inr (coalesce_as q l)))"

definition statistic_item :: "string \<Rightarrow> string \<Rightarrow> string result" where
  "statistic_item fn col = bindE (quote_identifier col) (\<lambda>q.
     Inr (coalesce_as q (fn @ ''('' @ q @ '') OVER ()'')))"

definition directional_item :: "bool \<Rightarrow> string \<Rightarrow> string result" where
  "directional_item forward col = bindE (quote_identifier col) (\<lambda>q.
     Inr (coalesce_as q
       (if forward
        then ''LAST_VALUE('' @ q @ '' IGNORE NULLS) OVER (ORDER BY __rowid__ ROWS BETWEEN UNBOUNDED PRECEDING AND CURRENT ROW)''
        else ''FIRST_VALUE('' @ q @ '' IGNORE NULLS) OVER (ORDER BY __rowid__ ROWS BETWEEN CURRENT ROW AND UNBOUNDED FOLLOWING)'')))"

definition fill_strategy :: "string \<Rightarrow> string" where
  "fill_strategy s = (if s = ''ffill'' then ''forward_fill'' else if s = ''bfill'' then ''backward_fill'' else s)"

definition fill_statistics :: "(string \<times> string) list" where
  "fill_statistics = [(''mean'', ''AVG''), (''median'', ''MEDIAN''), (''mode'', ''MODE'')]"

definition build_fill_nulls_sql :: "step_view \<Rightarrow> string result" where
  "build_fill_nulls_sql st =
     (let strategy0 = py_lower (py_str (step_value st ''strategy'' (step_value st ''method'' (PStr ''constant''))));
          columns = map py_str (as_list (step_value st ''columns'' (PList [])));
          strategy = fill_strategy strategy0
      in if columns = []
         then Inl (ValueError (''fill_nulls DuckDB routing requires explicit '' @ [sq] @ ''columns'' @ [sq]))
         else if strategy = ''constant'' then
           (let v = step_value st ''constant_value'' (step_value st ''value'' PNone)
            in bindE (mapE (constant_item v) columns) (\<lambda>es.
                 Inr (''SELECT * REPLACE ('' @ join '', '' es @ '') FROM __input__'')))
         else case map_of fill_statistics strategy of
             Some fn \<Rightarrow> bindE (mapE (statistic_item fn) columns) (\<lambda>es.
                 Inr (''SELECT * REPLACE ('' @ join '', '' es @ '') FROM __input__''))
           | None \<Rightarrow>
               if strategy = ''forward_fill'' \<or> strategy = ''backward_fill'' then
                 bindE (mapE (directional_item (strategy = ''forward_fill'')) columns) (\<lambda>es.
                   Inr (''WITH __base AS (SELECT *, ROW_NUMBER() OVER () AS __rowid__ FROM __input__) SELECT * EXCLUDE (__rowid__) REPLACE (''
                        @ join '', '' es @ '') FROM __base''))
               else Inl (ValueError (''Unsupported fill_nulls strategy '' @ [sq] @ strategy @ [sq])))"

definition build_pivot_sql :: "step_view \<Rightarrow> string result" where
  "build_pivot_sql st =
     (let index_cols = map py_str (as_list (step_value st ''index'' (PList [])));
          columns_col = py_str (step_value st ''columns'' (PStr []));
          values_col = py_str (step_value st ''values'' (PStr []));
          aggfunc = py_str (step_value st ''aggfunc'' (PStr ''sum''))
      in if columns_col = [] \<or> values_col = []
         then Inl (ValueError (''Pivot step requires '' @ [sq] @ ''columns'' @ [sq] @ '' and '' @
                               [sq] @ ''values'' @ [sq]))
         else if \<not> is_valid_identifier aggfunc
         then Inl (ValueError ''Pivot aggfunc must be a simple SQL function identifier'')
         else bindE (quoted_list index_cols) (\<lambda>group_cols.
           bindE (quote_identifier columns_col) (\<lambda>q_cols.
           bindE (quote_identifier values_col) (\<lambda>q_vals.
             Inr (''SELECT * FROM (PIVOT __input__ ON '' @ q_cols @ '' USING '' @ aggfunc @ ''('' @ q_vals @ '')'' @
                  (if index_cols = [] then [] else '' GROUP BY '' @ group_cols) @ '')'')))))"

definition build_unpivot_sql :: "step_view \<Rightarrow> string result" where
  "build_unpivot_sql st =
     (let id_vars = map py_str (as_list (step_value st ''id_vars'' (PList [])));
          value_vars = map py_str (as_list (step_value st ''value_vars'' (PList [])));
          var_name = py_str (step_value st ''var_name'' (PStr ''variable''));
          value_name = py_str (step_value st ''value_name'' (PStr ''value''))
      in if value_vars = [] then Inl (ValueError ''Unpivot step requires non-empty value_vars'')
         else bindE (quoted_list (id_vars @ value_vars)) (\<lambda>source_projection.
           bindE (quoted_list value_vars) (\<lambda>unpivot_columns.
           bindE (quote_identifier var_name) (\<lambda>q_var.
           bindE (quote_identifier value_name) (\<lambda>q_val.
             Inr (''SELECT * FROM (UNPIVOT (SELECT '' @ source_projection @ '' FROM __input__) ON '' @
                  unpivot_columns @ '' INTO NAME '' @ q_var @ '' VALUE '' @ q_val @ '')''))))))"

definition build_sql_step_sql :: "step_view \<Rightarrow> string result" where
  "build_sql_step_sql st =
     validate_sql_step_query (PStr (py_str (step_value st ''query'' (PStr [])))) True"

definition sql_builders :: "(string \<times> (step_view \<Rightarrow> string result)) list" where
  "sql_builders =
     [(''filter'', build_filter_sql), (''select'', build_select_sql), (''sort'', build_sort_sql),
      (''aggregate'', build_aggregate_sql), (''join'', build_join_sql),
      (''deduplicate'', build_deduplicate_sql), (''sample'', build_sample_sql),
      (''fill_nulls'', build_fill_nulls_sql), (''pivot'', build_pivot_sql),
      (''unpivot'', build_unpivot_sql), (''sql'', build_sql_step_sql)]"

definition build_sql_for_step :: "step_view \<Rightarrow> string result" where
  "build_sql_for_step st =
     (case map_of sql_builders (step_type_str st) of
        None \<Rightarrow> Inl (ValueError (''No SQL builder registered for step type '' @ [sq] @ step_type_str st @ [sq]))
      | Some builder \<Rightarrow> builder st)"


section \<open>Every builder writes closed SQL\<close>

text \<open>The text of a finite float, as \<^verbatim>\<open>repr\<close> writes it, has digits, a point, an exponent and
  single hyphens only.\<close>

fun floats_ok :: "pyval \<Rightarrow> bool" where
  "floats_ok (PFloat r q) = number_text r"
| "floats_ok (PList vs) = list_all floats_ok vs"
| "floats_ok _ = True"

definition view_ok :: "step_view \<Rightarrow> bool" where
  "view_ok st \<longleftrightarrow> (\<forall>k v. st k = Some v \<longrightarrow> floats_ok v)"

lemma view_ok_value: "view_ok st \<Longrightarrow> floats_ok d \<Longrightarrow> floats_ok (step_value st k d)"
  by (auto simp: view_ok_def step_value_def split: option.split)

lemma opens_quote_simps [simp]:
  "\<not> opens_quote []" "opens_quote (c # s) \<longleftrightarrow> c = sq \<or> c = dq"
  by (simp_all add: opens_quote_def)

lemma segment_Cons_iff: "plain c \<Longrightarrow> segment (c # s) \<longleftrightarrow> segment s"
proof
  assume c: "plain c" and cs: "segment (c # s)"
  show "segment s"
    unfolding segment_def
  proof (intro allI impI)
    fix r assume "\<not> opens_quote r"
    with cs obtain m where m: "length m = Suc (length s)" "semicolon \<notin> set m"
        "scan Code (c # s @ r) = apfst ((@) m) (scan Code r)"
      by (auto simp: segment_def simp del: scan.simps(2))
    then obtain x m' where "m = x # m'" by (cases m) auto
    with m c show "\<exists>m. length m = length s \<and> semicolon \<notin> set m \<and>
        scan Code (s @ r) = apfst ((@) m) (scan Code r)"
      by (intro exI [of _ m']) (auto simp: scan_plain prod_eq_iff simp del: scan.simps(2))
  qed
qed (rule segment_Cons)

lemmas seg_simps = segment_Cons_iff segment_append plain_def sq_def dq_def semicolon_def

lemma plain_digit: "is_digit c \<Longrightarrow> plain c"
  by (auto simp: plain_def is_digit_def cp_def sq_def dq_def semicolon_def)

lemma plain_ident: "ident_char c \<Longrightarrow> plain c"
  by (auto simp: plain_def ident_char_def is_ascii_letter_def is_digit_def cp_def sq_def dq_def
      semicolon_def)

lemma plain_valid_identifier: "is_valid_identifier s \<Longrightarrow> list_all plain s"
proof -
  assume s: "is_valid_identifier s"
  have "plain c" if "cp c = 10" for c
    using that by (auto simp: plain_def cp_def sq_def dq_def semicolon_def)
  with s show ?thesis
    by (auto simp: list_all_iff dest!: is_valid_identifier_chars intro: plain_ident)
qed

lemma list_all_plain_segment: "list_all plain s \<Longrightarrow> segment s"
  using segment_plain [of s "[]"] by simp

lemma segment_nat_str: "segment (nat_str n)"
  using nat_str_digits [of n]
  by (intro list_all_plain_segment) (auto simp: list_all_iff intro: plain_digit)

lemma number_text_plain: "list_all plain s \<Longrightarrow> number_text s"
  by (induction s rule: number_text.induct) auto

lemma segment_int_str: "segment (int_str i)"
proof -
  have p: "list_all plain (nat_str n)" for n
    using nat_str_digits [of n] by (auto simp: list_all_iff intro: plain_digit)
  have "number_text (CHR ''-'' # nat_str n)" for n
    using p [of n] number_text_plain [OF p [of n]] nat_str_ne [of n]
    by (cases "nat_str n") (auto simp: plain_def)
  with p show ?thesis
    by (auto simp: int_str_def intro: segment_number number_text_plain)
qed

lemma segment_quote_identifier: "quote_identifier s = Inr q \<Longrightarrow> segment q"
  using segment_quoted_identifier [of s] by (auto simp: quote_identifier_def split: if_splits)

lemma segment_quoted_list: "quoted_list cols = Inr q \<Longrightarrow> segment q"
proof -
  assume "quoted_list cols = Inr q"
  then obtain qs where qs: "mapE quote_identifier cols = Inr qs" "q = join '', '' qs"
    by (auto simp: quoted_list_def)
  from qs(1) have "list_all segment qs"
    by (auto simp: list_all_iff dest!: mapE_Inr_set intro: segment_quote_identifier)
  then show ?thesis unfolding qs(2) by (intro segment_join) (simp_all add: seg_simps)
qed

lemma segment_mapE:
  assumes "mapE f xs = Inr ys" and "\<And>x y. x \<in> set xs \<Longrightarrow> f x = Inr y \<Longrightarrow> segment y"
  shows "list_all segment ys"
  using assms by (auto simp: list_all_iff dest: mapE_Inr_set)

lemma segment_commas: "list_all segment ss \<Longrightarrow> segment (join '', '' ss)"
  by (intro segment_join) (simp_all add: seg_simps)

lemma segment_sql_literal: "floats_ok v \<Longrightarrow> sql_literal v = Inr l \<Longrightarrow> segment l"
proof (induction v arbitrary: l rule: sql_literal.induct)
  case (6 vs)
  from 6(3) obtain ls where ls: "mapE sql_literal vs = Inr ls" "l = ''('' @ join '', '' ls @ '')''"
    by auto
  from 6(1,2) have "list_all segment ls"
    by (intro segment_mapE [OF ls(1)]) (auto simp: list_all_iff)
  then have "segment (join '', '' ls)" by (rule segment_commas)
  then show ?case unfolding ls(2) by (simp add: seg_simps)
next
  case (7 s)
  then show ?case using segment_quoted_literal [of s] by auto
next
  case (8 d)
  then show ?case using segment_quoted_literal [of "py_str (PDict d)"] by auto
qed (auto simp: seg_simps segment_int_str intro: segment_number)


subsection \<open>The contract of a builder\<close>

text \<open>What every SQL builder promises its caller: on a step whose float values are written as
  Python writes them, the SQL it returns is a closed segment.\<close>

locale sql_builder =
  fixes build :: "step_view \<Rightarrow> string result"
  assumes closed: "view_ok st \<Longrightarrow> build st = Inr sql \<Longrightarrow> segment sql"
begin

lemma scans_to_code: "view_ok st \<Longrightarrow> build st = Inr sql \<Longrightarrow>
  \<exists>m. scan Code sql = (m, Code) \<and> semicolon \<notin> set m"
  by (rule segment_scan [OF closed])

lemma strips: "view_ok st \<Longrightarrow> build st = Inr sql \<Longrightarrow>
  \<exists>m. strip_literals_and_comments sql = Inr m \<and> semicolon \<notin> set m"
  using scans_to_code [of st sql]
  by (auto simp: strip_literals_and_comments_def terminated_def)

end

lemma segment_filter_predicate:
  assumes "segment column" "floats_ok v" "filter_predicate column op v = Inr p"
  shows "segment p"
proof (cases "map_of compare_ops op")
  case None
  have "segment l" if "sql_literal (PStr x) = Inr l" for x l
    using that segment_sql_literal [of "PStr x" l] by simp
  with None assms show ?thesis
    by (auto simp: filter_predicate_def like_predicate_def seg_simps split: if_splits)
next
  case (Some cmp)
  then have "list_all plain cmp"
    by (auto simp: compare_ops_def plain_def sq_def dq_def semicolon_def split: if_splits)
  moreover obtain l where l: "sql_literal v = Inr l" "p = column @ '' '' @ cmp @ '' '' @ l"
    using Some assms(3) by (auto simp: filter_predicate_def)
  moreover have "segment l" by (rule segment_sql_literal [OF assms(2) l(1)])
  ultimately have "segment (cmp @ '' '' @ l)"
    by - (rule segment_plain, simp_all add: seg_simps)
  with assms(1) l(2) show ?thesis by (simp add: seg_simps)
qed

lemma segment_order_item: "snd p \<in> {''ASC'', ''DESC''} \<Longrightarrow> order_item p = Inr q \<Longrightarrow> segment q"
  by (auto simp: order_item_def seg_simps dest!: segment_quote_identifier)

lemma sort_directions_range: "sort_directions st n = Inr ds \<Longrightarrow> set ds \<subseteq> {''ASC'', ''DESC''}"
  by (auto simp: sort_directions_def Let_def split: if_splits)

lemma segment_aggregate_item: "aggregate_item agg = Inr q \<Longrightarrow> segment q"
proof -
  assume "aggregate_item agg = Inr q"
  then obtain q_col q_alias func expr where *: "segment q_col" "segment q_alias"
      "aggregate_expr q_col func = Inr expr" "q = expr @ '' AS '' @ q_alias"
    by (cases agg) (auto simp: aggregate_item_def Let_def dest!: segment_quote_identifier)
  have "segment expr"
  proof (cases "map_of simple_fn_map func")
    case None
    with * show ?thesis by (auto simp: aggregate_expr_def seg_simps split: if_splits)
  next
    case (Some fn)
    then have "list_all plain fn"
      by (auto simp: simple_fn_map_def plain_def sq_def dq_def semicolon_def split: if_splits)
    then have "segment (fn @ ''('' @ q_col @ '')'')"
      using *(1) by - (rule segment_plain, simp_all add: seg_simps)
    with * Some show ?thesis by (auto simp: aggregate_expr_def seg_simps split: if_splits)
  qed
  with *(2,4) show ?thesis by (simp add: seg_simps)
qed

lemma segment_coalesce: "segment q \<Longrightarrow> segment e \<Longrightarrow> segment (coalesce_as q e)"
  by (simp add: coalesce_as_def seg_simps)

lemma segment_constant_item: "floats_ok v \<Longrightarrow> constant_item v col = Inr e \<Longrightarrow> segment e"
  by (auto simp: constant_item_def intro!: segment_coalesce dest!: segment_quote_identifier
      intro: segment_sql_literal)

lemma segment_statistic_item:
  "list_all plain fn \<Longrightarrow> statistic_item fn col = Inr e \<Longrightarrow> segment e"
  by (auto simp: statistic_item_def intro!: segment_coalesce segment_plain [of fn]
      dest!: segment_quote_identifier) (simp add: seg_simps)

lemma segment_directional_item: "directional_item fwd col = Inr e \<Longrightarrow> segment e"
  by (auto simp: directional_item_def intro!: segment_coalesce dest!: segment_quote_identifier)
    (simp_all add: seg_simps)

lemma segment_seeded: "list_all plain m \<Longrightarrow> seeded m rs = Inr s \<Longrightarrow> segment s"
  by (auto simp: seeded_def list_all_plain_segment split: if_splits
      intro!: segment_plain [of m]) (simp add: seg_simps segment_int_str)

lemma segment_percent_text: "segment (percent_text f)"
proof -
  have "plain c" if "numeric_char c" for c
    using that by (auto simp: numeric_char_def intro: plain_digit) (simp add: seg_simps)
  then have "segment (format_6f x)" for x
    using format_6f_numeric [of x] by (intro list_all_plain_segment) (auto simp: list_all_iff)
  then show ?thesis by (simp add: percent_text_def seg_simps split: flt.split)
qed

interpretation filter_sql: sql_builder build_filter_sql
proof
  fix st sql assume ok: "view_ok st" and b: "build_filter_sql st = Inr sql"
  from b obtain column op p where *: "segment column"
      "filter_predicate column op (step_value st ''value'' PNone) = Inr p"
      "sql = ''SELECT * FROM __input__ WHERE '' @ p"
    by (auto simp: build_filter_sql_def Let_def dest!: segment_quote_identifier)
  have "segment p"
    by (rule segment_filter_predicate [OF *(1) view_ok_value [OF ok] *(2)]) simp
  with *(3) show "segment sql" by (simp add: seg_simps)
qed

interpretation select_sql: sql_builder build_select_sql
  by unfold_locales
    (auto simp: build_select_sql_def Let_def seg_simps split: if_splits dest!: segment_quoted_list)

interpretation sort_sql: sql_builder build_sort_sql
proof
  fix st sql assume "build_sort_sql st = Inr sql"
  let ?cols = "filter (\<lambda>c. c \<noteq> []) (map py_str (as_list (step_value st ''by'' (PStr []))))"
  from \<open>build_sort_sql st = Inr sql\<close> obtain ds items where *: "sort_directions st (length ?cols) = Inr ds"
      "mapE order_item (zip ?cols ds) = Inr items"
      "sql = ''SELECT * FROM __input__ ORDER BY '' @ join '', '' items"
    by (auto simp: build_sort_sql_def Let_def split: if_splits)
  have "list_all segment items"
    using sort_directions_range [OF *(1)]
    by (intro segment_mapE [OF *(2)]) (auto intro!: segment_order_item dest: set_zip_rightD)
  then have "segment (join '', '' items)" by (rule segment_commas)
  with *(3) show "segment sql" by (simp add: seg_simps)
qed

interpretation aggregate_sql: sql_builder build_aggregate_sql
proof
  fix st sql assume "build_aggregate_sql st = Inr sql"
  then obtain gs cols aggs items tail where *: "mapE quote_identifier cols = Inr gs"
      "mapE aggregate_item aggs = Inr items"
      "sql = ''SELECT '' @ join '', '' (gs @ items) @ '' FROM __input__'' @ tail"
      "tail = [] \<or> tail = '' GROUP BY '' @ join '', '' gs"
    by (auto simp: build_aggregate_sql_def Let_def split: if_splits)
  have gs: "list_all segment gs"
    by (rule segment_mapE [OF *(1)]) (rule segment_quote_identifier)
  moreover have "list_all segment items"
    by (rule segment_mapE [OF *(2)]) (rule segment_aggregate_item)
  ultimately have "segment (join '', '' (gs @ items))" by (intro segment_commas) simp
  moreover have "segment tail"
    using *(4) segment_commas [OF gs] by (auto simp: seg_simps)
  ultimately show "segment sql" unfolding *(3) by (simp add: seg_simps)
qed

interpretation join_sql: sql_builder build_join_sql
proof
  fix st sql assume "build_join_sql st = Inr sql"
  then obtain u how q where *: "segment q" "map_of join_upper how = Some u"
      "sql = ''SELECT * FROM __left__ '' @ u @ '' JOIN __right__ USING ('' @ q @ '')''"
    by (auto simp: build_join_sql_def Let_def split: if_splits option.splits
        dest!: segment_quote_identifier)
  from *(2) have "list_all plain u"
    by (auto simp: join_upper_def plain_def sq_def dq_def semicolon_def split: if_splits)
  then have "segment (u @ '' JOIN __right__ USING ('' @ q @ '')'')"
    using *(1) by - (rule segment_plain, simp_all add: seg_simps)
  then show "segment sql" unfolding *(3) by (simp add: seg_simps)
qed

interpretation deduplicate_sql: sql_builder build_deduplicate_sql
  by unfold_locales
    (auto simp: build_deduplicate_sql_def Let_def seg_simps split: if_splits
      dest!: segment_quoted_list)

interpretation sample_sql: sql_builder build_sample_sql
proof
  have m: "list_all plain ''reservoir''" "list_all plain ''bernoulli''" by (simp_all add: seg_simps)
  fix st sql assume "build_sample_sql st = Inr sql"
  then show "segment sql"
    using m segment_percent_text segment_int_str
    by (auto simp: build_sample_sql_def Let_def seg_simps split: if_splits
        dest!: segment_seeded [OF m(1)] segment_seeded [OF m(2)])
qed

lemma fill_statistics_plain: "map_of fill_statistics s = Some fn \<Longrightarrow> list_all plain fn"
  by (auto simp: fill_statistics_def seg_simps split: if_splits)

interpretation fill_nulls_sql: sql_builder build_fill_nulls_sql
proof
  fix st sql assume ok: "view_ok st" and b: "build_fill_nulls_sql st = Inr sql"
  let ?v = "step_value st ''constant_value'' (step_value st ''value'' PNone)"
  have v: "floats_ok ?v" by (intro view_ok_value [OF ok]) simp
  have c1: "segment (join '', '' es)" if "mapE (constant_item ?v) cols = Inr es" for cols es
    by (intro segment_commas segment_mapE [OF that]) (rule segment_constant_item [OF v])
  have c2: "segment (join '', '' es)"
    if "mapE (statistic_item fn) cols = Inr es" "map_of fill_statistics s = Some fn" for fn s cols es
    by (intro segment_commas segment_mapE [OF that(1)])
      (rule segment_statistic_item [OF fill_statistics_plain [OF that(2)]])
  have c3: "segment (join '', '' es)" if "mapE (directional_item fwd) cols = Inr es" for fwd cols es
    by (intro segment_commas segment_mapE [OF that]) (rule segment_directional_item)
  from b show "segment sql"
    by (auto simp: build_fill_nulls_sql_def Let_def seg_simps c1 c2 c3 split: if_splits option.splits)
qed

interpretation pivot_sql: sql_builder build_pivot_sql
proof
  fix st sql assume "build_pivot_sql st = Inr sql"
  then obtain g c v agg tail where *: "segment g" "segment c" "segment v" "is_valid_identifier agg"
      "sql = ''SELECT * FROM (PIVOT __input__ ON '' @ c @ '' USING '' @ agg @ ''('' @ v @ '')'' @ tail @ '')''"
      "tail = [] \<or> tail = '' GROUP BY '' @ g"
    by (auto simp: build_pivot_sql_def Let_def split: if_splits
        dest!: segment_quoted_list segment_quote_identifier)
  have "segment (tail @ '')'')" using *(1,6) by (auto simp: seg_simps)
  then have "segment (agg @ ''('' @ v @ '')'' @ tail @ '')'')"
    using *(3) by - (rule segment_plain [OF plain_valid_identifier [OF *(4)]], simp add: seg_simps)
  then show "segment sql" unfolding *(5) using *(2) by (simp add: seg_simps)
qed

interpretation unpivot_sql: sql_builder build_unpivot_sql
  by unfold_locales
    (auto simp: build_unpivot_sql_def Let_def seg_simps split: if_splits
      dest!: segment_quoted_list segment_quote_identifier)


section \<open>Properties\<close>

lemma builder_closed:
  assumes "(k, build) \<in> set sql_builders" "k \<noteq> ''sql''"
  shows "sql_builder build"
  using assms
  by (auto simp: sql_builders_def filter_sql.sql_builder_axioms select_sql.sql_builder_axioms
      sort_sql.sql_builder_axioms aggregate_sql.sql_builder_axioms join_sql.sql_builder_axioms
      deduplicate_sql.sql_builder_axioms sample_sql.sql_builder_axioms
      fill_nulls_sql.sql_builder_axioms pivot_sql.sql_builder_axioms unpivot_sql.sql_builder_axioms)


definition hostile_filter :: step_view where
  "hostile_filter = [''step_type'' \<mapsto> PStr ''filter'', ''column'' \<mapsto> PStr ([dq] @ '' OR 1=1; --''),
     ''operator'' \<mapsto> PStr ''equals'', ''value'' \<mapsto> PStr ([sq] @ ''; DROP TABLE t'')]"


end
