(* ===== verification/PipelineParser.thy ===== *)
theory PipelineParser
  imports SqlBuilder
begin

text \<open>
  The parsing half of \<^verbatim>\<open>backend/pipeline/parser.py\<close>: the enums, the step configurations and
  \<^verbatim>\<open>PipelineParser.parse\<close>.  A configuration field holds whatever value the YAML document had,
  so fields are \<open>pyval\<close>s; an enum field that could not be converted keeps the raw value
  (\<open>Inl\<close>).  \<^verbatim>\<open>yaml.safe_load\<close> is the parameter \<open>safe_load\<close>, which returns a value or raises.
\<close>

section \<open>Enums\<close>

datatype step_type =
    LOAD | FILTER | SELECT | RENAME | JOIN | AGGREGATE | SORT | SAVE | VALIDATE | PIVOT | UNPIVOT
  | DEDUPLICATE | FILL_NULLS | SAMPLE | SQL | WASM_COMPUTE | TRANSFORM | STREAM_CONSUME | STREAM_PUBLISH

fun step_type_value :: "step_type \<Rightarrow> string" where
  "step_type_value LOAD = ''load''"
| "step_type_value FILTER = ''filter''"
| "step_type_value SELECT = ''select''"
| "step_type_value RENAME = ''rename''"
| "step_type_value JOIN = ''join''"
| "step_type_value AGGREGATE = ''aggregate''"
| "step_type_value SORT = ''sort''"
| "step_type_value SAVE = ''save''"
| "step_type_value VALIDATE = ''validate''"
| "step_type_value PIVOT = ''pivot''"
| "step_type_value UNPIVOT = ''unpivot''"
| "step_type_value DEDUPLICATE = ''deduplicate''"
| "step_type_value FILL_NULLS = ''fill_nulls''"
| "step_type_value SAMPLE = ''sample''"
| "step_type_value SQL = ''sql''"
| "step_type_value WASM_COMPUTE = ''wasm_compute''"
| "step_type_value TRANSFORM = ''transform''"
| "step_type_value STREAM_CONSUME = ''stream_consume''"
| "step_type_value STREAM_PUBLISH = ''stream_publish''"

definition step_types :: "step_type list" where
  "step_types = [LOAD, FILTER, SELECT, RENAME, JOIN, AGGREGATE, SORT, SAVE, VALIDATE, PIVOT, UNPIVOT,
     DEDUPLICATE, FILL_NULLS, SAMPLE, SQL, WASM_COMPUTE, TRANSFORM, STREAM_CONSUME, STREAM_PUBLISH]"

datatype filter_operator =
    EQUALS | NOT_EQUALS | GREATER_THAN | LESS_THAN | GREATER_THAN_OR_EQUAL | LESS_THAN_OR_EQUAL
  | CONTAINS | NOT_CONTAINS | STARTS_WITH | ENDS_WITH | IS_NULL | IS_NOT_NULL

fun filter_operator_value :: "filter_operator \<Rightarrow> string" where
  "filter_operator_value EQUALS = ''equals''"
| "filter_operator_value NOT_EQUALS = ''not_equals''"
| "filter_operator_value GREATER_THAN = ''greater_than''"
| "filter_operator_value LESS_THAN = ''less_than''"
| "filter_operator_value GREATER_THAN_OR_EQUAL = ''gte''"
| "filter_operator_value LESS_THAN_OR_EQUAL = ''lte''"
| "filter_operator_value CONTAINS = ''contains''"
| "filter_operator_value NOT_CONTAINS = ''not_contains''"
| "filter_operator_value STARTS_WITH = ''starts_with''"
| "filter_operator_value ENDS_WITH = ''ends_with''"
| "filter_operator_value IS_NULL = ''is_null''"
| "filter_operator_value IS_NOT_NULL = ''is_not_null''"

definition filter_operators :: "filter_operator list" where
  "filter_operators = [EQUALS, NOT_EQUALS, GREATER_THAN, LESS_THAN, GREATER_THAN_OR_EQUAL,
     LESS_THAN_OR_EQUAL, CONTAINS, NOT_CONTAINS, STARTS_WITH, ENDS_WITH, IS_NULL, IS_NOT_NULL]"

datatype join_how = INNER | LEFT | RIGHT | OUTER

fun join_how_value :: "join_how \<Rightarrow> string" where
  "join_how_value INNER = ''inner''"
| "join_how_value LEFT = ''left''"
| "join_how_value RIGHT = ''right''"
| "join_how_value OUTER = ''outer''"

definition join_hows :: "join_how list" where
  "join_hows = [INNER, LEFT, RIGHT, OUTER]"

datatype sort_order = ASC | DESC

fun sort_order_value :: "sort_order \<Rightarrow> string" where
  "sort_order_value ASC = ''asc''"
| "sort_order_value DESC = ''desc''"

definition sort_orders :: "sort_order list" where
  "sort_orders = [ASC, DESC]"

definition valid_aggregation_functions :: "string list" where
  "valid_aggregation_functions =
     [''sum'', ''mean'', ''min'', ''max'', ''count'', ''median'', ''std'', ''var'', ''first'', ''last'']"

text \<open>\<^verbatim>\<open>E(v)\<close> with \<^verbatim>\<open>except ValueError\<close>: the member with that value, or the raw value.\<close>

definition enum_or_raw :: "('e \<Rightarrow> string) \<Rightarrow> 'e list \<Rightarrow> pyval \<Rightarrow> pyval + 'e" where
  "enum_or_raw val members v =
     (case find (\<lambda>m. v = PStr (val m)) members of None \<Rightarrow> Inl v | Some m \<Rightarrow> Inr m)"


section \<open>Step configurations\<close>

text \<open>The fields of the subclasses of \<^verbatim>\<open>StepConfig\<close>, one constructor per subclass.\<close>

datatype step_fields =
    BaseFields
  | LoadFields (file_id: pyval) (load_alias: pyval)
  | FilterFields (input: pyval) (column: pyval) (operator: "pyval + filter_operator") (filter_value: pyval)
  | SelectFields (input: pyval) (select_columns: pyval)
  | RenameFields (input: pyval) (mapping: pyval)
  | JoinFields (left: pyval) (right: pyval) (on: string) (how: "pyval + join_how")
  | AggregateFields (input: pyval) (group_by: pyval) (aggregations: pyval)
  | SortFields (input: pyval) (sort_by: pyval) (order: "pyval + sort_order") (ascending: pyval)
  | SaveFields (input: pyval) (filename: pyval)
  | ValidateFields (input: pyval) (rules: pyval)
  | PivotFields (input: pyval) (index: pyval) (pivot_columns: pyval) (pivot_values: pyval)
      (aggfunc: pyval) (fill_value: pyval)
  | UnpivotFields (input: pyval) (id_vars: pyval) (value_vars: pyval) (var_name: pyval)
      (value_name: pyval)
  | DeduplicateFields (input: pyval) (subset: pyval) (keep: pyval)
  | FillNullsFields (input: pyval) (strategy: pyval) (fill_columns: pyval) (constant_value: pyval)
  | SampleFields (input: pyval) (sample_n: pyval) (fraction: pyval) (random_state: pyval)
      (stratify_by: pyval)
  | SqlFields (input: pyval) (query: pyval)
  | WasmComputeFields (input: pyval) (wasm_file_id: pyval) (function_name: pyval)
      (input_columns: pyval) (output_column: pyval)
  | TransformFields (input: pyval) (expression: pyval)
  | StreamConsumeFields (topic: pyval) (consumer_group: pyval) (batch_size: int)
      (batch_timeout_ms: int) (deserialize: pyval)
  | StreamPublishFields (input: pyval) (topic: pyval) (serialize: pyval) (key_column: pyval)

record step_config =
  step_name :: pyval
  step_type :: "pyval + step_type"
  contract :: pyval
  cfg_fields :: step_fields

record pipeline_config =
  pipeline_name :: pyval
  description :: pyval
  steps :: "step_config list"

text \<open>\<^verbatim>\<open>getattr(step, "input", None)\<close>.\<close>

fun input_attr :: "step_fields \<Rightarrow> pyval option" where
  "input_attr BaseFields = None"
| "input_attr (LoadFields _ _) = None"
| "input_attr (JoinFields _ _ _ _) = None"
| "input_attr (StreamConsumeFields _ _ _ _ _) = None"
| "input_attr f = Some (input f)"


section \<open>Reading the YAML text\<close>

text \<open>A match of \<^verbatim>\<open>([\w_]+):\s*""([^"]+)""\s*$\<close> at the start of the text: the two groups and
  the text after the match.  The trailing \<^verbatim>\<open>\s*\<close> gives back whitespace down to a line end.\<close>

definition line_end_after :: "string \<Rightarrow> string option" where
  "line_end_after s =
     (let ws = takeWhile is_space s; rest = dropWhile is_space s in
      if rest = [] then Some []
      else if list_ex (\<lambda>c. cp c = 10) ws
      then Some (rev (takeWhile (\<lambda>c. cp c \<noteq> 10) (rev ws) @ newline) @ rest)
      else None)"

definition match_doubled :: "string \<Rightarrow> (string \<times> string \<times> string) option" where
  "match_doubled s =
     (let w = takeWhile is_word s; r1 = dropWhile is_word s in
      if w = [] \<or> \<not> starts_with r1 '':'' then None
      else let r2 = dropWhile is_space (drop 1 r1) in
        if \<not> starts_with r2 [dq, dq] then None
        else let body = takeWhile (\<lambda>c. c \<noteq> dq) (drop 2 r2); r3 = dropWhile (\<lambda>c. c \<noteq> dq) (drop 2 r2) in
          if body = [] \<or> \<not> starts_with r3 [dq, dq] then None
          else map_option (\<lambda>rest. (w, body, rest)) (line_end_after (drop 2 r3)))"

lemma length_line_end_after: "line_end_after s = Some t \<Longrightarrow> length t \<le> length s"
proof -
  assume l: "line_end_after s = Some t"
  let ?ws = "takeWhile is_space s" and ?rest = "dropWhile is_space s"
  have len: "length ?ws + length ?rest = length s"
    by (metis length_append takeWhile_dropWhile_id)
  show ?thesis
  proof (cases "?rest = []")
    case True
    with l show ?thesis by (simp add: line_end_after_def)
  next
    case False
    with l have ex: "list_ex (\<lambda>c. cp c = 10) ?ws"
      and t: "t = rev (takeWhile (\<lambda>c. cp c \<noteq> 10) (rev ?ws) @ newline) @ ?rest"
      by (auto simp: line_end_after_def Let_def split: if_splits)
    from ex have "\<not> (\<forall>c \<in> set (rev ?ws). cp c \<noteq> 10)" by (auto simp: list_ex_iff)
    then have "takeWhile (\<lambda>c. cp c \<noteq> 10) (rev ?ws) \<noteq> rev ?ws"
      by (simp add: takeWhile_eq_all_conv)
    then have "length (takeWhile (\<lambda>c. cp c \<noteq> 10) (rev ?ws)) < length (rev ?ws)"
      by (metis le_neq_implies_less length_takeWhile_le take_all_iff takeWhile_eq_take order_refl)
    with len t show ?thesis by (simp add: newline_def)
  qed
qed

lemma length_match_doubled: "match_doubled s = Some (w, b, r) \<Longrightarrow> length r < length s"
proof -
  assume m: "match_doubled s = Some (w, b, r)"
  let ?r1 = "dropWhile is_word s"
  let ?r2 = "dropWhile is_space (drop 1 ?r1)"
  let ?r3 = "dropWhile (\<lambda>c. c \<noteq> dq) (drop 2 ?r2)"
  from m have l: "line_end_after (drop 2 ?r3) = Some r" and "starts_with ?r1 '':''"
    by (auto simp: match_doubled_def Let_def split: if_splits)
  then have ne: "?r1 \<noteq> []" by (metis starts_with_simps(2))
  have "length r \<le> length ?r3 - 2" using length_line_end_after [OF l] by simp
  also have "length ?r3 \<le> length ?r2 - 2"
    using length_dropWhile_le [of _ "drop 2 ?r2"] by simp
  also have "length ?r2 \<le> length ?r1 - 1"
    using length_dropWhile_le [of _ "drop 1 ?r1"] by simp
  finally have "length r \<le> length ?r1 - 1" by linarith
  moreover have "length ?r1 \<le> length s" by (rule length_dropWhile_le)
  moreover have "0 < length ?r1" using ne by simp
  ultimately show ?thesis by linarith
qed

function repair_quoted_values :: "string \<Rightarrow> string" where
  "repair_quoted_values s =
     (case match_doubled s of
        Some (w, body, rest) \<Rightarrow> w @ '': '' @ [dq] @ body @ [dq] @ repair_quoted_values rest
      | None \<Rightarrow> (case s of [] \<Rightarrow> [] | c # s' \<Rightarrow> c # repair_quoted_values s'))"
  by pat_completeness auto
termination
  by (relation "measure length") (auto dest: length_match_doubled)

declare repair_quoted_values.simps [simp del]

definition require_mapping :: "pyval \<Rightarrow> pydict result" where
  "require_mapping raw = (case raw of PDict d \<Rightarrow> Inr d
     | _ \<Rightarrow> Inl (InvalidYAMLError ''YAML root must be a mapping, not a scalar or list'' None))"

definition parse_yaml :: "(string \<Rightarrow> pyval result) \<Rightarrow> string \<Rightarrow> pydict result" where
  "parse_yaml safe_load yaml_string =
     (let cleaned = py_strip (strip_diff_markers yaml_string) in
      case safe_load cleaned of
        Inr raw \<Rightarrow> require_mapping raw
      | Inl (YAMLError msg line) \<Rightarrow>
          (case safe_load (repair_quoted_values cleaned) of
             Inr raw \<Rightarrow> require_mapping raw
           | Inl (YAMLError _ _) \<Rightarrow> Inl (InvalidYAMLError msg (map_option (\<lambda>l. l + 1) line))
           | Inl e \<Rightarrow> Inl e)
      | Inl e \<Rightarrow> Inl e)"


section \<open>Building the configuration\<close>

abbreviation empty_str :: pyval where "empty_str \<equiv> PStr []"
abbreviation empty_list :: pyval where "empty_list \<equiv> PList []"

definition build_filter_step :: "pydict \<Rightarrow> step_fields" where
  "build_filter_step raw = FilterFields (get_or raw ''input'' empty_str) (get_or raw ''column'' empty_str)
     (enum_or_raw filter_operator_value filter_operators (get_or raw ''operator'' (PStr ''equals'')))
     (get_none raw ''value'')"

text \<open>YAML reads a bare \<^verbatim>\<open>on\<close> as the key \<^verbatim>\<open>True\<close>; both keys are tried.\<close>

definition join_on_value :: "pydict \<Rightarrow> pyval" where
  "join_on_value raw =
     (let v = get_or raw ''on'' empty_str in
      if truthy v then v else (case dict_get raw (PBool True) of None \<Rightarrow> empty_str | Some w \<Rightarrow> w))"

definition build_join_step :: "pydict \<Rightarrow> step_fields" where
  "build_join_step raw = JoinFields (get_or raw ''left'' empty_str) (get_or raw ''right'' empty_str)
     (if truthy (join_on_value raw) then py_str (join_on_value raw) else [])
     (enum_or_raw join_how_value join_hows (get_or raw ''how'' (PStr ''inner'')))"

definition build_sort_step :: "pydict \<Rightarrow> step_fields" where
  "build_sort_step raw =
     (let order_str = get_or raw ''order'' (PStr ''asc'') in
      SortFields (get_or raw ''input'' empty_str) (get_or raw ''by'' empty_str)
        (case find (\<lambda>m. py_lower (py_str order_str) = sort_order_value m) sort_orders of
           Some m \<Rightarrow> Inr m | None \<Rightarrow> Inl order_str)
        (get_none raw ''ascending''))"

fun build_typed_step :: "step_type \<Rightarrow> pydict \<Rightarrow> step_fields result" where
  "build_typed_step LOAD raw = Inr (LoadFields (get_or raw ''file_id'' empty_str) (get_none raw ''alias''))"
| "build_typed_step FILTER raw = Inr (build_filter_step raw)"
| "build_typed_step SELECT raw =
     Inr (SelectFields (get_or raw ''input'' empty_str) (get_or raw ''columns'' empty_list))"
| "build_typed_step RENAME raw =
     Inr (RenameFields (get_or raw ''input'' empty_str) (get_or raw ''mapping'' (PDict [])))"
| "build_typed_step JOIN raw = Inr (build_join_step raw)"
| "build_typed_step AGGREGATE raw =
     Inr (AggregateFields (get_or raw ''input'' empty_str) (get_or raw ''group_by'' empty_list)
       (aggregation_dicts (get_or raw ''aggregations'' empty_list)))"
| "build_typed_step SORT raw = Inr (build_sort_step raw)"
| "build_typed_step SAVE raw =
     Inr (SaveFields (get_or raw ''input'' empty_str) (get_or raw ''filename'' empty_str))"
| "build_typed_step VALIDATE raw =
     Inr (ValidateFields (get_or raw ''input'' empty_str) (get_or raw ''rules'' empty_list))"
| "build_typed_step PIVOT raw =
     Inr (let index_raw = get_or raw ''index'' empty_str in
       PivotFields (get_or raw ''input'' empty_str)
         (if is_str index_raw then PList [index_raw] else index_raw)
         (get_or raw ''columns'' empty_str) (get_or raw ''values'' empty_str)
         (get_or raw ''aggfunc'' (PStr ''sum'')) (get_or raw ''fill_value'' (PInt 0)))"
| "build_typed_step UNPIVOT raw =
     Inr (UnpivotFields (get_or raw ''input'' empty_str) (get_or raw ''id_vars'' empty_list)
       (get_or raw ''value_vars'' empty_list) (get_or raw ''var_name'' (PStr ''variable''))
       (get_or raw ''value_name'' (PStr ''value'')))"
| "build_typed_step DEDUPLICATE raw =
     Inr (DeduplicateFields (get_or raw ''input'' empty_str) (get_or raw ''subset'' empty_list)
       (get_or raw ''keep'' (PStr ''first'')))"
| "build_typed_step FILL_NULLS raw =
     Inr (FillNullsFields (get_or raw ''input'' empty_str) (get_or raw ''strategy'' (PStr ''constant''))
       (get_or raw ''columns'' empty_list) (get_none raw ''constant_value''))"
| "build_typed_step SAMPLE raw =
     Inr (SampleFields (get_or raw ''input'' empty_str) (get_none raw ''n'') (get_none raw ''fraction'')
       (get_or raw ''random_state'' (PInt 42)) (get_none raw ''stratify_by''))"
| "build_typed_step SQL raw =
     Inr (SqlFields (get_or raw ''input'' empty_str) (get_or raw ''query'' empty_str))"
| "build_typed_step WASM_COMPUTE raw =
     Inr (WasmComputeFields (get_or raw ''input'' empty_str) (get_or raw ''wasm_file_id'' empty_str)
       (get_or raw ''function'' empty_str) (get_or raw ''input_columns'' empty_list)
       (get_or raw ''output_column'' empty_str))"
| "build_typed_step TRANSFORM raw =
     Inr (TransformFields (get_or raw ''input'' empty_str) (get_or raw ''expression'' empty_str))"
| "build_typed_step STREAM_CONSUME raw =
     bindE (py_int (get_or raw ''batch_size'' (PInt 1000))) (\<lambda>size.
     bindE (py_int (get_or raw ''batch_timeout_ms'' (PInt 5000))) (\<lambda>timeout.
       Inr (StreamConsumeFields (get_or raw ''topic'' empty_str) (get_or raw ''consumer_group'' empty_str)
         size timeout (get_or raw ''deserialize'' (PStr ''json'')))))"
| "build_typed_step STREAM_PUBLISH raw =
     Inr (StreamPublishFields (get_or raw ''input'' empty_str) (get_or raw ''topic'' empty_str)
       (get_or raw ''serialize'' (PStr ''json'')) (get_none raw ''key_column''))"

definition parse_step :: "pyval \<Rightarrow> step_config result" where
  "parse_step step_raw =
     (case step_raw of PDict raw \<Rightarrow>
        (let name = get_or raw ''name'' empty_str;
             type_raw = get_or raw ''type'' empty_str
         in case enum_or_raw step_type_value step_types type_raw of
              Inl v \<Rightarrow> Inr \<lparr>step_name = name, step_type = Inl v, contract = PNone, cfg_fields = BaseFields\<rparr>
            | Inr ty \<Rightarrow> bindE (build_typed_step ty raw) (\<lambda>fs.
                Inr \<lparr>step_name = name, step_type = Inr ty, contract = get_none raw ''contract'', cfg_fields = fs\<rparr>))
      | _ \<Rightarrow> Inl (MissingRequiredFieldError ''step''
               (''Each step must be a mapping with '' @ [sq] @ ''name'' @ [sq] @ '' and '' @ [sq] @ ''type'' @
                [sq] @ '' fields'')))"

definition build_pipeline_config :: "pydict \<Rightarrow> pipeline_config result" where
  "build_pipeline_config raw =
     (case get_or raw ''pipeline'' (PDict raw) of
        PDict p \<Rightarrow>
          (let name = get_or p ''name'' empty_str; raw_steps = get_or p ''steps'' empty_list in
           if \<not> truthy name
           then Inl (MissingRequiredFieldError ''name''
                  (''Pipeline must have a non-empty '' @ [sq] @ ''name'' @ [sq] @ '' field''))
           else case raw_steps of
               PList rs \<Rightarrow> bindE (mapE parse_step rs) (\<lambda>ss.
                 Inr \<lparr>pipeline_name = name, description = get_none p ''description'', steps = ss\<rparr>)
             | _ \<Rightarrow> Inl (MissingRequiredFieldError ''steps''
                      (''Pipeline '' @ [sq] @ ''steps'' @ [sq] @ '' must be a list'')))
      | _ \<Rightarrow> Inl (MissingRequiredFieldError ''pipeline''
               (''Top-level '' @ [sq] @ ''pipeline'' @ [sq] @ '' key must be a mapping'')))"

definition parse :: "(string \<Rightarrow> pyval result) \<Rightarrow> string \<Rightarrow> pipeline_config result" where
  "parse safe_load yaml_string = bindE (parse_yaml safe_load yaml_string) build_pipeline_config"

end
