(* ===== verification/PipelineValidator.thy ===== *)
theory PipelineValidator
  imports PipelineParser
begin

text \<open>
  The validating half of \<^verbatim>\<open>backend/pipeline/parser.py\<close>: \<^verbatim>\<open>PipelineParser.validate\<close> and the
  \<^verbatim>\<open>_check_*\<close> methods it runs in order.  Each method appends to the list of errors; a method
  that applies a string operation to a value that is no string raises, and the model keeps
  that (\<open>Inl\<close>).
\<close>

section \<open>Definitions\<close>

record validation_error =
  err_step :: pyval
  err_field :: string
  err_message :: string
  err_suggestion :: "string option"

record validation_warning =
  warn_step :: pyval
  warn_message :: string

record validation_result =
  is_valid :: bool
  errors :: "validation_error list"
  warnings :: "validation_warning list"

definition quoted :: "string \<Rightarrow> string" where
  "quoted s = [sq] @ s @ [sq]"

definition verr :: "pyval \<Rightarrow> string \<Rightarrow> string \<Rightarrow> validation_error" where
  "verr st fld msg = \<lparr>err_step = st, err_field = fld, err_message = msg, err_suggestion = None\<rparr>"

text \<open>\<^verbatim>\<open>if cond: errors.append(...)\<close>, where evaluating the condition may raise.\<close>

definition report :: "pyval \<Rightarrow> string \<Rightarrow> string \<Rightarrow> bool result \<Rightarrow> validation_error list result" where
  "report st fld msg cond = bindE cond (\<lambda>b. Inr (if b then [verr st fld msg] else []))"

fun concatE :: "'a list result list \<Rightarrow> 'a list result" where
  "concatE [] = Inr []"
| "concatE (r # rs) = bindE r (\<lambda>xs. bindE (concatE rs) (\<lambda>ys. Inr (xs @ ys)))"

text \<open>A loop over the steps that appends each step's errors.\<close>

definition each_step ::
    "(step_config \<Rightarrow> validation_error list result) \<Rightarrow> pipeline_config \<Rightarrow> validation_error list result" where
  "each_step f cfg = concatE (map f (steps cfg))"

text \<open>\<^verbatim>\<open>not v or not v.strip()\<close>.\<close>

definition blank_value :: "pyval \<Rightarrow> bool result" where
  "blank_value v = (if \<not> truthy v then Inr True else bindE (strip_attr v) (\<lambda>s. Inr (s = [])))"

definition check_pipeline_name :: "pipeline_config \<Rightarrow> validation_error list result" where
  "check_pipeline_name cfg =
     report PNone ''name'' ''Pipeline name must be a non-empty string'' (blank_value (pipeline_name cfg))"

definition check_has_steps :: "pipeline_config \<Rightarrow> validation_error list result" where
  "check_has_steps cfg =
     report PNone ''steps'' ''Pipeline must contain at least one step'' (Inr (steps cfg = []))"

definition check_step_count_limit :: "int \<Rightarrow> pipeline_config \<Rightarrow> validation_error list result" where
  "check_step_count_limit max_steps cfg =
     report PNone ''steps''
       (''Pipeline has '' @ int_str (int (length (steps cfg))) @ '' steps, exceeding the limit of '' @ int_str max_steps)
       (Inr (max_steps < int (length (steps cfg))))"

text \<open>\<^verbatim>\<open>seen[name] = seen.get(name, 0) + 1\<close>; an unhashable name raises.\<close>

definition bump_count :: "pyval \<Rightarrow> (pyval \<times> int) list \<Rightarrow> (pyval \<times> int) list" where
  "bump_count name seen =
     (if list_ex (\<lambda>(k, c). py_eq k name) seen
      then map (\<lambda>(k, c). (k, if py_eq k name then c + 1 else c)) seen
      else seen @ [(name, 1)])"

definition count_name :: "step_config \<Rightarrow> (pyval \<times> int) list \<Rightarrow> (pyval \<times> int) list result" where
  "count_name st seen =
     (if hashable (step_name st) then Inr (bump_count (step_name st) seen) else Inl TypeError)"

definition check_duplicate_step_names :: "pipeline_config \<Rightarrow> validation_error list result" where
  "check_duplicate_step_names cfg =
     bindE (foldE count_name (steps cfg) []) (\<lambda>seen.
       Inr (map (\<lambda>(name, c). verr name ''name''
              (''Step name '' @ quoted (py_str name) @ '' is used '' @ int_str c @ '' times. Names must be unique.''))
            (filter (\<lambda>(name, c). c > 1) seen)))"

definition match_identifier :: "pyval \<Rightarrow> bool result" where
  "match_identifier v = (case v of PStr s \<Rightarrow> Inr (is_valid_identifier s) | _ \<Rightarrow> Inl TypeError)"

definition name_format_errors :: "step_config \<Rightarrow> validation_error list result" where
  "name_format_errors st =
     report (step_name st) ''name''
       (''Step name '' @ quoted (py_str (step_name st)) @
        '' contains invalid characters. Only letters, digits, and underscores are allowed.'')
       (if \<not> truthy (step_name st) then Inr False
        else bindE (match_identifier (step_name st)) (\<lambda>ok. Inr (\<not> ok)))"

definition check_step_name_format :: "pipeline_config \<Rightarrow> validation_error list result" where
  "check_step_name_format = each_step name_format_errors"

definition step_type_errors :: "step_config \<Rightarrow> validation_error list result" where
  "step_type_errors st =
     (case step_type st of
        Inr _ \<Rightarrow> Inr []
      | Inl v \<Rightarrow> Inr [\<lparr>err_step = step_name st, err_field = ''type'',
          err_message = ''Invalid step type '' @ quoted (py_str v) @ ''. Valid types: '' @
            repr_strs (map step_type_value step_types),
          err_suggestion = find_closest_column (py_str v) (map step_type_value step_types)\<rparr>])"

definition check_step_types :: "pipeline_config \<Rightarrow> validation_error list result" where
  "check_step_types = each_step step_type_errors"

text \<open>\<^verbatim>\<open>isinstance(input_ref, str) and not input_ref.strip()\<close>.\<close>

definition blank_input :: "pyval \<Rightarrow> bool result" where
  "blank_input v = (case v of PStr s \<Rightarrow> Inr (py_strip s = []) | _ \<Rightarrow> Inr False)"

definition input_error :: "pyval \<Rightarrow> pyval \<Rightarrow> validation_error list result" where
  "input_error sn v = report sn ''input'' ''Step must specify a non-empty input reference'' (blank_input v)"

definition empty_field :: "pyval \<Rightarrow> string \<Rightarrow> string \<Rightarrow> pyval \<Rightarrow> validation_error list result" where
  "empty_field sn fld msg v = report sn fld msg (Inr (\<not> truthy v))"

definition blank_field :: "pyval \<Rightarrow> string \<Rightarrow> string \<Rightarrow> pyval \<Rightarrow> validation_error list result" where
  "blank_field sn fld msg v = report sn fld msg (blank_value v)"

definition needs_value :: "pyval + filter_operator \<Rightarrow> bool" where
  "needs_value op = (case op of Inl _ \<Rightarrow> False | Inr o' \<Rightarrow> o' \<noteq> IS_NULL \<and> o' \<noteq> IS_NOT_NULL)"

definition no_sort_column :: "pyval \<Rightarrow> bool" where
  "no_sort_column v =
     (\<not> list_ex (\<lambda>b. py_strip (py_str b) \<noteq> []) (case v of PList bs \<Rightarrow> bs | _ \<Rightarrow> [v]))"

text \<open>The checks from \<^verbatim>\<open>UnpivotStepConfig\<close> on, and the ones before.\<close>

fun late_field_errors :: "pyval \<Rightarrow> step_fields \<Rightarrow> validation_error list result" where
  "late_field_errors sn (UnpivotFields i ids vs vn vl) = concatE
     [input_error sn i,
      empty_field sn ''id_vars'' ''Unpivot step must define at least one id_vars column'' ids,
      empty_field sn ''value_vars'' ''Unpivot step must define at least one value_vars column'' vs]"
| "late_field_errors sn (DeduplicateFields i s k) = input_error sn i"
| "late_field_errors sn (FillNullsFields i s cs v) = concatE
     [input_error sn i,
      report sn ''value'' (''Fill nulls step with '' @ quoted ''constant'' @ '' strategy must provide a value'')
        (Inr (s = PStr ''constant'' \<and> v = PNone))]"
| "late_field_errors sn (SampleFields i m fr rs sb) = concatE
     [input_error sn i,
      report sn ''sample'' (''Sample step must specify either '' @ quoted ''n'' @ '' or '' @ quoted ''fraction'')
        (Inr (m = PNone \<and> fr = PNone)),
      report sn ''sample'' (''Sample step must specify only one of '' @ quoted ''n'' @ '' or '' @ quoted ''fraction'')
        (Inr (m \<noteq> PNone \<and> fr \<noteq> PNone))]"
| "late_field_errors sn (SqlFields i q) = concatE
     [input_error sn i,
      report sn ''query'' ''SQL step must provide a non-empty query'' (bindE (strip_attr q) (\<lambda>s. Inr (s = [])))]"
| "late_field_errors sn (WasmComputeFields i w f ic oc) = concatE
     [input_error sn i,
      blank_field sn ''wasm_file_id'' ''wasm_compute step must specify a non-empty wasm_file_id'' w,
      blank_field sn ''function'' ''wasm_compute step must specify a non-empty function name'' f,
      empty_field sn ''input_columns'' ''wasm_compute step must specify at least one input_column'' ic,
      blank_field sn ''output_column'' ''wasm_compute step must specify a non-empty output_column'' oc]"
| "late_field_errors sn (TransformFields i e) = concatE
     [input_error sn i, blank_field sn ''expression'' ''Transform step must specify a non-empty expression'' e]"
| "late_field_errors sn (StreamConsumeFields t g bs bt d) =
     blank_field sn ''topic'' ''Stream consume step must specify a non-empty topic'' t"
| "late_field_errors sn (StreamPublishFields i t s k) = concatE
     [input_error sn i, blank_field sn ''topic'' ''Stream publish step must specify a non-empty topic'' t]"
| "late_field_errors sn _ = Inr []"

fun field_errors :: "pyval \<Rightarrow> step_fields \<Rightarrow> validation_error list result" where
  "field_errors sn BaseFields = Inr []"
| "field_errors sn (LoadFields f a) =
     blank_field sn ''file_id'' ''Load step must specify a non-empty file_id'' f"
| "field_errors sn (JoinFields l r k h) = concatE
     [blank_field sn ''left'' ''Join step must specify a non-empty left input'' l,
      blank_field sn ''right'' ''Join step must specify a non-empty right input'' r]"
| "field_errors sn (FilterFields i c op v) = concatE
     [input_error sn i,
      blank_field sn ''column'' ''Filter step must specify a non-empty column'' c,
      report sn ''value'' ''Filter step must specify a value for this operator''
        (Inr (needs_value op \<and> v = PNone))]"
| "field_errors sn (SelectFields i cs) = concatE
     [input_error sn i, empty_field sn ''columns'' ''Select step must specify at least one column'' cs]"
| "field_errors sn (RenameFields i m) = concatE
     [input_error sn i, empty_field sn ''mapping'' ''Rename step must define at least one mapping'' m]"
| "field_errors sn (AggregateFields i g a) = concatE
     [input_error sn i,
      empty_field sn ''group_by'' ''Aggregate step must specify at least one group_by column'' g]"
| "field_errors sn (SortFields i b ord a) = concatE
     [input_error sn i,
      report sn ''by'' (''Sort step must specify a non-empty '' @ quoted ''by'' @ '' column'') (Inr (no_sort_column b)),
      report sn ''order'' (''Sort step '' @ quoted ''order'' @ '' must be '' @ quoted ''asc'' @ '' or '' @ quoted ''desc'')
        (Inr (case ord of Inl _ \<Rightarrow> True | Inr _ \<Rightarrow> False))]"
| "field_errors sn (SaveFields i f) = input_error sn i"
| "field_errors sn (ValidateFields i r) = concatE
     [input_error sn i, empty_field sn ''rules'' ''Validate step must define at least one rule'' r]"
| "field_errors sn (PivotFields i ix c v ag fv) = concatE
     [input_error sn i,
      empty_field sn ''index'' ''Pivot step must specify at least one index column'' ix,
      blank_field sn ''columns'' ''Pivot step must specify a non-empty columns field'' c,
      blank_field sn ''values'' ''Pivot step must specify a non-empty values field'' v]"
| "field_errors sn f = late_field_errors sn f"

definition required_field_errors :: "step_config \<Rightarrow> validation_error list result" where
  "required_field_errors st =
     (let sn = (if truthy (step_name st) then step_name st else PStr ''<unnamed>'') in
      bindE (blank_value (step_name st)) (\<lambda>b.
        if b then Inr [verr sn ''name'' ''Step name must be a non-empty string'']
        else case step_type st of Inl _ \<Rightarrow> Inr [] | Inr _ \<Rightarrow> field_errors sn (cfg_fields st)))"

definition check_required_step_fields :: "pipeline_config \<Rightarrow> validation_error list result" where
  "check_required_step_fields = each_step required_field_errors"

text \<open>The references \<^verbatim>\<open>_validate_step_reference\<close> looks at.\<close>

fun step_refs :: "step_fields \<Rightarrow> (string \<times> pyval) list" where
  "step_refs (JoinFields l r k h) = [(''left'', l), (''right'', r)]"
| "step_refs f = (case input_attr f of Some (PStr s) \<Rightarrow> [(''input'', PStr s)] | _ \<Rightarrow> [])"

text \<open>\<^verbatim>\<open>find_closest_column\<close> over step names; \<^verbatim>\<open>difflib\<close> takes the length of its arguments.\<close>

definition suggest_step :: "pyval \<Rightarrow> pyval list \<Rightarrow> string option result" where
  "suggest_step ref available =
     (if list_all is_str (ref # available)
      then Inr (find_closest_column (py_str ref) (map py_str available))
      else Inl TypeError)"

definition reference_error ::
    "step_config \<Rightarrow> pyval list \<Rightarrow> string \<times> pyval \<Rightarrow> validation_error list result" where
  "reference_error st available p =
     (if truthy (snd p) \<and> \<not> list_ex (\<lambda>a. py_eq a (snd p)) available then
        bindE (suggest_step (snd p) available) (\<lambda>sug.
          Inr [\<lparr>err_step = step_name st, err_field = fst p,
                err_message = ''References '' @ quoted (py_str (snd p)) @
                  '' which does not exist or comes after this step. Available: '' @ py_str (PList available),
                err_suggestion = sug\<rparr>])
      else Inr [])"

fun reference_errors :: "pyval list \<Rightarrow> step_config list \<Rightarrow> validation_error list result" where
  "reference_errors seen [] = Inr []"
| "reference_errors seen (st # rest) =
     bindE (concatE (map (reference_error st seen) (step_refs (cfg_fields st)))) (\<lambda>es.
     bindE (reference_errors (seen @ [step_name st]) rest) (\<lambda>es'. Inr (es @ es')))"

definition check_step_references :: "pipeline_config \<Rightarrow> validation_error list result" where
  "check_step_references cfg = reference_errors [] (steps cfg)"

definition load_file_errors :: "string list \<Rightarrow> step_config \<Rightarrow> validation_error list result" where
  "load_file_errors registered st =
     (case cfg_fields st of
        LoadFields f a \<Rightarrow>
          report (step_name st) ''file_id''
            (''file_id '' @ quoted (py_str f) @ '' is not registered. Registered IDs: '' @
             repr_strs (sort (remdups registered)))
            (bindE (blank_value f) (\<lambda>b. Inr (\<not> b \<and> \<not> list_ex (\<lambda>r. f = PStr r) registered)))
      | _ \<Rightarrow> Inr [])"

definition check_load_file_ids :: "string list \<Rightarrow> pipeline_config \<Rightarrow> validation_error list result" where
  "check_load_file_ids registered = each_step (load_file_errors registered)"

definition filter_operator_errors :: "step_config \<Rightarrow> validation_error list result" where
  "filter_operator_errors st =
     (case cfg_fields st of
        FilterFields i c (Inl v) w \<Rightarrow>
          Inr [verr (step_name st) ''operator''
            (''Invalid operator '' @ quoted (py_str v) @ ''. Valid operators: '' @
             repr_strs (map filter_operator_value filter_operators))]
      | _ \<Rightarrow> Inr [])"

definition check_filter_operators :: "pipeline_config \<Rightarrow> validation_error list result" where
  "check_filter_operators = each_step filter_operator_errors"

definition join_config_errors :: "step_config \<Rightarrow> validation_error list result" where
  "join_config_errors st =
     (case cfg_fields st of
        JoinFields l r k h \<Rightarrow> concatE
          [report (step_name st) ''on'' (''Join step must specify a join key via '' @ quoted ''on'' @ '' field'') (Inr (k = [])),
           (case h of Inr _ \<Rightarrow> Inr []
            | Inl v \<Rightarrow> Inr [verr (step_name st) ''how''
                (''Invalid join method '' @ quoted (py_str v) @ ''. Valid methods: '' @
                 repr_strs (map join_how_value join_hows))])]
      | _ \<Rightarrow> Inr [])"

definition check_join_configs :: "pipeline_config \<Rightarrow> validation_error list result" where
  "check_join_configs = each_step join_config_errors"

definition aggregation_function :: "pyval \<Rightarrow> pyval" where
  "aggregation_function agg = (case agg of PDict d \<Rightarrow> get_or d ''function'' empty_str | _ \<Rightarrow> PStr (py_str agg))"

text \<open>\<^verbatim>\<open>v not in S\<close> for a set of strings: an unhashable value raises.\<close>

definition not_in_set :: "string list \<Rightarrow> pyval \<Rightarrow> bool result" where
  "not_in_set names v =
     (if hashable v then Inr (\<not> list_ex (\<lambda>s. v = PStr s) names) else Inl TypeError)"

definition aggregation_error :: "step_config \<Rightarrow> pyval \<Rightarrow> validation_error list result" where
  "aggregation_error st agg =
     report (step_name st) ''aggregations.function''
       (''Invalid aggregation function '' @ quoted (py_str (aggregation_function agg)) @ ''. Valid functions: '' @
        repr_strs (sort valid_aggregation_functions))
       (not_in_set valid_aggregation_functions (aggregation_function agg))"

definition aggregate_config_errors :: "step_config \<Rightarrow> validation_error list result" where
  "aggregate_config_errors st =
     (case cfg_fields st of
        AggregateFields i g a \<Rightarrow> concatE
          [report (step_name st) ''aggregations'' ''Aggregate step must define at least one aggregation'' (Inr (\<not> truthy a)),
           bindE (iterate a) (\<lambda>aggs. concatE (map (aggregation_error st) aggs))]
      | _ \<Rightarrow> Inr [])"

definition check_aggregate_configs :: "pipeline_config \<Rightarrow> validation_error list result" where
  "check_aggregate_configs = each_step aggregate_config_errors"

definition is_output_step :: "step_config \<Rightarrow> bool" where
  "is_output_step st = (case cfg_fields st of SaveFields _ _ \<Rightarrow> True | StreamPublishFields _ _ _ _ \<Rightarrow> True | _ \<Rightarrow> False)"

definition check_has_save_step :: "pipeline_config \<Rightarrow> validation_warning list" where
  "check_has_save_step cfg =
     (if list_ex is_output_step (steps cfg) then []
      else [\<lparr>warn_step = PNone, warn_message = ''Pipeline has no '' @ quoted ''save'' @ '' or '' @ quoted ''stream_publish'' @
             '' step. Results will be computed but not persisted to an output file.''\<rparr>])"

text \<open>\<^verbatim>\<open>is_safe_filename(v)\<close> for a truthy value of any type: \<^verbatim>\<open>in\<close> needs a container.\<close>

definition safe_filename_value :: "pyval \<Rightarrow> bool result" where
  "safe_filename_value v =
     (case v of
        PStr s \<Rightarrow> Inr (is_safe_filename s)
      | PList vs \<Rightarrow> Inr (\<not> (PStr ''..'' \<in> set vs \<or> PStr ''/'' \<in> set vs \<or> PStr [char_of (92 :: nat)] \<in> set vs))
      | PDict d \<Rightarrow> Inr (\<not> (PStr ''..'' \<in> fst ` set d \<or> PStr ''/'' \<in> fst ` set d \<or>
                          PStr [char_of (92 :: nat)] \<in> fst ` set d))
      | _ \<Rightarrow> Inl TypeError)"

definition save_filename_errors :: "step_config \<Rightarrow> validation_error list result" where
  "save_filename_errors st =
     (case cfg_fields st of
        SaveFields i f \<Rightarrow>
          if \<not> truthy f then Inr [verr (step_name st) ''filename'' ''Save step must specify a filename'']
          else report (step_name st) ''filename''
            (''Invalid filename '' @ quoted (py_str f) @ ''. Path traversal characters are forbidden.'')
            (bindE (safe_filename_value f) (\<lambda>ok. Inr (\<not> ok)))
      | _ \<Rightarrow> Inr [])"

definition check_save_filenames :: "pipeline_config \<Rightarrow> validation_error list result" where
  "check_save_filenames = each_step save_filename_errors"

definition supported_checks :: "string list" where
  "supported_checks = [''not_null'', ''not_empty'', ''greater_than'', ''less_than'', ''between'', ''in_values'',
     ''matches_pattern'', ''no_duplicates'', ''min_rows'', ''max_rows'', ''date_format'', ''positive'']"

definition rule_error :: "step_config \<Rightarrow> pyval \<Rightarrow> validation_error list result" where
  "rule_error st rule =
     (case rule of PDict d \<Rightarrow>
        report (step_name st) ''rules''
          (''Unknown check type '' @ quoted (py_str (get_or d ''check'' empty_str)) @ ''. Supported: '' @
           join '', '' (sort supported_checks))
          (not_in_set supported_checks (get_or d ''check'' empty_str))
      | _ \<Rightarrow> Inl AttributeError)"

definition validate_rule_errors :: "step_config \<Rightarrow> validation_error list result" where
  "validate_rule_errors st =
     (case cfg_fields st of
        ValidateFields i r \<Rightarrow> bindE (iterate r) (\<lambda>rs. concatE (map (rule_error st) rs))
      | _ \<Rightarrow> Inr [])"

definition check_validate_rules :: "pipeline_config \<Rightarrow> validation_error list result" where
  "check_validate_rules = each_step validate_rule_errors"

definition sql_step_errors :: "step_config \<Rightarrow> validation_error list result" where
  "sql_step_errors st =
     (case cfg_fields st of
        SqlFields i q \<Rightarrow>
          (case validate_sql_step_query q True of
             Inr _ \<Rightarrow> Inr []
           | Inl (ValueError msg) \<Rightarrow> Inr [verr (step_name st) ''query'' msg]
           | Inl e \<Rightarrow> Inl e)
      | _ \<Rightarrow> Inr [])"

definition check_sql_steps :: "pipeline_config \<Rightarrow> validation_error list result" where
  "check_sql_steps = each_step sql_step_errors"

definition unsupported_errors :: "step_config \<Rightarrow> validation_error list result" where
  "unsupported_errors st =
     report (step_name st) ''type''
       (''Step type '' @ quoted ''transform'' @ '' is not executable: no batch executor is registered for it. Use filter, sql, or another executable step type instead.'')
       (Inr (step_type st = Inr TRANSFORM))"

definition check_unsupported_runtime_steps :: "pipeline_config \<Rightarrow> validation_error list result" where
  "check_unsupported_runtime_steps = each_step unsupported_errors"

text \<open>The passes of \<^verbatim>\<open>validate\<close> that can add an error, in their order.\<close>

definition check_passes ::
    "int \<Rightarrow> string list \<Rightarrow> (pipeline_config \<Rightarrow> validation_error list result) list" where
  "check_passes max_steps registered =
     [check_pipeline_name, check_has_steps, check_step_count_limit max_steps,
      check_duplicate_step_names, check_step_name_format, check_step_types,
      check_required_step_fields, check_step_references, check_load_file_ids registered,
      check_filter_operators, check_join_configs, check_aggregate_configs,
      check_save_filenames, check_validate_rules, check_sql_steps,
      check_unsupported_runtime_steps]"

definition validate :: "int \<Rightarrow> pipeline_config \<Rightarrow> string list \<Rightarrow> validation_result result" where
  "validate max_steps cfg registered =
     bindE (concatE (map (\<lambda>pass. pass cfg) (check_passes max_steps registered))) (\<lambda>es.
       Inr \<lparr>is_valid = (es = []), errors = es, warnings = check_has_save_step cfg\<rparr>)"


section \<open>What the checks decide\<close>

subsection \<open>Contracts of the passes\<close>

lemma concatE_Inr_Nil_iff: "concatE rs = Inr [] \<longleftrightarrow> list_all (\<lambda>r. r = Inr []) rs"
  by (induction rs) (auto simp: bindE_eq_Inr_iff)

lemma concatE_Inr: "concatE rs = Inr es \<Longrightarrow> \<exists>ess. rs = map Inr ess \<and> es = concat ess"
proof (induction rs arbitrary: es)
  case Nil
  then show ?case by (intro exI [of _ "[]"]) simp
next
  case (Cons r rs)
  then obtain xs ys where "r = Inr xs" "concatE rs = Inr ys" "es = xs @ ys" by auto
  with Cons.IH [of ys] obtain ess where "rs = map Inr ess" "ys = concat ess" by blast
  with \<open>r = Inr xs\<close> \<open>es = xs @ ys\<close> show ?case by (intro exI [of _ "xs # ess"]) simp
qed

lemma concatE_total: "list_all (\<lambda>r. \<exists>es. r = Inr es) rs \<Longrightarrow> \<exists>es. concatE rs = Inr es"
  by (induction rs) auto

lemma concatE_Inl: "r \<in> set rs \<Longrightarrow> r = Inl e \<Longrightarrow> \<exists>e'. concatE rs = Inl e'"
  by (induction rs) (auto simp: bindE_def split: sum.split)

text \<open>A check against a condition: whenever it returns, it reports nothing exactly when the
  condition holds.\<close>

definition judges :: "'a list result \<Rightarrow> bool \<Rightarrow> bool" where
  "judges r ok \<longleftrightarrow> (\<forall>es. r = Inr es \<longrightarrow> (es = [] \<longleftrightarrow> ok))"

lemma judges_concatE:
  "judges (concatE []) True"
  "judges r a \<Longrightarrow> judges (concatE rs) b \<Longrightarrow> judges (concatE (r # rs)) (a \<and> b)"
  by (auto simp: judges_def)

lemma judges_concatE_map:
  assumes "\<And>x. x \<in> set xs \<Longrightarrow> judges (f x) (ok x)"
  shows "judges (concatE (map f xs)) (list_all ok xs)"
  using assms
  by (induction xs) (simp_all del: concatE.simps add: judges_concatE)

lemma judges_Nil [simp]: "judges (Inr []) True"
  by (simp add: judges_def)

lemma judges_cong: "judges r a \<Longrightarrow> a = b \<Longrightarrow> judges r b"
  by simp

lemma judges_bindE:
  "(\<And>x. judges (f x) (ok x)) \<Longrightarrow> judges (bindE m f) (\<exists>x. m = Inr x \<and> ok x)"
  by (cases m) (simp_all add: judges_def)

locale step_check =
  fixes chk :: "step_config \<Rightarrow> validation_error list result"
    and ok :: "step_config \<Rightarrow> bool"
  assumes judged: "judges (chk st) (ok st)"

text \<open>The same contract for a pass over the whole configuration.\<close>

locale config_check =
  fixes chk :: "pipeline_config \<Rightarrow> validation_error list result"
    and ok :: "pipeline_config \<Rightarrow> bool"
  assumes judged: "judges (chk cfg) (ok cfg)"

sublocale step_check \<subseteq> each: config_check "each_step chk" "\<lambda>cfg. list_all ok (steps cfg)"
  by unfold_locales (simp add: each_step_def judges_concatE_map judged)

subsection \<open>Conditions\<close>

definition nonblank :: "pyval \<Rightarrow> bool" where
  "nonblank v = (case v of PStr s \<Rightarrow> py_strip s \<noteq> [] | _ \<Rightarrow> False)"

definition input_ok :: "pyval \<Rightarrow> bool" where
  "input_ok v = (is_str v \<longrightarrow> nonblank v)"

fun fields_ok :: "step_fields \<Rightarrow> bool" where
  "fields_ok BaseFields = True"
| "fields_ok (LoadFields f a) = nonblank f"
| "fields_ok (JoinFields l r k h) = (nonblank l \<and> nonblank r)"
| "fields_ok (FilterFields i c op v) = (input_ok i \<and> nonblank c \<and> (needs_value op \<longrightarrow> v \<noteq> PNone))"
| "fields_ok (SelectFields i cs) = (input_ok i \<and> truthy cs)"
| "fields_ok (RenameFields i m) = (input_ok i \<and> truthy m)"
| "fields_ok (AggregateFields i g a) = (input_ok i \<and> truthy g)"
| "fields_ok (SortFields i b ord a) = (input_ok i \<and> \<not> no_sort_column b \<and> ord \<in> range Inr)"
| "fields_ok (SaveFields i f) = input_ok i"
| "fields_ok (ValidateFields i r) = (input_ok i \<and> truthy r)"
| "fields_ok (PivotFields i ix c v ag fv) = (input_ok i \<and> truthy ix \<and> nonblank c \<and> nonblank v)"
| "fields_ok (UnpivotFields i ids vs vn vl) = (input_ok i \<and> truthy ids \<and> truthy vs)"
| "fields_ok (DeduplicateFields i s k) = input_ok i"
| "fields_ok (FillNullsFields i s cs v) = (input_ok i \<and> (s = PStr ''constant'' \<longrightarrow> v \<noteq> PNone))"
| "fields_ok (SampleFields i m fr rs sb) = (input_ok i \<and> (m = PNone) \<noteq> (fr = PNone))"
| "fields_ok (SqlFields i q) = (input_ok i \<and> nonblank q)"
| "fields_ok (WasmComputeFields i w f ic oc) =
     (input_ok i \<and> nonblank w \<and> nonblank f \<and> truthy ic \<and> nonblank oc)"
| "fields_ok (TransformFields i e) = (input_ok i \<and> nonblank e)"
| "fields_ok (StreamConsumeFields t g bs bt d) = nonblank t"
| "fields_ok (StreamPublishFields i t s k) = (input_ok i \<and> nonblank t)"

definition required_ok :: "step_config \<Rightarrow> bool" where
  "required_ok st \<longleftrightarrow> nonblank (step_name st) \<and> (step_type st \<in> range Inr \<longrightarrow> fields_ok (cfg_fields st))"

definition name_format_ok :: "step_config \<Rightarrow> bool" where
  "name_format_ok st \<longleftrightarrow> (truthy (step_name st) \<longrightarrow> (\<exists>s. step_name st = PStr s \<and> is_valid_identifier s))"

definition load_ok :: "string list \<Rightarrow> step_config \<Rightarrow> bool" where
  "load_ok registered st =
     (case cfg_fields st of LoadFields f a \<Rightarrow> nonblank f \<longrightarrow> (\<exists>r \<in> set registered. f = PStr r) | _ \<Rightarrow> True)"

definition operator_ok :: "step_config \<Rightarrow> bool" where
  "operator_ok st = (case cfg_fields st of FilterFields i c op v \<Rightarrow> op \<in> range Inr | _ \<Rightarrow> True)"

definition join_ok :: "step_config \<Rightarrow> bool" where
  "join_ok st = (case cfg_fields st of JoinFields l r k h \<Rightarrow> k \<noteq> [] \<and> h \<in> range Inr | _ \<Rightarrow> True)"

definition aggregate_ok :: "step_config \<Rightarrow> bool" where
  "aggregate_ok st =
     (case cfg_fields st of AggregateFields i g a \<Rightarrow> truthy a \<and>
        (\<exists>aggs. iterate a = Inr aggs \<and>
           (\<forall>agg \<in> set aggs. aggregation_function agg \<in> PStr ` set valid_aggregation_functions))
      | _ \<Rightarrow> True)"

definition save_ok :: "step_config \<Rightarrow> bool" where
  "save_ok st =
     (case cfg_fields st of SaveFields i f \<Rightarrow> truthy f \<and> safe_filename_value f = Inr True | _ \<Rightarrow> True)"

definition rules_ok :: "step_config \<Rightarrow> bool" where
  "rules_ok st =
     (case cfg_fields st of ValidateFields i r \<Rightarrow>
        (\<exists>rs. iterate r = Inr rs \<and>
           (\<forall>rule \<in> set rs. \<exists>d. rule = PDict d \<and> get_or d ''check'' empty_str \<in> PStr ` set supported_checks))
      | _ \<Rightarrow> True)"

definition sql_ok :: "step_config \<Rightarrow> bool" where
  "sql_ok st =
     (case cfg_fields st of SqlFields i q \<Rightarrow> (\<exists>sql. validate_sql_step_query q True = Inr sql) | _ \<Rightarrow> True)"

text \<open>Every reference of a step names an earlier step.\<close>

definition references_ok :: "pyval list \<Rightarrow> step_config \<Rightarrow> bool" where
  "references_ok earlier st \<longleftrightarrow>
     (\<forall>p \<in> set (step_refs (cfg_fields st)). truthy (snd p) \<longrightarrow> (\<exists>a \<in> set earlier. py_eq a (snd p)))"

fun all_references_ok :: "pyval list \<Rightarrow> step_config list \<Rightarrow> bool" where
  "all_references_ok earlier [] = True"
| "all_references_ok earlier (st # rest) =
     (references_ok earlier st \<and> all_references_ok (earlier @ [step_name st]) rest)"

definition distinct_names :: "pyval list \<Rightarrow> bool" where
  "distinct_names = sorted_wrt (\<lambda>a b. \<not> py_eq a b)"

definition well_formed :: "int \<Rightarrow> string list \<Rightarrow> pipeline_config \<Rightarrow> bool" where
  "well_formed max_steps registered cfg \<longleftrightarrow>
     nonblank (pipeline_name cfg) \<and> steps cfg \<noteq> [] \<and> int (length (steps cfg)) \<le> max_steps \<and>
     distinct_names (map step_name (steps cfg)) \<and>
     list_all name_format_ok (steps cfg) \<and>
     list_all (\<lambda>st. step_type st \<in> range Inr) (steps cfg) \<and>
     list_all required_ok (steps cfg) \<and>
     all_references_ok [] (steps cfg) \<and>
     list_all (load_ok registered) (steps cfg) \<and>
     list_all operator_ok (steps cfg) \<and> list_all join_ok (steps cfg) \<and>
     list_all aggregate_ok (steps cfg) \<and> list_all save_ok (steps cfg) \<and>
     list_all rules_ok (steps cfg) \<and> list_all sql_ok (steps cfg) \<and>
     list_all (\<lambda>st. step_type st \<noteq> Inr TRANSFORM) (steps cfg)"

subsection \<open>Each pass decides its condition\<close>

lemma judges_blank_field: "judges (blank_field sn f m v) (nonblank v)"
  by (cases v) (auto simp: judges_def blank_field_def report_def blank_value_def nonblank_def
      strip_attr_def py_strip_def split: if_splits)

lemma judges_report: "judges (report sn f m (Inr b)) (\<not> b)"
  by (simp add: judges_def report_def)

lemma judges_empty_field: "judges (empty_field sn f m v) (truthy v)"
  using judges_report [of sn f m "\<not> truthy v"] by (simp add: empty_field_def)

lemma judges_input_error: "judges (input_error sn v) (input_ok v)"
  by (cases v) (simp_all add: judges_def input_error_def blank_input_def input_ok_def nonblank_def
      is_str_def report_def)

lemma judges_strip: "judges (report sn f m (bindE (strip_attr q) (\<lambda>s. Inr (s = [])))) (nonblank q)"
  by (cases q) (auto simp: judges_def report_def strip_attr_def nonblank_def split: if_splits)

lemmas field_judges = judges_blank_field judges_empty_field judges_input_error judges_strip judges_report

lemma judges_field_errors: "judges (field_errors sn f) (fields_ok f)"
  by (cases f; simp only: field_errors.simps late_field_errors.simps fields_ok.simps judges_Nil;
      rule judges_cong, (rule judges_concatE field_judges)+, auto split: sum.splits)

interpretation required_pass: step_check required_field_errors required_ok
proof
  fix st :: step_config
  let ?sn = "if truthy (step_name st) then step_name st else PStr ''<unnamed>''"
  have "judges (field_errors ?sn (cfg_fields st)) (fields_ok (cfg_fields st))"
    by (rule judges_field_errors)
  then show "judges (required_field_errors st) (required_ok st)"
    by (cases "step_name st"; cases "step_type st")
      (auto simp: required_field_errors_def required_ok_def judges_def blank_value_def strip_attr_def
        nonblank_def py_strip_def Let_def split: if_splits)
qed

interpretation name_format_pass: step_check name_format_errors name_format_ok
  by unfold_locales
    (auto simp: judges_def name_format_errors_def name_format_ok_def report_def match_identifier_def
      split: if_splits pyval.splits)

interpretation type_pass: step_check step_type_errors "\<lambda>st. step_type st \<in> range Inr"
  by unfold_locales (auto simp: judges_def step_type_errors_def split: sum.splits)

interpretation load_pass: step_check "load_file_errors registered" "load_ok registered" for registered
proof
  fix st :: step_config
  show "judges (load_file_errors registered st) (load_ok registered st)"
  proof (cases "cfg_fields st")
    case (LoadFields f a)
    then show ?thesis
      by (cases f) (auto simp: judges_def load_file_errors_def load_ok_def report_def blank_value_def
          strip_attr_def nonblank_def py_strip_def list_ex_iff split: if_splits)
  qed (simp_all add: judges_def load_file_errors_def load_ok_def)
qed

interpretation operator_pass: step_check filter_operator_errors operator_ok
  by unfold_locales
    (auto simp: judges_def filter_operator_errors_def operator_ok_def split: step_fields.splits sum.splits)

interpretation join_pass: step_check join_config_errors join_ok
proof
  fix st :: step_config
  show "judges (join_config_errors st) (join_ok st)"
    by (cases "cfg_fields st") (auto simp: judges_def join_config_errors_def join_ok_def report_def
        split: sum.splits if_splits)
qed

lemma judges_not_in_set: "judges (report sn f m (not_in_set names v)) (v \<in> PStr ` set names)"
  by (auto simp: judges_def report_def not_in_set_def list_ex_iff split: if_splits)

interpretation aggregate_pass: step_check aggregate_config_errors aggregate_ok
proof
  fix st :: step_config
  show "judges (aggregate_config_errors st) (aggregate_ok st)"
  proof (cases "cfg_fields st")
    case (AggregateFields i g a)
    let ?ok = "\<lambda>agg. aggregation_function agg \<in> PStr ` set valid_aggregation_functions"
    have "judges (bindE (iterate a) (\<lambda>aggs. concatE (map (aggregation_error st) aggs)))
        (\<exists>aggs. iterate a = Inr aggs \<and> list_all ?ok aggs)"
      by (intro judges_bindE judges_concatE_map) (simp add: aggregation_error_def judges_not_in_set)
    with AggregateFields show ?thesis
      by (auto simp: judges_def aggregate_config_errors_def aggregate_ok_def report_def list_all_iff
          split: if_splits)
  qed (simp_all add: judges_def aggregate_config_errors_def aggregate_ok_def)
qed

interpretation save_pass: step_check save_filename_errors save_ok
proof
  fix st :: step_config
  show "judges (save_filename_errors st) (save_ok st)"
    by (cases "cfg_fields st") (auto simp: judges_def save_filename_errors_def save_ok_def report_def
        split: if_splits)
qed

interpretation rules_pass: step_check validate_rule_errors rules_ok
proof
  fix st :: step_config
  show "judges (validate_rule_errors st) (rules_ok st)"
  proof (cases "cfg_fields st")
    case (ValidateFields i r)
    let ?ok = "\<lambda>rule. \<exists>d. rule = PDict d \<and> get_or d ''check'' empty_str \<in> PStr ` set supported_checks"
    have "judges (rule_error st rule) (?ok rule)" for rule
      by (cases rule) (simp_all add: rule_error_def judges_not_in_set, simp_all add: judges_def)
    then have "judges (bindE (iterate r) (\<lambda>rs. concatE (map (rule_error st) rs)))
        (\<exists>rs. iterate r = Inr rs \<and> list_all ?ok rs)"
      by (intro judges_bindE judges_concatE_map)
    with ValidateFields show ?thesis
      by (simp add: validate_rule_errors_def rules_ok_def list_all_iff)
  qed (simp_all add: judges_def validate_rule_errors_def rules_ok_def)
qed

interpretation sql_pass: step_check sql_step_errors sql_ok
proof
  fix st :: step_config
  show "judges (sql_step_errors st) (sql_ok st)"
    by (cases "cfg_fields st") (auto simp: judges_def sql_step_errors_def sql_ok_def
        split: sum.splits pyexn.splits)
qed

interpretation unsupported_pass: step_check unsupported_errors "\<lambda>st. step_type st \<noteq> Inr TRANSFORM"
  by unfold_locales (auto simp: judges_def unsupported_errors_def report_def)

interpretation name_pass: config_check check_pipeline_name "\<lambda>cfg. nonblank (pipeline_name cfg)"
proof
  fix cfg :: pipeline_config
  show "judges (check_pipeline_name cfg) (nonblank (pipeline_name cfg))"
    using judges_blank_field [unfolded blank_field_def] by (simp add: check_pipeline_name_def)
qed

interpretation has_steps_pass: config_check check_has_steps "\<lambda>cfg. steps cfg \<noteq> []"
  by unfold_locales (simp add: check_has_steps_def judges_report)

interpretation count_pass: config_check "check_step_count_limit max_steps"
    "\<lambda>cfg. int (length (steps cfg)) \<le> max_steps" for max_steps
  by unfold_locales (rule judges_cong, simp only: check_step_count_limit_def, rule judges_report, auto)

subsection \<open>Names and references\<close>

text \<open>The equality of hashable values as equality of a key; a NaN has none.\<close>

definition hash_key :: "pyval \<Rightarrow> (rat + pyval) option" where
  "hash_key v =
     (case py_num v of Some q \<Rightarrow> Some (Inl q)
      | None \<Rightarrow> (case v of PFloat r q \<Rightarrow> if r = ''nan'' then None else Some (Inr v) | _ \<Rightarrow> Some (Inr v)))"

lemma py_eq_hash_key:
  assumes "hashable a" "hashable b"
  shows "py_eq a b \<longleftrightarrow> hash_key a = hash_key b \<and> hash_key a \<noteq> None"
proof (cases "(a, b)" rule: py_eq.cases)
  case (5 r r')
  then show ?thesis by (simp add: hash_key_def py_num_def)
qed (use assms in \<open>auto simp: hash_key_def py_num_def hashable_def split: option.splits if_splits pyval.splits\<close>)

lemma py_eq_hashable_trans:
  "hashable a \<Longrightarrow> hashable b \<Longrightarrow> hashable c \<Longrightarrow> py_eq a b \<Longrightarrow> py_eq b c \<Longrightarrow> py_eq a c"
  by (metis py_eq_hash_key)

text \<open>What \<^verbatim>\<open>seen\<close> holds after the names \<open>ns\<close>.\<close>

definition counted :: "pyval list \<Rightarrow> (pyval \<times> int) list \<Rightarrow> bool" where
  "counted ns seen \<longleftrightarrow>
     (\<forall>n \<in> set ns. hashable n) \<and> (\<forall>(k, c) \<in> set seen. hashable k \<and> 1 \<le> c) \<and>
     ((\<forall>(k, c) \<in> set seen. c \<le> 1) \<longleftrightarrow> distinct_names ns) \<and>
     (\<forall>n. hashable n \<longrightarrow> (\<exists>(k, c) \<in> set seen. py_eq k n) \<longleftrightarrow> (\<exists>m \<in> set ns. py_eq m n))"

lemma counted_bump:
  assumes c: "counted ns seen" and h: "hashable name"
  shows "counted (ns @ [name]) (bump_count name seen)"
proof (cases "list_ex (\<lambda>(k, c). py_eq k name) seen")
  case True
  then obtain k n where k: "(k, n) \<in> set seen" "py_eq k name" by (auto simp: list_ex_iff)
  with c h have m: "\<exists>m \<in> set ns. py_eq m name" by (fastforce simp: counted_def)
  then have nd: "\<not> distinct_names (ns @ [name])" by (auto simp: distinct_names_def sorted_wrt_append)
  have seen': "bump_count name seen = map (\<lambda>(k, c). (k, if py_eq k name then c + 1 else c)) seen"
    using True by (simp add: bump_count_def)
  from c k(1) have "1 \<le> n" by (auto simp: counted_def)
  with k have "\<not> (\<forall>(k, c) \<in> set (bump_count name seen). c \<le> 1)"
    unfolding seen' by force
  moreover have "(\<exists>(k, c) \<in> set (bump_count name seen). py_eq k x) \<longleftrightarrow> (\<exists>(k, c) \<in> set seen. py_eq k x)" for x
    unfolding seen' by force
  moreover have "(\<exists>m \<in> set ns. py_eq m x) \<longleftrightarrow> (\<exists>m \<in> set (ns @ [name]). py_eq m x)" if "hashable x" for x
    using m that h c by (auto simp: counted_def intro: py_eq_hashable_trans)
  ultimately show ?thesis
    using c h nd unfolding counted_def by (auto simp: seen')
next
  case False
  with c h have m: "\<not> (\<exists>m \<in> set ns. py_eq m name)" by (fastforce simp: counted_def list_ex_iff)
  have seen': "bump_count name seen = seen @ [(name, 1)]" using False by (simp add: bump_count_def)
  from m have "distinct_names (ns @ [name]) \<longleftrightarrow> distinct_names ns"
    by (auto simp: distinct_names_def sorted_wrt_append)
  with c h show ?thesis unfolding counted_def seen' by auto
qed

lemma foldE_count_name:
  "foldE count_name sts seen = Inr seen' \<Longrightarrow> counted ns seen \<Longrightarrow> counted (ns @ map step_name sts) seen'"
proof (induction sts arbitrary: seen ns)
  case Nil
  then show ?case by simp
next
  case (Cons st sts)
  then obtain s1 where s1: "count_name st seen = Inr s1" "foldE count_name sts s1 = Inr seen'" by auto
  then have "counted (ns @ [step_name st]) s1"
    using Cons.prems(2) by (auto simp: count_name_def counted_bump split: if_splits)
  from Cons.IH [OF s1(2) this] show ?case by simp
qed

interpretation duplicate_pass: config_check check_duplicate_step_names
    "\<lambda>cfg. distinct_names (map step_name (steps cfg))"
proof
  fix cfg :: pipeline_config
  have "counted [] []" by (simp add: counted_def distinct_names_def)
  then have "counted (map step_name (steps cfg)) seen" if "foldE count_name (steps cfg) [] = Inr seen" for seen
    using foldE_count_name [OF that, of "[]"] by simp
  then have "filter (\<lambda>(name, c). c > 1) seen = [] \<longleftrightarrow> distinct_names (map step_name (steps cfg))"
    if "foldE count_name (steps cfg) [] = Inr seen" for seen
    using that by (fastforce simp: counted_def filter_empty_conv)
  then show "judges (check_duplicate_step_names cfg) (distinct_names (map step_name (steps cfg)))"
    by (auto simp: judges_def check_duplicate_step_names_def)
qed

lemma judges_reference_errors: "judges (reference_errors seen sts) (all_references_ok seen sts)"
proof (induction sts arbitrary: seen)
  case Nil
  then show ?case by simp
next
  case (Cons st sts)
  let ?ok = "\<lambda>p. truthy (snd p) \<longrightarrow> (\<exists>a \<in> set seen. py_eq a (snd p))"
  have "judges (reference_error st seen p) (?ok p)" for p
    by (auto simp: judges_def reference_error_def list_ex_iff split: if_splits)
  then have "judges (concatE (map (reference_error st seen) (step_refs (cfg_fields st))))
      (references_ok seen st)"
    unfolding references_ok_def list_all_iff [symmetric] by (rule judges_concatE_map)
  with Cons.IH [of "seen @ [step_name st]"] show ?case by (auto simp: judges_def)
qed

interpretation reference_pass: config_check check_step_references "\<lambda>cfg. all_references_ok [] (steps cfg)"
  by unfold_locales (simp add: check_step_references_def judges_reference_errors)

lemmas pass_judges =
  name_pass.judged has_steps_pass.judged count_pass.judged duplicate_pass.judged
  name_format_pass.each.judged type_pass.each.judged required_pass.each.judged reference_pass.judged
  load_pass.each.judged operator_pass.each.judged join_pass.each.judged aggregate_pass.each.judged
  save_pass.each.judged rules_pass.each.judged sql_pass.each.judged unsupported_pass.each.judged

lemmas pass_defs =
  check_step_name_format_def check_step_types_def check_required_step_fields_def check_load_file_ids_def
  check_filter_operators_def check_join_configs_def check_aggregate_configs_def check_save_filenames_def
  check_validate_rules_def check_sql_steps_def check_unsupported_runtime_steps_def

lemma judges_validate:
  "judges (concatE (map (\<lambda>pass. pass cfg) (check_passes max_steps registered)))
     (well_formed max_steps registered cfg)"
  unfolding check_passes_def list.map pass_defs
  by (rule judges_cong, (rule judges_concatE pass_judges)+, simp add: well_formed_def)

lemma validate_Inr: "validate max_steps cfg registered = Inr r \<Longrightarrow>
  is_valid r \<longleftrightarrow> well_formed max_steps registered cfg"
  using judges_validate [of cfg max_steps registered] by (auto simp: validate_def judges_def)

subsection \<open>When validation returns\<close>

text \<open>A value whose \<^verbatim>\<open>strip\<close> is never reached or exists.\<close>

definition text_or_empty :: "pyval \<Rightarrow> bool" where
  "text_or_empty v \<longleftrightarrow> is_str v \<or> \<not> truthy v"

fun fields_typed :: "step_fields \<Rightarrow> bool" where
  "fields_typed (LoadFields f a) = text_or_empty f"
| "fields_typed (JoinFields l r k h) = (is_str l \<and> is_str r)"
| "fields_typed (FilterFields i c op v) = text_or_empty c"
| "fields_typed (AggregateFields i g a) =
     (\<exists>aggs. iterate a = Inr aggs \<and> list_all (\<lambda>agg. hashable (aggregation_function agg)) aggs)"
| "fields_typed (SaveFields i f) = text_or_empty f"
| "fields_typed (ValidateFields i r) =
     (\<exists>rs. r = PList rs \<and> list_all (\<lambda>x. \<exists>d. x = PDict d \<and> hashable (get_or d ''check'' empty_str)) rs)"
| "fields_typed (PivotFields i ix c v ag fv) = (text_or_empty c \<and> text_or_empty v)"
| "fields_typed (SqlFields i q) = is_str q"
| "fields_typed (WasmComputeFields i w f ic oc) = (text_or_empty w \<and> text_or_empty f \<and> text_or_empty oc)"
| "fields_typed (TransformFields i e) = text_or_empty e"
| "fields_typed (StreamConsumeFields t g bs bt d) = text_or_empty t"
| "fields_typed (StreamPublishFields i t s k) = text_or_empty t"
| "fields_typed _ = True"

definition step_typed :: "step_config \<Rightarrow> bool" where
  "step_typed st \<longleftrightarrow> is_str (step_name st) \<and> fields_typed (cfg_fields st)"

definition returns :: "'a result \<Rightarrow> bool" where
  "returns r \<longleftrightarrow> (\<exists>x. r = Inr x)"

lemma returns_simps [simp]:
  "returns (Inr x)" "\<not> returns (Inl e)"
  "returns (concatE rs) \<longleftrightarrow> list_all returns rs"
  "returns (report sn f m c) \<longleftrightarrow> returns c"
proof -
  show "returns (concatE rs) \<longleftrightarrow> list_all returns rs"
    by (induction rs) (auto simp: returns_def bindE_eq_Inr_iff)
qed (auto simp: returns_def report_def bindE_eq_Inr_iff)

lemma returns_bindE: "returns (bindE m f) \<longleftrightarrow> (\<exists>x. m = Inr x \<and> returns (f x))"
  by (cases m) auto

lemma returns_blank_value [simp]: "returns (blank_value v) \<longleftrightarrow> text_or_empty v"
  by (cases v) (auto simp: blank_value_def strip_attr_def text_or_empty_def is_str_def)

lemma returns_field_checks [simp]:
  "returns (blank_field sn f m v) \<longleftrightarrow> text_or_empty v"
  "returns (empty_field sn f m v)"
  "returns (input_error sn v)"
  by (auto simp: blank_field_def empty_field_def input_error_def blank_input_def split: pyval.split)

lemma returns_not_in_set [simp]: "returns (not_in_set names v) \<longleftrightarrow> hashable v"
  by (simp add: not_in_set_def)

lemma returns_each_step: "returns (each_step f cfg) \<longleftrightarrow> list_all (\<lambda>st. returns (f st)) (steps cfg)"
  by (simp add: each_step_def list_all_iff)

lemma text_or_empty_str [simp]: "is_str v \<Longrightarrow> text_or_empty v"
  by (simp add: text_or_empty_def)

lemma returns_strip [simp]: "returns (bindE (strip_attr q) (\<lambda>s. Inr (f s))) \<longleftrightarrow> is_str q"
  by (cases q) (auto simp: strip_attr_def is_str_def)

lemma returns_field_errors: "fields_typed f \<Longrightarrow> returns (field_errors sn f)"
  by (cases f) (simp_all del: concatE.simps)

lemma returns_rule_errors:
  "fields_typed (cfg_fields st) \<Longrightarrow> returns (validate_rule_errors st)"
  by (cases "cfg_fields st")
    (auto simp: validate_rule_errors_def iterate_def rule_error_def list_all_iff simp del: concatE.simps
      split: pyval.split)

lemma returns_aggregate_errors:
  "fields_typed (cfg_fields st) \<Longrightarrow> returns (aggregate_config_errors st)"
  by (cases "cfg_fields st")
    (auto simp: aggregate_config_errors_def aggregation_error_def list_all_iff simp del: concatE.simps)

lemma returns_sql_errors: "returns (sql_step_errors st)"
  using validate_sql_step_query_ValueError [of _ True]
  by (auto simp: sql_step_errors_def returns_def split: step_fields.split sum.split pyexn.split)
    (fastforce split: sum.splits)+

lemma returns_save_errors:
  "fields_typed (cfg_fields st) \<Longrightarrow> returns (save_filename_errors st)"
  by (cases "cfg_fields st")
    (auto simp: save_filename_errors_def safe_filename_value_def text_or_empty_def returns_bindE elim: is_strE)

lemma returns_step_passes:
  assumes "step_typed st"
  shows "returns (name_format_errors st)" "returns (step_type_errors st)"
    "returns (required_field_errors st)" "returns (load_file_errors registered st)"
    "returns (filter_operator_errors st)" "returns (join_config_errors st)"
    "returns (unsupported_errors st)"
proof -
  from assms obtain s where s: "step_name st = PStr s" and f: "fields_typed (cfg_fields st)"
    by (auto simp: step_typed_def elim: is_strE)
  show "returns (name_format_errors st)"
    by (simp add: name_format_errors_def s match_identifier_def)
  show "returns (step_type_errors st)" by (simp add: step_type_errors_def split: sum.split)
  show "returns (required_field_errors st)"
    using f by (auto simp: required_field_errors_def s blank_value_def strip_attr_def returns_bindE
        returns_field_errors Let_def split: sum.split)
  show "returns (load_file_errors registered st)"
    using f by (cases "cfg_fields st")
      (auto simp: load_file_errors_def returns_bindE simp flip: returns_blank_value, auto simp: returns_def)
  show "returns (filter_operator_errors st)"
    by (simp add: filter_operator_errors_def split: step_fields.split sum.split)
  show "returns (join_config_errors st)"
    by (simp add: join_config_errors_def del: concatE.simps split: step_fields.split sum.split)
  show "returns (unsupported_errors st)" by (simp add: unsupported_errors_def)
qed

lemma step_refs_str: "fields_typed f \<Longrightarrow> p \<in> set (step_refs f) \<Longrightarrow> is_str (snd p)"
  by (cases f) (auto split: pyval.splits)

lemma returns_reference_errors:
  "list_all step_typed sts \<Longrightarrow> list_all is_str seen \<Longrightarrow> returns (reference_errors seen sts)"
proof (induction sts arbitrary: seen)
  case Nil
  then show ?case by simp
next
  case (Cons st sts)
  then have st: "is_str (step_name st)" "fields_typed (cfg_fields st)" by (simp_all add: step_typed_def)
  have "returns (reference_error st seen p)" if "p \<in> set (step_refs (cfg_fields st))" for p
    using step_refs_str [OF st(2) that] Cons.prems(2) by (simp add: reference_error_def suggest_step_def)
  then have "returns (concatE (map (reference_error st seen) (step_refs (cfg_fields st))))"
    by (simp add: list_all_iff)
  moreover have "returns (reference_errors (seen @ [step_name st]) sts)"
    using Cons st by simp
  ultimately show ?case by (auto simp: returns_def)
qed

lemma returns_duplicates: "list_all step_typed (steps cfg) \<Longrightarrow> returns (check_duplicate_step_names cfg)"
  using foldE_total [of "steps cfg" count_name "[]"]
  by (fastforce simp: check_duplicate_step_names_def returns_bindE count_name_def step_typed_def list_all_iff
      hashable_def elim: is_strE)

lemma returns_validate:
  assumes "text_or_empty (pipeline_name cfg)" "list_all step_typed (steps cfg)"
  shows "returns (validate max_steps cfg registered)"
proof -
  have st: "list_all (\<lambda>st. step_typed st \<and> fields_typed (cfg_fields st)) (steps cfg)"
    using assms(2) by (simp add: list_all_iff step_typed_def)
  have "list_all returns (map (\<lambda>pass. pass cfg) (check_passes max_steps registered))"
    using st assms returns_reference_errors [of "steps cfg" "[]"] returns_duplicates [of cfg]
    by (simp add: check_passes_def pass_defs returns_each_step list_all_iff returns_step_passes
        returns_sql_errors returns_save_errors returns_rule_errors returns_aggregate_errors
        check_pipeline_name_def check_has_steps_def check_step_count_limit_def check_step_references_def)
  then have "returns (concatE (map (\<lambda>pass. pass cfg) (check_passes max_steps registered)))"
    by simp
  then show ?thesis unfolding validate_def returns_bindE by (auto simp: returns_def)
qed

section \<open>Properties\<close>

text \<open>A two-step pipeline; the value of the save step's \<^verbatim>\<open>input\<close> is the parameter.\<close>

definition sample_config :: "pyval \<Rightarrow> pipeline_config" where
  "sample_config inp =
     \<lparr>pipeline_name = PStr ''p'', description = PNone,
      steps = [\<lparr>step_name = PStr ''a'', step_type = Inr LOAD, contract = PNone,
                cfg_fields = LoadFields (PStr ''f1'') PNone\<rparr>,
               \<lparr>step_name = PStr ''b'', step_type = Inr SAVE, contract = PNone,
                cfg_fields = SaveFields inp (PStr ''out.csv'')\<rparr>]\<rparr>"

lemma sample_evals [simp]:
  "is_valid_identifier ''a''" "is_valid_identifier ''b''" "is_safe_filename ''out.csv''"
  "py_strip ''a'' = ''a''" "py_strip ''b'' = ''b''" "py_strip ''f1'' = ''f1''" "py_strip ''p'' = ''p''"
  by code_simp+

lemma sample_typed: "text_or_empty (pipeline_name (sample_config inp))" "list_all step_typed (steps (sample_config inp))"
  by (simp_all add: sample_config_def step_typed_def)

lemma sample_well_formed: "input_ok inp \<Longrightarrow> is_str inp \<longrightarrow> inp = PStr ''a'' \<Longrightarrow>
  well_formed 50 [''f1''] (sample_config inp)"
  by (cases inp) (simp_all add: sample_config_def well_formed_def nonblank_def distinct_names_def
      name_format_ok_def required_ok_def references_ok_def load_ok_def operator_ok_def join_ok_def
      aggregate_ok_def save_ok_def rules_ok_def sql_ok_def safe_filename_value_def)

lemma sample_validates: "input_ok inp \<Longrightarrow> is_str inp \<longrightarrow> inp = PStr ''a'' \<Longrightarrow>
  \<exists>r. validate 50 (sample_config inp) [''f1''] = Inr r \<and> is_valid r"
  using returns_validate [OF sample_typed, of 50 inp "[''f1'']"] sample_well_formed [of inp]
  by (auto simp: returns_def validate_Inr)

text \<open>C2.  \<^verbatim>\<open>PipelineParser.validate\<close> decides well-formedness: whenever it returns a result,
  \<^verbatim>\<open>is_valid\<close> is true exactly when there are no errors, which is exactly when the configuration
  meets all sixteen conditions: a name, steps within the limit, names that are unique
  identifiers, known step types, complete fields, references to earlier steps only, registered
  files, known operators, join methods, aggregations and checks, safe file names, accepted SQL
  and no step without an executor.\<close>

theorem validate_decides:
  assumes "validate max_steps cfg registered = Inr r"
  shows "(is_valid r \<longleftrightarrow> errors r = []) \<and> (is_valid r \<longleftrightarrow> well_formed max_steps registered cfg)"
  using assms validate_Inr [OF assms] by (auto simp: validate_def)

theorem validate_decides_witness:
  "\<exists>r. validate 50 (sample_config (PStr ''a'')) [''f1''] = Inr r \<and> is_valid r \<and> errors r = []"
proof -
  obtain r where r: "validate 50 (sample_config (PStr ''a'')) [''f1''] = Inr r"
    and "is_valid r"
    using sample_validates [of "PStr ''a''"] by (auto simp: input_ok_def nonblank_def)
  with validate_decides [OF r] show ?thesis by blast
qed

text \<open>\<^verbatim>\<open>validate\<close> returns a result, and raises nothing, when the names and the fields that the
  checks strip are strings (or empty), the aggregations can be iterated and the rules are a list
  of mappings.  Every other field may hold any value.\<close>

theorem validate_returns_when_typed:
  assumes "text_or_empty (pipeline_name cfg)" and "list_all step_typed (steps cfg)"
  shows "\<exists>r. validate max_steps cfg registered = Inr r"
  using returns_validate [OF assms] by (simp add: returns_def)

theorem validate_returns_when_typed_witness:
  "\<exists>r. validate 0 (sample_config (PInt 7)) [] = Inr r"
  by (rule validate_returns_when_typed [OF sample_typed])

text \<open>A validate step with a null \<^verbatim>\<open>rules\<close>, or an aggregate step with a null
  \<^verbatim>\<open>aggregations\<close>, makes \<^verbatim>\<open>validate\<close> raise, whatever else the pipeline holds, although the
  method's documentation promises a result with all errors instead of an exception.\<close>

theorem validate_raises_on_null_list:
  assumes "st \<in> set (steps cfg)"
    and "cfg_fields st = ValidateFields i PNone \<or> cfg_fields st = AggregateFields i g PNone"
  shows "\<exists>e. validate max_steps cfg registered = Inl e"
proof -
  have "\<not> returns (validate_rule_errors st) \<or> \<not> returns (aggregate_config_errors st)"
    using assms(2) by (auto simp: validate_rule_errors_def aggregate_config_errors_def iterate_def
        simp del: concatE.simps)
  with assms(1) have "\<not> returns (check_validate_rules cfg) \<or> \<not> returns (check_aggregate_configs cfg)"
    by (auto simp: pass_defs returns_each_step list_all_iff)
  then have "\<not> returns (concatE (map (\<lambda>pass. pass cfg) (check_passes max_steps registered)))"
    by (auto simp: check_passes_def simp del: concatE.simps)
  then show ?thesis
    by (cases "concatE (map (\<lambda>pass. pass cfg) (check_passes max_steps registered))")
      (simp_all add: validate_def)
qed

definition null_rules_config :: pipeline_config where
  "null_rules_config =
     \<lparr>pipeline_name = PStr ''p'', description = PNone,
      steps = [\<lparr>step_name = PStr ''v'', step_type = Inr VALIDATE, contract = PNone,
                cfg_fields = ValidateFields (PStr ''a'') PNone\<rparr>]\<rparr>"

theorem validate_raises_on_null_list_witness:
  "\<exists>e. validate 50 null_rules_config [] = Inl e"
  by (rule validate_raises_on_null_list [of _ _ "PStr ''a''"]) (simp add: null_rules_config_def, simp)

text \<open>A save step whose \<^verbatim>\<open>input\<close> is null passes every check, as does one whose input is a
  number: only a string is compared with the names of the earlier steps.\<close>

theorem validate_accepts_null_input:
  "\<exists>r r'. validate 50 (sample_config PNone) [''f1''] = Inr r \<and> is_valid r \<and>
    validate 50 (sample_config (PInt 3)) [''f1''] = Inr r' \<and> is_valid r'"
  using sample_validates [of PNone] sample_validates [of "PInt 3"]
  by (auto simp: input_ok_def is_str_def)

end
