(* ===== verification/SmartExecutor.thy ===== *)
theory SmartExecutor
  imports PipelineValidator
begin

text \<open>
  \<^verbatim>\<open>backend/execution/smart_executor.py\<close>: the choice between the Pandas and the DuckDB engine
  for one step.  The two engines and the tables are the fields of \<open>engines\<close>: a call on the
  Pandas executor is given the recorder and returns it as it left it, a call on DuckDB is not.
  Telemetry is represented by the engine attribute of the step's span.
\<close>

section \<open>Definitions\<close>

text \<open>\<^verbatim>\<open>StepExecutionResult\<close>, without its timestamps and trace identifiers.\<close>

record 't step_result =
  res_step_name :: pyval
  res_step_type :: string
  output_table :: 't
  rows_in :: int
  rows_out :: int
  columns_in :: "string list"
  columns_out :: "string list"
  duration_ms :: int
  res_warnings :: "string list"
  contract_violations :: "pyval list"
  engine :: "string option"
  download_url :: "string option"
  output_filename :: "string option"
  output_format :: "string option"
  output_object_name :: "string option"
  output_size_bytes :: "int option"

record ('t, 'r) engines =
  num_rows :: "'t \<Rightarrow> int"
  column_names :: "'t \<Rightarrow> string list"
  pandas_load :: "step_config \<Rightarrow> (pyval \<times> 't) list \<Rightarrow> 'r \<Rightarrow> 'r \<times> 't step_result result"
  pandas_execute :: "step_config \<Rightarrow> (pyval \<times> 't) list \<Rightarrow> 'r \<Rightarrow> 'r \<times> 't step_result result"
  duckdb_execute_step :: "step_config \<Rightarrow> 't \<Rightarrow> (string \<times> 't) list \<Rightarrow> 't result"

definition duckdb_threshold :: int where "duckdb_threshold = 50000"

definition duckdb_capable_steps :: "string list" where
  "duckdb_capable_steps = [''filter'', ''select'', ''sort'', ''aggregate'', ''join'', ''deduplicate'', ''fill_nulls'',
     ''sample'', ''pivot'', ''unpivot'', ''sql'']"

definition always_pandas_steps :: "string list" where
  "always_pandas_steps = [''load'', ''save'', ''validate'', ''rename'', ''wasm_compute'']"

definition step_type_label :: "step_config \<Rightarrow> string" where
  "step_type_label st = (case step_type st of Inr ty \<Rightarrow> step_type_value ty | Inl v \<Rightarrow> py_str v)"

definition smart_step_type :: "step_config \<Rightarrow> string" where
  "smart_step_type st = py_lower (step_type_label st)"

text \<open>\<^verbatim>\<open>table_registry.get(name) if name else None\<close>.\<close>

definition registry_get :: "(pyval \<times> 't) list \<Rightarrow> pyval \<Rightarrow> 't option result" where
  "registry_get reg v =
     (if \<not> truthy v then Inr None else if hashable v then Inr (dict_get reg v) else Inl TypeError)"

definition input_of :: "step_config \<Rightarrow> pyval" where
  "input_of st = (case input_attr (cfg_fields st) of None \<Rightarrow> PNone | Some i \<Rightarrow> i)"

definition left_of :: "step_config \<Rightarrow> pyval" where
  "left_of st = (case cfg_fields st of JoinFields l r k h \<Rightarrow> l | _ \<Rightarrow> PNone)"

definition right_of :: "step_config \<Rightarrow> pyval" where
  "right_of st = (case cfg_fields st of JoinFields l r k h \<Rightarrow> r | _ \<Rightarrow> PNone)"

definition as_result ::
    "('t, 'r) engines \<Rightarrow> step_config \<Rightarrow> 't \<Rightarrow> int \<Rightarrow> string list \<Rightarrow> int \<Rightarrow> string \<Rightarrow> 't step_result" where
  "as_result en st out n cols ms eng =
     \<lparr>res_step_name = step_name st, res_step_type = step_type_label st, output_table = out, rows_in = n,
      rows_out = num_rows en out, columns_in = cols, columns_out = column_names en out, duration_ms = ms,
      res_warnings = [], contract_violations = [], engine = Some eng,
      download_url = None, output_filename = None, output_format = None, output_object_name = None, output_size_bytes = None\<rparr>"

definition enrich_result :: "string \<Rightarrow> 'r \<times> 't step_result result \<Rightarrow> 'r \<times> 't step_result result" where
  "enrich_result eng rr = (case rr of (rec, r) \<Rightarrow> (rec, bindE r (\<lambda>res. Inr (res\<lparr>engine := Some eng\<rparr>))))"

text \<open>The engine announced on the span, fixed before the step is routed.\<close>

definition span_engine :: "('t, 'r) engines \<Rightarrow> step_config \<Rightarrow> (pyval \<times> 't) list \<Rightarrow> string result" where
  "span_engine en st reg =
     (if smart_step_type st \<in> set duckdb_capable_steps
      then bindE (registry_get reg (input_of st)) (\<lambda>tbl.
        Inr (case tbl of None \<Rightarrow> ''pandas''
             | Some t \<Rightarrow> if duckdb_threshold \<le> num_rows en t then ''duckdb'' else ''pandas''))
      else Inr ''pandas'')"

definition run_pandas ::
    "('t, 'r) engines \<Rightarrow> string \<Rightarrow> step_config \<Rightarrow> (pyval \<times> 't) list \<Rightarrow> 'r \<Rightarrow> 'r \<times> 't step_result result" where
  "run_pandas en eng st reg rec = enrich_result eng (pandas_execute en st reg rec)"

definition run_duckdb ::
    "('t, 'r) engines \<Rightarrow> int \<Rightarrow> step_config \<Rightarrow> 't \<Rightarrow> (string \<times> 't) list \<Rightarrow> int \<Rightarrow> string list \<Rightarrow> 'r \<Rightarrow>
     'r \<times> 't step_result result" where
  "run_duckdb en ms st tbl tables n cols rec =
     (rec, bindE (duckdb_execute_step en st tbl tables) (\<lambda>out. Inr (as_result en st out n cols ms ''duckdb'')))"

text \<open>The join branch of \<^verbatim>\<open>execute\<close>.\<close>

definition smart_join ::
    "('t, 'r) engines \<Rightarrow> int \<Rightarrow> string \<Rightarrow> (string \<times> 't) list \<Rightarrow> step_config \<Rightarrow> (pyval \<times> 't) list \<Rightarrow> 'r \<Rightarrow>
     'r \<times> 't step_result result" where
  "smart_join en ms eng extra_tables st reg rec =
     (case registry_get reg (left_of st) of
        Inl e \<Rightarrow> (rec, Inl e)
      | Inr lt \<Rightarrow>
          (case registry_get reg (right_of st) of
             Inl e \<Rightarrow> (rec, Inl e)
           | Inr rt \<Rightarrow>
               (case (lt, rt) of
                  (Some l, Some r) \<Rightarrow>
                    if max (num_rows en l) (num_rows en r) \<le> duckdb_threshold then run_pandas en eng st reg rec
                    else run_duckdb en ms st l
                      (AList.updates (map fst extra_tables) (map snd extra_tables) [(''__left__'', l), (''__right__'', r)])
                      (max (num_rows en l) (num_rows en r))
                      (column_names en l @ filter (\<lambda>c. c \<notin> set (column_names en l)) (column_names en r)) rec
                | _ \<Rightarrow> run_pandas en eng st reg rec)))"

definition smart_execute ::
    "('t, 'r) engines \<Rightarrow> int \<Rightarrow> (string \<times> 't) list \<Rightarrow> step_config \<Rightarrow> (pyval \<times> 't) list \<Rightarrow> 'r \<Rightarrow>
     'r \<times> 't step_result result" where
  "smart_execute en ms extra_tables st reg rec =
     (case span_engine en st reg of
        Inl e \<Rightarrow> (rec, Inl e)
      | Inr eng \<Rightarrow>
          let ty = smart_step_type st in
          if ty = ''load'' then enrich_result ''pandas'' (pandas_load en st reg rec)
          else if ty \<in> set always_pandas_steps then run_pandas en eng st reg rec
          else (case registry_get reg (input_of st) of
             Inl e \<Rightarrow> (rec, Inl e)
           | Inr input_table \<Rightarrow>
               if ty = ''sql'' then
                 (case input_table of
                    None \<Rightarrow> run_pandas en eng st reg rec
                  | Some t \<Rightarrow> run_duckdb en ms st t extra_tables (num_rows en t) (column_names en t) rec)
               else if ty = ''join'' then smart_join en ms eng extra_tables st reg rec
               else (case input_table of
                    None \<Rightarrow> run_pandas en eng st reg rec
                  | Some t \<Rightarrow>
                      if ty \<in> set duckdb_capable_steps \<and> duckdb_threshold \<le> num_rows en t
                      then run_duckdb en ms st t extra_tables (num_rows en t) (column_names en t) rec
                      else run_pandas en eng st reg rec)))"


section \<open>Routing\<close>

text \<open>The table of a name that is a string, if it is in the registry.\<close>

definition present :: "(pyval \<times> 't) list \<Rightarrow> pyval \<Rightarrow> 't option" where
  "present reg v = (if truthy v \<and> hashable v then dict_get reg v else None)"

text \<open>When a step goes to DuckDB.\<close>

definition routes_to_duckdb :: "('t, 'r) engines \<Rightarrow> step_config \<Rightarrow> (pyval \<times> 't) list \<Rightarrow> bool" where
  "routes_to_duckdb en st reg \<longleftrightarrow>
     (let ty = smart_step_type st in
      if ty = ''sql'' then present reg (input_of st) \<noteq> None
      else if ty = ''join'' then
        (\<exists>l r. present reg (left_of st) = Some l \<and> present reg (right_of st) = Some r \<and>
           duckdb_threshold < max (num_rows en l) (num_rows en r))
      else ty \<in> set duckdb_capable_steps \<and>
        (\<exists>t. present reg (input_of st) = Some t \<and> duckdb_threshold \<le> num_rows en t))"

text \<open>All references of the step can be looked up.\<close>

definition hashable_refs :: "step_config \<Rightarrow> bool" where
  "hashable_refs st \<longleftrightarrow> (\<forall>v \<in> {input_of st, left_of st, right_of st}. truthy v \<longrightarrow> hashable v)"

lemma registry_get_present:
  "truthy v \<longrightarrow> hashable v \<Longrightarrow> registry_get reg v = Inr (present reg v)"
  by (auto simp: registry_get_def present_def)

lemma enrich_engine: "enrich_result eng rr = (rec, Inr res) \<Longrightarrow> engine res = Some eng"
  by (auto simp: enrich_result_def split: prod.splits)

text \<open>Only a join has the type \<^verbatim>\<open>join\<close>, as the parser builds it.\<close>

definition join_typed :: "step_config \<Rightarrow> bool" where
  "join_typed st \<longleftrightarrow> (smart_step_type st = ''join'' \<longrightarrow> input_of st = PNone)"

lemma pandas_not_capable: "ty \<in> set always_pandas_steps \<Longrightarrow> ty \<notin> set duckdb_capable_steps"
  by (auto simp: always_pandas_steps_def duckdb_capable_steps_def)

lemma special_types:
  "''sql'' \<notin> set always_pandas_steps" "''join'' \<notin> set always_pandas_steps" "''load'' \<in> set always_pandas_steps"
  "''sql'' \<in> set duckdb_capable_steps" "''join'' \<in> set duckdb_capable_steps" "''load'' \<notin> set duckdb_capable_steps"
  by (simp_all add: always_pandas_steps_def duckdb_capable_steps_def)

lemma span_engine_hashable:
  "hashable_refs st \<Longrightarrow> span_engine en st reg =
     Inr (if smart_step_type st \<in> set duckdb_capable_steps \<and>
            (\<exists>t. present reg (input_of st) = Some t \<and> duckdb_threshold \<le> num_rows en t)
          then ''duckdb'' else ''pandas'')"
  by (auto simp: span_engine_def hashable_refs_def registry_get_present split: option.splits)

text \<open>The branches of \<open>smart_execute\<close>, by engine.\<close>

lemma smart_execute_pandas:
  assumes "hashable_refs st" "join_typed st" "\<not> routes_to_duckdb en st reg"
  shows "smart_execute en ms extra st reg rec =
    (if smart_step_type st = ''load'' then enrich_result ''pandas'' (pandas_load en st reg rec)
     else run_pandas en ''pandas'' st reg rec)"
proof -
  have gets: "registry_get reg (input_of st) = Inr (present reg (input_of st))"
    "registry_get reg (left_of st) = Inr (present reg (left_of st))"
    "registry_get reg (right_of st) = Inr (present reg (right_of st))"
    using assms(1) by (simp_all add: hashable_refs_def registry_get_present)
  show ?thesis
  proof (cases "smart_step_type st \<in> {''load'', ''sql'', ''join''}")
    case True
    with assms(2,3) gets show ?thesis
      by (auto simp: smart_execute_def span_engine_hashable [OF assms(1)] smart_join_def routes_to_duckdb_def
          special_types join_typed_def present_def split: option.splits)
  next
    case False
    with assms(3) gets show ?thesis
      by (auto simp: smart_execute_def span_engine_hashable [OF assms(1)] routes_to_duckdb_def Let_def
          dest: pandas_not_capable split: option.splits)
  qed
qed

definition from_duckdb :: "'r \<Rightarrow> 'r \<times> 't step_result result \<Rightarrow> bool" where
  "from_duckdb rec rr \<longleftrightarrow> fst rr = rec \<and> (\<forall>res. snd rr = Inr res \<longrightarrow> engine res = Some ''duckdb'')"

lemma run_duckdb_from [simp]: "from_duckdb rec (run_duckdb en ms st t tables n cols rec)"
  by (auto simp: from_duckdb_def run_duckdb_def as_result_def)

lemma smart_execute_duckdb:
  assumes "hashable_refs st" "routes_to_duckdb en st reg"
  shows "from_duckdb rec (smart_execute en ms extra st reg rec)"
proof -
  have gets: "registry_get reg (input_of st) = Inr (present reg (input_of st))"
    "registry_get reg (left_of st) = Inr (present reg (left_of st))"
    "registry_get reg (right_of st) = Inr (present reg (right_of st))"
    using assms(1) by (simp_all add: hashable_refs_def registry_get_present)
  show ?thesis
  proof (cases "smart_step_type st \<in> {''sql'', ''join''}")
    case True
    with assms(2) gets show ?thesis
      by (auto simp: smart_execute_def span_engine_hashable [OF assms(1)] smart_join_def routes_to_duckdb_def
          special_types less_max_iff_disj)
  next
    case False
    with assms(2) have "smart_step_type st \<in> set duckdb_capable_steps" by (auto simp: routes_to_duckdb_def Let_def)
    with False assms(2) gets show ?thesis
      by (auto simp: smart_execute_def span_engine_hashable [OF assms(1)] routes_to_duckdb_def Let_def special_types
          dest: pandas_not_capable)
  qed
qed


section \<open>Properties\<close>

text \<open>Tables that are only a row count; DuckDB halves it and Pandas notes the step.\<close>

definition demo_engines :: "(int, pyval list) engines" where
  "demo_engines =
     \<lparr>num_rows = (\<lambda>t. t), column_names = (\<lambda>t. [''x'']),
      pandas_load = (\<lambda>st reg rec. (rec @ [step_name st], Inl (OtherError ''unused''))),
      pandas_execute = (\<lambda>st reg rec. (rec @ [step_name st], Inr \<lparr>res_step_name = step_name st,
        res_step_type = step_type_label st, output_table = 1, rows_in = 1, rows_out = 1, columns_in = [''x''],
        columns_out = [''x''], duration_ms = 0, res_warnings = [], contract_violations = [], engine = None,
        download_url = None, output_filename = None, output_format = None, output_object_name = None, output_size_bytes = None\<rparr>)),
      duckdb_execute_step = (\<lambda>st t tables. Inr (t div 2))\<rparr>"

definition demo_sql :: step_config where
  "demo_sql = \<lparr>step_name = PStr ''q'', step_type = Inr SQL, contract = PNone,
     cfg_fields = SqlFields (PStr ''a'') (PStr ''SELECT 1'')\<rparr>"

definition demo_join :: step_config where
  "demo_join = \<lparr>step_name = PStr ''j'', step_type = Inr JOIN, contract = PNone,
     cfg_fields = JoinFields (PStr ''a'') (PStr ''b'') ''k'' (Inr INNER)\<rparr>"

lemma demo_types: "smart_step_type demo_sql = ''sql''" "smart_step_type demo_join = ''join''"
  by code_simp+

text \<open>The executor routes as its thresholds say.  A SQL step goes to DuckDB whenever its input is
  present, a join when both sides are and the larger has more than 50,000 rows, any other
  capable step from 50,000 rows on; everything else goes to Pandas.  A returned result is
  labelled with the engine that produced it.\<close>

theorem smart_execute_routing:
  assumes "hashable_refs st" and "join_typed st" and "smart_execute en ms extra st reg rec = (rec', Inr res)"
  shows "engine res = Some (if routes_to_duckdb en st reg then ''duckdb'' else ''pandas'')"
proof (cases "routes_to_duckdb en st reg")
  case True
  with smart_execute_duckdb [OF assms(1) True, of rec ms extra] assms(3) show ?thesis
    by (simp add: from_duckdb_def)
next
  case False
  with smart_execute_pandas [OF assms(1,2) False, of ms extra rec] assms(3) show ?thesis
    by (auto simp: run_pandas_def split: if_splits dest: enrich_engine [OF sym] enrich_engine)
qed

theorem smart_execute_routing_witness:
  "\<exists>res. smart_execute demo_engines 3 [] demo_sql [(PStr ''a'', 10)] [] = ([], Inr res) \<and> engine res = Some ''duckdb''"
proof -
  let ?rr = "smart_execute demo_engines 3 [] demo_sql [(PStr ''a'', 10)] []"
  have h: "hashable_refs demo_sql" "join_typed demo_sql"
    by (simp_all add: hashable_refs_def join_typed_def demo_types)
      (simp_all add: demo_sql_def input_of_def left_of_def right_of_def hashable_def)
  have r: "routes_to_duckdb demo_engines demo_sql [(PStr ''a'', 10)]"
    by (simp add: routes_to_duckdb_def demo_types) (simp add: demo_sql_def input_of_def present_def hashable_def)
  have "fst ?rr = [] \<and> (case snd ?rr of Inl e \<Rightarrow> False | Inr res \<Rightarrow> True)" by code_simp
  then obtain res where ex: "?rr = ([], Inr res)" by (cases ?rr) (auto split: sum.splits)
  from smart_execute_routing [OF h ex] r ex show ?thesis by simp
qed

text \<open>A step that DuckDB runs leaves no trace in the lineage graph: the recorder comes back
  unchanged, whatever the step does to the columns.  The record methods are only called by the
  Pandas executor, so every SQL step with a present input is missing from the lineage.\<close>

theorem duckdb_route_records_no_lineage:
  assumes "hashable_refs st" and "routes_to_duckdb en st reg"
  shows "fst (smart_execute en ms extra st reg rec) = rec"
  using smart_execute_duckdb [OF assms, of rec ms extra] by (simp add: from_duckdb_def)

theorem duckdb_route_records_no_lineage_witness:
  "fst (smart_execute demo_engines 3 [] demo_sql [(PStr ''a'', 10)] [PStr ''a'']) = [PStr ''a'']"
  by (rule duckdb_route_records_no_lineage)
    (simp_all add: routes_to_duckdb_def hashable_refs_def demo_types,
     simp_all add: demo_sql_def input_of_def left_of_def right_of_def present_def hashable_def)

text \<open>The span of a join always announces Pandas, also when DuckDB runs it: the engine attribute
  is read off the \<^verbatim>\<open>input\<close> field, which a join does not have.\<close>

theorem join_span_announces_pandas:
  assumes "hashable_refs st" and "join_typed st" and "smart_step_type st = ''join''"
  shows "span_engine en st reg = Inr ''pandas''"
  using assms by (simp add: span_engine_hashable join_typed_def present_def)

theorem join_span_announces_pandas_witness:
  "span_engine demo_engines demo_join [(PStr ''a'', 60000), (PStr ''b'', 60000)] = Inr ''pandas'' \<and>
   map_option engine (case snd (smart_execute demo_engines 3 [] demo_join [(PStr ''a'', 60000), (PStr ''b'', 60000)] [])
     of Inl e \<Rightarrow> None | Inr res \<Rightarrow> Some res) = Some (Some ''duckdb'')"
proof -
  have "hashable_refs demo_join" "join_typed demo_join"
    by (simp_all add: hashable_refs_def join_typed_def demo_types)
      (simp_all add: demo_join_def input_of_def left_of_def right_of_def hashable_def)
  from join_span_announces_pandas [OF this demo_types(2)]
  have "span_engine demo_engines demo_join [(PStr ''a'', 60000), (PStr ''b'', 60000)] = Inr ''pandas''" by blast
  moreover have "map_option engine (case snd (smart_execute demo_engines 3 [] demo_join
      [(PStr ''a'', 60000), (PStr ''b'', 60000)] []) of Inl e \<Rightarrow> None | Inr res \<Rightarrow> Some res) = Some (Some ''duckdb'')"
    by code_simp
  ultimately show ?thesis by blast
qed

end
