(* ===== verification/Runner.thy ===== *)
theory Runner
  imports SmartExecutor
begin

text \<open>
  \<^verbatim>\<open>backend/pipeline/runner.py\<close>: the orchestrator.  The step executor, the Arrow data bus and
  the contract check are the fields of \<open>runner_env\<close>; a call on the executor returns the
  recorder as it left it together with a result or an exception.  The progress and lineage
  callbacks are represented by the sequence of their arguments.
\<close>

section \<open>Definitions\<close>

datatype pipeline_status = PS_PENDING | PS_RUNNING | PS_COMPLETED | PS_FAILED | PS_CANCELLED

datatype step_status = SS_PENDING | SS_RUNNING | SS_COMPLETED | SS_FAILED | SS_SKIPPED

record step_progress_event =
  ev_run_id :: string
  ev_step_name :: pyval
  ev_step_index :: nat
  ev_total_steps :: nat
  ev_status :: step_status
  ev_rows_in :: "int option"
  ev_rows_out :: "int option"
  ev_duration_ms :: "int option"
  ev_error_message :: "string option"
  ev_contract_violations :: "pyval list option"

record ('t, 'r) execution_summary =
  sum_run_id :: string
  sum_pipeline_name :: pyval
  sum_status :: pipeline_status
  sum_step_results :: "'t step_result list"
  sum_lineage :: 'r
  sum_total_duration_ms :: int
  sum_total_rows_processed :: int
  sum_error :: "pyexn option"

record ('t, 'r, 'b) runner_env =
  step_execute :: "step_config \<Rightarrow> (pyval \<times> 't) list \<Rightarrow> 'r \<Rightarrow> 'r \<times> 't step_result result"
  bus_put :: "pyval \<Rightarrow> 't \<Rightarrow> 'b \<Rightarrow> 'b \<times> unit result"
  check_contract :: "pyval \<Rightarrow> 't \<Rightarrow> pyval \<Rightarrow> pyval list result"
  wants_lineage :: bool

record ('t, 'r, 'b) run_state =
  registry :: "(pyval \<times> 't) list"
  remaining :: "(pyval \<times> int) list"
  recorder :: 'r
  bus :: 'b
  events :: "step_progress_event list"
  snapshots :: "'r list"
  results :: "'t step_result list"
  rows_processed :: int

text \<open>\<^verbatim>\<open>[ref for ref in (step.input, step.left, step.right) if ref]\<close>, with absent attributes read
  as \<^verbatim>\<open>None\<close>.\<close>

definition step_inputs :: "step_config \<Rightarrow> pyval list" where
  "step_inputs st = filter truthy
     (case cfg_fields st of
        JoinFields l r k h \<Rightarrow> [PNone, l, r]
      | f \<Rightarrow> [case input_attr f of None \<Rightarrow> PNone | Some i \<Rightarrow> i, PNone, PNone])"

definition count_ref :: "pyval \<Rightarrow> (pyval \<times> int) list \<Rightarrow> (pyval \<times> int) list result" where
  "count_ref ref counts =
     (if hashable ref
      then Inr (dict_set counts ref ((case dict_get counts ref of None \<Rightarrow> 0 | Some c \<Rightarrow> c) + 1))
      else Inl TypeError)"

definition compute_consumer_counts :: "step_config list \<Rightarrow> (pyval \<times> int) list result" where
  "compute_consumer_counts sts = foldE (\<lambda>st. foldE count_ref (step_inputs st)) sts []"

definition evict_ref ::
    "pyval \<Rightarrow> pyval \<Rightarrow> (pyval \<times> 't) list \<times> (pyval \<times> int) list \<Rightarrow> (pyval \<times> 't) list \<times> (pyval \<times> int) list" where
  "evict_ref name ref rr =
     (case rr of (reg, rem) \<Rightarrow>
       (case dict_get rem ref of
          None \<Rightarrow> (reg, rem)
        | Some c \<Rightarrow>
            (if c - 1 \<le> 0 \<and> \<not> py_eq ref name then dict_pop reg ref else reg,
             dict_set rem ref (c - 1))))"

text \<open>The references were hashed when they were counted; a name that cannot be hashed raises.\<close>

definition store_and_evict ::
    "(pyval \<times> 't) list \<Rightarrow> pyval \<Rightarrow> 't \<Rightarrow> pyval list \<Rightarrow> (pyval \<times> int) list \<Rightarrow>
     ((pyval \<times> 't) list \<times> (pyval \<times> int) list) result" where
  "store_and_evict reg name tbl consumed rem =
     (if hashable name then Inr (fold (evict_ref name) consumed (dict_set reg name tbl, rem))
      else Inl TypeError)"

definition progress :: "string \<Rightarrow> pyval \<Rightarrow> nat \<Rightarrow> nat \<Rightarrow> step_status \<Rightarrow> step_progress_event" where
  "progress run_id name i total_steps status =
     \<lparr>ev_run_id = run_id, ev_step_name = name, ev_step_index = i, ev_total_steps = total_steps, ev_status = status,
      ev_rows_in = None, ev_rows_out = None, ev_duration_ms = None, ev_error_message = None,
      ev_contract_violations = None\<rparr>"

definition completed_event :: "string \<Rightarrow> pyval \<Rightarrow> nat \<Rightarrow> nat \<Rightarrow> 't step_result \<Rightarrow> step_progress_event" where
  "completed_event run_id name i total_steps res =
     (progress run_id name i total_steps SS_COMPLETED)
       \<lparr>ev_rows_in := Some (rows_in res), ev_rows_out := Some (rows_out res),
        ev_duration_ms := Some (duration_ms res), ev_contract_violations := Some (contract_violations res)\<rparr>"

definition emit :: "step_progress_event \<Rightarrow> ('t, 'r, 'b) run_state \<Rightarrow> ('t, 'r, 'b) run_state" where
  "emit ev st = st\<lparr>events := events st @ [ev]\<rparr>"

text \<open>The executor's call followed by \<^verbatim>\<open>bus.put\<close>, inside the \<^verbatim>\<open>try\<close> block.\<close>

definition run_and_publish ::
    "('t, 'r, 'b) runner_env \<Rightarrow> step_config \<Rightarrow> ('t, 'r, 'b) run_state \<Rightarrow>
     ('t, 'r, 'b) run_state \<times> 't step_result result" where
  "run_and_publish env step st =
     (case step_execute env step (registry st) (recorder st) of
        (rec, Inl e) \<Rightarrow> (st\<lparr>recorder := rec\<rparr>, Inl e)
      | (rec, Inr res) \<Rightarrow>
          (case bus_put env (step_name step) (output_table res) (bus st) of
             (b, Inl e) \<Rightarrow> (st\<lparr>recorder := rec, bus := b\<rparr>, Inl e)
           | (b, Inr _) \<Rightarrow> (st\<lparr>recorder := rec, bus := b\<rparr>, Inr res)))"

definition execute_single_step ::
    "('t, 'r, 'b) runner_env \<Rightarrow> string \<Rightarrow> nat \<Rightarrow> nat \<Rightarrow> step_config \<Rightarrow> ('t, 'r, 'b) run_state \<Rightarrow>
     ('t, 'r, 'b) run_state \<times> 't step_result result" where
  "execute_single_step env run_id total_steps i step st0 =
     (let st1 = emit (progress run_id (step_name step) i total_steps SS_RUNNING) st0 in
      case run_and_publish env step st1 of
        (st2, Inl (StepExecutionError sn msg)) \<Rightarrow>
          (emit ((progress run_id (step_name step) i total_steps SS_FAILED)\<lparr>ev_error_message := Some msg\<rparr>) st2,
           Inl (StepExecutionError sn msg))
      | (st2, Inl e) \<Rightarrow> (st2, Inl e)
      | (st2, Inr res) \<Rightarrow>
          let violations = (case check_contract env (contract step) (output_table res) (step_name step) of
                Inl _ \<Rightarrow> [] | Inr vs \<Rightarrow> vs);
              res = res\<lparr>contract_violations := violations\<rparr>;
              st3 = emit (completed_event run_id (step_name step) i total_steps res) st2;
              st4 = (if wants_lineage env then st3\<lparr>snapshots := snapshots st3 @ [recorder st3]\<rparr> else st3)
          in (st4, Inr res))"

fun run_steps ::
    "('t, 'r, 'b) runner_env \<Rightarrow> string \<Rightarrow> nat \<Rightarrow> nat \<Rightarrow> step_config list \<Rightarrow> ('t, 'r, 'b) run_state \<Rightarrow>
     ('t, 'r, 'b) run_state \<times> unit result" where
  "run_steps env run_id total_steps i [] st = (st, Inr ())"
| "run_steps env run_id total_steps i (step # rest) st =
     (case execute_single_step env run_id total_steps i step st of
        (st1, Inl e) \<Rightarrow> (st1, Inl e)
      | (st1, Inr res) \<Rightarrow>
          let st2 = st1\<lparr>results := results st1 @ [res]\<rparr> in
          (case store_and_evict (registry st2) (step_name step) (output_table res) (step_inputs step) (remaining st2) of
             Inl e \<Rightarrow> (st2, Inl e)
           | Inr (reg, rem) \<Rightarrow>
               run_steps env run_id total_steps (Suc i) rest
                 (st2\<lparr>registry := reg, remaining := rem, rows_processed := rows_processed st2 + rows_in res\<rparr>)))"

definition start_state :: "'r \<Rightarrow> 'b \<Rightarrow> (pyval \<times> int) list \<Rightarrow> ('t, 'r, 'b) run_state" where
  "start_state rec b consumers = \<lparr>registry = [], remaining = consumers, recorder = rec, bus = b, events = [],
     snapshots = [], results = [], rows_processed = 0\<rparr>"

definition build_summary ::
    "string \<Rightarrow> pipeline_config \<Rightarrow> int \<Rightarrow> pipeline_status \<Rightarrow> pyexn option \<Rightarrow> ('t, 'r, 'b) run_state \<Rightarrow> ('t, 'r) execution_summary" where
  "build_summary run_id cfg elapsed status err st =
     \<lparr>sum_run_id = run_id, sum_pipeline_name = pipeline_name cfg, sum_status = status,
      sum_step_results = results st, sum_lineage = recorder st, sum_total_duration_ms = elapsed,
      sum_total_rows_processed = rows_processed st, sum_error = err\<rparr>"

text \<open>\<open>new_recorder\<close> is the fresh \<^verbatim>\<open>LineageRecorder()\<close>, \<open>b\<close> the process-wide bus and \<open>elapsed\<close> the
  measured time.\<close>

definition execute ::
    "('t, 'r, 'b) runner_env \<Rightarrow> 'r \<Rightarrow> 'b \<Rightarrow> int \<Rightarrow> string \<Rightarrow> pipeline_config \<Rightarrow>
     ('t, 'r, 'b) run_state \<times> ('t, 'r) execution_summary result" where
  "execute env new_recorder b elapsed run_id cfg =
     (case compute_consumer_counts (steps cfg) of
        Inl e \<Rightarrow> (start_state new_recorder b [], Inl e)
      | Inr consumers \<Rightarrow>
          (case run_steps env run_id (length (steps cfg)) 0 (steps cfg) (start_state new_recorder b consumers) of
             (st, Inr _) \<Rightarrow> (st, Inr (build_summary run_id cfg elapsed PS_COMPLETED None st))
           | (st, Inl (StepExecutionError sn msg)) \<Rightarrow>
               (st, Inr (build_summary run_id cfg elapsed PS_FAILED (Some (StepExecutionError sn msg)) st))
           | (st, Inl e) \<Rightarrow> (st, Inl e)))"


section \<open>What one step does\<close>

lemma run_and_publish_frame:
  "run_and_publish env step st = (st', r) \<Longrightarrow>
     registry st' = registry st \<and> remaining st' = remaining st \<and> results st' = results st \<and>
     rows_processed st' = rows_processed st \<and> events st' = events st"
  by (auto simp: run_and_publish_def split: prod.splits sum.splits)

lemma emit_simps [simp]:
  "registry (emit ev st) = registry st" "remaining (emit ev st) = remaining st" "recorder (emit ev st) = recorder st"
  "bus (emit ev st) = bus st" "results (emit ev st) = results st" "rows_processed (emit ev st) = rows_processed st"
  "events (emit ev st) = events st @ [ev]"
  by (simp_all add: emit_def)

text \<open>The events of one step, by how it ended.\<close>

definition step_events :: "string \<Rightarrow> nat \<Rightarrow> nat \<Rightarrow> step_config \<Rightarrow> 't step_result result \<Rightarrow> step_progress_event list" where
  "step_events run_id total_steps i step r =
     progress run_id (step_name step) i total_steps SS_RUNNING #
     (case r of
        Inr res \<Rightarrow> [completed_event run_id (step_name step) i total_steps res]
      | Inl (StepExecutionError sn msg) \<Rightarrow>
          [(progress run_id (step_name step) i total_steps SS_FAILED)\<lparr>ev_error_message := Some msg\<rparr>]
      | Inl _ \<Rightarrow> [])"

lemma execute_single_step_frame:
  assumes "execute_single_step env run_id total_steps i step st = (st', r)"
  shows "registry st' = registry st" "remaining st' = remaining st" "results st' = results st"
    "rows_processed st' = rows_processed st" "events st' = events st @ step_events run_id total_steps i step r"
proof -
  obtain st2 r2 where rp: "run_and_publish env step (emit (progress run_id (step_name step) i total_steps SS_RUNNING) st) = (st2, r2)"
    by fastforce
  note f = run_and_publish_frame [OF rp]
  show "registry st' = registry st" "remaining st' = remaining st" "results st' = results st"
    "rows_processed st' = rows_processed st" "events st' = events st @ step_events run_id total_steps i step r"
    using assms f
    by (auto simp: execute_single_step_def rp Let_def step_events_def split: sum.splits pyexn.splits if_splits)
qed


section \<open>The trace of a run\<close>

fun run_events ::
    "string \<Rightarrow> nat \<Rightarrow> nat \<Rightarrow> step_config list \<Rightarrow> 't step_result list \<Rightarrow> step_progress_event list" where
  "run_events run_id total_steps i (step # ss) (res # rs) =
     step_events run_id total_steps i step (Inr res) @ run_events run_id total_steps (Suc i) ss rs"
| "run_events run_id total_steps i _ _ = []"

text \<open>After the steps \<open>pre\<close> have returned \<open>rs\<close>.\<close>

definition after_steps ::
    "string \<Rightarrow> nat \<Rightarrow> nat \<Rightarrow> step_config list \<Rightarrow> 't step_result list \<Rightarrow> ('t, 'r, 'b) run_state \<Rightarrow> ('t, 'r, 'b) run_state \<Rightarrow> bool" where
  "after_steps run_id total_steps i pre rs st st' \<longleftrightarrow>
     length rs = length pre \<and> results st' = results st @ rs \<and>
     rows_processed st' = rows_processed st + sum_list (map rows_in rs) \<and>
     events st' = events st @ run_events run_id total_steps i pre rs"

lemma run_steps_trace:
  fixes env :: "('t, 'r, 'b) runner_env"
  assumes "run_steps env run_id total_steps i ss st = (st', r)" "\<forall>s \<in> set ss. hashable (step_name s)"
  shows "case r of
      Inr _ \<Rightarrow> (\<exists>rs. after_steps run_id total_steps i ss rs st st')
    | Inl e \<Rightarrow> (\<exists>pre step post rs st1. ss = pre @ step # post \<and> after_steps run_id total_steps i pre rs st st1 \<and>
        results st' = results st1 \<and> rows_processed st' = rows_processed st1 \<and>
        events st' = events st1 @ step_events run_id total_steps (i + length pre) step (Inl e :: 't step_result result))"
  using assms
proof (induction ss arbitrary: st i)
  case Nil
  then show ?case by (auto simp: after_steps_def intro!: exI [of _ "[]"])
next
  case (Cons step ss)
  obtain st1 r1 where ex: "execute_single_step env run_id total_steps i step st = (st1, r1)" by fastforce
  note f = execute_single_step_frame [OF ex]
  show ?case
  proof (cases r1)
    case (Inl e)
    with Cons.prems(1) ex have "st' = st1" "r = Inl e" by auto
    moreover have "after_steps run_id total_steps i [] [] st st" by (simp add: after_steps_def)
    moreover have "step # ss = [] @ step # ss" by simp
    moreover have "events st' = events st @ step_events run_id total_steps (i + length ([] :: step_config list)) step (Inl e :: 't step_result result)"
      "results st' = results st" "rows_processed st' = rows_processed st"
      using f Inl \<open>st' = st1\<close> by simp_all
    ultimately show ?thesis unfolding \<open>r = Inl e\<close> sum.case by blast
  next
    case (Inr res)
    from Cons.prems(2) have "hashable (step_name step)" by simp
    then obtain reg rem where ev: "store_and_evict (registry st1) (step_name step) (output_table res) (step_inputs step)
        (remaining st1) = Inr (reg, rem)"
      by (simp add: store_and_evict_def) (metis surj_pair)
    define st2 where "st2 = st1\<lparr>results := results st1 @ [res], registry := reg, remaining := rem,
      rows_processed := rows_processed st1 + rows_in res\<rparr>"
    have run: "run_steps env run_id total_steps (Suc i) ss st2 = (st', r)"
      using Cons.prems(1) by (simp add: ex Inr ev st2_def)
    have cons: "after_steps run_id total_steps i (step # pre) (res # rs) st st3"
      if "after_steps run_id total_steps (Suc i) pre rs st2 st3" for pre rs st3
      using that f Inr by (simp add: after_steps_def st2_def)
    from Cons.IH [OF run] Cons.prems(2) cons show ?thesis
      by (fastforce split: sum.splits intro: exI [of _ "step # pre" for pre])
  qed
qed


section \<open>Eviction\<close>

text \<open>Steps with distinct names that read only the outputs of steps before them.\<close>

definition runnable :: "step_config list \<Rightarrow> bool" where
  "runnable ss \<longleftrightarrow> (\<forall>s \<in> set ss. is_str (step_name s)) \<and> distinct (map step_name ss) \<and>
     (\<forall>k < length ss. set (step_inputs (ss ! k)) \<subseteq> set (map step_name (take k ss)))"

abbreviation refs :: "step_config list \<Rightarrow> pyval list" where
  "refs ss \<equiv> concat (map step_inputs ss)"

lemma keys_dict_set:
  "map fst (dict_set d (PStr k) v) = (if PStr k \<in> set (map fst d) then map fst d else map fst d @ [PStr k])"
  by (induction d) force+

lemma distinct_dict_set: "distinct (map fst d) \<Longrightarrow> distinct (map fst (dict_set d (PStr k) v))"
  by (simp add: keys_dict_set)

lemma keys_dict_pop: "map fst (dict_pop d (PStr k)) = remove1 (PStr k) (map fst d)"
  by (induction d) auto

lemma dict_get_PStr: "dict_get d (PStr k) = map_of d (PStr k)"
  by (induction d) auto

lemma dict_get_None: "dict_get d (PStr k) = None \<longleftrightarrow> PStr k \<notin> set (map fst d)"
  by (simp add: dict_get_PStr map_of_eq_None_iff)

lemma dict_get_pop_same: "distinct (map fst d) \<Longrightarrow> dict_get (dict_pop d (PStr k)) (PStr k) = None"
  by (simp only: dict_get_None keys_dict_pop) simp

lemma count_refs:
  assumes "\<forall>r \<in> set rs. is_str r"
  shows "foldE count_ref rs counts = Inr counts' \<Longrightarrow>
    dict_get counts' (PStr r) =
      (if PStr r \<in> set rs then Some ((case dict_get counts (PStr r) of None \<Rightarrow> 0 | Some c \<Rightarrow> c) + int (count_list rs (PStr r)))
       else dict_get counts (PStr r))"
  using assms
proof (induction rs arbitrary: counts)
  case Nil
  then show ?case by simp
next
  case (Cons x rs)
  then obtain a where x: "x = PStr a" by (auto elim: is_strE)
  let ?c1 = "dict_set counts x ((case dict_get counts x of None \<Rightarrow> 0 | Some c \<Rightarrow> c) + 1)"
  have "foldE count_ref rs ?c1 = Inr counts'"
    using Cons.prems(1) by (simp add: count_ref_def [of "PStr a"] x hashable_def)
  from Cons.IH [OF this] Cons.prems(2) show ?case
    by (cases "a = r") (auto simp: x split: option.splits)
qed

lemma foldE_concat: "foldE (\<lambda>x. foldE f (g x)) xs s = foldE f (concat (map g xs)) s"
  by (induction xs arbitrary: s) (simp_all add: foldE_append cong: bindE_cong)

lemma consumer_counts:
  assumes "\<forall>r \<in> set (refs ss). is_str r" "compute_consumer_counts ss = Inr counts"
  shows "dict_get counts (PStr r) =
    (if PStr r \<in> set (refs ss) then Some (int (count_list (refs ss) (PStr r))) else None)"
  using count_refs [of "refs ss" "[]" counts r] assms
  by (simp add: compute_consumer_counts_def foldE_concat del: set_concat)

lemma consumer_counts_total:
  assumes "\<forall>r \<in> set (refs ss). is_str r"
  shows "\<exists>counts. compute_consumer_counts ss = Inr counts"
  unfolding compute_consumer_counts_def foldE_concat
  using assms by (intro foldE_total) (auto simp: count_ref_def hashable_def elim!: is_strE simp del: set_concat)

text \<open>What evicting the references of one step does to both dictionaries.\<close>

lemma fold_evict:
  assumes "\<forall>r \<in> set rs. is_str r" "PStr n \<notin> set rs" "distinct (map fst reg)"
    "fold (evict_ref (PStr n)) rs (reg, rem) = (reg', rem')"
  shows "distinct (map fst reg') \<and>
    dict_get rem' (PStr r) = map_option (\<lambda>c. c - int (count_list rs (PStr r))) (dict_get rem (PStr r)) \<and>
    dict_get reg' (PStr r) =
      (if PStr r \<in> set rs \<and> (\<exists>c. dict_get rem (PStr r) = Some c \<and> c \<le> int (count_list rs (PStr r)))
       then None else dict_get reg (PStr r))"
  using assms
proof (induction rs arbitrary: reg rem)
  case Nil
  then show ?case by (simp add: option.map_ident)
next
  case (Cons x rs)
  then obtain a where x: "x = PStr a" and a: "a \<noteq> n" by (auto elim!: is_strE)
  obtain reg1 rem1 where e: "evict_ref (PStr n) x (reg, rem) = (reg1, rem1)" by fastforce
  have d1: "distinct (map fst reg1)"
    using e Cons.prems(3) by (auto simp: evict_ref_def x keys_dict_pop split: option.splits if_splits)
  have rem1: "dict_get rem1 (PStr r) = (if r = a then map_option (\<lambda>c. c - 1) (dict_get rem (PStr r)) else dict_get rem (PStr r))"
    using e by (auto simp: evict_ref_def x split: option.splits)
  have reg1: "dict_get reg1 (PStr r) = (if r = a \<and> (\<exists>c. dict_get rem (PStr r) = Some c \<and> c \<le> 1) then None else dict_get reg (PStr r))"
    using e a Cons.prems(3) by (auto simp: evict_ref_def x dict_get_pop_same split: option.splits if_splits)
  have "count_list rs (PStr r) = 0 \<longleftrightarrow> PStr r \<notin> set rs" by (simp add: count_list_0_iff)
  with Cons.IH [OF _ _ d1, of rem1] Cons.prems e rem1 reg1 show ?case
    by (cases "dict_get rem (PStr r)") (auto simp: x)
qed


text \<open>The registry after the first \<open>k\<close> steps: it holds the table of an earlier step exactly if a
  later step reads it or no step does.\<close>

definition holds_live :: "step_config list \<Rightarrow> nat \<Rightarrow> ('t, 'r, 'b) run_state \<Rightarrow> bool" where
  "holds_live ss k st \<longleftrightarrow> k \<le> length ss \<and> length (results st) = k \<and> distinct (map fst (registry st)) \<and>
     (\<forall>r. dict_get (remaining st) (PStr r) =
        (if PStr r \<in> set (refs ss) then Some (int (count_list (refs (drop k ss)) (PStr r))) else None)) \<and>
     (\<forall>r. PStr r \<notin> set (map step_name (take k ss)) \<longrightarrow> dict_get (registry st) (PStr r) = None) \<and>
     (\<forall>j < k. \<forall>r. step_name (ss ! j) = PStr r \<longrightarrow> dict_get (registry st) (PStr r) =
        (if PStr r \<notin> set (refs ss) \<or> PStr r \<in> set (refs (drop k ss)) then Some (output_table (results st ! j)) else None))"

lemma runnable_refs:
  assumes "runnable ss"
  shows "\<forall>r \<in> set (refs ss). is_str r"
proof
  fix r assume "r \<in> set (refs ss)"
  then obtain s where "s \<in> set ss" "r \<in> set (step_inputs s)" by auto
  then obtain k where "k < length ss" "r \<in> set (step_inputs (ss ! k))" by (metis in_set_conv_nth)
  with assms have "r \<in> set (map step_name (take k ss))" by (auto simp: runnable_def)
  then show "is_str r" using assms by (auto simp: runnable_def dest: in_set_takeD)
qed

lemma runnable_own_refs:
  assumes "runnable ss" "k < length ss" "j \<le> k"
  shows "step_name (ss ! k) \<notin> set (step_inputs (ss ! j))"
proof
  assume "step_name (ss ! k) \<in> set (step_inputs (ss ! j))"
  moreover have "set (step_inputs (ss ! j)) \<subseteq> set (map step_name (take j ss))"
    using assms unfolding runnable_def by (meson le_less_trans)
  ultimately have "step_name (ss ! k) \<in> set (map step_name (take j ss))" by blast
  then obtain i where "i < j" "step_name (ss ! i) = step_name (ss ! k)"
    using assms(2,3) by (auto simp: in_set_conv_nth)
  moreover have "distinct (map step_name ss)" using assms(1) by (simp add: runnable_def)
  ultimately show False using assms(2,3) nth_eq_iff_index_eq [of "map step_name ss" i k] by simp
qed

lemma drop_refs: "k < length ss \<Longrightarrow> refs (drop k ss) = step_inputs (ss ! k) @ refs (drop (Suc k) ss)"
  by (simp add: Cons_nth_drop_Suc [symmetric])

lemma holds_live_step:
  assumes run: "runnable ss" and k: "k < length ss" and inv: "holds_live ss k st"
    and ev: "store_and_evict (registry st) (step_name (ss ! k)) tbl (step_inputs (ss ! k)) (remaining st) = Inr (reg, rem)"
    and st': "registry st' = reg" "remaining st' = rem" "results st' = results st @ [res]" "output_table res = tbl"
  shows "holds_live ss (Suc k) st'"
proof -
  let ?s = "ss ! k"
  obtain n where n: "step_name ?s = PStr n" using run k by (metis is_strE nth_mem runnable_def)
  have strs: "\<forall>r \<in> set (step_inputs ?s). is_str r"
    using runnable_refs [OF run] k by (auto dest: nth_mem)
  have own: "PStr n \<notin> set (step_inputs ?s)" using runnable_own_refs [OF run k, of k] n by simp
  have len: "length (results st) = k" and dist: "distinct (map fst (registry st))"
    using inv by (simp_all add: holds_live_def)
  have fo: "fold (evict_ref (PStr n)) (step_inputs ?s) (dict_set (registry st) (PStr n) tbl, remaining st) = (reg, rem)"
    using ev by (simp add: store_and_evict_def n hashable_def)
  note fe = fold_evict [OF strs own distinct_dict_set [OF dist] fo]
  have remk: "dict_get (remaining st) (PStr r) =
      (if PStr r \<in> set (refs ss) then Some (int (count_list (refs (drop k ss)) (PStr r))) else None)" for r
    using inv by (simp add: holds_live_def)
  have cnt: "count_list (refs (drop k ss)) x = count_list (step_inputs ?s) x + count_list (refs (drop (Suc k) ss)) x" for x
    by (simp only: drop_refs [OF k] count_list_append)
  have used: "PStr r \<in> set (step_inputs ?s) \<Longrightarrow> PStr r \<in> set (refs ss)" for r
    using k by (auto dest: nth_mem)
  have rem': "dict_get rem (PStr r) =
      (if PStr r \<in> set (refs ss) then Some (int (count_list (refs (drop (Suc k) ss)) (PStr r))) else None)" for r
    using fe [of r] by (simp add: remk cnt del: set_concat)
  have reg': "dict_get reg (PStr r) =
      (if PStr r \<in> set (step_inputs ?s) \<and> PStr r \<notin> set (refs (drop (Suc k) ss)) then None
       else dict_get (dict_set (registry st) (PStr n) tbl) (PStr r))" for r
    using fe [of r] used [of r] count_list_0_iff [of "refs (drop (Suc k) ss)" "PStr r"]
    by (auto simp: remk cnt simp del: set_concat)
  have live: "PStr n \<notin> set (refs ss) \<or> PStr n \<in> set (refs (drop (Suc k) ss))"
  proof (rule disjCI)
    assume "PStr n \<notin> set (refs (drop (Suc k) ss))"
    moreover have "PStr n \<notin> set (refs (take (Suc k) ss))"
      using runnable_own_refs [OF run k] n k by (fastforce simp: in_set_conv_nth)
    moreover have "refs ss = refs (take (Suc k) ss) @ refs (drop (Suc k) ss)"
      by (metis append_take_drop_id concat_append map_append)
    ultimately show "PStr n \<notin> set (refs ss)" by simp
  qed
  show ?thesis
    unfolding holds_live_def
  proof (intro conjI allI impI)
    fix r assume "PStr r \<notin> set (map step_name (take (Suc k) ss))"
    then have "r \<noteq> n" "PStr r \<notin> set (map step_name (take k ss))"
      using k n by (auto simp: take_Suc_conv_app_nth)
    then show "dict_get (registry st') (PStr r) = None"
      using inv by (simp add: st' reg' holds_live_def)
  next
    fix j r assume j: "j < Suc k" and r: "step_name (ss ! j) = PStr r"
    show "dict_get (registry st') (PStr r) = (if PStr r \<notin> set (refs ss) \<or> PStr r \<in> set (refs (drop (Suc k) ss))
        then Some (output_table (results st' ! j)) else None)"
    proof (cases "j = k")
      case True
      with r n have "r = n" by simp
      with live own True len show ?thesis by (simp add: st' reg' nth_append)
    next
      case False
      with j have jk: "j < k" by simp
      have "distinct (map step_name ss)" using run by (simp add: runnable_def)
      with jk k r n have "r \<noteq> n" using nth_eq_iff_index_eq [of "map step_name ss" j k] by auto
      have "dict_get (registry st) (PStr r) = (if PStr r \<notin> set (refs ss) \<or> PStr r \<in> set (refs (drop k ss))
          then Some (output_table (results st ! j)) else None)"
        using inv jk r by (simp add: holds_live_def)
      moreover have "PStr r \<in> set (refs (drop k ss)) \<longleftrightarrow>
          PStr r \<in> set (step_inputs ?s) \<or> PStr r \<in> set (refs (drop (Suc k) ss))"
        by (simp only: drop_refs [OF k] set_append Un_iff)
      ultimately show ?thesis
        using \<open>r \<noteq> n\<close> jk len used [of r] by (simp add: st' reg' nth_append del: set_concat)
    qed
  qed (use k len fe in \<open>simp_all add: st' rem' del: set_concat\<close>)
qed


lemma run_steps_append:
  "run_steps env run_id total_steps i (xs @ ys) st =
     (case run_steps env run_id total_steps i xs st of
        (st', Inl e) \<Rightarrow> (st', Inl e)
      | (st', Inr _) \<Rightarrow> run_steps env run_id total_steps (i + length xs) ys st')"
  by (induction xs arbitrary: i st) (auto simp: Let_def split: prod.splits sum.splits)

lemma run_steps_single:
  assumes "run_steps env run_id total_steps i [step] st = (st', Inr ())"
  obtains st1 res reg rem where "execute_single_step env run_id total_steps i step st = (st1, Inr res)"
    "store_and_evict (registry st) (step_name step) (output_table res) (step_inputs step) (remaining st) = Inr (reg, rem)"
    "registry st' = reg" "remaining st' = rem" "results st' = results st @ [res]"
proof -
  obtain st1 r1 where ex: "execute_single_step env run_id total_steps i step st = (st1, r1)" by fastforce
  note f = execute_single_step_frame [OF ex]
  from assms ex obtain res where "r1 = Inr res" by (auto split: sum.splits)
  with assms ex f that [of st1 res] show thesis by (auto simp: Let_def split: sum.splits prod.splits)
qed

text \<open>The invariant holds after every prefix of the steps.\<close>

lemma run_prefix_live:
  assumes run: "runnable ss" and counts: "compute_consumer_counts ss = Inr consumers"
  shows "k \<le> length ss \<Longrightarrow>
    run_steps env run_id total_steps 0 (take k ss) (start_state rec b consumers) = (st, Inr ()) \<Longrightarrow> holds_live ss k st"
proof (induction k arbitrary: st)
  case 0
  then show ?case
    using consumer_counts [OF runnable_refs [OF run] counts]
    by (auto simp: holds_live_def start_state_def simp del: set_concat)
next
  case (Suc k)
  have tk: "take (Suc k) ss = take k ss @ [ss ! k]" using Suc.prems(1) by (simp add: take_Suc_conv_app_nth)
  from Suc.prems obtain st1 where
    st1: "run_steps env run_id total_steps 0 (take k ss) (start_state rec b consumers) = (st1, Inr ())"
    and last: "run_steps env run_id total_steps k [ss ! k] st1 = (st, Inr ())"
    unfolding tk run_steps_append by (auto split: prod.splits sum.splits)
  from Suc.IH [OF _ st1] Suc.prems(1) have "holds_live ss k st1" by simp
  with run_steps_single [OF last] holds_live_step [OF run, of k st1] Suc.prems(1) show ?case by (metis Suc_le_lessD)
qed


lemma prefix_inputs_available:
  assumes "runnable ss" and "compute_consumer_counts ss = Inr consumers" and "k < length ss"
    and "run_steps env run_id total_steps 0 (take k ss) (start_state rec b consumers) = (st, Inr ())"
    and "r \<in> set (step_inputs (ss ! k))"
  shows "\<exists>j < k. step_name (ss ! j) = r \<and> dict_get (registry st) r = Some (output_table (results st ! j))"
proof -
  from assms(1,3,5) have "r \<in> set (map step_name (take k ss))" by (auto simp: runnable_def)
  then obtain j where j: "j < k" "step_name (ss ! j) = r" using assms(3) by (auto simp: in_set_conv_nth)
  have "r \<in> set (refs (drop k ss))" using assms(3,5) by (simp only: drop_refs [OF assms(3)]) simp
  moreover from assms(1,3) j obtain n where "r = PStr n"
    by (metis is_strE less_trans nth_mem runnable_def)
  moreover have "holds_live ss k st" using run_prefix_live [OF assms(1,2) _ assms(4)] assms(3) by simp
  ultimately show ?thesis using j by (auto simp: holds_live_def simp del: set_concat)
qed

section \<open>Properties\<close>

text \<open>A three-step pipeline and an executor over row counts: it fails on a step named \<^verbatim>\<open>bad\<close>.\<close>

definition demo_step :: "string \<Rightarrow> step_type \<Rightarrow> step_fields \<Rightarrow> step_config" where
  "demo_step n ty f = \<lparr>step_name = PStr n, step_type = Inr ty, contract = PNone, cfg_fields = f\<rparr>"

definition demo_config :: pipeline_config where
  "demo_config = \<lparr>pipeline_name = PStr ''p'', description = PNone,
     steps = [demo_step ''a'' LOAD (LoadFields (PStr ''f'') PNone),
              demo_step ''b'' SELECT (SelectFields (PStr ''a'') (PList [PStr ''x''])),
              demo_step ''bad'' SAVE (SaveFields (PStr ''b'') (PStr ''o.csv''))]\<rparr>"

definition demo_env :: "(int, unit, unit) runner_env" where
  "demo_env = \<lparr>step_execute = (\<lambda>st reg rec. ((), if step_name st = PStr ''bad''
       then Inl (StepExecutionError ''bad'' ''disk full'')
       else Inr \<lparr>res_step_name = step_name st, res_step_type = step_type_label st, output_table = 7, rows_in = 7,
         rows_out = 7, columns_in = [], columns_out = [], duration_ms = 1, res_warnings = [], contract_violations = [], engine = None,
         download_url = None, output_filename = None, output_format = None, output_object_name = None, output_size_bytes = None\<rparr>)),
     bus_put = (\<lambda>k t b. (b, Inr ())), check_contract = (\<lambda>c t n. Inr []), wants_lineage = True\<rparr>"

lemma demo_runnable: "runnable (steps demo_config)"
proof -
  have "set (step_inputs (steps demo_config ! k)) \<subseteq> set (map step_name (take k (steps demo_config)))"
    if "k < length (steps demo_config)" for k
  proof -
    from that have "k = 0 \<or> k = 1 \<or> k = 2" by (auto simp: demo_config_def)
    then show ?thesis by (auto simp: demo_config_def demo_step_def step_inputs_def)
  qed
  then show ?thesis by (simp add: runnable_def) (simp add: demo_config_def demo_step_def)
qed

lemma demo_counts: "compute_consumer_counts (steps demo_config) = Inr [(PStr ''a'', 1), (PStr ''b'', 1)]"
  by (simp add: compute_consumer_counts_def demo_config_def demo_step_def step_inputs_def count_ref_def hashable_def)

text \<open>C4.  Every step finds its inputs.  When the steps have distinct names and read only earlier
  steps, then at any point of a run the registry still holds, for each input of the next step,
  the very table that the step of that name produced: eviction never drops a table too early.\<close>

theorem step_inputs_available:
  assumes "runnable ss" and "compute_consumer_counts ss = Inr consumers" and "k < length ss"
    and "run_steps env run_id total_steps 0 (take k ss) (start_state rec b consumers) = (st, Inr ())"
    and "r \<in> set (step_inputs (ss ! k))"
  shows "\<exists>j < k. step_name (ss ! j) = r \<and> dict_get (registry st) r = Some (output_table (results st ! j))"
  by (rule prefix_inputs_available [OF assms])

theorem step_inputs_available_witness:
  "\<exists>j < 2. step_name (steps demo_config ! j) = PStr ''b'' \<and>
     dict_get (registry (fst (run_steps demo_env ''r'' 3 0 (take 2 (steps demo_config))
       (start_state () () [(PStr ''a'', 1), (PStr ''b'', 1)])))) (PStr ''b'') =
     Some (output_table (results (fst (run_steps demo_env ''r'' 3 0 (take 2 (steps demo_config))
       (start_state () () [(PStr ''a'', 1), (PStr ''b'', 1)]))) ! j))"
proof -
  let ?run = "run_steps demo_env ''r'' 3 0 (take 2 (steps demo_config)) (start_state () () [(PStr ''a'', 1), (PStr ''b'', 1)])"
  have "snd ?run = Inr ()" by code_simp
  then have run: "?run = (fst ?run, Inr ())" by (metis prod.collapse)
  show ?thesis
    by (rule step_inputs_available [OF demo_runnable demo_counts _ run])
      (simp_all add: demo_config_def demo_step_def step_inputs_def)
qed

text \<open>C32.  Eviction keeps nothing it can drop: after the first \<open>k\<close> steps the registry holds the table
  of an earlier step exactly if a later step reads it or no step at all does.\<close>

theorem registry_holds_exactly_live:
  assumes "runnable ss" and "compute_consumer_counts ss = Inr consumers" and "k \<le> length ss"
    and "run_steps env run_id total_steps 0 (take k ss) (start_state rec b consumers) = (st, Inr ())"
    and "j < k"
  shows "dict_get (registry st) (step_name (ss ! j)) =
    (if (\<forall>s \<in> set ss. step_name (ss ! j) \<notin> set (step_inputs s)) \<or>
        (\<exists>s \<in> set (drop k ss). step_name (ss ! j) \<in> set (step_inputs s))
     then Some (output_table (results st ! j)) else None)"
proof -
  from assms(1,3,5) obtain r where r: "step_name (ss ! j) = PStr r"
    by (metis is_strE less_le_trans nth_mem runnable_def)
  have "holds_live ss k st" by (rule run_prefix_live [OF assms(1,2,3,4)])
  with assms(5) r show ?thesis by (auto simp: holds_live_def)
qed

theorem registry_holds_exactly_live_witness:
  "dict_get (registry (fst (run_steps demo_env ''r'' 3 0 (take 2 (steps demo_config))
       (start_state () () [(PStr ''a'', 1), (PStr ''b'', 1)])))) (PStr ''a'') = None"
proof -
  let ?run = "run_steps demo_env ''r'' 3 0 (take 2 (steps demo_config)) (start_state () () [(PStr ''a'', 1), (PStr ''b'', 1)])"
  have "snd ?run = Inr ()" by code_simp
  then have run: "?run = (fst ?run, Inr ())" by (metis prod.collapse)
  have "step_name (steps demo_config ! 0) = PStr ''a''" by (simp add: demo_config_def demo_step_def)
  with registry_holds_exactly_live [OF demo_runnable demo_counts _ run, of 0] show ?thesis
    by (simp add: demo_config_def demo_step_def step_inputs_def)
qed

text \<open>The summary and the events tell the same story.  A completed run has one result per step
  and a \<^verbatim>\<open>RUNNING\<close> and a \<^verbatim>\<open>COMPLETED\<close> event for each, in order; a failed run stops at the first step
  that raised, has the results of exactly the steps before it, carries that error and ends with
  its \<^verbatim>\<open>RUNNING\<close> and \<^verbatim>\<open>FAILED\<close> events.  The processed rows are the sum over the results.\<close>

theorem execute_summary_matches_events:
  fixes env :: "('t, 'r, 'b) runner_env"
  assumes "execute env rec b elapsed run_id cfg = (st, Inr sm)"
    and "\<forall>s \<in> set (steps cfg). hashable (step_name s)"
  shows "sum_total_rows_processed sm = sum_list (map rows_in (sum_step_results sm)) \<and>
    (let n = length (steps cfg); k = length (sum_step_results sm) in
     if sum_status sm = PS_COMPLETED
     then sum_error sm = None \<and> k = n \<and> events st = run_events run_id n 0 (steps cfg) (sum_step_results sm)
     else sum_status sm = PS_FAILED \<and> k < n \<and> (\<exists>sn msg. sum_error sm = Some (StepExecutionError sn msg) \<and>
        events st = run_events run_id n 0 (take k (steps cfg)) (sum_step_results sm) @
          step_events run_id n k (steps cfg ! k) (Inl (StepExecutionError sn msg) :: 't step_result result)))"
proof -
  from assms(1) obtain consumers r where
    run: "run_steps env run_id (length (steps cfg)) 0 (steps cfg) (start_state rec b consumers) = (st, r)"
    and sm: "(r = Inr () \<and> sm = build_summary run_id cfg elapsed PS_COMPLETED None st) \<or>
      (\<exists>sn msg. r = Inl (StepExecutionError sn msg) \<and>
         sm = build_summary run_id cfg elapsed PS_FAILED (Some (StepExecutionError sn msg)) st)"
    by (auto simp: execute_def split: sum.splits prod.splits pyexn.splits)
  note tr = run_steps_trace [OF run assms(2)]
  from sm show ?thesis
  proof (elim disjE exE conjE)
    assume r: "r = Inr ()" and sm: "sm = build_summary run_id cfg elapsed PS_COMPLETED None st"
    from tr r obtain rs where "after_steps run_id (length (steps cfg)) 0 (steps cfg) rs (start_state rec b consumers) st"
      by auto
    with sm show ?thesis by (auto simp: build_summary_def after_steps_def start_state_def Let_def)
  next
    fix sn msg assume r: "r = Inl (StepExecutionError sn msg)"
      and sm: "sm = build_summary run_id cfg elapsed PS_FAILED (Some (StepExecutionError sn msg)) st"
    from tr r obtain pre step post rs st1 where "steps cfg = pre @ step # post"
      "after_steps run_id (length (steps cfg)) 0 pre rs (start_state rec b consumers) st1"
      "results st = results st1" "rows_processed st = rows_processed st1"
      "events st = events st1 @ step_events run_id (length (steps cfg)) (length pre) step
         (Inl (StepExecutionError sn msg) :: 't step_result result)"
      by auto
    with sm show ?thesis by (auto simp: build_summary_def after_steps_def start_state_def Let_def)
  qed
qed

theorem execute_summary_matches_events_witness:
  "\<exists>st sm. execute demo_env () () 5 ''r'' demo_config = (st, Inr sm) \<and>
     sum_total_rows_processed sm = 14 \<and> sum_total_rows_processed sm = sum_list (map rows_in (sum_step_results sm))"
proof -
  have ev: "case snd (execute demo_env () () 5 ''r'' demo_config) of
      Inl e \<Rightarrow> False | Inr sm \<Rightarrow> sum_total_rows_processed sm = 14"
    by code_simp
  then obtain st sm where ex: "execute demo_env () () 5 ''r'' demo_config = (st, Inr sm)"
    by (cases "execute demo_env () () 5 ''r'' demo_config") (auto split: sum.splits)
  have h: "\<forall>s \<in> set (steps demo_config). hashable (step_name s)"
    by (simp add: demo_config_def demo_step_def hashable_def)
  from execute_summary_matches_events [OF ex h] ev ex show ?thesis by auto
qed



end
