(* ===== verification/NxDigraph.thy ===== *)
theory NxDigraph
  imports PyBase
begin

text \<open>
  The directed graph of \<^verbatim>\<open>networkx\<close> that \<^verbatim>\<open>backend/pipeline/lineage.py\<close> builds on.  The
  package is not part of the repository, so the operations are a record that the lineage
  definitions take as an argument, and the locale \<open>nx_digraph\<close> states what its documentation
  promises of them.  The second half of the theory gives a dictionary-of-dictionaries
  implementation that meets the promises.
\<close>

section \<open>The operations\<close>

record 'g nx_ops =
  nx_empty :: 'g
  nx_add_node :: "string \<Rightarrow> pydict \<Rightarrow> 'g \<Rightarrow> 'g"
  nx_add_edge :: "string \<Rightarrow> string \<Rightarrow> pydict \<Rightarrow> 'g \<Rightarrow> 'g"
  nx_nodes :: "'g \<Rightarrow> string list"
  nx_attrs :: "'g \<Rightarrow> string \<Rightarrow> pydict option"
  nx_predecessors :: "'g \<Rightarrow> string \<Rightarrow> string list"
  nx_edges :: "'g \<Rightarrow> (string \<times> string \<times> pydict) list"
  nx_topological_sort :: "'g \<Rightarrow> string list option"
  nx_descendants :: "'g \<Rightarrow> string \<Rightarrow> string list option"
  nx_node_link_data :: "'g \<Rightarrow> pyval"

definition nx_rel :: "'g nx_ops \<Rightarrow> 'g \<Rightarrow> (string \<times> string) set" where
  "nx_rel nx g = (\<lambda>(u, v, a). (u, v)) ` set (nx_edges nx g)"

text \<open>\<^verbatim>\<open>d.update(a)\<close>.\<close>

definition dict_update :: "pydict \<Rightarrow> pydict \<Rightarrow> pydict" where
  "dict_update d a = fold (\<lambda>(k, v) d. dict_set d k v) a d"

definition pos :: "'a list \<Rightarrow> 'a \<Rightarrow> nat" where
  "pos xs x = length (takeWhile (\<lambda>y. y \<noteq> x) xs)"

text \<open>An order of the nodes in which every edge points forward.\<close>

definition forward_order :: "(string \<times> string) set \<Rightarrow> string list \<Rightarrow> bool" where
  "forward_order E ns \<longleftrightarrow> (\<forall>(u, v) \<in> E. u \<in> set ns \<longrightarrow> v \<in> set ns \<longrightarrow> pos ns u < pos ns v)"

locale nx_digraph =
  fixes nx :: "'g nx_ops" and wf :: "'g \<Rightarrow> bool"
  assumes wf_empty: "wf (nx_empty nx)"
    and wf_add_node: "wf g \<Longrightarrow> wf (nx_add_node nx n a g)"
    and wf_add_edge: "wf g \<Longrightarrow> wf (nx_add_edge nx u v b g)"
    and nodes_empty: "nx_nodes nx (nx_empty nx) = []"
    and edges_empty: "nx_edges nx (nx_empty nx) = []"
    and nodes_distinct: "wf g \<Longrightarrow> distinct (nx_nodes nx g)"
    and edges_distinct: "wf g \<Longrightarrow> distinct (map (\<lambda>(u, v, a). (u, v)) (nx_edges nx g))"
    and edges_nodes: "wf g \<Longrightarrow> nx_rel nx g \<subseteq> set (nx_nodes nx g) \<times> set (nx_nodes nx g)"
    and attrs_nodes: "wf g \<Longrightarrow> nx_attrs nx g n \<noteq> None \<longleftrightarrow> n \<in> set (nx_nodes nx g)"
    and nodes_add_node: "wf g \<Longrightarrow> set (nx_nodes nx (nx_add_node nx n a g)) = insert n (set (nx_nodes nx g))"
    and attrs_add_node: "wf g \<Longrightarrow> nx_attrs nx (nx_add_node nx n a g) m =
      (if m = n then Some (dict_update (case nx_attrs nx g n of None \<Rightarrow> [] | Some d \<Rightarrow> d) a) else nx_attrs nx g m)"
    and rel_add_node: "wf g \<Longrightarrow> nx_rel nx (nx_add_node nx n a g) = nx_rel nx g"
    and nodes_add_edge: "wf g \<Longrightarrow>
      set (nx_nodes nx (nx_add_edge nx u v b g)) = insert u (insert v (set (nx_nodes nx g)))"
    and attrs_add_edge: "wf g \<Longrightarrow> nx_attrs nx (nx_add_edge nx u v b g) m =
      (if m \<in> {u, v} \<and> nx_attrs nx g m = None then Some [] else nx_attrs nx g m)"
    and rel_add_edge: "wf g \<Longrightarrow> nx_rel nx (nx_add_edge nx u v b g) = insert (u, v) (nx_rel nx g)"
    and predecessors_rel: "wf g \<Longrightarrow> set (nx_predecessors nx g n) = {m. (m, n) \<in> nx_rel nx g}"
    and predecessors_distinct: "wf g \<Longrightarrow> distinct (nx_predecessors nx g n)"
    and topological_sort_Some: "wf g \<Longrightarrow> nx_topological_sort nx g = Some ns \<Longrightarrow>
      distinct ns \<and> set ns = set (nx_nodes nx g) \<and> forward_order (nx_rel nx g) ns"
    and topological_sort_None: "wf g \<Longrightarrow> nx_topological_sort nx g = None \<longleftrightarrow> \<not> acyclic (nx_rel nx g)"
    and descendants_Some: "wf g \<Longrightarrow> nx_descendants nx g n = Some ds \<Longrightarrow>
      distinct ds \<and> set ds = {m. (n, m) \<in> (nx_rel nx g)\<^sup>+} - {n}"
    and descendants_None: "wf g \<Longrightarrow> nx_descendants nx g n = None \<longleftrightarrow> n \<notin> set (nx_nodes nx g)"
begin

lemma predecessors_nodes: "wf g \<Longrightarrow> set (nx_predecessors nx g n) \<subseteq> set (nx_nodes nx g)"
  using edges_nodes [of g] predecessors_rel [of g n] by auto

lemma finite_rel: "wf g \<Longrightarrow> finite (nx_rel nx g)"
  by (simp add: nx_rel_def)

end


section \<open>An adjacency implementation\<close>

record adj =
  adj_node :: "(string \<times> pydict) list"
  adj_edge :: "((string \<times> string) \<times> pydict) list"

definition adj_has :: "string \<Rightarrow> adj \<Rightarrow> bool" where
  "adj_has n g \<longleftrightarrow> n \<in> set (map fst (adj_node g))"

definition adj_touch :: "string \<Rightarrow> adj \<Rightarrow> adj" where
  "adj_touch n g = (if adj_has n g then g else g\<lparr>adj_node := adj_node g @ [(n, [])]\<rparr>)"

definition adj_add_node :: "string \<Rightarrow> pydict \<Rightarrow> adj \<Rightarrow> adj" where
  "adj_add_node n a g = g\<lparr>adj_node :=
     AList.update n (dict_update (case map_of (adj_node g) n of None \<Rightarrow> [] | Some d \<Rightarrow> d) a) (adj_node g)\<rparr>"

definition adj_add_edge :: "string \<Rightarrow> string \<Rightarrow> pydict \<Rightarrow> adj \<Rightarrow> adj" where
  "adj_add_edge u v a g = (adj_touch v (adj_touch u g))\<lparr>adj_edge :=
     AList.update (u, v) (dict_update (case map_of (adj_edge g) (u, v) of None \<Rightarrow> [] | Some d \<Rightarrow> d) a) (adj_edge g)\<rparr>"

definition adj_edges :: "adj \<Rightarrow> (string \<times> string \<times> pydict) list" where
  "adj_edges g = concat (map (\<lambda>n. map (\<lambda>((u, v), a). (u, v, a)) (filter (\<lambda>e. fst (fst e) = n) (adj_edge g)))
     (map fst (adj_node g)))"

text \<open>Repeatedly take the first remaining node that no remaining node points to.\<close>

fun adj_topo :: "(string \<times> string) list \<Rightarrow> nat \<Rightarrow> string list \<Rightarrow> string list option" where
  "adj_topo E 0 ns = (if ns = [] then Some [] else None)"
| "adj_topo E (Suc k) ns =
     (if ns = [] then Some []
      else case find (\<lambda>n. list_all (\<lambda>m. (m, n) \<notin> set E) ns) ns of
             None \<Rightarrow> None
           | Some n \<Rightarrow> map_option ((#) n) (adj_topo E k (remove1 n ns)))"

definition adj_descendants :: "adj \<Rightarrow> string \<Rightarrow> string list option" where
  "adj_descendants g n =
     (if adj_has n g
      then Some (filter (\<lambda>m. m \<noteq> n \<and> (n, m) \<in> (set (map fst (adj_edge g)))\<^sup>+) (map fst (adj_node g)))
      else None)"

definition adj_node_link_data :: "adj \<Rightarrow> pyval" where
  "adj_node_link_data g = PDict
     [(PStr ''directed'', PBool True), (PStr ''multigraph'', PBool False), (PStr ''graph'', PDict []),
      (PStr ''nodes'', PList (map (\<lambda>(n, a). PDict (dict_update a [(PStr ''id'', PStr n)])) (adj_node g))),
      (PStr ''edges'', PList (map (\<lambda>(u, v, a). PDict (dict_update a
          [(PStr ''source'', PStr u), (PStr ''target'', PStr v)])) (adj_edges g)))]"

definition adj_nx :: "adj nx_ops" where
  "adj_nx = \<lparr>nx_empty = \<lparr>adj_node = [], adj_edge = []\<rparr>, nx_add_node = adj_add_node, nx_add_edge = adj_add_edge,
     nx_nodes = (\<lambda>g. map fst (adj_node g)), nx_attrs = (\<lambda>g. map_of (adj_node g)),
     nx_predecessors = (\<lambda>g n. map fst (filter (\<lambda>e. snd e = n) (map fst (adj_edge g)))),
     nx_edges = adj_edges,
     nx_topological_sort = (\<lambda>g. adj_topo (map fst (adj_edge g)) (length (adj_node g)) (map fst (adj_node g))),
     nx_descendants = adj_descendants, nx_node_link_data = adj_node_link_data\<rparr>"

definition adj_wf :: "adj \<Rightarrow> bool" where
  "adj_wf g \<longleftrightarrow> distinct (map fst (adj_node g)) \<and> distinct (map fst (adj_edge g)) \<and>
     fst ` set (adj_edge g) \<subseteq> (fst ` set (adj_node g)) \<times> (fst ` set (adj_node g))"

lemma adj_nx_simps [simp]:
  "nx_empty adj_nx = \<lparr>adj_node = [], adj_edge = []\<rparr>"
  "nx_add_node adj_nx = adj_add_node" "nx_add_edge adj_nx = adj_add_edge"
  "nx_nodes adj_nx g = map fst (adj_node g)" "nx_attrs adj_nx g = map_of (adj_node g)"
  "nx_predecessors adj_nx g n = map fst (filter (\<lambda>e. snd e = n) (map fst (adj_edge g)))"
  "nx_edges adj_nx = adj_edges"
  "nx_topological_sort adj_nx g = adj_topo (map fst (adj_edge g)) (length (adj_node g)) (map fst (adj_node g))"
  "nx_descendants adj_nx = adj_descendants"
  by (simp_all add: adj_nx_def)

lemma adj_rel:
  assumes "adj_wf g"
  shows "nx_rel adj_nx g = set (map fst (adj_edge g))"
proof -
  have "nx_rel adj_nx g = {e \<in> fst ` set (adj_edge g). fst e \<in> fst ` set (adj_node g)}"
    by (auto simp: nx_rel_def adj_edges_def image_iff split_beta) (metis fst_conv prod.collapse)+
  also have "\<dots> = fst ` set (adj_edge g)"
    using assms unfolding adj_wf_def by (metis (no_types, lifting) Collect_cong Collect_mem_eq mem_Sigma_iff prod.collapse subset_iff)
  finally show ?thesis by simp
qed

lemma adj_edge_touch [simp]: "adj_edge (adj_touch n g) = adj_edge g"
  by (simp add: adj_touch_def)

lemma keys_adj_touch [simp]: "fst ` set (adj_node (adj_touch n g)) = insert n (fst ` set (adj_node g))"
  by (auto simp: adj_touch_def adj_has_def)

lemma distinct_adj_touch [simp]:
  "distinct (map fst (adj_node (adj_touch n g))) \<longleftrightarrow> distinct (map fst (adj_node g))"
  by (auto simp: adj_touch_def adj_has_def)

lemma attrs_adj_touch:
  "map_of (adj_node (adj_touch n g)) m =
     (if m = n \<and> map_of (adj_node g) m = None then Some [] else map_of (adj_node g) m)"
proof -
  have "adj_has n g \<longleftrightarrow> map_of (adj_node g) n \<noteq> None" by (simp add: adj_has_def map_of_eq_None_iff)
  then show ?thesis by (auto simp: adj_touch_def map_add_def split: option.split)
qed

lemma keys_update: "fst ` set (AList.update k v al) = insert k (fst ` set al)"
  using arg_cong [OF AList.update_keys [of k v al], of set] by (auto split: if_splits)

lemma square_mono: "E \<subseteq> A \<times> A \<Longrightarrow> A \<subseteq> B \<Longrightarrow> E \<subseteq> B \<times> B"
  by blast

lemma adj_wf_add_node:
  assumes "adj_wf g"
  shows "adj_wf (adj_add_node n a g)"
proof -
  have "fst ` set (adj_edge g) \<subseteq> insert n (fst ` set (adj_node g)) \<times> insert n (fst ` set (adj_node g))"
    by (rule square_mono [of _ "fst ` set (adj_node g)"]) (use assms in \<open>simp add: adj_wf_def\<close>, rule subset_insertI)
  with assms show ?thesis by (simp add: adj_wf_def adj_add_node_def distinct_update keys_update)
qed

lemma adj_wf_add_edge:
  assumes "adj_wf g"
  shows "adj_wf (adj_add_edge u v a g)"
proof -
  let ?N = "insert v (insert u (fst ` set (adj_node g)))"
  have "fst ` set (adj_edge g) \<subseteq> ?N \<times> ?N"
    by (rule square_mono [of _ "fst ` set (adj_node g)"]) (use assms in \<open>simp add: adj_wf_def\<close>, simp add: subset_insertI2 subset_insertI)
  with assms show ?thesis by (simp add: adj_wf_def adj_add_edge_def distinct_update keys_update)
qed

lemma distinct_adj_edges:
  assumes "adj_wf g"
  shows "distinct (map (\<lambda>(u, v, a). (u, v)) (adj_edges g))"
proof -
  have "map (\<lambda>(u, v, a). (u, v)) (adj_edges g) =
      concat (map (\<lambda>n. filter (\<lambda>e. fst e = n) (map fst (adj_edge g))) (map fst (adj_node g)))"
    by (simp add: adj_edges_def map_concat filter_map comp_def case_prod_unfold)
  moreover have "distinct (concat (map (\<lambda>n. filter (\<lambda>e. fst e = n) es) ns))"
    if "distinct ns" "distinct es" for ns :: "string list" and es :: "(string \<times> string) list"
    using that by (induction ns) auto
  ultimately show ?thesis using assms by (simp add: adj_wf_def del: map_map)
qed

lemma forward_order_acyclic:
  assumes "forward_order E ns" "E \<subseteq> set ns \<times> set ns"
  shows "acyclic E"
proof (rule acyclicI_order)
  fix u v assume "(u, v) \<in> E"
  with assms show "- int (pos ns v) < - int (pos ns u)" by (auto simp: forward_order_def)
qed

lemma adj_topo_Some:
  "adj_topo E k ns = Some xs \<Longrightarrow> distinct ns \<Longrightarrow>
     distinct xs \<and> set xs = set ns \<and> forward_order (set E) xs"
proof (induction k arbitrary: ns xs)
  case 0
  then show ?case by (auto simp: forward_order_def split: if_splits)
next
  case (Suc k)
  show ?case
  proof (cases "ns = []")
    case True
    with Suc.prems show ?thesis by (simp add: forward_order_def)
  next
    case False
    with Suc.prems obtain n ys where n: "find (\<lambda>n. list_all (\<lambda>m. (m, n) \<notin> set E) ns) ns = Some n"
      and ys: "adj_topo E k (remove1 n ns) = Some ys" and xs: "xs = n # ys"
      by (auto split: option.splits)
    from n have "n \<in> set ns" and min: "\<forall>m \<in> set ns. (m, n) \<notin> set E"
      by (auto simp: find_Some_iff list_all_iff)
    with Suc.IH [OF ys] Suc.prems(2) xs show ?thesis
      by (auto simp: forward_order_def pos_def)
  qed
qed

lemma adj_topo_total:
  assumes "acyclic (set E)"
  shows "length ns \<le> k \<Longrightarrow> \<exists>xs. adj_topo E k ns = Some xs"
proof (induction k arbitrary: ns)
  case 0
  then show ?case by simp
next
  case (Suc k)
  show ?case
  proof (cases "ns = []")
    case False
    have "wf (set E)" using assms by (simp add: finite_acyclic_wf)
    with False obtain n where "n \<in> set ns" "\<forall>m. (m, n) \<in> set E \<longrightarrow> m \<notin> set ns"
      by (metis wfE_min hd_in_set)
    then have "find (\<lambda>n. list_all (\<lambda>m. (m, n) \<notin> set E) ns) ns \<noteq> None"
      by (auto simp: find_None_iff list_all_iff)
    then obtain n where n: "find (\<lambda>n. list_all (\<lambda>m. (m, n) \<notin> set E) ns) ns = Some n" by blast
    then have "n \<in> set ns" by (auto simp: find_Some_iff)
    with Suc.prems have "length (remove1 n ns) \<le> k" by (simp add: length_remove1)
    with Suc.IH n show ?thesis by fastforce
  qed simp
qed

interpretation adj: nx_digraph adj_nx adj_wf
proof
  fix g u v n m a b ns ds assume wf: "adj_wf g"
  note rel = adj_rel [OF wf]
  show "adj_wf (nx_add_node adj_nx n a g)" using wf by (simp add: adj_wf_add_node)
  show "adj_wf (nx_add_edge adj_nx u v b g)" using wf by (simp add: adj_wf_add_edge)
  show "distinct (nx_nodes adj_nx g)" using wf by (simp add: adj_wf_def)
  show "distinct (map (\<lambda>(u, v, a). (u, v)) (nx_edges adj_nx g))" using wf by (simp add: distinct_adj_edges)
  show "nx_rel adj_nx g \<subseteq> set (nx_nodes adj_nx g) \<times> set (nx_nodes adj_nx g)"
    using wf unfolding rel by (simp add: adj_wf_def)
  show "nx_attrs adj_nx g n \<noteq> None \<longleftrightarrow> n \<in> set (nx_nodes adj_nx g)"
    by (simp add: map_of_eq_None_iff)
  show "set (nx_nodes adj_nx (nx_add_node adj_nx n a g)) = insert n (set (nx_nodes adj_nx g))"
    by (simp add: adj_add_node_def keys_update)
  show "nx_attrs adj_nx (nx_add_node adj_nx n a g) m =
      (if m = n then Some (dict_update (case nx_attrs adj_nx g n of None \<Rightarrow> [] | Some d \<Rightarrow> d) a)
       else nx_attrs adj_nx g m)"
    by (simp add: adj_add_node_def update_conv')
  show "nx_rel adj_nx (nx_add_node adj_nx n a g) = nx_rel adj_nx g"
    using adj_rel [OF adj_wf_add_node [OF wf]] unfolding rel by (simp add: adj_add_node_def)
  show "set (nx_nodes adj_nx (nx_add_edge adj_nx u v b g)) = insert u (insert v (set (nx_nodes adj_nx g)))"
    by (auto simp: adj_add_edge_def)
  show "nx_attrs adj_nx (nx_add_edge adj_nx u v b g) m =
      (if m \<in> {u, v} \<and> nx_attrs adj_nx g m = None then Some [] else nx_attrs adj_nx g m)"
    by (auto simp: adj_add_edge_def attrs_adj_touch)
  show "nx_rel adj_nx (nx_add_edge adj_nx u v b g) = insert (u, v) (nx_rel adj_nx g)"
    using adj_rel [OF adj_wf_add_edge [OF wf]] unfolding rel by (simp add: adj_add_edge_def keys_update)
  show "set (nx_predecessors adj_nx g n) = {m. (m, n) \<in> nx_rel adj_nx g}"
    unfolding rel by force
  show "distinct (nx_predecessors adj_nx g n)"
    using wf by (auto simp: adj_wf_def distinct_map intro!: inj_onI)
  have topo: "distinct xs \<and> set xs = set (nx_nodes adj_nx g) \<and> forward_order (nx_rel adj_nx g) xs"
    if "nx_topological_sort adj_nx g = Some xs" for xs
    using adj_topo_Some that wf unfolding rel by (fastforce simp: adj_wf_def)
  then show "distinct ns \<and> set ns = set (nx_nodes adj_nx g) \<and> forward_order (nx_rel adj_nx g) ns"
    if "nx_topological_sort adj_nx g = Some ns" using that by blast
  show "nx_topological_sort adj_nx g = None \<longleftrightarrow> \<not> acyclic (nx_rel adj_nx g)"
  proof (cases "nx_topological_sort adj_nx g")
    case None
    then have "\<not> acyclic (set (map fst (adj_edge g)))"
      using adj_topo_total [of "map fst (adj_edge g)" "map fst (adj_node g)" "length (adj_node g)"]
      by auto
    with None show ?thesis unfolding rel by blast
  next
    case (Some xs)
    have "nx_rel adj_nx g \<subseteq> set xs \<times> set xs"
      using wf topo [OF Some] unfolding rel by (simp add: adj_wf_def)
    with topo [OF Some] have "acyclic (nx_rel adj_nx g)" by (blast intro: forward_order_acyclic)
    with Some show ?thesis by simp
  qed
  have "(nx_rel adj_nx g)\<^sup>+ \<subseteq> fst ` set (adj_node g) \<times> fst ` set (adj_node g)"
    using wf unfolding rel by (intro trancl_subset_Sigma) (simp add: adj_wf_def)
  then have closed: "(n, m) \<in> (set (map fst (adj_edge g)))\<^sup>+ \<Longrightarrow> m \<in> fst ` set (adj_node g)" for m
    unfolding rel by blast
  show "distinct ds \<and> set ds = {m. (n, m) \<in> (nx_rel adj_nx g)\<^sup>+} - {n}"
    if "nx_descendants adj_nx g n = Some ds"
    using that wf closed unfolding rel
    by (auto simp: adj_descendants_def adj_wf_def split: if_splits)
  show "nx_descendants adj_nx g n = None \<longleftrightarrow> n \<notin> set (nx_nodes adj_nx g)"
    by (simp add: adj_descendants_def adj_has_def)
qed (simp_all add: adj_wf_def adj_edges_def)

end
