(* ===== verification/Lineage.thy ===== *)
theory Lineage
  imports NxDigraph StringUtils "HOL-Library.While_Combinator"
begin

text \<open>
  \<^verbatim>\<open>backend/pipeline/lineage.py\<close>: the column-level lineage graph.  The recorder's only state is
  \<^verbatim>\<open>self.graph\<close>, so each \<^verbatim>\<open>record_*\<close> method is a function from graph to graph; the queries are
  functions of the graph.  The argument \<open>nx\<close> stands for \<^verbatim>\<open>networkx\<close>.
\<close>

section \<open>Node identifiers\<close>

definition sep :: string where "sep = ''::''"

definition file_node_id :: "string \<Rightarrow> string" where
  "file_node_id file_id = ''file'' @ sep @ file_id"

definition col_node_id :: "string \<Rightarrow> string \<Rightarrow> string" where
  "col_node_id step_name column_name = ''col'' @ sep @ step_name @ sep @ column_name"

definition step_node_id :: "string \<Rightarrow> string" where
  "step_node_id step_name = ''step'' @ sep @ step_name"

definition output_node_id :: "string \<Rightarrow> string \<Rightarrow> string" where
  "output_node_id step_name filename = ''output'' @ sep @ step_name @ sep @ filename"


section \<open>Recording steps\<close>

definition sattrs :: "(string \<times> string) list \<Rightarrow> pydict" where
  "sattrs kvs = map (\<lambda>(k, v). (PStr k, PStr v)) kvs"

definition add_node :: "'g nx_ops \<Rightarrow> string \<Rightarrow> pydict \<Rightarrow> 'g \<Rightarrow> 'g" where
  "add_node nx node_id attrs g = nx_add_node nx node_id attrs g"

text \<open>The attributes of a step node and of an output column, which every method spells out.\<close>

definition step_attrs :: "string \<Rightarrow> string \<Rightarrow> string \<Rightarrow> pydict" where
  "step_attrs label step_name step_type = sattrs
     [(''node_type'', ''step''), (''label'', label), (''step_name'', step_name), (''step_type'', step_type)]"

definition column_attrs :: "string \<Rightarrow> string \<Rightarrow> string \<Rightarrow> pydict" where
  "column_attrs node_type step_name col = sattrs
     [(''node_type'', node_type), (''label'', col), (''step_name'', step_name), (''column_name'', col)]"

text \<open>\<^verbatim>\<open>str.title()\<close> on the ASCII letters: the first letter of each run is upper case.\<close>

definition upper_ascii :: "char \<Rightarrow> char" where
  "upper_ascii c = (if 97 \<le> cp c \<and> cp c \<le> 122 then char_of (cp c - 32) else c)"

fun title_from :: "bool \<Rightarrow> string \<Rightarrow> string" where
  "title_from in_word [] = []"
| "title_from in_word (c # s) =
     (if is_ascii_letter c then (if in_word then lower_char c else upper_ascii c) # title_from True s
      else c # title_from False s)"

definition record_load ::
    "'g nx_ops \<Rightarrow> string \<Rightarrow> string \<Rightarrow> string \<Rightarrow> string list \<Rightarrow> (string \<times> string) list \<Rightarrow> 'g \<Rightarrow> 'g" where
  "record_load nx file_id file_name step_name columns dtypes g =
     (let file_node = file_node_id file_id;
          step_node = step_node_id step_name;
          g = add_node nx file_node (sattrs [(''node_type'', ''source_file''), (''label'', file_name),
                (''step_name'', step_name), (''file_name'', file_name)]) g;
          g = add_node nx step_node (step_attrs (''Load: '' @ file_name) step_name ''load'') g;
          g = nx_add_edge nx file_node step_node [] g
      in fold (\<lambda>col g.
           let col_node = col_node_id step_name col;
               dtype = (case map_of dtypes col of None \<Rightarrow> ''unknown'' | Some t \<Rightarrow> t);
               g = add_node nx col_node (column_attrs ''source_column'' step_name col @ sattrs [(''data_type'', dtype)]) g
           in nx_add_edge nx step_node col_node [] g) columns g)"

text \<open>The loop body shared by the methods that pass a column through the step node.\<close>

definition pass_column :: "'g nx_ops \<Rightarrow> string \<Rightarrow> string \<Rightarrow> string \<Rightarrow> string \<Rightarrow> 'g \<Rightarrow> 'g" where
  "pass_column nx step_name input_step col new_name g =
     (let input_col = col_node_id input_step col;
          output_col = col_node_id step_name new_name;
          step_node = step_node_id step_name;
          g = add_node nx output_col (column_attrs ''output_column'' step_name new_name) g;
          g = nx_add_edge nx input_col step_node [] g
      in nx_add_edge nx step_node output_col [] g)"

definition record_passthrough ::
    "'g nx_ops \<Rightarrow> string \<Rightarrow> string \<Rightarrow> string \<Rightarrow> string list \<Rightarrow> 'g \<Rightarrow> 'g" where
  "record_passthrough nx step_name step_type input_step columns g =
     fold (\<lambda>col. pass_column nx step_name input_step col col) columns
       (add_node nx (step_node_id step_name)
         (step_attrs (title_from False step_type @ '': '' @ step_name) step_name step_type) g)"

text \<open>Loops that only feed input columns into the step node, or only emit output columns.\<close>

definition feed_columns :: "'g nx_ops \<Rightarrow> string \<Rightarrow> string \<Rightarrow> string list \<Rightarrow> 'g \<Rightarrow> 'g" where
  "feed_columns nx step_name input_step columns =
     fold (\<lambda>col. nx_add_edge nx (col_node_id input_step col) (step_node_id step_name) []) columns"

definition emit_columns ::
    "'g nx_ops \<Rightarrow> string \<Rightarrow> (string \<Rightarrow> pydict) \<Rightarrow> string list \<Rightarrow> 'g \<Rightarrow> 'g" where
  "emit_columns nx step_name extra columns =
     fold (\<lambda>col g. nx_add_edge nx (step_node_id step_name) (col_node_id step_name col) []
       (add_node nx (col_node_id step_name col) (column_attrs ''output_column'' step_name col @ extra col) g)) columns"

definition record_projection ::
    "'g nx_ops \<Rightarrow> string \<Rightarrow> string \<Rightarrow> string list \<Rightarrow> string list \<Rightarrow> 'g \<Rightarrow> 'g" where
  "record_projection nx step_name input_step kept_columns dropped_columns g =
     feed_columns nx step_name input_step dropped_columns
       (fold (\<lambda>col. pass_column nx step_name input_step col col) kept_columns
         (add_node nx (step_node_id step_name) (step_attrs (''Select: '' @ step_name) step_name ''select'') g))"

definition record_rename ::
    "'g nx_ops \<Rightarrow> string \<Rightarrow> string \<Rightarrow> (string \<times> string) list \<Rightarrow> string list \<Rightarrow> 'g \<Rightarrow> 'g" where
  "record_rename nx step_name input_step rename_mapping all_columns g =
     fold (\<lambda>col. pass_column nx step_name input_step col
             (case map_of rename_mapping col of None \<Rightarrow> col | Some new_name \<Rightarrow> new_name)) all_columns
       (add_node nx (step_node_id step_name) (step_attrs (''Rename: '' @ step_name) step_name ''rename'') g)"

definition connect_join_side ::
    "'g nx_ops \<Rightarrow> string \<Rightarrow> string list \<Rightarrow> string \<Rightarrow> string \<Rightarrow> 'g \<Rightarrow> 'g" where
  "connect_join_side nx input_step columns step_node join_key =
     fold (\<lambda>col. nx_add_edge nx (col_node_id input_step col) step_node
       [(PStr ''is_join_key'', PBool (col = join_key))]) columns"

definition record_join ::
    "'g nx_ops \<Rightarrow> string \<Rightarrow> string \<Rightarrow> string \<Rightarrow> string list \<Rightarrow> string list \<Rightarrow> string list \<Rightarrow> string \<Rightarrow> string \<Rightarrow> 'g \<Rightarrow> 'g" where
  "record_join nx step_name left_step right_step left_cols right_cols output_cols join_key how g =
     (let step_node = step_node_id step_name;
          g = add_node nx step_node (step_attrs (''Join ('' @ how @ ''): '' @ step_name) step_name ''join'') g;
          g = connect_join_side nx left_step left_cols step_node join_key g;
          g = connect_join_side nx right_step right_cols step_node join_key g
      in emit_columns nx step_name (\<lambda>_. []) output_cols g)"

text \<open>An aggregation is the pair of its \<^verbatim>\<open>column\<close> and its \<^verbatim>\<open>function\<close>; \<^verbatim>\<open>output_to_input\<close> is a
  dictionary filled first with the group-by columns, where later entries win.\<close>

definition output_to_input :: "string list \<Rightarrow> (string \<times> string) list \<Rightarrow> string \<rightharpoonup> string" where
  "output_to_input group_by_cols aggregations =
     fold (\<lambda>(col, fn) m. m(col @ ''_'' @ fn \<mapsto> col)) aggregations
       (fold (\<lambda>col m. m(col \<mapsto> col)) group_by_cols Map.empty)"

definition record_aggregate ::
    "'g nx_ops \<Rightarrow> string \<Rightarrow> string \<Rightarrow> string list \<Rightarrow> (string \<times> string) list \<Rightarrow> string list \<Rightarrow> 'g \<Rightarrow> 'g" where
  "record_aggregate nx step_name input_step group_by_cols aggregations output_cols g =
     (let src = output_to_input group_by_cols aggregations;
          g = add_node nx (step_node_id step_name) (step_attrs (''Aggregate: '' @ step_name) step_name ''aggregate'') g;
          g = fold (\<lambda>col. pass_column nx step_name input_step col col) group_by_cols g;
          g = feed_columns nx step_name input_step (map fst aggregations) g
      in emit_columns nx step_name
           (\<lambda>col. sattrs [(''source_column'', case src col of None \<Rightarrow> col | Some c \<Rightarrow> c)]) output_cols g)"

definition record_save :: "'g nx_ops \<Rightarrow> string \<Rightarrow> string \<Rightarrow> string \<Rightarrow> string list \<Rightarrow> 'g \<Rightarrow> 'g" where
  "record_save nx step_name input_step filename columns g =
     (let step_node = step_node_id step_name;
          output_file = output_node_id step_name filename;
          g = add_node nx step_node (step_attrs (''Save: '' @ filename) step_name ''save'') g;
          g = add_node nx output_file (sattrs [(''node_type'', ''output_file''), (''label'', filename),
                (''step_name'', step_name), (''file_name'', filename)]) g;
          g = feed_columns nx step_name input_step columns g
      in nx_add_edge nx step_node output_file [] g)"

definition record_pivot ::
    "'g nx_ops \<Rightarrow> string \<Rightarrow> string \<Rightarrow> string \<Rightarrow> string \<Rightarrow> string \<Rightarrow> string list \<Rightarrow> 'g \<Rightarrow> 'g" where
  "record_pivot nx step_name input_step index_col columns_col values_col output_columns g =
     emit_columns nx step_name (\<lambda>_. []) output_columns
       (feed_columns nx step_name input_step [index_col, columns_col, values_col]
         (add_node nx (step_node_id step_name) (step_attrs (''Pivot: '' @ step_name) step_name ''pivot'') g))"

definition record_unpivot ::
    "'g nx_ops \<Rightarrow> string \<Rightarrow> string \<Rightarrow> string list \<Rightarrow> string list \<Rightarrow> string list \<Rightarrow> 'g \<Rightarrow> 'g" where
  "record_unpivot nx step_name input_step id_columns value_columns output_columns g =
     emit_columns nx step_name (\<lambda>_. []) output_columns
       (feed_columns nx step_name input_step (id_columns @ value_columns)
         (add_node nx (step_node_id step_name) (step_attrs (''Unpivot: '' @ step_name) step_name ''unpivot'') g))"

definition record_deduplicate :: "'g nx_ops \<Rightarrow> string \<Rightarrow> string \<Rightarrow> string list \<Rightarrow> 'g \<Rightarrow> 'g" where
  "record_deduplicate nx step_name input_step columns g =
     fold (\<lambda>col. pass_column nx step_name input_step col col) columns
       (add_node nx (step_node_id step_name) (step_attrs (''Deduplicate: '' @ step_name) step_name ''deduplicate'') g)"

definition record_fill_nulls :: "'g nx_ops \<Rightarrow> string \<Rightarrow> string \<Rightarrow> string list \<Rightarrow> string \<Rightarrow> 'g \<Rightarrow> 'g" where
  "record_fill_nulls nx step_name input_step columns method g =
     fold (\<lambda>col. pass_column nx step_name input_step col col) columns
       (add_node nx (step_node_id step_name)
         (step_attrs (''Fill Nulls: '' @ step_name) step_name ''fill_nulls'' @ sattrs [(''method'', method)]) g)"

definition record_sample :: "'g nx_ops \<Rightarrow> string \<Rightarrow> string \<Rightarrow> string list \<Rightarrow> 'g \<Rightarrow> 'g" where
  "record_sample nx step_name input_step columns g =
     fold (\<lambda>col. pass_column nx step_name input_step col col) columns
       (add_node nx (step_node_id step_name) (step_attrs (''Sample: '' @ step_name) step_name ''sample'') g)"

definition record_sql :: "'g nx_ops \<Rightarrow> string \<Rightarrow> string \<Rightarrow> string list \<Rightarrow> string list \<Rightarrow> 'g \<Rightarrow> 'g" where
  "record_sql nx step_name input_step input_columns output_columns g =
     emit_columns nx step_name (\<lambda>_. []) output_columns
       (feed_columns nx step_name input_step input_columns
         (add_node nx (step_node_id step_name) (step_attrs (''SQL: '' @ step_name) step_name ''sql'') g))"

definition record_wasm_compute ::
    "'g nx_ops \<Rightarrow> string \<Rightarrow> string \<Rightarrow> string \<Rightarrow> string list \<Rightarrow> string \<Rightarrow> string list \<Rightarrow> 'g \<Rightarrow> 'g" where
  "record_wasm_compute nx step_name input_step function_name input_columns output_column columns g =
     emit_columns nx step_name (\<lambda>col. [(PStr ''is_wasm_output'', PBool (col = output_column))]) columns
       (feed_columns nx step_name input_step input_columns
         (add_node nx (step_node_id step_name)
           (step_attrs (''Wasm UDF: '' @ step_name @ ''('' @ function_name @ '')'') step_name ''wasm_compute'' @
            sattrs [(''function'', function_name)]) g))"


section \<open>Queries\<close>

record transformation_step =
  ts_step_name :: pyval
  ts_step_type :: pyval
  ts_detail :: pyval

record column_lineage =
  cl_column_name :: string
  cl_source_file :: pyval
  cl_source_column :: pyval
  cl_chain :: "transformation_step list"
  cl_total_steps :: nat

record impact_analysis =
  ia_source_step :: string
  ia_source_column :: string
  ia_affected_steps :: "pyval list"
  ia_affected_output_columns :: "pyval list"

text \<open>\<^verbatim>\<open>self.graph.nodes[n]\<close>.\<close>

definition node_attrs :: "'g nx_ops \<Rightarrow> 'g \<Rightarrow> string \<Rightarrow> pydict result" where
  "node_attrs nx g n = (case nx_attrs nx g n of None \<Rightarrow> Inl KeyError | Some a \<Rightarrow> Inr a)"

definition unknown :: pyval where "unknown = PStr ''unknown''"

text \<open>The state of the backward search.\<close>

record bfs =
  queue :: "string list"
  visited :: "string list"
  source_file :: pyval
  source_col_nodes :: "string list"
  step_nodes_seen :: "string list"

definition bfs_init :: "string \<Rightarrow> bfs" where
  "bfs_init target = \<lparr>queue = [target], visited = [target], source_file = unknown,
     source_col_nodes = [], step_nodes_seen = []\<rparr>"

definition visit_pred :: "string \<Rightarrow> string list \<times> string list \<Rightarrow> string list \<times> string list" where
  "visit_pred pred vq = (case vq of (vis, q) \<Rightarrow>
     if pred \<in> set vis then (vis, q) else (vis @ [pred], q @ [pred]))"

definition bfs_step :: "'g nx_ops \<Rightarrow> 'g \<Rightarrow> bfs \<Rightarrow> bfs result" where
  "bfs_step nx g st =
     (case queue st of [] \<Rightarrow> Inl IndexError
      | node # rest \<Rightarrow>
        bindE (node_attrs nx g node) (\<lambda>attrs.
          let node_type = get_or attrs ''node_type'' (PStr []);
              (vis, q) = fold visit_pred (nx_predecessors nx g node) (visited st, rest)
          in Inr \<lparr>queue = q, visited = vis,
                source_file = (if node_type = PStr ''source_file'' \<and> source_file st = unknown
                               then get_or attrs ''label'' unknown else source_file st),
                source_col_nodes = (if node_type = PStr ''source_column''
                               then source_col_nodes st @ [node] else source_col_nodes st),
                step_nodes_seen = (if node_type = PStr ''step'' \<and> node \<notin> set (step_nodes_seen st)
                               then step_nodes_seen st @ [node] else step_nodes_seen st)\<rparr>))"

text \<open>\<^verbatim>\<open>while queue:\<close> - \<open>None\<close> would be a loop that does not end.\<close>

definition bfs_loop :: "'g nx_ops \<Rightarrow> 'g \<Rightarrow> bfs \<Rightarrow> bfs result option" where
  "bfs_loop nx g st =
     while_option (\<lambda>r. case r of Inl _ \<Rightarrow> False | Inr st \<Rightarrow> queue st \<noteq> [])
       (\<lambda>r. bindE r (bfs_step nx g)) (Inr st)"

definition topo_order :: "'g nx_ops \<Rightarrow> 'g \<Rightarrow> string list" where
  "topo_order nx g = (case nx_topological_sort nx g of Some ns \<Rightarrow> ns | None \<Rightarrow> nx_nodes nx g)"

definition topo_index :: "string list \<Rightarrow> string \<Rightarrow> nat" where
  "topo_index ns n = (if n \<in> set ns then pos ns n else 0)"

definition chain_step :: "'g nx_ops \<Rightarrow> 'g \<Rightarrow> string \<Rightarrow> transformation_step result" where
  "chain_step nx g n = bindE (node_attrs nx g n) (\<lambda>attrs.
     Inr \<lparr>ts_step_name = get_or attrs ''step_name'' (PStr []), ts_step_type = get_or attrs ''step_type'' (PStr []),
          ts_detail = get_or attrs ''label'' (PStr [])\<rparr>)"

fun filterE :: "('a \<Rightarrow> bool result) \<Rightarrow> 'a list \<Rightarrow> 'a list result" where
  "filterE P [] = Inr []"
| "filterE P (x # xs) = bindE (P x) (\<lambda>b. bindE (filterE P xs) (\<lambda>ys. Inr (if b then x # ys else ys)))"

definition named_column :: "'g nx_ops \<Rightarrow> 'g \<Rightarrow> pyval \<Rightarrow> string \<Rightarrow> bool result" where
  "named_column nx g name n =
     bindE (node_attrs nx g n) (\<lambda>attrs. Inr (py_eq (get_none attrs ''column_name'') name))"

definition column_of :: "'g nx_ops \<Rightarrow> 'g \<Rightarrow> string \<Rightarrow> string \<Rightarrow> pyval result" where
  "column_of nx g column_name n =
     bindE (node_attrs nx g n) (\<lambda>attrs. Inr (get_or attrs ''column_name'' (PStr column_name)))"

definition pick_source_column ::
    "'g nx_ops \<Rightarrow> 'g \<Rightarrow> string \<Rightarrow> string \<Rightarrow> string list \<Rightarrow> pyval result" where
  "pick_source_column nx g target_node column_name source_cols =
     (case source_cols of [] \<Rightarrow> Inr (PStr column_name)
      | first # _ \<Rightarrow>
        bindE (filterE (named_column nx g (PStr column_name)) source_cols) (\<lambda>matching.
          case matching of
            n # _ \<Rightarrow> column_of nx g column_name n
          | [] \<Rightarrow>
              let target_attrs = (case nx_attrs nx g target_node of None \<Rightarrow> [] | Some a \<Rightarrow> a);
                  src_col = get_none target_attrs ''source_column''
              in if truthy src_col then
                   bindE (filterE (named_column nx g src_col) source_cols) (\<lambda>matching_src.
                     if matching_src \<noteq> [] then Inr src_col else column_of nx g column_name first)
                 else column_of nx g column_name first))"

definition finish_ancestry ::
    "'g nx_ops \<Rightarrow> 'g \<Rightarrow> string \<Rightarrow> string \<Rightarrow> bfs \<Rightarrow> column_lineage result" where
  "finish_ancestry nx g target_node column_name st =
     bindE (mapE (chain_step nx g) (sort_key (topo_index (topo_order nx g)) (step_nodes_seen st))) (\<lambda>chain.
     bindE (pick_source_column nx g target_node column_name (source_col_nodes st)) (\<lambda>src.
       Inr \<lparr>cl_column_name = column_name, cl_source_file = source_file st, cl_source_column = src,
            cl_chain = chain, cl_total_steps = length chain\<rparr>))"

definition get_column_ancestry :: "'g nx_ops \<Rightarrow> 'g \<Rightarrow> string \<Rightarrow> string \<Rightarrow> column_lineage result option" where
  "get_column_ancestry nx g output_step_name column_name =
     (let target_node = col_node_id output_step_name column_name in
      if target_node \<notin> set (nx_nodes nx g)
      then Some (Inr \<lparr>cl_column_name = column_name, cl_source_file = unknown,
             cl_source_column = PStr column_name, cl_chain = [], cl_total_steps = 0\<rparr>)
      else map_option (\<lambda>r. bindE r (finish_ancestry nx g target_node column_name))
             (bfs_loop nx g (bfs_init target_node)))"

definition classify_affected :: "'g nx_ops \<Rightarrow> 'g \<Rightarrow> string \<Rightarrow> impact_analysis \<Rightarrow> impact_analysis result" where
  "classify_affected nx g node ia =
     bindE (node_attrs nx g node) (\<lambda>attrs.
       let node_type = get_or attrs ''node_type'' (PStr []) in
       Inr (if node_type = PStr ''step''
            then ia\<lparr>ia_affected_steps := ia_affected_steps ia @ [get_or attrs ''step_name'' (PStr [])]\<rparr>
            else if node_type = PStr ''output_column'' \<or> node_type = PStr ''output_file''
            then let label = get_or attrs ''label'' (PStr []) in
              if truthy label
              then ia\<lparr>ia_affected_output_columns := ia_affected_output_columns ia @ [label]\<rparr> else ia
            else ia))"

definition get_impact_analysis :: "'g nx_ops \<Rightarrow> 'g \<Rightarrow> string \<Rightarrow> string \<Rightarrow> impact_analysis result" where
  "get_impact_analysis nx g step_name column_name =
     (case nx_descendants nx g (col_node_id step_name column_name) of
        None \<Rightarrow> Inl (OtherError ''NetworkXError'')
      | Some ds \<Rightarrow> foldE (classify_affected nx g) ds
          \<lparr>ia_source_step = step_name, ia_source_column = column_name,
           ia_affected_steps = [], ia_affected_output_columns = []\<rparr>)"


section \<open>React Flow export\<close>

record react_flow_node =
  rf_id :: string
  rf_type :: string
  rf_data :: pydict
  rf_x :: int
  rf_y :: int

record react_flow_edge =
  re_id :: string
  re_source :: string
  re_target :: string
  re_animated :: pyval
  re_style :: pyval

definition layer_x_spacing :: int where "layer_x_spacing = 300"
definition node_y_spacing :: int where "node_y_spacing = 80"

definition node_type_map :: "pyval \<Rightarrow> string" where
  "node_type_map t =
     (if t = PStr ''source_file'' then ''sourceFile''
      else if t = PStr ''source_column'' then ''columnNode''
      else if t = PStr ''step'' then ''stepNode''
      else if t = PStr ''output_column'' then ''columnNode''
      else if t = PStr ''output_file'' then ''outputFile''
      else ''stepNode'')"

definition layer_of :: "(string \<times> nat) list \<Rightarrow> string \<Rightarrow> nat" where
  "layer_of layer_map n = (case map_of layer_map n of None \<Rightarrow> 0 | Some l \<Rightarrow> l)"

definition place_node :: "'g nx_ops \<Rightarrow> 'g \<Rightarrow> string \<Rightarrow> (string \<times> nat) list \<Rightarrow> (string \<times> nat) list" where
  "place_node nx g node layer_map =
     (let predecessors = nx_predecessors nx g node in
      AList.update node
        (if predecessors = [] then 0 else Max (set (map (layer_of layer_map) predecessors)) + 1) layer_map)"

definition layer_map :: "'g nx_ops \<Rightarrow> 'g \<Rightarrow> string list \<Rightarrow> (string \<times> nat) list" where
  "layer_map nx g order = fold (place_node nx g) order []"

text \<open>\<^verbatim>\<open>layers.setdefault(layer, []).append(node)\<close>.\<close>

definition add_to_layer :: "string \<times> nat \<Rightarrow> (nat \<times> string list) list \<Rightarrow> (nat \<times> string list) list" where
  "add_to_layer nl layers = (case nl of (node, l) \<Rightarrow>
     AList.update l ((case map_of layers l of None \<Rightarrow> [] | Some ns \<Rightarrow> ns) @ [node]) layers)"

definition assign_layers :: "'g nx_ops \<Rightarrow> 'g \<Rightarrow> string list \<Rightarrow> (nat \<times> string list) list" where
  "assign_layers nx g order = fold add_to_layer (layer_map nx g order) []"

definition flow_node :: "'g nx_ops \<Rightarrow> 'g \<Rightarrow> nat \<Rightarrow> nat \<times> string \<Rightarrow> react_flow_node result" where
  "flow_node nx g layer_idx yn =
     (case yn of (y_idx, node_id) \<Rightarrow>
      bindE (node_attrs nx g node_id) (\<lambda>attrs.
        let node_type = get_or attrs ''node_type'' (PStr ''step'') in
        Inr \<lparr>rf_id = node_id, rf_type = node_type_map node_type,
             rf_data = [(PStr ''label'', get_or attrs ''label'' (PStr node_id)), (PStr ''nodeType'', node_type),
               (PStr ''stepName'', get_none attrs ''step_name''), (PStr ''columnName'', get_none attrs ''column_name''),
               (PStr ''dataType'', get_none attrs ''data_type''), (PStr ''fileName'', get_none attrs ''file_name'')],
             rf_x = int layer_idx * layer_x_spacing, rf_y = int y_idx * node_y_spacing\<rparr>))"

definition position_layer ::
    "'g nx_ops \<Rightarrow> 'g \<Rightarrow> (nat \<times> string list) list \<Rightarrow> nat \<Rightarrow> react_flow_node list result" where
  "position_layer nx g layers layer_idx =
     mapE (flow_node nx g layer_idx)
       (enumerate 0 (case map_of layers layer_idx of None \<Rightarrow> [] | Some ns \<Rightarrow> ns))"

definition position_nodes ::
    "'g nx_ops \<Rightarrow> 'g \<Rightarrow> (nat \<times> string list) list \<Rightarrow> react_flow_node list result" where
  "position_nodes nx g layers =
     bindE (mapE (position_layer nx g layers) (sort (map fst layers))) (\<lambda>nss. Inr (concat nss))"

definition build_react_flow_nodes :: "'g nx_ops \<Rightarrow> 'g \<Rightarrow> react_flow_node list result" where
  "build_react_flow_nodes nx g =
     (if nx_nodes nx g = [] then Inr []
      else position_nodes nx g (assign_layers nx g (topo_order nx g)))"

definition build_react_flow_edges :: "'g nx_ops \<Rightarrow> 'g \<Rightarrow> react_flow_edge list" where
  "build_react_flow_edges nx g =
     map (\<lambda>(idx, source, target, data).
       let is_join_key = get_or data ''is_join_key'' (PBool False) in
       \<lparr>re_id = ''edge-'' @ nat_str idx, re_source = source, re_target = target, re_animated = is_join_key,
        re_style = (if truthy is_join_key then PDict [(PStr ''stroke'', PStr ''#ff6b6b'')] else PNone)\<rparr>)
      (enumerate 0 (nx_edges nx g))"

definition to_react_flow_format :: "'g nx_ops \<Rightarrow> 'g \<Rightarrow> (react_flow_node list \<times> react_flow_edge list) result" where
  "to_react_flow_format nx g =
     bindE (build_react_flow_nodes nx g) (\<lambda>nodes. Inr (nodes, build_react_flow_edges nx g))"

definition node_payload :: "react_flow_node \<Rightarrow> pyval" where
  "node_payload n = PDict [(PStr ''id'', PStr (rf_id n)), (PStr ''type'', PStr (rf_type n)), (PStr ''data'', PDict (rf_data n)),
     (PStr ''position'', PDict [(PStr ''x'', PInt (rf_x n)), (PStr ''y'', PInt (rf_y n))])]"

definition edge_payload :: "react_flow_edge \<Rightarrow> pyval" where
  "edge_payload e = PDict [(PStr ''id'', PStr (re_id e)), (PStr ''source'', PStr (re_source e)),
     (PStr ''target'', PStr (re_target e)), (PStr ''animated'', re_animated e), (PStr ''style'', re_style e)]"

definition serialize_lineage :: "'g nx_ops \<Rightarrow> 'g \<Rightarrow> pyval result" where
  "serialize_lineage nx g =
     bindE (to_react_flow_format nx g) (\<lambda>(nodes, edges).
       Inr (PDict [(PStr ''graph_data'', nx_node_link_data nx g),
         (PStr ''react_flow_data'', PDict [(PStr ''nodes'', PList (map node_payload nodes)),
            (PStr ''edges'', PList (map edge_payload edges))])]))"


section \<open>The backward search\<close>

lemma fold_visit_pred:
  "distinct ps \<Longrightarrow> fold visit_pred ps (vis, q) =
     (vis @ filter (\<lambda>p. p \<notin> set vis) ps, q @ filter (\<lambda>p. p \<notin> set vis) ps)"
proof (induction ps arbitrary: vis q)
  case Nil
  then show ?case by simp
next
  case (Cons p ps)
  have "filter (\<lambda>x. x \<noteq> p \<and> x \<notin> set vis) ps = filter (\<lambda>x. x \<notin> set vis) ps"
    using Cons.prems by (intro filter_cong) auto
  with Cons show ?case by (auto simp: visit_pred_def)
qed

definition has_type :: "'g nx_ops \<Rightarrow> 'g \<Rightarrow> string \<Rightarrow> string \<Rightarrow> bool" where
  "has_type nx g t n \<longleftrightarrow> (\<exists>a. nx_attrs nx g n = Some a \<and> get_or a ''node_type'' (PStr []) = PStr t)"

text \<open>After the nodes \<open>done\<close> have been taken from the queue.\<close>

definition bfs_inv :: "'g nx_ops \<Rightarrow> 'g \<Rightarrow> string \<Rightarrow> string list \<Rightarrow> bfs \<Rightarrow> bool" where
  "bfs_inv nx g t done st \<longleftrightarrow>
     visited st = done @ queue st \<and> distinct (visited st) \<and> t \<in> set (visited st) \<and>
     set (visited st) \<subseteq> {n. (n, t) \<in> (nx_rel nx g)\<^sup>*} \<inter> set (nx_nodes nx g) \<and>
     (\<forall>n \<in> set done. \<forall>m. (m, n) \<in> nx_rel nx g \<longrightarrow> m \<in> set (visited st)) \<and>
     step_nodes_seen st = filter (has_type nx g ''step'') done \<and>
     source_col_nodes st = filter (has_type nx g ''source_column'') done"

context nx_digraph
begin

lemma bfs_step_inv:
  assumes wf: "wf g" and inv: "bfs_inv nx g t done st" and q: "queue st = n # rest"
  shows "\<exists>st'. bfs_step nx g st = Inr st' \<and> bfs_inv nx g t (done @ [n]) st'"
proof -
  let ?new = "filter (\<lambda>p. p \<notin> set (visited st)) (nx_predecessors nx g n)"
  from inv q have n: "n \<in> set (nx_nodes nx g)" "(n, t) \<in> (nx_rel nx g)\<^sup>*" "n \<notin> set done"
    by (auto simp: bfs_inv_def)
  from attrs_nodes [OF wf, of n] n(1) obtain a where a: "nx_attrs nx g n = Some a" by auto
  have ty: "has_type nx g k n \<longleftrightarrow> get_or a ''node_type'' (PStr []) = PStr k" for k
    by (simp add: has_type_def a)
  have unseen: "n \<notin> set (step_nodes_seen st)" using inv n(3) by (auto simp: bfs_inv_def)
  define st' where "st' = \<lparr>queue = rest @ ?new, visited = visited st @ ?new,
    source_file = (if has_type nx g ''source_file'' n \<and> source_file st = unknown
                   then get_or a ''label'' unknown else source_file st),
    source_col_nodes = source_col_nodes st @ (if has_type nx g ''source_column'' n then [n] else []),
    step_nodes_seen = step_nodes_seen st @ (if has_type nx g ''step'' n then [n] else [])\<rparr>"
  have st': "bfs_step nx g st = Inr st'"
    using unseen
    by (simp add: bfs_step_def q node_attrs_def a fold_visit_pred [OF predecessors_distinct [OF wf]] ty
        st'_def Let_def)
  have v': "visited st' = visited st @ ?new" by (simp add: st'_def)
  have new: "set ?new \<subseteq> {m. (m, t) \<in> (nx_rel nx g)\<^sup>*} \<inter> set (nx_nodes nx g)"
    using n(2) predecessors_nodes [OF wf, of n] predecessors_rel [OF wf, of n]
    by (auto intro: converse_rtrancl_into_rtrancl)
  have closed: "(m, n) \<in> nx_rel nx g \<Longrightarrow> m \<in> set (visited st')" for m
    using predecessors_rel [OF wf, of n] by (auto simp: v')
  have dist: "distinct (visited st')"
    using inv predecessors_distinct [OF wf, of n] by (auto simp: v' bfs_inv_def)
  have "bfs_inv nx g t (done @ [n]) st'"
    unfolding bfs_inv_def
  proof (intro conjI)
    show "visited st' = (done @ [n]) @ queue st'" using inv q by (simp add: bfs_inv_def st'_def)
    show "distinct (visited st')" by (rule dist)
    show "t \<in> set (visited st')" using inv by (auto simp: bfs_inv_def v')
    show "set (visited st') \<subseteq> {n. (n, t) \<in> (nx_rel nx g)\<^sup>*} \<inter> set (nx_nodes nx g)"
      using inv new by (auto simp: bfs_inv_def v')
    have "set (visited st) \<subseteq> set (visited st')" by (simp add: v')
    moreover have "\<forall>k \<in> set done. \<forall>m. (m, k) \<in> nx_rel nx g \<longrightarrow> m \<in> set (visited st)"
      using inv unfolding bfs_inv_def by blast
    ultimately show "\<forall>k \<in> set (done @ [n]). \<forall>m. (m, k) \<in> nx_rel nx g \<longrightarrow> m \<in> set (visited st')"
      using closed by (simp only: set_append list.set) blast
  qed (use inv in \<open>auto simp: bfs_inv_def st'_def\<close>)
  with st' show ?thesis by blast
qed

lemma bfs_inv_bound: "wf g \<Longrightarrow> bfs_inv nx g t done st \<Longrightarrow> length done + length (queue st) \<le> length (nx_nodes nx g)"
  by (metis (no_types, lifting) bfs_inv_def distinct_card card_mono finite_set inf.boundedE length_append
      nodes_distinct)

text \<open>The loop ends, without an exception, with the search complete.\<close>

lemma bfs_loop_complete:
  assumes wf: "wf g"
  shows "bfs_inv nx g t done st \<Longrightarrow>
    \<exists>done' st'. bfs_loop nx g st = Some (Inr st') \<and> queue st' = [] \<and> bfs_inv nx g t done' st'"
proof (induction "length (nx_nodes nx g) - length done" arbitrary: "done" st rule: less_induct)
  case less
  show ?case
  proof (cases "queue st")
    case Nil
    then show ?thesis using less.prems by (auto simp: bfs_loop_def while_option_unfold)
  next
    case (Cons n rest)
    from bfs_step_inv [OF wf less.prems Cons] obtain st1
      where st1: "bfs_step nx g st = Inr st1" "bfs_inv nx g t (done @ [n]) st1" by blast
    from bfs_inv_bound [OF wf less.prems] Cons
    have "length (nx_nodes nx g) - length (done @ [n]) < length (nx_nodes nx g) - length done" by simp
    from less.hyps [OF this st1(2)] show ?thesis
      by (simp add: bfs_loop_def while_option_unfold [of _ _ "Inr st"] Cons st1(1))
  qed
qed

lemma bfs_inv_finished:
  assumes "bfs_inv nx g t done st" "queue st = []"
  shows "visited st = done" "set done = {n. (n, t) \<in> (nx_rel nx g)\<^sup>*}"
proof -
  show v: "visited st = done" using assms by (simp add: bfs_inv_def)
  have "n \<in> set done" if "(n, t) \<in> (nx_rel nx g)\<^sup>*" for n
    using that assms(1) v
    by (induction rule: converse_rtrancl_induct) (auto simp: bfs_inv_def)
  with assms(1) v show "set done = {n. (n, t) \<in> (nx_rel nx g)\<^sup>*}" by (auto simp: bfs_inv_def)
qed

lemma bfs_inv_init: "t \<in> set (nx_nodes nx g) \<Longrightarrow> bfs_inv nx g t [] (bfs_init t)"
  by (simp add: bfs_inv_def bfs_init_def)

lemma bfs_from_target:
  assumes "wf g" "t \<in> set (nx_nodes nx g)"
  obtains st vis where "bfs_loop nx g (bfs_init t) = Some (Inr st)" "distinct vis"
    "set vis = {n. (n, t) \<in> (nx_rel nx g)\<^sup>*}" "set vis \<subseteq> set (nx_nodes nx g)"
    "step_nodes_seen st = filter (has_type nx g ''step'') vis"
    "source_col_nodes st = filter (has_type nx g ''source_column'') vis"
proof -
  from bfs_loop_complete [OF assms(1) bfs_inv_init [OF assms(2)]] obtain vis st
    where st: "bfs_loop nx g (bfs_init t) = Some (Inr st)" "queue st = []" "bfs_inv nx g t vis st" by blast
  note fin = bfs_inv_finished [OF st(3) st(2)]
  show thesis
    using st(3) by (intro that [of st vis]) (auto simp: st(1) fin bfs_inv_def)
qed

lemma node_attrs_total: "wf g \<Longrightarrow> n \<in> set (nx_nodes nx g) \<Longrightarrow> \<exists>a. node_attrs nx g n = Inr a"
  using attrs_nodes [of g n] by (auto simp: node_attrs_def split: option.split)

lemma filterE_total: "(\<And>x. x \<in> set xs \<Longrightarrow> \<exists>b. P x = Inr b) \<Longrightarrow> \<exists>ys. filterE P xs = Inr ys"
  by (induction xs) fastforce+

lemma filterE_subset: "filterE P xs = Inr ys \<Longrightarrow> set ys \<subseteq> set xs"
  by (induction xs arbitrary: ys) (fastforce split: if_splits)+

lemma named_column_total: "wf g \<Longrightarrow> n \<in> set (nx_nodes nx g) \<Longrightarrow> \<exists>b. named_column nx g v n = Inr b"
  using node_attrs_total [of g n] by (auto simp: named_column_def)

lemma column_of_total: "wf g \<Longrightarrow> n \<in> set (nx_nodes nx g) \<Longrightarrow> \<exists>v. column_of nx g c n = Inr v"
  using node_attrs_total [of g n] by (auto simp: column_of_def)

lemma pick_source_column_total:
  assumes wf: "wf g" and sub: "set cols \<subseteq> set (nx_nodes nx g)"
  shows "\<exists>v. pick_source_column nx g t c cols = Inr v"
proof (cases cols)
  case Nil
  then show ?thesis by (simp add: pick_source_column_def)
next
  case (Cons first rest)
  have tot: "\<exists>ys. filterE (named_column nx g v) cols = Inr ys" for v
    using named_column_total [OF wf] sub by (intro filterE_total) auto
  obtain ms where ms: "filterE (named_column nx g (PStr c)) cols = Inr ms" using tot by blast
  obtain v where v: "column_of nx g c first = Inr v" using column_of_total [OF wf] sub Cons by fastforce
  show ?thesis
  proof (cases ms)
    case Nil
    obtain ss where "filterE (named_column nx g
        (get_none (case nx_attrs nx g t of None \<Rightarrow> [] | Some a \<Rightarrow> a) ''source_column'')) cols = Inr ss"
      using tot by blast
    with ms Nil v Cons show ?thesis by (simp add: pick_source_column_def Let_def)
  next
    case (Cons n ns)
    with filterE_subset [OF ms] sub column_of_total [OF wf, of n c] ms \<open>cols = first # rest\<close>
    show ?thesis by (auto simp: pick_source_column_def)
  qed
qed

lemma chain_total:
  assumes "wf g" "set ns \<subseteq> set (nx_nodes nx g)"
  shows "\<exists>ch. mapE (chain_step nx g) ns = Inr ch"
proof (rule mapE_total)
  fix n assume "n \<in> set ns"
  with assms obtain a where "node_attrs nx g n = Inr a" using node_attrs_total by blast
  then show "\<exists>y. chain_step nx g n = Inr y" by (simp add: chain_step_def)
qed

lemma ancestors_first:
  assumes wf: "wf g" and ac: "acyclic (nx_rel nx g)" and sub: "set ns \<subseteq> set (nx_nodes nx g)"
  shows "sorted_wrt (\<lambda>m n. (n, m) \<notin> (nx_rel nx g)\<^sup>+) (sort_key (topo_index (topo_order nx g)) ns)"
proof -
  obtain os where os: "nx_topological_sort nx g = Some os"
    using topological_sort_None [OF wf] ac by (cases "nx_topological_sort nx g") auto
  then have top: "topo_order nx g = os" "set os = set (nx_nodes nx g)" "forward_order (nx_rel nx g) os"
    using topological_sort_Some [OF wf os] by (simp_all add: topo_order_def)
  let ?f = "topo_index (topo_order nx g)"
  have edge: "?f u < ?f v" if "(u, v) \<in> nx_rel nx g" for u v
    using that top edges_nodes [OF wf] by (auto simp: topo_index_def forward_order_def)
  have "?f u < ?f v" if "(u, v) \<in> (nx_rel nx g)\<^sup>+" for u v
    using that by (induction rule: trancl_induct) (auto dest: edge)
  moreover have "sorted_wrt (\<lambda>m n. ?f m \<le> ?f n) (sort_key ?f ns)"
    using sorted_sort_key [of ?f ns] by (simp add: sorted_wrt_map)
  ultimately show ?thesis
    using sorted_wrt_mono_rel [of "sort_key ?f ns" "\<lambda>m n. ?f m \<le> ?f n" "\<lambda>m n. (n, m) \<notin> (nx_rel nx g)\<^sup>+"]
    by (meson leD)
qed

text \<open>The nodes behind the transformation chain of a recorded column.\<close>

lemma get_column_ancestry_chain:
  assumes wf: "wf g" and t: "col_node_id s c \<in> set (nx_nodes nx g)"
  shows "\<exists>cl ns. get_column_ancestry nx g s c = Some (Inr cl) \<and> cl_column_name cl = c \<and>
    mapE (chain_step nx g) ns = Inr (cl_chain cl) \<and> cl_total_steps cl = length ns \<and> distinct ns \<and>
    set ns = {n. (n, col_node_id s c) \<in> (nx_rel nx g)\<^sup>* \<and> has_type nx g ''step'' n} \<and>
    (acyclic (nx_rel nx g) \<longrightarrow> sorted_wrt (\<lambda>m n. (n, m) \<notin> (nx_rel nx g)\<^sup>+) ns)"
proof -
  from bfs_from_target [OF wf t] obtain st vis where
    st: "bfs_loop nx g (bfs_init (col_node_id s c)) = Some (Inr st)" and vis: "distinct vis"
      "set vis = {n. (n, col_node_id s c) \<in> (nx_rel nx g)\<^sup>*}" "set vis \<subseteq> set (nx_nodes nx g)"
    and steps: "step_nodes_seen st = filter (has_type nx g ''step'') vis"
    and cols: "source_col_nodes st = filter (has_type nx g ''source_column'') vis" by blast
  let ?ns = "sort_key (topo_index (topo_order nx g)) (step_nodes_seen st)"
  have sub: "set (step_nodes_seen st) \<subseteq> set (nx_nodes nx g)" "set (source_col_nodes st) \<subseteq> set (nx_nodes nx g)"
    using vis(3) steps cols by auto
  from chain_total [OF wf, of ?ns] sub(1) obtain ch where ch: "mapE (chain_step nx g) ?ns = Inr ch" by auto
  from pick_source_column_total [OF wf sub(2)] obtain src
    where src: "pick_source_column nx g (col_node_id s c) c (source_col_nodes st) = Inr src" by blast
  define cl where "cl = \<lparr>cl_column_name = c, cl_source_file = source_file st, cl_source_column = src,
    cl_chain = ch, cl_total_steps = length ch\<rparr>"
  have "get_column_ancestry nx g s c = Some (Inr cl)"
    using t st ch src by (simp add: get_column_ancestry_def Let_def finish_ancestry_def cl_def)
  moreover have "set ?ns = {n. (n, col_node_id s c) \<in> (nx_rel nx g)\<^sup>* \<and> has_type nx g ''step'' n}" "distinct ?ns"
    using steps vis(1,2) by auto
  ultimately show ?thesis
    using ch mapE_length [OF ch] ancestors_first [OF wf _ sub(1)]
    by (intro exI [of _ cl] exI [of _ ?ns]) (simp add: cl_def)
qed

end


section \<open>What the record methods add\<close>

text \<open>Every record method routes its inputs through the node of its step: it adds an edge from
  each of the nodes \<open>ins\<close> to the step node and one from the step node to each of \<open>outs\<close>.\<close>

locale record_op = nx_digraph nx wf for nx :: "'g nx_ops" and wf :: "'g \<Rightarrow> bool" +
  fixes op :: "'g \<Rightarrow> 'g" and s :: string and ins :: "string set" and outs :: "string set"
  assumes wf_op: "wf g \<Longrightarrow> wf (op g)"
    and rel_op: "wf g \<Longrightarrow>
      nx_rel nx (op g) = nx_rel nx g \<union> ins \<times> {step_node_id s} \<union> {step_node_id s} \<times> outs"

lemma acyclic_add_sinks:
  assumes "acyclic r" and sink: "\<And>u v y. (u, v) \<in> f \<Longrightarrow> (v, y) \<notin> r \<union> f"
  shows "acyclic (r \<union> f)"
proof -
  have "(x, y) \<in> r\<^sup>+" if "(x, y) \<in> (r \<union> f)\<^sup>+" "(y, z) \<in> r \<union> f" for x y z
    using that
  proof (induction arbitrary: z rule: trancl_induct)
    case (base y)
    with sink show ?case by blast
  next
    case (step y y')
    with sink have "(y, y') \<in> r" by blast
    with step.IH [OF step.hyps(2)] show ?case by (rule trancl_into_trancl)
  qed
  moreover have "\<exists>z. (x, z) \<in> r \<union> f" if "(x, x) \<in> (r \<union> f)\<^sup>+" for x
    using that by (meson tranclD)
  ultimately show ?thesis using assms(1) by (meson acyclic_def)
qed

context record_op
begin

lemma acyclic_op:
  assumes "wf g" "acyclic (nx_rel nx g)"
    and fresh: "\<And>v y. v \<in> insert (step_node_id s) outs \<Longrightarrow> (v, y) \<notin> nx_rel nx g"
    and "step_node_id s \<notin> ins \<union> outs" "ins \<inter> outs = {}"
  shows "acyclic (nx_rel nx (op g))"
proof -
  let ?s = "step_node_id s"
  have "acyclic (nx_rel nx g \<union> ins \<times> {?s})"
    using assms by (intro acyclic_add_sinks) auto
  then have "acyclic ((nx_rel nx g \<union> ins \<times> {?s}) \<union> {?s} \<times> outs)"
    using assms by (intro acyclic_add_sinks) auto
  with rel_op [OF assms(1)] show ?thesis by simp
qed

text \<open>Each output of the step has each of its inputs as an ancestor.\<close>

lemma input_reaches_output:
  assumes "wf g" "i \<in> ins" "o' \<in> outs"
  shows "(i, o') \<in> (nx_rel nx (op g))\<^sup>+"
proof -
  have "(i, step_node_id s) \<in> nx_rel nx (op g)" "(step_node_id s, o') \<in> nx_rel nx (op g)"
    using assms rel_op by auto
  then show ?thesis by (meson trancl.r_into_trancl trancl_into_trancl)
qed

end

context nx_digraph
begin

lemma fold_adds:
  assumes "\<And>x g. wf g \<Longrightarrow> wf (f x g) \<and> nx_rel nx (f x g) = nx_rel nx g \<union> R x"
  shows "wf g \<Longrightarrow> wf (fold f xs g) \<and> nx_rel nx (fold f xs g) = nx_rel nx g \<union> (\<Union>x \<in> set xs. R x)"
  by (induction xs arbitrary: g) (auto simp: assms)

lemma add_node_adds [simp]:
  "wf g \<Longrightarrow> wf (add_node nx n a g)" "wf g \<Longrightarrow> nx_rel nx (add_node nx n a g) = nx_rel nx g"
  by (simp_all add: add_node_def wf_add_node rel_add_node)

lemma add_edge_adds [simp]:
  "wf g \<Longrightarrow> wf (nx_add_edge nx u v b g)"
  "wf g \<Longrightarrow> nx_rel nx (nx_add_edge nx u v b g) = insert (u, v) (nx_rel nx g)"
  by (simp_all add: wf_add_edge rel_add_edge)

lemma pass_column_adds:
  "wf g \<Longrightarrow> wf (pass_column nx s i col c g) \<and> nx_rel nx (pass_column nx s i col c g) =
     nx_rel nx g \<union> {(col_node_id i col, step_node_id s), (step_node_id s, col_node_id s c)}"
  by (auto simp: pass_column_def Let_def)

lemma pass_columns_adds [simp]:
  assumes "wf g"
  shows "wf (fold (\<lambda>col. pass_column nx s i col (h col)) cols g)"
    and "nx_rel nx (fold (\<lambda>col. pass_column nx s i col (h col)) cols g) = nx_rel nx g \<union>
      col_node_id i ` set cols \<times> {step_node_id s} \<union> {step_node_id s} \<times> (col_node_id s \<circ> h) ` set cols"
  using fold_adds [of "\<lambda>col. pass_column nx s i col (h col)"
      "\<lambda>col. {(col_node_id i col, step_node_id s), (step_node_id s, col_node_id s (h col))}" g cols,
      OF pass_column_adds assms]
  by auto

lemma feed_columns_adds [simp]:
  assumes "wf g"
  shows "wf (feed_columns nx s i cols g)"
    and "nx_rel nx (feed_columns nx s i cols g) = nx_rel nx g \<union> col_node_id i ` set cols \<times> {step_node_id s}"
  using fold_adds [of "\<lambda>col. nx_add_edge nx (col_node_id i col) (step_node_id s) []"
      "\<lambda>col. {(col_node_id i col, step_node_id s)}" g cols] assms
  by (auto simp: feed_columns_def)

lemma emit_columns_adds [simp]:
  assumes "wf g"
  shows "wf (emit_columns nx s e cols g)"
    and "nx_rel nx (emit_columns nx s e cols g) = nx_rel nx g \<union> {step_node_id s} \<times> col_node_id s ` set cols"
  using fold_adds [of "\<lambda>col g. nx_add_edge nx (step_node_id s) (col_node_id s col) []
      (add_node nx (col_node_id s col) (column_attrs ''output_column'' s col @ e col) g)"
      "\<lambda>col. {(step_node_id s, col_node_id s col)}" g cols] assms
  by (auto simp: emit_columns_def)

lemma connect_join_side_adds [simp]:
  assumes "wf g"
  shows "wf (connect_join_side nx i cols n k g)"
    and "nx_rel nx (connect_join_side nx i cols n k g) = nx_rel nx g \<union> col_node_id i ` set cols \<times> {n}"
  using fold_adds [of "\<lambda>col. nx_add_edge nx (col_node_id i col) n [(PStr ''is_join_key'', PBool (col = k))]"
      "\<lambda>col. {(col_node_id i col, n)}" g cols] assms
  by (auto simp: connect_join_side_def)

lemma load_columns_adds [simp]:
  assumes "wf g"
  shows "wf (fold (\<lambda>col g. nx_add_edge nx (step_node_id s) (col_node_id s col) []
      (add_node nx (col_node_id s col) (a col) g)) cols g)"
    and "nx_rel nx (fold (\<lambda>col g. nx_add_edge nx (step_node_id s) (col_node_id s col) []
      (add_node nx (col_node_id s col) (a col) g)) cols g) =
      nx_rel nx g \<union> {step_node_id s} \<times> col_node_id s ` set cols"
  using fold_adds [of "\<lambda>col g. nx_add_edge nx (step_node_id s) (col_node_id s col) []
      (add_node nx (col_node_id s col) (a col) g)"
      "\<lambda>col. {(step_node_id s, col_node_id s col)}" g cols] assms
  by auto

end

sublocale nx_digraph \<subseteq> load: record_op nx wf "record_load nx f n s cols dt" s "{file_node_id f}"
    "col_node_id s ` set cols" for f n s cols dt
  by unfold_locales (auto simp: record_load_def Let_def)

sublocale nx_digraph \<subseteq> passthrough: record_op nx wf "record_passthrough nx s ty i cols" s
    "col_node_id i ` set cols" "col_node_id s ` set cols" for s ty i cols
  by unfold_locales (auto simp: record_passthrough_def)

sublocale nx_digraph \<subseteq> projection: record_op nx wf "record_projection nx s i kept dropped" s
    "col_node_id i ` (set kept \<union> set dropped)" "col_node_id s ` set kept" for s i kept dropped
  by unfold_locales (auto simp: record_projection_def)

sublocale nx_digraph \<subseteq> rename: record_op nx wf "record_rename nx s i m cols" s
    "col_node_id i ` set cols"
    "(\<lambda>col. col_node_id s (case map_of m col of None \<Rightarrow> col | Some new_name \<Rightarrow> new_name)) ` set cols" for s i m cols
  by unfold_locales (auto simp: record_rename_def)

sublocale nx_digraph \<subseteq> join: record_op nx wf "record_join nx s l r lc rc oc k h" s
    "col_node_id l ` set lc \<union> col_node_id r ` set rc" "col_node_id s ` set oc" for s l r lc rc oc k h
  by unfold_locales (auto simp: record_join_def Let_def)

sublocale nx_digraph \<subseteq> aggregate: record_op nx wf "record_aggregate nx s i gb aggs oc" s
    "col_node_id i ` (set gb \<union> fst ` set aggs)" "col_node_id s ` (set gb \<union> set oc)" for s i gb aggs oc
  by unfold_locales (auto simp: record_aggregate_def Let_def)

sublocale nx_digraph \<subseteq> save: record_op nx wf "record_save nx s i f cols" s
    "col_node_id i ` set cols" "{output_node_id s f}" for s i f cols
  by unfold_locales (auto simp: record_save_def Let_def)

sublocale nx_digraph \<subseteq> pivot: record_op nx wf "record_pivot nx s i ic cc vc oc" s
    "col_node_id i ` {ic, cc, vc}" "col_node_id s ` set oc" for s i ic cc vc oc
  by unfold_locales (auto simp: record_pivot_def)

sublocale nx_digraph \<subseteq> unpivot: record_op nx wf "record_unpivot nx s i ids vs oc" s
    "col_node_id i ` (set ids \<union> set vs)" "col_node_id s ` set oc" for s i ids vs oc
  by unfold_locales (auto simp: record_unpivot_def)

sublocale nx_digraph \<subseteq> deduplicate: record_op nx wf "record_deduplicate nx s i cols" s
    "col_node_id i ` set cols" "col_node_id s ` set cols" for s i cols
  by unfold_locales (auto simp: record_deduplicate_def)

sublocale nx_digraph \<subseteq> fill_nulls: record_op nx wf "record_fill_nulls nx s i cols m" s
    "col_node_id i ` set cols" "col_node_id s ` set cols" for s i cols m
  by unfold_locales (auto simp: record_fill_nulls_def)

sublocale nx_digraph \<subseteq> sample: record_op nx wf "record_sample nx s i cols" s
    "col_node_id i ` set cols" "col_node_id s ` set cols" for s i cols
  by unfold_locales (auto simp: record_sample_def)

sublocale nx_digraph \<subseteq> sql: record_op nx wf "record_sql nx s i ic oc" s
    "col_node_id i ` set ic" "col_node_id s ` set oc" for s i ic oc
  by unfold_locales (auto simp: record_sql_def)

sublocale nx_digraph \<subseteq> wasm: record_op nx wf "record_wasm_compute nx s i f ic out cols" s
    "col_node_id i ` set ic" "col_node_id s ` set cols" for s i f ic out cols
  by unfold_locales (auto simp: record_wasm_compute_def)


section \<open>Sequences of record calls\<close>

text \<open>The calls that the step executors make on the recorder, one per executed step.\<close>

datatype record_call =
    RecordLoad string string string "string list" "(string \<times> string) list"
  | RecordPassthrough string string string "string list"
  | RecordProjection string string "string list" "string list"
  | RecordRename string string "(string \<times> string) list" "string list"
  | RecordJoin string string string "string list" "string list" "string list" string string
  | RecordAggregate string string "string list" "(string \<times> string) list" "string list"
  | RecordSave string string string "string list"
  | RecordPivot string string string string string "string list"
  | RecordUnpivot string string "string list" "string list" "string list"
  | RecordDeduplicate string string "string list"
  | RecordFillNulls string string "string list" string
  | RecordSample string string "string list"
  | RecordSql string string "string list" "string list"
  | RecordWasmCompute string string string "string list" string "string list"

fun apply_call :: "'g nx_ops \<Rightarrow> record_call \<Rightarrow> 'g \<Rightarrow> 'g" where
  "apply_call nx (RecordLoad f n s cols dt) = record_load nx f n s cols dt"
| "apply_call nx (RecordPassthrough s ty i cols) = record_passthrough nx s ty i cols"
| "apply_call nx (RecordProjection s i kept dropped) = record_projection nx s i kept dropped"
| "apply_call nx (RecordRename s i m cols) = record_rename nx s i m cols"
| "apply_call nx (RecordJoin s l r lc rc oc k h) = record_join nx s l r lc rc oc k h"
| "apply_call nx (RecordAggregate s i gb aggs oc) = record_aggregate nx s i gb aggs oc"
| "apply_call nx (RecordSave s i f cols) = record_save nx s i f cols"
| "apply_call nx (RecordPivot s i ic cc vc oc) = record_pivot nx s i ic cc vc oc"
| "apply_call nx (RecordUnpivot s i ids vs oc) = record_unpivot nx s i ids vs oc"
| "apply_call nx (RecordDeduplicate s i cols) = record_deduplicate nx s i cols"
| "apply_call nx (RecordFillNulls s i cols m) = record_fill_nulls nx s i cols m"
| "apply_call nx (RecordSample s i cols) = record_sample nx s i cols"
| "apply_call nx (RecordSql s i ic oc) = record_sql nx s i ic oc"
| "apply_call nx (RecordWasmCompute s i f ic out cols) = record_wasm_compute nx s i f ic out cols"

fun call_step :: "record_call \<Rightarrow> string" where
  "call_step (RecordLoad f n s cols dt) = s"
| "call_step (RecordPassthrough s ty i cols) = s"
| "call_step (RecordProjection s i kept dropped) = s"
| "call_step (RecordRename s i m cols) = s"
| "call_step (RecordJoin s l r lc rc oc k h) = s"
| "call_step (RecordAggregate s i gb aggs oc) = s"
| "call_step (RecordSave s i f cols) = s"
| "call_step (RecordPivot s i ic cc vc oc) = s"
| "call_step (RecordUnpivot s i ids vs oc) = s"
| "call_step (RecordDeduplicate s i cols) = s"
| "call_step (RecordFillNulls s i cols m) = s"
| "call_step (RecordSample s i cols) = s"
| "call_step (RecordSql s i ic oc) = s"
| "call_step (RecordWasmCompute s i f ic out cols) = s"

fun call_inputs :: "record_call \<Rightarrow> string list" where
  "call_inputs (RecordLoad f n s cols dt) = []"
| "call_inputs (RecordPassthrough s ty i cols) = [i]"
| "call_inputs (RecordProjection s i kept dropped) = [i]"
| "call_inputs (RecordRename s i m cols) = [i]"
| "call_inputs (RecordJoin s l r lc rc oc k h) = [l, r]"
| "call_inputs (RecordAggregate s i gb aggs oc) = [i]"
| "call_inputs (RecordSave s i f cols) = [i]"
| "call_inputs (RecordPivot s i ic cc vc oc) = [i]"
| "call_inputs (RecordUnpivot s i ids vs oc) = [i]"
| "call_inputs (RecordDeduplicate s i cols) = [i]"
| "call_inputs (RecordFillNulls s i cols m) = [i]"
| "call_inputs (RecordSample s i cols) = [i]"
| "call_inputs (RecordSql s i ic oc) = [i]"
| "call_inputs (RecordWasmCompute s i f ic out cols) = [i]"

definition recorded :: "'g nx_ops \<Rightarrow> record_call list \<Rightarrow> 'g" where
  "recorded nx calls = fold (apply_call nx) calls (nx_empty nx)"

text \<open>Names that can be told apart inside a node identifier; a step does not read itself and is
  recorded before any other call names it.\<close>

fun calls_ordered :: "string list \<Rightarrow> record_call list \<Rightarrow> bool" where
  "calls_ordered seen [] = True"
| "calls_ordered seen (c # cs) =
     ((\<forall>s \<in> set (call_step c # call_inputs c). CHR '':'' \<notin> set s) \<and>
      call_step c \<notin> set (call_inputs c) \<union> set seen \<and>
      calls_ordered (call_step c # call_inputs c @ seen) cs)"

subsection \<open>Identifiers do not collide\<close>

lemma before_colon:
  assumes "CHR '':'' \<notin> set s" "CHR '':'' \<notin> set s'"
  shows "s @ sep @ c = s' @ sep @ c' \<longleftrightarrow> s = s' \<and> c = c'"
proof
  assume eq: "s @ sep @ c = s' @ sep @ c'"
  have tw: "takeWhile (\<lambda>x. x \<noteq> CHR '':'') (t @ sep @ d) = t" if "CHR '':'' \<notin> set t" for t d
    using that by (subst takeWhile_append2) (auto simp: sep_def)
  from tw [OF assms(1), of c] tw [OF assms(2), of c'] eq have "s = s'" by metis
  with eq show "s = s' \<and> c = c'" by simp
qed simp

lemma col_node_id_eq_iff:
  "CHR '':'' \<notin> set s \<Longrightarrow> CHR '':'' \<notin> set s' \<Longrightarrow> col_node_id s c = col_node_id s' c' \<longleftrightarrow> s = s' \<and> c = c'"
  by (simp add: col_node_id_def before_colon)

lemma output_node_id_eq_iff:
  "CHR '':'' \<notin> set s \<Longrightarrow> CHR '':'' \<notin> set s' \<Longrightarrow> output_node_id s f = output_node_id s' f' \<longleftrightarrow> s = s' \<and> f = f'"
  by (simp add: output_node_id_def before_colon)

lemma step_node_id_eq_iff [simp]: "step_node_id s = step_node_id s' \<longleftrightarrow> s = s'"
  by (simp add: step_node_id_def)

lemma node_kinds_distinct [simp]:
  "col_node_id s c \<noteq> step_node_id s'" "step_node_id s' \<noteq> col_node_id s c"
  "col_node_id s c \<noteq> file_node_id f" "file_node_id f \<noteq> col_node_id s c"
  "output_node_id s n \<noteq> col_node_id s' c" "col_node_id s' c \<noteq> output_node_id s n"
  "output_node_id s n \<noteq> step_node_id s'" "step_node_id s' \<noteq> output_node_id s n"
  "output_node_id s n \<noteq> file_node_id f" "file_node_id f \<noteq> output_node_id s n"
  "step_node_id s \<noteq> file_node_id f" "file_node_id f \<noteq> step_node_id s"
  by (simp_all add: col_node_id_def step_node_id_def output_node_id_def file_node_id_def sep_def)

subsection \<open>The graph of a run is acyclic\<close>

text \<open>The nodes that may have outgoing edges once the steps \<open>S\<close> have been recorded.\<close>

definition origins :: "string set \<Rightarrow> string set" where
  "origins S = range file_node_id \<union> step_node_id ` S \<union> {col_node_id s c | s c. s \<in> S}"

context nx_digraph
begin

lemmas record_op_intros =
  load.record_op_axioms passthrough.record_op_axioms projection.record_op_axioms rename.record_op_axioms
  join.record_op_axioms aggregate.record_op_axioms save.record_op_axioms pivot.record_op_axioms
  unpivot.record_op_axioms deduplicate.record_op_axioms fill_nulls.record_op_axioms sample.record_op_axioms
  sql.record_op_axioms wasm.record_op_axioms

lemma apply_call_record_op:
  "\<exists>ins outs. record_op nx wf (apply_call nx c) (call_step c) ins outs \<and>
     ins \<subseteq> range file_node_id \<union> {col_node_id i k | i k. i \<in> set (call_inputs c)} \<and>
     outs \<subseteq> range (col_node_id (call_step c)) \<union> range (output_node_id (call_step c))"
  by (cases c; simp only: apply_call.simps call_step.simps call_inputs.simps;
      intro exI conjI, rule record_op_intros) auto

lemma calls_acyclic:
  assumes "wf g" "acyclic (nx_rel nx g)" "Domain (nx_rel nx g) \<subseteq> origins (set seen)"
    "\<forall>s \<in> set seen. CHR '':'' \<notin> set s" "calls_ordered seen cs"
  shows "wf (fold (apply_call nx) cs g) \<and> acyclic (nx_rel nx (fold (apply_call nx) cs g))"
  using assms
proof (induction cs arbitrary: g seen)
  case Nil
  then show ?case by simp
next
  case (Cons c cs)
  let ?s = "call_step c"
  from apply_call_record_op [of c] obtain ins outs where rop: "record_op nx wf (apply_call nx c) ?s ins outs"
    and ins: "ins \<subseteq> range file_node_id \<union> {col_node_id i k | i k. i \<in> set (call_inputs c)}"
    and outs: "outs \<subseteq> range (col_node_id ?s) \<union> range (output_node_id ?s)" by blast
  let ?seen = "call_inputs c @ seen"
  from Cons.prems(5) have s: "CHR '':'' \<notin> set ?s" "?s \<notin> set ?seen"
    and free: "\<forall>s \<in> set ?seen. CHR '':'' \<notin> set s" and rest: "calls_ordered (?s # ?seen) cs"
    using Cons.prems(4) by auto
  have other: "col_node_id i k \<noteq> col_node_id ?s k'" if "i \<in> set ?seen" for i k k'
    using that s free by (auto simp: col_node_id_eq_iff)
  have "insert (step_node_id ?s) outs \<inter> origins (set seen) = {}"
    using outs s(2) other by (auto simp: origins_def)
  with Cons.prems(3) have fresh: "v \<in> insert (step_node_id ?s) outs \<Longrightarrow> (v, y) \<notin> nx_rel nx g" for v y
    by blast
  have "x \<notin> outs" if "x \<in> ins" for x
  proof
    assume "x \<in> outs"
    from subsetD [OF outs this] subsetD [OF ins that] other show False
      by auto metis
  qed
  then have ins': "ins \<inter> outs = {}" "step_node_id ?s \<notin> ins \<union> outs"
    using ins outs by auto
  have ac: "acyclic (nx_rel nx (apply_call nx c g))"
    by (rule record_op.acyclic_op [OF rop Cons.prems(1,2) fresh ins'(2,1)])
  have "origins (set seen) \<subseteq> origins (set ?seen)" by (auto simp: origins_def)
  moreover have "ins \<subseteq> origins (set ?seen)"
    by (rule order_trans [OF ins]) (auto simp: origins_def)
  ultimately have "Domain (nx_rel nx (apply_call nx c g)) \<subseteq> origins (set ?seen) \<union> {step_node_id ?s}"
    using Cons.prems(3) unfolding record_op.rel_op [OF rop Cons.prems(1)] by blast
  then have "Domain (nx_rel nx (apply_call nx c g)) \<subseteq> origins (set (?s # ?seen))"
    by (rule order_trans) (auto simp: origins_def)
  with ac show ?case
    using Cons.IH [of "apply_call nx c g" "?s # ?seen"] record_op.wf_op [OF rop Cons.prems(1)] s(1) free rest by simp
qed

lemma recorded_acyclic:
  assumes "calls_ordered [] cs"
  shows "wf (recorded nx cs)" "acyclic (nx_rel nx (recorded nx cs))"
  using calls_acyclic [of "nx_empty nx" "[]" cs] assms wf_empty edges_empty
  by (auto simp: recorded_def nx_rel_def acyclic_def)

end


section \<open>The layout\<close>

lemma AList_update_fresh: "k \<notin> fst ` set al \<Longrightarrow> AList.update k v al = al @ [(k, v)]"
  by (induction al) auto

lemma layer_map_snoc:
  "distinct (ns @ [n]) \<Longrightarrow> map fst (layer_map nx g ns) = ns \<Longrightarrow>
   layer_map nx g (ns @ [n]) = layer_map nx g ns @
     [(n, if nx_predecessors nx g n = [] then 0
          else Max (set (map (layer_of (layer_map nx g ns)) (nx_predecessors nx g n))) + 1)]"
  by (simp add: layer_map_def place_node_def Let_def) (metis AList_update_fresh list.set_map)

lemma layer_map_keys: "distinct ns \<Longrightarrow> map fst (layer_map nx g ns) = ns"
proof (induction ns rule: rev_induct)
  case Nil
  then show ?case by (simp add: layer_map_def)
next
  case (snoc n ns)
  then have "map fst (layer_map nx g ns) = ns" by simp
  with layer_map_snoc [of ns n nx g] snoc.prems show ?case by simp
qed

lemma layer_of_snoc: "m \<in> fst ` set lm \<Longrightarrow> layer_of (lm @ [(n, l)]) m = layer_of lm m"
  using map_of_eq_None_iff [of lm m] by (auto simp: layer_of_def map_add_def split: option.split)

lemma layer_of_last: "n \<notin> fst ` set lm \<Longrightarrow> layer_of (lm @ [(n, l)]) n = l"
  by (simp add: layer_of_def map_add_def map_of_eq_None_iff [symmetric] split: option.split)

text \<open>Along an edge the layer grows, for any order in which edges point forward.\<close>

lemma layers_increase:
  assumes "distinct ns" "v \<in> set ns" "u \<in> set (nx_predecessors nx g v)" "u \<in> set ns" "pos ns u < pos ns v"
  shows "layer_of (layer_map nx g ns) u < layer_of (layer_map nx g ns) v"
  using assms
proof (induction ns rule: rev_induct)
  case Nil
  then show ?case by simp
next
  case (snoc n ns)
  have keys: "map fst (layer_map nx g ns) = ns" using snoc.prems(1) by (simp add: layer_map_keys)
  note eq = layer_map_snoc [OF snoc.prems(1) keys]
  have keys': "fst ` set (layer_map nx g ns) = set ns" using keys by (metis list.set_map)
  have posn: "pos (ns @ [n]) x = pos ns x" if "x \<in> set ns" for x
    using that by (auto simp: pos_def takeWhile_append)
  have last: "pos (ns @ [n]) n = length ns"
    using snoc.prems(1) by (auto simp: pos_def takeWhile_append)
  have bound: "pos ns x \<le> length ns" for x
    by (simp add: pos_def length_takeWhile_le)
  have "u \<noteq> n"
  proof
    assume "u = n"
    with snoc.prems(5) last have "length ns < pos (ns @ [n]) v" by simp
    with snoc.prems(2) last posn bound [of v] show False by auto
  qed
  with snoc.prems(4) have u: "u \<in> set ns" by simp
  show ?case
  proof (cases "v = n")
    case True
    let ?P = "nx_predecessors nx g n"
    have "layer_of (layer_map nx g ns) u \<le> Max (set (map (layer_of (layer_map nx g ns)) ?P))"
      using snoc.prems(3) True by (intro Max_ge) auto
    moreover have "?P \<noteq> []" using snoc.prems(3) True by auto
    ultimately show ?thesis
      using True u snoc.prems(1) keys' by (simp add: eq layer_of_snoc layer_of_last)
  next
    case False
    with snoc.prems(2) have v: "v \<in> set ns" by simp
    with snoc u posn have "layer_of (layer_map nx g ns) u < layer_of (layer_map nx g ns) v" by simp
    with u v keys' show ?thesis by (simp add: eq layer_of_snoc)
  qed
qed

text \<open>Grouping by layer keeps every node once.\<close>

lemma fold_add_to_layer:
  "distinct (map fst (fold add_to_layer lm [])) \<and>
   (\<forall>l. map_of (fold add_to_layer lm []) l =
      (let ns = map fst (filter (\<lambda>nl. snd nl = l) lm) in if ns = [] then None else Some ns))"
proof (induction lm rule: rev_induct)
  case Nil
  then show ?case by simp
next
  case (snoc nl lm)
  then show ?case
    by (cases nl) (auto simp: add_to_layer_def distinct_update update_conv' Let_def)
qed


text \<open>The nodes of one layer, in the order they were placed.\<close>

definition layer_nodes :: "(string \<times> nat) list \<Rightarrow> nat \<Rightarrow> string list" where
  "layer_nodes lm l = map fst (filter (\<lambda>nl. snd nl = l) lm)"

lemma assign_layers_lookup:
  "(case map_of (assign_layers nx g order) l of None \<Rightarrow> [] | Some ns \<Rightarrow> ns) = layer_nodes (layer_map nx g order) l"
  using fold_add_to_layer [of "layer_map nx g order"]
  by (simp add: assign_layers_def layer_nodes_def Let_def)

lemma assign_layers_keys:
  "distinct (map fst (assign_layers nx g order))"
  "set (map fst (assign_layers nx g order)) = snd ` set (layer_map nx g order)"
proof -
  note f = fold_add_to_layer [of "layer_map nx g order", folded assign_layers_def]
  then show "distinct (map fst (assign_layers nx g order))" by blast
  have "l \<in> set (map fst (assign_layers nx g order)) \<longleftrightarrow> map_of (assign_layers nx g order) l \<noteq> None" for l
    by (simp add: map_of_eq_None_iff)
  also have "\<dots> l \<longleftrightarrow> l \<in> snd ` set (layer_map nx g order)" for l
    using f by (auto simp: Let_def filter_empty_conv)
  finally show "set (map fst (assign_layers nx g order)) = snd ` set (layer_map nx g order)" by blast
qed

lemma flow_node_fields:
  "flow_node nx g l (y, n) = Inr r \<Longrightarrow> rf_id r = n \<and> rf_x r = int l * 300 \<and> rf_y r = int y * 80"
  by (auto simp: flow_node_def Let_def layer_x_spacing_def node_y_spacing_def)

lemma position_layer_ids:
  assumes "position_layer nx g layers l = Inr rs"
    and "(case map_of layers l of None \<Rightarrow> [] | Some ns \<Rightarrow> ns) = ns"
  shows "map rf_id rs = ns" "\<forall>r \<in> set rs. rf_x r = int l * 300" "map rf_y rs = map (\<lambda>y. int y * 80) [0..<length ns]"
proof -
  have all2: "list_all2 (\<lambda>yn r. flow_node nx g l yn = Inr r) (enumerate 0 ns) rs"
    using assms by (simp add: position_layer_def mapE_Inr_iff)
  then have len: "length rs = length ns" by (auto dest: list_all2_lengthD)
  have "rf_id (rs ! k) = ns ! k \<and> rf_x (rs ! k) = int l * 300 \<and> rf_y (rs ! k) = int k * 80" if "k < length ns" for k
    using list_all2_nthD2 [OF all2, of k] that len
    by (auto simp: nth_enumerate_eq dest!: flow_node_fields)
  with len show "map rf_id rs = ns" "\<forall>r \<in> set rs. rf_x r = int l * 300"
    "map rf_y rs = map (\<lambda>y. int y * 80) [0..<length ns]"
    by (auto intro: nth_equalityI simp: in_set_conv_nth)
qed

lemma mapE_concat:
  assumes "mapE f xs = Inr yss" and "\<And>x ys. x \<in> set xs \<Longrightarrow> f x = Inr ys \<Longrightarrow> map h ys = k x"
  shows "map h (concat yss) = concat (map k xs)"
  using assms by (induction xs arbitrary: yss) auto

text \<open>The exported nodes: each node of the order once, in columns by layer.\<close>

lemma position_nodes_spec:
  assumes pn: "position_nodes nx g (assign_layers nx g order) = Inr rs" and "distinct order"
  shows "distinct (map rf_id rs)" "set (map rf_id rs) = set order"
    "\<forall>r \<in> set rs. rf_x r = int (layer_of (layer_map nx g order) (rf_id r)) * 300"
proof -
  let ?lm = "layer_map nx g order" and ?ks = "sort (map fst (assign_layers nx g order))"
  have keys: "map fst ?lm = order" using assms(2) by (rule layer_map_keys)
  have dk: "distinct (map fst ?lm)" using keys assms(2) by simp
  from pn obtain rss where rss: "mapE (position_layer nx g (assign_layers nx g order)) ?ks = Inr rss"
    and rs: "rs = concat rss" by (auto simp: position_nodes_def)
  have ids: "map rf_id rs = concat (map (layer_nodes ?lm) ?ks)"
    unfolding rs by (rule mapE_concat [OF rss]) (rule position_layer_ids(1) [OF _ assign_layers_lookup])
  have in_layer: "n \<in> set (layer_nodes ?lm l) \<longleftrightarrow> (n, l) \<in> set ?lm" for n l
    by (force simp: layer_nodes_def)
  have set_ks: "set ?ks = snd ` set ?lm" "distinct ?ks"
    using assign_layers_keys [of nx g order] by simp_all
  have dl: "distinct (layer_nodes ?lm l)" for l
    using dk by (simp add: layer_nodes_def distinct_map_filter)
  have same: "n \<in> set (layer_nodes ?lm l) \<Longrightarrow> n \<in> set (layer_nodes ?lm l') \<Longrightarrow> l = l'" for n l l'
    using dk by (auto simp: in_layer dest: eq_key_imp_eq_value)
  have "distinct (concat (map (layer_nodes ?lm) ls))" if "distinct ls" for ls
    using that by (induction ls) (auto simp: dl dest: same)
  with ids set_ks show "distinct (map rf_id rs)" by simp
  have "set (map rf_id rs) = (\<Union>l \<in> set ?ks. set (layer_nodes ?lm l))"
    unfolding ids by simp
  also have "\<dots> = fst ` set ?lm"
    unfolding set_ks(1) by (auto simp: in_layer) force+
  finally have "set (map rf_id rs) = fst ` set ?lm" .
  with keys show "set (map rf_id rs) = set order" by (metis list.set_map)
  show "\<forall>r \<in> set rs. rf_x r = int (layer_of ?lm (rf_id r)) * 300"
  proof
    fix r assume "r \<in> set rs"
    then obtain rl where "rl \<in> set rss" "r \<in> set rl" by (auto simp: rs)
    with mapE_Inr_set [OF rss] obtain l where l: "position_layer nx g (assign_layers nx g order) l = Inr rl"
      by blast
    note spec = position_layer_ids [OF l assign_layers_lookup]
    have "(rf_id r, l) \<in> set ?lm" using spec(1) \<open>r \<in> set rl\<close> in_layer by (metis image_eqI list.set_map)
    then have "layer_of ?lm (rf_id r) = l" using dk by (simp add: layer_of_def)
    with spec(2) \<open>r \<in> set rl\<close> show "rf_x r = int (layer_of ?lm (rf_id r)) * 300" by simp
  qed
qed


lemma position_nodes_apart:
  assumes "position_nodes nx g (assign_layers nx g order) = Inr rs"
  shows "distinct (map (\<lambda>r. (rf_x r, rf_y r)) rs)"
proof -
  let ?lm = "layer_map nx g order" and ?ks = "sort (map fst (assign_layers nx g order))"
  let ?cells = "\<lambda>l. map (\<lambda>y. (int l * 300, int y * 80)) [0..<length (layer_nodes ?lm l)]"
  from assms obtain rss where rss: "mapE (position_layer nx g (assign_layers nx g order)) ?ks = Inr rss"
    and rs: "rs = concat rss" by (auto simp: position_nodes_def)
  have "map (\<lambda>r. (rf_x r, rf_y r)) rl = ?cells l"
    if "position_layer nx g (assign_layers nx g order) l = Inr rl" for l rl
  proof -
    note spec = position_layer_ids [OF that assign_layers_lookup]
    have "map (\<lambda>r. (rf_x r, rf_y r)) rl = map (Pair (int l * 300)) (map rf_y rl)"
      using spec(2) by simp
    with spec(3) show ?thesis by simp
  qed
  then have cells: "map (\<lambda>r. (rf_x r, rf_y r)) rs = concat (map ?cells ?ks)"
    unfolding rs by (intro mapE_concat [OF rss])
  have "distinct (concat (map ?cells ls))" if "distinct ls" for ls
    using that by (induction ls) (auto simp: distinct_map inj_on_def)
  then show ?thesis using assign_layers_keys(1) [of nx g order] by (simp only: cells distinct_sort)
qed

context nx_digraph
begin

lemma topo_order_spec: "wf g \<Longrightarrow> distinct (topo_order nx g) \<and> set (topo_order nx g) = set (nx_nodes nx g)"
  using topological_sort_Some nodes_distinct by (auto simp: topo_order_def split: option.split)

lemma position_nodes_total:
  assumes wf: "wf g"
  shows "\<exists>rs. position_nodes nx g (assign_layers nx g (topo_order nx g)) = Inr rs"
proof -
  have "\<exists>rl. position_layer nx g (assign_layers nx g (topo_order nx g)) l = Inr rl" for l
    unfolding position_layer_def assign_layers_lookup
  proof (rule mapE_total)
    fix yn assume "yn \<in> set (enumerate 0 (layer_nodes (layer_map nx g (topo_order nx g)) l))"
    then have "snd yn \<in> set (layer_nodes (layer_map nx g (topo_order nx g)) l)"
      by (metis enumerate_eq_zip prod.collapse set_zip_rightD)
    then have "snd yn \<in> set (map fst (layer_map nx g (topo_order nx g)))" by (auto simp: layer_nodes_def)
    with topo_order_spec [OF wf] have "snd yn \<in> set (nx_nodes nx g)" by (simp only: layer_map_keys)
    with node_attrs_total [OF wf] show "\<exists>y. flow_node nx g l yn = Inr y"
      by (fastforce simp: flow_node_def Let_def split: prod.split)
  qed
  then obtain rss where "mapE (position_layer nx g (assign_layers nx g (topo_order nx g)))
      (sort (map fst (assign_layers nx g (topo_order nx g)))) = Inr rss"
    using mapE_total [of _ "position_layer nx g (assign_layers nx g (topo_order nx g))"] by meson
  then show ?thesis by (simp add: position_nodes_def)
qed

lemma edge_layers:
  assumes wf: "wf g" and ac: "acyclic (nx_rel nx g)" and e: "(u, v) \<in> nx_rel nx g"
  shows "layer_of (layer_map nx g (topo_order nx g)) u < layer_of (layer_map nx g (topo_order nx g)) v"
proof (rule layers_increase)
  obtain os where os: "nx_topological_sort nx g = Some os"
    using topological_sort_None [OF wf] ac by (cases "nx_topological_sort nx g") auto
  then have "forward_order (nx_rel nx g) (topo_order nx g)"
    using topological_sort_Some [OF wf os] by (simp add: topo_order_def)
  with e edges_nodes [OF wf] topo_order_spec [OF wf]
  show "pos (topo_order nx g) u < pos (topo_order nx g) v" "u \<in> set (topo_order nx g)" "v \<in> set (topo_order nx g)"
    by (auto simp: forward_order_def)
  show "distinct (topo_order nx g)" using topo_order_spec [OF wf] by blast
  show "u \<in> set (nx_predecessors nx g v)" using e predecessors_rel [OF wf] by auto
qed

lemma react_flow_nodes_spec:
  assumes wf: "wf g"
  shows "\<exists>rs. build_react_flow_nodes nx g = Inr rs \<and> distinct (map rf_id rs) \<and>
    set (map rf_id rs) = set (nx_nodes nx g) \<and> distinct (map (\<lambda>r. (rf_x r, rf_y r)) rs) \<and>
    (acyclic (nx_rel nx g) \<longrightarrow> (\<forall>r \<in> set rs. \<forall>r' \<in> set rs. (rf_id r, rf_id r') \<in> nx_rel nx g \<longrightarrow> rf_x r < rf_x r'))"
proof (cases "nx_nodes nx g = []")
  case True
  then show ?thesis by (intro exI [of _ "[]"]) (simp add: build_react_flow_nodes_def)
next
  case False
  let ?o = "topo_order nx g"
  from position_nodes_total [OF wf] obtain rs
    where rs: "position_nodes nx g (assign_layers nx g ?o) = Inr rs" by blast
  have o': "distinct ?o" "set ?o = set (nx_nodes nx g)" using topo_order_spec [OF wf] by blast+
  note spec = position_nodes_spec [OF rs o'(1)]
  have "rf_x r < rf_x r'" if "acyclic (nx_rel nx g)" "r \<in> set rs" "r' \<in> set rs" "(rf_id r, rf_id r') \<in> nx_rel nx g" for r r'
    using edge_layers [OF wf that(1,4)] spec(3) that(2,3) by simp
  with spec(1,2) o'(2) rs False position_nodes_apart [OF rs] show ?thesis
    by (intro exI [of _ rs]) (simp add: build_react_flow_nodes_def)
qed

end

text \<open>An attribute of a recorded node, with the default the queries use.\<close>

definition node_value :: "'g nx_ops \<Rightarrow> 'g \<Rightarrow> string \<Rightarrow> string \<Rightarrow> pyval" where
  "node_value nx g k n = get_or (case nx_attrs nx g n of None \<Rightarrow> [] | Some a \<Rightarrow> a) k (PStr [])"

context nx_digraph
begin

lemma projection_reaches:
  "wf g \<Longrightarrow> d \<in> set dropped \<Longrightarrow> k \<in> set kept \<Longrightarrow>
   (col_node_id i d, col_node_id s k) \<in> (nx_rel nx (record_projection nx s i kept dropped g))\<^sup>+"
  by (rule projection.input_reaches_output) simp_all

lemma classify_all:
  assumes wf: "wf g" and "set ds \<subseteq> set (nx_nodes nx g)"
  shows "foldE (classify_affected nx g) ds ia = Inr (ia
    \<lparr>ia_affected_steps := ia_affected_steps ia @ map (node_value nx g ''step_name'') (filter (has_type nx g ''step'') ds),
     ia_affected_output_columns := ia_affected_output_columns ia @ filter truthy (map (node_value nx g ''label'')
       (filter (\<lambda>n. has_type nx g ''output_column'' n \<or> has_type nx g ''output_file'' n) ds))\<rparr>)"
  using assms(2)
proof (induction ds arbitrary: ia)
  case Nil
  then show ?case by simp
next
  case (Cons d ds)
  then obtain a where a: "nx_attrs nx g d = Some a" using attrs_nodes [OF wf, of d] by auto
  from Cons show ?case
    by (simp add: classify_affected_def node_attrs_def a Let_def has_type_def node_value_def)
qed

end


section \<open>Properties\<close>

text \<open>A small run over the reference graph: load two columns, rename one, select the other.\<close>

definition sample_calls :: "record_call list" where
  "sample_calls = [RecordLoad ''f1'' ''f.csv'' ''a'' [''x'', ''y''] [],
     RecordRename ''b'' ''a'' [(''y'', ''z'')] [''x'', ''y''],
     RecordProjection ''c'' ''b'' [''x''] [''z'']]"

lemma sample_calls_ordered: "calls_ordered [] sample_calls"
  by (simp add: sample_calls_def)

lemma sample_graph_wf: "adj_wf (recorded adj_nx sample_calls)"
  by (rule adj.recorded_acyclic(1) [OF sample_calls_ordered])

lemma sample_nodes: "map fst (adj_node (recorded adj_nx sample_calls)) =
  [''file::f1'', ''step::a'', ''col::a::x'', ''col::a::y'', ''step::b'', ''col::b::x'', ''col::b::z'', ''step::c'', ''col::c::x'']"
  by code_simp

text \<open>Node identifiers of pipelines whose step names are valid identifiers never collide: a
  column node determines its step and its column, an output node its step and its file.\<close>

theorem node_ids_injective:
  assumes "is_valid_identifier s" and "is_valid_identifier s'"
  shows "(col_node_id s c = col_node_id s' c' \<longleftrightarrow> s = s' \<and> c = c') \<and>
    (output_node_id s f = output_node_id s' f' \<longleftrightarrow> s = s' \<and> f = f') \<and>
    (step_node_id s = step_node_id s' \<longleftrightarrow> s = s') \<and> col_node_id s c \<noteq> output_node_id s' f"
  using assms [THEN is_valid_identifier_no_colon]
  by (simp add: col_node_id_eq_iff output_node_id_eq_iff)

theorem node_ids_injective_witness: "col_node_id ''a'' ''b::c'' \<noteq> col_node_id ''b'' ''c''"
proof -
  have "is_valid_identifier ''a''" "is_valid_identifier ''b''" by code_simp+
  from node_ids_injective [OF this] show ?thesis by simp
qed

text \<open>The lineage graph of a run is acyclic: when step names have no colon, no step reads itself
  and no step is recorded under a name that an earlier call used, any sequence of the fourteen
  record methods leaves a graph without cycles, also when some steps were never recorded.\<close>

theorem lineage_graph_acyclic:
  assumes "nx_digraph nx gwf" and "calls_ordered [] calls"
  shows "acyclic (nx_rel nx (recorded nx calls))"
  by (rule nx_digraph.recorded_acyclic(2) [OF assms])

theorem lineage_graph_acyclic_witness: "acyclic (nx_rel adj_nx (recorded adj_nx sample_calls))"
  by (rule lineage_graph_acyclic [OF adj.nx_digraph_axioms sample_calls_ordered])

text \<open>C31.  \<^verbatim>\<open>get_column_ancestry\<close> of a recorded column always ends without an exception.  Its chain
  lists exactly the step nodes from which the column can be reached, each once, and on an acyclic
  graph no step of the chain comes before one of its own ancestors.\<close>

theorem get_column_ancestry_exact:
  assumes "nx_digraph nx gwf" and "gwf g" and "col_node_id s c \<in> set (nx_nodes nx g)"
  shows "\<exists>cl ns. get_column_ancestry nx g s c = Some (Inr cl) \<and> cl_column_name cl = c \<and>
    mapE (chain_step nx g) ns = Inr (cl_chain cl) \<and> cl_total_steps cl = length ns \<and> distinct ns \<and>
    set ns = {n. (n, col_node_id s c) \<in> (nx_rel nx g)\<^sup>* \<and> has_type nx g ''step'' n} \<and>
    (acyclic (nx_rel nx g) \<longrightarrow> sorted_wrt (\<lambda>m n. (n, m) \<notin> (nx_rel nx g)\<^sup>+) ns)"
  by (rule nx_digraph.get_column_ancestry_chain [OF assms])

theorem get_column_ancestry_exact_witness:
  "\<exists>cl. get_column_ancestry adj_nx (recorded adj_nx sample_calls) ''c'' ''x'' = Some (Inr cl) \<and>
     cl_column_name cl = ''x''"
proof -
  have "col_node_id ''c'' ''x'' \<in> set (nx_nodes adj_nx (recorded adj_nx sample_calls))"
    by (simp only: adj_nx_simps sample_nodes) (simp add: col_node_id_def sep_def)
  from get_column_ancestry_exact [OF adj.nx_digraph_axioms sample_graph_wf this] show ?thesis by blast
qed

text \<open>\<^verbatim>\<open>get_impact_analysis\<close> raises exactly when the column was never recorded; otherwise it
  lists the step names of exactly the step nodes, and the non-empty labels of exactly the output
  columns and output files, that can be reached from the column.\<close>

theorem get_impact_analysis_exact:
  assumes laws: "nx_digraph nx gwf" and wf: "gwf g"
  shows "case get_impact_analysis nx g s c of
      Inl e \<Rightarrow> col_node_id s c \<notin> set (nx_nodes nx g)
    | Inr ia \<Rightarrow> \<exists>ds. distinct ds \<and> set ds = {m. (col_node_id s c, m) \<in> (nx_rel nx g)\<^sup>+} - {col_node_id s c} \<and>
        col_node_id s c \<in> set (nx_nodes nx g) \<and>
        ia_affected_steps ia = map (node_value nx g ''step_name'') (filter (has_type nx g ''step'') ds) \<and>
        ia_affected_output_columns ia = filter truthy (map (node_value nx g ''label'')
          (filter (\<lambda>n. has_type nx g ''output_column'' n \<or> has_type nx g ''output_file'' n) ds))"
proof (cases "nx_descendants nx g (col_node_id s c)")
  case None
  then have "col_node_id s c \<notin> set (nx_nodes nx g)" using nx_digraph.descendants_None [OF laws wf] by blast
  with None show ?thesis by (simp add: get_impact_analysis_def)
next
  case (Some ds)
  note ds = nx_digraph.descendants_Some [OF laws wf Some]
  have "(nx_rel nx g)\<^sup>+ \<subseteq> set (nx_nodes nx g) \<times> set (nx_nodes nx g)"
    by (rule trancl_subset_Sigma [OF nx_digraph.edges_nodes [OF laws wf]])
  with ds have "set ds \<subseteq> set (nx_nodes nx g)" by auto
  from nx_digraph.classify_all [OF laws wf this] Some ds nx_digraph.descendants_None [OF laws wf, of "col_node_id s c"]
  show ?thesis by (auto simp: get_impact_analysis_def)
qed

theorem get_impact_analysis_exact_witness:
  "case get_impact_analysis adj_nx (recorded adj_nx sample_calls) ''a'' ''w'' of
     Inl e \<Rightarrow> True | Inr ia \<Rightarrow> False"
proof -
  have "col_node_id ''a'' ''w'' \<notin> set (nx_nodes adj_nx (recorded adj_nx sample_calls))"
    by (simp only: adj_nx_simps sample_nodes) (simp add: col_node_id_def sep_def)
  with get_impact_analysis_exact [OF adj.nx_digraph_axioms sample_graph_wf, of "''a''" "''w''"] show ?thesis
    by (auto split: sum.splits)
qed

text \<open>The React Flow export shows every node of the graph exactly once, no two at the same
  position, and on an acyclic graph every edge points strictly to the right.\<close>

theorem react_flow_layout:
  assumes "nx_digraph nx gwf" and "gwf g"
  shows "\<exists>rs. build_react_flow_nodes nx g = Inr rs \<and> distinct (map rf_id rs) \<and>
    set (map rf_id rs) = set (nx_nodes nx g) \<and> distinct (map (\<lambda>r. (rf_x r, rf_y r)) rs) \<and>
    (acyclic (nx_rel nx g) \<longrightarrow> (\<forall>r \<in> set rs. \<forall>r' \<in> set rs. (rf_id r, rf_id r') \<in> nx_rel nx g \<longrightarrow> rf_x r < rf_x r'))"
  by (rule nx_digraph.react_flow_nodes_spec [OF assms])

theorem react_flow_layout_witness:
  "\<exists>rs. build_react_flow_nodes adj_nx (recorded adj_nx sample_calls) = Inr rs \<and> length rs = 9"
proof -
  obtain rs where rs: "build_react_flow_nodes adj_nx (recorded adj_nx sample_calls) = Inr rs"
    "distinct (map rf_id rs)"
    "set (map rf_id rs) = set (nx_nodes adj_nx (recorded adj_nx sample_calls))"
    using react_flow_layout [OF adj.nx_digraph_axioms sample_graph_wf] by blast
  have "length rs = card (set (map rf_id rs))" using distinct_card [OF rs(2)] by simp
  also have "\<dots> = length (map fst (adj_node (recorded adj_nx sample_calls)))"
    unfolding rs(3) adj_nx_simps sample_nodes by simp
  finally show ?thesis using rs(1) by (simp only: sample_nodes) simp
qed

text \<open>A column that a select step drops is still reported to affect every column the step
  keeps: after \<^verbatim>\<open>record_projection\<close> each kept output can be reached from each dropped input,
  although its documentation says dropped columns are pruned from the graph.\<close>

theorem dropped_column_reaches_kept:
  assumes "nx_digraph nx gwf" and "gwf g" and "d \<in> set dropped" and "k \<in> set kept"
  shows "(col_node_id i d, col_node_id s k) \<in> (nx_rel nx (record_projection nx s i kept dropped g))\<^sup>+"
  by (rule nx_digraph.projection_reaches [OF assms])

theorem dropped_column_reaches_kept_witness:
  "(col_node_id ''b'' ''z'', col_node_id ''c'' ''x'') \<in>
     (nx_rel adj_nx (record_projection adj_nx ''c'' ''b'' [''x''] [''z''] (nx_empty adj_nx)))\<^sup>+"
  by (rule dropped_column_reaches_kept [OF adj.nx_digraph_axioms adj.wf_empty]) simp_all

text \<open>The source column of a renamed column can be wrong: after loading the columns
  \<^verbatim>\<open>x\<close> and \<^verbatim>\<open>y\<close> and renaming \<^verbatim>\<open>y\<close> to \<^verbatim>\<open>z\<close>, the ancestry of \<^verbatim>\<open>z\<close> names \<^verbatim>\<open>x\<close> as its source, the
  first column of the file.\<close>

theorem renamed_column_wrong_source:
  "map_option (\<lambda>r. bindE r (\<lambda>cl. Inr (cl_source_file cl, cl_source_column cl)))
     (get_column_ancestry adj_nx (recorded adj_nx sample_calls) ''b'' ''z'') =
   Some (Inr (PStr ''f.csv'', PStr ''x''))"
  by code_simp

end
