(* ===== verification/ColumnSecurity.thy ===== *)
theory ColumnSecurity
  imports PyNum
begin

text \<open>
  \<^verbatim>\<open>backend/security/column_security.py\<close>: redaction and masking of the columns of a data frame.
  A data frame is the list of its columns with their cells; \<^verbatim>\<open>None\<close> and NaN are missing values.
  The cache and the database behind \<^verbatim>\<open>get_column_policies_for_file\<close> are not modelled.
\<close>

section \<open>Definitions\<close>

record column_policy_record =
  cp_column_name :: string
  cp_policy :: string
  cp_mask_pattern :: "string option"
  cp_allowed_roles :: "string list"

type_synonym frame = "(string \<times> pyval list) list"

definition notna :: "pyval \<Rightarrow> bool" where
  "notna v = (case v of PNone \<Rightarrow> False | PFloat r q \<Rightarrow> r \<noteq> ''nan'' | _ \<Rightarrow> True)"

definition stars :: string where "stars = ''***''"

definition digits_of :: "string \<Rightarrow> string" where
  "digits_of s = filter is_digit s"

definition last_four :: "string \<Rightarrow> string" where
  "last_four s = drop (length s - 4) s"

text \<open>\<^verbatim>\<open>value[:n]\<close>: a negative bound counts from the end.\<close>

definition slice_to :: "string \<Rightarrow> int \<Rightarrow> string" where
  "slice_to s n = (if n < 0 then take (nat (int (length s) + n)) s else take (nat n) s)"

text \<open>What is shown when no pattern applies.\<close>

definition default_mask :: "string \<Rightarrow> string" where
  "default_mask value = (if length value \<le> 3 then stars else take 2 value @ stars @ [last value])"

definition custom_prefix :: string where "custom_prefix = ''custom:''"

text \<open>\<^verbatim>\<open>int(pattern.split(":")[1])\<close>; a \<^verbatim>\<open>ValueError\<close> falls through to the default.\<close>

definition custom_count :: "string \<Rightarrow> int result" where
  "custom_count pattern =
     (case split_on (CHR '':'') pattern of
        _ # n # _ \<Rightarrow> py_int (PStr n)
      | _ \<Rightarrow> Inl IndexError)"

definition apply_mask :: "string \<Rightarrow> string \<Rightarrow> string" where
  "apply_mask value pattern =
     (if value = [] then value
      else if pattern = ''email'' then
        (case split_on (CHR ''@'') value of
           [local, domain] \<Rightarrow> (if local \<noteq> [] then [hd local] @ stars @ ''@'' @ domain else stars @ ''@'' @ domain)
         | _ \<Rightarrow> [hd value] @ stars)
      else if pattern = ''phone'' then
        (if 4 \<le> length (digits_of value) then ''***-***-'' @ last_four (digits_of value) else stars)
      else if pattern = ''credit_card'' then
        (if 4 \<le> length (digits_of value) then ''****-****-****-'' @ last_four (digits_of value) else ''****'')
      else if pattern = ''ssn'' then
        (if 4 \<le> length (digits_of value) then ''***-**-'' @ last_four (digits_of value) else ''***-**-****'')
      else if pattern = ''name'' then [hd value] @ stars
      else if starts_with pattern custom_prefix then
        (case custom_count pattern of Inr n \<Rightarrow> slice_to value n @ stars | Inl _ \<Rightarrow> default_mask value)
      else default_mask value)"

definition mask_cell :: "string \<Rightarrow> pyval \<Rightarrow> pyval" where
  "mask_cell pattern v = (if notna v then PStr (apply_mask (py_str v) pattern) else v)"

definition policy_pattern :: "column_policy_record \<Rightarrow> string" where
  "policy_pattern pol = (case cp_mask_pattern pol of None \<Rightarrow> ''default'' | Some p \<Rightarrow> if p = [] then ''default'' else p)"

definition apply_policy :: "string \<Rightarrow> column_policy_record \<Rightarrow> frame \<Rightarrow> frame" where
  "apply_policy user_role pol df =
     (let col = cp_column_name pol in
      if col \<notin> set (map fst df) then df
      else if user_role \<in> set (cp_allowed_roles pol) then df
      else if cp_policy pol = ''redacted'' then filter (\<lambda>(c, cells). c \<noteq> col) df
      else if cp_policy pol = ''masked'' then
        map (\<lambda>(c, cells). (c, if c = col then map (mask_cell (policy_pattern pol)) cells else cells)) df
      else df)"

definition apply_column_policies :: "frame \<Rightarrow> string \<Rightarrow> column_policy_record list \<Rightarrow> frame" where
  "apply_column_policies df user_role policies = fold (apply_policy user_role) policies df"


section \<open>Policies and columns\<close>

lemma apply_policy_lookup:
  "map_of (apply_policy role pol df) c =
     (if c \<noteq> cp_column_name pol \<or> role \<in> set (cp_allowed_roles pol) then map_of df c
      else if cp_policy pol = ''redacted'' then None
      else if cp_policy pol = ''masked'' then map_option (map (mask_cell (policy_pattern pol))) (map_of df c)
      else map_of df c)"
proof -
  have drop: "map_of (filter (\<lambda>(k, cells). k \<noteq> d) df) e = (if e = d then None else map_of df e)" for d e
    by (induction df) auto
  have mask: "map_of (map (\<lambda>(k, cells). (k, if k = d then f cells else cells)) df) e =
      (if e = d then map_option f (map_of df e) else map_of df e)" for d e f
    by (induction df) auto
  have absent: "cp_column_name pol \<notin> fst ` set df \<Longrightarrow> map_of df (cp_column_name pol) = None"
    by (simp add: map_of_eq_None_iff)
  show ?thesis
    by (cases "cp_column_name pol \<in> fst ` set df") (simp_all add: apply_policy_def Let_def drop mask absent)
qed

lemma policies_other:
  "\<forall>pol \<in> set pols. cp_column_name pol \<noteq> c \<Longrightarrow> map_of (apply_column_policies df role pols) c = map_of df c"
  by (induction pols arbitrary: df) (auto simp: apply_column_policies_def apply_policy_lookup)

lemma policies_absent:
  "map_of df c = None \<Longrightarrow> map_of (apply_column_policies df role pols) c = None"
proof (induction pols arbitrary: df)
  case Nil
  then show ?case by (simp add: apply_column_policies_def)
next
  case (Cons pol pols)
  then have "map_of (apply_policy role pol df) c = None" by (auto simp: apply_policy_lookup)
  from Cons.IH [OF this] show ?case by (simp add: apply_column_policies_def)
qed

lemma apply_column_policies_split:
  "apply_column_policies df role (ps @ pol # qs) =
     apply_column_policies (apply_policy role pol (apply_column_policies df role ps)) role qs"
  by (simp add: apply_column_policies_def)

section \<open>What a mask shows\<close>

text \<open>The characters of a masked value that are not fill characters.\<close>

definition revealed :: "string \<Rightarrow> string" where
  "revealed s = filter (\<lambda>c. c \<noteq> CHR ''*'' \<and> c \<noteq> CHR ''-'') s"

lemma length_revealed: "length (revealed s) \<le> length s"
  by (simp add: revealed_def)

lemma revealed_append [simp]: "revealed (s @ t) = revealed s @ revealed t"
  by (simp add: revealed_def)

lemma revealed_Cons [simp]:
  "revealed [] = []" "revealed (c # s) = (if c = CHR ''*'' \<or> c = CHR ''-'' then revealed s else c # revealed s)"
  by (simp_all add: revealed_def)

lemma revealed_stars [simp]: "revealed stars = []"
  by (simp add: stars_def)

lemma revealed_last_four: "length (revealed (last_four s)) \<le> 4"
  using length_revealed [of "last_four s"] by (simp add: last_four_def)

lemma revealed_default: "length (revealed (default_mask s)) \<le> 3"
  using length_revealed [of "take 2 s"] length_revealed [of "[last s]"] by (simp add: default_mask_def)

lemma redacted_gone:
  assumes "pol \<in> set policies" and "cp_policy pol = ''redacted''" and "role \<notin> set (cp_allowed_roles pol)"
  shows "cp_column_name pol \<notin> set (map fst (apply_column_policies df role policies))"
proof -
  from assms(1) obtain ps qs where split: "policies = ps @ pol # qs" by (meson split_list)
  have "map_of (apply_policy role pol (apply_column_policies df role ps)) (cp_column_name pol) = None"
    using assms(2,3) by (simp add: apply_policy_lookup)
  then have "map_of (apply_column_policies df role policies) (cp_column_name pol) = None"
    unfolding split apply_column_policies_split by (rule policies_absent)
  then show ?thesis by (simp add: map_of_eq_None_iff)
qed

section \<open>Properties\<close>

text \<open>A redacted column is gone: whatever the other policies are and in whatever order they come,
  a role outside \<^verbatim>\<open>allowed_roles\<close> never gets the column.\<close>

theorem redacted_column_removed:
  assumes "pol \<in> set policies" and "cp_policy pol = ''redacted''" and "role \<notin> set (cp_allowed_roles pol)"
  shows "cp_column_name pol \<notin> set (map fst (apply_column_policies df role policies))"
  by (rule redacted_gone [OF assms])

definition demo_policies :: "column_policy_record list" where
  "demo_policies =
     [\<lparr>cp_column_name = ''ssn'', cp_policy = ''redacted'', cp_mask_pattern = None, cp_allowed_roles = [''admin'']\<rparr>,
      \<lparr>cp_column_name = ''mail'', cp_policy = ''masked'', cp_mask_pattern = Some ''email'', cp_allowed_roles = []\<rparr>]"

theorem redacted_column_removed_witness:
  "''ssn'' \<notin> set (map fst (apply_column_policies [(''ssn'', [PStr ''1'']), (''mail'', [PNone])] ''viewer'' demo_policies))"
  using redacted_column_removed [of "hd demo_policies" demo_policies "''viewer''"]
  by (simp add: demo_policies_def)

text \<open>With at most one policy per column, as the table guarantees, the result is exact for every
  column: without a policy, or for an allowed role, it is the original; a redacted column is
  gone; in a masked column every present cell is masked and every missing one stays missing.\<close>

theorem apply_column_policies_exact:
  assumes "distinct (map cp_column_name policies)" and "pol \<in> set policies"
  shows "map_of (apply_column_policies df role policies) (cp_column_name pol) =
      (if role \<in> set (cp_allowed_roles pol) then map_of df (cp_column_name pol)
       else if cp_policy pol = ''redacted'' then None
       else if cp_policy pol = ''masked''
         then map_option (map (mask_cell (policy_pattern pol))) (map_of df (cp_column_name pol))
       else map_of df (cp_column_name pol)) \<and>
    (\<forall>c. c \<in> set (map cp_column_name policies) \<or> map_of (apply_column_policies df role policies) c = map_of df c)"
proof (intro conjI allI)
  from assms(2) obtain ps qs where split: "policies = ps @ pol # qs" by (meson split_list)
  let ?c = "cp_column_name pol"
  have ps: "\<forall>p \<in> set ps. cp_column_name p \<noteq> ?c" and qs: "\<forall>p \<in> set qs. cp_column_name p \<noteq> ?c"
    using assms(1) unfolding split by (auto, metis image_eqI, metis image_eqI)
  show "map_of (apply_column_policies df role policies) ?c =
      (if role \<in> set (cp_allowed_roles pol) then map_of df ?c
       else if cp_policy pol = ''redacted'' then None
       else if cp_policy pol = ''masked'' then map_option (map (mask_cell (policy_pattern pol))) (map_of df ?c)
       else map_of df ?c)"
    by (simp add: split apply_column_policies_split policies_other [OF qs] apply_policy_lookup policies_other [OF ps])
next
  fix c
  show "c \<in> set (map cp_column_name policies) \<or> map_of (apply_column_policies df role policies) c = map_of df c"
    using policies_other [of policies c df role] by auto
qed

theorem apply_column_policies_exact_witness:
  "map_of (apply_column_policies [(''mail'', [PStr ''bob@x.io'', PNone])] ''viewer'' demo_policies) ''mail'' =
     Some [PStr ''b***@x.io'', PNone]"
proof -
  have mask: "map (mask_cell ''email'') [PStr ''bob@x.io'', PNone] = [PStr ''b***@x.io'', PNone]" by code_simp
  have "distinct (map cp_column_name demo_policies)" by (simp add: demo_policies_def)
  from apply_column_policies_exact [OF this, of "demo_policies ! 1" "[(''mail'', [PStr ''bob@x.io'', PNone])]" "''viewer''"] mask
  show ?thesis by (simp add: demo_policies_def policy_pattern_def)
qed

text \<open>Apart from the email and custom patterns a mask shows at most four characters of the value,
  however long it is.\<close>

theorem mask_reveals_at_most_four:
  assumes "pattern \<noteq> ''email''" and "\<not> starts_with pattern custom_prefix" and "val \<noteq> []"
  shows "length (revealed (apply_mask val pattern)) \<le> 4"
proof -
  have "length (revealed [hd val]) \<le> 1" using length_revealed [of "[hd val]"] by simp
  with assms revealed_last_four [of "digits_of val"] revealed_default [of val] show ?thesis
    by (simp add: apply_mask_def)
qed

theorem mask_reveals_at_most_four_witness:
  "length (revealed (apply_mask ''4111 1111 1111 1234'' ''credit_card'')) \<le> 4"
  by (rule mask_reveals_at_most_four) (simp_all add: custom_prefix_def starts_with_def)

text \<open>A custom mask whose count exceeds the length of the value obscures nothing: the value is
  shown in full, followed by the stars.\<close>

theorem custom_mask_shows_short_values:
  "apply_mask ''secret'' ''custom:10'' = ''secret'' @ stars"
  by code_simp

end
