(* ===== verification/StepErrors.thy ===== *)
theory StepErrors
  imports StringUtils SqlScan
begin

text \<open>
  The step errors of \<^verbatim>\<open>backend/pipeline/exceptions.py\<close>: what each one stores, its message with the
  suggested name, and its \<^verbatim>\<open>to_dict\<close> payload.  The runner only sees a step error as its step name
  and its text (\<open>raised\<close>).  \<^verbatim>\<open>StepTimeoutError\<close>, which nothing raises, is left out.
\<close>

section \<open>Definitions\<close>

datatype step_error =
    ColumnNotFoundError (err_name: string) (err_column: string) (err_available: "string list")
  | InvalidOperatorError (err_name: string) (err_operator: string) (err_valid: "string list")
  | JoinKeyMissingError (err_name: string) (err_key: string) (err_side: string) (err_available: "string list")
  | AggregationError (err_name: string) (err_column: string) (err_function: string) (err_reason: string)
  | FileReadError (err_name: string) (err_path: string) (err_reason: string)
  | UnsupportedFileFormatError (err_name: string) (err_path: string) (err_extension: string) (err_supported: "string list")
  | FilterTypeMismatchError (err_name: string) (err_column: string) (err_dtype: string) (err_value: pyval) (err_operator: string)
  | RenameConflictError (err_name: string) (err_targets: "string list") (err_conflicts: "string list")

definition in_quotes :: "string \<Rightarrow> string" where
  "in_quotes s = [sq] @ s @ [sq]"

definition find_closest_match :: "string \<Rightarrow> string list \<Rightarrow> string option" where
  "find_closest_match target candidates = find_closest_column target candidates"

text \<open>A suggestion is used if it is a non-empty text.\<close>

definition hint :: "string option \<Rightarrow> string" where
  "hint sug = (case sug of None \<Rightarrow> [] | Some s \<Rightarrow> if s = [] then [] else '' Did you mean '' @ in_quotes s @ ''?'')"

fun suggestion :: "step_error \<Rightarrow> string option" where
  "suggestion (ColumnNotFoundError sn col cols) = find_closest_match col cols"
| "suggestion (JoinKeyMissingError sn key side cols) = find_closest_match key cols"
| "suggestion _ = None"

text \<open>\<^verbatim>\<open>type(value).__name__\<close>.\<close>

definition type_name :: "pyval \<Rightarrow> string" where
  "type_name v = (case v of PNone \<Rightarrow> ''NoneType'' | PBool _ \<Rightarrow> ''bool'' | PInt _ \<Rightarrow> ''int'' | PFloat _ _ \<Rightarrow> ''float''
     | PStr _ \<Rightarrow> ''str'' | PList _ \<Rightarrow> ''list'' | PDict _ \<Rightarrow> ''dict'')"

fun detail :: "step_error \<Rightarrow> string" where
  "detail (ColumnNotFoundError sn col cols) =
     ''Column '' @ in_quotes col @ '' not found. Available columns: '' @ repr_strs cols @ ''.'' @
     hint (find_closest_match col cols)"
| "detail (InvalidOperatorError sn op valid) =
     ''Invalid operator '' @ in_quotes op @ ''. Valid operators: '' @ repr_strs valid"
| "detail (JoinKeyMissingError sn key side cols) =
     ''Join key '' @ in_quotes key @ '' not found in '' @ side @ '' DataFrame. Available columns: '' @
     repr_strs cols @ ''.'' @ hint (find_closest_match key cols)"
| "detail (AggregationError sn col func reason) =
     ''Aggregation '' @ in_quotes func @ '' on column '' @ in_quotes col @ '' failed: '' @ reason"
| "detail (FileReadError sn path reason) = ''Failed to read file '' @ in_quotes path @ '': '' @ reason"
| "detail (UnsupportedFileFormatError sn path ext supported) =
     ''Unsupported file format '' @ in_quotes ext @ '' for '' @ in_quotes path @ ''. Supported formats: '' @
     repr_strs supported"
| "detail (FilterTypeMismatchError sn col dtype v op) =
     ''Cannot apply filter '' @ in_quotes op @ '' on column '' @ in_quotes col @ '' (dtype='' @ dtype @
     '') with value '' @ in_quotes (py_str v) @ '' (type='' @ type_name v @
     ''). Check that the filter value type is compatible with the column type.''"
| "detail (RenameConflictError sn targets conflicts) =
     ''Rename would create duplicate column names: '' @ repr_strs (sort conflicts) @
     ''. The new names conflict with existing columns that are not being renamed.''"

definition error_message :: "step_error \<Rightarrow> string" where
  "error_message e = ''Step '' @ in_quotes (err_name e) @ '': '' @ detail e"

fun error_type :: "step_error \<Rightarrow> string" where
  "error_type (ColumnNotFoundError sn col cols) = ''ColumnNotFoundError''"
| "error_type (InvalidOperatorError sn op valid) = ''InvalidOperatorError''"
| "error_type (JoinKeyMissingError sn key side cols) = ''JoinKeyMissingError''"
| "error_type (AggregationError sn col func reason) = ''AggregationError''"
| "error_type (FileReadError sn path reason) = ''FileReadError''"
| "error_type (UnsupportedFileFormatError sn path ext supported) = ''UnsupportedFileFormatError''"
| "error_type (FilterTypeMismatchError sn col dtype v op) = ''FilterTypeMismatchError''"
| "error_type (RenameConflictError sn targets conflicts) = ''RenameConflictError''"

definition texts_value :: "string list \<Rightarrow> pyval" where
  "texts_value ss = PList (map PStr ss)"

definition option_value :: "string option \<Rightarrow> pyval" where
  "option_value t = (case t of None \<Rightarrow> PNone | Some s \<Rightarrow> PStr s)"

fun extra_fields :: "step_error \<Rightarrow> (string \<times> pyval) list" where
  "extra_fields (ColumnNotFoundError sn col cols) =
     [(''column'', PStr col), (''available_columns'', texts_value cols),
      (''suggestion'', option_value (find_closest_match col cols))]"
| "extra_fields (InvalidOperatorError sn op valid) =
     [(''operator'', PStr op), (''valid_operators'', texts_value valid)]"
| "extra_fields (JoinKeyMissingError sn key side cols) =
     [(''join_key'', PStr key), (''side'', PStr side), (''available_columns'', texts_value cols),
      (''suggestion'', option_value (find_closest_match key cols))]"
| "extra_fields (AggregationError sn col func reason) =
     [(''column'', PStr col), (''function'', PStr func), (''reason'', PStr reason)]"
| "extra_fields (FileReadError sn path reason) = [(''file_path'', PStr path), (''reason'', PStr reason)]"
| "extra_fields (UnsupportedFileFormatError sn path ext supported) =
     [(''file_path'', PStr path), (''extension'', PStr ext), (''supported_extensions'', texts_value supported)]"
| "extra_fields (FilterTypeMismatchError sn col dtype v op) =
     [(''column'', PStr col), (''column_dtype'', PStr dtype), (''filter_value'', v), (''filter_operator'', PStr op)]"
| "extra_fields (RenameConflictError sn targets conflicts) =
     [(''target_names'', texts_value (sort targets)), (''conflict_names'', texts_value (sort conflicts))]"

definition error_to_dict :: "step_error \<Rightarrow> pydict" where
  "error_to_dict e = map (\<lambda>(k, v). (PStr k, v))
     ([(''error_type'', PStr (error_type e)), (''message'', PStr (error_message e)), (''step_name'', PStr (err_name e))] @
      extra_fields e)"

text \<open>The error as the code above the executors sees it.\<close>

definition raised :: "step_error \<Rightarrow> pyexn" where
  "raised e = StepExecutionError (err_name e) (error_message e)"


section \<open>Payloads\<close>

lemma dict_get_texts: "dict_get (map (\<lambda>(k, v). (PStr k, v)) kvs) (PStr k) = map_of kvs k"
  by (induction kvs) auto

lemma raised_step_error [simp]: "\<exists>sn msg. raised e = StepExecutionError sn msg"
  by (simp add: raised_def)

end
