(* ===== verification/SaveStep.thy ===== *)
theory SaveStep
  imports StringUtils
begin

text \<open>
  \<^verbatim>\<open>backend/execution/steps/save_step.py\<close>: the name, the format and the object key of a saved
  output, and the upload.  Serialising a table, the object store and the signing of download links are
  the fields of \<open>store_ops\<close>; a call may fail with an \<^verbatim>\<open>ImportError\<close>, which the caller treats differently,
  or with another exception.
\<close>

section \<open>Paths\<close>

text \<open>\<^verbatim>\<open>Path(p).name\<close>, \<^verbatim>\<open>Path(p).suffix\<close> and \<^verbatim>\<open>Path(p).stem\<close>.\<close>

definition path_name :: "string \<Rightarrow> string" where
  "path_name p = (case filter (\<lambda>c. c \<noteq> [] \<and> c \<noteq> ''.'') (split_on (CHR ''/'') p) of [] \<Rightarrow> [] | cs \<Rightarrow> last cs)"

definition path_suffix :: "string \<Rightarrow> string" where
  "path_suffix p =
     (let n = path_name p; ext = rev (takeWhile (\<lambda>c. c \<noteq> CHR ''.'') (rev n)) in
      if length ext < length n \<and> ext \<noteq> [] \<and> length ext + 1 < length n then CHR ''.'' # ext else [])"

definition path_stem :: "string \<Rightarrow> string" where
  "path_stem p = take (length (path_name p) - length (path_suffix p)) (path_name p)"

section \<open>Definitions\<close>

datatype save_failure = ImportFailure | Failure string

type_synonym 'a attempt = "save_failure + 'a"

record 't store_ops =
  store_importable :: bool
  serialize_csv :: "'t \<Rightarrow> string attempt"
  serialize_json :: "'t \<Rightarrow> string attempt"
  serialize_parquet :: "'t \<Rightarrow> string attempt"
  uuid_hex :: string
  put_object :: "string \<Rightarrow> string \<Rightarrow> string \<Rightarrow> (string \<times> string) list \<Rightarrow> unit attempt"
  presigned_url :: "string \<Rightarrow> int \<Rightarrow> string attempt"
  table_rows :: "'t \<Rightarrow> int"

record save_result =
  sv_filename :: string
  sv_download_url :: string
  sv_size_bytes :: int
  sv_row_count :: int
  sv_format :: string
  sv_object_name :: string
  sv_content_type :: string

definition supported_extensions :: "string list" where
  "supported_extensions = [''csv'', ''json'', ''parquet'']"

definition download_url_expiry :: int where
  "download_url_expiry = 48 * 3600"

definition bind_attempt :: "'a attempt \<Rightarrow> ('a \<Rightarrow> 'b attempt) \<Rightarrow> 'b attempt" where
  "bind_attempt m f = (case m of Inl e \<Rightarrow> Inl e | Inr x \<Rightarrow> f x)"

definition resolve_filename :: "string \<Rightarrow> string \<Rightarrow> string" where
  "resolve_filename filename run_id = (if filename = [] then ''output_'' @ take 8 run_id @ ''.csv'' else filename)"

definition resolve_extension :: "string \<Rightarrow> string" where
  "resolve_extension filename =
     (let ext = dropWhile (\<lambda>c. c = CHR ''.'') (py_lower (path_suffix filename)) in
      if ext = [] \<or> ext \<notin> set supported_extensions then ''csv'' else ext)"

definition ensure_extension :: "string \<Rightarrow> string \<Rightarrow> string" where
  "ensure_extension filename ext = path_stem filename @ ''.'' @ ext"

definition serialize :: "'t store_ops \<Rightarrow> 't \<Rightarrow> string \<Rightarrow> (string \<times> string) attempt" where
  "serialize ops t ext =
     (if ext = ''csv'' then bind_attempt (serialize_csv ops t) (\<lambda>c. Inr (c, ''text/csv''))
      else if ext = ''json'' then bind_attempt (serialize_json ops t) (\<lambda>c. Inr (c, ''application/json''))
      else if ext = ''parquet'' then bind_attempt (serialize_parquet ops t) (\<lambda>c. Inr (c, ''application/octet-stream''))
      else Inl (Failure (''Unsupported format: '' @ ext)))"

text \<open>The file name an output gets, and its key in the bucket.\<close>

definition output_filename_for :: "string \<Rightarrow> string \<Rightarrow> string" where
  "output_filename_for filename run_id =
     (let f = resolve_filename filename run_id in ensure_extension f (resolve_extension f))"

definition object_name_for :: "string \<Rightarrow> string \<Rightarrow> string" where
  "object_name_for run_id filename = ''outputs/'' @ run_id @ ''/'' @ filename"

definition execute_save_step :: "'t store_ops \<Rightarrow> 't \<Rightarrow> string \<Rightarrow> string \<Rightarrow> save_result attempt" where
  "execute_save_step ops t filename run_id0 =
     (let f = resolve_filename filename run_id0; ext = resolve_extension f; name = ensure_extension f ext;
          run_id = (if run_id0 = [] then uuid_hex ops else run_id0)
      in bind_attempt (serialize ops t ext) (\<lambda>(content, content_type).
         let object_name = object_name_for run_id name in
         bind_attempt (put_object ops object_name content content_type
             [(''run-id'', run_id), (''row-count'', int_str (table_rows ops t)), (''format'', ext)]) (\<lambda>_.
         bind_attempt (presigned_url ops object_name download_url_expiry) (\<lambda>url.
           Inr \<lparr>sv_filename = name, sv_download_url = url, sv_size_bytes = int (length content),
                sv_row_count = table_rows ops t, sv_format = ext, sv_object_name = object_name,
                sv_content_type = content_type\<rparr>))))"

definition refresh_download_url :: "'t store_ops \<Rightarrow> string \<Rightarrow> string attempt" where
  "refresh_download_url ops object_name = presigned_url ops object_name download_url_expiry"

section \<open>Names of outputs\<close>

lemma bind_attempt_Inr: "bind_attempt m f = Inr y \<longleftrightarrow> (\<exists>x. m = Inr x \<and> f x = Inr y)"
  by (cases m) (auto simp: bind_attempt_def)

lemma split_on_none: "d \<notin> set s \<Longrightarrow> split_on d s = [s]"
  by (induction s) auto

lemma split_on_append: "d \<notin> set s \<Longrightarrow> split_on d (s @ d # t) = s # split_on d t"
  by (induction s) auto

lemma path_name_plain: "CHR ''/'' \<notin> set f \<Longrightarrow> path_name f = (if f = ''.'' then [] else f)"
  by (simp add: path_name_def split_on_none)

lemma last_dot:
  assumes "CHR ''.'' \<in> set n"
  shows "\<exists>ds. n = ds @ CHR ''.'' # rev (takeWhile (\<lambda>c. c \<noteq> CHR ''.'') (rev n))"
  using assms
proof (induction n rule: rev_induct)
  case (snoc x n)
  then show ?case by (cases "x = CHR ''.''") auto
qed simp

lemma path_suffix_cases:
  obtains "path_suffix p = []" "path_stem p = path_name p"
  | ext where "path_suffix p = CHR ''.'' # ext" "ext \<noteq> []" "CHR ''.'' \<notin> set ext" "path_stem p \<noteq> []"
      "path_name p = path_stem p @ CHR ''.'' # ext"
proof -
  define n e where "n = path_name p" and "e = rev (takeWhile (\<lambda>c. c \<noteq> CHR ''.'') (rev n))"
  have suf: "path_suffix p = (if length e < length n \<and> e \<noteq> [] \<and> length e + 1 < length n then CHR ''.'' # e else [])"
    by (simp add: path_suffix_def Let_def n_def e_def)
  show ?thesis
  proof (cases "length e < length n \<and> e \<noteq> [] \<and> length e + 1 < length n")
    case True
    have "CHR ''.'' \<in> set n"
    proof (rule ccontr)
      assume "CHR ''.'' \<notin> set n"
      then have "takeWhile (\<lambda>c. c \<noteq> CHR ''.'') (rev n) = rev n"
        unfolding takeWhile_eq_all_conv by auto
      then have "e = n" unfolding e_def by (simp only: rev_rev_ident)
      with True show False by simp
    qed
    then obtain ds where n: "n = ds @ CHR ''.'' # e" using last_dot unfolding e_def by blast
    have "CHR ''.'' \<notin> set e" unfolding e_def using set_takeWhileD by fastforce
    moreover have "path_stem p = ds" using True by (simp add: path_stem_def suf n flip: n_def)
    ultimately show ?thesis using that(2) [of e] True suf n by (simp flip: n_def)
  next
    case False
    with suf have "path_suffix p = []" by simp
    then show ?thesis using that(1) by (simp add: path_stem_def)
  qed
qed

lemma path_stem_suffix: "path_stem p @ path_suffix p = path_name p"
  by (rule path_suffix_cases [of p]) simp_all

lemma resolve_extension_supported: "resolve_extension f \<in> set supported_extensions"
  by (simp add: resolve_extension_def Let_def supported_extensions_def)

lemma resolve_extension_suffix:
  assumes "path_suffix h \<in> {''.csv'', ''.json'', ''.parquet''}"
  shows "''.'' @ resolve_extension h = path_suffix h"
proof -
  have "py_lower ''.csv'' = ''.csv''" "py_lower ''.json'' = ''.json''" "py_lower ''.parquet'' = ''.parquet''" by code_simp+
  with assms show ?thesis by (auto simp: resolve_extension_def supported_extensions_def)
qed

lemma execute_save_step_Inr:
  assumes "execute_save_step ops t filename run_id = Inr r" and "run_id \<noteq> []"
  shows "sv_filename r = output_filename_for filename run_id" "sv_format r = resolve_extension (resolve_filename filename run_id)"
    "sv_object_name r = object_name_for run_id (output_filename_for filename run_id)" "sv_row_count r = table_rows ops t"
  using assms by (auto simp: execute_save_step_def output_filename_for_def bind_attempt_Inr Let_def)

lemma contains_single: "contains s [c] \<longleftrightarrow> c \<in> set s"
  by (auto simp: contains_iff in_set_conv_decomp)

lemma safe_filename_plain:
  assumes "is_safe_filename f"
  shows "f \<noteq> []" "CHR ''/'' \<notin> set f"
  using assms by (auto simp: is_safe_filename_def contains_single split: if_splits)

lemma output_filename_plain:
  assumes "is_safe_filename f"
  shows "output_filename_for f run_id = path_stem f @ ''.'' @ resolve_extension f"
    and "CHR ''/'' \<notin> set (output_filename_for f run_id)"
proof -
  note f = safe_filename_plain [OF assms]
  then show eq: "output_filename_for f run_id = path_stem f @ ''.'' @ resolve_extension f"
    by (simp add: output_filename_for_def resolve_filename_def ensure_extension_def)
  have "set (path_stem f) \<subseteq> set f"
    using f(2) by (auto simp: path_stem_def path_name_plain dest: in_set_takeD split: if_splits)
  with f(2) resolve_extension_supported [of f] show "CHR ''/'' \<notin> set (output_filename_for f run_id)"
    by (auto simp: eq supported_extensions_def)
qed

section \<open>Properties\<close>

text \<open>A saved output stays in the folder of its run: for a file name that the validator accepts the
  object key has exactly the parts \<^verbatim>\<open>outputs\<close>, the run and the file, the file ends in one of the three
  formats and is neither \<^verbatim>\<open>.\<close> nor \<^verbatim>\<open>..\<close>, and the result reports the rows of the table.\<close>

lemma saved_output_in_run_folder:
  assumes "execute_save_step ops t filename run_id = Inr r" and "is_safe_filename filename"
    and "run_id \<noteq> []" and "CHR ''/'' \<notin> set run_id"
  shows "split_on (CHR ''/'') (sv_object_name r) = [''outputs'', run_id, sv_filename r] \<and>
    sv_filename r = path_stem filename @ ''.'' @ sv_format r \<and> sv_format r \<in> {''csv'', ''json'', ''parquet''} \<and>
    sv_filename r \<notin> {[], ''.'', ''..''} \<and> sv_row_count r = table_rows ops t"
proof -
  note r = execute_save_step_Inr [OF assms(1,3)] and plain = output_filename_plain [OF assms(2), of run_id]
  have fmt: "sv_format r = resolve_extension filename"
    using safe_filename_plain(1) [OF assms(2)] by (simp add: r(2) resolve_filename_def)
  have obj: "sv_object_name r = ''outputs'' @ CHR ''/'' # run_id @ CHR ''/'' # output_filename_for filename run_id"
    by (simp add: r(3) object_name_for_def)
  have "split_on (CHR ''/'') (sv_object_name r) = [''outputs'', run_id, sv_filename r]"
    unfolding obj r(1) by (subst split_on_append, simp, subst split_on_append, rule assms(4), simp add: split_on_none plain(2))
  moreover have "sv_format r \<in> {''csv'', ''json'', ''parquet''}"
    using resolve_extension_supported [of filename] by (simp add: fmt supported_extensions_def)
  moreover from this have "sv_filename r \<notin> {[], ''.'', ''..''}" by (auto simp: r(1) plain(1) fmt append_eq_Cons_conv)
  ultimately show ?thesis using r plain(1) fmt by simp
qed

definition demo_store :: "nat store_ops" where
  "demo_store = \<lparr>store_importable = True, serialize_csv = (\<lambda>t. Inr ''x''), serialize_json = (\<lambda>t. Inr ''[]''),
     serialize_parquet = (\<lambda>t. Inr ''PAR1''), uuid_hex = ''0'', put_object = (\<lambda>k c ty md. Inr ()),
     presigned_url = (\<lambda>k s. Inr (''https://store/'' @ k)), table_rows = int\<rparr>"

text \<open>Different outputs of a run get different object keys, provided that their names end in a supported
  extension in lower case.\<close>

theorem saved_outputs_distinct:
  assumes "is_safe_filename f" and "is_safe_filename g" and "f \<noteq> g"
    and "path_suffix f \<in> {''.csv'', ''.json'', ''.parquet''}" and "path_suffix g \<in> {''.csv'', ''.json'', ''.parquet''}"
    and "execute_save_step ops t f run_id = Inr rf" and "execute_save_step ops' t' g run_id = Inr rg" and "run_id \<noteq> []"
  shows "sv_object_name rf \<noteq> sv_object_name rg"
proof -
  have same: "output_filename_for h run_id = h"
    if "is_safe_filename h" "path_suffix h \<in> {''.csv'', ''.json'', ''.parquet''}" for h
  proof -
    have "''.'' @ resolve_extension h = path_suffix h" by (rule resolve_extension_suffix [OF that(2)])
    then have "output_filename_for h run_id = path_name h"
      using output_filename_plain(1) [OF that(1), of run_id] path_stem_suffix [of h] by simp
    moreover from that(2) have "h \<noteq> ''.''" by (auto simp: path_suffix_def path_name_def)
    ultimately show ?thesis using path_name_plain safe_filename_plain(2) [OF that(1)] by simp
  qed
  have "sv_object_name rf = object_name_for run_id f" "sv_object_name rg = object_name_for run_id g"
    using execute_save_step_Inr(3) [OF assms(6,8)] execute_save_step_Inr(3) [OF assms(7,8)] same assms by simp_all
  with assms(3) show ?thesis by (simp add: object_name_for_def)
qed

theorem saved_outputs_distinct_witness:
  "\<exists>rf rg. execute_save_step demo_store 3 ''a.csv'' ''r'' = Inr rf \<and> execute_save_step demo_store 3 ''a.json'' ''r'' = Inr rg \<and>
     sv_object_name rf \<noteq> sv_object_name rg"
proof -
  have ok: "is_safe_filename ''a.csv''" "is_safe_filename ''a.json''" "path_suffix ''a.csv'' = ''.csv''" "path_suffix ''a.json'' = ''.json''"
    by code_simp+
  have "resolve_extension (resolve_filename ''a.csv'' ''r'') = ''csv''" "resolve_extension (resolve_filename ''a.json'' ''r'') = ''json''"
    by code_simp+
  then have "\<exists>rf. execute_save_step demo_store 3 ''a.csv'' ''r'' = Inr rf" "\<exists>rg. execute_save_step demo_store 3 ''a.json'' ''r'' = Inr rg"
    by (simp_all add: execute_save_step_def Let_def bind_attempt_def serialize_def demo_store_def)
  then obtain rf rg where "execute_save_step demo_store 3 ''a.csv'' ''r'' = Inr rf" "execute_save_step demo_store 3 ''a.json'' ''r'' = Inr rg"
    by blast
  moreover from saved_outputs_distinct [OF ok(1,2) _ _ _ this] have "sv_object_name rf \<noteq> sv_object_name rg"
    by (simp add: ok)
  ultimately show ?thesis by blast
qed

text \<open>Names that differ only after their last dot lose the difference: two save steps of one run that
  write \<^verbatim>\<open>sales.2023\<close> and \<^verbatim>\<open>sales.2024\<close>, both accepted by the validator, write to the same object key.\<close>

theorem saved_outputs_collide:
  "is_safe_filename ''sales.2023'' \<and> is_safe_filename ''sales.2024'' \<and>
   object_name_for ''r'' (output_filename_for ''sales.2023'' ''r'') = ''outputs/r/sales.csv'' \<and>
   object_name_for ''r'' (output_filename_for ''sales.2024'' ''r'') = ''outputs/r/sales.csv''"
  by code_simp

end
