(* ===== verification/Rules.thy ===== *)
theory Rules
  imports SqlScan PyNum
begin

text \<open>
  \<^verbatim>\<open>backend/pipeline/validators.py\<close>: the rules of a validate step.  A data frame is seen through \<open>rule_ops\<close>:
  its columns as lists of cells, and for a cell whether it is missing, its text, the number it is
  converted to, whether it is one of given values, matches a pattern or parses as a date.
\<close>

section \<open>Definitions\<close>

record 'd rule_ops =
  ru_columns :: "'d \<Rightarrow> string list"
  ru_rows :: "'d \<Rightarrow> int"
  ru_cells :: "'d \<Rightarrow> string \<Rightarrow> pyval list"
  ce_null :: "pyval \<Rightarrow> bool"
  ce_text :: "pyval \<Rightarrow> string"
  ce_number :: "pyval \<Rightarrow> rat option"
  ce_same :: "pyval \<Rightarrow> pyval \<Rightarrow> bool"
  ce_matches :: "pyval \<Rightarrow> (string + (pyval \<Rightarrow> bool)) result"
  ce_date :: "pyval \<Rightarrow> (pyval \<Rightarrow> bool) result"
  num_minus :: "pyval \<Rightarrow> pyval \<Rightarrow> pyval"

record rule_result =
  rr_rule_name :: string
  rr_column :: pyval
  rr_check :: pyval
  rr_passed :: bool
  rr_severity :: pyval
  rr_failing_count :: pyval
  rr_total_count :: int
  rr_failing_examples :: "pyval list"
  rr_message :: string

record validation_step_result =
  vs_passed :: bool
  vs_error_count :: nat
  vs_warning_count :: nat
  vs_rule_results :: "rule_result list"

text \<open>\<^verbatim>\<open>rule[key]\<close>.\<close>

definition rule_item :: "pydict \<Rightarrow> string \<Rightarrow> pyval result" where
  "rule_item rule k = (case dict_get rule (PStr k) of None \<Rightarrow> Inl KeyError | Some v \<Rightarrow> Inr v)"

text \<open>The cells of which the converted number is in a relation to a value; a cell without a number never is.\<close>

definition number_cells :: "'d rule_ops \<Rightarrow> (rat \<Rightarrow> rat \<Rightarrow> bool) \<Rightarrow> pyval \<Rightarrow> pyval list \<Rightarrow> (pyval \<Rightarrow> bool) result" where
  "number_cells ops rel v cells =
     bindE (compare_num rel 0 v) (\<lambda>_.
       Inr (\<lambda>c. case ce_number ops c of None \<Rightarrow> False | Some x \<Rightarrow> compare_num rel x v = Inr True))"

text \<open>\<^verbatim>\<open>series.duplicated()\<close>: the positions with an equal cell before them.\<close>

fun duplicated :: "(pyval \<Rightarrow> pyval \<Rightarrow> bool) \<Rightarrow> pyval list \<Rightarrow> pyval list \<Rightarrow> bool list" where
  "duplicated same seen [] = []"
| "duplicated same seen (c # cs) = list_ex (same c) seen # duplicated same (seen @ [c]) cs"

definition masked_cells :: "bool list \<Rightarrow> pyval list \<Rightarrow> pyval list" where
  "masked_cells flags cells = map snd (filter fst (zip flags cells))"

definition listed_values :: "pyval \<Rightarrow> pyval list result" where
  "listed_values vs = (case vs of PList xs \<Rightarrow> Inr xs | PDict kvs \<Rightarrow> Inr (map fst kvs) | _ \<Rightarrow> Inl TypeError)"

definition pattern_cells :: "'d rule_ops \<Rightarrow> pyval \<Rightarrow> string \<Rightarrow> pyval list \<Rightarrow> (string + (pyval list \<times> string)) result" where
  "pattern_cells ops p q cells = bindE (ce_matches ops p) (\<lambda>r. case r of
     Inl msg \<Rightarrow> Inr (Inl (''Invalid regex: '' @ msg))
   | Inr ok \<Rightarrow> Inr (Inr (filter (\<lambda>c. \<not> ok c) cells, '' values in '' @ q @ '' don'' @ [sq] @ ''t match pattern'')))"

text \<open>The cells a column check reports, and the end of its message; a bad pattern has a message of its own.\<close>

definition failing_cells :: "'d rule_ops \<Rightarrow> pydict \<Rightarrow> string \<Rightarrow> string \<Rightarrow> pyval list \<Rightarrow> (string + (pyval list \<times> string)) result option" where
  "failing_cells ops rule check column cells =
     (let q = [sq] @ column @ [sq] in
      if check = ''not_null'' then Some (Inr (Inr (filter (ce_null ops) cells, '' null values in '' @ q)))
      else if check = ''not_empty'' then
        Some (Inr (Inr (filter (\<lambda>c. py_strip (ce_text ops c) = []) cells, '' empty values in '' @ q)))
      else if check = ''greater_than'' then Some (bindE (rule_item rule ''value'') (\<lambda>v. bindE (number_cells ops (\<le>) v cells) (\<lambda>bad.
        Inr (Inr (filter bad cells, '' values in '' @ q @ '' not greater than '' @ py_str v)))))
      else if check = ''less_than'' then Some (bindE (rule_item rule ''value'') (\<lambda>v. bindE (number_cells ops (\<ge>) v cells) (\<lambda>bad.
        Inr (Inr (filter bad cells, '' values in '' @ q @ '' not less than '' @ py_str v)))))
      else if check = ''between'' then Some (bindE (rule_item rule ''min'') (\<lambda>lo. bindE (rule_item rule ''max'') (\<lambda>hi.
        bindE (number_cells ops (<) lo cells) (\<lambda>below. bindE (number_cells ops (>) hi cells) (\<lambda>above.
        Inr (Inr (filter (\<lambda>c. below c \<or> above c) cells, '' values in '' @ q @ '' not between '' @ py_str lo @ '' and '' @ py_str hi)))))))
      else if check = ''in_values'' then Some (bindE (rule_item rule ''values'') (\<lambda>vs. bindE (listed_values vs) (\<lambda>xs.
        Inr (Inr (filter (\<lambda>c. \<not> list_ex (ce_same ops c) xs) cells, '' values in '' @ q @ '' not in allowed list'')))))
      else if check = ''matches_pattern'' then Some (bindE (rule_item rule ''pattern'') (\<lambda>p. pattern_cells ops p q cells))
      else if check = ''no_duplicates'' then
        Some (Inr (Inr (masked_cells (duplicated (ce_same ops) [] cells) cells, '' duplicate values in '' @ q)))
      else if check = ''positive'' then
        Some (Inr (Inr (filter (\<lambda>c. case ce_number ops c of None \<Rightarrow> False | Some x \<Rightarrow> x \<le> 0) cells, '' non-positive values in '' @ q)))
      else if check = ''date_format'' then Some (bindE (rule_item rule ''format'') (\<lambda>f. bindE (ce_date ops f) (\<lambda>ok.
        Inr (Inr (filter (\<lambda>c. \<not> ok c \<and> \<not> ce_null ops c) cells, '' values in '' @ q @ '' don'' @ [sq] @ ''t match format '' @ py_str f)))))
      else None)"

definition rule_outcome :: "string \<Rightarrow> pyval \<Rightarrow> pyval \<Rightarrow> pyval \<Rightarrow> int \<Rightarrow> bool \<Rightarrow> pyval \<Rightarrow> pyval list \<Rightarrow> string \<Rightarrow> rule_result" where
  "rule_outcome prefix column check severity total_rows passed count examples msg =
     \<lparr>rr_rule_name = prefix @ ''.'' @ py_str check, rr_column = column, rr_check = check, rr_passed = passed,
      rr_severity = severity, rr_failing_count = count, rr_total_count = total_rows, rr_failing_examples = examples, rr_message = msg\<rparr>"

text \<open>The two checks of the number of rows.\<close>

definition rows_rule :: "'d rule_ops \<Rightarrow> pydict \<Rightarrow> string \<Rightarrow> int \<Rightarrow> (bool \<times> pyval \<times> string) result" where
  "rows_rule ops rule check n =
     bindE (rule_item rule ''value'') (\<lambda>v.
     if check = ''min_rows'' then
       bindE (compare_num (\<ge>) (of_int n) v) (\<lambda>ok. Inr (ok, if ok then PInt 0 else num_minus ops v (PInt n),
         ''Dataset has '' @ int_str n @ '' rows, minimum is '' @ py_str v))
     else
       bindE (compare_num (\<le>) (of_int n) v) (\<lambda>ok. Inr (ok, if ok then PInt 0 else num_minus ops (PInt n) v,
         ''Dataset has '' @ int_str n @ '' rows, maximum is '' @ py_str v)))"

definition column_rule :: "'d rule_ops \<Rightarrow> 'd \<Rightarrow> pydict \<Rightarrow> pyval \<Rightarrow> pyval \<Rightarrow> string \<Rightarrow> rule_result result" where
  "column_rule ops d rule check severity column =
     (let n = ru_rows ops d; outcome = rule_outcome column (PStr column) check severity n;
          unknown = Inr (outcome False (PInt 0) [] (''Unknown check: '' @ [sq] @ py_str check @ [sq]))
      in case check of
          PStr ch \<Rightarrow>
            if ch \<in> {''min_rows'', ''max_rows''} then
              bindE (rows_rule ops rule ch n) (\<lambda>(ok, count, msg). Inr (outcome ok count [] msg))
            else (case failing_cells ops rule ch column (ru_cells ops d column) of
                None \<Rightarrow> unknown
              | Some r \<Rightarrow> bindE r (\<lambda>f. case f of
                    Inl msg \<Rightarrow> Inr (outcome False (PInt 0) [] msg)
                  | Inr (bad, msg) \<Rightarrow>
                      Inr (outcome (bad = []) (PInt (int (length bad))) (take 3 bad) (nat_str (length bad) @ msg))))
        | _ \<Rightarrow> unknown)"

definition execute_single_rule :: "'d rule_ops \<Rightarrow> 'd \<Rightarrow> pyval \<Rightarrow> rule_result result" where
  "execute_single_rule ops d v =
     (case v of
        PDict rule \<Rightarrow>
          bindE (rule_item rule ''check'') (\<lambda>check.
          let column = get_none rule ''column''; severity = get_or rule ''severity'' (PStr ''error''); n = ru_rows ops d;
              fail = (\<lambda>prefix msg. Inr (rule_outcome prefix column check severity n False (PInt n) [] msg))
          in if truthy column then
               (if \<not> hashable column then Inl TypeError
                else (case column of
                    PStr name \<Rightarrow> if name \<in> set (ru_columns ops d) then column_rule ops d rule check severity name
                      else fail name (''Column '' @ [sq] @ name @ [sq] @ '' not found'')
                  | _ \<Rightarrow> fail (py_str column) (''Column '' @ [sq] @ py_str column @ [sq] @ '' not found'')))
             else if check \<in> {PStr ''min_rows'', PStr ''max_rows''} then
               bindE (rows_rule ops rule (py_str check) n) (\<lambda>(ok, count, msg).
                 Inr (rule_outcome ''dataset'' column check severity n ok count [] msg))
             else fail ''dataset'' (''Check '' @ [sq] @ py_str check @ [sq] @ '' requires a column''))
      | _ \<Rightarrow> Inl TypeError)"

definition count_failed :: "string \<Rightarrow> rule_result list \<Rightarrow> nat" where
  "count_failed sev rs = length (filter (\<lambda>r. \<not> rr_passed r \<and> rr_severity r = PStr sev) rs)"

definition execute_rules :: "'d rule_ops \<Rightarrow> 'd \<Rightarrow> pyval list \<Rightarrow> validation_step_result result" where
  "execute_rules ops d rules =
     bindE (mapE (execute_single_rule ops d) rules) (\<lambda>rs.
       Inr \<lparr>vs_passed = (count_failed ''error'' rs = 0), vs_error_count = count_failed ''error'' rs,
            vs_warning_count = count_failed ''warning'' rs, vs_rule_results = rs\<rparr>)"

section \<open>What a rule demands\<close>

text \<open>The cell conditions, by the name of the check.\<close>

definition cell_ok :: "'d rule_ops \<Rightarrow> pydict \<Rightarrow> string \<Rightarrow> pyval \<Rightarrow> bool" where
  "cell_ok ops rule check c \<longleftrightarrow>
     (let val = get_none rule ''value''; beyond = (\<lambda>rel v. \<exists>x. ce_number ops c = Some x \<and> compare_num rel x v = Inr True) in
      if check = ''not_null'' then \<not> ce_null ops c
      else if check = ''not_empty'' then py_strip (ce_text ops c) \<noteq> []
      else if check = ''greater_than'' then \<not> beyond (\<le>) val
      else if check = ''less_than'' then \<not> beyond (\<ge>) val
      else if check = ''between'' then \<not> beyond (<) (get_none rule ''min'') \<and> \<not> beyond (>) (get_none rule ''max'')
      else if check = ''in_values'' then \<exists>xs. listed_values (get_none rule ''values'') = Inr xs \<and> list_ex (ce_same ops c) xs
      else if check = ''matches_pattern'' then \<exists>ok. ce_matches ops (get_none rule ''pattern'') = Inr (Inr ok) \<and> ok c
      else if check = ''positive'' then \<not> beyond (\<le>) (PInt 0)
      else if check = ''date_format'' then ce_null ops c \<or> (\<exists>ok. ce_date ops (get_none rule ''format'') = Inr ok \<and> ok c)
      else False)"

lemma rule_item_Inr: "rule_item rule k = Inr v \<Longrightarrow> get_none rule k = v"
  by (auto simp: rule_item_def get_none_def get_or_def split: option.splits)

lemma number_cells_Inr:
  "number_cells ops rel v cells = Inr bad \<Longrightarrow> bad = (\<lambda>c. \<exists>x. ce_number ops c = Some x \<and> compare_num rel x v = Inr True)"
  by (auto simp: number_cells_def bindE_eq_Inr_iff fun_eq_iff split: option.splits)

lemma compare_zero: "compare_num rel x (PInt 0) = Inr (rel x 0)"
  by (simp add: compare_num_def py_num_def)

definition known_checks :: "string list" where
  "known_checks = [''not_null'', ''not_empty'', ''greater_than'', ''less_than'', ''between'', ''in_values'', ''matches_pattern'',
     ''positive'', ''date_format'']"

lemma failing_cells_known:
  "failing_cells ops rule ch column cells \<noteq> None \<longleftrightarrow> ch \<in> set known_checks \<or> ch = ''no_duplicates''"
  by (simp add: failing_cells_def known_checks_def Let_def)

lemma failing_cells_pattern:
  assumes "failing_cells ops rule ''matches_pattern'' column cells = Some (Inr r)"
  obtains m where "ce_matches ops (get_none rule ''pattern'') = Inr (Inl m)" "\<exists>msg. r = Inl msg"
  | ok msg where "ce_matches ops (get_none rule ''pattern'') = Inr (Inr ok)" "r = Inr (filter (\<lambda>c. \<not> ok c) cells, msg)"
proof -
  from assms obtain p q where p: "rule_item rule ''pattern'' = Inr p" "pattern_cells ops p q cells = Inr r"
    by (auto simp: failing_cells_def Let_def bindE_eq_Inr_iff)
  then obtain s where s: "ce_matches ops p = Inr s" by (auto simp: pattern_cells_def bindE_eq_Inr_iff)
  have "get_none rule ''pattern'' = p" using p(1) by (rule rule_item_Inr)
  with s p(2) that show ?thesis by (cases s) (auto simp: pattern_cells_def)
qed

lemma failing_cells_exact:
  assumes "failing_cells ops rule check column cells = Some (Inr (Inr (bad, msg)))" and "check \<noteq> ''no_duplicates''"
  shows "bad = filter (\<lambda>c. \<not> cell_ok ops rule check c) cells"
proof (cases "check = ''matches_pattern''")
  case True
  then show ?thesis
    using assms(1) by (auto simp: cell_ok_def elim!: failing_cells_pattern)
next
  case False
  have "check \<in> set known_checks" using assms failing_cells_known [of ops rule check column cells] by auto
  with False have "check = ''not_null'' \<or> check = ''not_empty'' \<or> check = ''greater_than'' \<or> check = ''less_than'' \<or>
      check = ''between'' \<or> check = ''in_values'' \<or> check = ''positive'' \<or> check = ''date_format''"
    by (simp add: known_checks_def)
  then consider "check = ''not_null''" | "check = ''not_empty''" | "check = ''greater_than''" | "check = ''less_than''"
    | "check = ''between''" | "check = ''in_values''" | "check = ''positive''" | "check = ''date_format''"
    by (elim disjE)
  then show ?thesis
  proof cases
    case 5
    from assms(1) [unfolded 5] obtain lo hi below above where "rule_item rule ''min'' = Inr lo" "rule_item rule ''max'' = Inr hi"
      "number_cells ops (<) lo cells = Inr below" "number_cells ops (>) hi cells = Inr above"
      "bad = filter (\<lambda>c. below c \<or> above c) cells"
      by (auto simp: failing_cells_def Let_def bindE_eq_Inr_iff)
    then show ?thesis by (auto simp: 5 cell_ok_def dest!: rule_item_Inr number_cells_Inr intro!: filter_cong)
  qed (use assms(1) in \<open>auto simp: failing_cells_def cell_ok_def bindE_eq_Inr_iff compare_zero
        dest!: rule_item_Inr number_cells_Inr split: option.splits intro!: filter_cong\<close>)
qed

lemma masked_duplicated:
  "masked_cells (duplicated same seen cells) cells = [] \<longleftrightarrow>
     (\<forall>j < length cells. (\<forall>s \<in> set seen. \<not> same (cells ! j) s) \<and> (\<forall>i < j. \<not> same (cells ! j) (cells ! i)))"
proof (induction cells arbitrary: seen)
  case Nil
  then show ?case by (simp add: masked_cells_def)
next
  case (Cons c cs)
  have "masked_cells (duplicated same seen (c # cs)) (c # cs) = [] \<longleftrightarrow>
      (\<forall>s \<in> set seen. \<not> same c s) \<and> masked_cells (duplicated same (seen @ [c]) cs) cs = []"
    by (auto simp: masked_cells_def list_ex_iff)
  also have "\<dots> \<longleftrightarrow> (\<forall>j < length (c # cs). (\<forall>s \<in> set seen. \<not> same ((c # cs) ! j) s) \<and>
      (\<forall>i < j. \<not> same ((c # cs) ! j) ((c # cs) ! i)))"
    unfolding Cons.IH by (auto simp: All_less_Suc2)
  finally show ?case .
qed

text \<open>What it means for a rule to hold of a frame.\<close>

definition rule_holds :: "'d rule_ops \<Rightarrow> 'd \<Rightarrow> pydict \<Rightarrow> bool" where
  "rule_holds ops d rule \<longleftrightarrow>
     (let check = get_none rule ''check''; column = get_none rule ''column'';
          rows = (check = PStr ''min_rows'' \<and> compare_num (\<ge>) (of_int (ru_rows ops d)) (get_none rule ''value'') = Inr True \<or>
                  check = PStr ''max_rows'' \<and> compare_num (\<le>) (of_int (ru_rows ops d)) (get_none rule ''value'') = Inr True)
      in if truthy column then
           (\<exists>name. column = PStr name \<and> name \<in> set (ru_columns ops d) \<and>
             (let cells = ru_cells ops d name in
              rows \<or>
              check = PStr ''no_duplicates'' \<and> (\<forall>j < length cells. \<forall>i < j. \<not> ce_same ops (cells ! j) (cells ! i)) \<or>
              (\<exists>ch \<in> set known_checks. check = PStr ch \<and> list_all (cell_ok ops rule ch) cells \<and>
                (ch = ''matches_pattern'' \<longrightarrow> (\<exists>ok. ce_matches ops (get_none rule ''pattern'') = Inr (Inr ok))))))
         else rows)"

lemma failing_cells_regex:
  assumes "failing_cells ops rule ch column cells = Some (Inr (Inl msg))"
  shows "ch = ''matches_pattern''" "\<exists>m. ce_matches ops (get_none rule ''pattern'') = Inr (Inl m)"
proof -
  show ch: "ch = ''matches_pattern''"
    using assms by (auto simp: failing_cells_def Let_def bindE_eq_Inr_iff split: if_splits)
  from assms [unfolded ch] show "\<exists>m. ce_matches ops (get_none rule ''pattern'') = Inr (Inl m)"
    by (rule failing_cells_pattern) auto
qed

lemma rows_rule_Inr:
  assumes "rows_rule ops rule ch n = Inr (ok, count, msg)"
  shows "ok \<longleftrightarrow> compare_num (if ch = ''min_rows'' then (\<ge>) else (\<le>)) (of_int n) (get_none rule ''value'') = Inr True"
  using assms by (auto simp: rows_rule_def bindE_eq_Inr_iff dest!: rule_item_Inr split: if_splits)

lemma column_rule_holds:
  assumes "column_rule ops d rule check severity column = Inr r" and "column \<in> set (ru_columns ops d)"
    and "get_none rule ''check'' = check" and "get_none rule ''column'' = PStr column" and "column \<noteq> []"
  shows "rr_passed r \<longleftrightarrow> rule_holds ops d rule"
proof (cases "\<exists>ch. check = PStr ch")
  case False
  then show ?thesis
    using assms by (auto simp: column_rule_def rule_outcome_def rule_holds_def truthy_def Let_def split: pyval.splits)
next
  case True
  then obtain ch where ch: "check = PStr ch" by blast
  let ?cells = "ru_cells ops d column"
  have t: "truthy (PStr column)" using assms(5) by (simp add: truthy_def)
  show ?thesis
  proof (cases "ch \<in> {''min_rows'', ''max_rows''}")
    case rows: True
    then have other: "ch \<notin> set known_checks" "ch \<noteq> ''no_duplicates''" by (auto simp: known_checks_def)
    from rows assms(1) obtain ok count msg where ok: "rows_rule ops rule ch (ru_rows ops d) = Inr (ok, count, msg)"
      and r: "rr_passed r = ok"
      by (auto simp: column_rule_def ch rule_outcome_def bindE_eq_Inr_iff Let_def)
    have "rule_holds ops d rule \<longleftrightarrow>
        ch = ''min_rows'' \<and> compare_num (\<ge>) (of_int (ru_rows ops d)) (get_none rule ''value'') = Inr True \<or>
        ch = ''max_rows'' \<and> compare_num (\<le>) (of_int (ru_rows ops d)) (get_none rule ''value'') = Inr True"
      using assms(2-4) t other ch by (auto simp: rule_holds_def Let_def)
    with rows_rule_Inr [OF ok] r rows show ?thesis by auto
  next
    case rows: False
    show ?thesis
    proof (cases "failing_cells ops rule ch column ?cells")
      case None
      then have "ch \<notin> set known_checks" "ch \<noteq> ''no_duplicates''" using failing_cells_known by blast+
      with None rows assms t show ?thesis by (auto simp: column_rule_def ch rule_outcome_def rule_holds_def Let_def)
    next
      case (Some f)
      then have known: "ch \<in> set known_checks \<or> ch = ''no_duplicates''" using failing_cells_known by blast
      from assms(1) rows Some obtain g where g: "f = Inr g" by (auto simp: column_rule_def ch bindE_eq_Inr_iff Let_def)
      have holds: "rule_holds ops d rule \<longleftrightarrow>
          ch = ''no_duplicates'' \<and> (\<forall>j < length ?cells. \<forall>i < j. \<not> ce_same ops (?cells ! j) (?cells ! i)) \<or>
          ch \<in> set known_checks \<and> list_all (cell_ok ops rule ch) ?cells \<and>
            (ch = ''matches_pattern'' \<longrightarrow> (\<exists>ok. ce_matches ops (get_none rule ''pattern'') = Inr (Inr ok)))"
        using assms(2-4) t rows ch by (auto simp: rule_holds_def Let_def)
      show ?thesis
      proof (cases g)
        case (Inl msg)
        with Some g have "failing_cells ops rule ch column ?cells = Some (Inr (Inl msg))" by simp
        note bad = failing_cells_regex [OF this]
        from assms(1) rows Some g Inl have "\<not> rr_passed r" by (auto simp: column_rule_def ch rule_outcome_def Let_def)
        with bad holds show ?thesis by auto
      next
        case (Inr bm)
        obtain bad msg where bm: "bm = (bad, msg)" by fastforce
        with Some g Inr have f: "failing_cells ops rule ch column ?cells = Some (Inr (Inr (bad, msg)))" by simp
        have passed: "rr_passed r \<longleftrightarrow> bad = []"
          using assms(1) rows f by (auto simp: column_rule_def ch rule_outcome_def Let_def)
        show ?thesis
        proof (cases "ch = ''no_duplicates''")
          case True
          have "bad = masked_cells (duplicated (ce_same ops) [] ?cells) ?cells"
            using f True by (auto simp: failing_cells_def Let_def)
          with passed masked_duplicated [of "ce_same ops" "[]" ?cells] holds True show ?thesis by (simp add: known_checks_def)
        next
          case False
          have "ch = ''matches_pattern'' \<longrightarrow> (\<exists>ok. ce_matches ops (get_none rule ''pattern'') = Inr (Inr ok))"
            using f by (auto elim: failing_cells_pattern)
          with passed failing_cells_exact [OF f False] holds known False show ?thesis
            by (auto simp: filter_empty_conv list_all_iff)
        qed
      qed
    qed
  qed
qed

lemma column_rule_severity: "column_rule ops d rule check severity column = Inr r \<Longrightarrow> rr_severity r = severity"
  unfolding column_rule_def rule_outcome_def bindE_def Let_def
  by (auto split: pyval.splits if_splits option.splits sum.splits prod.splits)

lemma single_rule_holds:
  assumes "execute_single_rule ops d (PDict rule) = Inr r"
  shows "rr_passed r \<longleftrightarrow> rule_holds ops d rule" "rr_severity r = get_or rule ''severity'' (PStr ''error'')"
proof -
  from assms obtain check where item: "rule_item rule ''check'' = Inr check"
    by (auto simp: execute_single_rule_def bindE_eq_Inr_iff)
  have check: "get_none rule ''check'' = check" by (rule rule_item_Inr [OF item])
  let ?column = "get_none rule ''column''"
  show "rr_passed r \<longleftrightarrow> rule_holds ops d rule"
  proof (cases "truthy ?column")
    case False
    show ?thesis
    proof (cases "check \<in> {PStr ''min_rows'', PStr ''max_rows''}")
      case rows: True
      with assms item False obtain ok count msg where ok: "rows_rule ops rule (py_str check) (ru_rows ops d) = Inr (ok, count, msg)"
        "rr_passed r = ok"
        by (auto simp: execute_single_rule_def rule_outcome_def bindE_eq_Inr_iff Let_def)
      have "py_str check = ''min_rows'' \<longleftrightarrow> check = PStr ''min_rows''" using rows by (auto simp: py_str_def)
      with rows_rule_Inr [OF ok(1)] ok(2) rows False show ?thesis by (auto simp: rule_holds_def check Let_def)
    next
      case rows: False
      with assms item False show ?thesis by (auto simp: execute_single_rule_def rule_outcome_def rule_holds_def check Let_def)
    qed
  next
    case True
    show ?thesis
    proof (cases "\<exists>name. ?column = PStr name \<and> name \<in> set (ru_columns ops d)")
      case False
      with assms item True show ?thesis
        by (auto simp: execute_single_rule_def rule_outcome_def rule_holds_def Let_def split: if_splits pyval.splits)
    next
      case found: True
      then obtain name where name: "?column = PStr name" "name \<in> set (ru_columns ops d)" by blast
      with True have "name \<noteq> []" by (auto simp: truthy_def)
      from assms item True name
      have "column_rule ops d rule check (get_or rule ''severity'' (PStr ''error'')) name = Inr r"
        by (auto simp: execute_single_rule_def Let_def split: if_splits)
      from column_rule_holds [OF this name(2) check name(1) \<open>name \<noteq> []\<close>] show ?thesis .
    qed
  qed
  show "rr_severity r = get_or rule ''severity'' (PStr ''error'')"
    using assms item
    by (auto simp: execute_single_rule_def rule_outcome_def bindE_eq_Inr_iff Let_def
        split: if_splits pyval.splits dest: column_rule_severity)
qed

lemma mapE_Inr_nth: "mapE f xs = Inr ys \<Longrightarrow> list_all2 (\<lambda>x y. f x = Inr y) xs ys"
  by (induction xs arbitrary: ys) (auto simp: bindE_eq_Inr_iff)

section \<open>Properties\<close>

text \<open>The rules pass exactly if every rule of severity error holds: the column is there and all of its cells
  meet the condition of the check (or the number of rows is within the bound), and the check is one of
  the twelve.  It has no warnings exactly if the rules of severity warning hold as well.\<close>

lemma rules_pass_exactly:
  assumes "execute_rules ops d (map PDict rules) = Inr r"
  shows "(vs_passed r \<longleftrightarrow> (\<forall>rule \<in> set rules. get_or rule ''severity'' (PStr ''error'') = PStr ''error'' \<longrightarrow> rule_holds ops d rule)) \<and>
    (vs_warning_count r = 0 \<longleftrightarrow> (\<forall>rule \<in> set rules. get_or rule ''severity'' (PStr ''error'') = PStr ''warning'' \<longrightarrow> rule_holds ops d rule)) \<and>
    length (vs_rule_results r) = length rules"
proof -
  from assms obtain rs where "mapE (execute_single_rule ops d) (map PDict rules) = Inr rs"
    and r: "vs_passed r = (count_failed ''error'' rs = 0)" "vs_warning_count r = count_failed ''warning'' rs" "vs_rule_results r = rs"
    by (auto simp: execute_rules_def bindE_eq_Inr_iff)
  from mapE_Inr_nth [OF this(1)] have all: "list_all2 (\<lambda>rule x. execute_single_rule ops d (PDict rule) = Inr x) rules rs"
    by (simp add: list.rel_map)
  have "list_all2 (\<lambda>rule x. rr_passed x = rule_holds ops d rule \<and> rr_severity x = get_or rule ''severity'' (PStr ''error'')) rules rs"
    by (rule list_all2_mono [OF all]) (simp add: single_rule_holds)
  moreover from this have "count_failed sev rs = 0 \<longleftrightarrow>
      (\<forall>rule \<in> set rules. get_or rule ''severity'' (PStr ''error'') = PStr sev \<longrightarrow> rule_holds ops d rule)" for sev
    by (induction rule: list_all2_induct) (auto simp: count_failed_def)
  ultimately show ?thesis using r by (simp add: list_all2_lengthD)
qed

definition demo_rule_ops :: "(string \<times> pyval list) list rule_ops" where
  "demo_rule_ops =
     \<lparr>ru_columns = map fst, ru_rows = (\<lambda>d. case d of [] \<Rightarrow> 0 | (n, cs) # _ \<Rightarrow> int (length cs)),
      ru_cells = (\<lambda>d n. case map_of d n of None \<Rightarrow> [] | Some cs \<Rightarrow> cs), ce_null = (\<lambda>c. c = PNone), ce_text = py_str,
      ce_number = py_num, ce_same = py_eq, ce_matches = (\<lambda>p. Inr (Inl ''no patterns'')), ce_date = (\<lambda>f. Inl TypeError),
      num_minus = (\<lambda>a b. PInt 0)\<rparr>"

text \<open>A failing rule of any other severity is counted nowhere: the step passes without errors and without warnings.\<close>

theorem other_severity_uncounted:
  "map_sum (\<lambda>_. ()) (\<lambda>r. (vs_passed r, vs_error_count r, vs_warning_count r, map rr_passed (vs_rule_results r)))
     (execute_rules demo_rule_ops [(''n'', [PNone])]
       [PDict [(PStr ''check'', PStr ''not_null''), (PStr ''column'', PStr ''n''), (PStr ''severity'', PStr ''critical'')]]) =
   Inr (True, 0, 0, [False])"
  by code_simp

end
