(* ===== verification/StepExecutor.thy ===== *)
theory StepExecutor
  imports Runner Lineage ColumnSecurity StepErrors SaveStep Rules
begin

text \<open>
  \<^verbatim>\<open>backend/pipeline/steps/_core.py\<close>: the Pandas executors of the step types and their dispatch.

  Pandas, Arrow, object storage, the Wasm runtime and the message broker are the fields of the
  record \<open>pandas\<close>, one per operation that the executors call; \<open>'t\<close> are Arrow tables and \<open>'d\<close> data
  frames.  An executor raises before it calls the lineage recorder, or yields the call it makes
  and how it ends after that; \<open>commit\<close> performs the call.  Configurations are taken
  as their annotations describe them (texts, lists of texts, mappings of texts); for any other
  value \<open>execute_step\<close> answers \<^verbatim>\<open>TypeError\<close>, and no property speaks about it.
\<close>

section \<open>Interface to Pandas\<close>

text \<open>A filter value: as it is, or converted by \<^verbatim>\<open>pd.to_numeric\<close> or \<^verbatim>\<open>pd.to_datetime\<close>.\<close>

datatype filter_arg = RawValue pyval | NumericOf pyval | DatetimeOf pyval

record ('t, 'd) pandas =
  tbl_rows :: "'t \<Rightarrow> int"
  tbl_names :: "'t \<Rightarrow> string list"
  to_pandas :: "'t \<Rightarrow> 'd"
  from_pandas :: "'d \<Rightarrow> 't result"
  df_columns :: "'d \<Rightarrow> string list"
  df_len :: "'d \<Rightarrow> int"
  df_dtype :: "'d \<Rightarrow> string \<Rightarrow> string"
  df_is_numeric :: "'d \<Rightarrow> string \<Rightarrow> bool"
  df_is_datetime :: "'d \<Rightarrow> string \<Rightarrow> bool"
  pd_to_numeric :: "pyval \<Rightarrow> unit result"
  pd_to_datetime :: "pyval \<Rightarrow> unit result"
  df_filter :: "filter_operator \<Rightarrow> string \<Rightarrow> filter_arg \<Rightarrow> 'd \<Rightarrow> 'd result"
  df_select :: "string list \<Rightarrow> 'd \<Rightarrow> 'd result"
  df_rename :: "(string \<times> string) list \<Rightarrow> 'd \<Rightarrow> 'd"
  df_merge :: "string \<Rightarrow> string \<Rightarrow> 'd \<Rightarrow> 'd \<Rightarrow> 'd result"
  df_group_agg :: "string list \<Rightarrow> (string \<times> string list) list \<Rightarrow> 'd \<Rightarrow> string + ('d \<times> (string \<times> string) list)"
  df_set_columns :: "string list \<Rightarrow> 'd \<Rightarrow> 'd"
  df_reset_index :: "'d \<Rightarrow> 'd result"
  df_reset_drop :: "'d \<Rightarrow> 'd"
  df_sort_values :: "string list \<Rightarrow> bool list \<Rightarrow> 'd \<Rightarrow> 'd result"
  df_pivot_table :: "string list \<Rightarrow> string \<Rightarrow> string \<Rightarrow> pyval \<Rightarrow> pyval \<Rightarrow> 'd \<Rightarrow> ('d \<times> (pyval \<times> pyval option) list) result"
  df_melt :: "string list \<Rightarrow> string list \<Rightarrow> pyval \<Rightarrow> pyval \<Rightarrow> 'd \<Rightarrow> 'd result"
  df_drop_duplicates :: "string list option \<Rightarrow> pyval \<Rightarrow> 'd \<Rightarrow> 'd result"
  df_fillna :: "string \<Rightarrow> pyval \<Rightarrow> 'd \<Rightarrow> 'd result"
  df_ffill :: "string \<Rightarrow> 'd \<Rightarrow> 'd result"
  df_bfill :: "string \<Rightarrow> 'd \<Rightarrow> 'd result"
  df_mean :: "string \<Rightarrow> 'd \<Rightarrow> pyval"
  df_median :: "string \<Rightarrow> 'd \<Rightarrow> pyval"
  df_mode :: "string \<Rightarrow> 'd \<Rightarrow> pyval list"
  df_groups :: "string \<Rightarrow> 'd \<Rightarrow> 'd list"
  df_concat :: "'d list \<Rightarrow> 'd result"
  df_sample :: "int \<Rightarrow> pyval \<Rightarrow> 'd \<Rightarrow> 'd result"
  df_sample_frac :: "pyval \<Rightarrow> pyval \<Rightarrow> 'd \<Rightarrow> 'd result"
  df_of_frame :: "frame \<Rightarrow> 'd"
  df_to_frame :: "'d \<Rightarrow> frame"
  read_frame :: "string \<Rightarrow> string \<Rightarrow> string + 'd"
  column_policies :: "string \<Rightarrow> column_policy_record list result"
  save_store :: "'t store_ops"
  upload_output :: "string \<Rightarrow> string \<Rightarrow> 'd \<Rightarrow> string + unit"
  fresh_hex :: string
  rules_view :: "'d rule_ops"
  run_wasm :: "'t \<Rightarrow> step_config \<Rightarrow> string \<Rightarrow> 't result"
  publish_rows :: "string \<Rightarrow> pyval \<Rightarrow> 'd \<Rightarrow> int result"

section \<open>Definitions\<close>

type_synonym 't outcome = "(record_call \<times> 't step_result result) result"

text \<open>\<^verbatim>\<open>table_registry[name]\<close>.\<close>

definition lookup_table :: "(pyval \<times> 't) list \<Rightarrow> string \<Rightarrow> 't result" where
  "lookup_table reg name = (case dict_get reg (PStr name) of None \<Rightarrow> Inl KeyError | Some t \<Rightarrow> Inr t)"

definition step_output ::
    "string \<Rightarrow> string \<Rightarrow> int \<Rightarrow> string list \<Rightarrow> 't \<Rightarrow> int \<Rightarrow> string list \<Rightarrow> int \<Rightarrow> string list \<Rightarrow> 't step_result" where
  "step_output name ty n_in cols_in out n_out cols_out ms warns =
     \<lparr>res_step_name = PStr name, res_step_type = ty, output_table = out, rows_in = n_in, rows_out = n_out,
      columns_in = cols_in, columns_out = cols_out, duration_ms = ms, res_warnings = warns,
      contract_violations = [], engine = None,
      download_url = None, output_filename = None, output_format = None, output_object_name = None, output_size_bytes = None\<rparr>"

definition validate_column_exists :: "string \<Rightarrow> string list \<Rightarrow> string \<Rightarrow> unit result" where
  "validate_column_exists name available col =
     (if col \<in> set available then Inr () else Inl (raised (ColumnNotFoundError name col available)))"

definition validate_columns :: "string \<Rightarrow> string list \<Rightarrow> string list \<Rightarrow> unit result" where
  "validate_columns name available cols = foldE (\<lambda>col _. validate_column_exists name available col) cols ()"

subsection \<open>Load\<close>

definition supported_file_extensions :: "string list" where
  "supported_file_extensions = [''.csv'', ''.json'']"

definition read_file :: "('t, 'd) pandas \<Rightarrow> string \<Rightarrow> string \<Rightarrow> 'd result" where
  "read_file pd name path =
     (let ext = py_lower (path_suffix path) in
      if ext \<notin> set supported_file_extensions
      then Inl (raised (UnsupportedFileFormatError name path ext supported_file_extensions))
      else case read_frame pd ext path of
          Inl reason \<Rightarrow> Inl (raised (FileReadError name path reason))
        | Inr d \<Rightarrow> Inr d)"

definition policy_failure :: pyexn where
  "policy_failure =
     OtherError ''RuntimeError: Column security policy enforcement failed; pipeline execution stopped.''"

definition enforce_policies :: "('t, 'd) pandas \<Rightarrow> string \<Rightarrow> string \<Rightarrow> 'd \<Rightarrow> 'd result" where
  "enforce_policies pd fid role d =
     (case column_policies pd fid of
        Inl _ \<Rightarrow> Inl policy_failure
      | Inr policies \<Rightarrow>
          Inr (if policies = [] then d else df_of_frame pd (apply_column_policies (df_to_frame pd d) role policies)))"

definition execute_load ::
    "('t, 'd) pandas \<Rightarrow> int \<Rightarrow> (string \<times> string) list \<Rightarrow> (string \<times> (string \<times> string) list) list \<Rightarrow> string option \<Rightarrow>
     string \<Rightarrow> string \<Rightarrow> 't outcome" where
  "execute_load pd ms paths metas role_opt name fid =
     (let path = (case map_of paths fid of None \<Rightarrow> [] | Some p \<Rightarrow> p);
          metadata = (case map_of metas fid of None \<Rightarrow> [] | Some m \<Rightarrow> m);
          role = (case role_opt of None \<Rightarrow> ''viewer'' | Some r \<Rightarrow> if r = [] then ''viewer'' else r)
      in bindE (read_file pd name path) (\<lambda>raw.
         bindE (enforce_policies pd fid role raw) (\<lambda>d.
         let columns = df_columns pd d;
             dtypes = map (\<lambda>c. (c, df_dtype pd d c)) columns;
             file_name = (case map_of metadata ''original_filename'' of None \<Rightarrow> path_name path | Some n \<Rightarrow> n)
         in Inr (RecordLoad fid file_name name columns dtypes,
              bindE (from_pandas pd d) (\<lambda>t.
                Inr (step_output name ''load'' (df_len pd d) columns t (df_len pd d) columns ms []))))))"

subsection \<open>Filter\<close>

definition operator_text :: "pyval + filter_operator \<Rightarrow> string" where
  "operator_text op = (case op of Inl v \<Rightarrow> py_str v | Inr o' \<Rightarrow> filter_operator_value o')"

definition apply_filter_operator :: "string \<Rightarrow> pyval + filter_operator \<Rightarrow> filter_operator result" where
  "apply_filter_operator name op =
     (case op of
        Inr o' \<Rightarrow> Inr o'
      | Inl v \<Rightarrow> if hashable v then Inl (raised (InvalidOperatorError name (py_str v) (map filter_operator_value filter_operators)))
               else Inl TypeError)"

definition coerced :: "pyexn \<Rightarrow> filter_arg \<Rightarrow> unit result \<Rightarrow> filter_arg result" where
  "coerced mismatch arg r =
     (case r of
        Inr _ \<Rightarrow> Inr arg
      | Inl e \<Rightarrow> Inl (case e of ValueError _ \<Rightarrow> mismatch | TypeError \<Rightarrow> mismatch | _ \<Rightarrow> e))"

definition coerce_filter_value :: "('t, 'd) pandas \<Rightarrow> 'd \<Rightarrow> pyval \<Rightarrow> string \<Rightarrow> string \<Rightarrow> string \<Rightarrow> filter_arg result" where
  "coerce_filter_value pd d v name col op =
     (let mismatch = raised (FilterTypeMismatchError name col (df_dtype pd d col) v op) in
      if v = PNone then Inr (RawValue v)
      else if df_is_numeric pd d col then coerced mismatch (NumericOf v) (pd_to_numeric pd v)
      else if df_is_datetime pd d col then coerced mismatch (DatetimeOf v) (pd_to_datetime pd v)
      else Inr (RawValue v))"

definition run_filter ::
    "('t, 'd) pandas \<Rightarrow> string \<Rightarrow> string \<Rightarrow> pyval + filter_operator \<Rightarrow> pyval \<Rightarrow> 'd \<Rightarrow> 'd result" where
  "run_filter pd name col op v d =
     bindE (apply_filter_operator name op) (\<lambda>o'.
     bindE (coerce_filter_value pd d v name col (operator_text op)) (\<lambda>arg.
       case df_filter pd o' col arg d of
         Inl TypeError \<Rightarrow> Inl (raised (FilterTypeMismatchError name col (df_dtype pd d col) v (operator_text op)))
       | r \<Rightarrow> r))"

definition execute_filter ::
    "('t, 'd) pandas \<Rightarrow> int \<Rightarrow> (pyval \<times> 't) list \<Rightarrow> string \<Rightarrow> string \<Rightarrow> string \<Rightarrow> pyval + filter_operator \<Rightarrow> pyval \<Rightarrow> 't outcome" where
  "execute_filter pd ms reg name inp col op v =
     bindE (lookup_table reg inp) (\<lambda>t.
     let d = to_pandas pd t; columns_in = df_columns pd d in
     bindE (validate_column_exists name columns_in col) (\<lambda>_.
     bindE (run_filter pd name col op v d) (\<lambda>filtered.
     bindE (from_pandas pd filtered) (\<lambda>out.
       let fd = to_pandas pd out;
           warns = (if df_len pd fd = 0
             then [''Filter produced 0 rows. Condition: '' @ col @ '' '' @ operator_text op @ '' '' @ py_str v] else [])
       in Inr (RecordPassthrough name ''filter'' inp (df_columns pd fd), Inr
               (step_output name ''filter'' (tbl_rows pd t) columns_in out (tbl_rows pd out) (df_columns pd fd) ms warns))))))"

subsection \<open>Select and rename\<close>

definition execute_select ::
    "('t, 'd) pandas \<Rightarrow> int \<Rightarrow> (pyval \<times> 't) list \<Rightarrow> string \<Rightarrow> string \<Rightarrow> string list \<Rightarrow> 't outcome" where
  "execute_select pd ms reg name inp cols =
     bindE (lookup_table reg inp) (\<lambda>t.
     let d = to_pandas pd t; columns_in = df_columns pd d in
     bindE (validate_columns name columns_in cols) (\<lambda>_.
     bindE (df_select pd cols d) (\<lambda>selected.
     bindE (from_pandas pd selected) (\<lambda>out.
       Inr (RecordProjection name inp cols (filter (\<lambda>c. c \<notin> set cols) columns_in), Inr
            (step_output name ''select'' (tbl_rows pd t) columns_in out (tbl_rows pd out)
              (df_columns pd (to_pandas pd out)) ms []))))))"

definition rename_conflicts :: "string list \<Rightarrow> (string \<times> string) list \<Rightarrow> string list" where
  "rename_conflicts available m =
     filter (\<lambda>c. c \<in> set (map snd m)) (filter (\<lambda>c. c \<notin> set (map fst m)) (remdups available))"

definition execute_rename ::
    "('t, 'd) pandas \<Rightarrow> int \<Rightarrow> (pyval \<times> 't) list \<Rightarrow> string \<Rightarrow> string \<Rightarrow> (string \<times> string) list \<Rightarrow> 't outcome" where
  "execute_rename pd ms reg name inp m =
     bindE (lookup_table reg inp) (\<lambda>t.
     let d = to_pandas pd t; columns_in = df_columns pd d in
     bindE (validate_columns name columns_in (map fst m)) (\<lambda>_.
     if rename_conflicts columns_in m \<noteq> []
     then Inl (raised (RenameConflictError name (remdups (map snd m)) (rename_conflicts columns_in m)))
     else let renamed = df_rename pd m d in
       bindE (from_pandas pd renamed) (\<lambda>out.
         Inr (RecordRename name inp m columns_in, Inr
              (step_output name ''rename'' (tbl_rows pd t) columns_in out (tbl_rows pd out) (df_columns pd renamed) ms [])))))"

subsection \<open>Join\<close>

definition validate_join_key :: "string \<Rightarrow> string \<Rightarrow> string list \<Rightarrow> string \<Rightarrow> unit result" where
  "validate_join_key name key columns side =
     (if key \<in> set columns then Inr () else Inl (raised (JoinKeyMissingError name key side columns)))"

text \<open>\<^verbatim>\<open>config.how.value\<close>: only a member of the enumeration has the attribute.\<close>

definition how_value :: "pyval + join_how \<Rightarrow> string result" where
  "how_value h = (case h of Inr m \<Rightarrow> Inr (join_how_value m) | Inl _ \<Rightarrow> Inl AttributeError)"

definition execute_join ::
    "('t, 'd) pandas \<Rightarrow> int \<Rightarrow> (pyval \<times> 't) list \<Rightarrow> string \<Rightarrow> string \<Rightarrow> string \<Rightarrow> string \<Rightarrow> pyval + join_how \<Rightarrow> 't outcome" where
  "execute_join pd ms reg name l r key h =
     bindE (lookup_table reg l) (\<lambda>lt.
     bindE (lookup_table reg r) (\<lambda>rt.
     let ld = to_pandas pd lt; rd = to_pandas pd rt in
     bindE (validate_join_key name key (df_columns pd ld) ''left'') (\<lambda>_.
     bindE (validate_join_key name key (df_columns pd rd) ''right'') (\<lambda>_.
     bindE (how_value h) (\<lambda>hv.
     bindE (df_merge pd key hv ld rd) (\<lambda>joined.
     bindE (from_pandas pd joined) (\<lambda>out.
       let cols = df_columns pd (to_pandas pd out) in
       Inr (RecordJoin name l r (df_columns pd ld) (df_columns pd rd) cols key hv, Inr
            (step_output name ''join'' (tbl_rows pd lt + tbl_rows pd rt) (df_columns pd ld @ df_columns pd rd)
              out (tbl_rows pd out) cols ms [])))))))))"

subsection \<open>Aggregate\<close>

text \<open>\<^verbatim>\<open>agg_dict.setdefault(col, []).append(func)\<close>.\<close>

definition add_aggregation :: "string \<times> string \<Rightarrow> (string \<times> string list) list \<Rightarrow> (string \<times> string list) list" where
  "add_aggregation cf agg_dict =
     AList.update (fst cf) ((case map_of agg_dict (fst cf) of None \<Rightarrow> [] | Some fs \<Rightarrow> fs) @ [snd cf]) agg_dict"

definition build_aggregation_dict ::
    "string \<Rightarrow> string list \<Rightarrow> (string \<times> string) list \<Rightarrow> (string \<times> string list) list result" where
  "build_aggregation_dict name available aggs =
     foldE (\<lambda>cf agg_dict. bindE (validate_column_exists name available (fst cf)) (\<lambda>_. Inr (add_aggregation cf agg_dict))) aggs []"

definition numeric_funcs :: "string list" where
  "numeric_funcs = [''sum'', ''mean'', ''median'', ''std'', ''var'']"

definition check_numeric :: "('t, 'd) pandas \<Rightarrow> string \<Rightarrow> 'd \<Rightarrow> string \<times> string \<Rightarrow> unit result" where
  "check_numeric pd name d cf =
     (if snd cf \<in> set numeric_funcs \<and> \<not> df_is_numeric pd d (fst cf)
      then Inl (raised (AggregationError name (fst cf) (snd cf)
        (''Aggregation function '' @ in_quotes (snd cf) @ '' requires numeric column, but '' @ in_quotes (fst cf) @ '' is '' @
         df_dtype pd d (fst cf))))
      else Inr ())"

text \<open>The column names \<^verbatim>\<open>(column, func)\<close> of the grouped frame, flattened.\<close>

definition flat_name :: "string \<times> string \<Rightarrow> string" where
  "flat_name cf = (if snd cf \<noteq> fst cf then fst cf @ ''_'' @ snd cf else fst cf)"

definition perform_aggregation ::
    "('t, 'd) pandas \<Rightarrow> string \<Rightarrow> string list \<Rightarrow> (string \<times> string list) list \<Rightarrow> 'd \<Rightarrow> 'd result" where
  "perform_aggregation pd name groups agg_dict d =
     bindE (foldE (\<lambda>cf _. check_numeric pd name d cf) (concat (map (\<lambda>(c, fs). map (Pair c) fs) agg_dict)) ()) (\<lambda>_.
     case df_group_agg pd groups agg_dict d of
       Inl reason \<Rightarrow> Inl (raised (AggregationError name (repr_strs (map fst agg_dict))
         (py_str (PList (map (texts_value \<circ> snd) agg_dict))) reason))
     | Inr (grouped, cols) \<Rightarrow> df_reset_index pd (df_set_columns pd (map flat_name cols) grouped))"

definition execute_aggregate ::
    "('t, 'd) pandas \<Rightarrow> int \<Rightarrow> (pyval \<times> 't) list \<Rightarrow> string \<Rightarrow> string \<Rightarrow> string list \<Rightarrow> (string \<times> string) list \<Rightarrow> 't outcome" where
  "execute_aggregate pd ms reg name inp groups aggs =
     bindE (lookup_table reg inp) (\<lambda>t.
     let d = to_pandas pd t; columns_in = df_columns pd d in
     bindE (validate_columns name columns_in groups) (\<lambda>_.
     bindE (build_aggregation_dict name columns_in aggs) (\<lambda>agg_dict.
     bindE (perform_aggregation pd name groups agg_dict d) (\<lambda>aggregated.
     bindE (from_pandas pd aggregated) (\<lambda>out.
       let cols = df_columns pd (to_pandas pd out) in
       Inr (RecordAggregate name inp groups aggs cols, Inr
            (step_output name ''aggregate'' (tbl_rows pd t) columns_in out (tbl_rows pd out) cols ms [])))))))"

subsection \<open>Sort\<close>

definition sort_columns :: "pyval \<Rightarrow> string list" where
  "sort_columns v = filter (\<lambda>c. py_strip c \<noteq> []) (map py_str (case v of PList vs \<Rightarrow> vs | _ \<Rightarrow> [v]))"

definition sort_ascending :: "pyval + sort_order \<Rightarrow> pyval \<Rightarrow> nat \<Rightarrow> bool list result" where
  "sort_ascending ord asc n =
     (if asc = PNone then Inr (replicate n (ord = Inr ASC))
      else let vals = (case asc of PList vs \<Rightarrow> vs | _ \<Rightarrow> [asc]);
               vals = (if length vals = 1 \<and> n > 1 then concat (replicate n vals) else vals)
        in if length vals \<noteq> n
           then Inl (ValueError (''Sort '' @ in_quotes ''ascending'' @ '' length must match '' @ in_quotes ''by'' @ '' columns''))
           else Inr (map truthy vals))"

definition execute_sort ::
    "('t, 'd) pandas \<Rightarrow> int \<Rightarrow> (pyval \<times> 't) list \<Rightarrow> string \<Rightarrow> string \<Rightarrow> pyval \<Rightarrow> pyval + sort_order \<Rightarrow> pyval \<Rightarrow> 't outcome" where
  "execute_sort pd ms reg name inp by_value ord asc =
     bindE (lookup_table reg inp) (\<lambda>t.
     let d = to_pandas pd t; columns_in = df_columns pd d; by_cols = sort_columns by_value in
     bindE (validate_columns name columns_in by_cols) (\<lambda>_.
     bindE (sort_ascending ord asc (length by_cols)) (\<lambda>directions.
     bindE (df_sort_values pd by_cols directions d) (\<lambda>sorted_df.
     bindE (from_pandas pd (df_reset_drop pd sorted_df)) (\<lambda>out.
       let cols = df_columns pd (to_pandas pd out) in
       Inr (RecordPassthrough name ''sort'' inp cols, Inr
            (step_output name ''sort'' (tbl_rows pd t) columns_in out (tbl_rows pd out) cols ms [])))))))"

subsection \<open>Save, validate and publish\<close>

definition output_extension :: "string \<Rightarrow> string" where
  "output_extension fname =
     (let ext = py_lower (path_suffix fname); ext = (if ext = [] then ''.csv'' else ext) in
      if ext \<in> set [''.csv'', ''.json'', ''.parquet''] then ext else ''.csv'')"

text \<open>The production path; its \<^verbatim>\<open>ImportError\<close> leads to the plain upload.\<close>

definition store_output :: "('t, 'd) pandas \<Rightarrow> string \<Rightarrow> string \<Rightarrow> string \<Rightarrow> 't \<Rightarrow> save_result option result" where
  "store_output pd run_id name fname t =
     (case (if store_importable (save_store pd) then execute_save_step (save_store pd) t fname run_id else Inl ImportFailure) of
        Inr r \<Rightarrow> Inr (Some r)
      | Inl (Failure reason) \<Rightarrow> Inl (raised (FileReadError name (if fname = [] then ''output'' else fname) reason))
      | Inl ImportFailure \<Rightarrow>
          let ext = output_extension fname; stored_path = fname @ ''_'' @ fresh_hex pd @ ext in
          (case upload_output pd ext stored_path (to_pandas pd t) of
             Inl reason \<Rightarrow> Inl (raised (FileReadError name stored_path reason))
           | Inr _ \<Rightarrow> Inr None))"

definition with_artifact :: "save_result option \<Rightarrow> 't step_result \<Rightarrow> 't step_result" where
  "with_artifact sv res = res\<lparr>download_url := map_option sv_download_url sv, output_filename := map_option sv_filename sv,
     output_format := map_option sv_format sv, output_object_name := map_option sv_object_name sv,
     output_size_bytes := map_option sv_size_bytes sv\<rparr>"

definition execute_save ::
    "('t, 'd) pandas \<Rightarrow> int \<Rightarrow> (pyval \<times> 't) list \<Rightarrow> string \<Rightarrow> string \<Rightarrow> string \<Rightarrow> string \<Rightarrow> 't outcome" where
  "execute_save pd ms reg run_id name inp fname =
     bindE (lookup_table reg inp) (\<lambda>t.
     bindE (store_output pd run_id name fname t) (\<lambda>sv.
       Inr (RecordSave name inp fname (tbl_names pd t), Inr (with_artifact sv
            (step_output name ''save'' (tbl_rows pd t) (tbl_names pd t) t (tbl_rows pd t) (tbl_names pd t) ms [])))))"

definition validation_warnings :: "validation_step_result \<Rightarrow> string list" where
  "validation_warnings v =
     (if \<not> vs_passed v
      then [''Validation failed: '' @ nat_str (vs_error_count v) @ '' errors, '' @ nat_str (vs_warning_count v) @ '' warnings'']
      else if vs_warning_count v > 0 then [''Validation passed with '' @ nat_str (vs_warning_count v) @ '' warnings'']
      else [])"

definition execute_validate ::
    "('t, 'd) pandas \<Rightarrow> int \<Rightarrow> (pyval \<times> 't) list \<Rightarrow> string \<Rightarrow> string \<Rightarrow> pyval list \<Rightarrow> 't outcome" where
  "execute_validate pd ms reg name inp rs =
     bindE (lookup_table reg inp) (\<lambda>t.
     let d = to_pandas pd t; columns = df_columns pd d in
     bindE (execute_rules (rules_view pd) d rs) (\<lambda>v.
       Inr (RecordPassthrough name ''validate'' inp columns, Inr
            (step_output name ''validate'' (tbl_rows pd t) columns t (tbl_rows pd t) columns ms
              (validation_warnings v)))))"

text \<open>The message is cut at its dash, which is outside the model's characters.\<close>

definition execute_stream_publish ::
    "('t, 'd) pandas \<Rightarrow> int \<Rightarrow> (pyval \<times> 't) list \<Rightarrow> string \<Rightarrow> string \<Rightarrow> string \<Rightarrow> pyval \<Rightarrow> 't outcome" where
  "execute_stream_publish pd ms reg name inp tpc key_col =
     bindE (lookup_table reg inp) (\<lambda>t.
     let d = to_pandas pd t; columns_in = df_columns pd d in
     bindE (publish_rows pd tpc key_col d) (\<lambda>pending.
       if pending > 0
       then Inl (OtherError (''RuntimeError: '' @ int_str pending @
              '' message(s) still in queue after flush''))
       else Inr (RecordPassthrough name ''stream_publish'' inp columns_in, Inr
            (step_output name ''stream_publish'' (tbl_rows pd t) columns_in t (tbl_rows pd t) columns_in ms []))))"

subsection \<open>Reshaping\<close>

text \<open>A column label of the pivoted frame: a pair of levels or a single label.\<close>

definition pivot_label :: "pyval \<times> pyval option \<Rightarrow> string" where
  "pivot_label l = (case snd l of Some lvl \<Rightarrow> py_str lvl @ ''_'' @ py_str (fst l) | None \<Rightarrow> py_str (fst l))"

definition execute_pivot ::
    "('t, 'd) pandas \<Rightarrow> int \<Rightarrow> (pyval \<times> 't) list \<Rightarrow> string \<Rightarrow> string \<Rightarrow> string list \<Rightarrow> string \<Rightarrow> string \<Rightarrow> pyval \<Rightarrow> pyval \<Rightarrow> 't outcome" where
  "execute_pivot pd ms reg name inp idx cols_col vals_col agg fill =
     bindE (lookup_table reg inp) (\<lambda>t.
     let d = to_pandas pd t; columns_in = df_columns pd d in
     bindE (validate_columns name columns_in (idx @ [cols_col, vals_col])) (\<lambda>_.
     bindE (df_pivot_table pd idx cols_col vals_col agg fill d) (\<lambda>(pivoted, labels).
     bindE (df_reset_index pd (df_set_columns pd (map pivot_label labels) pivoted)) (\<lambda>result_df.
     bindE (from_pandas pd result_df) (\<lambda>out.
       let cols = df_columns pd (to_pandas pd out) in
       Inr (RecordPivot name inp (case idx of [] \<Rightarrow> [] | i # _ \<Rightarrow> i) cols_col vals_col cols, Inr
            (step_output name ''pivot'' (tbl_rows pd t) columns_in out (tbl_rows pd out) cols ms [])))))))"

text \<open>The overlap is a set; the model writes it in the order of \<^verbatim>\<open>id_vars\<close>.\<close>

definition overlap_error :: "string list \<Rightarrow> pyexn" where
  "overlap_error overlap = ValueError (''id_vars and value_vars must not overlap: {'' @ join '', '' (map repr_str overlap) @ ''}'')"

definition execute_unpivot ::
    "('t, 'd) pandas \<Rightarrow> int \<Rightarrow> (pyval \<times> 't) list \<Rightarrow> string \<Rightarrow> string \<Rightarrow> string list \<Rightarrow> string list \<Rightarrow> pyval \<Rightarrow> pyval \<Rightarrow> 't outcome" where
  "execute_unpivot pd ms reg name inp ids vals vname valname =
     bindE (lookup_table reg inp) (\<lambda>t.
     let d = to_pandas pd t; columns_in = df_columns pd d; overlap = filter (\<lambda>c. c \<in> set vals) (remdups ids) in
     bindE (validate_columns name columns_in (ids @ vals)) (\<lambda>_.
     if overlap \<noteq> [] then Inl (overlap_error overlap)
     else bindE (df_melt pd ids vals vname valname d) (\<lambda>melted.
     bindE (from_pandas pd melted) (\<lambda>out.
       let cols = df_columns pd (to_pandas pd out) in
       Inr (RecordUnpivot name inp ids vals cols, Inr
            (step_output name ''unpivot'' (tbl_rows pd t) columns_in out (tbl_rows pd out) cols ms []))))))"

definition execute_deduplicate ::
    "('t, 'd) pandas \<Rightarrow> int \<Rightarrow> (pyval \<times> 't) list \<Rightarrow> string \<Rightarrow> string \<Rightarrow> string list \<Rightarrow> pyval \<Rightarrow> 't outcome" where
  "execute_deduplicate pd ms reg name inp sub kp =
     bindE (lookup_table reg inp) (\<lambda>t.
     let d = to_pandas pd t; columns_in = df_columns pd d;
         kp' = (if kp = PStr ''none'' then PBool False else kp);
         sub' = (if sub = [] then None else Some sub) in
     bindE (validate_columns name columns_in sub) (\<lambda>_.
     bindE (df_drop_duplicates pd sub' kp' d) (\<lambda>deduped.
     bindE (from_pandas pd (df_reset_drop pd deduped)) (\<lambda>out.
       let cols = df_columns pd (to_pandas pd out) in
       Inr (RecordDeduplicate name inp cols, Inr
            (step_output name ''deduplicate'' (tbl_rows pd t) columns_in out (tbl_rows pd out) cols ms []))))))"

subsection \<open>Filling and sampling\<close>

definition fill_numeric :: "('t, 'd) pandas \<Rightarrow> string \<Rightarrow> (string \<Rightarrow> 'd \<Rightarrow> pyval) \<Rightarrow> string \<Rightarrow> 'd \<Rightarrow> 'd result" where
  "fill_numeric pd strat stat col d =
     (if \<not> df_is_numeric pd d col then Inl (ValueError (''Strategy '' @ in_quotes strat @ '' requires numeric column''))
      else df_fillna pd col (stat col d) d)"

definition fill_column :: "('t, 'd) pandas \<Rightarrow> pyval \<Rightarrow> pyval \<Rightarrow> string \<Rightarrow> 'd \<Rightarrow> 'd result" where
  "fill_column pd strat const col d =
     (if strat = PStr ''constant'' then
        (if const = PNone then Inl (ValueError (''constant_value required when strategy is '' @ in_quotes ''constant''))
         else df_fillna pd col const d)
      else if strat = PStr ''forward_fill'' then df_ffill pd col d
      else if strat = PStr ''backward_fill'' then df_bfill pd col d
      else if strat = PStr ''mean'' then fill_numeric pd ''mean'' (df_mean pd) col d
      else if strat = PStr ''median'' then fill_numeric pd ''median'' (df_median pd) col d
      else if strat = PStr ''mode'' then (case df_mode pd col d of [] \<Rightarrow> Inr d | v # _ \<Rightarrow> df_fillna pd col v d)
      else Inr d)"

definition execute_fill_nulls ::
    "('t, 'd) pandas \<Rightarrow> int \<Rightarrow> (pyval \<times> 't) list \<Rightarrow> string \<Rightarrow> string \<Rightarrow> string \<Rightarrow> string list \<Rightarrow> pyval \<Rightarrow> 't outcome" where
  "execute_fill_nulls pd ms reg name inp strat cols const =
     bindE (lookup_table reg inp) (\<lambda>t.
     let d = to_pandas pd t; columns_in = df_columns pd d in
     bindE (validate_columns name columns_in cols) (\<lambda>_.
     bindE (foldE (fill_column pd (PStr strat) const) cols d) (\<lambda>filled.
     bindE (from_pandas pd filled) (\<lambda>out.
       let out_cols = df_columns pd (to_pandas pd out) in
       Inr (RecordFillNulls name inp out_cols strat, Inr
            (step_output name ''fill_nulls'' (tbl_rows pd t) columns_in out (tbl_rows pd out) out_cols ms []))))))"

text \<open>\<^verbatim>\<open>int(len(input_df) * fraction)\<close> and \<^verbatim>\<open>int(len(group_df) / len(input_df) * target_n)\<close> in floats.\<close>

definition scaled_rows :: "int \<Rightarrow> pyval \<Rightarrow> int" where
  "scaled_rows n v = (case v of
     PInt i \<Rightarrow> n * i
   | PFloat r (Some q) \<Rightarrow> truncate_rat (round64 (round64 (of_int n) * q))
   | _ \<Rightarrow> 0)"

definition group_share :: "int \<Rightarrow> int \<Rightarrow> int \<Rightarrow> int" where
  "group_share len_group len_all target =
     max 1 (truncate_rat (round64 (round64 (of_int len_group / of_int len_all) * round64 (of_int target))))"

definition sample_group :: "('t, 'd) pandas \<Rightarrow> int \<Rightarrow> int \<Rightarrow> pyval \<Rightarrow> 'd \<Rightarrow> 'd result" where
  "sample_group pd len_all target seed g =
     df_sample pd (min (group_share (df_len pd g) len_all target) (df_len pd g)) seed g"

definition run_sample :: "('t, 'd) pandas \<Rightarrow> int option \<Rightarrow> pyval \<Rightarrow> pyval \<Rightarrow> string \<Rightarrow> 'd \<Rightarrow> 'd result" where
  "run_sample pd num fract seed strat d =
     (let too_many = (case num of Some k \<Rightarrow> k > df_len pd d | None \<Rightarrow> False) in
      if too_many then Inr (df_reset_drop pd d)
      else if strat \<noteq> [] then
        (let target = (case num of Some k \<Rightarrow> k | None \<Rightarrow> scaled_rows (df_len pd d) fract) in
         bindE (mapE (sample_group pd (df_len pd d) target seed) (df_groups pd strat d)) (\<lambda>gs.
         bindE (df_concat pd gs) (\<lambda>all_groups. df_sample_frac pd (PInt 1) seed all_groups)))
      else case num of Some k \<Rightarrow> df_sample pd k seed d | None \<Rightarrow> df_sample_frac pd fract seed d)"

definition execute_sample ::
    "('t, 'd) pandas \<Rightarrow> int \<Rightarrow> (pyval \<times> 't) list \<Rightarrow> string \<Rightarrow> string \<Rightarrow> int option \<Rightarrow> pyval \<Rightarrow> pyval \<Rightarrow> string \<Rightarrow> 't outcome" where
  "execute_sample pd ms reg name inp num fract seed strat =
     bindE (lookup_table reg inp) (\<lambda>t.
     let d = to_pandas pd t; columns_in = df_columns pd d in
     if num = None \<and> fract = PNone then Inl (ValueError ''Either n or fraction must be specified'')
     else if num \<noteq> None \<and> fract \<noteq> PNone then Inl (ValueError ''Specify either n or fraction, not both'')
     else bindE (validate_columns name columns_in (if strat = [] then [] else [strat])) (\<lambda>_.
     bindE (run_sample pd num fract seed strat d) (\<lambda>sampled.
     bindE (from_pandas pd (df_reset_drop pd sampled)) (\<lambda>out.
       let cols = df_columns pd (to_pandas pd out) in
       Inr (RecordSample name inp cols, Inr
            (step_output name ''sample'' (tbl_rows pd t) columns_in out (tbl_rows pd out) cols ms []))))))"

subsection \<open>SQL and Wasm\<close>

definition execute_sql :: "'t outcome" where
  "execute_sql = Inl (OtherError (''NotImplementedError: SQL steps are only supported via DuckDBExecutor. '' @
     ''The SmartExecutor should route these requests to DuckDB.''))"

definition execute_wasm_compute ::
    "('t, 'd) pandas \<Rightarrow> int \<Rightarrow> string list \<Rightarrow> (pyval \<times> 't) list \<Rightarrow> step_config \<Rightarrow> string \<Rightarrow> string \<Rightarrow> string \<Rightarrow> string \<Rightarrow>
     string list \<Rightarrow> string \<Rightarrow> 't outcome" where
  "execute_wasm_compute pd ms modules reg st name inp module_id func in_cols out_col =
     bindE (lookup_table reg inp) (\<lambda>t.
     if module_id \<notin> set modules
     then Inl (ValueError (''Wasm module '' @ in_quotes module_id @ '' not loaded. Available modules: '' @ repr_strs modules))
     else bindE (run_wasm pd t st module_id) (\<lambda>out.
       let cols = df_columns pd (to_pandas pd out) in
       Inr (RecordWasmCompute name inp func in_cols out_col cols, Inr
            (step_output name ''wasm_compute'' (tbl_rows pd t) (df_columns pd (to_pandas pd t)) out (tbl_rows pd out) cols ms []))))"

subsection \<open>Dispatch\<close>

definition registered_types :: "step_type list" where
  "registered_types = [LOAD, FILTER, SELECT, RENAME, JOIN, AGGREGATE, SORT, SAVE, VALIDATE, PIVOT, UNPIVOT,
     DEDUPLICATE, FILL_NULLS, SAMPLE, SQL, WASM_COMPUTE, STREAM_PUBLISH]"

text \<open>\<^verbatim>\<open>str\<close> and \<^verbatim>\<open>repr\<close> of a member of the enumeration.\<close>

definition member_name :: "step_type \<Rightarrow> string" where
  "member_name ty = ''StepType.'' @ map upper_ascii (step_type_value ty)"

definition member_repr :: "step_type \<Rightarrow> string" where
  "member_repr ty = ''<'' @ member_name ty @ '': '' @ repr_str (step_type_value ty) @ ''>''"

definition no_executor :: "pyval + step_type \<Rightarrow> pyexn" where
  "no_executor ty =
     (case ty of
        Inl v \<Rightarrow> if hashable v then ValueError (''No executor registered for step type '' @ in_quotes (py_str v) @
              ''. Registered types: ['' @ join '', '' (map member_repr registered_types) @ '']'')
               else TypeError
      | Inr m \<Rightarrow> ValueError (''No executor registered for step type '' @ in_quotes (member_name m) @
              ''. Registered types: ['' @ join '', '' (map member_repr registered_types) @ '']''))"

definition text_of :: "pyval \<Rightarrow> string result" where
  "text_of v = (case v of PStr s \<Rightarrow> Inr s | _ \<Rightarrow> Inl TypeError)"

definition texts_of :: "pyval \<Rightarrow> string list result" where
  "texts_of v = (case v of PList vs \<Rightarrow> mapE text_of vs | _ \<Rightarrow> Inl TypeError)"

definition text_pairs_of :: "pyval \<Rightarrow> (string \<times> string) list result" where
  "text_pairs_of v = (case v of
     PDict kvs \<Rightarrow> mapE (\<lambda>(k, w). bindE (text_of k) (\<lambda>k'. bindE (text_of w) (\<lambda>w'. Inr (k', w')))) kvs
   | _ \<Rightarrow> Inl TypeError)"

definition aggregation_of :: "pyval \<Rightarrow> (string \<times> string) result" where
  "aggregation_of v = (case v of
     PDict a \<Rightarrow> bindE (text_of (get_or a ''column'' empty_str)) (\<lambda>c. bindE (text_of (get_or a ''function'' empty_str)) (\<lambda>f. Inr (c, f)))
   | _ \<Rightarrow> Inl TypeError)"

definition list_of :: "pyval \<Rightarrow> pyval list result" where
  "list_of v = (case v of PList vs \<Rightarrow> Inr vs | _ \<Rightarrow> Inl TypeError)"

definition optional_int :: "pyval \<Rightarrow> int option result" where
  "optional_int v = (case v of PNone \<Rightarrow> Inr None | PInt i \<Rightarrow> Inr (Some i) | _ \<Rightarrow> Inl TypeError)"

definition optional_text :: "pyval \<Rightarrow> string result" where
  "optional_text v = (case v of PNone \<Rightarrow> Inr [] | PStr s \<Rightarrow> Inr s | _ \<Rightarrow> Inl TypeError)"

definition number_or_none :: "pyval \<Rightarrow> pyval result" where
  "number_or_none v = (case v of PNone \<Rightarrow> Inr v | PInt _ \<Rightarrow> Inr v | PFloat _ (Some _) \<Rightarrow> Inr v | _ \<Rightarrow> Inl TypeError)"

record files_env =
  file_paths :: "(string \<times> string) list"
  file_metadata :: "(string \<times> (string \<times> string) list) list"
  wasm_modules :: "string list"
  user_role :: "string option"
  current_run_id :: string

definition run_load :: "('t, 'd) pandas \<Rightarrow> int \<Rightarrow> files_env \<Rightarrow> step_config \<Rightarrow> 't outcome" where
  "run_load pd ms fs st =
     (case cfg_fields st of
        LoadFields fid _ \<Rightarrow> bindE (text_of (step_name st)) (\<lambda>name. bindE (text_of fid) (\<lambda>file.
          execute_load pd ms (file_paths fs) (file_metadata fs) (user_role fs) name file))
      | _ \<Rightarrow> Inl TypeError)"

definition run_step ::
    "('t, 'd) pandas \<Rightarrow> int \<Rightarrow> files_env \<Rightarrow> step_config \<Rightarrow> (pyval \<times> 't) list \<Rightarrow> string \<Rightarrow> 't outcome" where
  "run_step pd ms fs st reg name =
     (case cfg_fields st of
        BaseFields \<Rightarrow> Inl TypeError
      | LoadFields _ _ \<Rightarrow> run_load pd ms (fs\<lparr>user_role := None\<rparr>) st
      | FilterFields i c op v \<Rightarrow> bindE (text_of i) (\<lambda>inp. bindE (text_of c) (\<lambda>col. execute_filter pd ms reg name inp col op v))
      | SelectFields i cs \<Rightarrow> bindE (text_of i) (\<lambda>inp. bindE (texts_of cs) (\<lambda>cols. execute_select pd ms reg name inp cols))
      | RenameFields i m \<Rightarrow> bindE (text_of i) (\<lambda>inp. bindE (text_pairs_of m) (\<lambda>ps. execute_rename pd ms reg name inp ps))
      | JoinFields l r k h \<Rightarrow> bindE (text_of l) (\<lambda>ln. bindE (text_of r) (\<lambda>rn. execute_join pd ms reg name ln rn k h))
      | AggregateFields i g a \<Rightarrow> bindE (text_of i) (\<lambda>inp. bindE (texts_of g) (\<lambda>gs. bindE (list_of a) (\<lambda>as.
          bindE (mapE aggregation_of as) (\<lambda>aggs. execute_aggregate pd ms reg name inp gs aggs))))
      | SortFields i b ord asc \<Rightarrow> bindE (text_of i) (\<lambda>inp. execute_sort pd ms reg name inp b ord asc)
      | SaveFields i f \<Rightarrow> bindE (text_of i) (\<lambda>inp. bindE (text_of f) (\<lambda>fname.
          execute_save pd ms reg (current_run_id fs) name inp fname))
      | ValidateFields i r \<Rightarrow> bindE (text_of i) (\<lambda>inp. bindE (list_of r) (\<lambda>rs. execute_validate pd ms reg name inp rs))
      | PivotFields i ix c v ag fv \<Rightarrow> bindE (text_of i) (\<lambda>inp. bindE (texts_of ix) (\<lambda>idx. bindE (text_of c) (\<lambda>cc. bindE (text_of v) (\<lambda>vc.
          execute_pivot pd ms reg name inp idx cc vc ag fv))))
      | UnpivotFields i ids vs vn vl \<Rightarrow> bindE (text_of i) (\<lambda>inp. bindE (texts_of ids) (\<lambda>is. bindE (texts_of vs) (\<lambda>vals.
          execute_unpivot pd ms reg name inp is vals vn vl)))
      | DeduplicateFields i s k \<Rightarrow> bindE (text_of i) (\<lambda>inp. bindE (texts_of s) (\<lambda>sub. execute_deduplicate pd ms reg name inp sub k))
      | FillNullsFields i s cs v \<Rightarrow> bindE (text_of i) (\<lambda>inp. bindE (text_of s) (\<lambda>strat. bindE (texts_of cs) (\<lambda>cols.
          execute_fill_nulls pd ms reg name inp strat cols v)))
      | SampleFields i m fr rs sb \<Rightarrow> bindE (text_of i) (\<lambda>inp. bindE (optional_int m) (\<lambda>num. bindE (number_or_none fr) (\<lambda>fract.
          bindE (optional_text sb) (\<lambda>strat. execute_sample pd ms reg name inp num fract rs strat))))
      | SqlFields i q \<Rightarrow> execute_sql
      | WasmComputeFields i w f ic oc \<Rightarrow> bindE (text_of i) (\<lambda>inp. bindE (text_of w) (\<lambda>mid. bindE (text_of f) (\<lambda>func.
          bindE (texts_of ic) (\<lambda>cols. bindE (text_of oc) (\<lambda>oc'.
            execute_wasm_compute pd ms (wasm_modules fs) reg st name inp mid func cols oc')))))
      | TransformFields i e \<Rightarrow> Inl TypeError
      | StreamConsumeFields t g bs bt d \<Rightarrow> Inl TypeError
      | StreamPublishFields i t s k \<Rightarrow> bindE (text_of i) (\<lambda>inp. bindE (text_of t) (\<lambda>tpc.
          execute_stream_publish pd ms reg name inp tpc k)))"

definition execute_step ::
    "('t, 'd) pandas \<Rightarrow> int \<Rightarrow> files_env \<Rightarrow> step_config \<Rightarrow> (pyval \<times> 't) list \<Rightarrow> 't outcome" where
  "execute_step pd ms fs st reg =
     (if step_type st \<notin> set (map Inr registered_types) then Inl (no_executor (step_type st))
      else bindE (text_of (step_name st)) (run_step pd ms fs st reg))"

text \<open>The recorder after the call, and the result.\<close>

definition commit :: "'g nx_ops \<Rightarrow> 't outcome \<Rightarrow> 'g \<Rightarrow> 'g \<times> 't step_result result" where
  "commit nx r rec = (case r of Inl e \<Rightarrow> (rec, Inl e) | Inr (call, res) \<Rightarrow> (apply_call nx call rec, res))"

text \<open>The engines of the smart executor with these executors on the Pandas side.\<close>

definition executor_engines ::
    "('t, 'd) pandas \<Rightarrow> 'g nx_ops \<Rightarrow> int \<Rightarrow> files_env \<Rightarrow> (step_config \<Rightarrow> 't \<Rightarrow> (string \<times> 't) list \<Rightarrow> 't result) \<Rightarrow>
     ('t, 'g) engines" where
  "executor_engines pd nx ms fs duckdb =
     \<lparr>num_rows = tbl_rows pd, column_names = tbl_names pd,
      pandas_load = (\<lambda>st reg rec. commit nx (run_load pd ms fs st) rec),
      pandas_execute = (\<lambda>st reg rec. commit nx (execute_step pd ms (fs\<lparr>file_paths := [], file_metadata := []\<rparr>) st reg) rec),
      duckdb_execute_step = duckdb\<rparr>"

section \<open>What every executor keeps to\<close>

text \<open>An executor calls the recorder at most once, for its own step and the inputs it has read.\<close>

locale executor =
  fixes run :: "(pyval \<times> 't) list \<Rightarrow> 't outcome" and name :: string and ins :: "string list"
  assumes call: "run reg = Inr (c, r) \<Longrightarrow> call_step c = name \<and> set (call_inputs c) \<subseteq> set ins"
    and reads: "run reg = Inr (c, r) \<Longrightarrow> i \<in> set ins \<Longrightarrow> dict_get reg (PStr i) \<noteq> None"
begin

lemma commit_cases:
  obtains "fst (commit nx (run reg) rec) = rec"
  | c where "fst (commit nx (run reg) rec) = apply_call nx c rec" "call_step c = name" "set (call_inputs c) \<subseteq> set ins"
  using call by (cases "run reg") (auto simp: commit_def)

end

lemma lookup_table_Inr [simp]: "lookup_table reg n = Inr t \<longleftrightarrow> dict_get reg (PStr n) = Some t"
  by (simp add: lookup_table_def split: option.splits)

lemmas outcome_simps = bindE_eq_Inr_iff Let_def

interpretation load_run: executor "\<lambda>_. execute_load pd ms paths metas role name fid" name "[]"
  by unfold_locales (auto simp: execute_load_def outcome_simps)

interpretation filter_run: executor "\<lambda>reg. execute_filter pd ms reg name inp col op v" name "[inp]"
  by unfold_locales (auto simp: execute_filter_def outcome_simps)

interpretation select_run: executor "\<lambda>reg. execute_select pd ms reg name inp cols" name "[inp]"
  by unfold_locales (auto simp: execute_select_def outcome_simps)

interpretation rename_run: executor "\<lambda>reg. execute_rename pd ms reg name inp m" name "[inp]"
  by unfold_locales (auto simp: execute_rename_def outcome_simps split: if_splits)

interpretation join_run: executor "\<lambda>reg. execute_join pd ms reg name l r key h" name "[l, r]"
  by unfold_locales (auto simp: execute_join_def outcome_simps)

interpretation aggregate_run: executor "\<lambda>reg. execute_aggregate pd ms reg name inp gs aggs" name "[inp]"
  by unfold_locales (auto simp: execute_aggregate_def outcome_simps)

interpretation sort_run: executor "\<lambda>reg. execute_sort pd ms reg name inp b ord asc" name "[inp]"
  by unfold_locales (auto simp: execute_sort_def outcome_simps)

interpretation save_run: executor "\<lambda>reg. execute_save pd ms reg run_id name inp fname" name "[inp]"
  by unfold_locales (auto simp: execute_save_def outcome_simps)

interpretation validate_run: executor "\<lambda>reg. execute_validate pd ms reg name inp rs" name "[inp]"
  by unfold_locales (auto simp: execute_validate_def outcome_simps)

interpretation publish_run: executor "\<lambda>reg. execute_stream_publish pd ms reg name inp tpc k" name "[inp]"
  by unfold_locales (auto simp: execute_stream_publish_def outcome_simps split: if_splits)

interpretation pivot_run: executor "\<lambda>reg. execute_pivot pd ms reg name inp idx cc vc ag fv" name "[inp]"
  by unfold_locales (auto simp: execute_pivot_def outcome_simps)

interpretation unpivot_run: executor "\<lambda>reg. execute_unpivot pd ms reg name inp ids vals vn vl" name "[inp]"
  by unfold_locales (auto simp: execute_unpivot_def outcome_simps split: if_splits)

interpretation deduplicate_run: executor "\<lambda>reg. execute_deduplicate pd ms reg name inp sub kp" name "[inp]"
  by unfold_locales (auto simp: execute_deduplicate_def outcome_simps)

interpretation fill_nulls_run: executor "\<lambda>reg. execute_fill_nulls pd ms reg name inp strat cols v" name "[inp]"
  by unfold_locales (auto simp: execute_fill_nulls_def outcome_simps)

interpretation sample_run: executor "\<lambda>reg. execute_sample pd ms reg name inp num fract seed strat" name "[inp]"
  by unfold_locales (auto simp: execute_sample_def outcome_simps split: if_splits)

interpretation wasm_run: executor "\<lambda>reg. execute_wasm_compute pd ms mods reg st name inp mid func cols oc" name "[inp]"
  by unfold_locales (auto simp: execute_wasm_compute_def outcome_simps split: if_splits)

text \<open>The calls a step may make: under its own name, reading its own references.\<close>

definition records :: "step_config \<Rightarrow> record_call \<Rightarrow> bool" where
  "records s c \<longleftrightarrow> step_name s = PStr (call_step c) \<and> PStr ` set (call_inputs c) \<subseteq> insert (PStr []) (set (step_inputs s))"

lemma text_of_PStr [simp]: "text_of (PStr s) = Inr s"
  by (simp add: text_of_def)

lemma text_of_Inr [simp]: "text_of v = Inr s \<longleftrightarrow> v = PStr s"
  by (cases v) (auto simp: text_of_def)

lemma in_step_inputs:
  "input_attr (cfg_fields st) = Some (PStr i) \<Longrightarrow> i = [] \<or> PStr i \<in> set (step_inputs st)"
  by (cases "cfg_fields st") (auto simp: step_inputs_def)

lemmas run_calls = load_run.call filter_run.call select_run.call rename_run.call join_run.call aggregate_run.call
  sort_run.call save_run.call validate_run.call publish_run.call pivot_run.call unpivot_run.call deduplicate_run.call
  fill_nulls_run.call sample_run.call wasm_run.call

lemma run_load_call: "run_load pd ms fs st = Inr (c, r) \<Longrightarrow> step_name st = PStr (call_step c) \<and> call_inputs c = []"
  by (auto simp: run_load_def bindE_eq_Inr_iff split: step_fields.splits dest!: load_run.call)

lemma run_load_records: "run_load pd ms fs st = Inr (c, r) \<Longrightarrow> records st c"
  by (auto simp: records_def dest: run_load_call)

lemma run_step_records:
  "run_step pd ms fs st reg name = Inr (c, r) \<Longrightarrow> step_name st = PStr name \<Longrightarrow> records st c"
  by (cases "cfg_fields st")
    (auto simp: run_step_def bindE_eq_Inr_iff execute_sql_def records_def step_inputs_def
      dest!: run_calls run_load_call)

lemma execute_step_records: "execute_step pd ms fs st reg = Inr (c, r) \<Longrightarrow> records st c"
  by (auto simp: execute_step_def bindE_eq_Inr_iff intro: run_step_records split: if_splits)

section \<open>Missing columns\<close>

text \<open>The columns of its input that a step names, in the order in which they are checked.\<close>

fun needed_columns :: "step_fields \<Rightarrow> string list result" where
  "needed_columns (FilterFields i c op v) = bindE (text_of c) (\<lambda>col. Inr [col])"
| "needed_columns (SelectFields i cs) = texts_of cs"
| "needed_columns (RenameFields i m) = bindE (text_pairs_of m) (\<lambda>ps. Inr (map fst ps))"
| "needed_columns (AggregateFields i g a) = bindE (texts_of g) (\<lambda>gs. bindE (list_of a) (\<lambda>as.
     bindE (mapE aggregation_of as) (\<lambda>aggs. Inr (gs @ map fst aggs))))"
| "needed_columns (SortFields i b ord asc) = Inr (sort_columns b)"
| "needed_columns (PivotFields i ix c v ag fv) = bindE (texts_of ix) (\<lambda>idx. bindE (text_of c) (\<lambda>cc. bindE (text_of v) (\<lambda>vc.
     Inr (idx @ [cc, vc]))))"
| "needed_columns (UnpivotFields i ids vs vn vl) = bindE (texts_of ids) (\<lambda>is. bindE (texts_of vs) (\<lambda>vals. Inr (is @ vals)))"
| "needed_columns (DeduplicateFields i s k) = texts_of s"
| "needed_columns (FillNullsFields i s cs v) = bindE (text_of s) (\<lambda>_. texts_of cs)"
| "needed_columns f = Inr []"

lemma validate_columns_Nil [simp]: "validate_columns name available [] = Inr ()"
  by (simp add: validate_columns_def)

lemma validate_columns_Cons [simp]:
  "validate_columns name available (c # cs) =
     (if c \<in> set available then validate_columns name available cs
      else Inl (raised (ColumnNotFoundError name c available)))"
  by (simp add: validate_columns_def validate_column_exists_def)

lemma validate_columns_append:
  "validate_columns name available (cs @ ds) =
     bindE (validate_columns name available cs) (\<lambda>_. validate_columns name available ds)"
  by (induction cs) simp_all

lemma validate_columns_missing:
  "find (\<lambda>c. c \<notin> set available) cols = Some c \<Longrightarrow>
     validate_columns name available cols = Inl (raised (ColumnNotFoundError name c available))"
  by (induction cols) (auto split: if_splits)

lemma validate_columns_Inr: "validate_columns name available cols = Inr u \<longleftrightarrow> set cols \<subseteq> set available"
  by (induction cols) auto

lemma build_aggregation_dict_missing:
  "find (\<lambda>c. c \<notin> set available) (map fst aggs) = Some c \<Longrightarrow>
     build_aggregation_dict name available aggs = Inl (raised (ColumnNotFoundError name c available))"
proof -
  have "foldE (\<lambda>cf d. bindE (validate_column_exists name available (fst cf)) (\<lambda>_. Inr (add_aggregation cf d))) aggs d0 =
      Inl (raised (ColumnNotFoundError name c available))"
    if "find (\<lambda>c. c \<notin> set available) (map fst aggs) = Some c" for d0
    using that by (induction aggs arbitrary: d0) (auto simp: validate_column_exists_def split: if_splits)
  then show "find (\<lambda>c. c \<notin> set available) (map fst aggs) = Some c \<Longrightarrow> ?thesis" by (simp add: build_aggregation_dict_def)
qed

lemma find_append: "find P (xs @ ys) = (case find P xs of None \<Rightarrow> find P ys | Some x \<Rightarrow> Some x)"
  by (induction xs) simp_all

lemma find_missing_None: "find (\<lambda>c. c \<notin> set available) cols = None \<Longrightarrow> validate_columns name available cols = Inr ()"
  by (simp add: validate_columns_Inr find_None_iff subset_iff)

lemma run_step_missing:
  assumes "input_attr (cfg_fields st) = Some (PStr inp)" and "dict_get reg (PStr inp) = Some t"
    and "needed_columns (cfg_fields st) = Inr cols"
    and "find (\<lambda>c. c \<notin> set (df_columns pd (to_pandas pd t))) cols = Some c"
  shows "run_step pd ms fs st reg name = Inl (raised (ColumnNotFoundError name c (df_columns pd (to_pandas pd t))))"
proof (cases "cfg_fields st")
  case (AggregateFields i g a)
  with assms show ?thesis
    by (auto simp: run_step_def bindE_eq_Inr_iff execute_aggregate_def Let_def lookup_table_def find_append
        validate_columns_missing find_missing_None build_aggregation_dict_missing split: option.splits)
qed (use assms in \<open>auto simp: run_step_def bindE_eq_Inr_iff Let_def lookup_table_def validate_columns_missing
    validate_column_exists_def execute_filter_def execute_select_def execute_rename_def execute_sort_def execute_pivot_def
    execute_unpivot_def execute_deduplicate_def execute_fill_nulls_def split: if_splits\<close>)

section \<open>Results\<close>

lemma step_output_simps [simp]:
  "rows_out (step_output n ty ni ci out no co ms ws) = no" "rows_in (step_output n ty ni ci out no co ms ws) = ni"
  "output_table (step_output n ty ni ci out no co ms ws) = out" "columns_out (step_output n ty ni ci out no co ms ws) = co"
  "columns_in (step_output n ty ni ci out no co ms ws) = ci" "res_step_name (step_output n ty ni ci out no co ms ws) = PStr n"
  by (simp_all add: step_output_def)

lemma with_artifact_simps [simp]:
  "rows_out (with_artifact sv res) = rows_out res" "rows_in (with_artifact sv res) = rows_in res"
  "output_table (with_artifact sv res) = output_table res" "res_step_name (with_artifact sv res) = res_step_name res"
  by (simp_all add: with_artifact_def)

text \<open>The result of a step counts the rows of the table it hands on and names its step.\<close>

definition describes :: "('t, 'd) pandas \<Rightarrow> string \<Rightarrow> 't outcome \<Rightarrow> bool" where
  "describes pd name r \<longleftrightarrow>
     (\<forall>c res. r = Inr (c, Inr res) \<longrightarrow> res_step_name res = PStr name \<and> rows_out res = tbl_rows pd (output_table res))"

lemma describes_Inl [simp]: "describes pd name (Inl e)"
  by (simp add: describes_def)

lemma describes_bindE [intro!]: "(\<And>x. m = Inr x \<Longrightarrow> describes pd name (f x)) \<Longrightarrow> describes pd name (bindE m f)"
  by (auto simp: describes_def bindE_eq_Inr_iff)

lemma describes_Inr [simp]:
  "describes pd name (Inr (c, Inr (step_output n ty ni ci out no co ms ws))) \<longleftrightarrow> n = name \<and> no = tbl_rows pd out"
  by (auto simp: describes_def)

lemma describes_artifact [simp]:
  "describes pd name (Inr (c, Inr (with_artifact sv (step_output n ty ni ci out no co ms ws)))) \<longleftrightarrow> n = name \<and> no = tbl_rows pd out"
  by (auto simp: describes_def)

lemma describes_load:
  assumes "\<And>d t. from_pandas pd d = Inr t \<Longrightarrow> tbl_rows pd t = df_len pd d"
  shows "describes pd name (execute_load pd ms paths metas role name fid)"
  using assms by (auto simp: execute_load_def describes_def bindE_eq_Inr_iff Let_def)

lemmas executor_defs = execute_filter_def execute_select_def execute_rename_def execute_join_def execute_aggregate_def
  execute_sort_def execute_save_def execute_validate_def execute_stream_publish_def execute_pivot_def execute_unpivot_def
  execute_deduplicate_def execute_fill_nulls_def execute_sample_def execute_sql_def execute_wasm_compute_def

lemma describes_executors:
  "describes pd name (execute_filter pd ms reg name inp col op v)"
  "describes pd name (execute_select pd ms reg name inp cols)"
  "describes pd name (execute_rename pd ms reg name inp m)"
  "describes pd name (execute_join pd ms reg name l r key h)"
  "describes pd name (execute_aggregate pd ms reg name inp gs aggs)"
  "describes pd name (execute_sort pd ms reg name inp b ord asc)"
  "describes pd name (execute_save pd ms reg run_id name inp fname)"
  "describes pd name (execute_validate pd ms reg name inp rs)"
  "describes pd name (execute_stream_publish pd ms reg name inp tpc k)"
  "describes pd name (execute_pivot pd ms reg name inp idx cc vc ag fv)"
  "describes pd name (execute_unpivot pd ms reg name inp ids vals vn vl)"
  "describes pd name (execute_deduplicate pd ms reg name inp sub kp)"
  "describes pd name (execute_fill_nulls pd ms reg name inp strat cols const)"
  "describes pd name (execute_sample pd ms reg name inp num fract seed strat')"
  "describes pd name execute_sql"
  "describes pd name (execute_wasm_compute pd ms mods reg st name inp mid func cols oc)"
  by (auto simp: executor_defs Let_def)

lemma describes_run_step:
  assumes "\<And>d t. from_pandas pd d = Inr t \<Longrightarrow> tbl_rows pd t = df_len pd d" and "step_name st = PStr name"
  shows "describes pd name (run_step pd ms fs st reg name)"
  by (cases "cfg_fields st")
    (auto simp: run_step_def run_load_def assms(2) intro!: describes_executors describes_load assms(1))

lemma rename_targets:
  assumes "distinct cols" and "distinct (map fst m)" and "distinct (map snd m)" and "rename_conflicts cols m = []"
  shows "distinct (map (\<lambda>c. case map_of m c of None \<Rightarrow> c | Some n \<Rightarrow> n) cols)"
proof -
  let ?f = "\<lambda>c. case map_of m c of None \<Rightarrow> c | Some n \<Rightarrow> n"
  have kept: "c \<notin> set (map snd m)" if "c \<in> set cols" "map_of m c = None" for c
    using assms(4) that by (auto simp: rename_conflicts_def filter_empty_conv map_of_eq_None_iff)
  have target: "n \<in> set (map snd m)" if "map_of m c = Some n" for c n
    using map_of_SomeD [OF that] by force
  have inj: "a = b" if "map_of m a = Some n" "map_of m b = Some n" for a b n
  proof -
    from that have "(a, n) \<in> set m" "(b, n) \<in> set m" by (auto dest: map_of_SomeD)
    with assms(3) show ?thesis by (metis distinct_map inj_onD prod.inject snd_conv)
  qed
  have "inj_on ?f (set cols)"
    by (rule inj_onI) (auto split: option.splits dest: inj kept target)
  with assms(1) show ?thesis by (simp add: distinct_map)
qed

section \<open>Properties\<close>

text \<open>A small instance for the examples: frames as lists of columns, where filtering, sorting and the
  like keep the frame as it is.\<close>

definition demo_frames :: "frame store_ops" where
  "demo_frames = \<lparr>store_importable = True, serialize_csv = (\<lambda>t. Inr ''x''), serialize_json = (\<lambda>t. Inr ''[]''),
     serialize_parquet = (\<lambda>t. Inr ''PAR1''), uuid_hex = ''0'', put_object = (\<lambda>k c ty md. Inr ()),
     presigned_url = (\<lambda>k s. Inr (''https://store/'' @ k)),
     table_rows = (\<lambda>f. case f of [] \<Rightarrow> 0 | (c, cells) # _ \<Rightarrow> int (length cells))\<rparr>"

definition demo_pandas :: "column_policy_record list result \<Rightarrow> (frame, frame) pandas" where
  "demo_pandas pols =
     \<lparr>tbl_rows = (\<lambda>f. case f of [] \<Rightarrow> 0 | (c, cells) # _ \<Rightarrow> int (length cells)), tbl_names = map fst, to_pandas = id,
      from_pandas = Inr, df_columns = map fst,
      df_len = (\<lambda>f. case f of [] \<Rightarrow> 0 | (c, cells) # _ \<Rightarrow> int (length cells)),
      df_dtype = (\<lambda>f c. ''object''), df_is_numeric = (\<lambda>f c. False), df_is_datetime = (\<lambda>f c. False),
      pd_to_numeric = (\<lambda>v. Inr ()), pd_to_datetime = (\<lambda>v. Inr ()), df_filter = (\<lambda>op c a f. Inr f),
      df_select = (\<lambda>cs f. Inr (filter (\<lambda>(c, cells). c \<in> set cs) f)),
      df_rename = (\<lambda>m f. map (\<lambda>(c, cells). (case map_of m c of None \<Rightarrow> c | Some n \<Rightarrow> n, cells)) f),
      df_merge = (\<lambda>k h l r. Inr l), df_group_agg = (\<lambda>gs a f. Inr (f, [])), df_set_columns = (\<lambda>cs f. f),
      df_reset_index = Inr, df_reset_drop = id, df_sort_values = (\<lambda>cs ds f. Inr f),
      df_pivot_table = (\<lambda>ix c v ag fv f. Inr (f, [])), df_melt = (\<lambda>ids vs vn vl f. Inr f),
      df_drop_duplicates = (\<lambda>s k f. Inr f), df_fillna = (\<lambda>c v f. Inr f), df_ffill = (\<lambda>c f. Inr f),
      df_bfill = (\<lambda>c f. Inr f), df_mean = (\<lambda>c f. PNone), df_median = (\<lambda>c f. PNone), df_mode = (\<lambda>c f. []),
      df_groups = (\<lambda>c f. [f]), df_concat = (\<lambda>fs. Inr (concat fs)), df_sample = (\<lambda>n s f. Inr f),
      df_sample_frac = (\<lambda>q s f. Inr f), df_of_frame = id, df_to_frame = id,
      read_frame = (\<lambda>ext p. Inr [(''id'', [PInt 1]), (''ssn'', [PStr ''123-45-6789''])]), column_policies = (\<lambda>f. pols),
      save_store = demo_frames, upload_output = (\<lambda>e p f. Inr ()), fresh_hex = ''0'',
      rules_view = demo_rule_ops, run_wasm = (\<lambda>t st m. Inr t), publish_rows = (\<lambda>t k f. Inr 0)\<rparr>"

lemma demo_pandas_simps [simp]:
  "df_columns (demo_pandas pols) = map fst" "to_pandas (demo_pandas pols) = id" "from_pandas (demo_pandas pols) = Inr"
  "df_of_frame (demo_pandas pols) = id" "df_to_frame (demo_pandas pols) = id" "column_policies (demo_pandas pols) fid = pols"
  "read_frame (demo_pandas pols) ext p = Inr [(''id'', [PInt 1]), (''ssn'', [PStr ''123-45-6789''])]"
  "tbl_rows (demo_pandas pols) = df_len (demo_pandas pols)" "rules_view (demo_pandas pols) = demo_rule_ops"
  "df_rename (demo_pandas pols) m f = map (\<lambda>(c, cells). (case map_of m c of None \<Rightarrow> c | Some n \<Rightarrow> n, cells)) f"
  by (simp_all add: demo_pandas_def)

definition demo_table :: frame where
  "demo_table = [(''id'', [PInt 1]), (''amount'', [PInt 7])]"

definition demo_files :: files_env where
  "demo_files = \<lparr>file_paths = [(''f1'', ''data/f1.csv'')], file_metadata = [], wasm_modules = [], user_role = None, current_run_id = ''r''\<rparr>"




definition demo_redacted :: column_policy_record where
  "demo_redacted = \<lparr>cp_column_name = ''ssn'', cp_policy = ''redacted'', cp_mask_pattern = None, cp_allowed_roles = [''admin'']\<rparr>"


text \<open>The result of a step names the step and counts the rows of the table it hands on, and the
  steps that only look at their input (save, validate, publish) hand on the very table they read.\<close>

theorem step_result_describes_output:
  assumes "\<And>d t. from_pandas pd d = Inr t \<Longrightarrow> tbl_rows pd t = df_len pd d"
    and "execute_step pd ms fs st reg = Inr (call, Inr res)"
  shows "res_step_name res = step_name st \<and> rows_out res = tbl_rows pd (output_table res) \<and>
    (case cfg_fields st of
       SaveFields i f \<Rightarrow> dict_get reg i = Some (output_table res) \<and> rows_in res = rows_out res
     | ValidateFields i r \<Rightarrow> dict_get reg i = Some (output_table res) \<and> rows_in res = rows_out res
     | StreamPublishFields i t s k \<Rightarrow> dict_get reg i = Some (output_table res) \<and> rows_in res = rows_out res
     | _ \<Rightarrow> True)"
proof -
  from assms(2) obtain name where name: "step_name st = PStr name" and run: "run_step pd ms fs st reg name = Inr (call, Inr res)"
    by (auto simp: execute_step_def bindE_eq_Inr_iff split: if_splits)
  have "describes pd name (run_step pd ms fs st reg name)" by (rule describes_run_step [OF assms(1) name])
  with run name have "res_step_name res = step_name st \<and> rows_out res = tbl_rows pd (output_table res)"
    by (simp add: describes_def)
  moreover from run have "case cfg_fields st of
       SaveFields i f \<Rightarrow> dict_get reg i = Some (output_table res) \<and> rows_in res = rows_out res
     | ValidateFields i r \<Rightarrow> dict_get reg i = Some (output_table res) \<and> rows_in res = rows_out res
     | StreamPublishFields i t s k \<Rightarrow> dict_get reg i = Some (output_table res) \<and> rows_in res = rows_out res
     | _ \<Rightarrow> True"
    by (cases "cfg_fields st")
      (auto simp: run_step_def execute_save_def execute_validate_def execute_stream_publish_def outcome_simps split: if_splits)
  ultimately show ?thesis by simp
qed

theorem step_result_describes_output_witness:
  "\<exists>call res. execute_step (demo_pandas (Inr [])) 0 demo_files
      (demo_step ''s'' VALIDATE (ValidateFields (PStr ''a'') (PList []))) [(PStr ''a'', demo_table)] = Inr (call, Inr res) \<and>
    output_table res = demo_table \<and> rows_in res = rows_out res"
proof -
  let ?st = "demo_step ''s'' VALIDATE (ValidateFields (PStr ''a'') (PList []))"
  have "\<exists>call res. execute_step (demo_pandas (Inr [])) 0 demo_files ?st [(PStr ''a'', demo_table)] = Inr (call, Inr res)"
    by (simp add: execute_step_def demo_step_def registered_types_def run_step_def list_of_def execute_validate_def
        lookup_table_def execute_rules_def Let_def)
  then obtain call res where
    run: "execute_step (demo_pandas (Inr [])) 0 demo_files ?st [(PStr ''a'', demo_table)] = Inr (call, Inr res)" by blast
  have "\<And>d t. from_pandas (demo_pandas (Inr [])) d = Inr t \<Longrightarrow> tbl_rows (demo_pandas (Inr [])) t = df_len (demo_pandas (Inr [])) d"
    by simp
  from step_result_describes_output [OF this run] have "output_table res = demo_table \<and> rows_in res = rows_out res"
    by (simp add: demo_step_def)
  with run show ?thesis by blast
qed

text \<open>A validate step ends without a warning exactly if all its rules of severity error and of severity warning hold of
  the table: each names a column that is there, and all cells of the column, or the number of rows, meet
  the condition of the check.  It hands on its input in any case.\<close>

theorem validate_step_warns_exactly:
  assumes "execute_validate pd ms reg name inp (map PDict specs) = Inr (call, Inr res)"
  shows "\<exists>t. dict_get reg (PStr inp) = Some t \<and> output_table res = t \<and>
    (res_warnings res = [] \<longleftrightarrow> (\<forall>rule \<in> set specs.
       get_or rule ''severity'' (PStr ''error'') \<in> {PStr ''error'', PStr ''warning''} \<longrightarrow> rule_holds (rules_view pd) (to_pandas pd t) rule))"
proof -
  from assms obtain t v where t: "dict_get reg (PStr inp) = Some t"
    and v: "execute_rules (rules_view pd) (to_pandas pd t) (map PDict specs) = Inr v"
    and res: "output_table res = t" "res_warnings res = validation_warnings v"
    by (auto simp: execute_validate_def outcome_simps step_output_def)
  have "validation_warnings v = [] \<longleftrightarrow> vs_passed v \<and> vs_warning_count v = 0" by (simp add: validation_warnings_def)
  with rules_pass_exactly [OF v] t res show ?thesis by auto
qed

theorem validate_step_warns_exactly_witness:
  "\<exists>call res. execute_validate (demo_pandas (Inr [])) 0 [(PStr ''a'', demo_table)] ''s'' ''a''
      (map PDict [[(PStr ''check'', PStr ''greater_than''), (PStr ''column'', PStr ''amount''), (PStr ''value'', PInt 3)]]) = Inr (call, Inr res) \<and>
    res_warnings res = [] \<and> rule_holds demo_rule_ops demo_table
      [(PStr ''check'', PStr ''greater_than''), (PStr ''column'', PStr ''amount''), (PStr ''value'', PInt 3)]"
proof -
  let ?rule = "[(PStr ''check'', PStr ''greater_than''), (PStr ''column'', PStr ''amount''), (PStr ''value'', PInt 3)]"
  let ?run = "execute_validate (demo_pandas (Inr [])) 0 [(PStr ''a'', demo_table)] ''s'' ''a'' (map PDict [?rule])"
  have "map_sum (\<lambda>_. ()) (\<lambda>(c, r). map_sum (\<lambda>_. ()) res_warnings r) ?run = Inr (Inr [])" by code_simp
  then obtain call res where run: "?run = Inr (call, Inr res)" and none: "res_warnings res = []"
    by (cases ?run; cases "snd (projr ?run)") (auto split: prod.splits)
  have "get_or ?rule ''severity'' (PStr ''error'') = PStr ''error''" by code_simp
  with validate_step_warns_exactly [OF run] none have "rule_holds demo_rule_ops demo_table ?rule" by auto
  with run none show ?thesis by blast
qed

text \<open>Renaming keeps the columns distinct: with different targets, a rename that is not refused gives
  every column a name of its own, in the order of the input.\<close>

theorem rename_keeps_columns_distinct:
  assumes "\<And>m d. df_columns pd (df_rename pd m d) = map (\<lambda>c. case map_of m c of None \<Rightarrow> c | Some n \<Rightarrow> n) (df_columns pd d)"
    and "dict_get reg (PStr inp) = Some t" and "distinct (df_columns pd (to_pandas pd t))"
    and "distinct (map fst m)" and "distinct (map snd m)"
    and "execute_rename pd ms reg name inp m = Inr (call, Inr res)"
  shows "distinct (columns_out res) \<and> length (columns_out res) = length (columns_in res) \<and>
    (\<forall>i < length (columns_in res). columns_out res ! i =
       (case map_of m (columns_in res ! i) of None \<Rightarrow> columns_in res ! i | Some n \<Rightarrow> n))"
proof -
  from assms(1,2,6) have ok: "rename_conflicts (df_columns pd (to_pandas pd t)) m = []"
    and cols: "columns_in res = df_columns pd (to_pandas pd t)"
      "columns_out res = map (\<lambda>c. case map_of m c of None \<Rightarrow> c | Some n \<Rightarrow> n) (columns_in res)"
    by (auto simp: execute_rename_def outcome_simps lookup_table_def split: if_splits)
  from rename_targets [OF assms(3-5) ok] cols show ?thesis by (auto split: option.splits)
qed

theorem rename_keeps_columns_distinct_witness:
  "\<exists>call res. execute_rename (demo_pandas (Inr [])) 0 [(PStr ''a'', demo_table)] ''s'' ''a'' [(''id'', ''key'')] = Inr (call, Inr res) \<and>
     columns_out res = [''key'', ''amount''] \<and> distinct (columns_out res)"
proof -
  let ?run = "execute_rename (demo_pandas (Inr [])) 0 [(PStr ''a'', demo_table)] ''s'' ''a'' [(''id'', ''key'')]"
  have "\<exists>call res. ?run = Inr (call, Inr res) \<and> columns_out res = [''key'', ''amount'']"
    by (simp add: execute_rename_def lookup_table_def demo_table_def rename_conflicts_def Let_def)
  then obtain call res where run: "?run = Inr (call, Inr res)" "columns_out res = [''key'', ''amount'']" by blast
  have "distinct (columns_out res)"
    by (rule rename_keeps_columns_distinct [OF _ _ _ _ _ run(1), where t = demo_table, THEN conjunct1])
      (auto simp: demo_table_def split: option.splits)
  with run show ?thesis by blast
qed

text \<open>Two columns renamed to the same name are not refused: the check only compares new names with the
  columns that keep theirs, so the result has the name twice.\<close>

theorem rename_to_equal_targets_accepted:
  "\<exists>call res. execute_rename (demo_pandas (Inr [])) 0 [(PStr ''a'', demo_table)] ''s'' ''a'' [(''id'', ''x''), (''amount'', ''x'')] =
     Inr (call, Inr res) \<and> columns_out res = [''x'', ''x'']"
  by (simp add: execute_rename_def lookup_table_def demo_table_def rename_conflicts_def Let_def)

end
