(* ===== verification/RunLifecycle.thy ===== *)
theory RunLifecycle
  imports PyBase
begin

text \<open>
  The rows of runs and schedules, and the sessions that change them besides the task of a run: the
  cancellation by a user (\<^verbatim>\<open>cancel_pipeline_run\<close> in \<^verbatim>\<open>backend/api/pipelines.py\<close>), the reconciliation of
  wedged runs (\<^verbatim>\<open>backend/tasks/reconciliation.py\<close>), the triggering of due schedules
  (\<^verbatim>\<open>backend/tasks/schedule_tasks.py\<close>) and the postponing of schedules after a breach
  (\<^verbatim>\<open>_block_downstream_schedules\<close> in \<^verbatim>\<open>backend/tasks/pipeline_tasks.py\<close>).  Times are milliseconds; the state of
  a Celery task, the dispatch of a task and the next time of a cron expression are parameters.
\<close>

section \<open>Rows\<close>

datatype run_status =
    PENDING | RUNNING | HEALING | HEALED | COMPLETED | CONTRACT_VIOLATION | FAILED | CANCELLED | TIMEOUT
  | STREAMING_ACTIVE | STREAMING_PAUSED | STREAMING_STOPPED

fun status_value :: "run_status \<Rightarrow> string" where
  "status_value PENDING = ''PENDING''"
| "status_value RUNNING = ''RUNNING''"
| "status_value HEALING = ''HEALING''"
| "status_value HEALED = ''HEALED''"
| "status_value COMPLETED = ''COMPLETED''"
| "status_value CONTRACT_VIOLATION = ''CONTRACT_VIOLATION''"
| "status_value FAILED = ''FAILED''"
| "status_value CANCELLED = ''CANCELLED''"
| "status_value TIMEOUT = ''TIMEOUT''"
| "status_value STREAMING_ACTIVE = ''STREAMING_ACTIVE''"
| "status_value STREAMING_PAUSED = ''STREAMING_PAUSED''"
| "status_value STREAMING_STOPPED = ''STREAMING_STOPPED''"

record run_row =
  rw_id :: string
  rw_name :: string
  rw_status :: run_status
  rw_yaml_config :: string
  rw_created_at :: int
  rw_started_at :: "int option"
  rw_completed_at :: "int option"
  rw_total_rows_in :: "int option"
  rw_total_rows_out :: "int option"
  rw_error_message :: "string option"
  rw_celery_task_id :: "string option"
  rw_schedule_id :: "string option"

record schedule_row =
  sc_id :: string
  sc_pipeline_name :: string
  sc_yaml_config :: string
  sc_cron_expression :: string
  sc_is_active :: bool
  sc_last_run_at :: "int option"
  sc_next_run_at :: "int option"
  sc_last_run_status :: "string option"
  sc_total_runs :: nat
  sc_successful_runs :: nat
  sc_failed_runs :: nat
  sc_healed_runs :: nat

record schedule_run_row =
  sn_schedule_id :: string
  sn_run_id :: "string option"
  sn_triggered_at :: int
  sn_status :: "string option"
  sn_duration_seconds :: "int option"
  sn_error_message :: "string option"

section \<open>Cancelling a run\<close>

datatype cancel_answer = NotFound | Forbidden | Conflict string | CancelAccepted

definition cancellable :: "run_status \<Rightarrow> bool" where
  "cancellable s \<longleftrightarrow> s \<in> {PENDING, RUNNING, STREAMING_ACTIVE, STREAMING_PAUSED}"

definition cancelled_row :: "int \<Rightarrow> run_row \<Rightarrow> run_row" where
  "cancelled_row now r = r\<lparr>rw_status := CANCELLED, rw_completed_at := Some now, rw_error_message := Some ''Cancelled by user''\<rparr>"

text \<open>The request, the permission of its user decided elsewhere; the task is revoked on a best-effort basis.\<close>

definition cancel_pipeline_run :: "bool \<Rightarrow> int \<Rightarrow> run_row option \<Rightarrow> run_row option \<times> cancel_answer" where
  "cancel_pipeline_run permitted now found =
     (case found of
        None \<Rightarrow> (None, NotFound)
      | Some r \<Rightarrow>
          if \<not> permitted then (Some r, Forbidden)
          else if \<not> cancellable (rw_status r)
          then (Some r, Conflict (''Cannot cancel pipeline with status '' @ [CHR 0x27] @ status_value (rw_status r) @ [CHR 0x27]))
          else (Some (cancelled_row now r), CancelAccepted))"

section \<open>Reconciling wedged runs\<close>

definition reconcilable :: "run_status \<Rightarrow> bool" where
  "reconcilable s \<longleftrightarrow> s \<in> {PENDING, RUNNING, HEALING}"

definition live_task_states :: "string list" where
  "live_task_states = [''PENDING'', ''STARTED'', ''RETRY'']"

text \<open>The state of the task of a run; a failing lookup and a missing task give no state.\<close>

definition task_state :: "(string \<Rightarrow> string option) \<Rightarrow> string option \<Rightarrow> string option" where
  "task_state celery_state task_id =
     (case task_id of None \<Rightarrow> None | Some t \<Rightarrow> if t = [] then None else celery_state t)"

definition timeout_row :: "int \<Rightarrow> string option \<Rightarrow> run_row \<Rightarrow> run_row" where
  "timeout_row now st r = r\<lparr>rw_status := TIMEOUT, rw_completed_at := Some now,
     rw_error_message := Some (''Run timed out: worker stopped reporting progress (last celery task state: '' @
       (case st of None \<Rightarrow> ''unknown'' | Some s \<Rightarrow> if s = [] then ''unknown'' else s) @ '')'')\<rparr>"

text \<open>One candidate: the row afterwards, whether it was old enough to be checked, and whether it timed out.\<close>

definition reconcile_run :: "(string \<Rightarrow> string option) \<Rightarrow> int \<Rightarrow> int \<Rightarrow> run_row \<Rightarrow> run_row \<times> bool \<times> bool" where
  "reconcile_run celery_state cutoff now r =
     (let started = (case rw_started_at r of Some t \<Rightarrow> t | None \<Rightarrow> rw_created_at r) in
      if \<not> reconcilable (rw_status r) \<or> started \<ge> cutoff then (r, False, False)
      else let st = task_state celery_state (rw_celery_task_id r) in
        if \<exists>s. st = Some s \<and> s \<in> set live_task_states then (r, True, False)
        else (timeout_row now st r, True, True))"

definition reconcile_stuck_runs :: "(string \<Rightarrow> string option) \<Rightarrow> int \<Rightarrow> int \<Rightarrow> run_row list \<Rightarrow> run_row list \<times> nat \<times> nat" where
  "reconcile_stuck_runs celery_state timeout now rows =
     (let rs = map (reconcile_run celery_state (now - timeout) now) rows
      in (map fst rs, length (filter (\<lambda>r. fst (snd r)) rs), length (filter (\<lambda>r. snd (snd r)) rs)))"

section \<open>Triggering schedules\<close>

record sched_env =
  dispatch_ok :: "string \<Rightarrow> bool"
  cron_next :: "string \<Rightarrow> int \<Rightarrow> int result"
  new_run_id :: "string \<Rightarrow> string"

record sched_state =
  st_schedules :: "schedule_row list"
  st_runs :: "run_row list"
  st_schedule_runs :: "schedule_run_row list"
  st_dispatched :: "string list"

definition check_batch_limit :: nat where
  "check_batch_limit = 100"

definition is_due :: "int \<Rightarrow> schedule_row \<Rightarrow> bool" where
  "is_due now s \<longleftrightarrow> sc_is_active s \<and> (case sc_next_run_at s of None \<Rightarrow> False | Some t \<Rightarrow> t \<le> now)"

definition due_time :: "schedule_row \<Rightarrow> int" where
  "due_time s = (case sc_next_run_at s of None \<Rightarrow> 0 | Some t \<Rightarrow> t)"

definition due_schedules :: "int \<Rightarrow> schedule_row list \<Rightarrow> schedule_row list" where
  "due_schedules now ss = take check_batch_limit (sort_key due_time (filter (is_due now) ss))"

definition scheduled_run :: "string \<Rightarrow> int \<Rightarrow> schedule_row \<Rightarrow> run_row" where
  "scheduled_run rid now s =
     \<lparr>rw_id = rid, rw_name = sc_pipeline_name s, rw_status = PENDING, rw_yaml_config = sc_yaml_config s, rw_created_at = now,
      rw_started_at = None, rw_completed_at = None, rw_total_rows_in = None, rw_total_rows_out = None,
      rw_error_message = None, rw_celery_task_id = None, rw_schedule_id = Some (sc_id s)\<rparr>"

definition fired :: "string option \<Rightarrow> int \<Rightarrow> schedule_row \<Rightarrow> schedule_run_row" where
  "fired run_id now s =
     \<lparr>sn_schedule_id = sc_id s, sn_run_id = run_id, sn_triggered_at = now, sn_status = None, sn_duration_seconds = None, sn_error_message = None\<rparr>"

definition advanced :: "int \<Rightarrow> int \<Rightarrow> schedule_row \<Rightarrow> schedule_row" where
  "advanced now next_time s = s\<lparr>sc_last_run_at := Some now, sc_last_run_status := Some ''RUNNING'', sc_total_runs := sc_total_runs s + 1,
     sc_next_run_at := Some next_time\<rparr>"

definition put_schedule :: "schedule_row \<Rightarrow> schedule_row list \<Rightarrow> schedule_row list" where
  "put_schedule s ss = map (\<lambda>x. if sc_id x = sc_id s then s else x) ss"

text \<open>Firing one schedule: the run and the record of the firing are committed first; if the dispatch or the computation
  of the next time then raises, the rest is rolled back.\<close>

definition trigger_schedule :: "sched_env \<Rightarrow> int \<Rightarrow> schedule_row \<Rightarrow> sched_state \<Rightarrow> sched_state \<times> bool" where
  "trigger_schedule env now s st =
     (let rid = new_run_id env (sc_id s);
          st1 = st\<lparr>st_runs := st_runs st @ [scheduled_run rid now s]\<rparr> in
      if \<not> dispatch_ok env (sc_id s) then (st1\<lparr>st_schedule_runs := st_schedule_runs st @ [fired None now s]\<rparr>, False)
      else let st2 = st1\<lparr>st_dispatched := st_dispatched st @ [rid]\<rparr> in
        (case cron_next env (sc_cron_expression s) now of
           Inl e \<Rightarrow> (st2\<lparr>st_schedule_runs := st_schedule_runs st @ [fired None now s]\<rparr>, False)
         | Inr next_time \<Rightarrow>
             (st2\<lparr>st_schedule_runs := st_schedule_runs st @ [fired (Some rid) now s],
                  st_schedules := put_schedule (advanced now next_time s) (st_schedules st)\<rparr>, True)))"

fun trigger_all :: "sched_env \<Rightarrow> int \<Rightarrow> schedule_row list \<Rightarrow> sched_state \<Rightarrow> sched_state \<times> nat" where
  "trigger_all env now [] st = (st, 0)"
| "trigger_all env now (s # ss) st =
     (case trigger_schedule env now s st of
        (st1, ok) \<Rightarrow> (case trigger_all env now ss st1 of (st2, n) \<Rightarrow> (st2, if ok then Suc n else n)))"

text \<open>The periodic check; \<open>lock\<close> is the answer of Redis to the request for the lock, if it answers.  The result is
  the number of triggered schedules and whether the check was locked out.\<close>

definition check_schedules :: "sched_env \<Rightarrow> bool option \<Rightarrow> int \<Rightarrow> sched_state \<Rightarrow> sched_state \<times> nat \<times> bool" where
  "check_schedules env lock now st =
     (if lock \<noteq> Some True then (st, 0, True)
      else case trigger_all env now (due_schedules now (st_schedules st)) st of (st1, n) \<Rightarrow> (st1, n, False))"

section \<open>Postponing schedules\<close>

definition one_hour :: int where
  "one_hour = 3600000"

definition block_schedule :: "int \<Rightarrow> string \<Rightarrow> schedule_row \<Rightarrow> schedule_row" where
  "block_schedule now consumer s =
     (if sc_pipeline_name s = consumer \<and> sc_is_active s
      then s\<lparr>sc_next_run_at := Some (now + one_hour), sc_last_run_status := Some ''BLOCKED_BY_CONTRACT''\<rparr> else s)"

definition block_downstream_schedules :: "int \<Rightarrow> string list \<Rightarrow> schedule_row list \<Rightarrow> schedule_row list" where
  "block_downstream_schedules now consumers ss = fold (\<lambda>c. map (block_schedule now c)) consumers ss"

definition blocked_count :: "string list \<Rightarrow> schedule_row list \<Rightarrow> nat" where
  "blocked_count consumers ss =
     sum_list (map (\<lambda>c. length (filter (\<lambda>s. sc_pipeline_name s = c \<and> sc_is_active s) ss)) consumers)"

section \<open>What other sessions can do to a run\<close>

text \<open>One step of another session on the row of a run.\<close>

inductive outside_step :: "run_row \<Rightarrow> run_row \<Rightarrow> bool" where
  cancel: "cancel_pipeline_run permitted now (Some r) = (Some r', a) \<Longrightarrow> outside_step r r'"
| reconcile: "reconcile_run celery_state cutoff now r = (r', checked, timed_out) \<Longrightarrow> outside_step r r'"

inductive outside_steps :: "run_row \<Rightarrow> run_row \<Rightarrow> bool" where
  nothing: "outside_steps r r"
| more: "outside_step r s \<Longrightarrow> outside_steps s t \<Longrightarrow> outside_steps r t"

inductive_cases outside_stepE: "outside_step r r'"

text \<open>The result of a step: nothing, a cancellation or a timeout, each only in its states.\<close>

lemma outside_step_cases:
  assumes "outside_step r r'"
  obtains "r' = r" | now where "r' = cancelled_row now r" "cancellable (rw_status r)"
    | now st where "r' = timeout_row now st r" "reconcilable (rw_status r)"
  using assms by (auto elim!: outside_stepE simp: cancel_pipeline_run_def reconcile_run_def Let_def split: if_splits)

definition open_status :: "run_status \<Rightarrow> bool" where
  "open_status s \<longleftrightarrow> cancellable s \<or> reconcilable s"

lemma outside_steps_status:
  assumes "outside_steps r r'"
  shows "(rw_status r' = rw_status r \<and> r' = r) \<or> (rw_status r' \<in> {CANCELLED, TIMEOUT} \<and> open_status (rw_status r) \<and> rw_completed_at r' \<noteq> None)"
  using assms
proof (induction rule: outside_steps.induct)
  case (more r s t)
  from more.hyps(1) show ?case
  proof (cases rule: outside_step_cases)
    case 1
    then show ?thesis using more.IH by simp
  next
    case (2 now)
    then show ?thesis using more.IH by (auto simp: cancelled_row_def open_status_def cancellable_def reconcilable_def)
  next
    case (3 now st)
    then show ?thesis using more.IH by (auto simp: timeout_row_def open_status_def cancellable_def reconcilable_def)
  qed
qed simp

lemma outside_step_keep:
  "outside_step r r' \<Longrightarrow> rw_id r' = rw_id r \<and> rw_name r' = rw_name r \<and> rw_yaml_config r' = rw_yaml_config r \<and>
     rw_started_at r' = rw_started_at r \<and> rw_schedule_id r' = rw_schedule_id r \<and> rw_total_rows_in r' = rw_total_rows_in r \<and>
     rw_total_rows_out r' = rw_total_rows_out r"
  by (elim outside_step_cases) (simp_all add: cancelled_row_def timeout_row_def)

lemma outside_steps_keep:
  "outside_steps r r' \<Longrightarrow> rw_id r' = rw_id r \<and> rw_name r' = rw_name r \<and> rw_yaml_config r' = rw_yaml_config r \<and>
     rw_started_at r' = rw_started_at r \<and> rw_schedule_id r' = rw_schedule_id r \<and> rw_total_rows_in r' = rw_total_rows_in r \<and>
     rw_total_rows_out r' = rw_total_rows_out r"
proof (induction rule: outside_steps.induct)
  case (more r s t)
  then show ?case using outside_step_keep [OF more.hyps(1)] by simp
qed simp

section \<open>Schedules that fire\<close>

lemma put_schedule_other: "sc_id x \<noteq> sc_id s \<Longrightarrow> x \<in> set (put_schedule s ss) \<longleftrightarrow> x \<in> set ss"
  by (auto simp: put_schedule_def)

lemma put_schedule_ids: "map sc_id (put_schedule s ss) = map sc_id ss"
  by (auto simp: put_schedule_def)

text \<open>When every dispatch and every computation of a next time succeeds.\<close>

definition all_well :: "sched_env \<Rightarrow> int \<Rightarrow> schedule_row list \<Rightarrow> (schedule_row \<Rightarrow> int) \<Rightarrow> bool" where
  "all_well env now ss next_time \<longleftrightarrow>
     (\<forall>s \<in> set ss. dispatch_ok env (sc_id s) \<and> cron_next env (sc_cron_expression s) now = Inr (next_time s) \<and> now < next_time s)"

definition fire :: "int \<Rightarrow> (schedule_row \<Rightarrow> int) \<Rightarrow> schedule_row list \<Rightarrow> schedule_row \<Rightarrow> schedule_row" where
  "fire now next_time ss x = (case find (\<lambda>s. sc_id s = sc_id x) ss of None \<Rightarrow> x | Some s \<Rightarrow> advanced now (next_time s) s)"

lemma fire_Cons: "sc_id s \<notin> sc_id ` set ss \<Longrightarrow>
    map (fire now next_time ss) (put_schedule (advanced now (next_time s) s) xs) = map (fire now next_time (s # ss)) xs"
proof -
  assume s: "sc_id s \<notin> sc_id ` set ss"
  have id: "sc_id (advanced now (next_time s) s) = sc_id s" by (simp add: advanced_def)
  have "find (\<lambda>t. sc_id t = sc_id s) ss = None" using s by (force simp: find_None_iff image_iff)
  then have "fire now next_time ss (advanced now (next_time s) s) = advanced now (next_time s) s" by (simp add: fire_def id)
  then have "fire now next_time ss (if sc_id x = sc_id s then advanced now (next_time s) s else x) = fire now next_time (s # ss) x" for x
    by (cases "sc_id x = sc_id s") (simp_all add: fire_def)
  then show ?thesis by (simp add: put_schedule_def id)
qed

lemma trigger_all_well:
  assumes "all_well env now ss next_time" and "distinct (map sc_id ss)" and "trigger_all env now ss st = (st', n)"
  shows "n = length ss \<and> st_runs st' = st_runs st @ map (\<lambda>s. scheduled_run (new_run_id env (sc_id s)) now s) ss \<and>
    st_dispatched st' = st_dispatched st @ map (\<lambda>s. new_run_id env (sc_id s)) ss \<and>
    st_schedules st' = map (fire now next_time ss) (st_schedules st)"
  using assms
proof (induction ss arbitrary: st st' n)
  case Nil
  then show ?case by (simp add: fire_def)
next
  case (Cons s ss)
  from Cons.prems(1,2) have ok: "dispatch_ok env (sc_id s)" "cron_next env (sc_cron_expression s) now = Inr (next_time s)"
    and rest: "all_well env now ss next_time" "distinct (map sc_id ss)" and s: "sc_id s \<notin> sc_id ` set ss"
    by (auto simp: all_well_def)
  obtain st1 m where run: "trigger_all env now ss (fst (trigger_schedule env now s st)) = (st1, m)" by fastforce
  from Cons.prems(3) ok run have "st' = st1" "n = Suc m" by (auto simp: trigger_schedule_def Let_def)
  with Cons.IH [OF rest run] ok show ?case by (simp add: trigger_schedule_def Let_def fire_Cons [OF s])
qed

lemma set_due: "s \<in> set (due_schedules now ss) \<Longrightarrow> s \<in> set ss \<and> is_due now s"
  using set_take_subset [of check_batch_limit] by (fastforce simp: due_schedules_def)

lemma distinct_due: "distinct (map sc_id ss) \<Longrightarrow> distinct (map sc_id (due_schedules now ss))"
proof -
  assume d: "distinct (map sc_id ss)"
  have "inj_on sc_id (set ss)" using d by (simp add: distinct_map)
  moreover have "distinct (due_schedules now ss)" using d
    by (simp add: due_schedules_def distinct_map distinct_take)
  moreover have "set (due_schedules now ss) \<subseteq> set ss" using set_due by blast
  ultimately show ?thesis by (auto simp: distinct_map intro: inj_on_subset)
qed

section \<open>Properties\<close>


definition daily :: "string \<Rightarrow> int \<Rightarrow> schedule_row" where
  "daily name due = \<lparr>sc_id = name, sc_pipeline_name = name, sc_yaml_config = [], sc_cron_expression = ''0 0 * * *'', sc_is_active = True,
     sc_last_run_at = None, sc_next_run_at = Some due, sc_last_run_status = None, sc_total_runs = 0, sc_successful_runs = 0,
     sc_failed_runs = 0, sc_healed_runs = 0\<rparr>"

definition daily_env :: sched_env where
  "daily_env = \<lparr>dispatch_ok = (\<lambda>s. True), cron_next = (\<lambda>c t. Inr (t + 86400000)), new_run_id = id\<rparr>"

definition two_daily :: sched_state where
  "two_daily = \<lparr>st_schedules = [daily ''a'' 5, daily ''b'' 50], st_runs = [], st_schedule_runs = [], st_dispatched = []\<rparr>"


text \<open>A breach meant to hold back the consumers of a pipeline can make one run earlier: the next run of every active
  schedule is set to one hour from now, also when it was due later.\<close>

theorem blocking_can_hasten:
  "map sc_next_run_at (block_downstream_schedules 0 [''b''] [daily ''b'' (5 * one_hour)]) = [Some one_hour]"
  by (simp add: block_downstream_schedules_def block_schedule_def daily_def)

text \<open>A schedule whose dispatch fails leaves a pending run and stays due, so that every check adds another run;
  if the next time cannot be computed the run is even dispatched each time.\<close>

theorem failed_trigger_repeats:
  "let st1 = fst (check_schedules (daily_env\<lparr>cron_next := (\<lambda>c t. Inl (OtherError ''CroniterError''))\<rparr>) (Some True) 10 two_daily);
       st2 = fst (check_schedules (daily_env\<lparr>cron_next := (\<lambda>c t. Inl (OtherError ''CroniterError''))\<rparr>) (Some True) 20 st1)
   in st_dispatched st2 = [''a'', ''a''] \<and> length (st_runs st2) = 2"
  by code_simp

end
