(* ===== verification/BrokerClient.thy ===== *)
theory BrokerClient
  imports PyBase
begin

text \<open>
  \<^verbatim>\<open>backend/streaming/redpanda_client.py\<close>: names of topics, the creation of topics, the circuit breaker of the producer and the
  queue in Redis that takes messages while the broker is down.  Times are rational numbers of seconds on the monotonic clock; what
  the broker and Redis answer is input.  Texts that are encoded are lists of code points, bytes are numbers below 256; JSON is a
  parameter.
\<close>

section \<open>Names of topics\<close>

definition topic_char :: "char \<Rightarrow> bool" where
  "topic_char c \<longleftrightarrow> is_ascii_letter c \<or> is_digit c \<or> c = CHR ''.'' \<or> c = CHR ''_'' \<or> c = CHR ''-''"

definition invalid_topic_prefixes :: "string list" where
  "invalid_topic_prefixes = [''__'', ''_'']"

definition validate_topic_name :: "string \<Rightarrow> string result" where
  "validate_topic_name topic =
     (let t = py_strip topic in
      if t = [] then Inl (ValueError ''Topic name cannot be empty'')
      else if length t > 249
      then Inl (ValueError (''Topic name too long ('' @ nat_str (length t) @ '' chars, max 249)''))
      else if list_ex (starts_with t) invalid_topic_prefixes
      then Inl (ValueError (''Topic name '' @ [CHR 0x27] @ t @ [CHR 0x27] @ '' must not start with ('' @
             join '', '' (map repr_str invalid_topic_prefixes) @ '')''))
      else if \<not> list_all topic_char t
      then Inl (ValueError (''Topic name '' @ [CHR 0x27] @ t @ [CHR 0x27] @ '' contains invalid characters. '' @
             ''Only alphanumeric, dots, hyphens, and underscores allowed.''))
      else Inr t)"

section \<open>Topics\<close>

text \<open>The broker: its topics with their partitions, and which names it refuses to create.\<close>

record broker =
  bk_topics :: "(string \<times> nat) list"
  bk_refuses :: "string \<Rightarrow> string option"

definition dlq_name :: "string \<Rightarrow> string" where
  "dlq_name t = t @ ''.dlq''"

definition default_partitions :: nat where
  "default_partitions = 8"

definition topic_exists :: "broker \<Rightarrow> string \<Rightarrow> bool" where
  "topic_exists bk t \<longleftrightarrow> t \<in> set (map fst (bk_topics bk))"

text \<open>The future of one new topic: the text of its exception, if there is one.\<close>

definition create_new_topic :: "string \<Rightarrow> nat \<Rightarrow> broker \<Rightarrow> broker \<times> string option" where
  "create_new_topic t n bk =
     (if topic_exists bk t then (bk, Some ''TOPIC_ALREADY_EXISTS'')
      else case bk_refuses bk t of
        Some e \<Rightarrow> (bk, Some e)
      | None \<Rightarrow> (bk\<lparr>bk_topics := bk_topics bk @ [(t, n)]\<rparr>, None))"

text \<open>The loop over the futures.\<close>

fun await_created :: "string option list \<Rightarrow> bool \<Rightarrow> bool result" where
  "await_created [] created = Inr created"
| "await_created (None # fs) created = await_created fs created"
| "await_created (Some e # fs) created =
     (if contains (py_lower e) ''already_exists'' \<or> contains (py_lower e) ''already exists'' then await_created fs False
      else Inl (OtherError e))"

definition create_topic :: "string \<Rightarrow> nat \<Rightarrow> broker \<Rightarrow> broker \<times> bool result" where
  "create_topic topic n bk =
     (case validate_topic_name topic of
        Inl e \<Rightarrow> (bk, Inl e)
      | Inr t \<Rightarrow>
          let (bk1, f1) = create_new_topic t n bk; (bk2, f2) = create_new_topic (dlq_name t) 1 bk1 in
          (bk2, await_created [f1, f2] True))"

definition ensure_topic :: "string \<Rightarrow> broker \<Rightarrow> broker \<times> unit result" where
  "ensure_topic topic bk =
     (if topic_exists bk topic then (bk, Inr ())
      else let (bk', r) = create_topic topic default_partitions bk in (bk', bindE r (\<lambda>_. Inr ())))"

text \<open>\<^verbatim>\<open>list_topics\<close>: internal names are left out, the others come sorted.\<close>

record topic_info =
  ti_name :: string
  ti_partitions :: nat
  ti_is_dlq :: bool

definition ends_with :: "string \<Rightarrow> string \<Rightarrow> bool" where
  "ends_with s p = starts_with (rev s) (rev p)"

definition list_topics :: "broker \<Rightarrow> topic_info list" where
  "list_topics bk =
     map (\<lambda>(t, n). \<lparr>ti_name = t, ti_partitions = n, ti_is_dlq = ends_with t ''.dlq''\<rparr>)
       (sort_key fst (filter (\<lambda>(t, n). \<not> starts_with t ''_'') (bk_topics bk)))"

definition delete_topic :: "string \<Rightarrow> broker \<Rightarrow> broker" where
  "delete_topic t bk = bk\<lparr>bk_topics := filter (\<lambda>(s, n). s \<noteq> t \<and> s \<noteq> dlq_name t) (bk_topics bk)\<rparr>"

section \<open>The circuit breaker\<close>

datatype circuit_state = CLOSED | OPEN | HALF_OPEN

record circuit_breaker =
  cb_failure_threshold :: nat
  cb_recovery_timeout :: rat
  cb_state :: circuit_state
  cb_failure_count :: nat
  cb_last_failure_time :: rat
  cb_total_failures :: nat

definition new_breaker :: "nat \<Rightarrow> rat \<Rightarrow> circuit_breaker" where
  "new_breaker threshold timeout =
     \<lparr>cb_failure_threshold = threshold, cb_recovery_timeout = timeout, cb_state = CLOSED, cb_failure_count = 0,
      cb_last_failure_time = 0, cb_total_failures = 0\<rparr>"

text \<open>Reading the property \<^verbatim>\<open>state\<close> may change it.\<close>

definition read_state :: "rat \<Rightarrow> circuit_breaker \<Rightarrow> circuit_breaker \<times> circuit_state" where
  "read_state now cb =
     (let cb' = (if cb_state cb = OPEN \<and> cb_recovery_timeout cb \<le> now - cb_last_failure_time cb
                 then cb\<lparr>cb_state := HALF_OPEN\<rparr> else cb)
      in (cb', cb_state cb'))"

definition is_open :: "rat \<Rightarrow> circuit_breaker \<Rightarrow> circuit_breaker \<times> bool" where
  "is_open now cb = (let (cb', s) = read_state now cb in (cb', s = OPEN))"

definition record_success :: "circuit_breaker \<Rightarrow> circuit_breaker" where
  "record_success cb =
     cb\<lparr>cb_failure_count := 0, cb_state := (if cb_state cb = HALF_OPEN then CLOSED else cb_state cb)\<rparr>"

definition record_failure :: "rat \<Rightarrow> circuit_breaker \<Rightarrow> circuit_breaker" where
  "record_failure now cb =
     (let cb' = cb\<lparr>cb_failure_count := cb_failure_count cb + 1, cb_total_failures := cb_total_failures cb + 1,
                   cb_last_failure_time := now\<rparr>
      in if cb_failure_threshold cb' \<le> cb_failure_count cb' \<and> cb_state cb' \<noteq> OPEN then cb'\<lparr>cb_state := OPEN\<rparr> else cb')"

definition reset_breaker :: "circuit_breaker \<Rightarrow> circuit_breaker" where
  "reset_breaker cb = cb\<lparr>cb_state := CLOSED, cb_failure_count := 0, cb_last_failure_time := 0\<rparr>"

section \<open>Texts and bytes\<close>

definition scalar :: "nat \<Rightarrow> bool" where
  "scalar c \<longleftrightarrow> c < 55296 \<or> 57344 \<le> c \<and> c < 1114112"

text \<open>\<^verbatim>\<open>text.encode()\<close> of a code point.\<close>

definition utf8_char :: "nat \<Rightarrow> nat list" where
  "utf8_char c =
     (if c < 128 then [c]
      else if c < 2048 then [192 + c div 64, 128 + c mod 64]
      else if c < 65536 then [224 + c div 4096, 128 + c div 64 mod 64, 128 + c mod 64]
      else [240 + c div 262144, 128 + c div 4096 mod 64, 128 + c div 64 mod 64, 128 + c mod 64])"

definition utf8_encode :: "nat list \<Rightarrow> nat list" where
  "utf8_encode cs = concat (map utf8_char cs)"

definition continues :: "nat \<Rightarrow> bool" where
  "continues b \<longleftrightarrow> 128 \<le> b \<and> b < 192"

text \<open>The second bytes that may follow the first byte of a sequence of three or four.\<close>

definition second_byte :: "nat \<Rightarrow> nat \<Rightarrow> bool" where
  "second_byte b c \<longleftrightarrow> continues c \<and> (b = 224 \<longrightarrow> 160 \<le> c) \<and> (b = 237 \<longrightarrow> c < 160) \<and> (b = 240 \<longrightarrow> 144 \<le> c) \<and> (b = 244 \<longrightarrow> c < 144)"

abbreviation replacement :: nat where
  "replacement \<equiv> 65533"

text \<open>\<^verbatim>\<open>value.decode("utf-8", errors="replace")\<close>: a sequence that breaks off is replaced as a whole, and reading resumes with the byte that
  does not belong to it.\<close>

fun utf8_decode :: "nat list \<Rightarrow> nat list" where
  "utf8_decode [] = []"
| "utf8_decode (b # bs) =
     (if b < 128 then b # utf8_decode bs
      else if 194 \<le> b \<and> b < 224 then
        (case bs of c # cs \<Rightarrow> if continues c then ((b - 192) * 64 + (c - 128)) # utf8_decode cs else replacement # utf8_decode bs
         | [] \<Rightarrow> [replacement])
      else if 224 \<le> b \<and> b < 240 then
        (case bs of c # cs \<Rightarrow>
           if second_byte b c then
             (case cs of d # ds \<Rightarrow>
                if continues d then ((b - 224) * 4096 + (c - 128) * 64 + (d - 128)) # utf8_decode ds else replacement # utf8_decode cs
              | [] \<Rightarrow> [replacement])
           else replacement # utf8_decode bs
         | [] \<Rightarrow> [replacement])
      else if 240 \<le> b \<and> b < 245 then
        (case bs of c # cs \<Rightarrow>
           if second_byte b c then
             (case cs of d # ds \<Rightarrow>
                if continues d then
                  (case ds of e # es \<Rightarrow>
                     if continues e
                     then ((b - 240) * 262144 + (c - 128) * 4096 + (d - 128) * 64 + (e - 128)) # utf8_decode es
                     else replacement # utf8_decode ds
                   | [] \<Rightarrow> [replacement])
                else replacement # utf8_decode cs
              | [] \<Rightarrow> [replacement])
           else replacement # utf8_decode bs
         | [] \<Rightarrow> [replacement])
      else replacement # utf8_decode bs)"

section \<open>The queue in Redis\<close>

record queued_item =
  qi_topic :: string
  qi_value :: "nat list"
  qi_key :: "nat list option"
  qi_enqueued_at :: rat

record 'j item_json =
  dumps_item :: "queued_item \<Rightarrow> 'j"
  loads_item :: "'j \<Rightarrow> queued_item result"

record message =
  msg_topic :: string
  msg_value :: "nat list"
  msg_key :: "nat list option"

definition fallback_max_size :: nat where
  "fallback_max_size = 100000"

text \<open>How far a call on Redis comes.\<close>

datatype redis_answer = Unavailable | PushFails | TrimFails | SizeFails | Answers

definition queued :: "rat \<Rightarrow> message \<Rightarrow> queued_item" where
  "queued now m =
     \<lparr>qi_topic = msg_topic m, qi_value = utf8_decode (msg_value m),
      qi_key = (case msg_key m of None \<Rightarrow> None | Some k \<Rightarrow> if k = [] then None else Some (utf8_decode k)),
      qi_enqueued_at = now\<rparr>"

text \<open>The list of Redis has its left end first.\<close>

definition fallback_enqueue :: "'j item_json \<Rightarrow> redis_answer \<Rightarrow> rat \<Rightarrow> message \<Rightarrow> 'j list \<Rightarrow> 'j list \<times> bool" where
  "fallback_enqueue js ans now m q =
     (let q' = dumps_item js (queued now m) # q in
      case ans of
        Unavailable \<Rightarrow> (q, False)
      | PushFails \<Rightarrow> (q, False)
      | TrimFails \<Rightarrow> (q', False)
      | SizeFails \<Rightarrow> (take fallback_max_size q', False)
      | Answers \<Rightarrow> (take fallback_max_size q', True))"

definition dequeued :: "queued_item \<Rightarrow> message" where
  "dequeued it =
     \<lparr>msg_topic = qi_topic it, msg_value = utf8_encode (qi_value it),
      msg_key = (case qi_key it of None \<Rightarrow> None | Some k \<Rightarrow> if k = [] then None else Some (utf8_encode k))\<rparr>"

text \<open>One popped item: \<open>accepts\<close> tells of the n-th message handed to the producer whether it takes it.\<close>

definition drain_item ::
    "'j item_json \<Rightarrow> (nat \<Rightarrow> bool) \<Rightarrow> 'j \<Rightarrow> nat \<times> message list \<times> nat \<Rightarrow> nat \<times> message list \<times> nat" where
  "drain_item js accepts raw s =
     (case s of (n, out, drained) \<Rightarrow>
        (case loads_item js raw of
           Inl e \<Rightarrow> (n, out, drained)
         | Inr it \<Rightarrow> if accepts n then (Suc n, out @ [dequeued it], Suc drained) else (Suc n, out, drained)))"

text \<open>The rounds; \<open>pops = Some k\<close> when the pop after \<open>k\<close> rounds raises.  The last component tells that it did.\<close>

function drain_rounds ::
    "'j item_json \<Rightarrow> (nat \<Rightarrow> bool) \<Rightarrow> nat \<Rightarrow> nat option \<Rightarrow> 'j list \<Rightarrow> nat \<times> message list \<times> nat \<Rightarrow>
     'j list \<times> (nat \<times> message list \<times> nat) \<times> bool" where
  "drain_rounds js accepts per pops q s =
     (if pops = Some 0 then (q, s, True)
      else if per = 0 \<or> q = [] then (q, s, False)
      else drain_rounds js accepts per (map_option (\<lambda>k. k - 1) pops) (take (length q - per) q)
        (fold (drain_item js accepts) (take per (rev q)) s))"
  by pat_completeness auto
termination
  by (relation "measure (\<lambda>(js, accepts, per, pops, q, s). length q)") auto

declare drain_rounds.simps [simp del]

text \<open>\<^verbatim>\<open>fallback_drain\<close>, with whether Redis is there and whether the flush returns: the queue, the messages produced and the count.\<close>

definition fallback_drain ::
    "'j item_json \<Rightarrow> bool \<Rightarrow> (nat \<Rightarrow> bool) \<Rightarrow> nat option \<Rightarrow> bool \<Rightarrow> nat \<Rightarrow> 'j list \<Rightarrow> 'j list \<times> message list \<times> nat" where
  "fallback_drain js available accepts pops flushes batch_size q =
     (if \<not> available then (q, [], 0)
      else case drain_rounds js accepts (min batch_size 50) pops q (0, [], 0) of
        (q', (n, out, drained), raised) \<Rightarrow> (q', out, if raised \<or> \<not> flushes then 0 else drained))"

section \<open>Producing\<close>

record 'j client =
  cl_breaker :: circuit_breaker
  cl_queue :: "'j list"
  cl_sent :: "message list"

text \<open>One call: when the breaker is asked, whether the producer takes the message, when a failure is recorded, and how Redis answers.\<close>

record produce_input =
  pi_asked_at :: rat
  pi_accepted :: bool
  pi_failed_at :: rat
  pi_redis :: redis_answer

definition produce_with_fallback :: "'j item_json \<Rightarrow> produce_input \<Rightarrow> message \<Rightarrow> 'j client \<Rightarrow> 'j client \<times> bool result" where
  "produce_with_fallback js i m cl =
     (let (cb, opened) = is_open (pi_asked_at i) (cl_breaker cl) in
      if opened then
        (let (q, r) = fallback_enqueue js (pi_redis i) (pi_asked_at i) m (cl_queue cl) in
         (cl\<lparr>cl_breaker := cb, cl_queue := q\<rparr>, Inr r))
      else if pi_accepted i then (cl\<lparr>cl_breaker := record_success cb, cl_sent := cl_sent cl @ [m]\<rparr>, Inr True)
      else
        (let (q, r) = fallback_enqueue js (pi_redis i) (pi_failed_at i) m (cl_queue cl) in
         (cl\<lparr>cl_breaker := record_failure (pi_failed_at i) cb, cl_queue := q\<rparr>,
          if r then Inr False else Inl (OtherError ''BufferError''))))"

definition fallback_queue_size :: "bool \<Rightarrow> 'j list \<Rightarrow> nat" where
  "fallback_queue_size answers q = (if answers then length q else 0)"

text \<open>\<^verbatim>\<open>try_drain_fallback\<close>: nothing happens unless the breaker is closed and the queue has messages.\<close>

record drain_input =
  di_now :: rat
  di_size_answers :: bool
  di_available :: bool
  di_accepts :: "nat \<Rightarrow> bool"
  di_pops :: "nat option"
  di_flushes :: bool

definition try_drain_fallback :: "'j item_json \<Rightarrow> drain_input \<Rightarrow> 'j client \<Rightarrow> 'j client \<times> nat" where
  "try_drain_fallback js i cl =
     (let (cb, s) = read_state (di_now i) (cl_breaker cl); cl1 = cl\<lparr>cl_breaker := cb\<rparr> in
      if s = CLOSED \<and> 0 < fallback_queue_size (di_size_answers i) (cl_queue cl)
      then case fallback_drain js (di_available i) (di_accepts i) (di_pops i) (di_flushes i) 100 (cl_queue cl) of
        (q, out, n) \<Rightarrow> (cl1\<lparr>cl_queue := q, cl_sent := cl_sent cl1 @ out\<rparr>, n)
      else (cl1, 0))"

text \<open>What the callers do with the client, one after the other.\<close>

datatype broker_call = Produce produce_input message | Drain drain_input

fun run_call :: "'j item_json \<Rightarrow> broker_call \<Rightarrow> 'j client \<Rightarrow> 'j client" where
  "run_call js (Produce i m) cl = fst (produce_with_fallback js i m cl)"
| "run_call js (Drain d) cl = fst (try_drain_fallback js d cl)"

definition new_client :: "nat \<Rightarrow> rat \<Rightarrow> 'j client" where
  "new_client threshold timeout = \<lparr>cl_breaker = new_breaker threshold timeout, cl_queue = [], cl_sent = []\<rparr>"

section \<open>The breaker against its history\<close>

text \<open>The calls that were let through to the broker, and the length of the row of failures at the end of them.\<close>

definition let_through :: "broker_call \<Rightarrow> 'j client \<Rightarrow> produce_input list" where
  "let_through c cl =
     (case c of Produce i m \<Rightarrow> if snd (is_open (pi_asked_at i) (cl_breaker cl)) then [] else [i] | Drain d \<Rightarrow> [])"

fun attempts :: "'j item_json \<Rightarrow> broker_call list \<Rightarrow> 'j client \<Rightarrow> produce_input list" where
  "attempts js [] cl = []"
| "attempts js (c # cs) cl = let_through c cl @ attempts js cs (run_call js c cl)"

definition failing :: "produce_input list \<Rightarrow> nat" where
  "failing is = length (takeWhile (Not \<circ> pi_accepted) (rev is))"

fun call_times :: "broker_call \<Rightarrow> rat list" where
  "call_times (Produce i m) = [pi_asked_at i, pi_failed_at i]"
| "call_times (Drain d) = [di_now d]"

lemma failing_snoc [simp]: "failing (is @ [i]) = (if pi_accepted i then 0 else Suc (failing is))"
  by (simp add: failing_def)

lemma failing_Nil [simp]: "failing [] = 0"
  by (simp add: failing_def)

text \<open>The state of the breaker at a time not before \<open>now\<close>, given the attempts so far.\<close>

definition breaker_follows :: "nat \<Rightarrow> rat \<Rightarrow> produce_input list \<Rightarrow> rat \<Rightarrow> circuit_breaker \<Rightarrow> bool" where
  "breaker_follows threshold timeout is now cb \<longleftrightarrow>
     cb_failure_threshold cb = threshold \<and> cb_recovery_timeout cb = timeout \<and> cb_failure_count cb = failing is \<and>
     (cb_state cb = CLOSED \<longleftrightarrow> failing is < threshold) \<and>
     (0 < failing is \<longrightarrow> cb_last_failure_time cb = pi_failed_at (last is)) \<and>
     (cb_state cb = HALF_OPEN \<longrightarrow> timeout \<le> now - cb_last_failure_time cb)"

lemmas breaker_defs = is_open_def read_state_def record_success_def record_failure_def Let_def

lemma is_open_follows:
  assumes "breaker_follows threshold timeout is now cb" and "now \<le> t" and "0 < threshold"
  shows "snd (is_open t cb) \<longleftrightarrow> threshold \<le> failing is \<and> t - pi_failed_at (last is) < timeout"
    and "breaker_follows threshold timeout is t (fst (read_state t cb))"
    and "fst (is_open t cb) = fst (read_state t cb)"
  using assms by (cases "cb_state cb"; auto simp: breaker_follows_def breaker_defs)+

lemma let_through_follows:
  assumes "breaker_follows threshold timeout is now (cl_breaker cl)" and "0 < threshold" and "sorted (now # call_times c)"
  shows "breaker_follows threshold timeout (is @ let_through c cl) (last (now # call_times c)) (cl_breaker (run_call js c cl))"
proof (cases c)
  case (Drain d)
  with assms(3) have "now \<le> di_now d" by simp
  from is_open_follows(2) [OF assms(1) this assms(2)] show ?thesis
    by (auto simp: Drain let_through_def try_drain_fallback_def Let_def split: prod.splits)
next
  case (Produce i m)
  with assms(3) have t: "now \<le> pi_asked_at i" "pi_asked_at i \<le> pi_failed_at i" by simp_all
  note follows = is_open_follows [OF assms(1) t(1) assms(2)]
  show ?thesis
  proof (cases "snd (is_open (pi_asked_at i) (cl_breaker cl))")
    case True
    have "cl_breaker (run_call js c cl) = fst (read_state (pi_asked_at i) (cl_breaker cl))"
      using True follows(3) by (auto simp: Produce produce_with_fallback_def split: prod.splits)
    moreover have "breaker_follows threshold timeout is (pi_failed_at i) (fst (read_state (pi_asked_at i) (cl_breaker cl)))"
      using follows(2) t(2) by (auto simp: breaker_follows_def)
    ultimately show ?thesis using True by (simp add: Produce let_through_def)
  next
    case False
    let ?cb = "fst (read_state (pi_asked_at i) (cl_breaker cl))"
    have "cl_breaker (run_call js c cl) = (if pi_accepted i then record_success ?cb else record_failure (pi_failed_at i) ?cb)"
      using False follows(3) by (auto simp: Produce produce_with_fallback_def Let_def split: prod.splits)
    moreover have "cb_state ?cb \<noteq> OPEN"
      using False by (auto simp: is_open_def split: prod.splits) (auto simp: read_state_def Let_def)
    then have "breaker_follows threshold timeout (is @ [i]) (pi_failed_at i)
        (if pi_accepted i then record_success ?cb else record_failure (pi_failed_at i) ?cb)"
      using follows(2) assms(2)
      by (cases "cb_state ?cb") (auto simp: breaker_follows_def record_success_def record_failure_def Let_def)
    ultimately show ?thesis using False by (simp add: Produce let_through_def)
  qed
qed

lemma run_calls_follow:
  assumes "breaker_follows threshold timeout is now (cl_breaker cl)" and "0 < threshold" and "sorted (now # concat (map call_times cs))"
  shows "breaker_follows threshold timeout (is @ attempts js cs cl) (last (now # concat (map call_times cs)))
    (cl_breaker (fold (run_call js) cs cl))"
  using assms(1,3)
proof (induction cs arbitrary: "is" now cl)
  case (Cons c cs)
  have sorted: "sorted (now # call_times c)" "sorted (last (now # call_times c) # concat (map call_times cs))"
    using Cons.prems(2) by (cases c; auto)+
  from Cons.IH [OF let_through_follows [OF Cons.prems(1) assms(2) sorted(1)] sorted(2)]
  show ?case by (cases c) auto
qed simp

lemma new_breaker_follows: "0 < threshold \<Longrightarrow> breaker_follows threshold timeout [] now (new_breaker threshold timeout)"
  by (simp add: breaker_follows_def new_breaker_def)

lemma attempt_split:
  assumes "k < length (attempts js cs cl)"
  obtains front i m rest where "cs = front @ Produce i m # rest" and "attempts js front cl = take k (attempts js cs cl)"
    and "attempts js cs cl ! k = i" and "\<not> snd (is_open (pi_asked_at i) (cl_breaker (fold (run_call js) front cl)))"
  using assms
proof (induction cs arbitrary: cl k thesis)
  case (Cons c cs)
  show ?case
  proof (cases "let_through c cl")
    case Nil
    with Cons.prems(2) have "k < length (attempts js cs (run_call js c cl))" by simp
    then obtain front i m rest where "cs = front @ Produce i m # rest" "attempts js front (run_call js c cl) = take k (attempts js cs (run_call js c cl))"
      "attempts js cs (run_call js c cl) ! k = i" "\<not> snd (is_open (pi_asked_at i) (cl_breaker (fold (run_call js) front (run_call js c cl))))"
      by (rule Cons.IH [rotated])
    then show ?thesis using Nil by (intro Cons.prems(1) [of "c # front" i m rest]) simp_all
  next
    case (Cons i js')
    then obtain m where c: "c = Produce i m" "\<not> snd (is_open (pi_asked_at i) (cl_breaker cl))" "js' = []"
      by (auto simp: let_through_def split: broker_call.splits if_splits)
    show ?thesis
    proof (cases k)
      case 0
      then show ?thesis using c by (intro Cons.prems(1) [of "[]" i m cs]) (simp_all add: let_through_def)
    next
      case (Suc k')
      with Cons.prems(2) Cons c(3) have "k' < length (attempts js cs (run_call js c cl))" by simp
      then obtain front i' m' rest where "cs = front @ Produce i' m' # rest"
        "attempts js front (run_call js c cl) = take k' (attempts js cs (run_call js c cl))"
        "attempts js cs (run_call js c cl) ! k' = i'" "\<not> snd (is_open (pi_asked_at i') (cl_breaker (fold (run_call js) front (run_call js c cl))))"
        by (rule Cons.IH [rotated])
      then show ?thesis using Suc c Cons by (intro Cons.prems(1) [of "c # front" i' m' rest]) simp_all
    qed
  qed
qed simp

lemma sorted_from_head: "sorted (ts @ [t]) \<Longrightarrow> sorted (hd (ts @ [t]) # ts) \<and> last (hd (ts @ [t]) # ts) \<le> t" for ts :: "rat list"
proof (cases ts rule: rev_cases)
  case (snoc us u)
  assume "sorted (ts @ [t])"
  moreover from this have "hd (ts @ [t]) \<le> x" if "x \<in> set ts" for x
    using that by (cases ts) auto
  ultimately show ?thesis using snoc by (auto simp: sorted_append)
qed simp

text \<open>C12.  The breaker does what its states are for.  After any sequence of calls it rejects a message exactly if the last attempts,
  at least as many as the threshold, have all failed and the recovery timeout has not passed since the last of them; hence
  after that many failures the broker is not asked again before the timeout is over.\<close>

theorem circuit_opens_exactly:
  assumes "0 < threshold" and "sorted (concat (map call_times calls) @ [t])"
  shows "(snd (is_open t (cl_breaker (fold (run_call js) calls (new_client threshold timeout)))) \<longleftrightarrow>
      threshold \<le> failing (attempts js calls (new_client threshold timeout)) \<and>
      t - pi_failed_at (last (attempts js calls (new_client threshold timeout))) < timeout) \<and>
    (\<forall>k < length (attempts js calls (new_client threshold timeout)).
      threshold \<le> failing (take k (attempts js calls (new_client threshold timeout))) \<longrightarrow>
      timeout \<le> pi_asked_at (attempts js calls (new_client threshold timeout) ! k) -
        pi_failed_at (attempts js calls (new_client threshold timeout) ! (k - 1)))"
proof -
  let ?cl = "new_client threshold timeout"
  have exact: "snd (is_open t' (cl_breaker (fold (run_call js) cs ?cl))) \<longleftrightarrow>
      threshold \<le> failing (attempts js cs ?cl) \<and> t' - pi_failed_at (last (attempts js cs ?cl)) < timeout"
    if "sorted (concat (map call_times cs) @ [t'])" for cs t'
  proof -
    let ?now = "hd (concat (map call_times cs) @ [t'])"
    have now: "sorted (?now # concat (map call_times cs))" "last (?now # concat (map call_times cs)) \<le> t'"
      using sorted_from_head [OF that] by simp_all
    have "breaker_follows threshold timeout [] ?now (cl_breaker ?cl)"
      using new_breaker_follows [OF assms(1)] by (simp add: new_client_def)
    from is_open_follows(1) [OF run_calls_follow [OF this assms(1) now(1)] now(2) assms(1)] show ?thesis by simp
  qed
  moreover have "timeout \<le> pi_asked_at (attempts js calls ?cl ! k) - pi_failed_at (attempts js calls ?cl ! (k - 1))"
    if k: "k < length (attempts js calls ?cl)" and fail: "threshold \<le> failing (take k (attempts js calls ?cl))" for k
  proof -
    obtain front i m rest where split: "calls = front @ Produce i m # rest" "attempts js front ?cl = take k (attempts js calls ?cl)"
      "attempts js calls ?cl ! k = i" "\<not> snd (is_open (pi_asked_at i) (cl_breaker (fold (run_call js) front ?cl)))"
      using attempt_split [OF k] by blast
    have "sorted (concat (map call_times front) @ [pi_asked_at i])"
      using assms(2) by (auto simp: split(1) sorted_append)
    from exact [OF this] split fail have "timeout \<le> pi_asked_at i - pi_failed_at (last (take k (attempts js calls ?cl)))" by simp
    moreover have "0 < k" using fail assms(1) by (cases k) auto
    then have "last (take k (attempts js calls ?cl)) = attempts js calls ?cl ! (k - 1)" using k
      by (subst last_conv_nth) (auto simp: min_def)
    ultimately show ?thesis by (simp add: split(3))
  qed
  ultimately show ?thesis using assms(2) by blast
qed

text \<open>Three failures of a broker, then a message while the breaker is open, and the first attempt after thirty seconds.\<close>

definition text_json :: "queued_item item_json" where
  "text_json = \<lparr>dumps_item = (\<lambda>it. it), loads_item = Inr\<rparr>"

definition attempt_at :: "rat \<Rightarrow> bool \<Rightarrow> broker_call" where
  "attempt_at t ok = Produce \<lparr>pi_asked_at = t, pi_accepted = ok, pi_failed_at = t, pi_redis = Unavailable\<rparr> \<lparr>msg_topic = ''t'', msg_value = [65], msg_key = None\<rparr>"

theorem circuit_opens_exactly_witness:
  "snd (is_open 20 (cl_breaker (fold (run_call text_json)
     [attempt_at 1 False, attempt_at 2 False, attempt_at 3 False, attempt_at 10 True] (new_client 3 30))))"
proof -
  let ?calls = "[attempt_at 1 False, attempt_at 2 False, attempt_at 3 False, attempt_at 10 True]"
  have calls: "attempts text_json ?calls (new_client 3 30) =
      map (\<lambda>t. \<lparr>pi_asked_at = t, pi_accepted = False, pi_failed_at = t, pi_redis = Unavailable\<rparr>) [1, 2, 3]"
    by code_simp
  have "sorted (concat (map call_times ?calls) @ [20])" by code_simp
  from circuit_opens_exactly [OF _ this, where js = text_json and threshold = 3 and timeout = 30, unfolded calls]
  have "snd (is_open 20 (cl_breaker (fold (run_call text_json) ?calls (new_client 3 30)))) \<longleftrightarrow>
      3 \<le> failing (map (\<lambda>t. \<lparr>pi_asked_at = t, pi_accepted = False, pi_failed_at = t, pi_redis = Unavailable\<rparr>) [1, 2, 3]) \<and>
      (20 :: rat) - 3 < 30" by simp
  then show ?thesis by (simp add: failing_def)
qed

section \<open>Texts survive the queue\<close>

lemma utf8_decode_sequences:
  "2 \<le> a \<Longrightarrow> a < 32 \<Longrightarrow> r < 64 \<Longrightarrow> utf8_decode ([192 + a, 128 + r] @ bs) = (64 * a + r) # utf8_decode bs"
  "b < 16 \<Longrightarrow> s < 64 \<Longrightarrow> r < 64 \<Longrightarrow> (b = 0 \<Longrightarrow> 32 \<le> s) \<Longrightarrow> (b = 13 \<Longrightarrow> s < 32) \<Longrightarrow>
    utf8_decode ([224 + b, 128 + s, 128 + r] @ bs) = (4096 * b + 64 * s + r) # utf8_decode bs"
  "d < 5 \<Longrightarrow> u < 64 \<Longrightarrow> s < 64 \<Longrightarrow> r < 64 \<Longrightarrow> (d = 0 \<Longrightarrow> 16 \<le> u) \<Longrightarrow> (d = 4 \<Longrightarrow> u < 16) \<Longrightarrow>
    utf8_decode ([240 + d, 128 + u, 128 + s, 128 + r] @ bs) = (262144 * d + 4096 * u + 64 * s + r) # utf8_decode bs"
  by (simp_all add: continues_def second_byte_def)

lemma utf8_decode_char:
  assumes "scalar c"
  shows "utf8_decode (utf8_char c @ bs) = c # utf8_decode bs"
proof -
  define a r b s d u where "a = c div 64" and "r = c mod 64" and "b = a div 64" and "s = a mod 64" and "d = b div 64" and "u = b mod 64"
  have c: "c = 64 * a + r" "a = 64 * b + s" "b = 64 * d + u" and less: "r < 64" "s < 64" "u < 64"
    by (simp_all add: a_def r_def b_def s_def d_def u_def)
  have parts: "c div 64 = a" "c mod 64 = r" "c div 4096 = b" "c div 64 mod 64 = s" "c div 4096 mod 64 = u" "c div 262144 = d"
    using div_mult2_eq [of c 64 64] div_mult2_eq [of c 4096 64] by (simp_all add: a_def r_def b_def s_def d_def u_def)
  consider "c < 128" | "128 \<le> c" "c < 2048" | "2048 \<le> c" "c < 65536" | "65536 \<le> c" "c < 1114112"
    using assms unfolding scalar_def by linarith
  then show ?thesis
  proof cases
    case 2
    then have "utf8_char c = [192 + a, 128 + r]" by (simp add: utf8_char_def parts s_def [symmetric] u_def [symmetric])
    moreover have "2 \<le> a" "a < 32" using 2 c less by linarith+
    ultimately show ?thesis using utf8_decode_sequences(1) less c by simp
  next
    case 3
    then have "utf8_char c = [224 + b, 128 + s, 128 + r]" by (simp add: utf8_char_def parts s_def [symmetric] u_def [symmetric])
    moreover have "b < 16" using 3 c less by linarith
    moreover have "32 \<le> s" if "b = 0" using that 3 c less by linarith
    moreover have "s < 32" if "b = 13" using that assms 3 c less unfolding scalar_def by linarith
    moreover have "4096 * b + 64 * s + r = c" using c by linarith
    ultimately show ?thesis using utf8_decode_sequences(2) [of b s r bs] less by presburger
  next
    case 4
    then have "utf8_char c = [240 + d, 128 + u, 128 + s, 128 + r]" by (simp add: utf8_char_def parts s_def [symmetric] u_def [symmetric])
    moreover have "d < 5" using 4 c less by linarith
    moreover have "16 \<le> u" if "d = 0" using that 4 c less by linarith
    moreover have "u < 16" if "d = 4" using that 4 c less by linarith
    moreover have "262144 * d + 4096 * u + 64 * s + r = c" using c by linarith
    ultimately show ?thesis using utf8_decode_sequences(3) [of d u s r bs] less by presburger
  qed (simp add: utf8_char_def)
qed

lemma utf8_decode_encode: "list_all scalar cs \<Longrightarrow> utf8_decode (utf8_encode cs) = cs"
  by (induction cs) (simp_all add: utf8_encode_def utf8_decode_char del: utf8_decode.simps(2))

text \<open>Messages as the producers of the repository make them: encodings of texts, with no key or one that is not empty.\<close>

definition encoded_text :: "nat list \<Rightarrow> bool" where
  "encoded_text bs \<longleftrightarrow> (\<exists>cs. list_all scalar cs \<and> bs = utf8_encode cs)"

definition text_message :: "message \<Rightarrow> bool" where
  "text_message m \<longleftrightarrow> encoded_text (msg_value m) \<and> (case msg_key m of None \<Rightarrow> True | Some k \<Rightarrow> k \<noteq> [] \<and> encoded_text k)"

lemma encoded_text_unchanged: "encoded_text bs \<Longrightarrow> utf8_encode (utf8_decode bs) = bs"
  by (auto simp: encoded_text_def utf8_decode_encode)

lemma dequeued_queued:
  assumes "text_message m"
  shows "dequeued (queued now m) = m"
proof -
  have "utf8_decode k \<noteq> []" if "k \<noteq> []" "encoded_text k" for k
    using encoded_text_unchanged [OF that(2)] that(1) by (auto simp: utf8_encode_def)
  then show ?thesis using assms
    by (cases m) (auto simp: text_message_def dequeued_def queued_def encoded_text_unchanged split: option.splits)
qed

section \<open>An outage\<close>

lemma drain_items:
  assumes "\<And>it. loads_item js (dumps_item js it) = Inr it" and "\<And>n. accepts n"
  shows "fold (drain_item js accepts) (map (dumps_item js) items) (n, out, k) =
    (n + length items, out @ map dequeued items, k + length items)"
  using assms by (induction items arbitrary: n out k) (simp_all add: drain_item_def)

lemma drain_all:
  assumes "\<And>it. loads_item js (dumps_item js it) = Inr it" and "\<And>n. accepts n" and "0 < per"
  shows "drain_rounds js accepts per None (rev (map (dumps_item js) items)) (n, out, k) =
    ([], (n + length items, out @ map dequeued items, k + length items), False)"
proof (induction "length items" arbitrary: items n out k rule: less_induct)
  case less
  show ?case
  proof (cases items)
    case Nil
    then show ?thesis by (subst drain_rounds.simps) simp
  next
    case Cons
    then have "length (drop per items) < length items" using assms(3) by simp
    from less [OF this, of "n + length (take per items)" "out @ map dequeued (take per items)" "k + length (take per items)"]
    have rest: "drain_rounds js accepts per None (rev (map (dumps_item js) (drop per items)))
        (n + length (take per items), out @ map dequeued (take per items), k + length (take per items)) =
        ([], (n + length items, out @ map dequeued items, k + length items), False)"
      by (simp add: min_def) (metis append_take_drop_id map_append)
    have "take (length items - per) (rev (map (dumps_item js) items)) = rev (map (dumps_item js) (drop per items))"
      by (simp add: rev_drop drop_map [symmetric])
    moreover have "take per (map (dumps_item js) items) = map (dumps_item js) (take per items)" by (simp add: take_map)
    ultimately show ?thesis using Cons assms(3) rest
      by (subst drain_rounds.simps) (simp add: drain_items [OF assms(1,2)] del: length_take)
  qed
qed

text \<open>Every message of a sequence of calls has either been taken by the producer or waits in the queue, each in order.\<close>

lemma calls_partition:
  assumes "\<forall>(i, m) \<in> set ims. pi_redis i = Answers \<and> text_message m"
    and "length (cl_queue cl) + length ims \<le> fallback_max_size"
  shows "\<exists>A items. cl_sent (fold (run_call js) (map (\<lambda>(i, m). Produce i m) ims) cl) = cl_sent cl @ nths (map snd ims) A \<and>
    cl_queue (fold (run_call js) (map (\<lambda>(i, m). Produce i m) ims) cl) = rev (map (dumps_item js) items) @ cl_queue cl \<and>
    map dequeued items = nths (map snd ims) (- A)"
  using assms
proof (induction ims arbitrary: cl)
  case Nil
  show ?case by (intro exI [of _ "{}"] exI [of _ "[]"]) simp
next
  case (Cons im ims)
  obtain i m where im: "im = (i, m)" by (cases im)
  with Cons.prems have answers: "pi_redis i = Answers" "text_message m" by auto
  let ?cl = "run_call js (Produce i m) cl"
  have step: "cl_sent ?cl = cl_sent cl @ [m] \<and> cl_queue ?cl = cl_queue cl \<or>
      cl_sent ?cl = cl_sent cl \<and> (\<exists>now. cl_queue ?cl = dumps_item js (queued now m) # cl_queue cl)"
    using Cons.prems(2) answers(1)
    by (auto simp: produce_with_fallback_def fallback_enqueue_def Let_def min_def split: prod.splits)
  then have "length (cl_queue ?cl) + length ims \<le> fallback_max_size" using Cons.prems(2) by auto
  with Cons.IH [of ?cl] Cons.prems(1) obtain A items where rest:
    "cl_sent (fold (run_call js) (map (\<lambda>(i, m). Produce i m) ims) ?cl) = cl_sent ?cl @ nths (map snd ims) A"
    "cl_queue (fold (run_call js) (map (\<lambda>(i, m). Produce i m) ims) ?cl) = rev (map (dumps_item js) items) @ cl_queue ?cl"
    "map dequeued items = nths (map snd ims) (- A)" by auto
  have shift: "{j. Suc j \<in> insert 0 (Suc ` A)} = A" "{j. Suc j \<in> - insert 0 (Suc ` A)} = - A" "{j. Suc j \<in> Suc ` A} = A" "{j. Suc j \<in> - (Suc ` A)} = - A"
    by auto
  from step show ?case
  proof
    assume "cl_sent ?cl = cl_sent cl @ [m] \<and> cl_queue ?cl = cl_queue cl"
    then show ?thesis using rest shift
      by (intro exI [of _ "insert 0 (Suc ` A)"] exI [of _ items]) (simp add: im nths_Cons)
  next
    assume "cl_sent ?cl = cl_sent cl \<and> (\<exists>now. cl_queue ?cl = dumps_item js (queued now m) # cl_queue cl)"
    then obtain now where "cl_sent ?cl = cl_sent cl" "cl_queue ?cl = dumps_item js (queued now m) # cl_queue cl" by blast
    then show ?thesis using rest shift dequeued_queued [OF answers(2)]
      by (intro exI [of _ "Suc ` A"] exI [of _ "queued now m # items"]) (simp add: im nths_Cons)
  qed
qed


definition after_outage :: drain_input where
  "after_outage = \<lparr>di_now = 50, di_size_answers = True, di_available = True, di_accepts = (\<lambda>n. True), di_pops = None, di_flushes = True\<rparr>"

definition outage_calls :: "(produce_input \<times> message) list" where
  "outage_calls = map (\<lambda>(t, ok, c). (\<lparr>pi_asked_at = t, pi_accepted = ok, pi_failed_at = t, pi_redis = Answers\<rparr>,
       \<lparr>msg_topic = ''t'', msg_value = [c], msg_key = None\<rparr>)) [(1, False, 65), (2, True, 66)]"


section \<open>What names of topics are accepted\<close>

lemma dropWhile_idle: "list_all (\<lambda>c. \<not> P c) xs \<Longrightarrow> dropWhile P xs = xs"
  by (cases xs) simp_all

lemma topic_char_no_space: "topic_char c \<Longrightarrow> \<not> is_space c"
  by (auto simp: topic_char_def is_ascii_letter_def is_digit_def is_space_def cp_def)

lemma guard_Inr: "(if c then Inl e else x) = Inr y \<longleftrightarrow> \<not> c \<and> x = Inr y"
  by simp

text \<open>A topic name is accepted exactly if, without surrounding white space, it has between 1 and 249 characters, all of them ASCII letters,
  digits, dots, hyphens or underscores, and does not start with an underscore.  What is returned is that text,
  which is accepted unchanged when it is checked again.\<close>

theorem topic_name_accepted_exactly:
  "(validate_topic_name topic = Inr t \<longleftrightarrow>
     t = py_strip topic \<and> 0 < length t \<and> length t \<le> 249 \<and> list_all topic_char t \<and> hd t \<noteq> CHR ''_'') \<and>
   (validate_topic_name topic = Inr t \<longrightarrow> validate_topic_name t = Inr t)"
proof -
  have prefix: "list_ex (starts_with s) invalid_topic_prefixes \<longleftrightarrow> s \<noteq> [] \<and> hd s = CHR ''_''" for s
    by (cases s) (auto simp: invalid_topic_prefixes_def starts_with_def)
  have exact: "validate_topic_name s = Inr t \<longleftrightarrow>
      t = py_strip s \<and> 0 < length t \<and> length t \<le> 249 \<and> list_all topic_char t \<and> hd t \<noteq> CHR ''_''" for s
    unfolding validate_topic_name_def Let_def prefix guard_Inr sum.inject
    by auto
  have "py_strip t = t" if "list_all topic_char t"
  proof -
    have "list_all (\<lambda>c. \<not> is_space c) t" using that by (auto simp: list_all_iff topic_char_no_space)
    then show ?thesis by (simp add: py_strip_def dropWhile_idle)
  qed
  then have "validate_topic_name t = Inr t" if "validate_topic_name topic = Inr t" using that exact [of t] exact [of topic] by metis
  with exact [of topic] show ?thesis by metis
qed

section \<open>Where the client deviates\<close>

text \<open>A message that goes to the queue because the breaker is open is reported as sent, and one that is neither sent nor queued as
  queued.\<close>

theorem open_breaker_answers_wrongly:
  assumes "snd (is_open (pi_asked_at i) (cl_breaker cl))"
  shows "pi_redis i = Answers \<Longrightarrow> cl_sent (fst (produce_with_fallback js i m cl)) = cl_sent cl \<and> snd (produce_with_fallback js i m cl) = Inr True"
    and "pi_redis i = Unavailable \<Longrightarrow> cl_sent (fst (produce_with_fallback js i m cl)) = cl_sent cl \<and>
      cl_queue (fst (produce_with_fallback js i m cl)) = cl_queue cl \<and> snd (produce_with_fallback js i m cl) = Inr False"
  using assms by (auto simp: produce_with_fallback_def fallback_enqueue_def split: prod.splits)

text \<open>A drain takes all messages off the queue before it knows whether the producer accepts them: with a producer that
  refuses all of them, all are lost.\<close>

lemma refused_items:
  assumes "\<And>n. \<not> accepts n" and "fold (drain_item js accepts) raws (n, out, k) = (n', out', k')"
  shows "out' = out \<and> k' = k"
  using assms(2) by (induction raws arbitrary: n) (auto simp: drain_item_def assms(1) split: sum.splits)

theorem drain_drops_refused:
  assumes "\<And>n. \<not> accepts n" and "0 < per"
  shows "\<exists>n'. drain_rounds js accepts per None q (n, out, k) = ([], (n', out, k), False)"
proof (induction "length q" arbitrary: q n rule: less_induct)
  case less
  show ?case
  proof (cases "q = []")
    case True
    then show ?thesis by (subst drain_rounds.simps) simp
  next
    case False
    obtain n1 out1 k1 where items: "fold (drain_item js accepts) (take per (rev q)) (n, out, k) = (n1, out1, k1)"
      by (cases "fold (drain_item js accepts) (take per (rev q)) (n, out, k)") auto
    with refused_items [OF assms(1) items] have "out1 = out" "k1 = k" by simp_all
    moreover have "length (take (length q - per) q) < length q" using False assms(2) by simp
    ultimately show ?thesis using less [of "take (length q - per) q" n1] items False assms(2)
      by (subst drain_rounds.simps) simp
  qed
qed

text \<open>Bytes that encode no text come out of the queue changed, and an empty key comes out as none.\<close>

theorem binary_values_change:
  "\<exists>now. msg_value (dequeued (queued now \<lparr>msg_topic = ''t'', msg_value = [255, 65], msg_key = Some []\<rparr>)) = [239, 191, 189, 65] \<and>
     msg_key (dequeued (queued now \<lparr>msg_topic = ''t'', msg_value = [255, 65], msg_key = Some []\<rparr>)) = None"
  by (simp add: dequeued_def queued_def utf8_encode_def utf8_char_def)

text \<open>The name of the dead letter topic is four characters longer and is not checked: with a broker that refuses names of more than 249
  characters the topic is made and the call raises.\<close>

theorem long_topic_without_dlq:
  assumes "validate_topic_name t = Inr t" and "245 < length t" and "bk_topics bk = []"
    and "\<And>s. bk_refuses bk s = (if 249 < length s then Some ''INVALID_TOPIC'' else None)"
  shows "create_topic t n bk = (bk\<lparr>bk_topics := [(t, n)]\<rparr>, Inl (OtherError ''INVALID_TOPIC''))"
proof -
  have "length t \<le> 249" using assms(1) by (auto simp: validate_topic_name_def Let_def split: if_splits)
  moreover have "\<not> contains (py_lower ''INVALID_TOPIC'') ''already_exists''" "\<not> contains (py_lower ''INVALID_TOPIC'') ''already exists''"
    by code_simp+
  ultimately show ?thesis using assms
    by (simp add: create_topic_def create_new_topic_def topic_exists_def dlq_name_def)
qed

text \<open>A topic that exists is taken to have its dead letter topic; and a name with white space around it is created without.\<close>

theorem ensure_topic_gaps:
  "topic_exists bk t \<Longrightarrow> fst (ensure_topic t bk) = bk"
  "fst (ensure_topic '' a'' \<lparr>bk_topics = [], bk_refuses = (\<lambda>s. None)\<rparr>) = \<lparr>bk_topics = [(''a'', 8), (''a.dlq'', 1)], bk_refuses = (\<lambda>s. None)\<rparr>"
proof -
  have "validate_topic_name '' a'' = Inr ''a''" by code_simp
  then show "fst (ensure_topic '' a'' \<lparr>bk_topics = [], bk_refuses = (\<lambda>s. None)\<rparr>) = \<lparr>bk_topics = [(''a'', 8), (''a.dlq'', 1)], bk_refuses = (\<lambda>s. None)\<rparr>"
    by (simp add: ensure_topic_def create_topic_def create_new_topic_def topic_exists_def dlq_name_def default_partitions_def)
qed (simp add: ensure_topic_def)

end
