(* ===== verification/StreamDaemon.thy ===== *)
theory StreamDaemon
  imports StepExecutor RunLifecycle BrokerClient
begin

text \<open>
  \<^verbatim>\<open>backend/tasks/streaming_pipeline.py\<close>, the daemon of a streaming run, and the requests of \<^verbatim>\<open>backend/routers/streaming.py\<close> that
  change the status of the run under it.  One round of the loop takes a record of what the database, the broker and the producers answer
  in it; the state keeps the counters, the offsets seen, the offsets committed and a log of everything sent.  JSON, data frames and
  their rows are parameters, steps are run by the smart executor.  Rates, latencies, the times of
  failures and the lag shown to users are left out.
\<close>

section \<open>Requests\<close>

datatype control_answer = NotFound404 | Refused400 string | Now run_status

text \<open>The row found for the user, \<open>None\<close> when there is none.\<close>

definition pause_streaming :: "run_status option \<Rightarrow> run_status option \<times> control_answer" where
  "pause_streaming row =
     (case row of None \<Rightarrow> (row, NotFound404)
      | Some s \<Rightarrow> if s \<noteq> STREAMING_ACTIVE then (row, Refused400 (''Run not streaming_active (status: '' @ status_value s @ '')''))
                  else (Some STREAMING_PAUSED, Now STREAMING_PAUSED))"

definition resume_streaming :: "run_status option \<Rightarrow> run_status option \<times> control_answer" where
  "resume_streaming row =
     (case row of None \<Rightarrow> (row, NotFound404)
      | Some s \<Rightarrow> if s \<noteq> STREAMING_PAUSED then (row, Refused400 (''Run not streaming_paused (status: '' @ status_value s @ '')''))
                  else (Some STREAMING_ACTIVE, Now STREAMING_ACTIVE))"

definition stop_streaming :: "run_status option \<Rightarrow> run_status option \<times> control_answer" where
  "stop_streaming row =
     (case row of None \<Rightarrow> (row, NotFound404)
      | Some s \<Rightarrow> if s \<notin> {STREAMING_ACTIVE, STREAMING_PAUSED}
                  then (row, Refused400 (''Run not streaming (status: '' @ status_value s @ '')''))
                  else (Some STREAMING_STOPPED, Now STREAMING_STOPPED))"

text \<open>A restart queues the task again.\<close>

definition restart_streaming :: "run_status option \<Rightarrow> run_status option \<times> control_answer" where
  "restart_streaming row =
     (case row of None \<Rightarrow> (row, NotFound404)
      | Some s \<Rightarrow> if s \<noteq> STREAMING_STOPPED then (row, Refused400 (''Run not stopped (status: '' @ status_value s @ '')''))
                  else (Some STREAMING_ACTIVE, Now STREAMING_ACTIVE))"

datatype control = Pause | Resume | Stop | Restart | Cancel

fun controlled :: "control \<Rightarrow> run_status option \<Rightarrow> run_status option" where
  "controlled Pause row = fst (pause_streaming row)"
| "controlled Resume row = fst (resume_streaming row)"
| "controlled Stop row = fst (stop_streaming row)"
| "controlled Restart row = fst (restart_streaming row)"
| "controlled Cancel row = map_option (\<lambda>s. if cancellable s then CANCELLED else s) row"

section \<open>Data\<close>

record kafka_message =
  km_topic :: string
  km_partition :: int
  km_offset :: int
  km_value :: "nat list option"
  km_key :: "nat list option"
  km_failed :: bool

type_synonym offset_key = "string \<times> int \<times> int"

definition offset_key :: "kafka_message \<Rightarrow> offset_key" where
  "offset_key m = (km_topic m, km_partition m, km_offset m)"

text \<open>What the daemon sends: letters to the dead letter topic with value, key, error text, topic and offset, records, commits and
  progress events with their counters.\<close>

datatype effect =
    Dead string "nat list option" "nat list option" "nat list" string int
  | Published pyval "nat list option" "nat list"
  | Committed string int int
  | Progress nat nat nat

record stream_setup =
  sg_topic :: string
  sg_group :: pyval
  sg_batch_size :: int
  sg_timeout_ms :: int
  sg_format :: pyval
  sg_publish :: "(pyval \<times> pyval) option"
  sg_middle :: "step_config list"

record ('j, 'c, 'd, 't, 'g) stream_env =
  en_loads :: "nat list \<Rightarrow> 'j result"
  en_raw :: "nat list \<Rightarrow> 'j"
  en_frame :: "'j list \<Rightarrow> 'd result"
  en_empty :: "'d \<Rightarrow> bool"
  en_table :: "'d \<Rightarrow> 't result"
  en_pandas :: "'t \<Rightarrow> 'd"
  en_rows :: "'d \<Rightarrow> (pyval \<times> 'c) list list"
  en_text :: "'c \<Rightarrow> nat list"
  en_dumps :: "(pyval \<times> 'c) list \<Rightarrow> nat list result"
  en_error :: "pyexn \<Rightarrow> nat list"
  en_engines :: "('t, 'g) engines"
  en_ms :: int
  en_listing :: "offset_key list \<Rightarrow> offset_key list"

record stats_row =
  sr_batches :: nat
  sr_messages :: nat
  sr_failed :: nat
  sr_dlq :: nat

record ('q, 'g) daemon_state =
  ds_batches :: nat
  ds_messages :: nat
  ds_failed :: nat
  ds_dlq :: nat
  ds_errors :: nat
  ds_processed :: "offset_key list"
  ds_committed :: "((string \<times> int) \<times> int) list"
  ds_log :: "effect list"
  ds_client :: "'q client"
  ds_recorder :: 'g
  ds_row :: "run_status option"
  ds_stats :: "stats_row option"

text \<open>One round: requests before the status is read, and whether reading it works; the same for the pause; the partitions and their
  ends; the drain; the messages; which letters and records the producers accept; whether commit and statistics are saved.\<close>

record round_input =
  rd_controls :: "control list"
  rd_read :: bool
  rd_pause_read :: bool
  rd_polls :: "(bool \<times> control list \<times> bool) list"
  rd_resumed_read :: bool
  rd_assignment :: "(string \<times> int) list result"
  rd_high :: "string \<times> int \<Rightarrow> int result"
  rd_drain :: drain_input
  rd_consumed :: "kafka_message list result"
  rd_malformed_accepted :: "nat \<Rightarrow> bool"
  rd_failed_accepted :: "nat \<Rightarrow> bool"
  rd_published :: "nat \<Rightarrow> bool"
  rd_saved :: bool
  rd_commit :: bool

datatype flow = Next | Leave | Waits | Raised pyexn

definition backpressure_lag_threshold :: int where "backpressure_lag_threshold = 50000"
definition idempotent_cache_limit :: int where "idempotent_cache_limit = 10000"
definition max_streaming_batch_size :: int where "max_streaming_batch_size = 50000"
definition max_consecutive_errors :: nat where "max_consecutive_errors = 50"
definition stats_update_interval :: nat where "stats_update_interval = 5"

section \<open>Replaying dead letters\<close>

text \<open>A new consumer reads the dead letters from the start.  A round of the loop: whether the time is not up, and how many messages the
  broker has ready.\<close>

fun replay_rounds :: "nat \<Rightarrow> (bool \<times> nat) list \<Rightarrow> kafka_message list \<Rightarrow> nat \<Rightarrow> kafka_message list" where
  "replay_rounds limit [] letters n = []"
| "replay_rounds limit ((in_time, ready) # rounds) letters n =
     (if limit \<le> n \<or> \<not> in_time then []
      else let batch = take (min ready (min (limit - n) 100)) letters; good = filter (\<lambda>m. \<not> km_failed m) batch in
        if batch = [] then [] else good @ replay_rounds limit rounds (drop (length batch) letters) (n + length good))"

text \<open>What is produced to the topic, \<open>None\<close> when there is no dead letter topic.\<close>

definition replay_dlq :: "nat \<Rightarrow> (bool \<times> nat) list \<Rightarrow> string \<Rightarrow> broker \<Rightarrow> kafka_message list \<Rightarrow>
    (string \<times> nat list option \<times> nat list option) list option" where
  "replay_dlq limit rounds t bk letters =
     (if \<not> topic_exists bk (dlq_name t) then None
      else Some (map (\<lambda>m. (t, km_value m, km_key m)) (replay_rounds limit rounds letters 0)))"

section \<open>Setting up\<close>

definition daemon_step_type :: "step_config \<Rightarrow> string" where
  "daemon_step_type st = (case step_type st of Inr ty \<Rightarrow> step_type_value ty | Inl v \<Rightarrow> if truthy v then py_str v else [])"

definition or_value :: "pyval \<Rightarrow> pyval \<Rightarrow> pyval" where
  "or_value v w = (if truthy v then v else w)"

definition publish_fields :: "step_config \<Rightarrow> pyval \<times> pyval" where
  "publish_fields st = (case cfg_fields st of StreamPublishFields i t s k \<Rightarrow> (t, k) | _ \<Rightarrow> (PNone, PNone))"

definition middle_steps :: "step_config list \<Rightarrow> step_config list" where
  "middle_steps sts = filter (\<lambda>s. daemon_step_type s \<notin> {''stream_consume'', ''stream_publish'', ''load'', ''save''}) sts"

text \<open>The settings of the consuming step, \<open>None\<close> when there is no such step.\<close>

definition setup_of :: "string \<Rightarrow> step_config list \<Rightarrow> stream_setup result option" where
  "setup_of run_id sts =
     (case find (\<lambda>s. daemon_step_type s = ''stream_consume'') sts of
        None \<Rightarrow> None
      | Some c \<Rightarrow> Some
          (case cfg_fields c of
             StreamConsumeFields t g n timeout fmt \<Rightarrow>
               bindE (text_of t) (\<lambda>tpc. Inr
                 \<lparr>sg_topic = tpc, sg_group = or_value g (PStr (''piq-'' @ take 8 run_id)),
                  sg_batch_size = max 1 (min (if n = 0 then 1000 else n) max_streaming_batch_size),
                  sg_timeout_ms = (if timeout = 0 then 5000 else timeout), sg_format = or_value fmt (PStr ''json''),
                  sg_publish = map_option publish_fields (find (\<lambda>s. daemon_step_type s = ''stream_publish'') sts),
                  sg_middle = middle_steps sts\<rparr>)
           | _ \<Rightarrow> Inl TypeError))"

section \<open>Status and pause\<close>

definition is_aborted :: "bool \<Rightarrow> run_status option \<Rightarrow> bool" where
  "is_aborted reads row \<longleftrightarrow> \<not> reads \<or> (case row of None \<Rightarrow> True | Some s \<Rightarrow> s \<notin> {STREAMING_ACTIVE, STREAMING_PAUSED})"

text \<open>Polls while paused: whether the status can be read, requests during the sleep, whether the row can be read after it.  The result
  is the row at the end, \<open>Inl\<close> when reading raises; \<open>None\<close> means that the run is still paused after these polls.\<close>

fun wait_while_paused :: "(bool \<times> control list \<times> bool) list \<Rightarrow> run_status option \<Rightarrow> run_status option result option" where
  "wait_while_paused [] row = None"
| "wait_while_paused ((reads, cs, reads_row) # polls) row =
     (if is_aborted reads row then Some (Inr row)
      else let row' = fold controlled cs row in
        if \<not> reads_row then Some (Inl (OtherError ''OperationalError''))
        else if row' \<noteq> Some STREAMING_PAUSED then Some (Inr row')
        else wait_while_paused polls row')"

text \<open>\<^verbatim>\<open>_handle_pause\<close>: the row after it, and whether the loop is to go on, to be left, or waits.\<close>

definition handle_pause :: "round_input \<Rightarrow> run_status option \<Rightarrow> run_status option \<times> flow" where
  "handle_pause rd row =
     (if \<not> rd_pause_read rd then (row, Raised (OtherError ''OperationalError''))
      else if row = None then (row, Leave)
      else if row = Some STREAMING_PAUSED then
        (case wait_while_paused (rd_polls rd) row of
           None \<Rightarrow> (fold controlled (concat (map (fst \<circ> snd) (rd_polls rd))) row, Waits)
         | Some (Inl e) \<Rightarrow> (row, Raised e)
         | Some (Inr row') \<Rightarrow> (row', if is_aborted (rd_resumed_read rd) row' then Leave else Next))
      else (row, Next))"

section \<open>Lag\<close>

definition partition_lag :: "((string \<times> int) \<times> int) list \<Rightarrow> (string \<times> int \<Rightarrow> int result) \<Rightarrow> string \<times> int \<Rightarrow> int" where
  "partition_lag committed high tp =
     (case (high tp, map_of committed tp) of (Inr h, Some c) \<Rightarrow> if 0 \<le> c then max 0 (h - c) else 0 | _ \<Rightarrow> 0)"

definition compute_consumer_lag ::
    "(string \<times> int) list result \<Rightarrow> (string \<times> int \<Rightarrow> int result) \<Rightarrow> ((string \<times> int) \<times> int) list \<Rightarrow> int" where
  "compute_consumer_lag assignment high committed =
     (case assignment of Inl e \<Rightarrow> 0 | Inr tps \<Rightarrow> sum_list (map (partition_lag committed high) tps))"

section \<open>A batch\<close>

text \<open>Messages with an offset not seen before.\<close>

fun dedup :: "offset_key list \<Rightarrow> kafka_message list \<Rightarrow> offset_key list \<times> kafka_message list" where
  "dedup seen [] = (seen, [])"
| "dedup seen (m # ms) =
     (if offset_key m \<in> set seen then dedup seen ms
      else let (seen', fresh) = dedup (seen @ [offset_key m]) ms in (seen', m # fresh))"

definition trim_processed :: "(offset_key list \<Rightarrow> offset_key list) \<Rightarrow> offset_key list \<Rightarrow> offset_key list" where
  "trim_processed listing seen =
     (if idempotent_cache_limit < int (length seen)
      then let gone = take (length seen div 2) (listing seen) in filter (\<lambda>k. k \<notin> set gone) seen
      else seen)"

definition record_of :: "('j, 'c, 'd, 't, 'g) stream_env \<Rightarrow> pyval \<Rightarrow> nat list \<Rightarrow> 'j result" where
  "record_of env fmt v = (if fmt = PStr ''json'' then en_loads env v else Inr (en_raw env (utf8_decode v)))"

text \<open>\<^verbatim>\<open>_deserialize\<close>: the records and the malformed messages, then the frame.\<close>

fun deserialize :: "('j, 'c, 'd, 't, 'g) stream_env \<Rightarrow> pyval \<Rightarrow> kafka_message list \<Rightarrow> 'j list \<times> kafka_message list" where
  "deserialize env fmt [] = ([], [])"
| "deserialize env fmt (m # ms) =
     (let (recs, bad) = deserialize env fmt ms in
      case km_value m of
        None \<Rightarrow> (recs, bad)
      | Some v \<Rightarrow> (case record_of env fmt v of Inl e \<Rightarrow> (recs, m # bad) | Inr r \<Rightarrow> (r # recs, bad)))"

definition dead_letter :: "string \<Rightarrow> nat list \<Rightarrow> kafka_message \<Rightarrow> effect" where
  "dead_letter tpc error m = Dead (dlq_name tpc) (km_value m) (km_key m) (utf8_encode (take 500 error)) tpc (km_offset m)"

text \<open>Sending stops with an exception at the first one that is refused.\<close>

definition sent_until :: "(nat \<Rightarrow> bool) \<Rightarrow> effect list \<Rightarrow> effect list \<times> unit result" where
  "sent_until accepts es =
     (case find (\<lambda>n. \<not> accepts n) [0..<length es] of
        None \<Rightarrow> (es, Inr ())
      | Some n \<Rightarrow> (take n es, Inl (OtherError ''BufferError'')))"

definition send_dlq :: "(nat \<Rightarrow> bool) \<Rightarrow> string \<Rightarrow> nat list \<Rightarrow> kafka_message list \<Rightarrow> effect list \<times> unit result" where
  "send_dlq accepts tpc error ms = sent_until accepts (map (dead_letter tpc error) ms)"

text \<open>The middle steps over the registry, with the name of the last output.\<close>

fun run_middle ::
    "('j, 'c, 'd, 't, 'g) stream_env \<Rightarrow> step_config list \<Rightarrow> (pyval \<times> 't) list \<Rightarrow> pyval \<Rightarrow> 'g \<Rightarrow> 'g \<times> 't result" where
  "run_middle env [] reg name rec = (rec, case dict_get reg name of None \<Rightarrow> Inl KeyError | Some t \<Rightarrow> Inr t)"
| "run_middle env (st # sts) reg name rec =
     (case smart_execute (en_engines env) (en_ms env) [] st reg rec of
        (rec', Inl e) \<Rightarrow> (rec', Inl e)
      | (rec', Inr res) \<Rightarrow>
          if \<not> hashable (step_name st) then (rec', Inl TypeError)
          else run_middle env sts (dict_set reg (step_name st) (output_table res)) (step_name st) rec')"

definition stream_input :: pyval where
  "stream_input = PStr ''_stream_input''"

definition run_batch :: "('j, 'c, 'd, 't, 'g) stream_env \<Rightarrow> step_config list \<Rightarrow> 'd \<Rightarrow> 'g \<Rightarrow> 'g \<times> 'd result" where
  "run_batch env sts df rec =
     (case en_table env df of
        Inl e \<Rightarrow> (rec, Inl e)
      | Inr t \<Rightarrow> (case run_middle env sts [(stream_input, t)] stream_input rec of
          (rec', r) \<Rightarrow> (rec', bindE r (\<lambda>out. Inr (en_pandas env out)))))"

definition record_key :: "('j, 'c, 'd, 't, 'g) stream_env \<Rightarrow> pyval \<Rightarrow> (pyval \<times> 'c) list \<Rightarrow> nat list option result" where
  "record_key env key_col r =
     (if \<not> truthy key_col then Inr None
      else if \<not> hashable key_col then Inl TypeError
      else Inr (map_option (\<lambda>v. utf8_encode (en_text env v)) (dict_get r key_col)))"

text \<open>\<^verbatim>\<open>_publish\<close>: what has been handed over when it ends, however it ends.\<close>

fun publish_rows ::
    "('j, 'c, 'd, 't, 'g) stream_env \<Rightarrow> (nat \<Rightarrow> bool) \<Rightarrow> nat \<Rightarrow> pyval \<times> pyval \<Rightarrow> (pyval \<times> 'c) list list \<Rightarrow> effect list \<times> unit result" where
  "publish_rows env accepts n p [] = ([], Inr ())"
| "publish_rows env accepts n p (r # rs) =
     (case bindE (record_key env (snd p) r) (\<lambda>key. bindE (en_dumps env r) (\<lambda>v. Inr (Published (fst p) key v))) of
        Inl e \<Rightarrow> ([], Inl e)
      | Inr out \<Rightarrow>
          if \<not> accepts n then ([], Inl (OtherError ''BufferError''))
          else let (outs, res) = publish_rows env accepts (Suc n) p rs in (out # outs, res))"

definition commit_batch :: "round_input \<Rightarrow> kafka_message list \<Rightarrow> ('q, 'g) daemon_state \<Rightarrow> ('q, 'g) daemon_state \<times> flow" where
  "commit_batch rd fresh st =
     (if \<not> rd_commit rd then (st, Raised (OtherError ''KafkaException''))
      else let m = last fresh in
        (st\<lparr>ds_committed := AList.update (km_topic m, km_partition m) (km_offset m + 1) (ds_committed st),
            ds_log := ds_log st @ [Committed (km_topic m) (km_partition m) (km_offset m + 1)]\<rparr>, Next))"

text \<open>Every fifth batch the statistics are stored and announced.\<close>

definition flush_stats :: "round_input \<Rightarrow> ('q, 'g) daemon_state \<Rightarrow> ('q, 'g) daemon_state \<times> flow" where
  "flush_stats rd st =
     (if ds_batches st mod stats_update_interval \<noteq> 0 then (st, Next)
      else if \<not> rd_saved rd then (st, Raised (OtherError ''OperationalError''))
      else (st\<lparr>ds_stats := map_option (\<lambda>_. \<lparr>sr_batches = ds_batches st, sr_messages = ds_messages st, sr_failed = ds_failed st, sr_dlq = ds_dlq st\<rparr>) (ds_stats st),
              ds_log := ds_log st @ [Progress (ds_batches st) (ds_messages st) (ds_dlq st)]\<rparr>, Next))"

definition finish_batch ::
    "('j, 'c, 'd, 't, 'g) stream_env \<Rightarrow> stream_setup \<Rightarrow> round_input \<Rightarrow> kafka_message list \<Rightarrow> 'd \<Rightarrow> ('q, 'g) daemon_state \<Rightarrow>
     ('q, 'g) daemon_state \<times> flow" where
  "finish_batch env sg rd fresh df st =
     (let outs = (case sg_publish sg of None \<Rightarrow> [] | Some p \<Rightarrow> if en_empty env df then [] else fst (publish_rows env (rd_published rd) 0 p (en_rows env df)));
          st1 = st\<lparr>ds_log := ds_log st @ outs, ds_batches := ds_batches st + 1, ds_messages := ds_messages st + length fresh, ds_errors := 0\<rparr>
      in case flush_stats rd st1 of
        (st2, Next) \<Rightarrow> commit_batch rd fresh st2
      | other \<Rightarrow> other)"

definition failed_batch ::
    "('j, 'c, 'd, 't, 'g) stream_env \<Rightarrow> stream_setup \<Rightarrow> round_input \<Rightarrow> kafka_message list \<Rightarrow> pyexn \<Rightarrow> ('q, 'g) daemon_state \<Rightarrow>
     ('q, 'g) daemon_state \<times> flow" where
  "failed_batch env sg rd fresh e st =
     (case send_dlq (rd_failed_accepted rd) (sg_topic sg) (en_error env e) fresh of
        (letters, Inl e') \<Rightarrow> (st\<lparr>ds_log := ds_log st @ letters\<rparr>, Raised e')
      | (letters, Inr _) \<Rightarrow>
          let st1 = st\<lparr>ds_log := ds_log st @ letters, ds_failed := ds_failed st + length fresh, ds_dlq := ds_dlq st + length fresh,
                       ds_errors := ds_errors st + 1\<rparr>
          in if max_consecutive_errors \<le> ds_errors st1 then (st1, Leave) else commit_batch rd fresh st1)"

definition deserialization_failed :: "nat list" where
  "deserialization_failed = map cp ''deserialization failed''"

definition process_batch ::
    "('j, 'c, 'd, 't, 'g) stream_env \<Rightarrow> stream_setup \<Rightarrow> round_input \<Rightarrow> kafka_message list \<Rightarrow> ('q, 'g) daemon_state \<Rightarrow>
     ('q, 'g) daemon_state \<times> flow" where
  "process_batch env sg rd fresh st =
     (case deserialize env (sg_format sg) fresh of
        (recs, bad) \<Rightarrow>
          (case en_frame env recs of
             Inl e \<Rightarrow> (st, Raised e)
           | Inr df \<Rightarrow>
               (case send_dlq (rd_malformed_accepted rd) (sg_topic sg) deserialization_failed bad of
                  (letters, Inl e) \<Rightarrow> (st\<lparr>ds_log := ds_log st @ letters\<rparr>, Raised e)
                | (letters, Inr _) \<Rightarrow>
                    let st1 = st\<lparr>ds_log := ds_log st @ letters, ds_dlq := ds_dlq st + length bad\<rparr> in
                    if en_empty env df then commit_batch rd fresh st1
                    else (case run_batch env (sg_middle sg) df (ds_recorder st1) of
                        (rec, Inl e) \<Rightarrow> failed_batch env sg rd fresh e (st1\<lparr>ds_recorder := rec\<rparr>)
                      | (rec, Inr out) \<Rightarrow> finish_batch env sg rd fresh out (st1\<lparr>ds_recorder := rec\<rparr>)))))"

section \<open>The loop\<close>

text \<open>The messages of a round that have not been seen, and the offsets kept.\<close>

definition fresh_messages :: "kafka_message list \<Rightarrow> offset_key list \<Rightarrow> kafka_message list" where
  "fresh_messages msgs seen = snd (dedup seen (filter (\<lambda>m. \<not> km_failed m) msgs))"

definition consume_batch ::
    "('j, 'c, 'd, 't, 'g) stream_env \<Rightarrow> stream_setup \<Rightarrow> round_input \<Rightarrow> kafka_message list \<Rightarrow> ('q, 'g) daemon_state \<Rightarrow>
     ('q, 'g) daemon_state \<times> flow" where
  "consume_batch env sg rd msgs st =
     (let (seen, fresh) = dedup (ds_processed st) (filter (\<lambda>m. \<not> km_failed m) msgs);
          st1 = st\<lparr>ds_processed := trim_processed (en_listing env) seen\<rparr> in
      if filter (\<lambda>m. \<not> km_failed m) msgs = [] then (st, Next)
      else if fresh = [] then (st1, Next)
      else process_batch env sg rd fresh st1)"

definition pause_due :: "('q, 'g) daemon_state \<Rightarrow> bool" where
  "pause_due st \<longleftrightarrow> ds_batches st mod 10 = 0 \<and> 0 < ds_batches st"

definition daemon_round ::
    "'q item_json \<Rightarrow> ('j, 'c, 'd, 't, 'g) stream_env \<Rightarrow> stream_setup \<Rightarrow> round_input \<Rightarrow> ('q, 'g) daemon_state \<Rightarrow>
     ('q, 'g) daemon_state \<times> flow" where
  "daemon_round js env sg rd st =
     (let row = fold controlled (rd_controls rd) (ds_row st); st1 = st\<lparr>ds_row := row\<rparr> in
      if is_aborted (rd_read rd) row then (st1, Leave)
      else case (if pause_due st1 then handle_pause rd row else (row, Next)) of
        (row', Next) \<Rightarrow>
          let st2 = st1\<lparr>ds_row := row'\<rparr> in
          if backpressure_lag_threshold < compute_consumer_lag (rd_assignment rd) (rd_high rd) (ds_committed st2) then (st2, Next)
          else
            let st3 = st2\<lparr>ds_client := fst (try_drain_fallback js (rd_drain rd) (ds_client st2))\<rparr> in
            (case rd_consumed rd of
               Inl e \<Rightarrow> (st3, Raised e)
             | Inr msgs \<Rightarrow> consume_batch env sg rd msgs st3)
      | (row', f) \<Rightarrow> (st1\<lparr>ds_row := row'\<rparr>, f))"

text \<open>The loop over the rounds that are given; at their end it would go on.\<close>

fun daemon_loop ::
    "'q item_json \<Rightarrow> ('j, 'c, 'd, 't, 'g) stream_env \<Rightarrow> stream_setup \<Rightarrow> round_input list \<Rightarrow> ('q, 'g) daemon_state \<Rightarrow>
     ('q, 'g) daemon_state \<times> flow" where
  "daemon_loop js env sg [] st = (st, Next)"
| "daemon_loop js env sg (rd # rds) st =
     (case daemon_round js env sg rd st of (st', Next) \<Rightarrow> daemon_loop js env sg rds st' | other \<Rightarrow> other)"

section \<open>The task\<close>

text \<open>Starting: what parsing yields, the broker, and whether the session still takes an update after an exception.\<close>

record start_input =
  si_run_id :: string
  si_parsed :: "pipeline_config result"
  si_broker :: broker
  si_rollback :: bool

datatype daemon_end = Finished | Answered string | Crashed pyexn | Running

definition mark_status :: "run_status \<Rightarrow> ('q, 'g) daemon_state \<Rightarrow> ('q, 'g) daemon_state" where
  "mark_status s st = st\<lparr>ds_row := map_option (\<lambda>_. s) (ds_row st)\<rparr>"

definition crash :: "bool \<Rightarrow> pyexn \<Rightarrow> ('q, 'g) daemon_state \<Rightarrow> ('q, 'g) daemon_state \<times> daemon_end" where
  "crash usable e st = (if usable then mark_status FAILED st else st, Crashed e)"

definition fresh_counters :: "'g \<Rightarrow> ('q, 'g) daemon_state \<Rightarrow> ('q, 'g) daemon_state" where
  "fresh_counters rec st = st\<lparr>ds_batches := 0, ds_messages := 0, ds_failed := 0, ds_dlq := 0, ds_errors := 0, ds_processed := [], ds_recorder := rec\<rparr>"

text \<open>\<^verbatim>\<open>_init_stats\<close> and the commit: the run is the primary key of the statistics.\<close>

definition init_stats :: "('q, 'g) daemon_state \<Rightarrow> ('q, 'g) daemon_state result" where
  "init_stats st =
     (if ds_stats st \<noteq> None then Inl (OtherError ''IntegrityError'')
      else Inr (st\<lparr>ds_stats := Some \<lparr>sr_batches = 0, sr_messages = 0, sr_failed = 0, sr_dlq = 0\<rparr>\<rparr>))"

text \<open>Whether the update to \<^verbatim>\<open>FAILED\<close> goes through: after an exception of the database the session may refuse it.\<close>

definition session_usable :: "start_input \<Rightarrow> pyexn \<Rightarrow> bool" where
  "session_usable si e \<longleftrightarrow> si_rollback si \<or> e \<notin> {OtherError ''OperationalError'', OtherError ''IntegrityError''}"

text \<open>Up to the loop: the task has ended, or the loop starts with a setup and a state.\<close>

definition start_streaming ::
    "'g \<Rightarrow> start_input \<Rightarrow> ('q, 'g) daemon_state \<Rightarrow> ('q, 'g) daemon_state \<times> daemon_end + stream_setup \<times> ('q, 'g) daemon_state" where
  "start_streaming rec si st =
     (if ds_row st = None then Inl (st, Answered ''Run not found'')
      else case si_parsed si of
        Inl e \<Rightarrow> Inl (crash True e st)
      | Inr cfg \<Rightarrow>
          (case setup_of (si_run_id si) (steps cfg) of
             None \<Rightarrow> Inl (mark_status FAILED st, Answered ''No stream_consume step found'')
           | Some (Inl e) \<Rightarrow> Inl (crash True e st)
           | Some (Inr sg) \<Rightarrow>
               (case snd (ensure_topic (sg_topic sg) (si_broker si)) of
                  Inl e \<Rightarrow> Inl (crash True e st)
                | Inr _ \<Rightarrow>
                    (case init_stats (mark_status STREAMING_ACTIVE st) of
                       Inl e \<Rightarrow> Inl (crash (session_usable si e) e (mark_status STREAMING_ACTIVE st))
                     | Inr st1 \<Rightarrow> Inr (sg, fresh_counters rec st1)))))"

definition run_streaming_pipeline ::
    "'q item_json \<Rightarrow> ('j, 'c, 'd, 't, 'g) stream_env \<Rightarrow> 'g \<Rightarrow> start_input \<Rightarrow> round_input list \<Rightarrow> ('q, 'g) daemon_state \<Rightarrow>
     ('q, 'g) daemon_state \<times> daemon_end" where
  "run_streaming_pipeline js env rec si rds st =
     (case start_streaming rec si st of
        Inl ended \<Rightarrow> ended
      | Inr (sg, st1) \<Rightarrow>
          (case daemon_loop js env sg rds st1 of
             (st2, Raised e) \<Rightarrow> crash (session_usable si e) e st2
           | (st2, Leave) \<Rightarrow> (mark_status STREAMING_STOPPED st2, Finished)
           | (st2, _) \<Rightarrow> (st2, Running)))"

section \<open>What a run of the loop comes to\<close>

datatype 'd verdict = Empty | Failed pyexn | Passed 'd

text \<open>What becomes of the messages of a batch, and the recorder after it.\<close>

definition verdict :: "('j, 'c, 'd, 't, 'g) stream_env \<Rightarrow> stream_setup \<Rightarrow> 'g \<Rightarrow> kafka_message list \<Rightarrow> 'g \<times> 'd verdict" where
  "verdict env sg rec fresh =
     (case en_frame env (fst (deserialize env (sg_format sg) fresh)) of
        Inl e \<Rightarrow> (rec, Failed e)
      | Inr df \<Rightarrow> if en_empty env df then (rec, Empty)
                  else (case run_batch env (sg_middle sg) df rec of (rec', Inl e) \<Rightarrow> (rec', Failed e) | (rec', Inr out) \<Rightarrow> (rec', Passed out)))"

definition malformed_letters :: "('j, 'c, 'd, 't, 'g) stream_env \<Rightarrow> stream_setup \<Rightarrow> kafka_message list \<Rightarrow> effect list" where
  "malformed_letters env sg fresh = map (dead_letter (sg_topic sg) deserialization_failed) (snd (deserialize env (sg_format sg) fresh))"

definition records_out :: "('j, 'c, 'd, 't, 'g) stream_env \<Rightarrow> stream_setup \<Rightarrow> round_input \<Rightarrow> 'd \<Rightarrow> effect list" where
  "records_out env sg rd out =
     (case sg_publish sg of None \<Rightarrow> []
      | Some p \<Rightarrow> if en_empty env out then [] else fst (publish_rows env (rd_published rd) 0 p (en_rows env out)))"

definition handled :: "('j, 'c, 'd, 't, 'g) stream_env \<Rightarrow> stream_setup \<Rightarrow> round_input \<Rightarrow> kafka_message list \<Rightarrow> 'd verdict \<Rightarrow> effect list" where
  "handled env sg rd fresh v =
     malformed_letters env sg fresh @
     (case v of Empty \<Rightarrow> [] | Failed e \<Rightarrow> map (dead_letter (sg_topic sg) (en_error env e)) fresh | Passed out \<Rightarrow> records_out env sg rd out)"

definition commit_of :: "kafka_message list \<Rightarrow> effect" where
  "commit_of fresh = Committed (km_topic (last fresh)) (km_partition (last fresh)) (km_offset (last fresh) + 1)"

definition is_progress :: "effect \<Rightarrow> bool" where
  "is_progress e = (case e of Progress _ _ _ \<Rightarrow> True | _ \<Rightarrow> False)"

definition is_letter :: "effect \<Rightarrow> bool" where
  "is_letter e = (case e of Dead _ _ _ _ _ _ \<Rightarrow> True | _ \<Rightarrow> False)"

abbreviation sent_by :: "('q, 'g) daemon_state \<Rightarrow> effect list" where
  "sent_by st \<equiv> filter (\<lambda>e. \<not> is_progress e) (ds_log st)"

text \<open>A round goes on to consume.\<close>

definition consumes :: "round_input \<Rightarrow> ('q, 'g) daemon_state \<Rightarrow> bool" where
  "consumes rd st \<longleftrightarrow>
     (let row = fold controlled (rd_controls rd) (ds_row st) in
      \<not> is_aborted (rd_read rd) row \<and> (pause_due st \<longrightarrow> snd (handle_pause rd row) = Next) \<and>
      compute_consumer_lag (rd_assignment rd) (rd_high rd) (ds_committed st) \<le> backpressure_lag_threshold)"

definition batch_here ::
    "('j, 'c, 'd, 't, 'g) stream_env \<Rightarrow> stream_setup \<Rightarrow> round_input \<Rightarrow> ('q, 'g) daemon_state \<Rightarrow> (round_input \<times> kafka_message list \<times> 'd verdict) list" where
  "batch_here env sg rd st =
     (if \<not> consumes rd st then []
      else case rd_consumed rd of Inl e \<Rightarrow> []
        | Inr msgs \<Rightarrow> let fresh = fresh_messages msgs (ds_processed st) in
            if fresh = [] then [] else [(rd, fresh, snd (verdict env sg (ds_recorder st) fresh))])"

text \<open>The batches of a run, one after the other.\<close>

fun batches_of ::
    "'q item_json \<Rightarrow> ('j, 'c, 'd, 't, 'g) stream_env \<Rightarrow> stream_setup \<Rightarrow> round_input list \<Rightarrow> ('q, 'g) daemon_state \<Rightarrow>
     (round_input \<times> kafka_message list \<times> 'd verdict) list" where
  "batches_of js env sg [] st = []"
| "batches_of js env sg (rd # rds) st =
     batch_here env sg rd st @ (case daemon_round js env sg rd st of (st', Next) \<Rightarrow> batches_of js env sg rds st' | _ \<Rightarrow> [])"

definition effects_of :: "('j, 'c, 'd, 't, 'g) stream_env \<Rightarrow> stream_setup \<Rightarrow> round_input \<times> kafka_message list \<times> 'd verdict \<Rightarrow> effect list" where
  "effects_of env sg b = (case b of (rd, fresh, v) \<Rightarrow> handled env sg rd fresh v @ [commit_of fresh])"

definition passed_messages :: "round_input \<times> kafka_message list \<times> 'd verdict \<Rightarrow> nat" where
  "passed_messages b = (case b of (rd, fresh, Passed out) \<Rightarrow> length fresh | _ \<Rightarrow> 0)"

definition failed_messages :: "round_input \<times> kafka_message list \<times> 'd verdict \<Rightarrow> nat" where
  "failed_messages b = (case b of (rd, fresh, Failed e) \<Rightarrow> length fresh | _ \<Rightarrow> 0)"

definition passed :: "round_input \<times> kafka_message list \<times> 'd verdict \<Rightarrow> bool" where
  "passed b = (case b of (rd, fresh, Passed out) \<Rightarrow> True | _ \<Rightarrow> False)"

definition letters_of :: "('j, 'c, 'd, 't, 'g) stream_env \<Rightarrow> stream_setup \<Rightarrow> round_input \<times> kafka_message list \<times> 'd verdict \<Rightarrow> nat" where
  "letters_of env sg b = length (filter is_letter (effects_of env sg b))"

lemma letters_simps [simp]:
  "\<not> is_progress (dead_letter t e m)" "is_letter (dead_letter t e m)" "\<not> is_progress (commit_of ms)" "\<not> is_letter (commit_of ms)"
  "filter (\<lambda>e. \<not> is_progress e) (map (dead_letter t e') ms) = map (dead_letter t e') ms"
  "filter is_letter (map (dead_letter t e') ms) = map (dead_letter t e') ms"
  by (auto simp: dead_letter_def is_progress_def is_letter_def commit_of_def filter_id_conv)

lemma malformed_letters_simps [simp]:
  "filter (\<lambda>e. \<not> is_progress e) (malformed_letters env sg fresh) = malformed_letters env sg fresh"
  "filter is_letter (malformed_letters env sg fresh) = malformed_letters env sg fresh"
  by (simp_all add: malformed_letters_def)

lemma publish_rows_only: "x \<in> set (fst (publish_rows env accepts n p rs)) \<Longrightarrow> \<not> is_progress x \<and> \<not> is_letter x"
  by (induction env accepts n p rs rule: publish_rows.induct)
    (auto simp: bindE_eq_Inr_iff is_progress_def is_letter_def split: sum.splits if_splits prod.splits)

lemma records_out_only:
  "filter (\<lambda>e. \<not> is_progress e) (records_out env sg rd out) = records_out env sg rd out"
  "filter is_letter (records_out env sg rd out) = []"
  by (auto simp: records_out_def filter_id_conv filter_empty_conv dest: publish_rows_only split: option.splits)

lemma send_dlq_Inr: "send_dlq accepts t e ms = (letters, Inr ()) \<Longrightarrow> letters = map (dead_letter t e) ms"
  by (auto simp: send_dlq_def sent_until_def split: option.splits)

text \<open>One batch, however it ends unless an exception does.\<close>

definition batch_done ::
    "('j, 'c, 'd, 't, 'g) stream_env \<Rightarrow> stream_setup \<Rightarrow> round_input \<Rightarrow> kafka_message list \<Rightarrow> ('q, 'g) daemon_state \<Rightarrow> ('q, 'g) daemon_state \<Rightarrow> flow \<Rightarrow> bool" where
  "batch_done env sg rd fresh st st' f \<longleftrightarrow>
     (let v = snd (verdict env sg (ds_recorder st) fresh); b = (rd, fresh, v) in
      (f = Next \<or> f = Leave) \<and> ds_processed st' = ds_processed st \<and>
      sent_by st' = sent_by st @ handled env sg rd fresh v @ (if f = Leave then [] else [commit_of fresh]) \<and>
      ds_batches st' = ds_batches st + (if passed b then 1 else 0) \<and>
      ds_messages st' = ds_messages st + passed_messages b \<and> ds_failed st' = ds_failed st + failed_messages b \<and>
      ds_dlq st' = ds_dlq st + letters_of env sg b \<and>
      (f = Leave \<longrightarrow> (\<exists>e. v = Failed e) \<and> max_consecutive_errors \<le> ds_errors st') \<and>
      ds_errors st' = (case v of Empty \<Rightarrow> ds_errors st | Failed e \<Rightarrow> Suc (ds_errors st) | Passed out \<Rightarrow> 0) \<and>
      (f = Next \<longrightarrow> ds_errors st < max_consecutive_errors \<longrightarrow> ds_errors st' < max_consecutive_errors))"

lemma commit_batch_cases:
  assumes "commit_batch rd fresh st = (st', f)" and "\<And>e. f \<noteq> Raised e"
  shows "f = Next \<and> ds_log st' = ds_log st @ [commit_of fresh] \<and> ds_processed st' = ds_processed st \<and> ds_batches st' = ds_batches st \<and>
    ds_messages st' = ds_messages st \<and> ds_failed st' = ds_failed st \<and> ds_dlq st' = ds_dlq st \<and> ds_errors st' = ds_errors st"
  using assms by (auto simp: commit_batch_def commit_of_def Let_def split: if_splits)

lemma process_batch_done:
  assumes "process_batch env sg rd fresh st = (st', f)" and "\<And>e. f \<noteq> Raised e"
  shows "batch_done env sg rd fresh st st' f"
proof -
  from assms obtain df letters where df: "en_frame env (fst (deserialize env (sg_format sg) fresh)) = Inr df"
    and letters: "send_dlq (rd_malformed_accepted rd) (sg_topic sg) deserialization_failed (snd (deserialize env (sg_format sg) fresh)) = (letters, Inr ())"
    by (auto simp: process_batch_def split: prod.splits sum.splits)
  from send_dlq_Inr [OF letters] have l: "letters = malformed_letters env sg fresh" by (simp add: malformed_letters_def)
  have bad: "length (snd (deserialize env (sg_format sg) fresh)) = length (malformed_letters env sg fresh)" by (simp add: malformed_letters_def)
  define st1 where "st1 = st\<lparr>ds_log := ds_log st @ letters, ds_dlq := ds_dlq st + length (malformed_letters env sg fresh)\<rparr>"
  have run: "process_batch env sg rd fresh st =
      (if en_empty env df then commit_batch rd fresh st1
       else case run_batch env (sg_middle sg) df (ds_recorder st) of
          (rec, Inl e) \<Rightarrow> failed_batch env sg rd fresh e (st1\<lparr>ds_recorder := rec\<rparr>)
        | (rec, Inr out) \<Rightarrow> finish_batch env sg rd fresh out (st1\<lparr>ds_recorder := rec\<rparr>))"
  proof (cases "deserialize env (sg_format sg) fresh")
    case (Pair recs malformed)
    with df letters bad show ?thesis
      by (simp add: process_batch_def st1_def Let_def split: prod.split sum.split)
  qed
  note defs = batch_done_def verdict_def handled_def effects_of_def passed_def passed_messages_def failed_messages_def letters_of_def
  consider "en_empty env df" | rec e where "\<not> en_empty env df" "run_batch env (sg_middle sg) df (ds_recorder st) = (rec, Inl e)"
    | rec out where "\<not> en_empty env df" "run_batch env (sg_middle sg) df (ds_recorder st) = (rec, Inr out)"
    by (metis old.prod.exhaust sum.exhaust)
  then show ?thesis
  proof cases
    case 1
    with run assms have "commit_batch rd fresh st1 = (st', f)" by simp
    from commit_batch_cases [OF this assms(2)] show ?thesis
      using 1 by (simp add: defs df st1_def l)
  next
    case 2
    with run assms(1) have fail: "failed_batch env sg rd fresh e (st1\<lparr>ds_recorder := rec\<rparr>) = (st', f)" by simp
    then obtain more_letters where
      ml: "send_dlq (rd_failed_accepted rd) (sg_topic sg) (en_error env e) fresh = (more_letters, Inr ())"
      using assms(2) by (auto simp: failed_batch_def split: prod.splits sum.splits)
    define st2 where "st2 = st1\<lparr>ds_recorder := rec, ds_log := ds_log st1 @ map (dead_letter (sg_topic sg) (en_error env e)) fresh,
      ds_failed := ds_failed st + length fresh, ds_dlq := ds_dlq st1 + length fresh, ds_errors := Suc (ds_errors st)\<rparr>"
    have "failed_batch env sg rd fresh e (st1\<lparr>ds_recorder := rec\<rparr>) =
        (if max_consecutive_errors \<le> ds_errors st2 then (st2, Leave) else commit_batch rd fresh st2)"
      using send_dlq_Inr [OF ml] ml by (simp add: failed_batch_def Let_def st1_def st2_def)
    with fail have fail': "(if max_consecutive_errors \<le> ds_errors st2 then (st2, Leave) else commit_batch rd fresh st2) = (st', f)" by simp
    show ?thesis
    proof (cases "max_consecutive_errors \<le> ds_errors st2")
      case True
      with fail' have "st' = st2" "f = Leave" by simp_all
      then show ?thesis using 2 True by (simp add: defs df st2_def st1_def l)
    next
      case False
      with fail' have "commit_batch rd fresh st2 = (st', f)" by simp
      from commit_batch_cases [OF this assms(2)] False show ?thesis using 2 by (simp add: defs df st2_def st1_def l)
    qed
  next
    case 3
    with run assms(1) have finish: "finish_batch env sg rd fresh out (st1\<lparr>ds_recorder := rec\<rparr>) = (st', f)" by simp
    define st2 where "st2 = st1\<lparr>ds_recorder := rec, ds_log := ds_log st1 @ records_out env sg rd out, ds_batches := ds_batches st + 1,
      ds_messages := ds_messages st + length fresh, ds_errors := 0\<rparr>"
    have "finish_batch env sg rd fresh out (st1\<lparr>ds_recorder := rec\<rparr>) =
        (case flush_stats rd st2 of (st3, Next) \<Rightarrow> commit_batch rd fresh st3 | other \<Rightarrow> other)"
      by (simp add: finish_batch_def records_out_def st2_def st1_def Let_def)
    with finish assms(2) obtain st3 where st3: "flush_stats rd st2 = (st3, Next)" "commit_batch rd fresh st3 = (st', f)"
      by (auto simp: flush_stats_def split: prod.splits flow.splits if_splits)
    then have same: "sent_by st3 = sent_by st2" "ds_processed st3 = ds_processed st2" "ds_batches st3 = ds_batches st2" "ds_messages st3 = ds_messages st2"
      "ds_failed st3 = ds_failed st2" "ds_dlq st3 = ds_dlq st2" "ds_errors st3 = ds_errors st2"
      by (auto simp: flush_stats_def is_progress_def split: if_splits)
    from commit_batch_cases [OF st3(2) assms(2)] show ?thesis
      using 3 same by (simp add: defs df st2_def st1_def l records_out_only max_consecutive_errors_def)
  qed
qed

lemma dedup_seen: "fst (dedup seen ms) = seen @ map offset_key (snd (dedup seen ms))"
  by (induction seen ms rule: dedup.induct) (auto simp: split_def Let_def)

lemma dedup_distinct: "distinct seen \<Longrightarrow> distinct (seen @ map offset_key (snd (dedup seen ms)))"
proof (induction seen ms rule: dedup.induct)
  case (2 seen m ms)
  then show ?case
    by (cases "offset_key m \<in> set seen") (auto simp: split_def Let_def)
qed simp

lemma dedup_subset: "set (snd (dedup seen ms)) \<subseteq> set ms"
  by (induction seen ms rule: dedup.induct) (auto simp: split_def Let_def)

definition quiet :: "('q, 'g) daemon_state \<Rightarrow> ('q, 'g) daemon_state \<Rightarrow> bool" where
  "quiet st st' \<longleftrightarrow> ds_batches st' = ds_batches st \<and> ds_messages st' = ds_messages st \<and> ds_failed st' = ds_failed st \<and> ds_dlq st' = ds_dlq st \<and>
     ds_errors st' = ds_errors st \<and> ds_log st' = ds_log st \<and> ds_recorder st' = ds_recorder st \<and> ds_committed st' = ds_committed st"

text \<open>A round without a batch changes no counter and sends nothing, one with a batch does what \<open>batch_done\<close> says.\<close>

lemma consume_batch_cases:
  assumes "consume_batch env sg rd msgs st = (st', f)" and "\<And>e. f \<noteq> Raised e"
  defines "fresh \<equiv> fresh_messages msgs (ds_processed st)"
  shows "fresh = [] \<and> f = Next \<and> quiet st st' \<and> (ds_processed st' = ds_processed st \<or> ds_processed st' = trim_processed (en_listing env) (ds_processed st)) \<or>
    fresh \<noteq> [] \<and> batch_done env sg rd fresh
      (st\<lparr>ds_processed := trim_processed (en_listing env) (ds_processed st @ map offset_key fresh)\<rparr>) st' f"
proof -
  obtain seen new where d: "dedup (ds_processed st) (filter (\<lambda>m. \<not> km_failed m) msgs) = (seen, new)" by fastforce
  then have new: "fresh = new" "seen = ds_processed st @ map offset_key new"
    using dedup_seen [of "ds_processed st" "filter (\<lambda>m. \<not> km_failed m) msgs"] by (simp_all add: fresh_def fresh_messages_def)
  show ?thesis
  proof (cases "fresh = []")
    case True
    then show ?thesis using assms(1) d new by (auto simp: consume_batch_def Let_def quiet_def split: if_splits)
  next
    case False
    then have "filter (\<lambda>m. \<not> km_failed m) msgs \<noteq> []" using d new by auto
    with False d new assms(1) have "process_batch env sg rd fresh
        (st\<lparr>ds_processed := trim_processed (en_listing env) (ds_processed st @ map offset_key fresh)\<rparr>) = (st', f)"
      by (simp add: consume_batch_def Let_def)
    from process_batch_done [OF this assms(2)] False show ?thesis by simp
  qed
qed

lemma daemon_round_cases:
  assumes "daemon_round js env sg rd st = (st', f)" and "\<And>e. f \<noteq> Raised e"
  obtains (idle) "batch_here env sg rd st = []" "quiet st st'"
      "ds_processed st' = ds_processed st \<or> ds_processed st' = trim_processed (en_listing env) (ds_processed st)"
  | (batch) msgs fresh st1 where "rd_consumed rd = Inr msgs" "fresh = fresh_messages msgs (ds_processed st)" "fresh \<noteq> []"
      "batch_here env sg rd st = [(rd, fresh, snd (verdict env sg (ds_recorder st) fresh))]" "quiet st st1"
      "ds_processed st1 = trim_processed (en_listing env) (ds_processed st @ map offset_key fresh)" "batch_done env sg rd fresh st1 st' f"
proof (cases "consumes rd st")
  case False
  then have "batch_here env sg rd st = []" by (simp add: batch_here_def)
  moreover have "quiet st st' \<and> ds_processed st' = ds_processed st"
    using assms False by (auto simp: daemon_round_def consumes_def pause_due_def quiet_def Let_def split: if_splits prod.splits flow.splits)
  ultimately show ?thesis using idle by blast
next
  case True
  obtain row' where row': "(if pause_due st then handle_pause rd (fold controlled (rd_controls rd) (ds_row st)) else (fold controlled (rd_controls rd) (ds_row st), Next)) = (row', Next)"
    using True by (cases "pause_due st"; cases "handle_pause rd (fold controlled (rd_controls rd) (ds_row st))") (auto simp: consumes_def Let_def)
  define st3 where "st3 = st\<lparr>ds_row := row', ds_client := fst (try_drain_fallback js (rd_drain rd) (ds_client st))\<rparr>"
  have due: "pause_due (st\<lparr>ds_row := r\<rparr>) = pause_due st" for r by (simp add: pause_due_def)
  have "daemon_round js env sg rd st = (case rd_consumed rd of Inl e \<Rightarrow> (st3, Raised e) | Inr msgs \<Rightarrow> consume_batch env sg rd msgs st3)"
    using True row' by (simp add: daemon_round_def consumes_def Let_def due st3_def split: sum.split)
  with assms obtain msgs where msgs: "rd_consumed rd = Inr msgs" "consume_batch env sg rd msgs st3 = (st', f)"
    by (cases "rd_consumed rd") auto
  have q: "quiet st st3" "ds_processed st3 = ds_processed st" by (simp_all add: quiet_def st3_def)
  from consume_batch_cases [OF msgs(2) assms(2)] show ?thesis
  proof
    assume "fresh_messages msgs (ds_processed st3) = [] \<and> f = Next \<and> quiet st3 st' \<and>
      (ds_processed st' = ds_processed st3 \<or> ds_processed st' = trim_processed (en_listing env) (ds_processed st3))"
    then show ?thesis using idle q msgs(1) True by (auto simp: batch_here_def quiet_def Let_def)
  next
    assume b: "fresh_messages msgs (ds_processed st3) \<noteq> [] \<and> batch_done env sg rd (fresh_messages msgs (ds_processed st3))
      (st3\<lparr>ds_processed := trim_processed (en_listing env) (ds_processed st3 @ map offset_key (fresh_messages msgs (ds_processed st3)))\<rparr>) st' f"
    show ?thesis
    proof (rule batch)
      show "quiet st (st3\<lparr>ds_processed := trim_processed (en_listing env) (ds_processed st3 @ map offset_key (fresh_messages msgs (ds_processed st3)))\<rparr>)"
        using q by (simp add: quiet_def)
      show "batch_done env sg rd (fresh_messages msgs (ds_processed st3))
        (st3\<lparr>ds_processed := trim_processed (en_listing env) (ds_processed st3 @ map offset_key (fresh_messages msgs (ds_processed st3)))\<rparr>) st' f"
        using b by blast
    qed (use b q msgs(1) True in \<open>simp_all add: batch_here_def Let_def\<close>)
  qed
qed

definition row_of_failures :: "(round_input \<times> kafka_message list \<times> 'd verdict) list \<Rightarrow> nat \<Rightarrow> nat" where
  "row_of_failures = fold (\<lambda>(rd, fresh, v) n. case v of Empty \<Rightarrow> n | Failed e \<Rightarrow> Suc n | Passed out \<Rightarrow> 0)"

text \<open>The counters and what has been sent, from one state of the loop to another.\<close>

definition accounts ::
    "('j, 'c, 'd, 't, 'g) stream_env \<Rightarrow> stream_setup \<Rightarrow> (round_input \<times> kafka_message list \<times> 'd verdict) list \<Rightarrow>
     ('q, 'g) daemon_state \<Rightarrow> ('q, 'g) daemon_state \<Rightarrow> flow \<Rightarrow> bool" where
  "accounts env sg bs st st' f \<longleftrightarrow>
     ds_batches st' = ds_batches st + length (filter passed bs) \<and> ds_messages st' = ds_messages st + sum_list (map passed_messages bs) \<and>
     ds_failed st' = ds_failed st + sum_list (map failed_messages bs) \<and> ds_dlq st' = ds_dlq st + sum_list (map (letters_of env sg) bs) \<and>
     ds_errors st' = row_of_failures bs (ds_errors st) \<and>
     (sent_by st' = sent_by st @ concat (map (effects_of env sg) bs) \<and> ds_errors st' < max_consecutive_errors \<or>
      f = Leave \<and> ds_errors st' = max_consecutive_errors \<and>
      sent_by st' @ [commit_of (fst (snd (last bs)))] = sent_by st @ concat (map (effects_of env sg) bs))"

lemma accounts_trans:
  assumes "accounts env sg bs st st1 Next" and "accounts env sg bs' st1 st2 f"
  shows "accounts env sg (bs @ bs') st st2 f"
  using assms by (cases "bs' = []") (auto simp: accounts_def row_of_failures_def)

lemma round_accounts:
  assumes "daemon_round js env sg rd st = (st', f)" and "\<And>e. f \<noteq> Raised e" and "ds_errors st < max_consecutive_errors"
  shows "accounts env sg (batch_here env sg rd st) st st' f"
  using assms(1,2)
proof (cases rule: daemon_round_cases)
  case idle
  with assms(3) show ?thesis by (simp add: accounts_def quiet_def row_of_failures_def)
next
  case (batch msgs fresh st1)
  then have q: "ds_errors st1 = ds_errors st" "sent_by st1 = sent_by st" "ds_recorder st1 = ds_recorder st" by (simp_all add: quiet_def)
  have "f = Leave \<or> f = Next" using batch(7) by (auto simp: batch_done_def Let_def)
  then show ?thesis
  proof
    assume "f = Leave"
    with batch(7) obtain e where "snd (verdict env sg (ds_recorder st1) fresh) = Failed e" "max_consecutive_errors \<le> ds_errors st'"
      by (auto simp: batch_done_def Let_def)
    then show ?thesis using batch(4,5,7) assms(3) q \<open>f = Leave\<close>
      by (simp add: accounts_def batch_done_def quiet_def row_of_failures_def effects_of_def Let_def cong: verdict.case_cong)
  next
    assume "f = Next"
    then show ?thesis using batch(4,5,7) assms(3) q
      by (simp add: accounts_def batch_done_def quiet_def row_of_failures_def effects_of_def Let_def cong: verdict.case_cong)
  qed
qed

lemma loop_accounts:
  assumes "daemon_loop js env sg rds st = (st', f)" and "\<And>e. f \<noteq> Raised e" and "ds_errors st < max_consecutive_errors"
  shows "accounts env sg (batches_of js env sg rds st) st st' f"
  using assms(1,3)
proof (induction rds arbitrary: st)
  case Nil
  then show ?case by (auto simp: accounts_def row_of_failures_def)
next
  case (Cons rd rds)
  obtain st1 g where r: "daemon_round js env sg rd st = (st1, g)" by fastforce
  show ?case
  proof (cases g)
    case Next
    from round_accounts [OF r] Next Cons.prems(2) have one: "accounts env sg (batch_here env sg rd st) st st1 Next" by simp
    then have "ds_errors st1 < max_consecutive_errors" by (auto simp: accounts_def)
    with Cons.IH Cons.prems(1) r Next accounts_trans [OF one] show ?thesis by simp
  qed (use Cons.prems r assms(2) round_accounts [OF r] in auto)
qed

text \<open>C9.  The books of the daemon are true.  Over any rounds that do not end in an exception, the counters of batches, messages, failed messages
  and dead letters are those of the batches it consumed, and what it has sent is, batch by batch and in
  order, a letter for each malformed message, then a letter for each message of a batch whose steps fail or the records of one
  whose steps pass, and last the commit.  Only the batch that completes a row of fifty failures is left without its commit,
  and with it the loop is left; in no other way are there ever fifty in a row.\<close>

theorem daemon_accounts:
  assumes "daemon_loop js env sg rds (fresh_counters rec st) = (st', f)" and "ds_log st = []" and "\<forall>e. f \<noteq> Raised e"
  defines "bs \<equiv> batches_of js env sg rds (fresh_counters rec st)"
  shows "ds_batches st' = length (filter passed bs) \<and> ds_messages st' = sum_list (map passed_messages bs) \<and>
    ds_failed st' = sum_list (map failed_messages bs) \<and> ds_dlq st' = sum_list (map (letters_of env sg) bs) \<and>
    (row_of_failures bs 0 < 50 \<and> sent_by st' = concat (map (effects_of env sg) bs) \<or>
     f = Leave \<and> row_of_failures bs 0 = 50 \<and> sent_by st' @ [commit_of (fst (snd (last bs)))] = concat (map (effects_of env sg) bs))"
proof -
  have "ds_errors (fresh_counters rec st) < max_consecutive_errors" by (simp add: fresh_counters_def max_consecutive_errors_def)
  from loop_accounts [OF assms(1) _ this] assms(3) have acc: "accounts env sg bs (fresh_counters rec st) st' f" by (simp add: bs_def)
  have zero: "ds_batches (fresh_counters rec st) = 0" "ds_messages (fresh_counters rec st) = 0" "ds_failed (fresh_counters rec st) = 0"
    "ds_dlq (fresh_counters rec st) = 0" "ds_errors (fresh_counters rec st) = 0" "sent_by (fresh_counters rec st) = []"
    using assms(2) by (simp_all add: fresh_counters_def)
  show ?thesis using acc by (auto simp: accounts_def zero max_consecutive_errors_def)
qed

section \<open>No message twice\<close>

text \<open>The offsets of all messages in all batches.\<close>

definition batch_keys :: "(round_input \<times> kafka_message list \<times> 'd verdict) list \<Rightarrow> offset_key list" where
  "batch_keys bs = map offset_key (concat (map (fst \<circ> snd) bs))"

lemma batch_keys_simps [simp]:
  "batch_keys [] = []" "batch_keys ((rd, fresh, v) # bs) = map offset_key fresh @ batch_keys bs" "batch_keys (bs @ bs') = batch_keys bs @ batch_keys bs'"
  by (simp_all add: batch_keys_def)

lemma round_distinct:
  assumes "distinct (ds_processed st)"
  shows "distinct (ds_processed st @ batch_keys (batch_here env sg rd st))"
proof (cases "batch_here env sg rd st")
  case (Cons b bs)
  then obtain msgs v where "batch_here env sg rd st = [(rd, snd (dedup (ds_processed st) (filter (\<lambda>m. \<not> km_failed m) msgs)), v)]"
    by (auto simp: batch_here_def fresh_messages_def Let_def split: if_splits sum.splits)
  then show ?thesis using dedup_distinct [OF assms] by simp
qed (use assms in simp)

lemma loop_distinct:
  assumes "distinct (ds_processed st)"
    and "int (length (ds_processed st) + length (batch_keys (batches_of js env sg rds st))) \<le> idempotent_cache_limit"
  shows "distinct (ds_processed st @ batch_keys (batches_of js env sg rds st))"
  using assms
proof (induction rds arbitrary: st)
  case Nil
  then show ?case by simp
next
  case (Cons rd rds)
  obtain st1 g where r: "daemon_round js env sg rd st = (st1, g)" by fastforce
  show ?case
  proof (cases "g = Next")
    case False
    then have "batches_of js env sg (rd # rds) st = batch_here env sg rd st" using r by (cases g) auto
    with round_distinct [OF Cons.prems(1)] show ?thesis by metis
  next
    case True
    then have bs: "batches_of js env sg (rd # rds) st = batch_here env sg rd st @ batches_of js env sg rds st1" using r by simp
    have idle_trim: "trim_processed listing seen = seen" if "int (length seen) \<le> idempotent_cache_limit" for listing seen
      using that by (simp add: trim_processed_def)
    have "ds_processed st1 = ds_processed st @ batch_keys (batch_here env sg rd st)"
    proof (rule daemon_round_cases [OF r])
      show "g \<noteq> Raised e" for e using True by simp
      assume "batch_here env sg rd st = []"
        "ds_processed st1 = ds_processed st \<or> ds_processed st1 = trim_processed (en_listing env) (ds_processed st)"
      then show ?thesis using Cons.prems(2) idle_trim [of "ds_processed st"] by simp
    next
      fix msgs fresh st2
      assume b: "batch_here env sg rd st = [(rd, fresh, snd (verdict env sg (ds_recorder st) fresh))]"
        "ds_processed st2 = trim_processed (en_listing env) (ds_processed st @ map offset_key fresh)" "batch_done env sg rd fresh st2 st1 g"
      then have "ds_processed st1 = trim_processed (en_listing env) (ds_processed st @ map offset_key fresh)" by (simp add: batch_done_def Let_def)
      moreover have "int (length (ds_processed st @ map offset_key fresh)) \<le> idempotent_cache_limit" using Cons.prems(2) bs b(1) by simp
      ultimately show ?thesis using b(1) idle_trim by simp
    qed
    then show ?thesis using Cons.IH [of st1] Cons.prems(2) round_distinct [OF Cons.prems(1), of env sg rd] by (simp add: bs add.assoc del: batches_of.simps)
  qed
qed

text \<open>C10.  Until ten thousand messages have been consumed, no message is processed twice, whatever the broker delivers again: the offsets of all
  messages in all batches are different.\<close>

theorem no_message_twice:
  assumes "length (batch_keys (batches_of js env sg rds (fresh_counters rec st))) \<le> 10000"
  shows "distinct (batch_keys (batches_of js env sg rds (fresh_counters rec st)))"
proof -
  have "ds_processed (fresh_counters rec st) = []" by (simp add: fresh_counters_def)
  with loop_distinct [of "fresh_counters rec st" js env sg rds] assms show ?thesis
    by (simp add: idempotent_cache_limit_def)
qed

section \<open>Replay\<close>

lemma drop_taken: "drop (length (take j xs)) xs = drop j xs"
  by (simp add: min_def)

lemma replay_rounds_step:
  "replay_rounds limit ((in_time, ready) # rounds) letters n = [] \<or>
   (\<exists>j good. good = filter (\<lambda>m. \<not> km_failed m) (take j letters) \<and> n + length good \<le> limit \<and>
      replay_rounds limit ((in_time, ready) # rounds) letters n = good @ replay_rounds limit rounds (drop j letters) (n + length good))"
proof (cases "limit \<le> n \<or> \<not> in_time")
  case False
  let ?j = "min ready (min (limit - n) 100)"
  have "length (filter (\<lambda>m. \<not> km_failed m) (take ?j letters)) \<le> limit - n"
    by (rule order_trans [OF length_filter_le]) simp
  then show ?thesis using False
    by (cases "take ?j letters = []") (force simp: Let_def drop_taken intro!: exI [of _ ?j] simp del: length_take take_eq_Nil)+
qed auto

lemma replay_rounds_first:
  "n \<le> limit \<Longrightarrow> \<exists>k. replay_rounds limit rounds letters n = filter (\<lambda>m. \<not> km_failed m) (take k letters) \<and>
     n + length (replay_rounds limit rounds letters n) \<le> limit"
proof (induction rounds arbitrary: letters n)
  case Nil
  then show ?case by (auto intro: exI [of _ 0])
next
  case (Cons r rounds)
  obtain in_time ready where r: "r = (in_time, ready)" by fastforce
  from replay_rounds_step [of limit in_time ready rounds letters n] show ?case
  proof
    assume "replay_rounds limit ((in_time, ready) # rounds) letters n = []"
    then show ?thesis using Cons.prems unfolding r by (auto intro: exI [of _ 0] simp del: replay_rounds.simps)
  next
    assume "\<exists>j good. good = filter (\<lambda>m. \<not> km_failed m) (take j letters) \<and> n + length good \<le> limit \<and>
      replay_rounds limit ((in_time, ready) # rounds) letters n = good @ replay_rounds limit rounds (drop j letters) (n + length good)"
    then obtain j good where g: "good = filter (\<lambda>m. \<not> km_failed m) (take j letters)" "n + length good \<le> limit"
      "replay_rounds limit ((in_time, ready) # rounds) letters n = good @ replay_rounds limit rounds (drop j letters) (n + length good)" by blast
    from Cons.IH [OF g(2)] obtain k where k: "replay_rounds limit rounds (drop j letters) (n + length good) = filter (\<lambda>m. \<not> km_failed m) (take k (drop j letters))"
      "n + length good + length (replay_rounds limit rounds (drop j letters) (n + length good)) \<le> limit" by blast
    have "replay_rounds limit (r # rounds) letters n = filter (\<lambda>m. \<not> km_failed m) (take (j + k) letters)"
      unfolding r g(3) k(1) by (simp add: take_add g(1))
    moreover have "n + length (replay_rounds limit (r # rounds) letters n) \<le> limit" unfolding r g(3) using k(2) by simp
    ultimately show ?thesis by blast
  qed
qed

text \<open>A replay sends the readable dead letters from the first on, in order, without value or key changed, and not more than its limit.\<close>

theorem replay_sends_first_letters:
  assumes "replay_dlq limit rounds t bk letters = Some out"
  shows "length out \<le> limit \<and> (\<exists>k. out = map (\<lambda>m. (t, km_value m, km_key m)) (filter (\<lambda>m. \<not> km_failed m) (take k letters)))"
  using assms replay_rounds_first [of 0 limit rounds letters] by (auto simp: replay_dlq_def split: if_splits)

section \<open>Stopping\<close>

lemma stop_aborts: "c \<in> {Stop, Cancel} \<Longrightarrow> is_aborted reads (controlled c row)"
  by (cases row) (auto simp: is_aborted_def stop_streaming_def cancellable_def)

lemma loop_append:
  "daemon_loop js env sg front st = (st1, Next) \<Longrightarrow> daemon_loop js env sg (front @ rds) st = daemon_loop js env sg rds st1"
  by (induction front arbitrary: st) (auto split: prod.splits flow.splits)


section \<open>A run\<close>

text \<open>Tables are lists of numbers, a message is one number, an empty one is malformed; there are no steps.\<close>

definition number_env :: "(int, unit, int list, int list, unit) stream_env" where
  "number_env = \<lparr>en_loads = (\<lambda>bs. case bs of [] \<Rightarrow> Inl (ValueError ''JSON'') | b # _ \<Rightarrow> Inr (int b)), en_raw = (\<lambda>cs. 0), en_frame = Inr, en_empty = (\<lambda>xs. xs = []),
     en_table = Inr, en_pandas = id, en_rows = (\<lambda>xs. map (\<lambda>x. [(PInt x, ())]) xs), en_text = (\<lambda>_. [65]), en_dumps = (\<lambda>r. Inr [66]),
     en_error = (\<lambda>e. [69]),
     en_engines = \<lparr>num_rows = int \<circ> length, column_names = (\<lambda>_. []), pandas_load = (\<lambda>st reg rec. (rec, Inl KeyError)),
       pandas_execute = (\<lambda>st reg rec. (rec, Inl KeyError)), duckdb_execute_step = (\<lambda>st t ts. Inl KeyError)\<rparr>,
     en_ms = 0, en_listing = id\<rparr>"

definition number_setup :: stream_setup where
  "number_setup = \<lparr>sg_topic = ''t'', sg_group = PStr ''g'', sg_batch_size = 10, sg_timeout_ms = 1000, sg_format = PStr ''json'',
     sg_publish = Some (PStr ''out'', PNone), sg_middle = []\<rparr>"

definition number_message :: "int \<Rightarrow> nat list \<Rightarrow> kafka_message" where
  "number_message n v = \<lparr>km_topic = ''t'', km_partition = 0, km_offset = n, km_value = Some v, km_key = None, km_failed = False\<rparr>"

definition plain_round :: "control list \<Rightarrow> kafka_message list \<Rightarrow> round_input" where
  "plain_round cs ms = \<lparr>rd_controls = cs, rd_read = True, rd_pause_read = True, rd_polls = [], rd_resumed_read = True, rd_assignment = Inr [],
     rd_high = (\<lambda>_. Inr 0),
     rd_drain = \<lparr>di_now = 0, di_size_answers = False, di_available = False, di_accepts = (\<lambda>_. True), di_pops = None, di_flushes = True\<rparr>,
     rd_consumed = Inr ms, rd_malformed_accepted = (\<lambda>_. True), rd_failed_accepted = (\<lambda>_. True), rd_published = (\<lambda>_. True), rd_saved = True, rd_commit = True\<rparr>"

definition idle_state :: "(queued_item, unit) daemon_state" where
  "idle_state = \<lparr>ds_batches = 0, ds_messages = 0, ds_failed = 0, ds_dlq = 0, ds_errors = 0, ds_processed = [], ds_committed = [], ds_log = [],
     ds_client = new_client 3 30, ds_recorder = (), ds_row = Some STREAMING_ACTIVE, ds_stats = None\<rparr>"

definition two_rounds :: "round_input list" where
  "two_rounds = [plain_round [] [number_message 0 [7], number_message 1 []], plain_round [] [number_message 1 [], number_message 2 [8]]]"

definition number_loop :: "(queued_item, unit) daemon_state \<times> flow" where
  "number_loop = daemon_loop text_json number_env number_setup two_rounds (fresh_counters () idle_state)"

lemma number_loop_result:
  "ds_messages (fst number_loop) = 3 \<and> ds_dlq (fst number_loop) = 1 \<and> snd number_loop = Next \<and>
   ds_log (fst number_loop) = [Dead ''t.dlq'' (Some []) None deserialization_failed ''t'' 1, Published (PStr ''out'') None [66], Committed ''t'' 0 2,
     Published (PStr ''out'') None [66], Committed ''t'' 0 3]"
  by code_simp

theorem daemon_accounts_witness:
  "sum_list (map passed_messages (batches_of text_json number_env number_setup two_rounds (fresh_counters () idle_state))) = 3"
proof -
  have "daemon_loop text_json number_env number_setup two_rounds (fresh_counters () idle_state) = (fst number_loop, snd number_loop)"
    by (simp add: number_loop_def)
  moreover have "ds_log idle_state = []" by (simp add: idle_state_def)
  ultimately show ?thesis using daemon_accounts [of text_json number_env number_setup two_rounds "()" idle_state "fst number_loop" "snd number_loop"]
      number_loop_result by simp
qed

theorem no_message_twice_witness:
  "distinct (batch_keys (batches_of text_json number_env number_setup two_rounds (fresh_counters () idle_state))) \<and>
   length (batch_keys (batches_of text_json number_env number_setup two_rounds (fresh_counters () idle_state))) = 3"
proof -
  have "length (batch_keys (batches_of text_json number_env number_setup two_rounds (fresh_counters () idle_state))) = 3" by code_simp
  then show ?thesis using no_message_twice [of text_json number_env number_setup two_rounds "()" idle_state] by simp
qed

definition number_start :: start_input where
  "number_start = \<lparr>si_run_id = ''r'', si_parsed = Inr \<lparr>pipeline_name = PStr ''p'', description = PNone,
      steps = [demo_step ''c'' STREAM_CONSUME (StreamConsumeFields (PStr ''t'') PNone 10 1000 PNone)]\<rparr>,
     si_broker = \<lparr>bk_topics = [(''t'', 8)], bk_refuses = (\<lambda>_. None)\<rparr>, si_rollback = False\<rparr>"

definition consume_setup :: stream_setup where
  "consume_setup = \<lparr>sg_topic = ''t'', sg_group = PStr ''piq-r'', sg_batch_size = 10, sg_timeout_ms = 1000, sg_format = PStr ''json'',
     sg_publish = None, sg_middle = []\<rparr>"

definition consume_state :: "(queued_item, unit) daemon_state" where
  "consume_state = idle_state\<lparr>ds_stats := Some \<lparr>sr_batches = 0, sr_messages = 0, sr_failed = 0, sr_dlq = 0\<rparr>\<rparr>"


section \<open>Where the daemon deviates\<close>

text \<open>A lag above the threshold never goes away: a round that is held back consumes nothing, so it commits nothing, and as long
  as the partition stays assigned and its end does not move back, no later round consumes either.\<close>

lemma sum_list_member: "(\<And>x. x \<in> set xs \<Longrightarrow> 0 \<le> f x) \<Longrightarrow> y \<in> set xs \<Longrightarrow> f y \<le> sum_list (map f xs)" for f :: "'a \<Rightarrow> int"
proof (induction xs)
  case (Cons x xs)
  then have "0 \<le> sum_list (map f xs)" by (intro sum_list_nonneg) auto
  with Cons show ?case by (cases "y = x") (simp_all add: add_increasing)
qed simp

lemma lagging_partition:
  assumes "tp \<in> set tps" and "high tp = Inr h" and "map_of committed tp = Some c" and "0 \<le> c" and "c + backpressure_lag_threshold < h"
  shows "backpressure_lag_threshold < compute_consumer_lag (Inr tps) high committed"
proof -
  have "partition_lag committed high tp \<le> compute_consumer_lag (Inr tps) high committed"
    unfolding compute_consumer_lag_def sum.case
    by (rule sum_list_member [OF _ assms(1)]) (auto simp: partition_lag_def split: sum.split option.split)
  moreover have "partition_lag committed high tp = h - c"
    using assms by (simp add: partition_lag_def backpressure_lag_threshold_def)
  ultimately show ?thesis using assms(5) by simp
qed

lemma held_back_quiet:
  assumes "daemon_round js env sg rd st = (st', f)" and "\<not> consumes rd st"
  shows "quiet st st'"
  using assms by (auto simp: daemon_round_def consumes_def pause_due_def quiet_def Let_def split: if_splits prod.splits flow.splits)

theorem backpressure_never_ends:
  assumes "daemon_loop js env sg rds st = (st', f)" and "map_of (ds_committed st) tp = Some c" and "0 \<le> c"
    and "\<forall>rd \<in> set rds. \<exists>tps h. rd_assignment rd = Inr tps \<and> tp \<in> set tps \<and> rd_high rd tp = Inr h \<and> c + 50000 < h"
  shows "ds_log st' = ds_log st \<and> ds_messages st' = ds_messages st \<and> ds_committed st' = ds_committed st"
  using assms(1,2,4)
proof (induction rds arbitrary: st)
  case (Cons rd rds)
  obtain st1 g where r: "daemon_round js env sg rd st = (st1, g)" by fastforce
  from Cons.prems(3) obtain tps h where t: "rd_assignment rd = Inr tps" "tp \<in> set tps" "rd_high rd tp = Inr h" "c + 50000 < h" by auto
  have "\<not> consumes rd st"
    using lagging_partition [where high = "rd_high rd", OF t(2,3) Cons.prems(2) assms(3)] t by (auto simp: consumes_def Let_def backpressure_lag_threshold_def)
  from held_back_quiet [OF r this] have q: "ds_log st1 = ds_log st" "ds_messages st1 = ds_messages st" "ds_committed st1 = ds_committed st"
    by (simp_all add: quiet_def)
  show ?case
  proof (cases "g = Next")
    case True
    then have "daemon_loop js env sg rds st1 = (st', f)" using Cons.prems(1) r by simp
    from Cons.IH [OF this] Cons.prems(2,3) q show ?thesis by simp
  next
    case False
    then have "st' = st1" using Cons.prems(1) r by (cases g) auto
    then show ?thesis using q by simp
  qed
qed simp

text \<open>The registry of a batch holds the name \<^verbatim>\<open>_stream_input\<close> only, and steps name their inputs: a pipeline whose first middle step
  reads from another step, as every reference to the consuming step does, processes no message at all.\<close>

lemmas run_reads = filter_run.reads select_run.reads rename_run.reads aggregate_run.reads sort_run.reads save_run.reads validate_run.reads
  publish_run.reads pivot_run.reads unpivot_run.reads deduplicate_run.reads fill_nulls_run.reads sample_run.reads wasm_run.reads

lemma execute_step_reads:
  assumes "execute_step pd ms fs st reg = Inr (c, r)" and "input_attr (cfg_fields st) = Some (PStr i)"
  shows "dict_get reg (PStr i) \<noteq> None"
  using assms
  by (cases "cfg_fields st")
    (auto simp: execute_step_def run_step_def bindE_eq_Inr_iff execute_sql_def split: if_splits dest!: run_reads [where i = i])

lemma step_without_input_fails:
  assumes "input_attr (cfg_fields st) = Some (PStr i)" and "i \<noteq> []" and "dict_get reg (PStr i) = None" and "smart_step_type st \<notin> {''load'', ''join''}"
  shows "\<exists>rec' e. smart_execute (executor_engines pd nx ms fs duckdb) ms' extra st reg rec = (rec', Inl e)"
proof -
  have none: "registry_get reg (input_of st) = Inr None"
    using assms(1-3) by (simp add: registry_get_def input_of_def truthy_def hashable_def)
  have "execute_step pd ms (fs\<lparr>file_paths := [], file_metadata := []\<rparr>) st reg \<noteq> Inr (c, r)" for c r
    using execute_step_reads [OF _ assms(1)] assms(3) by blast
  then obtain e where "execute_step pd ms (fs\<lparr>file_paths := [], file_metadata := []\<rparr>) st reg = Inl e"
    by (metis old.prod.exhaust sum.exhaust)
  then have pandas: "run_pandas (executor_engines pd nx ms fs duckdb) eng st reg rec = (rec, Inl e)" for eng
    by (simp add: run_pandas_def executor_engines_def commit_def enrich_result_def)
  show ?thesis using assms(4) none pandas by (intro exI [of _ rec] exI [of _ e]) (simp add: smart_execute_def span_engine_def Let_def)
qed

theorem middle_steps_never_run:
  assumes "en_engines env = executor_engines pd nx ms fs duckdb" and "sg_middle sg = first # others"
    and "input_attr (cfg_fields first) = Some (PStr i)" and "i \<notin> {[], ''_stream_input''}" and "smart_step_type first \<notin> {''load'', ''join''}"
    and "daemon_loop js env sg rds (fresh_counters rec st) = (st', f)" and "\<forall>e. f \<noteq> Raised e"
  shows "ds_batches st' = 0 \<and> ds_messages st' = 0"
proof -
  have never: "snd (verdict env sg rec' fresh) \<noteq> Passed out" for rec' fresh out
  proof -
    have ne: "i \<noteq> []" "dict_get [(stream_input, t)] (PStr i) = None" for t using assms(4) by (auto simp: stream_input_def)
    have "\<exists>rec'' e. smart_execute (executor_engines pd nx ms fs duckdb) (en_ms env) [] first [(stream_input, t)] rec' = (rec'', Inl e)" for t
      by (rule step_without_input_fails [OF assms(3) ne assms(5)])
    then have "\<exists>rec'' e. run_middle env (sg_middle sg) [(stream_input, t)] stream_input rec' = (rec'', Inl e)" for t
      using assms(1,2) by (metis (no_types, lifting) old.prod.case run_middle.simps(2) sum.case(1))
    then have "\<exists>rec'' e. run_batch env (sg_middle sg) df rec' = (rec'', Inl e)" for df
    proof (cases "en_table env df")
      case (Inr t)
      obtain rec'' e where "run_middle env (sg_middle sg) [(stream_input, t)] stream_input rec' = (rec'', Inl e)"
        using \<open>\<And>t. \<exists>rec'' e. run_middle env (sg_middle sg) [(stream_input, t)] stream_input rec' = (rec'', Inl e)\<close> by blast
      with Inr show ?thesis by (simp add: run_batch_def)
    qed (simp add: run_batch_def)
    then show ?thesis by (auto simp: verdict_def split: sum.splits prod.splits if_splits) (metis Inl_Inr_False prod.inject)
  qed
  have here: "\<not> passed b \<and> passed_messages b = 0" if "b \<in> set (batch_here env sg rd st2)" for b rd st2
  proof -
    from that obtain fresh where "b = (rd, fresh, snd (verdict env sg (ds_recorder st2) fresh))"
      by (auto simp: batch_here_def Let_def split: if_splits sum.splits)
    then show ?thesis using never [of "ds_recorder st2" fresh]
      by (cases "snd (verdict env sg (ds_recorder st2) fresh)") (auto simp: passed_def passed_messages_def)
  qed
  have none: "\<not> passed b \<and> passed_messages b = 0" if "b \<in> set (batches_of js env sg rds st2)" for b st2
    using that by (induction rds arbitrary: st2) (auto dest: here split: prod.splits flow.splits)
  have "ds_errors (fresh_counters rec st) < max_consecutive_errors" by (simp add: fresh_counters_def max_consecutive_errors_def)
  from loop_accounts [OF assms(6) _ this] assms(7) have "accounts env sg (batches_of js env sg rds (fresh_counters rec st)) (fresh_counters rec st) st' f" by simp
  then show ?thesis using none by (auto simp: accounts_def fresh_counters_def filter_empty_conv)
qed

text \<open>A run that has been started once cannot be restarted: its statistics are there, adding them again raises, and when the session
  then refuses the update the run stays marked as active without a daemon.\<close>

theorem restart_never_runs:
  assumes "ds_stats st \<noteq> None" and "ds_row st \<noteq> None" and "si_parsed si = Inr cfg"
    and "setup_of (si_run_id si) (steps cfg) = Some (Inr sg)" and "topic_exists (si_broker si) (sg_topic sg)"
  shows "run_streaming_pipeline js env rec si rds st =
    (mark_status (if si_rollback si then FAILED else STREAMING_ACTIVE) st, Crashed (OtherError ''IntegrityError''))"
  using assms
  by (auto simp: run_streaming_pipeline_def start_streaming_def ensure_topic_def init_stats_def mark_status_def crash_def session_usable_def option.map_comp comp_def)

text \<open>A pause is only noticed when the number of batches is a multiple of ten.\<close>

theorem paused_run_consumes:
  assumes "fold controlled (rd_controls rd) (ds_row st) = Some STREAMING_PAUSED" and "rd_read rd" and "ds_batches st mod 10 \<noteq> 0"
    and "compute_consumer_lag (rd_assignment rd) (rd_high rd) (ds_committed st) \<le> 50000"
    and "rd_consumed rd = Inr msgs" and "fresh_messages msgs (ds_processed st) \<noteq> []"
  shows "batch_here env sg rd st \<noteq> []"
  using assms by (simp add: batch_here_def consumes_def is_aborted_def pause_due_def backpressure_lag_threshold_def Let_def)

text \<open>Records that the producer refuses are lost: the batch counts as passed and is committed.\<close>

theorem refused_records_committed:
  assumes "\<And>n. \<not> rd_published rd n"
  shows "effects_of env sg (rd, fresh, Passed out) = malformed_letters env sg fresh @ [commit_of fresh]"
proof -
  have "fst (publish_rows env (rd_published rd) 0 p rs) = []" for p rs
    by (cases rs) (auto simp: assms split: sum.splits)
  then show ?thesis by (simp add: effects_of_def handled_def records_out_def split: option.split)
qed

text \<open>A malformed message of a batch whose steps fail becomes two dead letters.\<close>

theorem malformed_letter_twice:
  assumes "m \<in> set fresh" and "m \<in> set (snd (deserialize env (sg_format sg) fresh))" and "en_error env e \<noteq> deserialization_failed"
  shows "dead_letter (sg_topic sg) deserialization_failed m \<in> set (effects_of env sg (rd, fresh, Failed e)) \<and>
    dead_letter (sg_topic sg) (en_error env e) m \<in> set (effects_of env sg (rd, fresh, Failed e))"
  using assms by (simp add: effects_of_def handled_def malformed_letters_def)

text \<open>The offsets that are forgotten are any half of the set: with a set that lists the newest first, the offset just seen is
  forgotten.\<close>

theorem newest_offset_forgotten:
  assumes "10000 < length seen"
  shows "last seen \<notin> set (trim_processed rev seen)"
proof -
  have "0 < length seen div 2" "seen \<noteq> []" using assms by auto
  then have "last seen \<in> set (take (length seen div 2) (rev seen))"
    by (cases seen rule: rev_cases) (auto simp: take_Cons')
  then show ?thesis using assms by (simp add: trim_processed_def idempotent_cache_limit_def Let_def)
qed

end
