(* ===== verification/ArrowBus.thy ===== *)
theory ArrowBus
  imports PyNum "HOL-Library.AList"
begin

text \<open>
  \<^verbatim>\<open>backend/execution/arrow_bus.py\<close> and \<^verbatim>\<open>backend/execution/shm_store.py\<close>: the bus that carries the
  tables of a run through Redis, shared memory or spill storage.

  The record \<open>bus\<close> has the fields of the object followed by the contents of the three stores and of
  the run manifests in Redis.  Arrow and Parquet are the fields of \<open>arrow_ops\<close>.  What the outside world
  does during one operation is in \<open>bus_env\<close>: the clocks, whether a connection to Redis can be had,
  which Redis commands on which key raise, which file and object operations raise, and the
  next unique identifier.  Reentrant locks, log lines and the event log are left out.
\<close>

section \<open>Definitions\<close>

record location =
  loc_key :: string
  loc_run_id :: string
  loc_tier :: string
  loc_pointer :: "string option"
  loc_size_bytes :: int

text \<open>The payload of a manifest field; a manifest may expire.\<close>

record manifest_entry =
  me_tier :: string
  me_pointer :: "string option"
  me_size_bytes :: int

record bus =
  locations :: "(string \<times> location) list"
  redis_client :: bool
  redis_retry_after :: int
  small_threshold_bytes :: int
  medium_threshold_bytes :: int
  redis_ttl_seconds :: int
  manifest_ttl_seconds :: int
  disk_prefix :: string
  shm_dir :: string
  shm_usable :: bool
  redis_data :: "(string \<times> string \<times> int) list"
  manifests :: "(string \<times> (string \<times> manifest_entry) list \<times> int option) list"
  shm_files :: "(string \<times> string \<times> int) list"
  spill_objects :: "(string \<times> string) list"

record 't arrow_ops =
  nbytes :: "'t \<Rightarrow> int"
  to_ipc :: "'t \<Rightarrow> string"
  of_ipc :: "string \<Rightarrow> 't result"
  to_parquet :: "'t \<Rightarrow> string"
  of_parquet :: "string \<Rightarrow> 't result"
  digest16 :: "string \<Rightarrow> string"

datatype redis_cmd = SETEX | GET | DEL | HSET | EXPIRE | HDEL | HGETALL

datatype write_outcome = Written | NotOpened | Partial string

record bus_env =
  now :: int
  monotonic :: int
  pool_connects :: bool
  redis_raises :: "redis_cmd \<Rightarrow> string \<Rightarrow> bool"
  shm_write_outcome :: "string \<Rightarrow> write_outcome"
  unlink_raises :: "string \<Rightarrow> bool"
  upload_raises :: "string \<Rightarrow> bool"
  object_delete_raises :: "string \<Rightarrow> bool"
  uuid4_hex :: string

subsection \<open>Creation\<close>

definition strip_slashes :: "string \<Rightarrow> string" where
  "strip_slashes s = rev (dropWhile (\<lambda>c. c = CHR ''/'') (rev (dropWhile (\<lambda>c. c = CHR ''/'') s)))"

definition new_bus :: "rat \<Rightarrow> rat \<Rightarrow> int \<Rightarrow> int \<Rightarrow> bool \<Rightarrow> string \<Rightarrow> string \<Rightarrow> bool \<Rightarrow> bus result" where
  "new_bus small_mb medium_mb ttl manifest_ttl client prefix dir usable =
     (if small_mb \<le> 0 then Inl (ValueError ''small_threshold_mb must be > 0'')
      else if medium_mb \<le> small_mb then Inl (ValueError ''medium_threshold_mb must be > small_threshold_mb'')
      else if ttl \<le> 0 then Inl (ValueError ''redis_ttl_seconds must be > 0'')
      else if manifest_ttl \<le> 0 then Inl (ValueError ''manifest_ttl_seconds must be > 0'')
      else Inr \<lparr>locations = [], redis_client = client, redis_retry_after = 0,
         small_threshold_bytes = truncate_rat (round64 (round64 (small_mb * 1024) * 1024)),
         medium_threshold_bytes = truncate_rat (round64 (round64 (medium_mb * 1024) * 1024)),
         redis_ttl_seconds = ttl, manifest_ttl_seconds = max ttl manifest_ttl, disk_prefix = strip_slashes prefix,
         shm_dir = dir, shm_usable = usable, redis_data = [], manifests = [], shm_files = [], spill_objects = []\<rparr>)"

text \<open>The client in use, if any: a failed connection is not tried again for fifteen seconds.\<close>

definition ensure_redis :: "bus_env \<Rightarrow> bus \<Rightarrow> bus \<times> bool" where
  "ensure_redis env b =
     (if redis_client b then (b, True)
      else if monotonic env < redis_retry_after b then (b, False)
      else if pool_connects env then (b\<lparr>redis_client := True, redis_retry_after := 0\<rparr>, True)
      else (b\<lparr>redis_client := False, redis_retry_after := monotonic env + 15\<rparr>, False))"

subsection \<open>Names\<close>

definition estimated_size :: "'t arrow_ops \<Rightarrow> 't \<Rightarrow> int" where
  "estimated_size ops t = max 1 (nbytes ops t)"

definition redis_key :: "string \<Rightarrow> string \<Rightarrow> string" where
  "redis_key run_id key = ''arrow_bus:'' @ run_id @ '':'' @ key"

definition manifest_key :: "string \<Rightarrow> string" where
  "manifest_key run_id = ''arrow_bus:manifest:'' @ run_id"

definition safe_key_char :: "char \<Rightarrow> bool" where
  "safe_key_char c \<longleftrightarrow> is_ascii_letter c \<or> is_digit c \<or> c \<in> set ''_.-''"

text \<open>\<^verbatim>\<open>re.sub("[^A-Za-z0-9_.-]+", "_", key)\<close>: one underscore for each run of other characters.\<close>

fun sub_unsafe :: "bool \<Rightarrow> string \<Rightarrow> string" where
  "sub_unsafe in_run [] = []"
| "sub_unsafe in_run (c # s) =
     (if safe_key_char c then c # sub_unsafe False s
      else if in_run then sub_unsafe True s else CHR ''_'' # sub_unsafe True s)"

definition safe_key :: "string \<Rightarrow> string" where
  "safe_key key =
     (let s = rev (dropWhile (\<lambda>c. c = CHR ''_'') (rev (dropWhile (\<lambda>c. c = CHR ''_'') (sub_unsafe False key)))) in
      if s = [] then ''step'' else s)"

definition shm_prefix :: string where "shm_prefix = ''pipelineiq_''"

definition shm_extension :: string where "shm_extension = ''.arrow''"

definition shm_path_for :: "'t arrow_ops \<Rightarrow> string \<Rightarrow> string \<Rightarrow> string \<Rightarrow> string" where
  "shm_path_for ops dir run_id key =
     dir @ ''/'' @ shm_prefix @ run_id @ ''_'' @ digest16 ops (run_id @ '':'' @ key) @ shm_extension"

definition spill_pointer :: "bus \<Rightarrow> string \<Rightarrow> string \<Rightarrow> string \<Rightarrow> string" where
  "spill_pointer b run_id key hex =
     disk_prefix b @ ''/'' @ run_id @ ''/'' @
     disk_prefix b @ ''_'' @ run_id @ ''_'' @ safe_key key @ ''_'' @ hex @ ''.parquet''"

definition parse_redis_data_key :: "string \<Rightarrow> (string \<times> string) result" where
  "parse_redis_data_key s =
     (if \<not> starts_with s ''arrow_bus:'' then Inl (ValueError (''Not an arrow_bus key: '' @ s))
      else let rest = drop (length ''arrow_bus:'') s; run_id = takeWhile (\<lambda>c. c \<noteq> CHR '':'') rest in
        if CHR '':'' \<in> set rest then Inr (run_id, drop (length run_id + 1) rest)
        else Inl (ValueError (''Malformed arrow_bus key: '' @ s)))"

subsection \<open>Stores\<close>

text \<open>An entry of Redis is there until its time is up.\<close>

definition redis_get :: "bus_env \<Rightarrow> bus \<Rightarrow> string \<Rightarrow> string option" where
  "redis_get env b k =
     (case map_of (redis_data b) k of Some (v, expiry) \<Rightarrow> if now env < expiry then Some v else None | None \<Rightarrow> None)"

definition manifest_fields :: "bus_env \<Rightarrow> bus \<Rightarrow> string \<Rightarrow> (string \<times> manifest_entry) list" where
  "manifest_fields env b k =
     (case map_of (manifests b) k of
        Some (fs, None) \<Rightarrow> fs
      | Some (fs, Some expiry) \<Rightarrow> if now env < expiry then fs else []
      | None \<Rightarrow> [])"

definition manifest_expiry :: "bus_env \<Rightarrow> bus \<Rightarrow> string \<Rightarrow> int option" where
  "manifest_expiry env b k =
     (case map_of (manifests b) k of
        Some (fs, Some expiry) \<Rightarrow> if now env < expiry then Some expiry else None
      | _ \<Rightarrow> None)"

text \<open>\<^verbatim>\<open>shm_store.write\<close>; a write that fails half-way leaves what it has written.\<close>

definition shm_write :: "'t arrow_ops \<Rightarrow> bus_env \<Rightarrow> string \<Rightarrow> string \<Rightarrow> 't \<Rightarrow> bus \<Rightarrow> bus \<times> bool" where
  "shm_write ops env run_id key t b =
     (let path = shm_path_for ops (shm_dir b) run_id key in
      case shm_write_outcome env path of
        Written \<Rightarrow> (b\<lparr>shm_files := AList.update path (to_ipc ops t, now env) (shm_files b)\<rparr>, True)
      | NotOpened \<Rightarrow> (b, False)
      | Partial junk \<Rightarrow> (b\<lparr>shm_files := AList.update path (junk, now env) (shm_files b)\<rparr>, False))"

definition shm_read :: "'t arrow_ops \<Rightarrow> bus \<Rightarrow> string \<Rightarrow> 't result option" where
  "shm_read ops b path = (case map_of (shm_files b) path of None \<Rightarrow> None | Some (bytes, _) \<Rightarrow> Some (of_ipc ops bytes))"

definition shm_remove :: "bus_env \<Rightarrow> string \<Rightarrow> bus \<Rightarrow> bus" where
  "shm_remove env path b = (if unlink_raises env path then b else b\<lparr>shm_files := AList.delete path (shm_files b)\<rparr>)"

text \<open>\<^verbatim>\<open>target.glob(f"{prefix}*{ext}")\<close> for a prefix and an extension without wildcards.\<close>

definition glob_match :: "string \<Rightarrow> string \<Rightarrow> string \<Rightarrow> string \<Rightarrow> bool" where
  "glob_match dir prefix ext path \<longleftrightarrow>
     starts_with path (dir @ ''/'') \<and>
     (let name = drop (length dir + 1) path in
      CHR ''/'' \<notin> set name \<and> starts_with name prefix \<and> length prefix + length ext \<le> length name \<and>
      drop (length name - length ext) name = ext)"

definition shm_remove_for_run :: "bus_env \<Rightarrow> string \<Rightarrow> bus \<Rightarrow> bus" where
  "shm_remove_for_run env run_id b =
     fold (shm_remove env)
       (filter (glob_match (shm_dir b) (shm_prefix @ run_id @ ''_'') shm_extension) (map fst (shm_files b))) b"

definition shm_cleanup_stale :: "bus_env \<Rightarrow> int \<Rightarrow> bus \<Rightarrow> bus" where
  "shm_cleanup_stale env max_age_hours b =
     (if \<not> shm_usable b then b
      else fold (shm_remove env)
        (map fst (filter (\<lambda>(path, _, mtime). glob_match (shm_dir b) shm_prefix shm_extension path \<and>
             mtime < now env - max_age_hours * 3600) (shm_files b))) b)"

definition cleanup_all_stale :: "bus_env \<Rightarrow> int \<Rightarrow> bus \<Rightarrow> bus" where
  "cleanup_all_stale env max_age_seconds b = shm_cleanup_stale env (max (max_age_seconds div 3600) 1) b"

subsection \<open>Manifests\<close>

definition persist_manifest_entry :: "bus_env \<Rightarrow> location \<Rightarrow> bus \<Rightarrow> bus" where
  "persist_manifest_entry env loc b0 =
     (case ensure_redis env b0 of (b, up) \<Rightarrow>
       let k = manifest_key (loc_run_id loc);
           entry = \<lparr>me_tier = loc_tier loc, me_pointer = loc_pointer loc, me_size_bytes = loc_size_bytes loc\<rparr>
       in if \<not> up \<or> redis_raises env HSET k then b
          else let fs = AList.update (loc_key loc) entry (manifest_fields env b k);
                   expiry = (if redis_raises env EXPIRE k then manifest_expiry env b k
                             else Some (now env + manifest_ttl_seconds b))
               in b\<lparr>manifests := AList.update k (fs, expiry) (manifests b)\<rparr>)"

text \<open>A hash without fields does not exist, so the deletion of an empty manifest changes nothing.\<close>

definition remove_manifest_entry :: "bus_env \<Rightarrow> string \<Rightarrow> string \<Rightarrow> bus \<Rightarrow> bus" where
  "remove_manifest_entry env run_id key b0 =
     (case ensure_redis env b0 of (b, up) \<Rightarrow>
       let k = manifest_key run_id in
       if \<not> up \<or> redis_raises env HDEL k then b
       else let fs = AList.delete key (manifest_fields env b k) in
         if fs = [] then b\<lparr>manifests := AList.delete k (manifests b)\<rparr>
         else b\<lparr>manifests := AList.update k (fs, manifest_expiry env b k) (manifests b)\<rparr>)"

definition load_manifest_locations :: "bus_env \<Rightarrow> string \<Rightarrow> bus \<Rightarrow> bus \<times> location list" where
  "load_manifest_locations env run_id b0 =
     (case ensure_redis env b0 of (b, up) \<Rightarrow>
       let k = manifest_key run_id in
       if \<not> up \<or> redis_raises env HGETALL k then (b, [])
       else (b, map (\<lambda>(key, e). \<lparr>loc_key = key, loc_run_id = run_id, loc_tier = py_lower (me_tier e),
                      loc_pointer = me_pointer e, loc_size_bytes = me_size_bytes e\<rparr>)
              (filter (\<lambda>(key, e). py_lower (me_tier e) \<in> {''redis'', ''shm'', ''spill''}) (manifest_fields env b k))))"

definition clear_manifest :: "bus_env \<Rightarrow> string \<Rightarrow> bus \<Rightarrow> bus" where
  "clear_manifest env run_id b0 =
     (case ensure_redis env b0 of (b, up) \<Rightarrow>
       if \<not> up \<or> redis_raises env DEL (manifest_key run_id) then b
       else b\<lparr>manifests := AList.delete (manifest_key run_id) (manifests b)\<rparr>)"

definition record_location :: "bus_env \<Rightarrow> location \<Rightarrow> bus \<Rightarrow> bus" where
  "record_location env loc b =
     persist_manifest_entry env loc (b\<lparr>locations := AList.update (loc_key loc) loc (locations b)\<rparr>)"

definition delete_location_payload :: "bus_env \<Rightarrow> location \<Rightarrow> bus \<Rightarrow> bus" where
  "delete_location_payload env loc b =
     (case loc_pointer loc of
        None \<Rightarrow> b
      | Some p \<Rightarrow>
          if p = [] then b
          else if loc_tier loc = ''redis'' then
            (case ensure_redis env b of (b', up) \<Rightarrow>
               if \<not> up \<or> redis_raises env DEL p then b' else b'\<lparr>redis_data := AList.delete p (redis_data b')\<rparr>)
          else if loc_tier loc = ''shm'' then shm_remove env p b
          else if loc_tier loc = ''spill'' then
            (if object_delete_raises env p then b else b\<lparr>spill_objects := AList.delete p (spill_objects b)\<rparr>)
          else b)"

subsection \<open>Operations\<close>

definition delete_key :: "bus_env \<Rightarrow> string \<Rightarrow> bus \<Rightarrow> bus" where
  "delete_key env key b =
     (case map_of (locations b) key of
        None \<Rightarrow> b
      | Some loc \<Rightarrow>
          remove_manifest_entry env (loc_run_id loc) key
            (delete_location_payload env loc (b\<lparr>locations := AList.delete key (locations b)\<rparr>)))"

definition put_redis :: "'t arrow_ops \<Rightarrow> bus_env \<Rightarrow> string \<Rightarrow> string \<Rightarrow> 't \<Rightarrow> bus \<Rightarrow> bus \<times> bool" where
  "put_redis ops env run_id key t b0 =
     (if estimated_size ops t \<le> small_threshold_bytes b0 then
        (case ensure_redis env b0 of (b, up) \<Rightarrow>
          let k = redis_key run_id key in
          if \<not> up \<or> redis_raises env SETEX k then (b, False)
          else (record_location env
                 \<lparr>loc_key = key, loc_run_id = run_id, loc_tier = ''redis'', loc_pointer = Some k,
                  loc_size_bytes = estimated_size ops t\<rparr>
                 (b\<lparr>redis_data := AList.update k (to_ipc ops t, now env + redis_ttl_seconds b) (redis_data b)\<rparr>), True))
      else (b0, False))"

definition put_shm :: "'t arrow_ops \<Rightarrow> bus_env \<Rightarrow> string \<Rightarrow> string \<Rightarrow> 't \<Rightarrow> bus \<Rightarrow> bus \<times> bool" where
  "put_shm ops env run_id key t b0 =
     (if estimated_size ops t \<le> medium_threshold_bytes b0 \<and> shm_usable b0 then
        (case shm_write ops env run_id key t b0 of
           (b, False) \<Rightarrow> (b, False)
         | (b, True) \<Rightarrow> (record_location env
             \<lparr>loc_key = key, loc_run_id = run_id, loc_tier = ''shm'',
              loc_pointer = Some (shm_path_for ops (shm_dir b0) run_id key), loc_size_bytes = estimated_size ops t\<rparr> b, True))
      else (b0, False))"

definition put_spill :: "'t arrow_ops \<Rightarrow> bus_env \<Rightarrow> string \<Rightarrow> string \<Rightarrow> 't \<Rightarrow> bus \<Rightarrow> bus \<times> string result" where
  "put_spill ops env run_id key t b =
     (let p = spill_pointer b run_id key (uuid4_hex env) in
      if upload_raises env p then (b, Inl (OtherError ''upload failed''))
      else (record_location env
              \<lparr>loc_key = key, loc_run_id = run_id, loc_tier = ''spill'', loc_pointer = Some p,
               loc_size_bytes = estimated_size ops t\<rparr>
              (b\<lparr>spill_objects := AList.update p (to_parquet ops t) (spill_objects b)\<rparr>), Inr ''spill''))"

definition put :: "'t arrow_ops \<Rightarrow> bus_env \<Rightarrow> string \<Rightarrow> string \<Rightarrow> 't \<Rightarrow> bus \<Rightarrow> bus \<times> string result" where
  "put ops env run_id key t b0 =
     (if key = [] then (b0, Inl (ValueError ''Arrow bus key cannot be empty''))
      else case put_redis ops env run_id key t (delete_key env key b0) of
          (b1, True) \<Rightarrow> (b1, Inr ''redis'')
        | (b1, False) \<Rightarrow>
            (case put_shm ops env run_id key t b1 of
               (b2, True) \<Rightarrow> (b2, Inr ''shm'')
             | (b2, False) \<Rightarrow> put_spill ops env run_id key t b2))"

definition get_table :: "'t arrow_ops \<Rightarrow> bus_env \<Rightarrow> string \<Rightarrow> bus \<Rightarrow> bus \<times> 't result" where
  "get_table ops env key b0 =
     (case map_of (locations b0) key of
        None \<Rightarrow> (b0, Inl KeyError)
      | Some loc \<Rightarrow>
          let p = (case loc_pointer loc of None \<Rightarrow> [] | Some p \<Rightarrow> p) in
          if loc_tier loc = ''redis'' then
            (case ensure_redis env b0 of (b, up) \<Rightarrow>
              if \<not> up \<or> redis_raises env GET p then (b, Inl KeyError)
              else (b, case redis_get env b p of None \<Rightarrow> Inl KeyError | Some bytes \<Rightarrow> of_ipc ops bytes))
          else if loc_tier loc = ''shm'' then
            (b0, if p = [] then Inl KeyError
                 else case shm_read ops b0 p of None \<Rightarrow> Inl KeyError | Some r \<Rightarrow> r)
          else if loc_tier loc = ''spill'' then
            (b0, case map_of (spill_objects b0) p of
                   None \<Rightarrow> Inl (OtherError ''FileNotFoundError'') | Some bytes \<Rightarrow> of_parquet ops bytes)
          else (b0, Inl KeyError))"

text \<open>How many payloads of each tier a cleanup has deleted.\<close>

record tier_counts =
  hot :: nat
  warm :: nat
  cold :: nat

definition count_tier :: "string \<Rightarrow> tier_counts \<Rightarrow> tier_counts" where
  "count_tier t n =
     (if t = ''redis'' then n\<lparr>hot := hot n + 1\<rparr> else if t = ''shm'' then n\<lparr>warm := warm n + 1\<rparr>
      else if t = ''spill'' then n\<lparr>cold := cold n + 1\<rparr> else n)"

definition cleanup_own :: "bus_env \<Rightarrow> string \<Rightarrow> bus \<times> tier_counts \<Rightarrow> bus \<times> tier_counts" where
  "cleanup_own env key bn = (case bn of (b, n) \<Rightarrow>
     (delete_key env key b, case map_of (locations b) key of None \<Rightarrow> n | Some loc \<Rightarrow> count_tier (loc_tier loc) n))"

definition cleanup_listed :: "bus_env \<Rightarrow> string \<Rightarrow> string list \<Rightarrow> location \<Rightarrow> bus \<times> tier_counts \<Rightarrow> bus \<times> tier_counts" where
  "cleanup_listed env run_id keys loc bn = (case bn of (b, n) \<Rightarrow>
     if loc_key loc \<in> set keys then (b, n)
     else (remove_manifest_entry env run_id (loc_key loc) (delete_location_payload env loc b), count_tier (loc_tier loc) n))"

text \<open>\<^verbatim>\<open>_cleanup_orphaned_local_spill_files\<close>; \<open>base\<close> is the directory of a local provider.\<close>

definition spill_orphans :: "string option \<Rightarrow> string \<Rightarrow> bus \<Rightarrow> string list" where
  "spill_orphans base run_id b =
     (case base of
        None \<Rightarrow> []
      | Some dir \<Rightarrow> filter (\<lambda>p. glob_match dir (disk_prefix b @ ''_'' @ run_id @ ''_'') ''.parquet'' (dir @ ''/'' @ p))
          (map fst (spill_objects b)))"

definition cleanup_spill_orphans :: "bus_env \<Rightarrow> string option \<Rightarrow> string \<Rightarrow> bus \<Rightarrow> bus" where
  "cleanup_spill_orphans env base run_id b =
     fold (\<lambda>p b. if unlink_raises env p then b else b\<lparr>spill_objects := AList.delete p (spill_objects b)\<rparr>)
       (spill_orphans base run_id b) b"

definition cleanup_run :: "bus_env \<Rightarrow> string option \<Rightarrow> string \<Rightarrow> bus \<Rightarrow> bus \<times> tier_counts" where
  "cleanup_run env base run_id b0 =
     (let keys = map fst (filter (\<lambda>(k, loc). loc_run_id loc = run_id) (locations b0));
          (b1, n1) = fold (cleanup_own env) keys (b0, \<lparr>hot = 0, warm = 0, cold = 0\<rparr>);
          (b2, listed) = load_manifest_locations env run_id b1;
          (b3, n2) = fold (cleanup_listed env run_id keys) listed (b2, n1)
      in (clear_manifest env run_id (cleanup_spill_orphans env base run_id (shm_remove_for_run env run_id b3)), n2))"

definition clear_all :: "bus_env \<Rightarrow> bus \<Rightarrow> bus" where
  "clear_all env b = fold (delete_key env) (map fst (locations b)) b"

text \<open>One key of the scan of \<^verbatim>\<open>maybe_evict_hot_to_warm\<close>.\<close>

definition evict_key :: "'t arrow_ops \<Rightarrow> bus_env \<Rightarrow> string \<Rightarrow> bus \<times> nat \<Rightarrow> bus \<times> nat" where
  "evict_key ops env k bn = (case bn of (b, n) \<Rightarrow>
     if n \<ge> 5 \<or> starts_with k ''arrow_bus:manifest:'' \<or> starts_with k ''arrow_bus:shm:'' \<or> redis_raises env GET k then (b, n)
     else case redis_get env b k of
         None \<Rightarrow> (b, n)
       | Some raw \<Rightarrow>
           if int (length raw) < small_threshold_bytes b div 2 then (b, n)
           else (case parse_redis_data_key k of
               Inl _ \<Rightarrow> (b, n)
             | Inr (run_id, key) \<Rightarrow>
                 (case of_ipc ops raw of
                    Inl _ \<Rightarrow> (b, n)
                  | Inr t \<Rightarrow>
                      (case shm_write ops env run_id key t b of
                         (b1, False) \<Rightarrow> (b1, n)
                       | (b1, True) \<Rightarrow>
                           let path = shm_path_for ops (shm_dir b) run_id key;
                               b2 = record_location env \<lparr>loc_key = key, loc_run_id = run_id, loc_tier = ''shm'',
                                 loc_pointer = Some path, loc_size_bytes = int (length raw)\<rparr> b1
                           in if redis_raises env DEL k then (shm_remove env path b2, n)
                              else (b2\<lparr>redis_data := AList.delete k (redis_data b2)\<rparr>, n + 1)))))"

text \<open>\<open>memory\<close> is the answer of \<^verbatim>\<open>INFO memory\<close>, limit and use, and \<open>scan\<close> the keys that the scan yields.\<close>

definition maybe_evict_hot_to_warm ::
    "'t arrow_ops \<Rightarrow> bus_env \<Rightarrow> (int \<times> int) option \<Rightarrow> string list \<Rightarrow> bus \<Rightarrow> bus \<times> nat" where
  "maybe_evict_hot_to_warm ops env memory scan b0 =
     (if \<not> shm_usable b0 then (b0, 0)
      else case ensure_redis env b0 of (b, up) \<Rightarrow>
        if \<not> up then (b, 0)
        else (case memory of
            None \<Rightarrow> (b, 0)
          | Some (limit, used) \<Rightarrow>
              if limit \<le> 0 \<or> round64 (of_int used / of_int limit) < round64 (9 / 10) then (b, 0)
              else fold (evict_key ops env) scan (b, 0)))"

section \<open>What the helpers touch\<close>

text \<open>The bytes behind a pointer, with the time at which they expire.\<close>

definition payload :: "bus \<Rightarrow> string \<Rightarrow> string \<Rightarrow> (string \<times> int option) option" where
  "payload b ti p =
     (if ti = ''redis'' then map_option (\<lambda>(v, e). (v, Some e)) (map_of (redis_data b) p)
      else if ti = ''shm'' then map_option (\<lambda>(v, m). (v, None)) (map_of (shm_files b) p)
      else if ti = ''spill'' then map_option (\<lambda>v. (v, None)) (map_of (spill_objects b) p)
      else None)"

text \<open>The same object and stores up to the locations, the manifests and the state of the connection.\<close>

definition same_settings :: "bus \<Rightarrow> bus \<Rightarrow> bool" where
  "same_settings b b' \<longleftrightarrow>
     small_threshold_bytes b' = small_threshold_bytes b \<and> medium_threshold_bytes b' = medium_threshold_bytes b \<and>
     redis_ttl_seconds b' = redis_ttl_seconds b \<and> manifest_ttl_seconds b' = manifest_ttl_seconds b \<and>
     disk_prefix b' = disk_prefix b \<and> shm_dir b' = shm_dir b \<and> shm_usable b' = shm_usable b \<and>
     (redis_client b \<longrightarrow> redis_client b')"

lemma same_settings_refl [simp]: "same_settings b b"
  by (simp add: same_settings_def)

lemma same_settings_trans: "same_settings a b \<Longrightarrow> same_settings b c \<Longrightarrow> same_settings a c"
  by (auto simp: same_settings_def)

lemma ensure_redis_frame [simp]:
  "locations (fst (ensure_redis env b)) = locations b" "payload (fst (ensure_redis env b)) = payload b"
  "manifests (fst (ensure_redis env b)) = manifests b" "redis_data (fst (ensure_redis env b)) = redis_data b"
  "shm_files (fst (ensure_redis env b)) = shm_files b" "spill_objects (fst (ensure_redis env b)) = spill_objects b"
  "same_settings b (fst (ensure_redis env b))"
  by (auto simp: ensure_redis_def payload_def same_settings_def fun_eq_iff)

lemma ensure_redis_up: "snd (ensure_redis env b) \<Longrightarrow> redis_client (fst (ensure_redis env b))"
  by (auto simp: ensure_redis_def split: if_splits)

lemma ensure_redis_client [simp]: "redis_client b \<Longrightarrow> ensure_redis env b = (b, True)"
  by (simp add: ensure_redis_def)

lemma payload_manifests [simp]: "payload (b\<lparr>manifests := m\<rparr>) = payload b" "payload (b\<lparr>locations := l\<rparr>) = payload b"
  by (simp_all add: payload_def fun_eq_iff)

lemma same_settings_stores [simp]:
  "same_settings a (b\<lparr>manifests := m\<rparr>) = same_settings a b" "same_settings a (b\<lparr>locations := l\<rparr>) = same_settings a b"
  "same_settings a (b\<lparr>redis_data := r\<rparr>) = same_settings a b" "same_settings a (b\<lparr>shm_files := f\<rparr>) = same_settings a b"
  "same_settings a (b\<lparr>spill_objects := s\<rparr>) = same_settings a b"
  by (auto simp: same_settings_def)

lemma persist_frame [simp]:
  "locations (persist_manifest_entry env loc b) = locations b" "payload (persist_manifest_entry env loc b) = payload b"
  "same_settings b (persist_manifest_entry env loc b)"
  by (simp_all add: persist_manifest_entry_def case_prod_beta Let_def)

lemma record_location_frame [simp]:
  "locations (record_location env loc b) = AList.update (loc_key loc) loc (locations b)"
  "payload (record_location env loc b) = payload b" "same_settings b (record_location env loc b)"
  using persist_frame(3) [of "b\<lparr>locations := AList.update (loc_key loc) loc (locations b)\<rparr>" env loc]
  by (simp_all add: record_location_def same_settings_def)

lemma remove_manifest_frame [simp]:
  "locations (remove_manifest_entry env run key b) = locations b" "payload (remove_manifest_entry env run key b) = payload b"
  "same_settings b (remove_manifest_entry env run key b)"
  by (simp_all add: remove_manifest_entry_def case_prod_beta Let_def)

lemma shm_remove_frame [simp]:
  "locations (shm_remove env p b) = locations b" "manifests (shm_remove env p b) = manifests b"
  "same_settings b (shm_remove env p b)"
  by (simp_all add: shm_remove_def)

lemma payload_shm_remove:
  "payload (shm_remove env p b) ti q =
     (if ti = ''shm'' \<and> q = p \<and> \<not> unlink_raises env p then None else payload b ti q)"
  by (simp add: shm_remove_def payload_def delete_conv')

lemma delete_payload_frame [simp]:
  "locations (delete_location_payload env loc b) = locations b" "same_settings b (delete_location_payload env loc b)"
  by (auto simp: delete_location_payload_def case_prod_beta split: option.splits)

lemma delete_payload_other:
  assumes "(ti, Some q) \<noteq> (loc_tier loc, loc_pointer loc)"
  shows "payload (delete_location_payload env loc b) ti q = payload b ti q"
proof (cases "loc_pointer loc")
  case None
  then show ?thesis by (simp add: delete_location_payload_def)
next
  case (Some p)
  then show ?thesis
    using assms fun_cong [OF fun_cong [OF ensure_redis_frame(2) [of env b], of ti], of q]
    by (auto simp: delete_location_payload_def case_prod_beta payload_shm_remove)
      (auto simp: payload_def delete_conv')
qed

lemma delete_key_frame [simp]:
  "locations (delete_key env key b) = AList.delete key (locations b)" "same_settings b (delete_key env key b)"
proof -
  show "locations (delete_key env key b) = AList.delete key (locations b)"
    by (auto simp: delete_key_def map_of_eq_None_iff delete_idem split: option.splits)
  have "same_settings b (remove_manifest_entry env r key (delete_location_payload env loc (b\<lparr>locations := l\<rparr>)))" for r loc l
    by (rule same_settings_trans [OF _ remove_manifest_frame(3)])
      (rule same_settings_trans [OF _ delete_payload_frame(2)], simp)
  then show "same_settings b (delete_key env key b)" by (simp add: delete_key_def split: option.splits)
qed

lemma delete_key_other:
  assumes "\<And>loc. map_of (locations b) key = Some loc \<Longrightarrow> (ti, Some q) \<noteq> (loc_tier loc, loc_pointer loc)"
  shows "payload (delete_key env key b) ti q = payload b ti q"
  using assms by (auto simp: delete_key_def delete_payload_other split: option.splits)

section \<open>What a put does\<close>

abbreviation loc_for :: "'t arrow_ops \<Rightarrow> string \<Rightarrow> string \<Rightarrow> 't \<Rightarrow> string \<Rightarrow> string \<Rightarrow> location" where
  "loc_for ops run key t ti p \<equiv>
     \<lparr>loc_key = key, loc_run_id = run, loc_tier = ti, loc_pointer = Some p, loc_size_bytes = estimated_size ops t\<rparr>"

lemma payload_update_redis:
  "payload (b\<lparr>redis_data := AList.update k (v, e) (redis_data b)\<rparr>) ti q =
     (if ti = ''redis'' \<and> q = k then Some (v, Some e) else payload b ti q)"
  by (simp add: payload_def update_conv')

lemma payload_update_shm:
  "payload (b\<lparr>shm_files := AList.update k (v, m) (shm_files b)\<rparr>) ti q =
     (if ti = ''shm'' \<and> q = k then Some (v, None) else payload b ti q)"
  by (simp add: payload_def update_conv')

lemma payload_update_spill:
  "payload (b\<lparr>spill_objects := AList.update k v (spill_objects b)\<rparr>) ti q =
     (if ti = ''spill'' \<and> q = k then Some (v, None) else payload b ti q)"
  by (simp add: payload_def update_conv')

lemmas payload_updates = payload_update_redis payload_update_shm payload_update_spill

lemma put_redis_True:
  assumes "put_redis ops env run key t b = (b', True)"
  shows "locations b' = AList.update key (loc_for ops run key t ''redis'' (redis_key run key)) (locations b)"
    "payload b' ti q = (if ti = ''redis'' \<and> q = redis_key run key
       then Some (to_ipc ops t, Some (now env + redis_ttl_seconds b)) else payload b ti q)"
    "same_settings b b'" "redis_client b'"
proof -
  obtain b1 up where e: "ensure_redis env b = (b1, up)" by fastforce
  with ensure_redis_frame [where env = env and b = b] ensure_redis_up [of env b]
  have b1: "locations b1 = locations b" "payload b1 = payload b" "redis_data b1 = redis_data b" "same_settings b b1"
    "up \<Longrightarrow> redis_client b1" by simp_all
  let ?k = "redis_key run key"
  let ?b2 = "b1\<lparr>redis_data := AList.update ?k (to_ipc ops t, now env + redis_ttl_seconds b1) (redis_data b1)\<rparr>"
  from assms e have b': "b' = record_location env (loc_for ops run key t ''redis'' ?k) ?b2" and up: up
    by (auto simp: put_redis_def Let_def split: if_splits)
  show "locations b' = AList.update key (loc_for ops run key t ''redis'' ?k) (locations b)" by (simp add: b' b1)
  have ttl: "redis_ttl_seconds b1 = redis_ttl_seconds b" using b1(4) by (simp add: same_settings_def)
  show "payload b' ti q = (if ti = ''redis'' \<and> q = ?k
       then Some (to_ipc ops t, Some (now env + redis_ttl_seconds b)) else payload b ti q)"
    by (simp add: b' payload_updates b1(2) ttl)
  have "same_settings ?b2 b'" unfolding b' by (rule record_location_frame)
  then show "same_settings b b'" "redis_client b'"
    using b1(4) b1(5) [OF up] by (auto simp: same_settings_def)
qed

lemma put_redis_False:
  assumes "put_redis ops env run key t b = (b', False)"
  shows "locations b' = locations b" "payload b' = payload b" "same_settings b b'"
  using assms ensure_redis_frame [where env = env and b = b]
  by (auto simp: put_redis_def Let_def case_prod_beta split: if_splits)

lemma put_redis_frame:
  assumes "put_redis ops env run key t b = (b', r)"
  shows "same_settings b b'" "(ti, q) \<noteq> (''redis'', redis_key run key) \<Longrightarrow> payload b' ti q = payload b ti q"
proof -
  have "same_settings b b' \<and> ((ti, q) \<noteq> (''redis'', redis_key run key) \<longrightarrow> payload b' ti q = payload b ti q)"
  proof (cases r)
    case True
    with assms have "put_redis ops env run key t b = (b', True)" by simp
    from put_redis_True(2,3) [OF this] show ?thesis by simp
  next
    case False
    with assms have "put_redis ops env run key t b = (b', False)" by simp
    from put_redis_False(2,3) [OF this] show ?thesis by simp
  qed
  then show "same_settings b b'" "(ti, q) \<noteq> (''redis'', redis_key run key) \<Longrightarrow> payload b' ti q = payload b ti q" by blast+
qed

lemma shm_write_frame:
  assumes "shm_write ops env run key t b = (b', r)"
  shows "locations b' = locations b" "same_settings b b'"
    "(ti, q) \<noteq> (''shm'', shm_path_for ops (shm_dir b) run key) \<Longrightarrow> payload b' ti q = payload b ti q"
    "r \<Longrightarrow> payload b' ''shm'' (shm_path_for ops (shm_dir b) run key) = Some (to_ipc ops t, None)"
  using assms by (auto simp: shm_write_def Let_def payload_updates split: write_outcome.splits)

lemma put_shm_True:
  assumes "put_shm ops env run key t b = (b', True)"
  shows "locations b' = AList.update key (loc_for ops run key t ''shm'' (shm_path_for ops (shm_dir b) run key)) (locations b)"
    "(ti, q) \<noteq> (''shm'', shm_path_for ops (shm_dir b) run key) \<Longrightarrow> payload b' ti q = payload b ti q"
    "payload b' ''shm'' (shm_path_for ops (shm_dir b) run key) = Some (to_ipc ops t, None)" "same_settings b b'"
proof -
  from assms obtain b1 where w: "shm_write ops env run key t b = (b1, True)"
    and b': "b' = record_location env (loc_for ops run key t ''shm'' (shm_path_for ops (shm_dir b) run key)) b1"
    by (auto simp: put_shm_def split: if_splits prod.splits bool.splits)
  note w = shm_write_frame [OF w]
  show "locations b' = AList.update key (loc_for ops run key t ''shm'' (shm_path_for ops (shm_dir b) run key)) (locations b)"
    "payload b' ''shm'' (shm_path_for ops (shm_dir b) run key) = Some (to_ipc ops t, None)"
    "(ti, q) \<noteq> (''shm'', shm_path_for ops (shm_dir b) run key) \<Longrightarrow> payload b' ti q = payload b ti q"
    using w by (simp_all add: b')
  show "same_settings b b'" unfolding b' by (rule same_settings_trans [OF w(2) record_location_frame(3)])
qed

lemma put_shm_False:
  assumes "put_shm ops env run key t b = (b', False)"
  shows "locations b' = locations b" "same_settings b b'"
    "(ti, q) \<noteq> (''shm'', shm_path_for ops (shm_dir b) run key) \<Longrightarrow> payload b' ti q = payload b ti q"
  using assms by (auto simp: put_shm_def split: if_splits prod.splits bool.splits dest: shm_write_frame)

lemma put_shm_frame:
  assumes "put_shm ops env run key t b = (b', r)"
  shows "same_settings b b'"
    "(ti, q) \<noteq> (''shm'', shm_path_for ops (shm_dir b) run key) \<Longrightarrow> payload b' ti q = payload b ti q"
proof -
  have "same_settings b b' \<and>
    ((ti, q) \<noteq> (''shm'', shm_path_for ops (shm_dir b) run key) \<longrightarrow> payload b' ti q = payload b ti q)"
  proof (cases r)
    case True
    with assms have "put_shm ops env run key t b = (b', True)" by simp
    from put_shm_True(2,4) [OF this] show ?thesis by blast
  next
    case False
    with assms have "put_shm ops env run key t b = (b', False)" by simp
    from put_shm_False(2,3) [OF this] show ?thesis by blast
  qed
  then show "same_settings b b'"
    "(ti, q) \<noteq> (''shm'', shm_path_for ops (shm_dir b) run key) \<Longrightarrow> payload b' ti q = payload b ti q" by blast+
qed

lemma put_spill_frame:
  assumes "put_spill ops env run key t b = (b', r)"
  shows "r = Inr ti \<Longrightarrow> ti = ''spill'' \<and>
      locations b' = AList.update key (loc_for ops run key t ''spill'' (spill_pointer b run key (uuid4_hex env))) (locations b) \<and>
      payload b' ''spill'' (spill_pointer b run key (uuid4_hex env)) = Some (to_parquet ops t, None)"
    "r = Inl e \<Longrightarrow> locations b' = locations b"
    "(tj, q) \<noteq> (''spill'', spill_pointer b run key (uuid4_hex env)) \<Longrightarrow> payload b' tj q = payload b tj q"
    "same_settings b b'"
proof -
  let ?p = "spill_pointer b run key (uuid4_hex env)"
  have "same_settings b (record_location env (loc_for ops run key t ''spill'' ?p)
      (b\<lparr>spill_objects := AList.update ?p (to_parquet ops t) (spill_objects b)\<rparr>))"
    by (rule same_settings_trans [OF _ record_location_frame(3)]) simp
  with assms show "r = Inr ti \<Longrightarrow> ti = ''spill'' \<and>
      locations b' = AList.update key (loc_for ops run key t ''spill'' ?p) (locations b) \<and>
      payload b' ''spill'' ?p = Some (to_parquet ops t, None)"
    "r = Inl e \<Longrightarrow> locations b' = locations b"
    "(tj, q) \<noteq> (''spill'', ?p) \<Longrightarrow> payload b' tj q = payload b tj q"
    "same_settings b b'"
    by (auto simp: put_spill_def Let_def payload_updates split: if_splits)
qed

text \<open>Where a table may go.\<close>

fun destination :: "'t arrow_ops \<Rightarrow> bus_env \<Rightarrow> string \<Rightarrow> string \<Rightarrow> bus \<Rightarrow> string \<Rightarrow> string" where
  "destination ops env run key b ti =
     (if ti = ''redis'' then redis_key run key else if ti = ''shm'' then shm_path_for ops (shm_dir b) run key
      else spill_pointer b run key (uuid4_hex env))"

fun stored_bytes :: "'t arrow_ops \<Rightarrow> bus_env \<Rightarrow> bus \<Rightarrow> 't \<Rightarrow> string \<Rightarrow> string \<times> int option" where
  "stored_bytes ops env b t ti =
     (if ti = ''redis'' then (to_ipc ops t, Some (now env + redis_ttl_seconds b)) else if ti = ''shm'' then (to_ipc ops t, None)
      else (to_parquet ops t, None))"

lemma spill_pointer_settings: "same_settings b b' \<Longrightarrow> spill_pointer b' = spill_pointer b"
  by (auto simp: fun_eq_iff same_settings_def spill_pointer_def)

lemma put_effect:
  assumes "put ops env run key t b = (b', Inr ti)"
  shows "map_of (locations b') = (map_of (locations b))(key \<mapsto> loc_for ops run key t ti (destination ops env run key b ti))"
    "payload b' ti (destination ops env run key b ti) = Some (stored_bytes ops env b t ti)"
    "ti \<in> {''redis'', ''shm'', ''spill''}" "ti = ''redis'' \<longrightarrow> redis_client b'"
proof -
  define b0 where "b0 = delete_key env key b"
  have b0: "map_of (locations b0) = (map_of (locations b))(key := None)" "same_settings b b0"
    by (simp_all add: b0_def delete_conv')
  obtain b1 r1 where r: "put_redis ops env run key t b0 = (b1, r1)" by fastforce
  obtain b2 r2 where m: "put_shm ops env run key t b1 = (b2, r2)" by fastforce
  from assms have put: "(if r1 then (b1, Inr ''redis'') else if r2 then (b2, Inr ''shm'') else put_spill ops env run key t b2) =
      (b', Inr ti)"
    by (simp add: put_def r m flip: b0_def split: if_splits bool.splits)
  have "map_of (locations b') = (map_of (locations b))(key \<mapsto> loc_for ops run key t ti (destination ops env run key b ti)) \<and>
    payload b' ti (destination ops env run key b ti) = Some (stored_bytes ops env b t ti) \<and>
    ti \<in> {''redis'', ''shm'', ''spill''} \<and> (ti = ''redis'' \<longrightarrow> redis_client b')"
  proof (cases r1)
    case True
    with put have "b1 = b'" "ti = ''redis''" by simp_all
    moreover from r True have "put_redis ops env run key t b0 = (b1, True)" by simp
    note put_redis_True [OF this]
    ultimately show ?thesis using b0 by (simp add: update_conv' same_settings_def)
  next
    case False
    with r have "put_redis ops env run key t b0 = (b1, False)" by simp
    note r = put_redis_False [OF this]
    have b1: "map_of (locations b1) = (map_of (locations b))(key := None)" "same_settings b b1"
      using r b0 same_settings_trans by auto
    show ?thesis
    proof (cases r2)
      case True
      with False put have "b2 = b'" "ti = ''shm''" by simp_all
      moreover from m True have "put_shm ops env run key t b1 = (b2, True)" by simp
      note put_shm_True [OF this]
      ultimately show ?thesis using b1 by (simp add: update_conv' same_settings_def)
    next
      case False2: False
      with m have "put_shm ops env run key t b1 = (b2, False)" by simp
      note m = put_shm_False [OF this]
      have b2: "map_of (locations b2) = (map_of (locations b))(key := None)" "same_settings b b2"
        using m b1 same_settings_trans by auto
      from False False2 put have "put_spill ops env run key t b2 = (b', Inr ti)" by simp
      from put_spill_frame(1) [OF this] spill_pointer_settings [OF b2(2)] b2 show ?thesis
        by (simp add: update_conv')
    qed
  qed
  then show "map_of (locations b') = (map_of (locations b))(key \<mapsto> loc_for ops run key t ti (destination ops env run key b ti))"
    "payload b' ti (destination ops env run key b ti) = Some (stored_bytes ops env b t ti)"
    "ti \<in> {''redis'', ''shm'', ''spill''}" "ti = ''redis'' \<longrightarrow> redis_client b'" by blast+
qed

lemma put_settings:
  assumes "put ops env run key t b = (b', r)"
  shows "same_settings b b'"
proof (cases "key = []")
  case True
  with assms show ?thesis by (simp add: put_def)
next
  case False
  obtain b1 r1 where r: "put_redis ops env run key t (delete_key env key b) = (b1, r1)" by fastforce
  obtain b2 r2 where m: "put_shm ops env run key t b1 = (b2, r2)" by fastforce
  have b1: "same_settings b b1" by (rule same_settings_trans [OF delete_key_frame(2) put_redis_frame(1) [OF r]])
  have b2: "same_settings b b2" by (rule same_settings_trans [OF b1 put_shm_frame(1) [OF m]])
  from assms False show ?thesis
    using b1 b2 same_settings_trans [OF b2 put_spill_frame(4) [of ops env run key t b2]]
    by (auto simp: put_def r m split: bool.splits)
qed

lemma put_other:
  assumes "put ops env run key t b = (b', r)" and "q \<noteq> destination ops env run key b ti"
    and "\<And>loc. map_of (locations b) key = Some loc \<Longrightarrow> (ti, Some q) \<noteq> (loc_tier loc, loc_pointer loc)"
  shows "payload b' ti q = payload b ti q"
proof (cases "key = []")
  case True
  with assms(1) show ?thesis by (simp add: put_def)
next
  case False
  define b0 where "b0 = delete_key env key b"
  have b0: "payload b0 ti q = payload b ti q" "same_settings b b0"
    by (simp_all add: b0_def delete_key_other [OF assms(3)])
  obtain b1 r1 where r: "put_redis ops env run key t b0 = (b1, r1)" by fastforce
  obtain b2 r2 where m: "put_shm ops env run key t b1 = (b2, r2)" by fastforce
  have b1: "same_settings b b1" by (rule same_settings_trans [OF b0(2) put_redis_frame(1) [OF r]])
  have p1: "payload b1 ti q = payload b ti q" using put_redis_frame(2) [OF r, of ti q] assms(2) b0(1) by (auto split: if_splits)
  have dir: "shm_dir b1 = shm_dir b" using b1 by (simp add: same_settings_def)
  have b2: "same_settings b b2" by (rule same_settings_trans [OF b1 put_shm_frame(1) [OF m]])
  have p2: "payload b2 ti q = payload b ti q" using put_shm_frame(2) [OF m, of ti q] assms(2) p1 dir by (auto split: if_splits)
  have "payload b' ti q = payload b ti q" if "put_spill ops env run key t b2 = (b', r)"
    using put_spill_frame(3) [OF that, of ti q] assms(2) p2 spill_pointer_settings [OF b2] by fastforce
  with assms(1) False p1 p2 show ?thesis by (auto simp: put_def r m simp flip: b0_def split: bool.splits)
qed

lemma put_failed:
  assumes "put ops env run key t b = (b', Inl e)" and "key \<noteq> []"
  shows "map_of (locations b') = (map_of (locations b))(key := None)"
proof -
  obtain b1 r1 where r: "put_redis ops env run key t (delete_key env key b) = (b1, r1)" by fastforce
  obtain b2 r2 where m: "put_shm ops env run key t b1 = (b2, r2)" by fastforce
  from assms have "\<not> r1" "\<not> r2" and s: "put_spill ops env run key t b2 = (b', Inl e)"
    by (auto simp: put_def r m split: bool.splits)
  then have "put_redis ops env run key t (delete_key env key b) = (b1, False)" "put_shm ops env run key t b1 = (b2, False)"
    using r m by simp_all
  from put_redis_False(1) [OF this(1)] put_shm_False(1) [OF this(2)] put_spill_frame(2) [OF s]
  show ?thesis by (simp add: delete_conv')
qed

section \<open>Reading back\<close>

text \<open>The table that a key gives at time \<open>h\<close> with a connected and faultless Redis.\<close>

definition read_at :: "'t arrow_ops \<Rightarrow> int \<Rightarrow> bus \<Rightarrow> string \<Rightarrow> 't option" where
  "read_at ops h b key =
     (case map_of (locations b) key of
        None \<Rightarrow> None
      | Some loc \<Rightarrow>
          (case loc_pointer loc of
             None \<Rightarrow> None
           | Some p \<Rightarrow>
               (case payload b (loc_tier loc) p of
                  None \<Rightarrow> None
                | Some (bytes, expiry) \<Rightarrow>
                    if (case expiry of None \<Rightarrow> False | Some e \<Rightarrow> e \<le> h) then None
                    else (case (if loc_tier loc = ''spill'' then of_parquet ops bytes else of_ipc ops bytes) of
                        Inl _ \<Rightarrow> None | Inr t \<Rightarrow> Some t))))"

text \<open>Every location has a pointer and one of the three tiers.\<close>

definition proper :: "location \<Rightarrow> bool" where
  "proper loc \<longleftrightarrow> loc_tier loc \<in> {''redis'', ''shm'', ''spill''} \<and> (\<exists>p. loc_pointer loc = Some p \<and> p \<noteq> [])"

lemma get_table_read:
  assumes "redis_client b" and "\<And>k. \<not> redis_raises env GET k"
    and "\<And>loc. map_of (locations b) key = Some loc \<Longrightarrow> proper loc"
  shows "read_at ops (now env) b key = Some t \<longleftrightarrow> get_table ops env key b = (b, Inr t)"
proof (cases "map_of (locations b) key")
  case None
  then show ?thesis by (simp add: get_table_def read_at_def)
next
  case (Some loc)
  with assms(3) obtain p where p: "loc_tier loc \<in> {''redis'', ''shm'', ''spill''}" "loc_pointer loc = Some p" "p \<noteq> []"
    by (auto simp: proper_def)
  from p(1) consider "loc_tier loc = ''redis''" | "loc_tier loc = ''shm''" | "loc_tier loc = ''spill''" by blast
  then show ?thesis
    by cases (use Some p(2,3) assms(1,2) in \<open>simp_all add: get_table_def read_at_def payload_def redis_get_def shm_read_def
        not_le split: option.split sum.split prod.split\<close>)
qed

text \<open>Locations of different keys do not share a payload.\<close>

definition separate :: "bus \<Rightarrow> bool" where
  "separate b \<longleftrightarrow> (\<forall>k k' loc loc'. map_of (locations b) k = Some loc \<longrightarrow> map_of (locations b) k' = Some loc' \<longrightarrow>
     k \<noteq> k' \<longrightarrow> loc_tier loc = loc_tier loc' \<longrightarrow> loc_pointer loc \<noteq> loc_pointer loc')"

text \<open>No other key uses what a put of this key would write to.\<close>

definition unused :: "'t arrow_ops \<Rightarrow> bus_env \<Rightarrow> string \<Rightarrow> string \<Rightarrow> bus \<Rightarrow> bool" where
  "unused ops env run key b \<longleftrightarrow> (\<forall>k loc. map_of (locations b) k = Some loc \<longrightarrow> k \<noteq> key \<longrightarrow>
     loc_pointer loc \<noteq> Some (destination ops env run key b (loc_tier loc)))"

lemma put_read:
  assumes "put ops env run key t b = (b', Inr ti)" and "h < now env + redis_ttl_seconds b"
    and "of_ipc ops (to_ipc ops t) = Inr t" and "of_parquet ops (to_parquet ops t) = Inr t"
  shows "read_at ops h b' key = Some t"
  using put_effect [OF assms(1)] assms(2-4) by (auto simp: read_at_def)

lemma put_read_other:
  assumes "put ops env run key t b = (b', r)" and "separate b" and "unused ops env run key b" and "k \<noteq> key"
  shows "read_at ops h b' k = read_at ops h b k"
proof (cases "key = []")
  case True
  with assms(1) show ?thesis by (simp add: put_def)
next
  case False
  have loc: "map_of (locations b') k = map_of (locations b) k"
  proof (cases r)
    case (Inl e)
    with assms(1) have "put ops env run key t b = (b', Inl e)" by simp
    from put_failed [OF this False] assms(4) show ?thesis by simp
  next
    case (Inr ti)
    with assms(1) have "put ops env run key t b = (b', Inr ti)" by simp
    from put_effect(1) [OF this] assms(4) show ?thesis by simp
  qed
  have "payload b' (loc_tier l) p = payload b (loc_tier l) p"
    if l: "map_of (locations b) k = Some l" "loc_pointer l = Some p" for l p
  proof (rule put_other [OF assms(1)])
    show "p \<noteq> destination ops env run key b (loc_tier l)"
      using assms(3,4) l by (auto simp: unused_def simp del: destination.simps)
    show "(loc_tier l, Some p) \<noteq> (loc_tier loc, loc_pointer loc)" if "map_of (locations b) key = Some loc" for loc
      using assms(2,4) l that unfolding separate_def by (metis prod.inject)
  qed
  with loc show ?thesis by (auto simp: read_at_def split: option.splits)
qed

lemma put_separate:
  assumes "put ops env run key t b = (b', r)" and "separate b" and "unused ops env run key b"
  shows "separate b'"
proof (cases "key = []")
  case True
  with assms show ?thesis by (simp add: put_def)
next
  case False
  show ?thesis
  proof (cases r)
    case (Inl e)
    with assms(1,2) put_failed [OF _ False, of ops env run t b b' e] show ?thesis by (auto simp: separate_def split: if_splits)
  next
    case (Inr ti)
    with put_effect(1) [of ops env run key t b b' ti] assms(1)
    have loc: "map_of (locations b') = (map_of (locations b))(key \<mapsto> loc_for ops run key t ti (destination ops env run key b ti))"
      by blast
    show ?thesis
      using assms(2,3) unfolding separate_def unused_def loc
      by (auto split: if_splits simp del: destination.simps) metis
  qed
qed

lemma put_proper:
  assumes "put ops env run key t b = (b', r)" and "\<And>k loc. map_of (locations b) k = Some loc \<Longrightarrow> proper loc"
    and "map_of (locations b') k = Some loc"
  shows "proper loc"
proof (cases "key = []")
  case True
  with assms show ?thesis by (auto simp: put_def)
next
  case False
  have dest: "destination ops env run key b ti \<noteq> []" for ti
    by (simp add: redis_key_def shm_path_for_def spill_pointer_def)
  show ?thesis
  proof (cases r)
    case (Inl e)
    with assms put_failed [OF _ False, of ops env run t b b' e] show ?thesis by (auto split: if_splits)
  next
    case (Inr ti)
    with assms(1) have p: "put ops env run key t b = (b', Inr ti)" by simp
    show ?thesis
      using assms(2,3) put_effect(1,3) [OF p] dest [of ti] by (auto simp: proper_def simp del: destination.simps split: if_splits)
  qed
qed

section \<open>Cleaning up\<close>

definition faultless :: "bus_env \<Rightarrow> bool" where
  "faultless env \<longleftrightarrow> (\<forall>c k. \<not> redis_raises env c k) \<and> (\<forall>p. \<not> unlink_raises env p \<and> \<not> object_delete_raises env p)"

definition shrinks :: "bus \<Rightarrow> bus \<Rightarrow> bool" where
  "shrinks b b' \<longleftrightarrow> (\<forall>ti q. payload b ti q = None \<longrightarrow> payload b' ti q = None) \<and> same_settings b b'"

lemma shrinks_refl [simp]: "shrinks b b"
  by (simp add: shrinks_def)

lemma shrinks_trans: "shrinks a b \<Longrightarrow> shrinks b c \<Longrightarrow> shrinks a c"
  by (auto simp: shrinks_def intro: same_settings_trans)

lemma shrinks_client: "shrinks b b' \<Longrightarrow> redis_client b \<Longrightarrow> redis_client b'"
  by (simp add: shrinks_def same_settings_def)

lemma shrinks_shm_remove: "shrinks b (shm_remove env p b)"
  by (simp add: shrinks_def payload_shm_remove)

lemma shrinks_remove_manifest: "shrinks b (remove_manifest_entry env run key b)"
  by (simp add: shrinks_def)

lemma shrinks_fold: "(\<And>x b. x \<in> set xs \<Longrightarrow> shrinks b (f x b)) \<Longrightarrow> shrinks b (fold f xs b)"
proof (induction xs arbitrary: b)
  case (Cons x xs)
  have "shrinks b (f x b)" using Cons.prems by simp
  moreover have "shrinks (f x b) (fold f xs (f x b))" using Cons by simp
  ultimately show ?case by (auto intro: shrinks_trans)
qed simp

lemma shrinks_delete_payload: "shrinks b (delete_location_payload env loc b)"
proof -
  have "payload (delete_location_payload env loc b) ti q = None" if "payload b ti q = None" for ti q
  proof (cases "(ti, Some q) = (loc_tier loc, loc_pointer loc)")
    case True
    then show ?thesis
      using that fun_cong [OF fun_cong [OF ensure_redis_frame(2) [of env b], of ti], of q]
      by (auto simp: delete_location_payload_def case_prod_beta payload_shm_remove split: option.splits)
        (auto simp: payload_def delete_conv' split: option.splits)
  next
    case False
    then show ?thesis by (simp add: delete_payload_other that)
  qed
  then show ?thesis by (simp add: shrinks_def)
qed

lemma delete_payload_gone:
  assumes "faultless env" and "redis_client b" and "loc_pointer loc = Some p" and "p \<noteq> []"
  shows "payload (delete_location_payload env loc b) (loc_tier loc) p = None"
  using assms by (auto simp: delete_location_payload_def faultless_def payload_def delete_conv' shm_remove_def)

lemma shrinks_delete_key: "shrinks b (delete_key env key b)"
proof (cases "map_of (locations b) key")
  case None
  then show ?thesis by (simp add: delete_key_def)
next
  case (Some loc)
  let ?b1 = "b\<lparr>locations := AList.delete key (locations b)\<rparr>"
  have "shrinks b ?b1" by (simp add: shrinks_def)
  from shrinks_trans [OF shrinks_trans [OF this shrinks_delete_payload [of ?b1 env loc]] shrinks_remove_manifest]
  show ?thesis by (simp add: delete_key_def Some)
qed

lemma delete_key_gone:
  assumes "faultless env" and "redis_client b" and "map_of (locations b) key = Some loc"
    and "loc_pointer loc = Some p" and "p \<noteq> []"
  shows "payload (delete_key env key b) (loc_tier loc) p = None"
  using assms(3) delete_payload_gone [OF assms(1) _ assms(4,5), of "b\<lparr>locations := l\<rparr>" for l] assms(2)
  by (simp add: delete_key_def)

lemma manifest_key_inj [simp]: "manifest_key r = manifest_key r' \<longleftrightarrow> r = r'"
  by (simp add: manifest_key_def)

lemma remove_manifest_fields:
  assumes "faultless env" and "redis_client b"
  shows "manifest_fields env (remove_manifest_entry env run key b) (manifest_key run') =
    (if run' = run then AList.delete key (manifest_fields env b (manifest_key run)) else manifest_fields env b (manifest_key run'))"
proof -
  have *: "manifest_fields env (remove_manifest_entry env run key b) (manifest_key run) =
      AList.delete key (manifest_fields env b (manifest_key run))"
    using assms
    by (auto simp: remove_manifest_entry_def faultless_def Let_def manifest_fields_def manifest_expiry_def update_conv' delete_conv'
        split: option.splits if_splits)
  have "map_of (manifests (remove_manifest_entry env run key b)) k = map_of (manifests b) k" if "k \<noteq> manifest_key run" for k
    using assms that by (auto simp: remove_manifest_entry_def Let_def update_conv' delete_conv')
  then have "manifest_fields env (remove_manifest_entry env run key b) (manifest_key run') = manifest_fields env b (manifest_key run')"
    if "run' \<noteq> run" using that by (simp add: manifest_fields_def)
  with * show ?thesis by simp
qed

lemma delete_payload_manifests: "redis_client b \<Longrightarrow> manifests (delete_location_payload env loc b) = manifests b"
  by (simp add: delete_location_payload_def split: option.splits)

lemma delete_key_fields:
  assumes "faultless env" and "redis_client b"
  shows "set (manifest_fields env b (manifest_key run)) \<subseteq>
    set (manifest_fields env (delete_key env key b) (manifest_key run)) \<union> {e. fst e = key}"
proof (cases "map_of (locations b) key")
  case None
  then show ?thesis by (auto simp: delete_key_def)
next
  case (Some loc)
  let ?b1 = "delete_location_payload env loc (b\<lparr>locations := AList.delete key (locations b)\<rparr>)"
  have c: "redis_client ?b1" by (rule shrinks_client [OF shrinks_delete_payload]) (simp add: assms(2))
  have m: "manifest_fields env ?b1 k = manifest_fields env b k" for k
    by (simp add: manifest_fields_def delete_payload_manifests assms(2))
  show ?thesis
    using remove_manifest_fields [OF assms(1) c, of "loc_run_id loc" key run] m
    by (auto simp: delete_key_def Some AList.delete_eq)
qed

text \<open>The first pass of a cleanup.\<close>

lemma fold_cleanup_own:
  assumes "faultless env" and "redis_client b" and "fold (cleanup_own env) ks (b, n) = (b', n')" and "distinct ks"
  shows "shrinks b b' \<and> (\<forall>k. map_of (locations b') k = (if k \<in> set ks then None else map_of (locations b) k)) \<and>
    (\<forall>k loc p. k \<in> set ks \<longrightarrow> map_of (locations b) k = Some loc \<longrightarrow> loc_pointer loc = Some p \<longrightarrow> p \<noteq> [] \<longrightarrow>
       payload b' (loc_tier loc) p = None) \<and>
    set (manifest_fields env b (manifest_key run)) \<subseteq> set (manifest_fields env b' (manifest_key run)) \<union> {e. fst e \<in> set ks}"
  using assms(2-4)
proof (induction ks arbitrary: b n)
  case Nil
  then show ?case by simp
next
  case (Cons x ks)
  let ?b = "delete_key env x b"
  have del: "shrinks b ?b" by (rule shrinks_delete_key)
  then have client: "redis_client ?b" by (rule shrinks_client) (rule Cons.prems)
  obtain n1 where "fold (cleanup_own env) ks (?b, n1) = (b', n')" using Cons.prems(2) by (auto simp: cleanup_own_def [of env x])
  note IH = Cons.IH [OF client this]
  have loc: "map_of (locations ?b) = (map_of (locations b))(x := None)" by (simp add: delete_conv')
  have gone: "payload b' (loc_tier l) p = None"
    if "map_of (locations b) x = Some l" "loc_pointer l = Some p" "p \<noteq> []" for l p
    using delete_key_gone [OF assms(1) Cons.prems(1) that] IH Cons.prems(3) by (simp add: shrinks_def)
  show ?case
  proof (intro conjI allI impI)
    show "shrinks b b'" using IH Cons.prems(3) shrinks_trans [OF del] by simp
    show "map_of (locations b') k = (if k \<in> set (x # ks) then None else map_of (locations b) k)" for k
      using IH Cons.prems(3) loc by simp
    show "payload b' (loc_tier l) p = None"
      if "k \<in> set (x # ks)" "map_of (locations b) k = Some l" "loc_pointer l = Some p" "p \<noteq> []" for k l p
      using that gone IH Cons.prems(3) loc by (cases "k = x") auto
    show "set (manifest_fields env b (manifest_key run)) \<subseteq>
        set (manifest_fields env b' (manifest_key run)) \<union> {e. fst e \<in> set (x # ks)}"
      using IH Cons.prems(3) delete_key_fields [OF assms(1) Cons.prems(1), of run x] by auto
  qed
qed

text \<open>The second pass, over the manifest.\<close>

lemma fold_cleanup_listed:
  assumes "faultless env" and "redis_client b" and "fold (cleanup_listed env run ks) ls (b, n) = (b', n')"
  shows "shrinks b b' \<and> locations b' = locations b \<and>
    (\<forall>l p. l \<in> set ls \<longrightarrow> loc_key l \<notin> set ks \<longrightarrow> loc_pointer l = Some p \<longrightarrow> p \<noteq> [] \<longrightarrow> payload b' (loc_tier l) p = None)"
  using assms(2,3)
proof (induction ls arbitrary: b n)
  case Nil
  then show ?case by simp
next
  case (Cons x ls)
  show ?case
  proof (cases "loc_key x \<in> set ks")
    case True
    with Cons show ?thesis by (auto simp: cleanup_listed_def [of env run ks x])
  next
    case False
    let ?b = "remove_manifest_entry env run (loc_key x) (delete_location_payload env x b)"
    have del: "shrinks b ?b" by (rule shrinks_trans [OF shrinks_delete_payload shrinks_remove_manifest])
    then have client: "redis_client ?b" by (rule shrinks_client) (rule Cons.prems)
    obtain n1 where "fold (cleanup_listed env run ks) ls (?b, n1) = (b', n')"
      using Cons.prems(2) False by (auto simp: cleanup_listed_def [of env run ks x])
    note IH = Cons.IH [OF client this]
    have "payload b' (loc_tier x) p = None" if "loc_pointer x = Some p" "p \<noteq> []" for p
      using delete_payload_gone [OF assms(1) Cons.prems(1) that] IH by (simp add: shrinks_def)
    then show ?thesis using IH shrinks_trans [OF del] by auto
  qed
qed

lemma shm_files_fold_remove:
  "faultless env \<Longrightarrow> map_of (shm_files (fold (shm_remove env) ps b)) q = (if q \<in> set ps then None else map_of (shm_files b) q)"
  by (induction ps arbitrary: b) (auto simp: shm_remove_def faultless_def delete_conv')

lemma remove_for_run_shrinks: "shrinks b (shm_remove_for_run env run b)"
  unfolding shm_remove_for_run_def by (rule shrinks_fold) (rule shrinks_shm_remove)

lemma spill_orphans_shrinks: "shrinks b (cleanup_spill_orphans env base run b)"
  unfolding cleanup_spill_orphans_def
  by (rule shrinks_fold) (simp add: shrinks_def payload_def delete_conv')

lemma shm_remove_for_run_locations [simp]: "locations (shm_remove_for_run env run b) = locations b"
proof -
  have "locations (fold (shm_remove env) ps b) = locations b" for ps by (induction ps arbitrary: b) simp_all
  then show ?thesis by (simp add: shm_remove_for_run_def)
qed

lemma spill_orphans_frame [simp]:
  "locations (cleanup_spill_orphans env base run b) = locations b" "shm_files (cleanup_spill_orphans env base run b) = shm_files b"
proof -
  let ?f = "\<lambda>p b. if unlink_raises env p then b else b\<lparr>spill_objects := AList.delete p (spill_objects b)\<rparr>"
  have "locations (fold ?f ps b) = locations b \<and> shm_files (fold ?f ps b) = shm_files b" for ps
    by (induction ps arbitrary: b) simp_all
  then show "locations (cleanup_spill_orphans env base run b) = locations b"
    "shm_files (cleanup_spill_orphans env base run b) = shm_files b"
    by (simp_all add: cleanup_spill_orphans_def)
qed

lemma lower_tiers: "py_lower ''redis'' = ''redis''" "py_lower ''shm'' = ''shm''" "py_lower ''spill'' = ''spill''"
  by code_simp+

lemma manifest_listed:
  assumes "faultless env" and "redis_client b" and "(k, e) \<in> set (manifest_fields env b (manifest_key run))"
    and "py_lower (me_tier e) \<in> {''redis'', ''shm'', ''spill''}"
    and "l = \<lparr>loc_key = k, loc_run_id = run, loc_tier = py_lower (me_tier e), loc_pointer = me_pointer e,
      loc_size_bytes = me_size_bytes e\<rparr>"
  shows "l \<in> set (snd (load_manifest_locations env run b))"
proof -
  have "snd (load_manifest_locations env run b) =
      map (\<lambda>(key, e). \<lparr>loc_key = key, loc_run_id = run, loc_tier = py_lower (me_tier e), loc_pointer = me_pointer e,
          loc_size_bytes = me_size_bytes e\<rparr>)
        (filter (\<lambda>(key, e). py_lower (me_tier e) \<in> {''redis'', ''shm'', ''spill''}) (manifest_fields env b (manifest_key run)))"
    using assms(1,2) by (simp add: load_manifest_locations_def faultless_def Let_def)
  then show ?thesis using assms(3-5) by (auto intro!: rev_image_eqI [of "(k, e)"])
qed

text \<open>The last steps of a cleanup.\<close>

lemma cleanup_tail:
  assumes "faultless env" and "redis_client b"
    and b': "b' = clear_manifest env run (cleanup_spill_orphans env base run (shm_remove_for_run env run b))"
  shows "locations b' = locations b" "shrinks b b'" "manifest_fields env b' (manifest_key run) = []"
    "glob_match (shm_dir b) (shm_prefix @ run @ ''_'') shm_extension q \<Longrightarrow> map_of (shm_files b') q = None"
proof -
  let ?b1 = "shm_remove_for_run env run b" and ?b2 = "cleanup_spill_orphans env base run (shm_remove_for_run env run b)"
  have s: "shrinks b ?b2" by (rule shrinks_trans [OF remove_for_run_shrinks spill_orphans_shrinks])
  have c: "redis_client ?b2" by (rule shrinks_client [OF s assms(2)])
  then have e: "b' = ?b2\<lparr>manifests := AList.delete (manifest_key run) (manifests ?b2)\<rparr>"
    using assms(1) by (simp add: b' clear_manifest_def faultless_def)
  show "locations b' = locations b" "shrinks b b'" using s by (simp_all add: e shrinks_def)
  show "manifest_fields env b' (manifest_key run) = []" by (simp add: e manifest_fields_def delete_conv')
  show "map_of (shm_files b') q = None" if "glob_match (shm_dir b) (shm_prefix @ run @ ''_'') shm_extension q"
  proof (cases "q \<in> set (map fst (shm_files b))")
    case True
    with that show ?thesis by (simp add: e shm_remove_for_run_def shm_files_fold_remove [OF assms(1)])
  next
    case False
    then have "map_of (shm_files b) q = None" by (simp add: map_of_eq_None_iff)
    then show ?thesis by (simp add: e shm_remove_for_run_def shm_files_fold_remove [OF assms(1)])
  qed
qed

section \<open>Properties\<close>

text \<open>C37.  What is put on the bus can be read back.  If a put returns a tier, reading the key yields the very
  table until its time in Redis is up, whatever went wrong on the way to that tier, and every other key
  reads as before, provided that the names it was stored under are its own.\<close>

theorem put_then_get:
  assumes "put ops env run key t b = (b', Inr ti)" and "redis_client b"
    and "\<And>k loc. map_of (locations b) k = Some loc \<Longrightarrow> proper loc"
    and "separate b" and "unused ops env run key b"
    and "of_ipc ops (to_ipc ops t) = Inr t" and "of_parquet ops (to_parquet ops t) = Inr t"
    and "\<And>k. \<not> redis_raises env' GET k" and "now env' < now env + redis_ttl_seconds b"
  shows "get_table ops env' key b' = (b', Inr t) \<and>
    (\<forall>k t'. k \<noteq> key \<longrightarrow> get_table ops env' k b = (b, Inr t') \<longrightarrow> get_table ops env' k b' = (b', Inr t'))"
proof -
  have c: "redis_client b'" using put_settings [OF assms(1)] assms(2) by (simp add: same_settings_def)
  note proper' = put_proper [OF assms(1,3)]
  note reads = get_table_read [OF c assms(8) proper'] and reads0 = get_table_read [OF assms(2,8,3)]
  from put_read [OF assms(1,9,6,7)] put_read_other [OF assms(1,4,5)] show ?thesis
    by (auto simp: reads [symmetric] reads0 [symmetric])
qed

text \<open>A bus with a table in each of two tiers, for the examples: tables are texts of at most ten
  characters for Redis and one hundred for shared memory.\<close>

definition text_ops :: "string arrow_ops" where
  "text_ops = \<lparr>nbytes = (\<lambda>t. int (length t)), to_ipc = id, of_ipc = Inr, to_parquet = id, of_parquet = Inr, digest16 = id\<rparr>"

definition demo_bus :: bus where
  "demo_bus = \<lparr>locations = [], redis_client = True, redis_retry_after = 0, small_threshold_bytes = 10,
     medium_threshold_bytes = 100, redis_ttl_seconds = 3600, manifest_ttl_seconds = 86400, disk_prefix = ''arrow_bus'',
     shm_dir = ''/dev/shm'', shm_usable = True, redis_data = [], manifests = [], shm_files = [], spill_objects = []\<rparr>"

definition demo_bus_env :: "int \<Rightarrow> bus_env" where
  "demo_bus_env time = \<lparr>now = time, monotonic = time, pool_connects = True, redis_raises = (\<lambda>c k. False),
     shm_write_outcome = (\<lambda>p. Written), unlink_raises = (\<lambda>p. False), upload_raises = (\<lambda>p. False),
     object_delete_raises = (\<lambda>p. False), uuid4_hex = ''0''\<rparr>"

theorem put_then_get_witness:
  "\<exists>b'. put text_ops (demo_bus_env 5) ''r1'' ''load'' ''table'' demo_bus = (b', Inr ''redis'') \<and>
     get_table text_ops (demo_bus_env 9) ''load'' b' = (b', Inr ''table'')"
proof -
  have "\<exists>b'. put text_ops (demo_bus_env 5) ''r1'' ''load'' ''table'' demo_bus = (b', Inr ''redis'')"
    by (simp add: put_def put_redis_def delete_key_def demo_bus_def demo_bus_env_def text_ops_def estimated_size_def Let_def)
  then obtain b' where p: "put text_ops (demo_bus_env 5) ''r1'' ''load'' ''table'' demo_bus = (b', Inr ''redis'')" by blast
  from put_then_get [OF p, of "demo_bus_env 9"] have "get_table text_ops (demo_bus_env 9) ''load'' b' = (b', Inr ''table'')"
    by (simp add: demo_bus_def demo_bus_env_def text_ops_def separate_def unused_def)
  with p show ?thesis by blast
qed

text \<open>C38.  A cleanup leaves nothing of its run.  Without faults, the bus forgets exactly the keys of the run, the
  payload of each of them is gone from its store, and so is every payload that the manifest lists for
  keys the process itself does not know; the manifest is gone, and no file named after the run
  is left in shared memory.\<close>

theorem cleanup_run_leaves_nothing:
  assumes "faultless env" and "redis_client b" and "distinct (map fst (locations b))"
    and "cleanup_run env base run b = (b', n)"
  shows "(\<forall>k. map_of (locations b') k =
        (case map_of (locations b) k of Some loc \<Rightarrow> if loc_run_id loc = run then None else Some loc | None \<Rightarrow> None)) \<and>
    (\<forall>k loc p. map_of (locations b) k = Some loc \<longrightarrow> loc_run_id loc = run \<longrightarrow> loc_pointer loc = Some p \<longrightarrow> p \<noteq> [] \<longrightarrow>
       payload b' (loc_tier loc) p = None) \<and>
    (\<forall>k e p. (k, e) \<in> set (manifest_fields env b (manifest_key run)) \<longrightarrow> map_of (locations b) k = None \<longrightarrow>
       me_tier e \<in> {''redis'', ''shm'', ''spill''} \<longrightarrow> me_pointer e = Some p \<longrightarrow> p \<noteq> [] \<longrightarrow> payload b' (me_tier e) p = None) \<and>
    manifest_fields env b' (manifest_key run) = [] \<and>
    (\<forall>q. glob_match (shm_dir b) (shm_prefix @ run @ ''_'') shm_extension q \<longrightarrow> map_of (shm_files b') q = None)"
proof -
  let ?ks = "map fst (filter (\<lambda>(k, loc). loc_run_id loc = run) (locations b))"
  obtain b1 n1 where own: "fold (cleanup_own env) ?ks (b, \<lparr>hot = 0, warm = 0, cold = 0\<rparr>) = (b1, n1)" by fastforce
  have ks: "k \<in> set ?ks \<longleftrightarrow> (\<exists>loc. map_of (locations b) k = Some loc \<and> loc_run_id loc = run)" for k
    using assms(3) by (force simp: map_of_eq_Some_iff)
  have "distinct ?ks" using assms(3) by (simp add: distinct_map_filter)
  note one = fold_cleanup_own [OF assms(1,2) own this, of run]
  then have c1: "redis_client b1" using shrinks_client assms(2) by blast
  define listed where "listed = snd (load_manifest_locations env run b1)"
  have load: "load_manifest_locations env run b1 = (b1, listed)"
    using c1 assms(1) by (simp add: load_manifest_locations_def listed_def faultless_def Let_def)
  obtain b3 where two: "fold (cleanup_listed env run ?ks) listed (b1, n1) = (b3, n)"
    and b': "b' = clear_manifest env run (cleanup_spill_orphans env base run (shm_remove_for_run env run b3))"
    using assms(4) by (auto simp: cleanup_run_def own load Let_def split: prod.splits)
  note two' = fold_cleanup_listed [OF assms(1) c1 two]
  have c3: "redis_client b3" using two' shrinks_client c1 by blast
  note tail = cleanup_tail [OF assms(1) c3 b']
  have s: "shrinks b1 b'" "shrinks b3 b'" using two' tail(2) shrinks_trans by blast+
  show ?thesis
  proof (intro conjI allI impI)
    show "map_of (locations b') k =
        (case map_of (locations b) k of Some loc \<Rightarrow> if loc_run_id loc = run then None else Some loc | None \<Rightarrow> None)" for k
      using one two' tail(1) ks by (auto split: option.splits)
    show "payload b' (loc_tier loc) p = None"
      if "map_of (locations b) k = Some loc" "loc_run_id loc = run" "loc_pointer loc = Some p" "p \<noteq> []" for k loc p
      using one ks that s(1) unfolding shrinks_def by blast
    show "payload b' (me_tier e) p = None"
      if e: "(k, e) \<in> set (manifest_fields env b (manifest_key run))" "map_of (locations b) k = None"
        "me_tier e \<in> {''redis'', ''shm'', ''spill''}" "me_pointer e = Some p" "p \<noteq> []" for k e p
    proof -
      have k: "k \<notin> set ?ks" using ks e(2) by simp
      have low: "py_lower (me_tier e) = me_tier e" using e(3) lower_tiers by auto
      from one have "set (manifest_fields env b (manifest_key run)) \<subseteq>
          set (manifest_fields env b1 (manifest_key run)) \<union> {e. fst e \<in> set ?ks}" by (elim conjE)
      with e(1) have "(k, e) \<in> set (manifest_fields env b1 (manifest_key run)) \<or> fst (k, e) \<in> set ?ks" by blast
      with k have "(k, e) \<in> set (manifest_fields env b1 (manifest_key run))" unfolding fst_conv by blast
      then have "\<lparr>loc_key = k, loc_run_id = run, loc_tier = me_tier e, loc_pointer = Some p, loc_size_bytes = me_size_bytes e\<rparr> \<in> set listed"
        unfolding listed_def by (rule manifest_listed [OF assms(1) c1]) (use e(3,4) low in simp_all)
      from two' this k e(5) have "payload b3 (me_tier e) p = None"
        by (metis location.select_convs(1) location.select_convs(3) location.select_convs(4))
      with s(2) show ?thesis by (simp add: shrinks_def)
    qed
    show "manifest_fields env b' (manifest_key run) = []" by (rule tail(3))
    have "shm_dir b3 = shm_dir b" using one two' by (simp add: shrinks_def same_settings_def)
    with tail(4) show "map_of (shm_files b') q = None"
      if "glob_match (shm_dir b) (shm_prefix @ run @ ''_'') shm_extension q" for q using that by simp
  qed
qed

theorem cleanup_run_leaves_nothing_witness:
  "case put text_ops (demo_bus_env 5) ''r1'' ''load'' ''table'' demo_bus of
     (b, _) \<Rightarrow> (case cleanup_run (demo_bus_env 9) None ''r1'' b of
        (b', n) \<Rightarrow> map_of (locations b') ''load'' = None \<and> payload b' ''redis'' (redis_key ''r1'' ''load'') = None)"
proof -
  let ?b = "fst (put text_ops (demo_bus_env 5) ''r1'' ''load'' ''table'' demo_bus)"
  have loc: "map_of (locations ?b) ''load'' = Some (loc_for text_ops ''r1'' ''load'' ''table'' ''redis'' (redis_key ''r1'' ''load''))"
    and c: "redis_client ?b" and d: "distinct (map fst (locations ?b))"
    by code_simp+
  have f: "faultless (demo_bus_env 9)" by (simp add: faultless_def demo_bus_env_def)
  obtain b' n where r: "cleanup_run (demo_bus_env 9) None ''r1'' ?b = (b', n)" by fastforce
  from cleanup_run_leaves_nothing [OF f c d r] loc
  have "map_of (locations b') ''load'' = None" "payload b' ''redis'' (redis_key ''r1'' ''load'') = None"
    by (simp, force simp: redis_key_def)
  with r show ?thesis by (simp add: case_prod_beta)
qed

text \<open>The key of a Redis entry can be taken apart again, if the run has no colon.\<close>

theorem redis_key_roundtrip:
  assumes "CHR '':'' \<notin> set run"
  shows "parse_redis_data_key (redis_key run key) = Inr (run, key)"
proof -
  have "takeWhile (\<lambda>c. c \<noteq> CHR '':'') (run @ '':'' @ key) = run" using assms by (subst takeWhile_append2) auto
  then show ?thesis by (simp add: parse_redis_data_key_def redis_key_def starts_with_def Let_def)
qed

theorem redis_key_roundtrip_witness: "parse_redis_data_key (redis_key ''7f3a'' ''a:b'') = Inr (''7f3a'', ''a:b'')"
  by (rule redis_key_roundtrip) simp

text \<open>The bus is shared by all runs of a process but keeps one location per step name: a put of a second
  run under the name of a step of the first deletes the table of the first run, and reading the name then
  yields the table of the second.\<close>

theorem put_of_other_run_replaces:
  "let b1 = fst (put text_ops (demo_bus_env 5) ''run1'' ''load'' ''first'' demo_bus);
       b2 = fst (put text_ops (demo_bus_env 6) ''run2'' ''load'' ''second'' b1)
   in snd (get_table text_ops (demo_bus_env 7) ''load'' b1) = Inr ''first'' \<and>
      snd (get_table text_ops (demo_bus_env 7) ''load'' b2) = Inr ''second'' \<and>
      payload b2 ''redis'' (redis_key ''run1'' ''load'') = None"
  by code_simp

text \<open>Eviction of a Redis entry that another run wrote rewrites the location of the step name: afterwards
  the name reads as the other run's table.\<close>

theorem eviction_mixes_runs:
  "let b1 = fst (put text_ops (demo_bus_env 5) ''run1'' ''load'' ''mine'' demo_bus);
       b2 = b1\<lparr>redis_data := redis_data b1 @ [(redis_key ''run2'' ''load'', ''theirs'', 9000)]\<rparr>;
       b3 = fst (maybe_evict_hot_to_warm text_ops (demo_bus_env 6) (Some (100, 95)) [redis_key ''run2'' ''load''] b2)
   in snd (get_table text_ops (demo_bus_env 7) ''load'' b2) = Inr ''mine'' \<and>
      snd (get_table text_ops (demo_bus_env 7) ''load'' b3) = Inr ''theirs''"
  by code_simp

text \<open>If Redis refuses the deletion at the end of an eviction, the new copy is removed but the location keeps
  pointing to it: the table can no longer be read although Redis still has it.\<close>

theorem failed_eviction_loses_table:
  "let b1 = fst (put text_ops (demo_bus_env 5) ''run1'' ''load'' ''table'' demo_bus);
       env = (demo_bus_env 6)\<lparr>redis_raises := (\<lambda>c k. c = DEL)\<rparr>;
       b2 = fst (maybe_evict_hot_to_warm text_ops env (Some (100, 95)) [redis_key ''run1'' ''load''] b1)
   in snd (get_table text_ops (demo_bus_env 7) ''load'' b1) = Inr ''table'' \<and>
      snd (get_table text_ops (demo_bus_env 7) ''load'' b2) = Inl KeyError \<and>
      redis_get (demo_bus_env 7) b2 (redis_key ''run1'' ''load'') = Some ''table''"
  by code_simp

text \<open>The search for orphaned spill files never finds a file that the bus wrote: it looks for names in the base
  directory, but spilled tables are stored two directories below it.\<close>

theorem spill_orphans_never_found:
  "spill_orphans (Some dir) run' (b\<lparr>spill_objects := [(spill_pointer b run key hex, bytes)]\<rparr>) = []"
  by (simp add: spill_orphans_def glob_match_def spill_pointer_def starts_with_def Let_def)

end
