(* ===== verification/RunnerBus.thy ===== *)
theory RunnerBus
  imports Runner ArrowBus
begin

text \<open>
  The runner on the Arrow bus.  The locale \<open>table_bus\<close> is what the runner may expect of a bus for the
  steps of one run; it is proved there that a finished run has left the output of every step on the bus.
  The locale \<open>arrow_laws\<close> collects what the bus needs of Arrow, of the clock and of unique names, and is a
  sublocale of the first with the runner's own call of \<^verbatim>\<open>ArrowDataBus.put\<close>.
\<close>

section \<open>The interface\<close>

locale table_bus =
  fixes bput :: "pyval \<Rightarrow> 't \<Rightarrow> 'b \<Rightarrow> 'b \<times> unit result" and bget :: "pyval \<Rightarrow> 'b \<Rightarrow> 't option"
    and ok :: "'b \<Rightarrow> bool" and names :: "pyval set"
  assumes put_ok: "ok b \<Longrightarrow> n \<in> names \<Longrightarrow> bput n t b = (b', r) \<Longrightarrow> ok b'"
    and get_put: "ok b \<Longrightarrow> n \<in> names \<Longrightarrow> bput n t b = (b', Inr ()) \<Longrightarrow> bget n b' = Some t"
    and get_other: "ok b \<Longrightarrow> n \<in> names \<Longrightarrow> bput n t b = (b', Inr ()) \<Longrightarrow> m \<noteq> n \<Longrightarrow> bget m b' = bget m b"
begin

lemma step_on_bus:
  assumes "execute_single_step env run_id total_steps i step st = (st', Inr res)" and "bus_put env = bput"
  obtains "bput (step_name step) (output_table res) (bus st) = (bus st', Inr ())"
  using assms
  by (auto simp: execute_single_step_def run_and_publish_def Let_def split: prod.splits sum.splits pyexn.splits if_splits)

lemma run_steps_on_bus:
  assumes "run_steps env run_id total_steps i ss st = (st', Inr ())" and "bus_put env = bput"
    and "distinct (map step_name ss)" and "step_name ` set ss \<subseteq> names" and "ok (bus st)"
  shows "\<exists>rs. results st' = results st @ rs \<and> length rs = length ss \<and>
    (\<forall>j < length ss. bget (step_name (ss ! j)) (bus st') = Some (output_table (rs ! j))) \<and>
    (\<forall>m. m \<notin> step_name ` set ss \<longrightarrow> bget m (bus st') = bget m (bus st)) \<and> ok (bus st')"
  using assms
proof (induction ss arbitrary: st i)
  case Nil
  then show ?case by simp
next
  case (Cons step ss)
  obtain st1 r where ex: "execute_single_step env run_id total_steps i step st = (st1, r)" by fastforce
  with Cons.prems(1) obtain res where r: "r = Inr res" by (cases r) auto
  have b: "bput (step_name step) (output_table res) (bus st) = (bus st1, Inr ())"
    by (rule step_on_bus [OF ex [unfolded r] Cons.prems(2)])
  have name: "step_name step \<in> names" using Cons.prems(4) by simp
  have res: "results st1 = results st" by (rule execute_single_step_frame(3) [OF ex])
  obtain st2 where run: "run_steps env run_id total_steps (Suc i) ss st2 = (st', Inr ())"
    and st2: "bus st2 = bus st1" "results st2 = results st @ [res]"
    using Cons.prems(1) res by (auto simp: ex r Let_def split: sum.splits prod.splits)
  have "ok (bus st2)" using put_ok [OF Cons.prems(5) name b] st2(1) by simp
  from Cons.IH [OF run Cons.prems(2) _ _ this] Cons.prems(3,4) obtain rs where rs:
    "results st' = results st @ [res] @ rs" "length rs = length ss"
    "\<forall>j < length ss. bget (step_name (ss ! j)) (bus st') = Some (output_table (rs ! j))"
    "\<forall>m. m \<notin> step_name ` set ss \<longrightarrow> bget m (bus st') = bget m (bus st1)" "ok (bus st')"
    using st2 by auto
  have first: "bget (step_name step) (bus st') = Some (output_table res)"
    using rs(4) Cons.prems(3) get_put [OF Cons.prems(5) name b] by auto
  have "\<forall>j < length (step # ss). bget (step_name ((step # ss) ! j)) (bus st') = Some (output_table ((res # rs) ! j))"
    using first rs(3) by (auto simp: nth_Cons split: nat.splits)
  moreover have "\<forall>m. m \<notin> step_name ` set (step # ss) \<longrightarrow> bget m (bus st') = bget m (bus st)"
    using rs(4) get_other [OF Cons.prems(5) name b] by auto
  ultimately show ?case using rs(1,2,5) by (intro exI [of _ "res # rs"]) simp
qed

end

section \<open>The bus of the runner\<close>

text \<open>The call \<^verbatim>\<open>bus.put(step.name, result.output_table, run_id=run_id)\<close>; \<open>env_at\<close> gives the state of the
  outside world at each call.\<close>

definition runner_put :: "'t arrow_ops \<Rightarrow> (bus \<Rightarrow> bus_env) \<Rightarrow> string \<Rightarrow> pyval \<Rightarrow> 't \<Rightarrow> bus \<Rightarrow> bus \<times> unit result" where
  "runner_put ops env_at run n t b =
     (case n of
        PStr key \<Rightarrow> (case put ops (env_at b) run key t b of (b', r) \<Rightarrow> (b', bindE r (\<lambda>_. Inr ())))
      | _ \<Rightarrow> (b, Inl TypeError))"

definition runner_get :: "'t arrow_ops \<Rightarrow> int \<Rightarrow> pyval \<Rightarrow> bus \<Rightarrow> 't option" where
  "runner_get ops h n b = (case n of PStr key \<Rightarrow> read_at ops h b key | _ \<Rightarrow> None)"

text \<open>No other key has the names that the keys \<open>K\<close> of the run would be stored under.\<close>

definition apart :: "'t arrow_ops \<Rightarrow> string \<Rightarrow> string set \<Rightarrow> bus \<Rightarrow> bool" where
  "apart ops run K b \<longleftrightarrow> (\<forall>k loc k'. map_of (locations b) k = Some loc \<longrightarrow> k' \<in> K \<longrightarrow> k' \<noteq> k \<longrightarrow>
     (loc_tier loc = ''redis'' \<longrightarrow> loc_pointer loc \<noteq> Some (redis_key run k')) \<and>
     (loc_tier loc = ''shm'' \<longrightarrow> loc_pointer loc \<noteq> Some (shm_path_for ops (shm_dir b) run k')))"

definition bus_ready :: "'t arrow_ops \<Rightarrow> string \<Rightarrow> string set \<Rightarrow> int \<Rightarrow> bus \<Rightarrow> bool" where
  "bus_ready ops run K ttl b \<longleftrightarrow> separate b \<and> apart ops run K b \<and> redis_ttl_seconds b = ttl \<and> redis_client b \<and>
     (\<forall>k loc. map_of (locations b) k = Some loc \<longrightarrow> proper loc)"

locale arrow_laws =
  fixes ops :: "'t arrow_ops" and env_at :: "bus \<Rightarrow> bus_env" and run :: string and K :: "string set"
    and ttl :: int and h :: int
  assumes ipc: "of_ipc ops (to_ipc ops t) = Inr t" and parquet: "of_parquet ops (to_parquet ops t) = Inr t"
    and in_time: "h < now (env_at b) + ttl"
    and digests: "inj_on (\<lambda>k. digest16 ops (run @ '':'' @ k)) K"
    and unique: "map_of (locations b) k = Some loc \<Longrightarrow>
      loc_pointer loc \<noteq> Some (spill_pointer b run key (uuid4_hex (env_at b)))"
begin

lemma shm_paths: "k \<in> K \<Longrightarrow> k' \<in> K \<Longrightarrow> shm_path_for ops d run k = shm_path_for ops d run k' \<Longrightarrow> k = k'"
  using digests by (auto simp: shm_path_for_def dest: inj_onD)

lemma ready_unused: "bus_ready ops run K ttl b \<Longrightarrow> key \<in> K \<Longrightarrow> unused ops (env_at b) run key b"
  using unique [of b _ _ key] by (auto simp: bus_ready_def apart_def unused_def)

lemma ready_put:
  assumes "bus_ready ops run K ttl b" and "key \<in> K" and "put ops (env_at b) run key t b = (b', r)"
  shows "bus_ready ops run K ttl b'"
proof (cases "key = []")
  case True
  with assms show ?thesis by (simp add: put_def)
next
  case False
  note set' = put_settings [OF assms(3)]
  have dir: "shm_dir b' = shm_dir b" and ttl: "redis_ttl_seconds b' = redis_ttl_seconds b"
    using set' by (simp_all add: same_settings_def)
  have client: "redis_client b'" using set' assms(1) by (simp add: same_settings_def bus_ready_def)
  have "proper loc" if "map_of (locations b') k = Some loc" for k loc
    using put_proper [OF assms(3) _ that] assms(1) by (auto simp: bus_ready_def)
  moreover have sep: "separate b'" using put_separate [OF assms(3)] ready_unused [OF assms(1,2)] assms(1) by (simp add: bus_ready_def)
  moreover have "apart ops run K b'"
  proof (cases r)
    case (Inl e)
    with assms(3) have "put ops (env_at b) run key t b = (b', Inl e)" by simp
    from put_failed [OF this False] assms(1) dir show ?thesis by (auto simp: bus_ready_def apart_def split: if_splits)
  next
    case (Inr ti)
    with assms(3) have p: "put ops (env_at b) run key t b = (b', Inr ti)" by simp
    show ?thesis
      unfolding apart_def put_effect(1) [OF p] dir
      using assms(1,2) shm_paths by (auto simp: bus_ready_def apart_def redis_key_def split: if_splits)
  qed
  ultimately show ?thesis using ttl client assms(1) by (simp add: bus_ready_def)
qed

end

sublocale arrow_laws \<subseteq> table_bus "runner_put ops env_at run" "runner_get ops h" "bus_ready ops run K ttl" "PStr ` K"
proof unfold_locales
  fix b b' :: bus and n t r
  assume ok: "bus_ready ops run K ttl b" and "n \<in> PStr ` K" and p: "runner_put ops env_at run n t b = (b', r)"
  then obtain key where key: "n = PStr key" "key \<in> K" by auto
  with p obtain r' where "put ops (env_at b) run key t b = (b', r')"
    by (auto simp: runner_put_def split: prod.splits)
  then show "bus_ready ops run K ttl b'" by (rule ready_put [OF ok key(2)])
next
  fix b b' :: bus and n t
  assume ok: "bus_ready ops run K ttl b" and "n \<in> PStr ` K" and p: "runner_put ops env_at run n t b = (b', Inr ())"
  then obtain key where key: "n = PStr key" "key \<in> K" by auto
  with p obtain ti where put: "put ops (env_at b) run key t b = (b', Inr ti)"
    by (auto simp: runner_put_def bindE_eq_Inr_iff split: prod.splits)
  have "h < now (env_at b) + redis_ttl_seconds b" using in_time ok by (simp add: bus_ready_def)
  from put_read [OF put this ipc parquet] show "runner_get ops h n b' = Some t" by (simp add: runner_get_def key)
  show "runner_get ops h m b' = runner_get ops h m b" if "m \<noteq> n" for m
    using put_read_other [OF put _ ready_unused [OF ok key(2)]] ok that
    by (auto simp: runner_get_def key bus_ready_def split: pyval.splits)
qed

context arrow_laws
begin

lemma axioms_bus: "table_bus (runner_put ops env_at run) (runner_get ops h) (bus_ready ops run K ttl) (PStr ` K)"
  by (rule table_bus_axioms)

end

lemma arrow_laws_sub:
  "arrow_laws ops env_at run K ttl h \<Longrightarrow>
     table_bus (runner_put ops env_at run) (runner_get ops h) (bus_ready ops run K ttl) (PStr ` K)"
  by (rule arrow_laws.axioms_bus)

section \<open>Properties\<close>

text \<open>C5.  A run that ends as completed has left the output of every one of its steps on the bus: reading the name
  of a step afterwards, before the Redis entries of the run expire, yields exactly the table that the
  summary of the run has for that step.  Faults of Redis and of shared memory during the run do not matter.\<close>

theorem completed_run_on_bus:
  assumes "arrow_laws ops env_at run K ttl (now env')" and "bus_put env = runner_put ops env_at run"
    and "execute env rec b elapsed run cfg = (st, Inr summary)" and "sum_status summary = PS_COMPLETED"
    and "distinct (map step_name (steps cfg))" and "step_name ` set (steps cfg) \<subseteq> PStr ` K"
    and "bus_ready ops run K ttl b" and "\<And>k. \<not> redis_raises env' GET k"
  shows "length (sum_step_results summary) = length (steps cfg) \<and>
    (\<forall>j key. j < length (steps cfg) \<longrightarrow> step_name (steps cfg ! j) = PStr key \<longrightarrow>
       get_table ops env' key (bus st) = (bus st, Inr (output_table (sum_step_results summary ! j))))"
proof -
  from assms(3,4) obtain consumers where
    run: "run_steps env run (length (steps cfg)) 0 (steps cfg) (start_state rec b consumers) = (st, Inr ())"
    and sum: "sum_step_results summary = results st"
    by (auto simp: execute_def build_summary_def split: sum.splits prod.splits pyexn.splits)
  note laws = arrow_laws_sub [OF assms(1)]
  from table_bus.run_steps_on_bus [OF laws run assms(2,5,6)] assms(7)
  have on_bus: "length (results st) = length (steps cfg)"
    "\<forall>j < length (steps cfg). runner_get ops (now env') (step_name (steps cfg ! j)) (bus st) = Some (output_table (results st ! j))"
    and ready: "bus_ready ops run K ttl (bus st)"
    by (auto simp: start_state_def)
  have "get_table ops env' key (bus st) = (bus st, Inr t) \<longleftrightarrow> read_at ops (now env') (bus st) key = Some t" for key t
    using get_table_read [of "bus st" env' key ops t] ready assms(8) by (auto simp: bus_ready_def)
  with on_bus sum show ?thesis by (auto simp: runner_get_def)
qed

text \<open>A unique name for the examples: longer than anything that is in use.\<close>

definition unique_hex :: "bus \<Rightarrow> string" where
  "unique_hex b = replicate (sum_list (map (\<lambda>(k, loc). case loc_pointer loc of None \<Rightarrow> 0 | Some p \<Rightarrow> length p) (locations b))) (CHR ''0'')"

lemma pointer_length:
  assumes "(k, loc) \<in> set ls" and "loc_pointer loc = Some p"
  shows "length p \<le> sum_list (map (\<lambda>(k, loc). case loc_pointer loc of None \<Rightarrow> 0 | Some p \<Rightarrow> length p) ls)"
  using assms by (induction ls) (auto intro: trans_le_add2)

interpretation text_bus: arrow_laws text_ops "\<lambda>b. (demo_bus_env 5)\<lparr>uuid4_hex := unique_hex b\<rparr>" "''r1''" UNIV 3600 9
proof unfold_locales
  fix b :: bus and k loc key
  assume "map_of (locations b) k = Some loc"
  then have m: "(k, loc) \<in> set (locations b)" by (rule map_of_SomeD)
  show "loc_pointer loc \<noteq> Some (spill_pointer b ''r1'' key (uuid4_hex ((demo_bus_env 5)\<lparr>uuid4_hex := unique_hex b\<rparr>)))"
  proof
    assume "loc_pointer loc = Some (spill_pointer b ''r1'' key (uuid4_hex ((demo_bus_env 5)\<lparr>uuid4_hex := unique_hex b\<rparr>)))"
    from pointer_length [OF m this] show False by (simp add: spill_pointer_def unique_hex_def)
  qed
qed (simp_all add: text_ops_def demo_bus_env_def inj_on_def)

definition bus_runner :: "(string, unit, bus) runner_env" where
  "bus_runner = \<lparr>step_execute = (\<lambda>step reg rec. (rec, Inr
       \<lparr>res_step_name = step_name step, res_step_type = [], output_table = py_str (step_name step), rows_in = 1, rows_out = 1,
        columns_in = [], columns_out = [], duration_ms = 1, res_warnings = [], contract_violations = [], engine = None,
        download_url = None, output_filename = None, output_format = None, output_object_name = None, output_size_bytes = None\<rparr>)),
     bus_put = runner_put text_ops (\<lambda>b. (demo_bus_env 5)\<lparr>uuid4_hex := unique_hex b\<rparr>) ''r1'',
     check_contract = (\<lambda>c t n. Inr []), wants_lineage = False\<rparr>"

theorem completed_run_on_bus_witness:
  "let st = fst (execute bus_runner () demo_bus 1 ''r1'' (sample_config (PStr ''a''))) in
     get_table text_ops (demo_bus_env 9) ''a'' (bus st) = (bus st, Inr ''a'')"
proof -
  let ?run = "execute bus_runner () demo_bus 1 ''r1'' (sample_config (PStr ''a''))"
  have "map_sum (\<lambda>_. ()) (\<lambda>s. (sum_status s, map output_table (sum_step_results s))) (snd ?run) = Inr (PS_COMPLETED, [''a'', ''b''])"
    by code_simp
  then obtain summary where run: "?run = (fst ?run, Inr summary)" and fin: "sum_status summary = PS_COMPLETED"
    and tables: "map output_table (sum_step_results summary) = [''a'', ''b'']"
    by (cases ?run; cases "snd ?run") auto
  have t: "now (demo_bus_env 9) = 9" by (simp add: demo_bus_env_def)
  have laws: "arrow_laws text_ops (\<lambda>b. (demo_bus_env 5)\<lparr>uuid4_hex := unique_hex b\<rparr>) ''r1'' UNIV 3600 (now (demo_bus_env 9))"
    unfolding t by (rule text_bus.arrow_laws_axioms)
  have "get_table text_ops (demo_bus_env 9) ''a'' (bus (fst ?run)) = (bus (fst ?run), Inr (output_table (sum_step_results summary ! 0)))"
    by (rule completed_run_on_bus [OF laws _ run fin, THEN conjunct2, rule_format])
      (auto simp: bus_runner_def sample_config_def bus_ready_def separate_def apart_def demo_bus_def demo_bus_env_def image_def)
  moreover have "output_table (sum_step_results summary ! 0) = ''a''" using tables by (cases "sum_step_results summary") auto
  ultimately show ?thesis by simp
qed

end
