(* ===== verification/ErrorText.thy ===== *)
theory ErrorText
  imports PyBase
begin

text \<open>
  \<^verbatim>\<open>_sanitize_error_message\<close> of \<^verbatim>\<open>backend/tasks/pipeline_tasks.py\<close>: file system paths and values of secrets are
  replaced in the text of an error before it is stored, published or cached.  The two patterns are
  matchers that give the length of the match at the start of a text.
\<close>

section \<open>Definitions\<close>

definition seg_char :: "char \<Rightarrow> bool" where
  "seg_char c \<longleftrightarrow> c \<noteq> CHR ''/'' \<and> \<not> is_space c \<and> c \<noteq> CHR 0x22 \<and> c \<noteq> CHR 0x27"

text \<open>In the raw text of the pattern \<^verbatim>\<open>\\s\<close> inside the brackets is a backslash and the letter s.\<close>

definition drive_char :: "char \<Rightarrow> bool" where
  "drive_char c \<longleftrightarrow> c \<noteq> CHR 0x5C \<and> c \<noteq> CHR ''s'' \<and> c \<noteq> CHR 0x22 \<and> c \<noteq> CHR 0x27"

function slash_path :: "string \<Rightarrow> nat" where
  "slash_path s =
     (case s of
        [] \<Rightarrow> 0
      | c # t \<Rightarrow>
          let n = length (takeWhile seg_char t) in
          if c = CHR ''/'' \<and> n > 0 then Suc n + slash_path (drop n t) else 0)"
  by pat_completeness auto
termination
  by (relation "measure length") auto

declare slash_path.simps [simp del]

definition backslashes :: string where
  "backslashes = [CHR 0x5C, CHR 0x5C]"

definition share_path :: "string \<Rightarrow> nat" where
  "share_path s =
     (let n = length (takeWhile drive_char (drop 2 s)) in
      if starts_with s backslashes \<and> n > 0 then 2 + n else 0)"

definition drive_path :: "string \<Rightarrow> nat" where
  "drive_path s =
     (case s of
        c # d # t \<Rightarrow> if is_ascii_letter c \<and> d = CHR '':'' \<and> starts_with t backslashes
          then 4 + length (takeWhile drive_char (drop 2 t)) else 0
      | _ \<Rightarrow> 0)"

definition path_match :: "string \<Rightarrow> nat" where
  "path_match s =
     (if slash_path s > 0 then slash_path s else if share_path s > 0 then share_path s else drive_path s)"

definition path_mark :: string where
  "path_mark = ''[path]''"

function sub_paths :: "string \<Rightarrow> string" where
  "sub_paths s =
     (case s of
        [] \<Rightarrow> []
      | c # t \<Rightarrow> if path_match s > 0 then path_mark @ sub_paths (drop (path_match s) s) else c # sub_paths t)"
  by pat_completeness auto
termination
  by (relation "measure length") auto

declare sub_paths.simps [simp del]

definition secret_words :: "string list" where
  "secret_words = [''apikey'', ''api_key'', ''api-key'', ''bearer'', ''token'', ''secret'', ''password'', ''passwd'', ''pwd'']"

definition at_boundary :: "string \<Rightarrow> bool" where
  "at_boundary s \<longleftrightarrow> (case s of [] \<Rightarrow> True | c # t \<Rightarrow> \<not> is_word c)"

text \<open>The rest of a match after the word: blanks, a colon or an equals sign, blanks, and a value.\<close>

definition assigned_value :: "string \<Rightarrow> nat option" where
  "assigned_value s =
     (case dropWhile is_space s of
        [] \<Rightarrow> None
      | c # t \<Rightarrow>
          (let v = takeWhile (\<lambda>x. \<not> is_space x) (dropWhile is_space t) in
           if c \<in> {CHR '':'', CHR ''=''} \<and> v \<noteq> []
           then Some (length (takeWhile is_space s) + 1 + length (takeWhile is_space t) + length v) else None))"

definition secret_match :: "string \<Rightarrow> (string \<times> nat) option" where
  "secret_match s =
     (case find (\<lambda>w. py_lower (take (length w) s) = w \<and> at_boundary (drop (length w) s)) secret_words of
        None \<Rightarrow> None
      | Some w \<Rightarrow> (case assigned_value (drop (length w) s) of
            None \<Rightarrow> None | Some n \<Rightarrow> Some (take (length w) s, length w + n)))"

text \<open>\<open>inside\<close> tells whether the character before is one of a word.\<close>

function sub_secrets :: "bool \<Rightarrow> string \<Rightarrow> string" where
  "sub_secrets inside s =
     (case s of
        [] \<Rightarrow> []
      | c # t \<Rightarrow>
          (case if inside then None else secret_match s of
             Some (w, n) \<Rightarrow> if n = 0 then c # sub_secrets (is_word c) t
               else w @ ''=[redacted]'' @ sub_secrets (is_word (s ! (n - 1))) (drop n s)
           | None \<Rightarrow> c # sub_secrets (is_word c) t))"
  by pat_completeness auto
termination
  by (relation "measure (\<lambda>(i, s). length s)") auto

declare sub_secrets.simps [simp del]

definition max_error_chars :: nat where
  "max_error_chars = 2000"

definition unknown_failure :: string where
  "unknown_failure = ''Pipeline execution failed. Review the run configuration or contact an administrator with the run ID.''"

definition sanitize_error_text :: "string \<Rightarrow> string" where
  "sanitize_error_text text =
     (let t = take max_error_chars (py_strip (sub_secrets False (sub_paths text)))
      in if t = [] then unknown_failure else t)"

definition sanitize_error_message :: "string option \<Rightarrow> string option" where
  "sanitize_error_message error = map_option sanitize_error_text error"

section \<open>Paths\<close>

text \<open>A slash is followed by nothing of a path but the mark.\<close>

definition slash_ok :: "string \<Rightarrow> bool" where
  "slash_ok v \<longleftrightarrow> (case v of [] \<Rightarrow> True | c # t \<Rightarrow> \<not> seg_char c) \<or> starts_with v path_mark"

definition paths_hidden :: "string \<Rightarrow> bool" where
  "paths_hidden s \<longleftrightarrow> (\<forall>u v. s = u @ CHR ''/'' # v \<longrightarrow> slash_ok v)"

lemma paths_hidden_Cons: "paths_hidden (c # s) \<longleftrightarrow> (c = CHR ''/'' \<longrightarrow> slash_ok s) \<and> paths_hidden s"
proof
  assume h: "paths_hidden (c # s)"
  then show "(c = CHR ''/'' \<longrightarrow> slash_ok s) \<and> paths_hidden s"
    unfolding paths_hidden_def by (metis append_Cons append_Nil)
next
  assume h: "(c = CHR ''/'' \<longrightarrow> slash_ok s) \<and> paths_hidden s"
  show "paths_hidden (c # s)" unfolding paths_hidden_def
  proof (intro allI impI)
    fix u v
    assume "c # s = u @ CHR ''/'' # v"
    then show "slash_ok v" using h by (cases u) (auto simp: paths_hidden_def)
  qed
qed

lemma paths_hidden_mark: "paths_hidden s \<Longrightarrow> paths_hidden (path_mark @ s)"
  by (simp add: path_mark_def paths_hidden_Cons)

lemma slash_kept: "path_match (CHR ''/'' # t) = 0 \<Longrightarrow> (case t of [] \<Rightarrow> True | c # t' \<Rightarrow> \<not> seg_char c)"
proof -
  assume "path_match (CHR ''/'' # t) = 0"
  then have "slash_path (CHR ''/'' # t) = 0" by (simp add: path_match_def split: if_splits)
  then have "takeWhile seg_char t = []" by (subst (asm) slash_path.simps) (auto simp: Let_def split: if_splits)
  then show ?thesis by (cases t) (auto split: if_splits)
qed

lemma sub_paths_head: "slash_ok (sub_paths t)" if "case t of [] \<Rightarrow> True | c # t' \<Rightarrow> \<not> seg_char c"
proof (cases t)
  case (Cons c t')
  then show ?thesis using that
    by (subst sub_paths.simps) (auto simp: slash_ok_def)
qed (simp add: sub_paths.simps slash_ok_def)

lemma paths_hidden_sub: "paths_hidden (sub_paths s)"
proof (induction s rule: sub_paths.induct)
  case (1 s)
  show ?case
  proof (cases s)
    case Nil
    then show ?thesis by (simp add: sub_paths.simps paths_hidden_def)
  next
    case (Cons c t)
    show ?thesis
    proof (cases "path_match s > 0")
      case True
      then show ?thesis using 1 Cons by (subst sub_paths.simps) (simp add: paths_hidden_mark)
    next
      case False
      have "slash_ok (sub_paths t)" if "c = CHR ''/''"
        using False Cons that by (intro sub_paths_head slash_kept) simp
      then show ?thesis using False 1 Cons by (subst sub_paths.simps) (simp add: paths_hidden_Cons)
    qed
  qed
qed

section \<open>Properties\<close>

text \<open>A stored error text is never empty and at most two thousand characters long, and no path with slashes survives in
  the text that it is cut from: a slash is only followed by the end, a blank, a quote, another slash or the mark.\<close>

theorem error_text_bounded:
  "sanitize_error_text msg \<noteq> [] \<and> length (sanitize_error_text msg) \<le> 2000 \<and> paths_hidden (sub_paths msg)"
  using paths_hidden_sub [of msg]
  by (simp add: sanitize_error_text_def Let_def max_error_chars_def unknown_failure_def)

text \<open>Some secrets and paths do survive: a bearer token as an authorization header has it, the token after a scheme, and
  Windows paths, whose part of the pattern asks for doubled backslashes and excludes the letter s.\<close>

theorem error_text_leaks:
  "sanitize_error_text ''Bearer abc'' = ''Bearer abc'' \<and>
   sanitize_error_text ''token: Bearer x'' = ''token=[redacted] x'' \<and>
   sub_paths [CHR ''C'', CHR '':'', CHR 0x5C, CHR ''U''] = [CHR ''C'', CHR '':'', CHR 0x5C, CHR ''U''] \<and>
   sub_paths [CHR 0x5C, CHR 0x5C, CHR ''s'', CHR ''r'', CHR ''v''] = [CHR 0x5C, CHR 0x5C, CHR ''s'', CHR ''r'', CHR ''v'']"
  by (intro conjI) code_simp+

end
