(* ===== verification/ProgressStream.thy ===== *)
theory ProgressStream
  imports Runner ErrorText RunLifecycle
begin

text \<open>
  The progress of a run on its way to a browser: the payloads that the task publishes and caches
  (\<^verbatim>\<open>backend/tasks/pipeline_tasks.py\<close>), their signatures (\<^verbatim>\<open>backend/utils/sse_security.py\<close>), and the streams of
  server-sent events that read them (\<^verbatim>\<open>backend/api/sse.py\<close>).  JSON and the keyed hash are parameters.  A
  channel is the sequence of its messages; a reader is given what it finds each time it looks.
  Times are milliseconds.
\<close>

section \<open>Signatures\<close>

record sse_env =
  json_dumps :: "pyval \<Rightarrow> string"
  json_dumps_sorted :: "pyval \<Rightarrow> string"
  json_parse :: "string \<Rightarrow> pyval result"
  hmac_hex :: "string \<Rightarrow> string"
  test_environment :: bool

definition sse_signature_field :: string where
  "sse_signature_field = ''__sig''"

definition unsigned :: "pydict \<Rightarrow> pydict" where
  "unsigned p = filter (\<lambda>e. \<not> py_eq (fst e) (PStr sse_signature_field)) p"

definition signature_of :: "sse_env \<Rightarrow> pydict \<Rightarrow> string" where
  "signature_of env p = hmac_hex env (json_dumps_sorted env (PDict (unsigned p)))"

definition sign_sse_payload :: "sse_env \<Rightarrow> pydict \<Rightarrow> pydict" where
  "sign_sse_payload env p = dict_set p (PStr sse_signature_field) (PStr (signature_of env p))"

definition verify_sse_payload :: "sse_env \<Rightarrow> pydict \<Rightarrow> bool" where
  "verify_sse_payload env p =
     (case get_none p sse_signature_field of
        PStr signature \<Rightarrow> if signature = [] then test_environment env else signature = signature_of env p
      | _ \<Rightarrow> test_environment env)"

definition public_sse_payload :: "pydict \<Rightarrow> pydict" where
  "public_sse_payload p = dict_pop p (PStr sse_signature_field)"

section \<open>Publishing\<close>

text \<open>The messages on the channel of the run, and the last payload in the cache.\<close>

record progress_channel =
  published :: "string list"
  last_payload :: "string option"

text \<open>Whether the two servers answer.\<close>

record redis_up =
  pubsub_up :: bool
  cache_up :: bool

definition cache_progress_payload :: "sse_env \<Rightarrow> redis_up \<Rightarrow> pydict \<Rightarrow> progress_channel \<Rightarrow> progress_channel" where
  "cache_progress_payload env up p ch =
     (if cache_up up then ch\<lparr>last_payload := Some (json_dumps env (PDict (sign_sse_payload env p)))\<rparr> else ch)"

definition publish_progress_payload :: "sse_env \<Rightarrow> redis_up \<Rightarrow> pydict \<Rightarrow> progress_channel \<Rightarrow> progress_channel" where
  "publish_progress_payload env up p ch =
     (let signed = sign_sse_payload env p;
          ch1 = (if pubsub_up up then ch\<lparr>published := published ch @ [json_dumps env (PDict signed)]\<rparr> else ch)
      in cache_progress_payload env up signed ch1)"

definition terminal_payload :: "string \<Rightarrow> string \<Rightarrow> string \<Rightarrow> string \<Rightarrow> pydict" where
  "terminal_payload run_id event_type status error_msg =
     [(PStr ''run_id'', PStr run_id), (PStr ''event_type'', PStr event_type), (PStr ''error_message'', PStr error_msg),
      (PStr ''status'', PStr status)]"

text \<open>A terminal event is cached only if it could be published.\<close>

definition publish_terminal_event ::
    "sse_env \<Rightarrow> redis_up \<Rightarrow> string \<Rightarrow> string \<Rightarrow> string \<Rightarrow> string \<Rightarrow> progress_channel \<Rightarrow> progress_channel" where
  "publish_terminal_event env up run_id event_type status error_msg ch =
     (if pubsub_up up then publish_progress_payload env up (terminal_payload run_id event_type status error_msg) ch else ch)"

fun step_status_value :: "step_status \<Rightarrow> string" where
  "step_status_value SS_PENDING = ''PENDING''"
| "step_status_value SS_RUNNING = ''RUNNING''"
| "step_status_value SS_COMPLETED = ''COMPLETED''"
| "step_status_value SS_FAILED = ''FAILED''"
| "step_status_value SS_SKIPPED = ''SKIPPED''"

definition opt_int :: "int option \<Rightarrow> pyval" where
  "opt_int i = (case i of None \<Rightarrow> PNone | Some n \<Rightarrow> PInt n)"

definition opt_str :: "string option \<Rightarrow> pyval" where
  "opt_str s = (case s of None \<Rightarrow> PNone | Some t \<Rightarrow> PStr t)"

definition step_payload :: "step_progress_event \<Rightarrow> pydict" where
  "step_payload ev =
     [(PStr ''run_id'', PStr (ev_run_id ev)), (PStr ''step_name'', ev_step_name ev), (PStr ''step_index'', PInt (int (ev_step_index ev))),
      (PStr ''total_steps'', PInt (int (ev_total_steps ev))), (PStr ''status'', PStr (step_status_value (ev_status ev))),
      (PStr ''rows_in'', opt_int (ev_rows_in ev)), (PStr ''rows_out'', opt_int (ev_rows_out ev)),
      (PStr ''duration_ms'', opt_int (ev_duration_ms ev)), (PStr ''error_message'', opt_str (sanitize_error_message (ev_error_message ev))),
      (PStr ''contract_violations'', case ev_contract_violations ev of None \<Rightarrow> PNone | Some vs \<Rightarrow> PList vs)]"

text \<open>The calls of the callback that the task hands to the runner.\<close>

definition publish_steps :: "sse_env \<Rightarrow> redis_up \<Rightarrow> step_progress_event list \<Rightarrow> progress_channel \<Rightarrow> progress_channel" where
  "publish_steps env up evs ch = fold (\<lambda>ev. publish_progress_payload env up (step_payload ev)) evs ch"

section \<open>Reading\<close>

definition terminal_statuses :: "string list" where
  "terminal_statuses = map status_value [HEALED, COMPLETED, FAILED, CANCELLED, TIMEOUT]"

definition terminal_event_types :: "string list" where
  "terminal_event_types = [''pipeline_completed'', ''pipeline_failed'', ''pipeline_cancelled'', ''stream_end'']"

text \<open>A payload that was read as text: only an object with a valid signature counts.\<close>

definition verified :: "sse_env \<Rightarrow> string \<Rightarrow> pydict option" where
  "verified env s =
     (case json_parse env s of
        Inr (PDict d) \<Rightarrow> if verify_sse_payload env d then Some d else None
      | _ \<Rightarrow> None)"

definition get_cached_event :: "sse_env \<Rightarrow> string option result \<Rightarrow> pydict option" where
  "get_cached_event env answer = (case answer of Inr (Some s) \<Rightarrow> verified env s | _ \<Rightarrow> None)"

definition parse_message_payload :: "sse_env \<Rightarrow> pyval \<Rightarrow> pydict option" where
  "parse_message_payload env v = (case v of PDict d \<Rightarrow> Some d | PStr s \<Rightarrow> verified env s | _ \<Rightarrow> None)"

definition status_to_event :: "(string \<times> string) list" where
  "status_to_event =
     [(''HEALED'', ''pipeline_completed''), (''RUNNING'', ''step_started''), (''COMPLETED'', ''step_completed''),
      (''FAILED'', ''step_failed''), (''CANCELLED'', ''pipeline_cancelled''), (''TIMEOUT'', ''pipeline_failed'')]"

definition extract_event_type :: "pydict \<Rightarrow> string" where
  "extract_event_type p =
     (case get_none p ''event_type'' of
        PStr (c # t) \<Rightarrow> c # t
      | _ \<Rightarrow>
          (case get_none p ''status'' of
             PStr s \<Rightarrow> (case map_of status_to_event s of None \<Rightarrow> ''progress'' | Some t \<Rightarrow> t)
           | _ \<Rightarrow> ''progress''))"

definition is_terminal_event :: "string \<Rightarrow> pydict \<Rightarrow> bool" where
  "is_terminal_event event_type p \<longleftrightarrow> event_type \<in> set terminal_event_types \<or>
     (case get_none p ''status'' of PStr s \<Rightarrow> s \<in> set terminal_statuses | _ \<Rightarrow> False)"

definition terminal_event_type :: "run_status \<Rightarrow> string" where
  "terminal_event_type s =
     (if s \<in> {COMPLETED, HEALED} then ''pipeline_completed'' else if s = CANCELLED then ''pipeline_cancelled'' else ''pipeline_failed'')"

text \<open>What is sent: a heartbeat or an event.\<close>

datatype chunk = Heartbeat | Event string pydict

definition format_sse_event :: "sse_env \<Rightarrow> chunk \<Rightarrow> string" where
  "format_sse_event env c =
     (case c of
        Heartbeat \<Rightarrow> '': heartbeat'' @ newline @ newline
      | Event t p \<Rightarrow> ''event: '' @ t @ newline @ ''data: '' @ json_dumps env (PDict (public_sse_payload p)) @ newline @ newline)"

definition stream_end :: "string \<Rightarrow> pyval \<Rightarrow> chunk" where
  "stream_end run_id status =
     Event ''stream_end'' [(PStr ''run_id'', PStr run_id), (PStr ''event_type'', PStr ''stream_end''), (PStr ''status'', status)]"

definition status_event :: "string \<Rightarrow> string \<Rightarrow> chunk" where
  "status_event run_id status =
     Event ''pipeline_status'' [(PStr ''run_id'', PStr run_id), (PStr ''event_type'', PStr ''pipeline_status''), (PStr ''status'', PStr status)]"

definition heartbeat_interval :: int where
  "heartbeat_interval = 15000"

text \<open>What the loop finds when it looks: the client is gone, nothing has arrived by the given time, or a message has.\<close>

datatype look = Gone | Nothing int | Message int pyval

text \<open>The loop over what it finds; the flag tells whether it has returned.\<close>

fun live_loop :: "sse_env \<Rightarrow> string \<Rightarrow> int \<Rightarrow> look list \<Rightarrow> chunk list \<times> bool" where
  "live_loop env run_id last_emit [] = ([], False)"
| "live_loop env run_id last_emit (Gone # rest) = ([], True)"
| "live_loop env run_id last_emit (Nothing now # rest) =
     (if now - last_emit \<ge> heartbeat_interval
      then (case live_loop env run_id now rest of (cs, ended) \<Rightarrow> (Heartbeat # cs, ended))
      else live_loop env run_id last_emit rest)"
| "live_loop env run_id last_emit (Message now v # rest) =
     (case parse_message_payload env v of
        None \<Rightarrow> live_loop env run_id last_emit rest
      | Some p \<Rightarrow>
          let t = extract_event_type p in
          if is_terminal_event t p then ([Event t p, stream_end run_id (get_none p ''status'')], True)
          else (case live_loop env run_id now rest of (cs, ended) \<Rightarrow> (Event t p # cs, ended)))"

definition live_event_generator ::
    "sse_env \<Rightarrow> string \<Rightarrow> string \<Rightarrow> int \<Rightarrow> string option result \<Rightarrow> look list \<Rightarrow> chunk list \<times> bool" where
  "live_event_generator env run_id initial_status now cached looks =
     (case get_cached_event env cached of
        Some p \<Rightarrow>
          let t = extract_event_type p in
          if is_terminal_event t p then ([Event t p, stream_end run_id (get_none p ''status'')], True)
          else (case live_loop env run_id now looks of (cs, ended) \<Rightarrow> (Event t p # cs, ended))
      | None \<Rightarrow> (case live_loop env run_id now looks of (cs, ended) \<Rightarrow> (status_event run_id initial_status # cs, ended)))"

definition completed_event_generator :: "run_row \<Rightarrow> chunk list" where
  "completed_event_generator r =
     (let t = terminal_event_type (rw_status r); status = PStr (status_value (rw_status r)) in
      [Event t [(PStr ''run_id'', PStr (rw_id r)), (PStr ''event_type'', PStr t), (PStr ''status'', status),
                (PStr ''error_message'', opt_str (rw_error_message r))],
       stream_end (rw_id r) status])"

section \<open>Who may read\<close>

datatype permission_level = OWNER | RUNNER | VIEWER

text \<open>The role and id of the user, the owner of the run, and the permission granted for the pipeline.\<close>

definition authorize_run_access :: "string \<Rightarrow> string \<Rightarrow> string option \<Rightarrow> permission_level option \<Rightarrow> bool" where
  "authorize_run_access role user owner grant =
     (if role = ''admin'' then True
      else case owner of
          None \<Rightarrow> False
        | Some o' \<Rightarrow> if o' = user then True else (case grant of None \<Rightarrow> False | Some l \<Rightarrow> l \<in> {OWNER, RUNNER, VIEWER}))"

datatype stream_answer = RunNotFound | NotAuthorized | Stream "chunk list" bool

definition stream_pipeline_progress ::
    "sse_env \<Rightarrow> string \<Rightarrow> string \<Rightarrow> (run_row \<times> string option \<times> permission_level option) option \<Rightarrow> int \<Rightarrow>
     string option result \<Rightarrow> look list \<Rightarrow> stream_answer" where
  "stream_pipeline_progress env role user found now cached looks =
     (case found of
        None \<Rightarrow> RunNotFound
      | Some (r, owner, grant) \<Rightarrow>
          if \<not> authorize_run_access role user owner grant then NotAuthorized
          else if status_value (rw_status r) \<in> set terminal_statuses then Stream (completed_event_generator r) True
          else (case live_event_generator env (rw_id r) (status_value (rw_status r)) now cached looks of (cs, ended) \<Rightarrow> Stream cs ended))"

section \<open>Signed payloads\<close>

lemma unsigned_set [simp]: "unsigned (dict_set p (PStr sse_signature_field) v) = unsigned p"
  by (induction p) (auto simp: unsigned_def)

lemma dict_set_twice [simp]: "dict_set (dict_set p (PStr k) v) (PStr k) w = dict_set p (PStr k) w"
  by (induction p) auto

lemma dict_pop_set [simp]: "dict_pop (dict_set p (PStr k) v) (PStr k) = dict_pop p (PStr k)"
  by (induction p) auto

lemma get_none_set_same [simp]: "get_none (dict_set p (PStr k) v) k = v"
  by (simp add: get_none_def get_or_def)

lemma get_none_set_other [simp]: "k \<noteq> k' \<Longrightarrow> get_none (dict_set p (PStr k) v) k' = get_none p k'"
  by (simp add: get_none_def get_or_def)

lemma signature_of_set [simp]: "signature_of env (dict_set p (PStr sse_signature_field) v) = signature_of env p"
  by (simp add: signature_of_def)

lemma sign_sign [simp]: "sign_sse_payload env (sign_sse_payload env p) = sign_sse_payload env p"
  by (simp add: sign_sse_payload_def)

lemma public_sign [simp]: "public_sse_payload (sign_sse_payload env p) = public_sse_payload p"
  by (simp add: sign_sse_payload_def public_sse_payload_def)

lemma verify_sign: "signature_of env p \<noteq> [] \<Longrightarrow> verify_sse_payload env (sign_sse_payload env p)"
  by (simp add: sign_sse_payload_def verify_sse_payload_def)

lemma field_names: "sse_signature_field \<noteq> ''event_type''" "sse_signature_field \<noteq> ''status''"
  by (simp_all add: sse_signature_field_def)

lemma get_none_sign:
  "get_none (sign_sse_payload env p) ''event_type'' = get_none p ''event_type''" "get_none (sign_sse_payload env p) ''status'' = get_none p ''status''"
  by (simp_all add: sign_sse_payload_def field_names)

lemma extract_sign [simp]: "extract_event_type (sign_sse_payload env p) = extract_event_type p"
  unfolding extract_event_type_def get_none_sign ..

lemma terminal_sign [simp]: "is_terminal_event t (sign_sse_payload env p) \<longleftrightarrow> is_terminal_event t p"
  unfolding is_terminal_event_def get_none_sign ..

section \<open>Streams\<close>

text \<open>The payloads that a connection gets before its client is gone.\<close>

definition received :: "sse_env \<Rightarrow> look list \<Rightarrow> pydict list" where
  "received env looks = List.map_filter (\<lambda>l. case l of Message now v \<Rightarrow> parse_message_payload env v | _ \<Rightarrow> None) (takeWhile (\<lambda>l. l \<noteq> Gone) looks)"

definition ends_stream :: "pydict \<Rightarrow> bool" where
  "ends_stream p \<longleftrightarrow> is_terminal_event (extract_event_type p) p"

definition event_of :: "pydict \<Rightarrow> chunk" where
  "event_of p = Event (extract_event_type p) p"

fun up_to_end :: "string \<Rightarrow> pydict list \<Rightarrow> chunk list" where
  "up_to_end run_id [] = []"
| "up_to_end run_id (p # ps) = event_of p # (if ends_stream p then [stream_end run_id (get_none p ''status'')] else up_to_end run_id ps)"

definition beats_off :: "chunk list \<Rightarrow> chunk list" where
  "beats_off cs = filter (\<lambda>c. c \<noteq> Heartbeat) cs"

lemma beats_off_simps [simp]:
  "beats_off [] = []" "beats_off (Heartbeat # cs) = beats_off cs" "beats_off (Event t p # cs) = Event t p # beats_off cs"
  "beats_off (event_of p # cs) = event_of p # beats_off cs" "beats_off (stream_end r st # cs) = stream_end r st # beats_off cs"
  "beats_off (status_event r st' # cs) = status_event r st' # beats_off cs"
  by (simp_all add: beats_off_def event_of_def stream_end_def status_event_def)

lemma received_simps [simp]:
  "received env [] = []" "received env (Gone # ls) = []" "received env (Nothing n # ls) = received env ls"
  "received env (Message n v # ls) = (case parse_message_payload env v of None \<Rightarrow> received env ls | Some p \<Rightarrow> p # received env ls)"
  by (simp_all add: received_def List.map_filter_def split: option.split)

lemma live_loop_stream:
  "live_loop env run_id last_emit looks = (cs, ended) \<Longrightarrow>
     beats_off cs = up_to_end run_id (received env looks) \<and> (ended \<longleftrightarrow> Gone \<in> set looks \<or> (\<exists>p \<in> set (received env looks). ends_stream p))"
proof (induction env run_id last_emit looks arbitrary: cs ended rule: live_loop.induct)
  case (4 env run_id last_emit now v rest)
  then show ?case
    by (cases "parse_message_payload env v") (fastforce simp: Let_def ends_stream_def event_of_def split: if_splits prod.splits)+
next
  case (3 env run_id last_emit now rest)
  then show ?case by (fastforce split: if_splits prod.splits)
qed auto

section \<open>Properties\<close>

text \<open>C19.  A connection is faithful.  Apart from heartbeats it is sent the status it began with or the cached payload, and
  then every payload that arrives with a valid signature, once and in order, up to and including the first
  that ends a stream, which is followed by one end of stream and nothing else.  The connection is closed
  exactly when such a payload was there or the client is gone.\<close>

theorem live_stream_exact:
  "case live_event_generator env run_id status now cached looks of
     (cs, ended) \<Rightarrow>
       let first = get_cached_event env cached; ps = (case first of None \<Rightarrow> [] | Some p \<Rightarrow> [p]) @ received env looks in
       beats_off cs = (if first = None then [status_event run_id status] else []) @ up_to_end run_id ps \<and>
       (ended \<longleftrightarrow> (\<exists>p \<in> set ps. ends_stream p) \<or> (Gone \<in> set looks))"
proof -
  obtain cs ended where loop: "live_loop env run_id now looks = (cs, ended)" by fastforce
  note stream = live_loop_stream [OF loop]
  show ?thesis
  proof (cases "get_cached_event env cached")
    case None
    then show ?thesis using stream loop by (auto simp: live_event_generator_def)
  next
    case (Some p)
    then show ?thesis using stream loop by (auto simp: live_event_generator_def Let_def ends_stream_def event_of_def)
  qed
qed

text \<open>C20.  What is published can be read.  With a hash that is not empty and JSON that gives back the signed payload, the
  message and the cached copy both pass the verification, are of the kind of the payload, and are
  sent to the browser without the signature.\<close>

theorem published_payload_read:
  assumes "pubsub_up up" and "cache_up up" and "hmac_hex env (json_dumps_sorted env (PDict (unsigned p))) \<noteq> []"
    and "json_parse env (json_dumps env (PDict (sign_sse_payload env p))) = Inr (PDict (sign_sse_payload env p))"
  shows "\<exists>s d. published (publish_progress_payload env up p ch) = published ch @ [s] \<and>
    parse_message_payload env (PStr s) = Some d \<and>
    get_cached_event env (Inr (last_payload (publish_progress_payload env up p ch))) = Some d \<and>
    extract_event_type d = extract_event_type p \<and> ends_stream d = ends_stream p \<and>
    format_sse_event env (event_of d) = format_sse_event env (event_of p)"
proof -
  have "verify_sse_payload env (sign_sse_payload env p)"
    using assms(3) by (intro verify_sign) (simp add: signature_of_def)
  then have "verified env (json_dumps env (PDict (sign_sse_payload env p))) = Some (sign_sse_payload env p)"
    using assms(4) by (simp add: verified_def)
  then show ?thesis using assms(1,2)
    by (intro exI [of _ "json_dumps env (PDict (sign_sse_payload env p))"] exI [of _ "sign_sse_payload env p"])
      (simp add: publish_progress_payload_def cache_progress_payload_def Let_def parse_message_payload_def get_cached_event_def
        ends_stream_def event_of_def format_sse_event_def)
qed

definition plain_json :: sse_env where
  "plain_json = \<lparr>json_dumps = (\<lambda>v. ''['' @ py_repr v @ '']''), json_dumps_sorted = py_repr,
     json_parse = (\<lambda>s. if s = ''[{'' @ [sq] @ ''status'' @ [sq] @ '': 1, '' @ [sq] @ ''__sig'' @ [sq] @ '': '' @ [sq] @ ''x'' @ [sq] @ ''}]''
       then Inr (PDict [(PStr ''status'', PInt 1), (PStr ''__sig'', PStr ''x'')]) else Inl TypeError),
     hmac_hex = (\<lambda>s. ''x''), test_environment = False\<rparr>"

theorem published_payload_read_witness:
  "\<forall>ch. \<exists>s d. published (publish_progress_payload plain_json \<lparr>pubsub_up = True, cache_up = True\<rparr> [(PStr ''status'', PInt 1)] ch) = published ch @ [s] \<and>
     parse_message_payload plain_json (PStr s) = Some d \<and> \<not> ends_stream d"
proof
  fix ch
  let ?p = "[(PStr ''status'', PInt 1)]"
  have signed: "sign_sse_payload plain_json ?p = [(PStr ''status'', PInt 1), (PStr ''__sig'', PStr ''x'')]"
    by (simp add: sign_sse_payload_def sse_signature_field_def signature_of_def plain_json_def)
  have parse: "json_parse plain_json (json_dumps plain_json (PDict (sign_sse_payload plain_json ?p))) = Inr (PDict (sign_sse_payload plain_json ?p))"
    unfolding signed by code_simp
  have "\<not> ends_stream ?p" by code_simp
  with published_payload_read [of "\<lparr>pubsub_up = True, cache_up = True\<rparr>" plain_json ?p ch, OF _ _ _ parse]
  show "\<exists>s d. published (publish_progress_payload plain_json \<lparr>pubsub_up = True, cache_up = True\<rparr> ?p ch) = published ch @ [s] \<and>
     parse_message_payload plain_json (PStr s) = Some d \<and> \<not> ends_stream d"
    by (auto simp: plain_json_def)
qed

text \<open>The live stream of a run ends with its first completed step, since the status of that step is also one of a run.\<close>

theorem stream_ends_with_first_step:
  "live_loop env run_id last_emit
     (map (\<lambda>ev. Message now (PDict (step_payload ev)))
       (progress run_id name 0 n SS_RUNNING # completed_event run_id name 0 n res # others)) =
   ([Event ''step_started'' (step_payload (progress run_id name 0 n SS_RUNNING)),
     Event ''step_completed'' (step_payload (completed_event run_id name 0 n res)),
     stream_end run_id (PStr ''COMPLETED'')], True)"
  by (simp add: parse_message_payload_def step_payload_def progress_def completed_event_def extract_event_type_def is_terminal_event_def
      get_none_def get_or_def status_to_event_def terminal_event_types_def terminal_statuses_def)

text \<open>The stream of a run that ended with a violated contract never ends once the cached event has expired.\<close>

theorem violation_stream_never_ends:
  assumes "rw_status r = CONTRACT_VIOLATION"
  shows "\<exists>cs. stream_pipeline_progress env role user (Some (r, Some user, grant)) now (Inr None) (map Nothing moments) = Stream cs False"
proof -
  obtain cs ended where loop: "live_loop env (rw_id r) now (map Nothing moments) = (cs, ended)" by fastforce
  have "received env (map Nothing moments) = []" by (induction moments) auto
  then have "\<not> ended" using live_loop_stream [OF loop] by auto
  then show ?thesis using assms loop
    by (simp add: stream_pipeline_progress_def authorize_run_access_def terminal_statuses_def live_event_generator_def get_cached_event_def)
qed

end
