(* ===== verification/PatchApplier.thy ===== *)
theory PatchApplier
  imports PipelineParser
begin

text \<open>
  \<^verbatim>\<open>backend/execution/patch_applier.py\<close>: applying a healing patch to a pipeline document.
  \<^verbatim>\<open>yaml.safe_load\<close> and \<^verbatim>\<open>yaml.safe_dump\<close> are the parameters \<open>safe_load\<close> and \<open>safe_dump\<close>.  The
  handlers mutate the dictionary of one step in place; here a handler returns the updated
  dictionary, and \<open>step_map\<close> gives the position of the step it belongs to (the document is a
  tree: a document that shares a step through a YAML anchor is outside the model).
\<close>

section \<open>Definitions\<close>

definition replace_item :: "pyval \<Rightarrow> pyval \<Rightarrow> pyval \<Rightarrow> pyval" where
  "replace_item old_value new_value item = (if py_eq item old_value then new_value else item)"

definition step_label :: "pydict \<Rightarrow> string" where
  "step_label step = py_str (get_none step ''name'')"

type_synonym patch_handler = "pydict \<Rightarrow> string \<Rightarrow> pyval \<Rightarrow> pyval \<Rightarrow> pydict result"

definition patch_scalar_field :: patch_handler where
  "patch_scalar_field step field_name old_value new_value =
     (if dict_get step (PStr field_name) = None
      then Inl (ValueError (''Step '' @ [sq] @ step_label step @ [sq] @ '' has no '' @ [sq] @ field_name @ [sq] @ '' field''))
      else Inr (dict_set step (PStr field_name) new_value))"

definition patch_list_field :: patch_handler where
  "patch_list_field step field_name old_value new_value =
     (case get_none step field_name of
        PList items \<Rightarrow> Inr (dict_set step (PStr field_name) (PList (map (replace_item old_value new_value) items)))
      | _ \<Rightarrow> Inl (ValueError (''Step '' @ [sq] @ step_label step @ [sq] @ '' has no list field '' @ [sq] @ field_name @ [sq])))"

definition patch_sort_field :: patch_handler where
  "patch_sort_field step field_name old_value new_value =
     (case get_none step field_name of
        PList items \<Rightarrow> Inr (dict_set step (PStr field_name) (PList (map (replace_item old_value new_value) items)))
      | _ \<Rightarrow> Inr (dict_set step (PStr field_name) new_value))"

text \<open>The loop that rebuilds a mapping: an unhashable key raises.\<close>

definition remap_entry :: "pyval \<Rightarrow> pyval \<Rightarrow> pyval \<times> pyval \<Rightarrow> pydict \<Rightarrow> pydict result" where
  "remap_entry old_value new_value kv updated =
     (let k = replace_item old_value new_value (fst kv) in
      if hashable k then Inr (dict_set updated k (replace_item old_value new_value (snd kv))) else Inl TypeError)"

definition patch_mapping_field :: patch_handler where
  "patch_mapping_field step field_name old_value new_value =
     (case get_none step field_name of
        PDict entries \<Rightarrow> bindE (foldE (remap_entry old_value new_value) entries [])
          (\<lambda>updated. Inr (dict_set step (PStr field_name) (PDict updated)))
      | _ \<Rightarrow> Inl (ValueError (''Step '' @ [sq] @ step_label step @ [sq] @ '' has no dict field '' @ [sq] @ field_name @ [sq])))"

definition patch_aggregation :: "pyval \<Rightarrow> pyval \<Rightarrow> pyval \<Rightarrow> pyval" where
  "patch_aggregation old_value new_value aggregation =
     (case aggregation of
        PDict d \<Rightarrow> if py_eq (get_none d ''column'') old_value then PDict (dict_set d (PStr ''column'') new_value) else aggregation
      | _ \<Rightarrow> aggregation)"

definition patch_aggregations_field :: patch_handler where
  "patch_aggregations_field step field_name old_value new_value =
     (case get_none step field_name of
        PList items \<Rightarrow> Inr (dict_set step (PStr field_name) (PList (map (patch_aggregation old_value new_value) items)))
      | _ \<Rightarrow> Inl (ValueError (''Step '' @ [sq] @ step_label step @ [sq] @ '' has no list field '' @ [sq] @ field_name @ [sq])))"

definition patch_handler_for :: "string \<Rightarrow> patch_handler" where
  "patch_handler_for field_name =
     (if field_name \<in> {''columns'', ''group_by''} then patch_list_field
      else if field_name = ''by'' then patch_sort_field
      else if field_name = ''mapping'' then patch_mapping_field
      else if field_name = ''aggregations'' then patch_aggregations_field
      else patch_scalar_field)"

text \<open>\<^verbatim>\<open>step_map[step_name] = step\<close>: the last step of a name wins; here its position.\<close>

fun step_map_from :: "nat \<Rightarrow> pyval list \<Rightarrow> (string \<times> nat) list \<Rightarrow> (string \<times> nat) list" where
  "step_map_from i [] m = m"
| "step_map_from i (step # rest) m =
     step_map_from (Suc i) rest
       (case step of
          PDict d \<Rightarrow> (case get_none d ''name'' of PStr n \<Rightarrow> AList.update n i m | _ \<Rightarrow> m)
        | _ \<Rightarrow> m)"

definition step_map :: "pyval list \<Rightarrow> (string \<times> nat) list" where
  "step_map sts = step_map_from 0 sts []"

text \<open>\<^verbatim>\<open>patch_item[k]\<close>.\<close>

definition require_key :: "pydict \<Rightarrow> string \<Rightarrow> pyval result" where
  "require_key d k = (case dict_get d (PStr k) of None \<Rightarrow> Inl KeyError | Some v \<Rightarrow> Inr v)"

definition apply_patch_item :: "(string \<times> nat) list \<Rightarrow> pyval \<Rightarrow> pyval list \<Rightarrow> pyval list result" where
  "apply_patch_item smap patch_item sts =
     (case patch_item of
        PDict item \<Rightarrow>
          bindE (require_key item ''step_name'') (\<lambda>sn.
          bindE (require_key item ''field'') (\<lambda>fld.
          bindE (require_key item ''old_value'') (\<lambda>old_value.
          bindE (require_key item ''new_value'') (\<lambda>new_value.
            let sname = py_str sn; field_name = py_str fld in
            (case map_of smap sname of
               None \<Rightarrow> Inl (ValueError (''Patch references step '' @ [sq] @ sname @ [sq] @
                   '' which does not exist. Available steps: '' @ repr_strs (sort (map fst smap))))
             | Some i \<Rightarrow>
                 (case sts ! i of
                    PDict step \<Rightarrow> bindE (patch_handler_for field_name step field_name old_value new_value)
                      (\<lambda>step'. Inr (sts[i := PDict step']))
                  | _ \<Rightarrow> Inl AttributeError))))))
      | _ \<Rightarrow> Inl TypeError)"

text \<open>The document with its list of steps replaced, under \<^verbatim>\<open>pipeline\<close> or at the top.\<close>

definition put_steps :: "pydict \<Rightarrow> pyval list \<Rightarrow> pydict" where
  "put_steps document sts =
     (case dict_get document (PStr ''pipeline'') of
        Some (PDict p) \<Rightarrow> dict_set document (PStr ''pipeline'') (PDict (dict_set p (PStr ''steps'') (PList sts)))
      | _ \<Rightarrow> dict_set document (PStr ''steps'') (PList sts))"

definition find_steps :: "pyval \<Rightarrow> (pydict \<times> pyval list) result" where
  "find_steps raw =
     (case raw of
        PDict document \<Rightarrow>
          (case get_or document ''pipeline'' (PDict document) of
             PDict p \<Rightarrow>
               (case get_none p ''steps'' of
                  PList sts \<Rightarrow> Inr (document, sts)
                | _ \<Rightarrow> Inl (ValueError (''Invalid pipeline YAML: missing '' @ [sq] @ ''steps'' @ [sq] @ '' list'')))
           | _ \<Rightarrow> Inl (ValueError (''Invalid pipeline YAML: missing '' @ [sq] @ ''pipeline'' @ [sq] @ '' mapping'')))
      | _ \<Rightarrow> Inl (ValueError ''Invalid pipeline YAML: root must be a mapping''))"

definition patch_steps :: "pyval list \<Rightarrow> pydict \<Rightarrow> pyval list result" where
  "patch_steps sts patch =
     bindE (iterate (get_or patch ''patches'' (PList []))) (\<lambda>items.
       foldE (apply_patch_item (step_map sts)) items sts)"

definition apply_patch ::
    "(string \<Rightarrow> pyval result) \<Rightarrow> (pyval \<Rightarrow> string result) \<Rightarrow> string \<Rightarrow> pydict \<Rightarrow> string result" where
  "apply_patch safe_load safe_dump yaml_text patch =
     bindE (safe_load yaml_text) (\<lambda>raw.
     bindE (find_steps raw) (\<lambda>(document, sts).
     bindE (patch_steps sts patch) (\<lambda>sts'.
       safe_dump (PDict (put_steps document sts')))))"



section \<open>What a handler may touch\<close>

text \<open>A handler, when it succeeds, changes no field of the step but the one it is given and keeps
  the step's keys in their order (a missing \<^verbatim>\<open>by\<close> is added at the end).\<close>

locale field_handler =
  fixes handler :: patch_handler
  assumes only_field: "handler step fld old new = Inr step' \<Longrightarrow> k \<noteq> fld \<Longrightarrow>
      dict_get step' (PStr k) = dict_get step (PStr k)"
    and keys_kept: "handler step fld old new = Inr step' \<Longrightarrow>
      map fst step' = map fst step @ (if dict_get step (PStr fld) = None then [PStr fld] else [])"
begin

lemma name_kept: "handler step fld old new = Inr step' \<Longrightarrow> fld \<noteq> ''name'' \<Longrightarrow> get_none step' ''name'' = get_none step ''name''"
  using only_field [of step fld old new step' "''name''"] by (simp add: get_none_def get_or_def)

end

lemma keys_dict_set_PStr:
  "map fst (dict_set d (PStr k) v) = map fst d @ (if dict_get d (PStr k) = None then [PStr k] else [])"
  by (induction d) (auto split: if_splits)

interpretation scalar: field_handler patch_scalar_field
  by unfold_locales (auto simp: patch_scalar_field_def keys_dict_set_PStr split: if_splits)

interpretation list_field: field_handler patch_list_field
  by unfold_locales (auto simp: patch_list_field_def keys_dict_set_PStr split: pyval.splits)

interpretation sort_field: field_handler patch_sort_field
  by unfold_locales (auto simp: patch_sort_field_def keys_dict_set_PStr split: pyval.splits)

interpretation mapping_field: field_handler patch_mapping_field
  by unfold_locales (auto simp: patch_mapping_field_def keys_dict_set_PStr split: pyval.splits)

interpretation aggregations_field: field_handler patch_aggregations_field
  by unfold_locales (auto simp: patch_aggregations_field_def keys_dict_set_PStr split: pyval.splits)

interpretation any_field: field_handler "patch_handler_for f" for f
  by (simp add: patch_handler_for_def scalar.field_handler_axioms list_field.field_handler_axioms
      sort_field.field_handler_axioms mapping_field.field_handler_axioms aggregations_field.field_handler_axioms)

section \<open>What a patch may touch\<close>

text \<open>The name that \<open>step_map\<close> files a step under.\<close>

definition named :: "string \<Rightarrow> pyval \<Rightarrow> bool" where
  "named n step \<longleftrightarrow> (\<exists>d. step = PDict d \<and> get_none d ''name'' = PStr n)"

lemma step_map_from_Some:
  "map_of (step_map_from i sts m) n = Some j \<Longrightarrow>
     map_of m n = Some j \<or> (i \<le> j \<and> j < i + length sts \<and> named n (sts ! (j - i)))"
proof (induction sts arbitrary: i m)
  case Nil
  then show ?case by simp
next
  case (Cons x sts)
  let ?m = "case x of PDict d \<Rightarrow> (case get_none d ''name'' of PStr n \<Rightarrow> AList.update n i m | _ \<Rightarrow> m) | _ \<Rightarrow> m"
  from Cons.prems have "map_of (step_map_from (Suc i) sts ?m) n = Some j" by simp
  from Cons.IH [OF this] consider "map_of ?m n = Some j"
    | "Suc i \<le> j" "j < Suc i + length sts" "named n (sts ! (j - Suc i))" by blast
  then show ?case
  proof cases
    case 1
    then show ?thesis
      by (auto simp: named_def update_conv' split: pyval.splits if_splits)
  next
    case 2
    then show ?thesis by (auto simp: nth_Cons' Suc_diff_Suc)
  qed
qed

lemma step_map_Some: "map_of (step_map sts) n = Some i \<Longrightarrow> i < length sts \<and> named n (sts ! i)"
  using step_map_from_Some [of 0 sts "[]" n i] by (simp add: step_map_def)

text \<open>The name and the field of a patch item.\<close>

definition item_text :: "string \<Rightarrow> pyval \<Rightarrow> string" where
  "item_text k item = (case item of PDict d \<Rightarrow> py_str (get_none d k) | _ \<Rightarrow> [])"

lemma require_key_Inr: "require_key d k = Inr v \<Longrightarrow> get_none d k = v"
  by (auto simp: require_key_def get_none_def get_or_def split: option.splits)

lemma apply_patch_item_Inr:
  assumes "apply_patch_item smap item sts = Inr sts'"
  obtains i step step' old new where "map_of smap (item_text ''step_name'' item) = Some i" "sts ! i = PDict step"
    "patch_handler_for (item_text ''field'' item) step (item_text ''field'' item) old new = Inr step'"
    "sts' = sts[i := PDict step']"
  using assms
  by (auto simp: apply_patch_item_def item_text_def Let_def dest!: require_key_Inr
      split: pyval.splits option.splits)

lemma patch_items_frame:
  assumes "foldE (apply_patch_item (step_map orig)) items sts = Inr sts'"
    "length sts = length orig"
  shows "length sts' = length orig \<and>
    (\<forall>j < length orig. (\<forall>item \<in> set items. \<not> named (item_text ''step_name'' item) (orig ! j)) \<longrightarrow> sts' ! j = sts ! j)"
  using assms
proof (induction items arbitrary: sts)
  case Nil
  then show ?case by simp
next
  case (Cons item items)
  then obtain s1 where s1: "apply_patch_item (step_map orig) item sts = Inr s1"
    and rest: "foldE (apply_patch_item (step_map orig)) items s1 = Inr sts'" by auto
  from apply_patch_item_Inr [OF s1] obtain i step' where
    i: "map_of (step_map orig) (item_text ''step_name'' item) = Some i" and upd: "s1 = sts[i := PDict step']" by metis
  from step_map_Some [OF i] have "named (item_text ''step_name'' item) (orig ! i)" by blast
  with Cons.IH [OF rest] Cons.prems(2) upd show ?case by auto (metis nth_list_update_neq)
qed

lemma dict_set_steps: "get_none (dict_set d (PStr k) v) k = v"
  by (simp add: get_none_def get_or_def)

lemma find_put_steps:
  assumes "find_steps (PDict document) = Inr (document, sts)"
  shows "find_steps (PDict (put_steps document sts')) = Inr (put_steps document sts', sts')"
  using assms
  by (auto simp: find_steps_def put_steps_def get_or_def dict_set_steps split: option.splits pyval.splits)

lemma find_steps_Inr: "find_steps raw = Inr (document, sts) \<Longrightarrow> raw = PDict document"
  by (auto simp: find_steps_def split: pyval.splits)


section \<open>Properties\<close>

definition demo_document :: pydict where
  "demo_document = [(PStr ''steps'', PList
     [PDict [(PStr ''name'', PStr ''a''), (PStr ''columns'', PList [PStr ''x'', PStr ''y''])],
      PDict [(PStr ''name'', PStr ''b''), (PStr ''input'', PStr ''a'')]])]"

definition demo_patch :: pydict where
  "demo_patch = [(PStr ''patches'', PList [PDict [(PStr ''step_name'', PStr ''a''), (PStr ''field'', PStr ''columns''),
     (PStr ''old_value'', PStr ''x''), (PStr ''new_value'', PStr ''z'')]])]"

definition demo_patched :: pydict where
  "demo_patched = [(PStr ''steps'', PList
     [PDict [(PStr ''name'', PStr ''a''), (PStr ''columns'', PList [PStr ''z'', PStr ''y''])],
      PDict [(PStr ''name'', PStr ''b''), (PStr ''input'', PStr ''a'')]])]"

definition demo_load :: "string \<Rightarrow> pyval result" where
  "demo_load t = (if t = ''new'' then Inr (PDict demo_patched) else Inr (PDict demo_document))"

definition demo_dump :: "pyval \<Rightarrow> string result" where
  "demo_dump v = (if v = PDict demo_patched then Inr ''new'' else Inl (OtherError ''dump''))"

text \<open>A patch touches only the steps it names.  When what \<^verbatim>\<open>safe_dump\<close> writes is read back by
  \<^verbatim>\<open>safe_load\<close> unchanged, the patched text has as many steps as the original, in the same order,
  and every step whose name no patch item gives is unchanged.\<close>

theorem apply_patch_only_named_steps:
  assumes roundtrip: "\<And>d t. safe_dump d = Inr t \<Longrightarrow> safe_load t = Inr d"
    and "apply_patch safe_load safe_dump yaml_text patch = Inr text"
    and "safe_load yaml_text = Inr raw" and "find_steps raw = Inr (document, sts)"
    and "get_or patch ''patches'' (PList []) = PList items"
  shows "\<exists>document' sts'. bindE (safe_load text) find_steps = Inr (document', sts') \<and> length sts' = length sts \<and>
    (\<forall>j < length sts. (\<forall>item \<in> set items. \<not> named (item_text ''step_name'' item) (sts ! j)) \<longrightarrow> sts' ! j = sts ! j)"
proof -
  from assms(2-5) obtain sts' where sts': "foldE (apply_patch_item (step_map sts)) items sts = Inr sts'"
    and dump: "safe_dump (PDict (put_steps document sts')) = Inr text"
    by (auto simp: apply_patch_def patch_steps_def iterate_def)
  have "find_steps (PDict (put_steps document sts')) = Inr (put_steps document sts', sts')"
    using assms(4) find_steps_Inr [OF assms(4)] by (intro find_put_steps [of _ sts]) simp
  with patch_items_frame [OF sts'] roundtrip [OF dump] show ?thesis by simp
qed

theorem apply_patch_only_named_steps_witness:
  "\<exists>document' sts'. bindE (demo_load ''new'') find_steps = Inr (document', sts') \<and> length sts' = 2 \<and>
     sts' ! 1 = PDict [(PStr ''name'', PStr ''b''), (PStr ''input'', PStr ''a'')]"
proof -
  let ?sts = "[PDict [(PStr ''name'', PStr ''a''), (PStr ''columns'', PList [PStr ''x'', PStr ''y''])],
      PDict [(PStr ''name'', PStr ''b''), (PStr ''input'', PStr ''a'')]]"
  let ?item = "PDict [(PStr ''step_name'', PStr ''a''), (PStr ''field'', PStr ''columns''),
     (PStr ''old_value'', PStr ''x''), (PStr ''new_value'', PStr ''z'')]"
  have rt: "demo_dump d = Inr t \<Longrightarrow> demo_load t = Inr d" for d t
    by (auto simp: demo_dump_def demo_load_def split: if_splits)
  have ap: "apply_patch demo_load demo_dump ''old'' demo_patch = Inr ''new''" by code_simp
  have ld: "demo_load ''old'' = Inr (PDict demo_document)" by (simp add: demo_load_def)
  have fs: "find_steps (PDict demo_document) = Inr (demo_document, ?sts)"
    by (simp add: demo_document_def find_steps_def get_or_def get_none_def)
  have ps: "get_or demo_patch ''patches'' (PList []) = PList [?item]"
    by (simp add: demo_patch_def get_or_def)
  note main = apply_patch_only_named_steps [OF rt ap ld fs ps]
  have nb: "\<not> named (item_text ''step_name'' ?item) (?sts ! 1)"
    by (simp add: named_def item_text_def get_none_def get_or_def py_str_def)
  have "1 < length ?sts" by simp
  with main nb have "\<exists>document' sts'. bindE (demo_load ''new'') find_steps = Inr (document', sts') \<and>
      length sts' = length ?sts \<and> sts' ! 1 = ?sts ! 1"
    by (metis empty_iff empty_set set_ConsD)
  then show ?thesis by (simp add: numeral_2_eq_2)
qed

text \<open>A patch item changes one field of one step: the step filed under its \<^verbatim>\<open>step_name\<close> keeps
  every other field and the order of its fields, and all other steps stay as they are.\<close>

theorem apply_patch_item_changes_one_field:
  assumes "apply_patch_item (step_map sts) item sts = Inr sts'"
  shows "\<exists>i step step'. i < length sts \<and> sts ! i = PDict step \<and> named (item_text ''step_name'' item) (sts ! i) \<and>
    sts' = sts[i := PDict step'] \<and>
    (\<forall>k. k = item_text ''field'' item \<or> dict_get step' (PStr k) = dict_get step (PStr k)) \<and>
    map fst step' = map fst step @
      (if dict_get step (PStr (item_text ''field'' item)) = None then [PStr (item_text ''field'' item)] else [])"
proof -
  from apply_patch_item_Inr [OF assms] obtain i step step' old new where
    i: "map_of (step_map sts) (item_text ''step_name'' item) = Some i" and step: "sts ! i = PDict step"
    and h: "patch_handler_for (item_text ''field'' item) step (item_text ''field'' item) old new = Inr step'"
    and sts': "sts' = sts[i := PDict step']" by metis
  from step_map_Some [OF i] step sts' any_field.only_field [OF h] any_field.keys_kept [OF h] show ?thesis by blast
qed

theorem apply_patch_item_changes_one_field_witness:
  "\<exists>sts'. apply_patch_item (step_map [PDict [(PStr ''name'', PStr ''a''), (PStr ''by'', PStr ''x'')]])
      (PDict [(PStr ''step_name'', PStr ''a''), (PStr ''field'', PStr ''by''), (PStr ''old_value'', PStr ''x''),
        (PStr ''new_value'', PStr ''y'')]) [PDict [(PStr ''name'', PStr ''a''), (PStr ''by'', PStr ''x'')]] = Inr sts' \<and>
     length sts' = 1"
proof -
  let ?sts = "[PDict [(PStr ''name'', PStr ''a''), (PStr ''by'', PStr ''x'')]]"
  let ?item = "PDict [(PStr ''step_name'', PStr ''a''), (PStr ''field'', PStr ''by''), (PStr ''old_value'', PStr ''x''),
        (PStr ''new_value'', PStr ''y'')]"
  have ex: "apply_patch_item (step_map ?sts) ?item ?sts = Inr [PDict [(PStr ''name'', PStr ''a''), (PStr ''by'', PStr ''y'')]]"
    by code_simp
  from apply_patch_item_changes_one_field [OF ex] ex show ?thesis by auto
qed

lemma dict_set_same: "dict_get d (PStr k) = Some v \<Longrightarrow> dict_set (dict_set d (PStr k) w) (PStr k) v = d"
  by (induction d) (auto split: if_splits)

text \<open>Renaming a column in a list field can be undone: replacing \<^verbatim>\<open>a\<close> by \<^verbatim>\<open>b\<close> and then \<^verbatim>\<open>b\<close> by \<^verbatim>\<open>a\<close>
  gives the step back when \<^verbatim>\<open>b\<close> was not in the list.\<close>

theorem patch_list_field_undo:
  assumes "dict_get step (PStr f) = Some (PList items)" and "PStr b \<notin> set items"
    and "patch_list_field step f (PStr a) (PStr b) = Inr step'"
  shows "patch_list_field step' f (PStr b) (PStr a) = Inr step"
proof -
  have "map (replace_item (PStr b) (PStr a)) (map (replace_item (PStr a) (PStr b)) items) = items"
    using assms(2) by (induction items) (auto simp: replace_item_def)
  with assms show ?thesis
    by (auto simp: patch_list_field_def get_none_def get_or_def dict_set_same)
qed

theorem patch_list_field_undo_witness:
  "patch_list_field [(PStr ''columns'', PList [PStr ''z'', PStr ''y''])] ''columns'' (PStr ''z'') (PStr ''x'') =
     Inr [(PStr ''columns'', PList [PStr ''x'', PStr ''y''])]"
  by (rule patch_list_field_undo [of _ _ "[PStr ''x'', PStr ''y'']"])
    (simp_all add: patch_list_field_def get_none_def get_or_def replace_item_def)

text \<open>The join key cannot be healed when the document spells it \<^verbatim>\<open>on:\<close>.  YAML reads that key as
  the boolean true; the parser accepts it, but a patch of the field \<^verbatim>\<open>on\<close> raises.\<close>

theorem patch_of_bare_on_fails:
  assumes "dict_get step (PStr ''on'') = None" and "dict_get step (PBool True) = Some (PStr key)" and "key \<noteq> []"
  shows "(\<exists>l r h. build_join_step step = JoinFields l r key h) \<and>
    (\<exists>msg. patch_handler_for ''on'' step ''on'' old_value new_value = Inl (ValueError msg))"
  using assms
  by (simp add: build_join_step_def join_on_value_def get_or_def py_str_def patch_handler_for_def patch_scalar_field_def)

theorem patch_of_bare_on_fails_witness:
  "\<exists>msg. patch_handler_for ''on'' [(PStr ''name'', PStr ''j''), (PBool True, PStr ''id'')] ''on'' (PStr ''id'') (PStr ''key'') =
     Inl (ValueError msg)"
  using patch_of_bare_on_fails [of "[(PStr ''name'', PStr ''j''), (PBool True, PStr ''id'')]" "''id''"]
  by (simp add: py_num_def)

text \<open>Patching a rename mapping can lose an entry: replacing the key \<^verbatim>\<open>a\<close> by \<^verbatim>\<open>b\<close> in
  \<^verbatim>\<open>{a: x, b: y}\<close> leaves \<^verbatim>\<open>{b: y}\<close>.\<close>

theorem patch_mapping_field_loses_entry:
  "patch_mapping_field [(PStr ''mapping'', PDict [(PStr ''a'', PStr ''x''), (PStr ''b'', PStr ''y'')])]
     ''mapping'' (PStr ''a'') (PStr ''b'') = Inr [(PStr ''mapping'', PDict [(PStr ''b'', PStr ''y'')])]"
  by (simp add: patch_mapping_field_def get_none_def get_or_def remap_entry_def replace_item_def hashable_def)

end
