(* ===== verification/SchemaDiff.thy ===== *)
theory SchemaDiff
  imports PyNum
begin

text \<open>
  Differences between two schemas: \<^verbatim>\<open>src/backend/execution/schema_diff.py\<close>, which proposes renames to the healing
  agent, and \<^verbatim>\<open>src/backend/pipeline/schema_drift.py\<close>, which reports the drift between two uploads of a file.
  The similarity of two names, \<^verbatim>\<open>jellyfish.jaro_winkler_similarity\<close>, is a parameter.
\<close>

section \<open>The diff of the healing agent\<close>

type_synonym schema = "(string \<times> pydict) list"

record rename_candidate =
  rc_old_name :: string
  rc_new_name :: string
  rc_similarity :: rat
  rc_type_match :: bool
  rc_confidence :: rat

record schema_diff =
  sd_removed :: "string list"
  sd_added :: "string list"
  sd_candidates :: "rename_candidate list"
  sd_has_changes :: bool
  sd_summary :: string

definition rename_similarity_threshold :: rat where
  "rename_similarity_threshold = round64 (85 / 100)"

definition find_removed_columns :: "schema \<Rightarrow> schema \<Rightarrow> string list" where
  "find_removed_columns old new = sort (remdups (filter (\<lambda>c. c \<notin> fst ` set new) (map fst old)))"

definition find_added_columns :: "schema \<Rightarrow> schema \<Rightarrow> string list" where
  "find_added_columns old new = sort (remdups (filter (\<lambda>c. c \<notin> fst ` set old) (map fst new)))"

text \<open>\<^verbatim>\<open>round(x, 4)\<close>.\<close>

definition round4 :: "rat \<Rightarrow> rat" where
  "round4 x = round64 (of_int (round_half_even (x * 10000)) / 10000)"

definition semantic_type :: "schema \<Rightarrow> string \<Rightarrow> pyval" where
  "semantic_type s c = (case map_of s c of None \<Rightarrow> PNone | Some info \<Rightarrow> get_none info ''semantic_type'')"

definition types_match :: "schema \<Rightarrow> schema \<Rightarrow> string \<Rightarrow> string \<Rightarrow> bool" where
  "types_match old new a b \<longleftrightarrow>
     truthy (semantic_type old a) \<and> truthy (semantic_type new b) \<and> py_eq (semantic_type old a) (semantic_type new b)"

definition candidate :: "(string \<Rightarrow> string \<Rightarrow> rat) \<Rightarrow> schema \<Rightarrow> schema \<Rightarrow> string \<Rightarrow> string \<Rightarrow> rename_candidate option" where
  "candidate jaro old new a b =
     (let sim = jaro (py_lower a) (py_lower b) in
      if sim < rename_similarity_threshold then None
      else let match = types_match old new a b;
               confidence = if match then round64 (sim * round64 (12 / 10)) else sim
        in Some \<lparr>rc_old_name = a, rc_new_name = b, rc_similarity = round4 sim, rc_type_match = match,
             rc_confidence = round4 (min confidence 1)\<rparr>)"

definition find_rename_candidates :: "(string \<Rightarrow> string \<Rightarrow> rat) \<Rightarrow> schema \<Rightarrow> schema \<Rightarrow> rename_candidate list" where
  "find_rename_candidates jaro old new =
     (let removed = find_removed_columns old new; added = find_added_columns old new in
      if removed = [] \<or> added = [] then []
      else sort_key (\<lambda>c. - rc_confidence c)
             (concat (map (\<lambda>a. List.map_filter (candidate jaro old new a) added) removed)))"

definition build_diff_summary :: "string list \<Rightarrow> string list \<Rightarrow> rename_candidate list \<Rightarrow> string" where
  "build_diff_summary removed added cands =
     (let parts = map (\<lambda>c. rc_old_name c @ '' -> '' @ rc_new_name c) (take 3 cands) @
        map (\<lambda>c. c @ '' removed'') (filter (\<lambda>c. c \<notin> rc_old_name ` set cands) (take 2 removed)) @
        map (\<lambda>c. c @ '' added'') (filter (\<lambda>c. c \<notin> rc_new_name ` set cands) (take 2 added))
      in if parts = [] then ''No schema changes detected'' else join ''; '' parts)"

definition compute_schema_diff :: "(string \<Rightarrow> string \<Rightarrow> rat) \<Rightarrow> schema \<Rightarrow> schema \<Rightarrow> schema_diff" where
  "compute_schema_diff jaro old new =
     (let removed = find_removed_columns old new; added = find_added_columns old new; cands = find_rename_candidates jaro old new
      in \<lparr>sd_removed = removed, sd_added = added, sd_candidates = cands,
          sd_has_changes = (removed \<noteq> [] \<or> added \<noteq> [] \<or> cands \<noteq> []), sd_summary = build_diff_summary removed added cands\<rparr>)"

section \<open>The drift report of an upload\<close>

record column_drift =
  cd_column :: string
  cd_drift_type :: string
  cd_old_type :: string
  cd_new_type :: string
  cd_severity :: string

record drift_report =
  dr_has_drift :: bool
  dr_columns_added :: "string list"
  dr_columns_removed :: "string list"
  dr_type_changes :: "column_drift list"
  dr_summary :: string

definition dtype_at :: "(string \<times> string) list \<Rightarrow> string \<Rightarrow> string" where
  "dtype_at d c = (case map_of d c of None \<Rightarrow> [] | Some t \<Rightarrow> t)"

definition count_phrase :: "nat \<Rightarrow> string \<Rightarrow> string list" where
  "count_phrase n what = (if n = 0 then [] else [nat_str n @ '' '' @ what])"

definition detect_schema_drift :: "string list \<Rightarrow> (string \<times> string) list \<Rightarrow> string list \<Rightarrow> (string \<times> string) list \<Rightarrow> drift_report" where
  "detect_schema_drift old_columns old_dtypes new_columns new_dtypes =
     (let added = sort (remdups (filter (\<lambda>c. c \<notin> set old_columns) new_columns));
          removed = sort (remdups (filter (\<lambda>c. c \<notin> set new_columns) old_columns));
          common = sort (remdups (filter (\<lambda>c. c \<in> set new_columns) old_columns));
          changes = map (\<lambda>c. \<lparr>cd_column = c, cd_drift_type = ''type_changed'', cd_old_type = dtype_at old_dtypes c,
              cd_new_type = dtype_at new_dtypes c, cd_severity = ''warning''\<rparr>)
            (filter (\<lambda>c. dtype_at old_dtypes c \<noteq> dtype_at new_dtypes c) common);
          parts = count_phrase (length added) ''columns added'' @ count_phrase (length removed) ''columns removed'' @
            count_phrase (length changes) ''type changes''
      in \<lparr>dr_has_drift = (added \<noteq> [] \<or> removed \<noteq> [] \<or> changes \<noteq> []), dr_columns_added = added, dr_columns_removed = removed,
          dr_type_changes = changes, dr_summary = (if parts = [] then ''No drift detected'' else join '', '' parts)\<rparr>)"

section \<open>Lemmas\<close>

lemma set_removed [simp]: "set (find_removed_columns old new) = fst ` set old - fst ` set new"
  by (auto simp: find_removed_columns_def)

lemma set_added [simp]: "set (find_added_columns old new) = fst ` set new - fst ` set old"
  by (auto simp: find_added_columns_def)

lemma distinct_sorted_columns [simp]:
  "sorted (find_removed_columns old new)" "distinct (find_removed_columns old new)"
  "sorted (find_added_columns old new)" "distinct (find_added_columns old new)"
  by (simp_all add: find_removed_columns_def find_added_columns_def)

lemma set_concat_map_filter: "set (concat (map (\<lambda>a. List.map_filter (f a) ys) xs)) = {c. \<exists>a \<in> set xs. \<exists>b \<in> set ys. f a b = Some c}"
  by (force simp: List.map_filter_def)

lemma set_candidates: "set (find_rename_candidates jaro old new) =
    {c. \<exists>a \<in> fst ` set old - fst ` set new. \<exists>b \<in> fst ` set new - fst ` set old. candidate jaro old new a b = Some c}"
proof (cases "find_removed_columns old new = [] \<or> find_added_columns old new = []")
  case True
  then have "fst ` set old - fst ` set new = {} \<or> fst ` set new - fst ` set old = {}"
    by (metis set_removed set_added list.set(1))
  then show ?thesis using True by (auto simp: find_rename_candidates_def)
next
  case False
  then show ?thesis by (simp add: find_rename_candidates_def Let_def set_concat_map_filter del: set_concat)
qed

lemma candidates_sorted: "sorted (map (\<lambda>c. - rc_confidence c) (find_rename_candidates jaro old new))"
  by (auto simp: find_rename_candidates_def Let_def)

lemma empty_columns_iff:
  "find_removed_columns old new = [] \<longleftrightarrow> fst ` set old \<subseteq> fst ` set new"
  "find_added_columns old new = [] \<longleftrightarrow> fst ` set new \<subseteq> fst ` set old"
  using set_removed [of old new] set_added [of old new] by (metis Diff_eq_empty_iff set_empty)+

lemma candidate_Some:
  "(\<exists>c. candidate jaro old new a b = Some c) \<longleftrightarrow> rename_similarity_threshold \<le> jaro (py_lower a) (py_lower b)"
  "candidate jaro old new a b = Some c \<Longrightarrow> rc_old_name c = a \<and> rc_new_name c = b"
  by (auto simp: candidate_def Let_def split: if_split_asm)

lemma candidate_pairs: "(\<lambda>c. (rc_old_name c, rc_new_name c)) ` set (find_rename_candidates jaro old new) =
    {(a, b). a \<in> fst ` set old - fst ` set new \<and> b \<in> fst ` set new - fst ` set old \<and>
       rename_similarity_threshold \<le> jaro (py_lower a) (py_lower b)}" (is "?L = ?R")
proof (intro equalityI subsetI)
  fix p
  assume "p \<in> ?L"
  then obtain a b c where ab: "a \<in> fst ` set old - fst ` set new" "b \<in> fst ` set new - fst ` set old"
    and c: "candidate jaro old new a b = Some c" "p = (rc_old_name c, rc_new_name c)"
    unfolding set_candidates by blast
  have "rename_similarity_threshold \<le> jaro (py_lower a) (py_lower b)" using c(1) candidate_Some(1) by blast
  with ab candidate_Some(2) [OF c(1)] c(2) show "p \<in> ?R" by simp
next
  fix p
  assume "p \<in> ?R"
  then obtain a b where p: "p = (a, b)" and ab: "a \<in> fst ` set old - fst ` set new" "b \<in> fst ` set new - fst ` set old"
    and sim: "rename_similarity_threshold \<le> jaro (py_lower a) (py_lower b)" by blast
  from sim obtain c where c: "candidate jaro old new a b = Some c" using candidate_Some(1) by blast
  then have "c \<in> set (find_rename_candidates jaro old new)" using ab unfolding set_candidates by blast
  then show "p \<in> ?L" using candidate_Some(2) [OF c] p by force
qed

lemma no_candidates: "find_removed_columns old new = [] \<Longrightarrow> find_rename_candidates jaro old new = []"
  by (simp add: find_rename_candidates_def)

section \<open>Properties\<close>

text \<open>The rename candidates are exact: a pair is proposed exactly if its first name was removed, its second was added
  and their similarity reaches the threshold, and the proposals come with falling confidence.  The diff reports
  a change exactly if the two schemas differ in their names.\<close>

theorem schema_diff_exact:
  "let d = compute_schema_diff jaro old new; Old = fst ` set old; New = fst ` set new in
     set (sd_removed d) = Old - New \<and> set (sd_added d) = New - Old \<and>
     (\<lambda>c. (rc_old_name c, rc_new_name c)) ` set (sd_candidates d) =
       {(a, b). a \<in> Old - New \<and> b \<in> New - Old \<and> rename_similarity_threshold \<le> jaro (py_lower a) (py_lower b)} \<and>
     sorted (map (\<lambda>c. - rc_confidence c) (sd_candidates d)) \<and> (sd_has_changes d \<longleftrightarrow> Old \<noteq> New)"
proof -
  have "find_removed_columns old new \<noteq> [] \<or> find_added_columns old new \<noteq> [] \<or> find_rename_candidates jaro old new \<noteq> [] \<longleftrightarrow>
      fst ` set old \<noteq> fst ` set new"
    using no_candidates [of old new jaro] empty_columns_iff [of old new] by (metis subset_antisym subset_refl)
  then show ?thesis unfolding compute_schema_diff_def Let_def schema_diff.select_convs
    by (intro conjI set_removed set_added candidate_pairs candidates_sorted)
qed

text \<open>A drift report is exact: it lists the added and the removed columns and the common columns whose types differ,
  and reports drift exactly if there is one of these.\<close>

theorem schema_drift_exact:
  "let r = detect_schema_drift old_columns old_dtypes new_columns new_dtypes in
     set (dr_columns_added r) = set new_columns - set old_columns \<and> set (dr_columns_removed r) = set old_columns - set new_columns \<and>
     cd_column ` set (dr_type_changes r) =
       {c. c \<in> set old_columns \<and> c \<in> set new_columns \<and> dtype_at old_dtypes c \<noteq> dtype_at new_dtypes c} \<and>
     (dr_has_drift r \<longleftrightarrow> set old_columns \<noteq> set new_columns \<or>
        (\<exists>c \<in> set old_columns. dtype_at old_dtypes c \<noteq> dtype_at new_dtypes c))"
proof -
  let ?r = "detect_schema_drift old_columns old_dtypes new_columns new_dtypes"
  have sets: "set (dr_columns_added ?r) = set new_columns - set old_columns" "set (dr_columns_removed ?r) = set old_columns - set new_columns"
    "cd_column ` set (dr_type_changes ?r) =
       {c. c \<in> set old_columns \<and> c \<in> set new_columns \<and> dtype_at old_dtypes c \<noteq> dtype_at new_dtypes c}"
    by (auto simp: detect_schema_drift_def Let_def image_image)
  have "dr_has_drift ?r \<longleftrightarrow> dr_columns_added ?r \<noteq> [] \<or> dr_columns_removed ?r \<noteq> [] \<or> dr_type_changes ?r \<noteq> []"
    by (simp add: detect_schema_drift_def Let_def)
  also have "\<dots> \<longleftrightarrow> set (dr_columns_added ?r) \<noteq> {} \<or> set (dr_columns_removed ?r) \<noteq> {} \<or> cd_column ` set (dr_type_changes ?r) \<noteq> {}"
    by simp
  also have "\<dots> \<longleftrightarrow> set old_columns \<noteq> set new_columns \<or> (\<exists>c \<in> set old_columns. dtype_at old_dtypes c \<noteq> dtype_at new_dtypes c)"
    unfolding sets by blast
  finally show ?thesis unfolding Let_def using sets by blast
qed

end
