(* ===== verification/HealingAgent.thy ===== *)
theory HealingAgent
  imports PatchApplier StepErrors PyNum SchemaDiff
begin

text \<open>
  Autonomous healing: \<^verbatim>\<open>src/backend/execution/healing_classifier.py\<close> decides which failures may be healed,
  \<^verbatim>\<open>src/backend/execution/healing_agent.py\<close> asks a language model for a patch up to three times, and
  \<^verbatim>\<open>validate_healing_patch\<close> of \<^verbatim>\<open>src/backend/ai/healing_prompts.py\<close> checks its answer.  The model, JSON, YAML and
  the sandbox are parameters; database writes are taken to succeed.  An attempt is recorded by the columns that differ
  between attempts; the copies of the schemas and of the error, the diff lines and the times are left out.
\<close>

section \<open>Which errors may be healed\<close>

definition healable_error_types :: "(string \<times> string) list" where
  "healable_error_types =
     [(''ColumnNotFoundError'', ''column_renamed_or_removed''), (''JoinKeyMissingError'', ''join_key_missing_in_schema''),
      (''KeyError'', ''column_renamed_or_removed''), (''MergeError'', ''join_key_missing_in_schema''),
      (''ValueError'', ''type_mismatch_or_invalid_operation''), (''TypeError'', ''type_mismatch_or_invalid_operation''),
      (''AggregationError'', ''type_mismatch_or_invalid_operation'')]"

definition healable_patterns :: "string list" where
  "healable_patterns =
     [''not found in columns'', ''column not found'', ''missing column'', ''does not exist'', ''join key'', ''key not found'',
      ''cannot convert'', ''type mismatch'', ''invalid value'']"

definition not_healable_patterns :: "string list" where
  "not_healable_patterns =
     [''division by zero'', ''index out of range'', ''out of memory'', ''memory error'', ''permission denied'', ''connection refused'',
      ''timeout'', ''syntax error'', ''import error'', ''module not found'', ''attribute error'', ''file not found'',
      ''failed to read file'', ''unsupported file format'']"

definition mentions :: "string \<Rightarrow> string list \<Rightarrow> bool" where
  "mentions text markers \<longleftrightarrow> list_ex (contains text) markers"

text \<open>An error is given by the name of its class and its text.\<close>

definition is_healable :: "string \<Rightarrow> string \<Rightarrow> bool" where
  "is_healable cls message =
     (let m = py_lower message in
      if mentions m not_healable_patterns then False
      else if map_of healable_error_types cls = None then False
      else if cls \<in> {''ValueError'', ''TypeError'', ''AggregationError''} then mentions m healable_patterns
      else True)"

definition get_healing_scenario :: "string \<Rightarrow> string \<Rightarrow> string option" where
  "get_healing_scenario cls message =
     (if \<not> is_healable cls message then None
      else Some (case map_of healable_error_types cls of None \<Rightarrow> ''schema_drift_detected'' | Some s \<Rightarrow> s))"

section \<open>The answer of the model\<close>

definition required_patch_fields :: "string list" where
  "required_patch_fields = [''field'', ''new_value'', ''old_value'', ''step_name'']"

text \<open>The first complaint about an item, whose position is given; the required fields are listed in order.\<close>

definition item_complaint :: "nat \<Rightarrow> pyval \<Rightarrow> string option" where
  "item_complaint i item =
     (case item of
        PDict d \<Rightarrow>
          (let missing = filter (\<lambda>k. dict_get d (PStr k) = None) required_patch_fields in
           if missing = [] then None else Some (''patches['' @ nat_str i @ ''] missing fields: '' @ repr_strs missing))
      | _ \<Rightarrow> Some (''patches['' @ nat_str i @ ''] must be an object''))"

fun items_complaint :: "nat \<Rightarrow> pyval list \<Rightarrow> string option" where
  "items_complaint i [] = None"
| "items_complaint i (item # rest) = (case item_complaint i item of None \<Rightarrow> items_complaint (Suc i) rest | Some c \<Rightarrow> Some c)"

definition is_number :: "pyval \<Rightarrow> bool" where
  "is_number v = (case v of PBool _ \<Rightarrow> True | PInt _ \<Rightarrow> True | PFloat _ _ \<Rightarrow> True | _ \<Rightarrow> False)"

text \<open>\<^verbatim>\<open>v < 0.0 or v > 1.0\<close> of a number; nothing holds of a NaN.\<close>

definition outside_unit :: "pyval \<Rightarrow> bool" where
  "outside_unit v = (case py_float v of Inr (Fin q) \<Rightarrow> q < 0 \<or> q > 1 | Inr (Infinite pos) \<Rightarrow> True | _ \<Rightarrow> False)"

definition validate_healing_patch :: "pyval \<Rightarrow> string option" where
  "validate_healing_patch patch =
     (case patch of
        PDict d \<Rightarrow>
          (let confidence = get_none d ''confidence'' in
           if \<not> is_number confidence then Some (''Missing or invalid '' @ in_quotes ''confidence'' @ '' field'')
           else if outside_unit confidence
           then Some (in_quotes ''confidence'' @ '' must be between 0.0 and 1.0, got '' @ py_str confidence)
           else if \<not> is_str (get_none d ''change_description'')
           then Some (''Missing or invalid '' @ in_quotes ''change_description'' @ '' field'')
           else case get_none d ''patches'' of
               PList items \<Rightarrow> items_complaint 0 items
             | _ \<Rightarrow> Some (''Missing or invalid '' @ in_quotes ''patches'' @ '' field''))
      | _ \<Rightarrow> Some (''Expected dict, got '' @ type_name patch))"

text \<open>\<^verbatim>\<open>s.strip("`")\<close>.\<close>

definition strip_ticks :: "string \<Rightarrow> string" where
  "strip_ticks s = (let tick = (\<lambda>c. c = CHR 0x60) in rev (dropWhile tick (rev (dropWhile tick s))))"

definition clean_response :: "string \<Rightarrow> string" where
  "clean_response raw =
     (let cleaned = py_strip raw in
      if starts_with cleaned (replicate 3 (CHR 0x60))
      then let body = strip_ticks cleaned in if starts_with body ''json'' then py_strip (drop 4 body) else body
      else cleaned)"

definition parse_gemini_patch :: "(string \<Rightarrow> pyval result) \<Rightarrow> string \<Rightarrow> pyval result" where
  "parse_gemini_patch json_loads raw = json_loads (clean_response raw)"

section \<open>Errors of the model\<close>

definition quota_indicators :: "string list" where
  "quota_indicators = [''429'', ''quota'', ''resource_exhausted'', ''limit: 0'', ''free-tier'', ''rate_limit'', ''resource_exhausted'']"

definition is_quota_error :: "string \<Rightarrow> string option" where
  "is_quota_error message =
     (let m = py_lower message in
      if mentions m quota_indicators
      then Some (if contains m ''limit: 0'' then ''AI service temporarily unavailable (quota exceeded). Try again later.''
        else if contains m ''429'' then ''AI service rate limited. Waiting before retry...''
        else ''AI quota exceeded. Please wait and try again.'')
      else None)"

definition get_user_friendly_error :: "string \<Rightarrow> string" where
  "get_user_friendly_error message =
     (case is_quota_error message of
        Some msg \<Rightarrow> msg
      | None \<Rightarrow>
          (let m = py_lower message in
           if contains m ''json'' \<and> contains m ''parse'' then ''AI returned invalid response format''
           else if contains m ''timeout'' then ''AI service request timed out''
           else if contains m ''connection'' \<or> contains m ''network'' then ''Network error connecting to AI service''
           else ''AI error: '' @ take 100 message))"

section \<open>The attempts\<close>

datatype attempt_status = ATTEMPT_FAILED | AI_INVALID | VALIDATION_FAILED | APPLIED | NON_HEALABLE

record sandbox_result =
  sb_success :: bool
  sb_error :: "string option"

record healing_attempt =
  ha_attempt_number :: nat
  ha_status :: attempt_status
  ha_gemini_patch :: "pyval option"
  ha_ai_error :: "string option"
  ha_proposed_yaml :: "string option"
  ha_parser_valid :: "bool option"
  ha_sandbox_passed :: "bool option"
  ha_validation_errors :: "string list option"
  ha_applied :: bool
  ha_confidence :: "flt option"

record healing_result =
  hr_success :: bool
  hr_patched_yaml :: "string option"
  hr_confidence :: flt
  hr_description :: string
  hr_attempts :: nat
  hr_error :: "string option"
  hr_patch :: "pyval option"

text \<open>The parameters: the answer of the model to the same prompt at each attempt, JSON and YAML, the
  sandbox, and the text of an exception.\<close>

record heal_env =
  call_gemini :: "nat \<Rightarrow> string result"
  json_loads :: "string \<Rightarrow> pyval result"
  yaml_load :: "string \<Rightarrow> pyval result"
  yaml_dump :: "pyval \<Rightarrow> string result"
  sandbox :: "string \<Rightarrow> sandbox_result"
  exn_text :: "pyexn \<Rightarrow> string"

definition max_healing_retries :: nat where
  "max_healing_retries = 3"

definition failed_attempt :: "nat \<Rightarrow> attempt_status \<Rightarrow> pyval option \<Rightarrow> string option \<Rightarrow> healing_attempt" where
  "failed_attempt n status patch ai_error =
     \<lparr>ha_attempt_number = n, ha_status = status, ha_gemini_patch = patch, ha_ai_error = ai_error, ha_proposed_yaml = None,
      ha_parser_valid = None, ha_sandbox_passed = None, ha_validation_errors = None, ha_applied = False, ha_confidence = None\<rparr>"

definition confidence_of :: "pydict \<Rightarrow> flt" where
  "confidence_of d = (case py_float (get_or d ''confidence'' (PFloat ''0.0'' (Some 0))) of Inr f \<Rightarrow> f | Inl e \<Rightarrow> NaN)"

text \<open>What one attempt comes to: it is recorded and the next one follows, it is recorded and
  the agent gives up, or it is recorded and the patched text is the result.\<close>

datatype attempt_outcome = Retry healing_attempt | GiveUp healing_attempt | Healed healing_attempt healing_result

definition try_patch :: "heal_env \<Rightarrow> string \<Rightarrow> nat \<Rightarrow> pyval \<Rightarrow> attempt_outcome" where
  "try_patch env pipeline_yaml n patch =
     (case validate_healing_patch patch of
        Some complaint \<Rightarrow> Retry (failed_attempt n AI_INVALID (Some patch) (Some complaint))
      | None \<Rightarrow>
          (case patch of
             PDict d \<Rightarrow>
               if \<not> truthy (get_none d ''patches'')
               then Retry (failed_attempt n AI_INVALID (Some patch) (Some ''Gemini returned no patch operations''))
               else
                 (case apply_patch (yaml_load env) (yaml_dump env) pipeline_yaml d of
                    Inl e \<Rightarrow> Retry ((failed_attempt n VALIDATION_FAILED (Some patch) (Some (''Patch application failed: '' @ exn_text env e)))
                        \<lparr>ha_validation_errors := Some [exn_text env e]\<rparr>)
                  | Inr patched \<Rightarrow>
                      (let sb = sandbox env patched in
                       if \<not> sb_success sb
                       then Retry ((failed_attempt n VALIDATION_FAILED (Some patch) None)
                          \<lparr>ha_proposed_yaml := Some patched, ha_parser_valid := Some True, ha_sandbox_passed := Some False,
                           ha_validation_errors := (case sb_error sb of None \<Rightarrow> None | Some e \<Rightarrow> if e = [] then None else Some [e])\<rparr>)
                       else Healed ((failed_attempt n APPLIED (Some patch) None)
                          \<lparr>ha_proposed_yaml := Some patched, ha_parser_valid := Some True, ha_sandbox_passed := Some True,
                           ha_applied := True, ha_confidence := Some (confidence_of d)\<rparr>)
                          \<lparr>hr_success = True, hr_patched_yaml = Some patched, hr_confidence = confidence_of d,
                           hr_description = py_str (get_or d ''change_description'' (PStr [])), hr_attempts = n, hr_error = None,
                           hr_patch = Some patch\<rparr>))
           | _ \<Rightarrow> Retry (failed_attempt n AI_INVALID (Some patch) None)))"

definition heal_once :: "heal_env \<Rightarrow> string \<Rightarrow> nat \<Rightarrow> attempt_outcome" where
  "heal_once env pipeline_yaml n =
     (case call_gemini env n of
        Inl e \<Rightarrow>
          (let att = failed_attempt n ATTEMPT_FAILED None (Some (get_user_friendly_error (exn_text env e))) in
           if is_quota_error (exn_text env e) = None then Retry att else GiveUp att)
      | Inr raw \<Rightarrow>
          (case parse_gemini_patch (json_loads env) raw of
             Inl e \<Rightarrow> Retry (failed_attempt n AI_INVALID (Some (PDict [(PStr ''raw_response'', PStr (take 1000 raw))]))
                 (Some (''Invalid JSON patch: '' @ exn_text env e)))
           | Inr patch \<Rightarrow> try_patch env pipeline_yaml n patch))"

definition healing_failed :: healing_result where
  "healing_failed =
     \<lparr>hr_success = False, hr_patched_yaml = None, hr_confidence = Fin 0, hr_description = [], hr_attempts = max_healing_retries,
      hr_error = Some (''Healing failed after '' @ nat_str max_healing_retries @ '' attempts''), hr_patch = None\<rparr>"

fun heal_attempts :: "heal_env \<Rightarrow> string \<Rightarrow> nat list \<Rightarrow> healing_attempt list \<times> healing_result" where
  "heal_attempts env pipeline_yaml [] = ([], healing_failed)"
| "heal_attempts env pipeline_yaml (n # ns) =
     (case heal_once env pipeline_yaml n of
        Retry att \<Rightarrow> (case heal_attempts env pipeline_yaml ns of (atts, res) \<Rightarrow> (att # atts, res))
      | GiveUp att \<Rightarrow> ([att], healing_failed)
      | Healed att res \<Rightarrow> ([att], res))"

text \<open>The attempts in the order they are recorded, and the result.\<close>

definition attempt_heal :: "heal_env \<Rightarrow> string \<Rightarrow> healing_attempt list \<times> healing_result" where
  "attempt_heal env pipeline_yaml = heal_attempts env pipeline_yaml [1..<max_healing_retries + 1]"

section \<open>What healing guarantees\<close>

definition heals :: "heal_env \<Rightarrow> string \<Rightarrow> nat \<Rightarrow> bool" where
  "heals env y n \<longleftrightarrow> (\<exists>att res. heal_once env y n = Healed att res)"

definition retries :: "heal_env \<Rightarrow> string \<Rightarrow> nat \<Rightarrow> bool" where
  "retries env y n \<longleftrightarrow> (\<exists>att. heal_once env y n = Retry att)"

lemma try_patch_record:
  "try_patch env y n patch = Retry att \<Longrightarrow> ha_attempt_number att = n \<and> \<not> ha_applied att"
  "try_patch env y n patch = Healed att res \<Longrightarrow> ha_attempt_number att = n \<and> ha_applied att \<and> hr_success res \<and> hr_attempts res = n"
  "try_patch env y n patch \<noteq> GiveUp att"
  by (auto simp: try_patch_def failed_attempt_def Let_def split: option.splits pyval.splits sum.splits if_splits)

lemma heal_once_record:
  "heal_once env y n = Retry att \<Longrightarrow> ha_attempt_number att = n \<and> \<not> ha_applied att"
  "heal_once env y n = GiveUp att \<Longrightarrow> ha_attempt_number att = n \<and> \<not> ha_applied att"
  "heal_once env y n = Healed att res \<Longrightarrow> ha_attempt_number att = n \<and> ha_applied att \<and> hr_success res \<and> hr_attempts res = n"
  using try_patch_record
  by (auto simp: heal_once_def failed_attempt_def Let_def split: option.splits sum.splits if_splits)

lemma heal_onceE:
  assumes "heal_once env y n = Healed att res"
  obtains raw d patched where "call_gemini env n = Inr raw" "parse_gemini_patch (json_loads env) raw = Inr (PDict d)"
    "validate_healing_patch (PDict d) = None" "apply_patch (yaml_load env) (yaml_dump env) y d = Inr patched"
    "sb_success (sandbox env patched)" "hr_patched_yaml res = Some patched" "hr_patch res = Some (PDict d)"
  using assms
  by (auto simp: heal_once_def try_patch_def Let_def split: option.splits pyval.splits sum.splits if_splits)

text \<open>The attempts from the first to the one that ends the loop, or to the last.\<close>

lemma heal_attempts_run:
  assumes "heal_attempts env y ns = (atts, res)"
  shows "map ha_attempt_number atts = take (length atts) ns \<and> length atts \<le> length ns \<and> (ns \<noteq> [] \<longrightarrow> atts \<noteq> []) \<and>
    (\<forall>att \<in> set (butlast atts). \<not> ha_applied att) \<and>
    (if hr_success res then \<exists>att. atts \<noteq> [] \<and> ha_applied (last atts) \<and> heal_once env y (ns ! (length atts - 1)) = Healed att res
     else res = healing_failed \<and> (\<forall>att \<in> set atts. \<not> ha_applied att)) \<and>
    (\<forall>m < length atts - 1. retries env y (ns ! m)) \<and>
    (hr_success res \<longleftrightarrow> (\<exists>k < length ns. heals env y (ns ! k) \<and> (\<forall>m < k. retries env y (ns ! m))))"
  using assms
proof (induction ns arbitrary: atts)
  case Nil
  then show ?case by (auto simp: healing_failed_def)
next
  case (Cons n ns)
  show ?case
  proof (cases "heal_once env y n")
    case (Retry att)
    then obtain atts' where rest: "heal_attempts env y ns = (atts', res)" and atts: "atts = att # atts'"
      using Cons.prems by (auto split: prod.splits)
    note ih = Cons.IH [OF rest] and rec = heal_once_record(1) [OF Retry]
    have r: "retries env y n" "\<not> heals env y n" using Retry by (simp_all add: retries_def heals_def)
    have ex: "(\<exists>k < length (n # ns). heals env y ((n # ns) ! k) \<and> (\<forall>m < k. retries env y ((n # ns) ! m))) \<longleftrightarrow>
        (\<exists>k < length ns. heals env y (ns ! k) \<and> (\<forall>m < k. retries env y (ns ! m)))" (is "?L \<longleftrightarrow> ?R")
    proof
      assume ?L
      then obtain k where k: "k < length (n # ns)" "heals env y ((n # ns) ! k)" "\<forall>m < k. retries env y ((n # ns) ! m)" by blast
      with r(2) obtain j where j: "k = Suc j" by (cases k) auto
      have "retries env y (ns ! m)" if "m < j" for m using k(3)[rule_format, of "Suc m"] that j by simp
      with k j show ?R by auto
    next
      assume ?R
      then obtain k where k: "k < length ns" "heals env y (ns ! k)" "\<forall>m < k. retries env y (ns ! m)" by blast
      have "retries env y ((n # ns) ! m)" if "m < Suc k" for m using that k(3) r(1) by (cases m) auto
      with k show ?L by (intro exI [of _ "Suc k"]) auto
    qed
    have "retries env y ((n # ns) ! m)" if "m < length atts'" "\<forall>m < length atts' - 1. retries env y (ns ! m)" for m
      using that r(1) by (cases m) auto
    then show ?thesis unfolding ex using ih rec atts
      by (cases atts') (auto simp: nth_Cons')
  next
    case (GiveUp att)
    have "\<not> heals env y n" "\<not> retries env y n" using GiveUp by (simp_all add: retries_def heals_def)
    then have "\<not> (heals env y ((n # ns) ! k) \<and> (\<forall>m < k. retries env y ((n # ns) ! m)))" for k by (cases k) auto
    then show ?thesis using Cons.prems GiveUp heal_once_record(2) [OF GiveUp] by (auto simp: healing_failed_def)
  next
    case (Healed att res')
    then have "\<exists>k < length (n # ns). heals env y ((n # ns) ! k) \<and> (\<forall>m < k. retries env y ((n # ns) ! m))"
      by (intro exI [of _ 0]) (auto simp: heals_def)
    then show ?thesis using Cons.prems Healed heal_once_record(3) [OF Healed] by auto
  qed
qed

lemma contains_append: "contains t p \<Longrightarrow> contains (s @ t @ u) p"
proof -
  assume "contains t p"
  then obtain a b where "t = a @ p @ b" by (auto simp: contains_iff)
  then have "s @ t @ u = (s @ a) @ p @ (b @ u)" by simp
  then show ?thesis unfolding contains_iff by blast
qed

section \<open>Properties\<close>

text \<open>C27.  Healing tries at most three times and stops at the first success.  It records one attempt each time,
  numbered from one; it succeeds exactly if one of the first three attempts heals and those before it failed without
  a quota error; only the last attempt is recorded as applied, and only then.  The text it returns comes from an
  answer that is a valid patch, applies to the pipeline, and passes the sandbox.\<close>

theorem healing_sound:
  assumes "attempt_heal env y = (atts, res)"
  shows "map ha_attempt_number atts = [1..<length atts + 1] \<and> 1 \<le> length atts \<and> length atts \<le> 3 \<and>
    (hr_success res \<longleftrightarrow> (\<exists>k \<in> {1..3}. heals env y k \<and> (\<forall>m \<in> {1..<k}. retries env y m))) \<and>
    filter ha_applied atts = (if hr_success res then [last atts] else []) \<and>
    (hr_success res \<longrightarrow> hr_attempts res = length atts \<and> (\<exists>raw d patched. call_gemini env (length atts) = Inr raw \<and>
       parse_gemini_patch (json_loads env) raw = Inr (PDict d) \<and> validate_healing_patch (PDict d) = None \<and>
       apply_patch (yaml_load env) (yaml_dump env) y d = Inr patched \<and> sb_success (sandbox env patched) \<and>
       hr_patched_yaml res = Some patched \<and> hr_patch res = Some (PDict d)))"
proof -
  have three: "[1..<max_healing_retries + 1] = [1, 2, 3::nat]" by (simp add: max_healing_retries_def upt_rec)
  note run = heal_attempts_run [OF assms [unfolded attempt_heal_def three]]
  then have len: "1 \<le> length atts" "length atts \<le> 3" by (auto simp: Suc_le_eq)
  have take: "take k [1, 2, 3] = [1..<k + 1]" if "k \<le> 3" for k :: nat
    using that by (auto simp: le_Suc_eq numeral_3_eq_3 upt_rec)
  have at: "[1, 2, 3::nat] ! m = m + 1" if "m < 3" for m using that by (auto simp: less_Suc_eq numeral_3_eq_3)
  have steps: "(\<forall>m < k. retries env y ([1, 2, 3] ! m)) \<longleftrightarrow> (\<forall>m < k. retries env y (m + 1))" if "k < 3" for k
    using that at less_trans by metis
  have len3: "length [1, 2, 3::nat] = 3" by simp
  have "hr_success res \<longleftrightarrow> (\<exists>k < 3. heals env y ([1, 2, 3] ! k) \<and> (\<forall>m < k. retries env y ([1, 2, 3] ! m)))"
    using run unfolding len3 by blast
  also have "\<dots> \<longleftrightarrow> (\<exists>k < 3. heals env y (k + 1) \<and> (\<forall>m < k. retries env y (m + 1)))"
    by (intro ex_cong1 conj_cong refl) (simp_all only: at steps)
  finally have exact: "hr_success res \<longleftrightarrow> (\<exists>k < 3. heals env y (k + 1) \<and> (\<forall>m < k. retries env y (m + 1)))" .
  have "hr_success res \<longleftrightarrow> (\<exists>k \<in> {1..3}. heals env y k \<and> (\<forall>m \<in> {1..<k}. retries env y m))" (is "_ \<longleftrightarrow> ?R")
  proof
    assume "hr_success res"
    then obtain k where k: "k < 3" "heals env y (k + 1)" "\<forall>m < k. retries env y (m + 1)" using exact by blast
    have "retries env y m" if "m \<in> {1..<k + 1}" for m using k(3)[rule_format, of "m - 1"] that by auto
    with k show ?R by (intro bexI [of _ "k + 1"]) auto
  next
    assume ?R
    then obtain k where k: "1 \<le> k" "k \<le> 3" "heals env y k" "\<forall>m \<in> {1..<k}. retries env y m" by auto
    then show "hr_success res" unfolding exact by (intro exI [of _ "k - 1"]) auto
  qed
  moreover have "filter ha_applied atts = (if hr_success res then [last atts] else [])"
  proof (cases "hr_success res")
    case True
    then have "atts = butlast atts @ [last atts]" "ha_applied (last atts)" using run by auto
    moreover have "filter ha_applied (butlast atts) = []" using run by (auto simp: filter_empty_conv)
    ultimately show ?thesis using True by (metis append_Nil filter.simps filter_append)
  next
    case False
    then show ?thesis using run by (auto simp: filter_empty_conv)
  qed
  moreover have "hr_attempts res = length atts \<and> (\<exists>raw d patched. call_gemini env (length atts) = Inr raw \<and>
       parse_gemini_patch (json_loads env) raw = Inr (PDict d) \<and> validate_healing_patch (PDict d) = None \<and>
       apply_patch (yaml_load env) (yaml_dump env) y d = Inr patched \<and> sb_success (sandbox env patched) \<and>
       hr_patched_yaml res = Some patched \<and> hr_patch res = Some (PDict d))" if ok: "hr_success res"
  proof -
    from run ok obtain att where "heal_once env y ([1, 2, 3] ! (length atts - 1)) = Healed att res" by auto
    moreover have "[1, 2, 3] ! (length atts - 1) = length atts" using at [of "length atts - 1"] len by simp
    ultimately have h: "heal_once env y (length atts) = Healed att res" by metis
    then have "hr_attempts res = length atts" using heal_once_record(3) by blast
    then show ?thesis using h by (elim heal_onceE) blast
  qed
  moreover have "map ha_attempt_number atts = [1..<length atts + 1]" using run take [OF len(2)] by simp
  ultimately show ?thesis using len by blast
qed

text \<open>A model whose second answer heals, for the examples.\<close>

definition demo_answer :: pyval where
  "demo_answer = PDict ([(PStr ''confidence'', PFloat ''0.9'' (Some (9 / 10))), (PStr ''change_description'', PStr ''x is z'')] @ demo_patch)"

definition demo_heal :: heal_env where
  "demo_heal = \<lparr>call_gemini = (\<lambda>n. if n = 1 then Inl (OtherError ''timeout'') else Inr ''answer''),
     json_loads = (\<lambda>t. Inr demo_answer), yaml_load = demo_load, yaml_dump = demo_dump,
     sandbox = (\<lambda>y. \<lparr>sb_success = True, sb_error = None\<rparr>), exn_text = (\<lambda>e. case e of OtherError m \<Rightarrow> m | _ \<Rightarrow> [])\<rparr>"

lemma demo_healed:
  "(case attempt_heal demo_heal ''old'' of (atts, res) \<Rightarrow> (length atts, hr_success res, hr_patched_yaml res, map ha_applied atts)) =
   (2, True, Some ''new'', [False, True])"
  by code_simp

theorem healing_sound_witness:
  "\<exists>atts res. attempt_heal demo_heal ''old'' = (atts, res) \<and> length atts = 2 \<and> hr_patched_yaml res = Some ''new'' \<and>
     map ha_applied atts = [False, True] \<and> (\<exists>d. apply_patch demo_load demo_dump ''old'' d = Inr ''new'')"
proof -
  obtain atts res where r: "attempt_heal demo_heal ''old'' = (atts, res)" by fastforce
  with demo_healed have v: "length atts = 2" "hr_success res" "hr_patched_yaml res = Some ''new''" "map ha_applied atts = [False, True]" by auto
  from healing_sound [OF r] v r have "\<exists>d. apply_patch (yaml_load demo_heal) (yaml_dump demo_heal) ''old'' d = Inr ''new''" by fastforce
  with v r show ?thesis by (simp add: demo_heal_def)
qed

text \<open>C28.  Healing rewrites only the steps that the patch names: when what is dumped is read back unchanged, a healed
  pipeline has the steps of the failed one in the same order, and each step whose name is in no item of the
  patch is the same.\<close>

theorem healed_keeps_other_steps:
  assumes "\<And>d t. yaml_dump env d = Inr t \<Longrightarrow> yaml_load env t = Inr d"
    and "attempt_heal env y = (atts, res)" and "hr_patched_yaml res = Some text"
    and "yaml_load env y = Inr raw" and "find_steps raw = Inr (document, sts)"
  shows "\<exists>d items document' sts'. hr_patch res = Some (PDict d) \<and> get_none d ''patches'' = PList items \<and>
    bindE (yaml_load env text) find_steps = Inr (document', sts') \<and> length sts' = length sts \<and>
    (\<forall>j < length sts. (\<forall>item \<in> set items. \<not> named (item_text ''step_name'' item) (sts ! j)) \<longrightarrow> sts' ! j = sts ! j)"
proof -
  note run = heal_attempts_run [OF assms(2) [unfolded attempt_heal_def]]
  then have "hr_success res" using assms(3) by (auto simp: healing_failed_def split: if_splits)
  with run obtain n att where "heal_once env y n = Healed att res" by auto
  then obtain raw' d where d: "validate_healing_patch (PDict d) = None" "apply_patch (yaml_load env) (yaml_dump env) y d = Inr text"
    "hr_patch res = Some (PDict d)" using assms(3) by (elim heal_onceE) auto
  from d(1) obtain items where items: "get_none d ''patches'' = PList items"
    by (auto simp: validate_healing_patch_def Let_def split: if_splits pyval.splits)
  then have p: "get_or d ''patches'' (PList []) = PList items" by (auto simp: get_none_def get_or_def split: option.splits)
  have "\<exists>document' sts'. bindE (yaml_load env text) find_steps = Inr (document', sts') \<and> length sts' = length sts \<and>
    (\<forall>j < length sts. (\<forall>item \<in> set items. \<not> named (item_text ''step_name'' item) (sts ! j)) \<longrightarrow> sts' ! j = sts ! j)"
    by (rule apply_patch_only_named_steps [OF _ d(2) assms(4,5) p]) (rule assms(1))
  then obtain document' sts' where "bindE (yaml_load env text) find_steps = Inr (document', sts')" "length sts' = length sts"
    "\<forall>j < length sts. (\<forall>item \<in> set items. \<not> named (item_text ''step_name'' item) (sts ! j)) \<longrightarrow> sts' ! j = sts ! j" by (elim exE conjE)
  with items d(3) show ?thesis by (intro exI conjI)
qed

theorem healed_keeps_other_steps_witness:
  "\<exists>res d items document' sts'. snd (attempt_heal demo_heal ''old'') = res \<and> hr_patch res = Some (PDict d) \<and> get_none d ''patches'' = PList items \<and>
     bindE (demo_load ''new'') find_steps = Inr (document', sts') \<and> length sts' = 2 \<and>
     (\<forall>j < 2. (\<forall>item \<in> set items. \<not> named (item_text ''step_name'' item) (snd (projr (find_steps (PDict demo_document))) ! j)) \<longrightarrow>
        sts' ! j = snd (projr (find_steps (PDict demo_document))) ! j)"
proof -
  have rt: "yaml_dump demo_heal d = Inr t \<Longrightarrow> yaml_load demo_heal t = Inr d" for d t
    by (auto simp: demo_heal_def demo_dump_def demo_load_def split: if_splits)
  obtain atts res where r: "attempt_heal demo_heal ''old'' = (atts, res)" by fastforce
  with demo_healed have p: "hr_patched_yaml res = Some ''new''" by auto
  have ld: "yaml_load demo_heal ''old'' = Inr (PDict demo_document)" by (simp add: demo_heal_def demo_load_def)
  have "length (snd (projr (find_steps (PDict demo_document)))) = 2 \<and> \<not> isl (find_steps (PDict demo_document))" by code_simp
  then obtain document sts where fs: "find_steps (PDict demo_document) = Inr (document, sts)" "length sts = 2"
    by (cases "find_steps (PDict demo_document)") auto
  from healed_keeps_other_steps [OF rt r p ld fs(1)] r fs show ?thesis by (fastforce simp: demo_heal_def)
qed

text \<open>Which step errors are healed: those about a missing column or join key, and failed aggregations whose text
  points to the data, unless the text contains a phrase of an error that cannot be healed.\<close>

theorem step_error_healable:
  "is_healable (error_type e) (error_message e) \<longleftrightarrow>
     \<not> mentions (py_lower (error_message e)) not_healable_patterns \<and>
     (case e of
        ColumnNotFoundError sn col cols \<Rightarrow> True
      | JoinKeyMissingError sn key side cols \<Rightarrow> True
      | AggregationError sn col func reason \<Rightarrow> mentions (py_lower (error_message e)) healable_patterns
      | _ \<Rightarrow> False)"
  by (cases e) (simp_all add: is_healable_def healable_error_types_def Let_def)

text \<open>A missing column is not healed if its name happens to contain such a phrase: the failure of a step
  on a column whose name contains timeout is taken for one that cannot be healed.\<close>

theorem column_named_timeout_not_healed:
  "\<not> is_healable ''ColumnNotFoundError'' (error_message (ColumnNotFoundError sn (u @ ''timeout'' @ v) cols))"
proof -
  let ?rest = "[sq] @ '' not found. Available columns: '' @ repr_strs cols @ ''.'' @ hint (find_closest_match (u @ ''timeout'' @ v) cols)"
  let ?e = "ColumnNotFoundError sn (u @ ''timeout'' @ v) cols"
  obtain x y where "error_message ?e = x @ ''timeout'' @ y"
    by (rule that [of "''Step '' @ in_quotes sn @ '': '' @ ''Column '' @ [sq] @ u" "v @ ?rest"]) (simp add: error_message_def in_quotes_def)
  then have "py_lower (error_message ?e) = py_lower x @ py_lower ''timeout'' @ py_lower y" by (simp only: py_lower_def map_append)
  moreover have "py_lower ''timeout'' = ''timeout''" by code_simp
  ultimately have "py_lower (error_message ?e) = py_lower x @ ''timeout'' @ py_lower y" by (simp only:)
  then have "contains (py_lower (error_message ?e)) ''timeout''" unfolding contains_iff by blast
  moreover have "''timeout'' \<in> set not_healable_patterns" by (simp add: not_healable_patterns_def)
  ultimately have "mentions (py_lower (error_message ?e)) not_healable_patterns"
    unfolding mentions_def list_ex_iff by (rule bexI)
  then show ?thesis by (simp add: is_healable_def)
qed

text \<open>When the quota of the model is used up, healing gives up after the first call but reports three attempts.\<close>

theorem quota_reports_three_attempts:
  "case attempt_heal (demo_heal\<lparr>call_gemini := (\<lambda>n. Inl (OtherError ''HTTP 429''))\<rparr>) y of
     (atts, res) \<Rightarrow> length atts = 1 \<and> hr_attempts res = 3 \<and> hr_error res = Some ''Healing failed after 3 attempts''"
proof -
  have n: "[1..<max_healing_retries + 1] = [1, 2, 3::nat]" by (simp add: max_healing_retries_def upt_rec)
  have "is_quota_error ''HTTP 429'' \<noteq> None" by code_simp
  moreover have "hr_attempts healing_failed = 3" "hr_error healing_failed = Some ''Healing failed after 3 attempts''" by code_simp+
  ultimately show ?thesis unfolding attempt_heal_def n by (simp add: heal_once_def demo_heal_def Let_def)
qed

end
