(* ===== verification/TextDiff.thy ===== *)
theory TextDiff
  imports StringUtils
begin

text \<open>
  \<^verbatim>\<open>difflib.unified_diff\<close> of the Python library, as \<^verbatim>\<open>backend/pipeline/versioning.py\<close> and the healing
  agent use it: matching blocks, edit operations, their grouping into hunks with three lines of
  context, and the lines of the diff.
\<close>

section \<open>Definitions\<close>

definition shift_block :: "nat \<Rightarrow> nat \<Rightarrow> nat \<times> nat \<times> nat \<Rightarrow> nat \<times> nat \<times> nat" where
  "shift_block x y m = (case m of (i, j, k) \<Rightarrow> (i + x, j + y, k))"

function matching :: "('a \<Rightarrow> bool) \<Rightarrow> 'a list \<Rightarrow> 'a list \<Rightarrow> (nat \<times> nat \<times> nat) list" where
  "matching pop a b =
     (let (i, j, k) = find_longest_match pop a b in
      if k = 0 \<or> length a < i + k then []
      else matching pop (take i a) (take j b) @ [(i, j, k)] @
           map (shift_block (i + k) (j + k)) (matching pop (drop (i + k) a) (drop (j + k) b)))"
  by pat_completeness auto
termination
  by (relation "measure (\<lambda>(pop, a, b). length a)") auto

declare matching.simps [simp del]

text \<open>Blocks that touch in both sequences become one.\<close>

fun merge_adjacent :: "(nat \<times> nat \<times> nat) list \<Rightarrow> (nat \<times> nat \<times> nat) list" where
  "merge_adjacent ((i, j, k) # (i', j', k') # ms) =
     (if i + k = i' \<and> j + k = j' then merge_adjacent ((i, j, k + k') # ms)
      else (i, j, k) # merge_adjacent ((i', j', k') # ms))"
| "merge_adjacent ms = ms"

datatype tag = Replaced | Deleted | Inserted | Equal

record opcode =
  op_tag :: tag
  op_i1 :: nat
  op_i2 :: nat
  op_j1 :: nat
  op_j2 :: nat

definition op :: "tag \<Rightarrow> nat \<Rightarrow> nat \<Rightarrow> nat \<Rightarrow> nat \<Rightarrow> opcode" where
  "op tg i1 i2 j1 j2 = \<lparr>op_tag = tg, op_i1 = i1, op_i2 = i2, op_j1 = j1, op_j2 = j2\<rparr>"

definition change_between :: "nat \<Rightarrow> nat \<Rightarrow> nat \<Rightarrow> nat \<Rightarrow> opcode list" where
  "change_between i1 i2 j1 j2 =
     (if i1 < i2 \<and> j1 < j2 then [op Replaced i1 i2 j1 j2]
      else if i1 < i2 then [op Deleted i1 i2 j1 j2]
      else if j1 < j2 then [op Inserted i1 i2 j1 j2] else [])"

fun opcodes_from :: "nat \<Rightarrow> nat \<Rightarrow> (nat \<times> nat \<times> nat) list \<Rightarrow> opcode list" where
  "opcodes_from i j [] = []"
| "opcodes_from i j ((ai, bj, k) # ms) =
     change_between i ai j bj @ (if k > 0 then [op Equal ai (ai + k) bj (bj + k)] else []) @
     opcodes_from (ai + k) (bj + k) ms"

definition get_opcodes :: "'a list \<Rightarrow> 'a list \<Rightarrow> opcode list" where
  "get_opcodes a b = opcodes_from 0 0 (merge_adjacent (matching (popular b) a b) @ [(length a, length b, 0)])"

definition context_lines :: nat where "context_lines = 3"

definition trim_first :: "opcode list \<Rightarrow> opcode list" where
  "trim_first cs = (case cs of [] \<Rightarrow> [] | c # r \<Rightarrow>
     (if op_tag c = Equal then c\<lparr>op_i1 := max (op_i1 c) (op_i2 c - context_lines), op_j1 := max (op_j1 c) (op_j2 c - context_lines)\<rparr> else c) # r)"

definition trim_last :: "opcode list \<Rightarrow> opcode list" where
  "trim_last cs = (if cs = [] then [] else
     (let c = last cs in butlast cs @
       [if op_tag c = Equal then c\<lparr>op_i2 := min (op_i2 c) (op_i1 c + context_lines), op_j2 := min (op_j2 c) (op_j1 c + context_lines)\<rparr> else c]))"

fun group_opcodes :: "opcode list \<Rightarrow> opcode list \<Rightarrow> opcode list list" where
  "group_opcodes g [] = (if g = [] \<or> (length g = 1 \<and> op_tag (hd g) = Equal) then [] else [g])"
| "group_opcodes g (c # cs) =
     (if op_tag c = Equal \<and> op_i2 c - op_i1 c > 2 * context_lines
      then (g @ [c\<lparr>op_i2 := min (op_i2 c) (op_i1 c + context_lines), op_j2 := min (op_j2 c) (op_j1 c + context_lines)\<rparr>]) #
           group_opcodes [c\<lparr>op_i1 := max (op_i1 c) (op_i2 c - context_lines), op_j1 := max (op_j1 c) (op_j2 c - context_lines)\<rparr>] cs
      else group_opcodes (g @ [c]) cs)"

definition grouped_opcodes :: "'a list \<Rightarrow> 'a list \<Rightarrow> opcode list list" where
  "grouped_opcodes a b =
     (let codes = get_opcodes a b
      in group_opcodes [] (trim_last (trim_first (if codes = [] then [op Equal 0 1 0 1] else codes))))"

definition format_range :: "nat \<Rightarrow> nat \<Rightarrow> string" where
  "format_range start stop =
     (let len = stop - start in
      if len = 1 then nat_str (start + 1)
      else nat_str (if len = 0 then start else start + 1) @ '','' @ nat_str len)"

definition slice :: "nat \<Rightarrow> nat \<Rightarrow> 'a list \<Rightarrow> 'a list" where
  "slice i1 i2 xs = drop i1 (take i2 xs)"

definition op_lines :: "string list \<Rightarrow> string list \<Rightarrow> opcode \<Rightarrow> string list" where
  "op_lines a b c =
     (case op_tag c of
        Equal \<Rightarrow> map (\<lambda>l. '' '' @ l) (slice (op_i1 c) (op_i2 c) a)
      | Inserted \<Rightarrow> map (\<lambda>l. ''+'' @ l) (slice (op_j1 c) (op_j2 c) b)
      | Deleted \<Rightarrow> map (\<lambda>l. ''-'' @ l) (slice (op_i1 c) (op_i2 c) a)
      | Replaced \<Rightarrow> map (\<lambda>l. ''-'' @ l) (slice (op_i1 c) (op_i2 c) a) @ map (\<lambda>l. ''+'' @ l) (slice (op_j1 c) (op_j2 c) b))"

definition hunk :: "string list \<Rightarrow> string list \<Rightarrow> opcode list \<Rightarrow> string list" where
  "hunk a b g =
     (''@@ -'' @ format_range (op_i1 (hd g)) (op_i2 (last g)) @ '' +'' @ format_range (op_j1 (hd g)) (op_j2 (last g)) @ '' @@'') #
     concat (map (op_lines a b) g)"

text \<open>\<^verbatim>\<open>unified_diff(a, b, fromfile=..., tofile=..., lineterm="")\<close>.\<close>

definition unified_diff :: "string \<Rightarrow> string \<Rightarrow> string list \<Rightarrow> string list \<Rightarrow> string list" where
  "unified_diff fromfile tofile a b =
     (let groups = grouped_opcodes a b in
      if groups = [] then []
      else (''--- '' @ fromfile) # (''+++ '' @ tofile) # concat (map (hunk a b) groups))"

section \<open>The blocks match\<close>

lemma lcp_take:
  "lcp ok xs ys \<le> length xs \<and> lcp ok xs ys \<le> length ys \<and> take (lcp ok xs ys) xs = take (lcp ok xs ys) ys"
  by (induction ok xs ys rule: lcp.induct) auto

definition matches :: "'a list \<Rightarrow> 'a list \<Rightarrow> nat \<times> nat \<times> nat \<Rightarrow> bool" where
  "matches a b m \<longleftrightarrow> (case m of (i, j, k) \<Rightarrow>
     i + k \<le> length a \<and> j + k \<le> length b \<and> take k (drop i a) = take k (drop j b))"

lemma matches_longest: "fold better_match ms best = m \<Longrightarrow> m \<in> insert best (set ms)"
proof (induction ms arbitrary: best)
  case (Cons x ms)
  then have "m \<in> insert (better_match x best) (set ms)" by auto
  then show ?case by (auto simp: better_match_def split: if_splits)
qed simp

lemma matches_candidates:
  assumes "m \<in> set (concat (map (\<lambda>i. map (\<lambda>j. (i, j, lcp ok (drop i a) (drop j b))) [0..<length b]) [0..<length a]))"
  shows "matches a b m"
proof -
  from assms obtain i j where "m = (i, j, lcp ok (drop i a) (drop j b))" "i < length a" "j < length b" by auto
  with lcp_take [of ok "drop i a" "drop j b"] show ?thesis by (auto simp: matches_def)
qed

lemma matches_left:
  assumes "matches a b (i, j, k)" and "l = lcp (\<lambda>_. True) (rev (take i a)) (rev (take j b))"
  shows "matches a b (i - l, j - l, l + k) \<and> l \<le> i \<and> l \<le> j"
proof -
  have len: "length (take i a) = i" "length (take j b) = j" using assms(1) by (auto simp: matches_def)
  from lcp_take [of "\<lambda>_. True" "rev (take i a)" "rev (take j b)"]
  have l: "l \<le> i" "l \<le> j" and "rev (drop (i - l) (take i a)) = rev (drop (j - l) (take j b))"
    unfolding assms(2) [symmetric] take_rev length_rev len by simp_all
  then have left: "take l (drop (i - l) a) = take l (drop (j - l) b)" by (simp add: drop_take)
  have "drop l (drop (i - l) a) = drop i a" "drop l (drop (j - l) b) = drop j b" using l by simp_all
  then have "take (l + k) (drop (i - l) a) = take (l + k) (drop (j - l) b)"
    using left assms(1) by (simp add: take_add matches_def)
  then show ?thesis using l assms(1) by (auto simp: matches_def)
qed

lemma matches_right:
  assumes "matches a b (i, j, k)" and "r = lcp (\<lambda>_. True) (drop (i + k) a) (drop (j + k) b)"
  shows "matches a b (i, j, k + r)"
proof -
  from lcp_take [of "\<lambda>_. True" "drop (i + k) a" "drop (j + k) b"] assms
  have "take r (drop (i + k) a) = take r (drop (j + k) b)" "r \<le> length a - (i + k)" "r \<le> length b - (j + k)"
    by auto
  then show ?thesis using assms(1) by (auto simp: matches_def take_add add.commute)
qed

lemma find_longest_match_matches: "matches a b (find_longest_match pop a b)"
proof -
  let ?ms = "concat (map (\<lambda>i. map (\<lambda>j. (i, j, lcp (\<lambda>c. \<not> pop c) (drop i a) (drop j b))) [0..<length b]) [0..<length a])"
  obtain i j k where m: "fold better_match ?ms (0, 0, 0) = (i, j, k)" by (cases "fold better_match ?ms (0, 0, 0)")
  from matches_longest [OF this] have "(i, j, k) = (0, 0, 0) \<or> (i, j, k) \<in> set ?ms" by blast
  then have core: "matches a b (i, j, k)"
  proof
    assume "(i, j, k) = (0, 0, 0)"
    then show ?thesis by (simp add: matches_def)
  qed (rule matches_candidates)
  let ?l = "lcp (\<lambda>_. True) (rev (take i a)) (rev (take j b))"
  let ?r = "lcp (\<lambda>_. True) (drop (i + k) a) (drop (j + k) b)"
  from matches_left [OF core refl] have left: "matches a b (i - ?l, j - ?l, ?l + k)" "?l \<le> i" "?l \<le> j" by simp_all
  have "i - ?l + (?l + k) = i + k" "j - ?l + (?l + k) = j + k" using left(2,3) by simp_all
  with matches_right [OF left(1) refl] have "matches a b (i - ?l, j - ?l, ?l + k + ?r)" by (simp only:)
  then show ?thesis by (simp add: find_longest_match_def m add.assoc Let_def)
qed

text \<open>Blocks in order: each one matches and starts where the last one ended, or later.\<close>

fun blocks_ok :: "'a list \<Rightarrow> 'a list \<Rightarrow> nat \<Rightarrow> nat \<Rightarrow> (nat \<times> nat \<times> nat) list \<Rightarrow> bool" where
  "blocks_ok a b i j [] = (i \<le> length a \<and> j \<le> length b)"
| "blocks_ok a b i j ((ai, bj, k) # ms) = (i \<le> ai \<and> j \<le> bj \<and> matches a b (ai, bj, k) \<and> blocks_ok a b (ai + k) (bj + k) ms)"

fun ends_by :: "nat \<Rightarrow> nat \<Rightarrow> (nat \<times> nat \<times> nat) list \<Rightarrow> bool" where
  "ends_by x y [] = True"
| "ends_by x y ((ai, bj, k) # ms) = (ai + k \<le> x \<and> bj + k \<le> y \<and> ends_by x y ms)"

lemma blocks_ok_append:
  assumes "blocks_ok a b i j ms" and "ends_by x y ms" and "i \<le> x" and "j \<le> y" and "blocks_ok a b x y ns"
  shows "blocks_ok a b i j (ms @ ns)"
  using assms
proof (induction ms arbitrary: i j)
  case Nil
  then show ?case by (cases ns) auto
next
  case (Cons m ms)
  then show ?case by (cases m) auto
qed

lemma blocks_ok_ends: "blocks_ok a b i j ms \<Longrightarrow> ends_by (length a) (length b) ms"
  by (induction ms arbitrary: i j) (auto simp: matches_def split: prod.splits)

lemma blocks_ok_take:
  "x \<le> length a \<Longrightarrow> y \<le> length b \<Longrightarrow> blocks_ok (take x a) (take y b) i j ms \<Longrightarrow> blocks_ok a b i j ms"
proof (induction ms arbitrary: i j)
  case (Cons m ms)
  obtain ai bj k where m: "m = (ai, bj, k)" by (cases m)
  with Cons.prems(3) have "matches (take x a) (take y b) (ai, bj, k)" by simp
  then have "ai + k \<le> x" "bj + k \<le> y" "matches a b (ai, bj, k)"
    using Cons.prems(1,2) by (auto simp: matches_def drop_take min_absorb1)
  with m Cons show ?case by simp
qed simp

lemma blocks_ok_drop:
  "x \<le> length a \<Longrightarrow> y \<le> length b \<Longrightarrow> blocks_ok (drop x a) (drop y b) i j ms \<Longrightarrow>
     blocks_ok a b (i + x) (j + y) (map (shift_block x y) ms)"
proof (induction ms arbitrary: i j)
  case (Cons m ms)
  obtain ai bj k where m: "m = (ai, bj, k)" by (cases m)
  with Cons.prems have ok: "i \<le> ai" "j \<le> bj" "matches (drop x a) (drop y b) (ai, bj, k)" "blocks_ok (drop x a) (drop y b) (ai + k) (bj + k) ms"
    by auto
  from Cons.IH [OF Cons.prems(1,2) ok(4)] ok m Cons.prems(1,2) show ?case
    by (auto simp: matches_def shift_block_def add_ac)
qed auto

lemma matching_ok: "blocks_ok a b 0 0 (matching pop a b)"
proof (induction pop a b rule: matching.induct)
  case (1 pop a b)
  obtain i j k where m: "find_longest_match pop a b = (i, j, k)" by (cases "find_longest_match pop a b")
  with find_longest_match_matches [of a b pop] have ok: "matches a b (i, j, k)" by simp
  show ?case
  proof (cases "k = 0")
    case True
    then show ?thesis using m by (subst matching.simps) simp
  next
    case False
    have le: "i + k \<le> length a" "j + k \<le> length b" using ok by (auto simp: matches_def)
    have left: "blocks_ok (take i a) (take j b) 0 0 (matching pop (take i a) (take j b))"
      and right: "blocks_ok (drop (i + k) a) (drop (j + k) b) 0 0 (matching pop (drop (i + k) a) (drop (j + k) b))"
      using "1.IH" [OF m [symmetric] refl refl] False le by simp_all
    have e: "ends_by i j (matching pop (take i a) (take j b))" using blocks_ok_ends [OF left] le by simp
    have "blocks_ok a b 0 0 (matching pop (take i a) (take j b))" using blocks_ok_take [OF _ _ left] le by simp
    moreover have "blocks_ok a b i j ((i, j, k) # map (shift_block (i + k) (j + k)) (matching pop (drop (i + k) a) (drop (j + k) b)))"
      using blocks_ok_drop [OF le right] ok by simp
    ultimately show ?thesis using e m False le by (subst matching.simps) (simp add: blocks_ok_append)
  qed
qed

lemma merge_ok: "blocks_ok a b i j ms \<Longrightarrow> blocks_ok a b i j (merge_adjacent ms)"
proof (induction ms arbitrary: i j rule: merge_adjacent.induct)
  case (1 ai bj k ai' bj' k' ms)
  show ?case
  proof (cases "ai + k = ai' \<and> bj + k = bj'")
    case True
    have "drop k (drop ai a) = drop (ai + k) a" "drop k (drop bj b) = drop (bj + k) b" by (simp_all add: add.commute)
    then have "matches a b (ai, bj, k + k')" using "1.prems" True by (auto simp: matches_def take_add simp del: drop_drop)
    with True "1.prems" have "blocks_ok a b i j ((ai, bj, k + k') # ms)" by (auto simp: add.assoc)
    then show ?thesis using "1.IH"(1) True by simp
  qed (use 1 in auto)
qed auto

section \<open>The operations turn the first text into the second\<close>

text \<open>What an operation takes from the first sequence, and what it leaves in the second.\<close>

definition old_side :: "'a list \<Rightarrow> opcode \<Rightarrow> 'a list" where
  "old_side a c = slice (op_i1 c) (op_i2 c) a"

definition new_side :: "'a list \<Rightarrow> 'a list \<Rightarrow> opcode \<Rightarrow> 'a list" where
  "new_side a b c = (if op_tag c = Equal then slice (op_i1 c) (op_i2 c) a else slice (op_j1 c) (op_j2 c) b)"

lemma slice_to_drop: "i \<le> j \<Longrightarrow> slice i j xs @ drop j xs = drop i xs"
  by (metis append_take_drop_id drop_append drop_take le_add_diff_inverse slice_def take_drop drop_drop add.commute diff_add)

lemma slice_empty [simp]: "slice i i xs = []"
  by (simp add: slice_def)

lemma change_sides:
  assumes "i1 \<le> i2" and "j1 \<le> j2"
  shows "concat (map (old_side a) (change_between i1 i2 j1 j2)) = slice i1 i2 a"
    and "concat (map (new_side a b) (change_between i1 i2 j1 j2)) = slice j1 j2 b"
  using assms by (auto simp: change_between_def op_def old_side_def new_side_def slice_def)

lemma opcodes_sides:
  assumes "blocks_ok a b i j (ms @ [(length a, length b, 0)])"
  shows "concat (map (old_side a) (opcodes_from i j (ms @ [(length a, length b, 0)]))) = drop i a \<and>
    concat (map (new_side a b) (opcodes_from i j (ms @ [(length a, length b, 0)]))) = drop j b"
  using assms
proof (induction ms arbitrary: i j)
  case Nil
  then show ?case by (simp add: change_sides) (simp add: slice_def)
next
  case (Cons m ms)
  obtain ai bj k where m: "m = (ai, bj, k)" by (cases m)
  with Cons.prems have le: "i \<le> ai" "j \<le> bj" and ok: "matches a b (ai, bj, k)"
    and rest: "blocks_ok a b (ai + k) (bj + k) (ms @ [(length a, length b, 0)])" by auto
  have eq: "slice ai (ai + k) a = slice bj (bj + k) b" using ok by (simp add: matches_def slice_def take_drop add.commute)
  have mid: "concat (map (old_side a) (if k > 0 then [op Equal ai (ai + k) bj (bj + k)] else [])) = slice ai (ai + k) a"
    "concat (map (new_side a b) (if k > 0 then [op Equal ai (ai + k) bj (bj + k)] else [])) = slice bj (bj + k) b"
    using eq by (auto simp: op_def old_side_def new_side_def)
  show ?case using Cons.IH [OF rest] unfolding m
    by (simp add: change_sides [OF le] mid slice_to_drop le)
qed

lemma ok_last: "blocks_ok a b i j ms \<Longrightarrow> blocks_ok a b i j (ms @ [(length a, length b, 0)])"
  by (induction ms arbitrary: i j) (auto simp: matches_def)

lemma get_opcodes_sides:
  "concat (map (old_side a) (get_opcodes a b)) = a \<and> concat (map (new_side a b) (get_opcodes a b)) = b"
  using opcodes_sides [OF ok_last [OF merge_ok [OF matching_ok [of a b "popular b"]]]]
  by (simp add: get_opcodes_def)

lemma group_opcodes_Nil: "group_opcodes g cs = [] \<Longrightarrow> g @ cs = [] \<or> (\<exists>c. g @ cs = [c] \<and> op_tag c = Equal)"
proof (induction g cs rule: group_opcodes.induct)
  case (1 g)
  then show ?case by (cases g) (auto split: if_splits)
next
  case (2 g c cs)
  then show ?case by (auto split: if_splits)
qed

lemma trim_shape:
  "length (trim_last (trim_first cs)) = length cs"
  "cs = [c] \<Longrightarrow> op_tag (hd (trim_last (trim_first cs))) = op_tag c"
  by (cases cs; auto simp: trim_last_def trim_first_def Let_def)+

text \<open>The edit operations are correct: what they take from the first text, in order, is that text, and what
  they leave is the second; where they report lines as equal, both texts have the same lines.  A diff without
  lines is only given for equal texts.\<close>

theorem unified_diff_sound:
  "concat (map (old_side a) (get_opcodes a b)) = a \<and> concat (map (new_side a b) (get_opcodes a b)) = b \<and>
   (unified_diff f t a b = [] \<longrightarrow> a = b)"
proof (intro conjI impI)
  assume "unified_diff f t a b = []"
  then have g: "grouped_opcodes a b = []" by (auto simp: unified_diff_def Let_def split: if_splits)
  show "a = b"
  proof (cases "get_opcodes a b = []")
    case True
    then show ?thesis using get_opcodes_sides [of a b] by auto
  next
    case False
    from g False have e: "group_opcodes [] (trim_last (trim_first (get_opcodes a b))) = []"
      by (simp add: grouped_opcodes_def Let_def)
    from group_opcodes_Nil [OF e] False trim_shape(1) [of "get_opcodes a b"] obtain c where
      c: "trim_last (trim_first (get_opcodes a b)) = [c]" "op_tag c = Equal" by auto
    with trim_shape(1) [of "get_opcodes a b"] obtain d where d: "get_opcodes a b = [d]"
      by (cases "get_opcodes a b") auto
    then have "op_tag d = Equal" using trim_shape(2) [OF d] c by simp
    then show ?thesis using get_opcodes_sides [of a b] d by (auto simp: old_side_def new_side_def)
  qed
qed (use get_opcodes_sides [of a b] in simp_all)

theorem unified_diff_sound_witness:
  "unified_diff ''v1'' ''v2'' [''a'', ''b''] [''a'', ''c''] \<noteq> [] \<and>
   concat (map (new_side [''a'', ''b''] [''a'', ''c'']) (get_opcodes [''a'', ''b''] [''a'', ''c''])) = [''a'', ''c'']"
  using unified_diff_sound [of "[''a'', ''b'']" "[''a'', ''c'']" "''v1''" "''v2''"] by auto

end
