(* ===== verification/Versioning.thy ===== *)
theory Versioning
  imports TextDiff SqlBuilder PyNum
begin

text \<open>
  \<^verbatim>\<open>backend/pipeline/versioning.py\<close>: the structured diff of two pipeline texts and the saving of a new
  version.  \<^verbatim>\<open>yaml.safe_load\<close> is a parameter.  The table of versions is the list of its rows; what other
  sessions insert between the reading of the latest version and the commit of an attempt is a parameter,
  and the commit fails exactly if the pipeline already has a row of that number.
\<close>

section \<open>The diff of two versions\<close>

record step_diff =
  sd_step_name :: pyval
  sd_change_type :: string
  sd_old_config :: pyval
  sd_new_config :: pyval
  sd_changed_fields :: "string list"

record pipeline_diff =
  pd_version_a :: int
  pd_version_b :: int
  pd_pipeline_name :: pyval
  pd_steps_added :: "pyval list"
  pd_steps_removed :: "pyval list"
  pd_steps_modified :: "step_diff list"
  pd_has_changes :: bool
  pd_unified_diff :: string
  pd_change_summary :: string

text \<open>\<^verbatim>\<open>v.get(k, default)\<close>, which only a mapping has.\<close>

definition get_attr :: "pyval \<Rightarrow> string \<Rightarrow> pyval \<Rightarrow> pyval result" where
  "get_attr v k dflt = (case v of PDict d \<Rightarrow> Inr (get_or d k dflt) | _ \<Rightarrow> Inl AttributeError)"

text \<open>\<^verbatim>\<open>s["name"]\<close> as a key of the dictionary of steps.\<close>

definition step_key :: "pyval \<Rightarrow> pyval result" where
  "step_key s =
     (case s of
        PDict d \<Rightarrow> (case dict_get d (PStr ''name'') of
            None \<Rightarrow> Inl KeyError | Some n \<Rightarrow> if hashable n then Inr n else Inl TypeError)
      | _ \<Rightarrow> Inl TypeError)"

definition steps_by_name :: "pyval list \<Rightarrow> (pyval \<times> pyval) list result" where
  "steps_by_name ss = foldE (\<lambda>s d. bindE (step_key s) (\<lambda>n. Inr (dict_set d n s))) ss []"

definition config_of :: "pyval \<Rightarrow> pyval" where
  "config_of v = (if truthy v then v else PDict [])"

text \<open>The pipeline of a text, under \<^verbatim>\<open>pipeline\<close> or at the top, and its steps by name.\<close>

definition pipeline_of :: "pyval \<Rightarrow> pyval result" where
  "pipeline_of config = get_attr config ''pipeline'' config"

definition named_steps :: "pyval \<Rightarrow> (pyval \<times> pyval) list result" where
  "named_steps p = bindE (get_attr p ''steps'' (PList [])) (\<lambda>v. bindE (iterate v) steps_by_name)"

text \<open>Names in the order of their texts; names whose texts agree keep the order of the file.\<close>

definition sort_by_text :: "pyval list \<Rightarrow> pyval list" where
  "sort_by_text ks = sort_key py_str ks"

definition fields_of :: "pyval \<Rightarrow> pydict" where
  "fields_of v = (case v of PDict d \<Rightarrow> d | _ \<Rightarrow> [])"

definition field_differs :: "pydict \<Rightarrow> pydict \<Rightarrow> pyval \<Rightarrow> bool" where
  "field_differs a b k \<longleftrightarrow>
     (let get = (\<lambda>d. case dict_get d k of None \<Rightarrow> PNone | Some v \<Rightarrow> v) in \<not> py_eq (get a) (get b))"

definition changed_fields :: "pyval \<Rightarrow> pyval \<Rightarrow> string list" where
  "changed_fields a b =
     (let ka = map fst (fields_of a); kb = filter (\<lambda>k. dict_get (fields_of a) k = None) (map fst (fields_of b))
      in map py_str (filter (field_differs (fields_of a) (fields_of b)) (sort_by_text (ka @ kb))))"

definition modified_step :: "(pyval \<times> pyval) list \<Rightarrow> (pyval \<times> pyval) list \<Rightarrow> pyval \<Rightarrow> step_diff list" where
  "modified_step sa sb k =
     (case (dict_get sa k, dict_get sb k) of
        (Some a, Some b) \<Rightarrow>
          if py_eq a b then []
          else [\<lparr>sd_step_name = k, sd_change_type = ''modified'', sd_old_config = a, sd_new_config = b,
                 sd_changed_fields = changed_fields a b\<rparr>]
      | _ \<Rightarrow> [])"

definition count_part :: "nat \<Rightarrow> string \<Rightarrow> string list" where
  "count_part n what = (if n = 0 then [] else [nat_str n @ '' steps '' @ what])"

definition change_summary :: "pyval list \<Rightarrow> pyval list \<Rightarrow> step_diff list \<Rightarrow> string" where
  "change_summary added removed modified =
     (let parts = count_part (length added) ''added'' @ count_part (length removed) ''removed'' @ count_part (length modified) ''modified''
      in if parts = [] then ''No changes'' else join '', '' parts)"

definition diff_pipelines :: "(string \<Rightarrow> pyval result) \<Rightarrow> string \<Rightarrow> string \<Rightarrow> int \<Rightarrow> int \<Rightarrow> pipeline_diff result" where
  "diff_pipelines safe_load yaml_a yaml_b va vb =
     bindE (safe_load yaml_a) (\<lambda>ra. bindE (safe_load yaml_b) (\<lambda>rb.
     bindE (pipeline_of (config_of ra)) (\<lambda>pa. bindE (pipeline_of (config_of rb)) (\<lambda>pb.
     bindE (named_steps pa) (\<lambda>sa. bindE (named_steps pb) (\<lambda>sb.
     let added = sort_by_text (filter (\<lambda>k. dict_get sa k = None) (map fst sb));
         removed = sort_by_text (filter (\<lambda>k. dict_get sb k = None) (map fst sa));
         modified = concat (map (modified_step sa sb) (sort_by_text (filter (\<lambda>k. dict_get sb k \<noteq> None) (map fst sa))))
     in bindE (get_attr pb ''name'' (PStr ''unknown'')) (\<lambda>name. Inr
       \<lparr>pd_version_a = va, pd_version_b = vb, pd_pipeline_name = name, pd_steps_added = added, pd_steps_removed = removed,
        pd_steps_modified = modified, pd_has_changes = (added \<noteq> [] \<or> removed \<noteq> [] \<or> modified \<noteq> []),
        pd_unified_diff = join newline (unified_diff (''v'' @ int_str va) (''v'' @ int_str vb) (splitlines yaml_a) (splitlines yaml_b)),
        pd_change_summary = change_summary added removed modified\<rparr>)))))))"

section \<open>Saving a version\<close>

record pipeline_version =
  pv_pipeline_name :: string
  pv_version_number :: int
  pv_yaml_config :: string
  pv_run_id :: "string option"
  pv_change_summary :: string

definition versions_of :: "string \<Rightarrow> pipeline_version list \<Rightarrow> pipeline_version list" where
  "versions_of name rows = filter (\<lambda>v. pv_pipeline_name v = name) rows"

text \<open>The row with the highest number.\<close>

definition latest_version :: "string \<Rightarrow> pipeline_version list \<Rightarrow> pipeline_version option" where
  "latest_version name rows =
     fold (\<lambda>v best. case best of None \<Rightarrow> Some v | Some w \<Rightarrow> if pv_version_number v > pv_version_number w then Some v else best)
       (versions_of name rows) None"

definition number_taken :: "string \<Rightarrow> int \<Rightarrow> pipeline_version list \<Rightarrow> bool" where
  "number_taken name n rows \<longleftrightarrow> (\<exists>v \<in> set rows. pv_pipeline_name v = name \<and> pv_version_number v = n)"

definition next_version ::
    "(string \<Rightarrow> pyval result) \<Rightarrow> string \<Rightarrow> string \<Rightarrow> string option \<Rightarrow> pipeline_version list \<Rightarrow> pipeline_version result" where
  "next_version safe_load name yaml run_id rows =
     (case latest_version name rows of
        None \<Rightarrow> Inr \<lparr>pv_pipeline_name = name, pv_version_number = 1, pv_yaml_config = yaml, pv_run_id = run_id,
            pv_change_summary = ''Initial version''\<rparr>
      | Some l \<Rightarrow>
          bindE (diff_pipelines safe_load (pv_yaml_config l) yaml (pv_version_number l) (pv_version_number l + 1)) (\<lambda>d.
            Inr \<lparr>pv_pipeline_name = name, pv_version_number = pv_version_number l + 1, pv_yaml_config = yaml, pv_run_id = run_id,
              pv_change_summary = pd_change_summary d\<rparr>))"

text \<open>The attempts, given what other sessions insert during each; \<^verbatim>\<open>IntegrityError\<close> of the last one is raised.\<close>

fun save_attempts ::
    "(string \<Rightarrow> pyval result) \<Rightarrow> string \<Rightarrow> string \<Rightarrow> string option \<Rightarrow> pipeline_version list list \<Rightarrow> pipeline_version list \<Rightarrow>
     pipeline_version list \<times> pipeline_version result" where
  "save_attempts safe_load name yaml run_id [] rows = (rows, Inl (OtherError ''RuntimeError''))"
| "save_attempts safe_load name yaml run_id (others # rest) rows =
     (case next_version safe_load name yaml run_id rows of
        Inl e \<Rightarrow> (rows @ others, Inl e)
      | Inr v \<Rightarrow>
          if number_taken name (pv_version_number v) (rows @ others)
          then if rest = [] then (rows @ others, Inl (OtherError ''IntegrityError''))
               else save_attempts safe_load name yaml run_id rest (rows @ others)
          else (rows @ others @ [v], Inr v))"

definition save_version ::
    "(string \<Rightarrow> pyval result) \<Rightarrow> (nat \<Rightarrow> pipeline_version list) \<Rightarrow> string \<Rightarrow> string \<Rightarrow> string option \<Rightarrow> int \<Rightarrow> pipeline_version list \<Rightarrow>
     pipeline_version list \<times> pipeline_version result" where
  "save_version safe_load inserted name yaml run_id max_retries rows =
     (if max_retries < 1 then (rows, Inl (ValueError ''max_retries must be >= 1''))
      else save_attempts safe_load name yaml run_id (map inserted [0..<nat max_retries]) rows)"

section \<open>The latest version\<close>

definition later :: "pipeline_version \<Rightarrow> pipeline_version option \<Rightarrow> pipeline_version option" where
  "later v best = (case best of None \<Rightarrow> Some v | Some w \<Rightarrow> if pv_version_number v > pv_version_number w then Some v else best)"

lemma fold_later:
  "\<exists>l. fold later vs (Some w) = Some l \<and> l \<in> insert w (set vs) \<and> (\<forall>v \<in> insert w (set vs). pv_version_number v \<le> pv_version_number l)"
proof (induction vs arbitrary: w)
  case (Cons v vs)
  define w' where "w' = (if pv_version_number v > pv_version_number w then v else w)"
  have step: "fold later (v # vs) (Some w) = fold later vs (Some w')" by (simp add: later_def w'_def)
  from Cons.IH [of w'] obtain l where l: "fold later vs (Some w') = Some l" "l \<in> insert w' (set vs)"
    "\<forall>v \<in> insert w' (set vs). pv_version_number v \<le> pv_version_number l" by blast
  moreover have "pv_version_number v \<le> pv_version_number w'" "pv_version_number w \<le> pv_version_number w'" "w' \<in> {v, w}"
    by (auto simp: w'_def)
  ultimately show ?case unfolding step by (intro exI [of _ l]) auto
qed simp

lemma latest_version_fold: "latest_version name rows = fold later (versions_of name rows) None"
  by (simp add: latest_version_def later_def [abs_def])

lemma latest_version_None: "latest_version name rows = None \<longleftrightarrow> versions_of name rows = []"
proof (cases "versions_of name rows")
  case (Cons v vs)
  with fold_later [of vs v] show ?thesis by (auto simp: latest_version_fold later_def)
qed (simp add: latest_version_fold)

lemma latest_version_Some:
  assumes "latest_version name rows = Some l"
  shows "l \<in> set rows \<and> pv_pipeline_name l = name \<and>
    (\<forall>v \<in> set rows. pv_pipeline_name v = name \<longrightarrow> pv_version_number v \<le> pv_version_number l)"
proof (cases "versions_of name rows")
  case (Cons v vs)
  with fold_later [of vs v] assms have "l \<in> set (versions_of name rows) \<and> (\<forall>v \<in> set (versions_of name rows). pv_version_number v \<le> pv_version_number l)"
    by (auto simp: latest_version_fold later_def)
  then show ?thesis by (auto simp: versions_of_def)
qed (use assms in \<open>simp add: latest_version_fold\<close>)

text \<open>The next version has the pipeline's name and text and a number above all those read.\<close>

lemma next_version_Inr:
  assumes "next_version safe_load name yaml run_id rows = Inr v"
  shows "pv_pipeline_name v = name \<and> pv_yaml_config v = yaml \<and> pv_run_id v = run_id \<and>
    (\<forall>w \<in> set rows. pv_pipeline_name w = name \<longrightarrow> pv_version_number w < pv_version_number v) \<and>
    (versions_of name rows = [] \<longrightarrow> pv_version_number v = 1)"
proof (cases "latest_version name rows")
  case None
  then have "v = \<lparr>pv_pipeline_name = name, pv_version_number = 1, pv_yaml_config = yaml, pv_run_id = run_id,
      pv_change_summary = ''Initial version''\<rparr>" using assms by (simp add: next_version_def)
  moreover have "\<forall>w \<in> set rows. pv_pipeline_name w \<noteq> name" using None
    by (simp add: latest_version_None versions_of_def filter_empty_conv)
  ultimately show ?thesis by simp
next
  case (Some l)
  then obtain sm where "v = \<lparr>pv_pipeline_name = name, pv_version_number = pv_version_number l + 1, pv_yaml_config = yaml,
      pv_run_id = run_id, pv_change_summary = sm\<rparr>" using assms by (auto simp: next_version_def)
  moreover have "versions_of name rows \<noteq> []" using Some latest_version_None [of name rows] by auto
  ultimately show ?thesis using latest_version_Some [OF Some] by fastforce
qed

definition row_key :: "pipeline_version \<Rightarrow> string \<times> int" where
  "row_key v = (pv_pipeline_name v, pv_version_number v)"

definition unique_rows :: "pipeline_version list \<Rightarrow> bool" where
  "unique_rows rows \<longleftrightarrow> distinct (map row_key rows)"

lemma number_taken_key: "number_taken name n rows \<longleftrightarrow> (name, n) \<in> row_key ` set rows"
  by (auto simp: number_taken_def row_key_def)

lemma save_attempts_sound:
  assumes "save_attempts safe_load name yaml run_id others rows = (rows', r)" and "unique_rows (rows @ concat others)"
  shows "\<exists>k. k \<le> length others \<and> (case r of
      Inr v \<Rightarrow> k > 0 \<and> rows' = rows @ concat (take k others) @ [v] \<and> unique_rows rows' \<and> pv_pipeline_name v = name \<and>
        pv_yaml_config v = yaml \<and> pv_run_id v = run_id \<and>
        (\<forall>w \<in> set (rows @ concat (take (k - 1) others)). pv_pipeline_name w = name \<longrightarrow> pv_version_number w < pv_version_number v)
    | Inl e \<Rightarrow> rows' = rows @ concat (take k others))"
  using assms
proof (induction safe_load name yaml run_id others rows rule: save_attempts.induct)
  case (1 safe_load name yaml run_id rows)
  then show ?case by auto
next
  case (2 safe_load name yaml run_id oth rest rows)
  show ?case
  proof (cases "next_version safe_load name yaml run_id rows")
    case (Inl e)
    with "2.prems"(1) have "rows' = rows @ oth" "r = Inl e" by auto
    then show ?thesis by (intro exI [of _ 1]) simp
  next
    case (Inr v)
    note nv = next_version_Inr [OF Inr]
    show ?thesis
    proof (cases "number_taken name (pv_version_number v) (rows @ oth)")
      case True
      show ?thesis
      proof (cases "rest = []")
        case True
        with Inr \<open>number_taken _ _ _\<close> "2.prems"(1) have "rows' = rows @ oth" "r = Inl (OtherError ''IntegrityError'')" by auto
        then show ?thesis by (intro exI [of _ 1]) simp
      next
        case False
        with Inr \<open>number_taken _ _ _\<close> "2.prems" have run: "save_attempts safe_load name yaml run_id rest (rows @ oth) = (rows', r)"
          and u: "unique_rows ((rows @ oth) @ concat rest)" by auto
        from "2.IH" [OF Inr True False run u] obtain k where k: "k \<le> length rest" "case r of
            Inr v \<Rightarrow> k > 0 \<and> rows' = (rows @ oth) @ concat (take k rest) @ [v] \<and> unique_rows rows' \<and> pv_pipeline_name v = name \<and>
              pv_yaml_config v = yaml \<and> pv_run_id v = run_id \<and>
              (\<forall>w \<in> set ((rows @ oth) @ concat (take (k - 1) rest)). pv_pipeline_name w = name \<longrightarrow> pv_version_number w < pv_version_number v)
          | Inl e \<Rightarrow> rows' = (rows @ oth) @ concat (take k rest)" by blast
        then show ?thesis by (intro exI [of _ "Suc k"]) (cases k; auto split: sum.splits)
      qed
    next
      case False
      with Inr "2.prems"(1) have r: "r = Inr v" "rows' = rows @ oth @ [v]" by auto
      have "row_key v \<notin> row_key ` set (rows @ oth)" using False nv by (simp add: number_taken_key row_key_def)
      then have "unique_rows rows'" using "2.prems"(2) r(2) by (auto simp: unique_rows_def)
      with r nv show ?thesis by (intro exI [of _ 1]) auto
    qed
  qed
qed

lemma save_attempts_returns:
  assumes "unique_rows (rows @ concat others)" and "i < length others" and "versions_of name (others ! i) = []"
    and "\<And>k. k \<le> i \<Longrightarrow> \<exists>v. next_version safe_load name yaml run_id (rows @ concat (take k others)) = Inr v"
  shows "\<exists>v. snd (save_attempts safe_load name yaml run_id others rows) = Inr v"
  using assms
proof (induction others arbitrary: rows i)
  case (Cons oth rest)
  from Cons.prems(4) [of 0] obtain v where v: "next_version safe_load name yaml run_id rows = Inr v" by auto
  note nv = next_version_Inr [OF v]
  show ?case
  proof (cases "number_taken name (pv_version_number v) (rows @ oth)")
    case True
    have "i \<noteq> 0"
    proof
      assume "i = 0"
      then have "\<forall>w \<in> set oth. pv_pipeline_name w \<noteq> name" using Cons.prems(3) by (simp add: versions_of_def filter_empty_conv)
      with True nv show False by (auto simp: number_taken_def)
    qed
    then obtain j where i: "i = Suc j" by (cases i) auto
    then have "rest \<noteq> []" using Cons.prems(2) by auto
    moreover have "\<exists>v. snd (save_attempts safe_load name yaml run_id rest (rows @ oth)) = Inr v"
    proof (rule Cons.IH [of "rows @ oth" j])
      show "\<exists>v. next_version safe_load name yaml run_id ((rows @ oth) @ concat (take k rest)) = Inr v" if "k \<le> j" for k
        using Cons.prems(4) [of "Suc k"] that i by simp
    qed (use Cons.prems i in auto)
    ultimately show ?thesis using v True by simp
  qed (use v in simp)
qed simp

section \<open>Properties\<close>

text \<open>C29.  Saving a version is safe under races.  Whatever other sessions insert, a returned version is a new row with the
  given text, added to all rows that were there; its number is above every number of the pipeline that was read
  for it, and no two rows of one pipeline share a number.  If an exception is raised, no row was added.\<close>

theorem save_version_safe:
  assumes "save_version safe_load inserted name yaml run_id max_retries rows = (rows', r)"
    and "unique_rows (rows @ concat (map inserted [0..<nat max_retries]))"
  shows "\<exists>k \<le> nat max_retries. (case r of
      Inr v \<Rightarrow> rows' = rows @ concat (map inserted [0..<k]) @ [v] \<and> unique_rows rows' \<and> pv_pipeline_name v = name \<and>
        pv_yaml_config v = yaml \<and> pv_run_id v = run_id \<and>
        (\<forall>w \<in> set (rows @ concat (map inserted [0..<k - 1])). pv_pipeline_name w = name \<longrightarrow> pv_version_number w < pv_version_number v)
    | Inl e \<Rightarrow> rows' = rows @ concat (map inserted [0..<k]))"
proof (cases "max_retries < 1")
  case True
  then show ?thesis using assms(1) by (auto simp: save_version_def)
next
  case False
  with assms(1) have "save_attempts safe_load name yaml run_id (map inserted [0..<nat max_retries]) rows = (rows', r)"
    by (simp add: save_version_def)
  from save_attempts_sound [OF this assms(2)] obtain k where k: "k \<le> nat max_retries" and out: "case r of
      Inr v \<Rightarrow> k > 0 \<and> rows' = rows @ concat (take k (map inserted [0..<nat max_retries])) @ [v] \<and> unique_rows rows' \<and> pv_pipeline_name v = name \<and>
        pv_yaml_config v = yaml \<and> pv_run_id v = run_id \<and>
        (\<forall>w \<in> set (rows @ concat (take (k - 1) (map inserted [0..<nat max_retries]))). pv_pipeline_name w = name \<longrightarrow> pv_version_number w < pv_version_number v)
    | Inl e \<Rightarrow> rows' = rows @ concat (take k (map inserted [0..<nat max_retries]))" by auto
  have "take m (map inserted [0..<nat max_retries]) = map inserted [0..<m]" if "m \<le> k" for m
    using that k by (simp add: take_map)
  from out [unfolded this [OF order_refl] this [OF diff_le_self]] k show ?thesis by (intro exI [of _ k]) (auto split: sum.splits)
qed

text \<open>The texts of the examples: one step each.\<close>

definition one_step :: "string \<Rightarrow> pyval result" where
  "one_step t = Inr (PDict [(PStr ''name'', PStr ''p''), (PStr ''steps'', PList [PDict [(PStr ''name'', PStr t), (PStr ''type'', PStr ''load'')]])])"

definition version_row :: "int \<Rightarrow> string \<Rightarrow> pipeline_version" where
  "version_row n yaml = \<lparr>pv_pipeline_name = ''p'', pv_version_number = n, pv_yaml_config = yaml, pv_run_id = None, pv_change_summary = []\<rparr>"

text \<open>Another session takes number two first; the second attempt gets number three.\<close>

theorem save_version_safe_witness:
  "case save_version one_step (\<lambda>n. if n = 0 then [version_row 2 ''b''] else []) ''p'' ''c'' None 5 [version_row 1 ''a''] of
     (rows', r) \<Rightarrow> map pv_version_number rows' = [1, 2, 3] \<and> unique_rows rows' \<and> (\<exists>v. r = Inr v \<and> pv_yaml_config v = ''c'')"
proof -
  let ?ins = "\<lambda>n. if n = 0 then [version_row 2 ''b''] else [] :: pipeline_version list"
  obtain rows' r where run: "save_version one_step ?ins ''p'' ''c'' None 5 [version_row 1 ''a''] = (rows', r)" by fastforce
  have nums: "(case save_version one_step ?ins ''p'' ''c'' None 5 [version_row 1 ''a''] of
      (rows', r) \<Rightarrow> (map pv_version_number rows', isl r)) = ([1, 2, 3], False)" by code_simp
  have u: "unique_rows ([version_row 1 ''a''] @ concat (map ?ins [0..<nat 5]))"
    by (simp add: unique_rows_def row_key_def version_row_def upt_rec)
  from nums run obtain v where v: "r = Inr v" "map pv_version_number rows' = [1, 2, 3]" by (cases r) auto
  from save_version_safe [OF run u] v run show ?thesis by auto
qed

text \<open>A version is saved if, in one of the attempts, no other session inserts a row of the pipeline, and the texts
  can be compared.\<close>

theorem save_version_succeeds:
  assumes "unique_rows (rows @ concat (map inserted [0..<nat max_retries]))" and "0 \<le> i" and "i < max_retries"
    and "versions_of name (inserted (nat i)) = []"
    and "\<And>k. k \<le> nat i \<Longrightarrow> \<exists>v. next_version safe_load name yaml run_id (rows @ concat (map inserted [0..<k])) = Inr v"
  shows "\<exists>v. snd (save_version safe_load inserted name yaml run_id max_retries rows) = Inr v"
proof -
  have "\<exists>v. snd (save_attempts safe_load name yaml run_id (map inserted [0..<nat max_retries]) rows) = Inr v"
    by (rule save_attempts_returns [OF assms(1), of "nat i"]) (use assms in \<open>auto simp: take_map\<close>)
  then show ?thesis using assms(2,3) by (simp add: save_version_def)
qed

theorem save_version_succeeds_witness:
  "\<exists>v. snd (save_version one_step (\<lambda>n. if n = 0 then [version_row 2 ''b''] else []) ''p'' ''c'' None 5 [version_row 1 ''a'']) = Inr v"
proof (rule save_version_succeeds [of _ _ _ 1])
  let ?ins = "\<lambda>n. if n = 0 then [version_row 2 ''b''] else [] :: pipeline_version list"
  show "unique_rows ([version_row 1 ''a''] @ concat (map ?ins [0..<nat 5]))"
    by (simp add: unique_rows_def row_key_def version_row_def upt_rec)
  fix k :: nat
  assume "k \<le> nat 1"
  then have "k = 0 \<or> k = 1" by auto
  moreover have "\<not> isl (next_version one_step ''p'' ''c'' None ([version_row 1 ''a''] @ concat (map ?ins [0..<0])))"
    "\<not> isl (next_version one_step ''p'' ''c'' None ([version_row 1 ''a''] @ concat (map ?ins [0..<1])))" by code_simp+
  ultimately show "\<exists>v. next_version one_step ''p'' ''c'' None ([version_row 1 ''a''] @ concat (map ?ins [0..<k])) = Inr v"
    by (metis isl_def sum.exhaust_sel)
qed (simp_all add: versions_of_def)

section \<open>The diff\<close>

definition steps_in :: "(string \<Rightarrow> pyval result) \<Rightarrow> string \<Rightarrow> (pyval \<times> pyval) list result" where
  "steps_in safe_load yaml = bindE (safe_load yaml) (\<lambda>r. bindE (pipeline_of (config_of r)) named_steps)"

text \<open>Two pipelines have the same steps: the same names, and equal configurations under each.\<close>

definition same_steps :: "(pyval \<times> pyval) list \<Rightarrow> (pyval \<times> pyval) list \<Rightarrow> bool" where
  "same_steps sa sb \<longleftrightarrow> (\<forall>k \<in> fst ` set sb. dict_get sa k \<noteq> None) \<and>
     (\<forall>k \<in> fst ` set sa. \<exists>b. dict_get sb k = Some b \<and> (\<forall>a. dict_get sa k = Some a \<longrightarrow> py_eq a b))"

lemma set_sort_by_text [simp]: "set (sort_by_text ks) = set ks"
  by (simp add: sort_by_text_def)

lemma sort_by_text_Nil: "sort_by_text ks = [] \<longleftrightarrow> ks = []"
  by (metis set_empty set_sort_by_text)

lemma modified_step_iff:
  "sd \<in> set (modified_step sa sb k) \<longleftrightarrow> (\<exists>a b. dict_get sa k = Some a \<and> dict_get sb k = Some b \<and> \<not> py_eq a b \<and>
     sd = \<lparr>sd_step_name = k, sd_change_type = ''modified'', sd_old_config = a, sd_new_config = b, sd_changed_fields = changed_fields a b\<rparr>)"
  by (cases "dict_get sa k"; cases "dict_get sb k") (auto simp: modified_step_def)

lemma set_changed_fields:
  "set (changed_fields a b) = py_str ` {k \<in> fst ` set (fields_of a) \<union> {k \<in> fst ` set (fields_of b). dict_get (fields_of a) k = None}.
     field_differs (fields_of a) (fields_of b) k}"
  by (auto simp: changed_fields_def Let_def)

lemma change_summary_none: "change_summary xs ys zs = ''No changes'' \<longleftrightarrow> xs = [] \<and> ys = [] \<and> zs = []"
proof (cases "xs = [] \<and> ys = [] \<and> zs = []")
  case False
  have first: "is_digit (join sep (count_part n what @ us) ! 0)" if "n \<noteq> 0" for n what us sep
    using that nat_str_digits [of n] nat_str_ne [of n] by (cases us; cases "nat_str n") (simp_all add: count_part_def)
  have none: "count_part 0 what = []" for what by (simp add: count_part_def)
  have "is_digit (change_summary xs ys zs ! 0)"
  proof -
    consider "xs \<noteq> []" | "xs = []" "ys \<noteq> []" | "xs = []" "ys = []" "zs \<noteq> []" using False by blast
    then show ?thesis
    proof cases
      case 1
      then have "length xs \<noteq> 0" by simp
      from first [OF this] show ?thesis using 1 by (auto simp: change_summary_def Let_def count_part_def)
    next
      case 2
      then have "length ys \<noteq> 0" by simp
      from first [OF this] show ?thesis using 2 by (auto simp: change_summary_def Let_def count_part_def)
    next
      case 3
      then have "length zs \<noteq> 0" by simp
      from first [OF this, where us = "[]" and what = "''modified''"] show ?thesis using 3 by (auto simp: change_summary_def Let_def count_part_def)
    qed
  qed
  moreover have "\<not> is_digit (''No changes'' ! 0)" by code_simp
  ultimately show ?thesis using False by metis
qed (simp add: change_summary_def count_part_def)

text \<open>A diff of two versions is exact: it reports a change exactly if the pipelines do not have the same steps, and says
  so in its summary; the added and removed names are those that only one of them has, a step is modified
  exactly if both have it with different configurations, and its changed fields are those that differ.\<close>

theorem diff_pipelines_exact:
  assumes "diff_pipelines safe_load yaml_a yaml_b va vb = Inr d"
  shows "\<exists>sa sb. steps_in safe_load yaml_a = Inr sa \<and> steps_in safe_load yaml_b = Inr sb \<and>
    (pd_has_changes d \<longleftrightarrow> \<not> same_steps sa sb) \<and> (pd_change_summary d = ''No changes'' \<longleftrightarrow> same_steps sa sb) \<and>
    set (pd_steps_added d) = {k \<in> fst ` set sb. dict_get sa k = None} \<and>
    set (pd_steps_removed d) = {k \<in> fst ` set sa. dict_get sb k = None} \<and>
    (\<forall>m. m \<in> set (pd_steps_modified d) \<longleftrightarrow> (\<exists>k \<in> fst ` set sa. \<exists>a b. dict_get sa k = Some a \<and> dict_get sb k = Some b \<and> \<not> py_eq a b \<and>
       m = \<lparr>sd_step_name = k, sd_change_type = ''modified'', sd_old_config = a, sd_new_config = b, sd_changed_fields = changed_fields a b\<rparr>))"
proof -
  from assms obtain sa sb where s: "steps_in safe_load yaml_a = Inr sa" "steps_in safe_load yaml_b = Inr sb"
    and added: "pd_steps_added d = sort_by_text (filter (\<lambda>k. dict_get sa k = None) (map fst sb))"
    and removed: "pd_steps_removed d = sort_by_text (filter (\<lambda>k. dict_get sb k = None) (map fst sa))"
    and modified: "pd_steps_modified d = concat (map (modified_step sa sb) (sort_by_text (filter (\<lambda>k. dict_get sb k \<noteq> None) (map fst sa))))"
    and changes: "pd_has_changes d \<longleftrightarrow> pd_steps_added d \<noteq> [] \<or> pd_steps_removed d \<noteq> [] \<or> pd_steps_modified d \<noteq> []"
    and summary: "pd_change_summary d = change_summary (pd_steps_added d) (pd_steps_removed d) (pd_steps_modified d)"
    by (auto simp: diff_pipelines_def steps_in_def Let_def)
  have mods: "m \<in> set (pd_steps_modified d) \<longleftrightarrow> (\<exists>k \<in> fst ` set sa. \<exists>a b. dict_get sa k = Some a \<and> dict_get sb k = Some b \<and> \<not> py_eq a b \<and>
       m = \<lparr>sd_step_name = k, sd_change_type = ''modified'', sd_old_config = a, sd_new_config = b, sd_changed_fields = changed_fields a b\<rparr>)" for m
  proof -
    have "m \<in> set (pd_steps_modified d) \<longleftrightarrow> (\<exists>k \<in> fst ` set sa. dict_get sb k \<noteq> None \<and> m \<in> set (modified_step sa sb k))"
      unfolding modified by auto
    also have "\<dots> \<longleftrightarrow> (\<exists>k \<in> fst ` set sa. m \<in> set (modified_step sa sb k))"
      by (intro bex_cong refl) (auto simp: modified_step_iff)
    finally show ?thesis unfolding modified_step_iff .
  qed
  have "pd_steps_modified d = [] \<longleftrightarrow> (\<forall>k \<in> fst ` set sa. \<forall>a b. dict_get sa k = Some a \<longrightarrow> dict_get sb k = Some b \<longrightarrow> py_eq a b)"
  proof -
    have "pd_steps_modified d = [] \<longleftrightarrow> (\<forall>m. m \<notin> set (pd_steps_modified d))" by (metis all_not_in_conv set_empty)
    then show ?thesis unfolding mods by blast
  qed
  moreover have "pd_steps_added d = [] \<longleftrightarrow> (\<forall>k \<in> fst ` set sb. dict_get sa k \<noteq> None)"
    "pd_steps_removed d = [] \<longleftrightarrow> (\<forall>k \<in> fst ` set sa. dict_get sb k \<noteq> None)"
    unfolding added removed sort_by_text_Nil by (auto simp: filter_empty_conv)
  ultimately have none: "pd_steps_added d = [] \<and> pd_steps_removed d = [] \<and> pd_steps_modified d = [] \<longleftrightarrow> same_steps sa sb"
    unfolding same_steps_def by fastforce
  have sets: "set (pd_steps_added d) = {k \<in> fst ` set sb. dict_get sa k = None}" "set (pd_steps_removed d) = {k \<in> fst ` set sa. dict_get sb k = None}"
    unfolding added removed by auto
  have flags: "pd_has_changes d \<longleftrightarrow> \<not> same_steps sa sb" "pd_change_summary d = ''No changes'' \<longleftrightarrow> same_steps sa sb"
    using changes none unfolding summary change_summary_none by blast+
  show ?thesis by (intro exI [of _ sa] exI [of _ sb] conjI allI) (rule s flags sets mods)+
qed

theorem diff_pipelines_exact_witness:
  "\<exists>d. diff_pipelines one_step ''a'' ''b'' 1 2 = Inr d \<and> pd_has_changes d \<and> set (pd_steps_added d) = {PStr ''b''} \<and>
     pd_change_summary d \<noteq> ''No changes''"
proof -
  have "map_sum (\<lambda>_. ()) (\<lambda>d. (pd_has_changes d, pd_steps_added d)) (diff_pipelines one_step ''a'' ''b'' 1 2) = Inr (True, [PStr ''b''])"
    by code_simp
  then obtain d where d: "diff_pipelines one_step ''a'' ''b'' 1 2 = Inr d" "pd_has_changes d" "pd_steps_added d = [PStr ''b'']"
    by (cases "diff_pipelines one_step ''a'' ''b'' 1 2") auto
  with diff_pipelines_exact [OF d(1)] show ?thesis by auto
qed

end
