(* ===== verification/Contracts.thy ===== *)
theory Contracts
  imports Runner
begin

text \<open>
  \<^verbatim>\<open>backend/pipeline/contracts.py\<close>: the contracts that a step may declare for its output, from the YAML
  mapping to the list of violations that the runner stores.  A data frame and its columns are seen
  through the fields of \<open>frame_ops\<close>, one for each Pandas operation that the checks use.
\<close>

section \<open>Definitions\<close>

datatype contract_severity = SEV_ERROR | SEV_WARNING

datatype dtype_kind = STRING | INTEGER | FLOAT | BOOLEAN | DATETIME | ANY

definition severity_value :: "contract_severity \<Rightarrow> string" where
  "severity_value s = (case s of SEV_ERROR \<Rightarrow> ''error'' | SEV_WARNING \<Rightarrow> ''warning'')"

definition dtype_kind_value :: "dtype_kind \<Rightarrow> string" where
  "dtype_kind_value k = (case k of STRING \<Rightarrow> ''string'' | INTEGER \<Rightarrow> ''integer'' | FLOAT \<Rightarrow> ''float''
     | BOOLEAN \<Rightarrow> ''boolean'' | DATETIME \<Rightarrow> ''datetime'' | ANY \<Rightarrow> ''any'')"

definition dtype_map :: "(string \<times> dtype_kind) list" where
  "dtype_map = [(''object'', STRING), (''string'', STRING), (''int64'', INTEGER), (''Int64'', INTEGER), (''int32'', INTEGER),
     (''Int32'', INTEGER), (''float64'', FLOAT), (''Float64'', FLOAT), (''float32'', FLOAT), (''bool'', BOOLEAN),
     (''boolean'', BOOLEAN), (''datetime64[ns]'', DATETIME), (''datetime64[us]'', DATETIME), (''datetime64[ms]'', DATETIME)]"

record column_contract =
  cc_name :: pyval
  cc_dtype :: "dtype_kind option"
  cc_required :: pyval
  cc_not_null :: pyval
  cc_unique :: pyval
  cc_min_value :: pyval
  cc_max_value :: pyval
  cc_allowed_values :: pyval
  cc_regex :: pyval

record contract_violation =
  cv_column :: pyval
  cv_rule :: string
  cv_severity :: contract_severity
  cv_message :: string
  cv_actual :: "string option"
  cv_expected :: "string option"

record data_contract =
  dc_step_name :: pyval
  dc_columns :: "column_contract list"
  dc_min_rows :: pyval
  dc_max_rows :: pyval

text \<open>What the checks ask of a frame \<open>'d\<close> and of a column \<open>'s\<close>.  The comparisons and \<^verbatim>\<open>isin\<close> may raise; the
  latter also gives the text of the distinct values outside.\<close>

record ('d, 's) frame_ops =
  fr_columns :: "'d \<Rightarrow> string list"
  fr_column :: "'d \<Rightarrow> string \<Rightarrow> 's"
  fr_rows :: "'d \<Rightarrow> int"
  se_dtype :: "'s \<Rightarrow> string"
  se_numeric :: "'s \<Rightarrow> bool"
  se_nulls :: "'s \<Rightarrow> nat"
  se_duplicates :: "'s \<Rightarrow> nat"
  se_below :: "'s \<Rightarrow> pyval \<Rightarrow> nat result"
  se_above :: "'s \<Rightarrow> pyval \<Rightarrow> nat result"
  se_outside :: "'s \<Rightarrow> pyval \<Rightarrow> (nat \<times> string) result"

definition violation :: "pyval \<Rightarrow> string \<Rightarrow> contract_severity \<Rightarrow> string \<Rightarrow> string option \<Rightarrow> string option \<Rightarrow> contract_violation" where
  "violation col rule sev msg act expd =
     \<lparr>cv_column = col, cv_rule = rule, cv_severity = sev, cv_message = msg, cv_actual = act, cv_expected = expd\<rparr>"

definition violation_to_dict :: "contract_violation \<Rightarrow> pyval" where
  "violation_to_dict v =
     (let opt = (\<lambda>t. case t of None \<Rightarrow> PNone | Some s \<Rightarrow> PStr s) in
      PDict [(PStr ''column'', cv_column v), (PStr ''rule'', PStr (cv_rule v)), (PStr ''severity'', PStr (severity_value (cv_severity v))),
        (PStr ''message'', PStr (cv_message v)), (PStr ''actual'', opt (cv_actual v)), (PStr ''expected'', opt (cv_expected v))])"

definition check_dtype :: "('d, 's) frame_ops \<Rightarrow> column_contract \<Rightarrow> 's \<Rightarrow> contract_violation list" where
  "check_dtype ops c s =
     (case cc_dtype c of
        None \<Rightarrow> []
      | Some k \<Rightarrow>
          if k = ANY then []
          else (case map_of dtype_map (se_dtype ops s) of
              None \<Rightarrow> []
            | Some actual \<Rightarrow>
                if actual = k then []
                else [violation (cc_name c) ''dtype'' SEV_ERROR
                  (''Expected dtype '' @ dtype_kind_value k @ '', got '' @ se_dtype ops s)
                  (Some (se_dtype ops s)) (Some (dtype_kind_value k))]))"

definition check_not_null :: "('d, 's) frame_ops \<Rightarrow> column_contract \<Rightarrow> 's \<Rightarrow> contract_violation list" where
  "check_not_null ops c s =
     (if truthy (cc_not_null c) \<and> se_nulls ops s > 0
      then [violation (cc_name c) ''not_null'' SEV_ERROR (''Column has '' @ nat_str (se_nulls ops s) @ '' null values'')
        (Some (nat_str (se_nulls ops s))) (Some ''0'')]
      else [])"

definition check_unique :: "('d, 's) frame_ops \<Rightarrow> column_contract \<Rightarrow> 's \<Rightarrow> contract_violation list" where
  "check_unique ops c s =
     (if truthy (cc_unique c) \<and> se_duplicates ops s > 0
      then [violation (cc_name c) ''unique'' SEV_WARNING (''Column has '' @ nat_str (se_duplicates ops s) @ '' duplicate values'')
        (Some (nat_str (se_duplicates ops s))) (Some ''0'')]
      else [])"

definition check_min :: "('d, 's) frame_ops \<Rightarrow> column_contract \<Rightarrow> 's \<Rightarrow> contract_violation list result" where
  "check_min ops c s =
     (if cc_min_value c = PNone \<or> \<not> se_numeric ops s then Inr []
      else bindE (se_below ops s (cc_min_value c)) (\<lambda>n.
        Inr (if n > 0 then [violation (cc_name c) ''min_value'' SEV_ERROR
               (nat_str n @ '' rows below minimum value '' @ py_str (cc_min_value c))
               (Some (nat_str n)) (Some (''>= '' @ py_str (cc_min_value c)))] else [])))"

definition check_max :: "('d, 's) frame_ops \<Rightarrow> column_contract \<Rightarrow> 's \<Rightarrow> contract_violation list result" where
  "check_max ops c s =
     (if cc_max_value c = PNone \<or> \<not> se_numeric ops s then Inr []
      else bindE (se_above ops s (cc_max_value c)) (\<lambda>n.
        Inr (if n > 0 then [violation (cc_name c) ''max_value'' SEV_ERROR
               (nat_str n @ '' rows above maximum value '' @ py_str (cc_max_value c))
               (Some (nat_str n)) (Some (''<= '' @ py_str (cc_max_value c)))] else [])))"

definition check_allowed :: "('d, 's) frame_ops \<Rightarrow> column_contract \<Rightarrow> 's \<Rightarrow> contract_violation list result" where
  "check_allowed ops c s =
     (if cc_allowed_values c = PNone then Inr []
      else bindE (se_outside ops s (cc_allowed_values c)) (\<lambda>(n, bad).
        Inr (if n > 0 then [violation (cc_name c) ''allowed_values'' SEV_ERROR
               (nat_str n @ '' rows with values not in allowed set'') (Some bad) (Some (py_str (cc_allowed_values c)))] else [])))"

definition validate_column :: "('d, 's) frame_ops \<Rightarrow> column_contract \<Rightarrow> 's \<Rightarrow> contract_violation list result" where
  "validate_column ops c s =
     concatE [Inr (check_dtype ops c s), Inr (check_not_null ops c s), Inr (check_unique ops c s),
       check_min ops c s, check_max ops c s, check_allowed ops c s]"

text \<open>\<^verbatim>\<open>name in df.columns\<close> for any value.\<close>

definition has_column :: "('d, 's) frame_ops \<Rightarrow> 'd \<Rightarrow> pyval \<Rightarrow> string option result" where
  "has_column ops d v =
     (if \<not> hashable v then Inl TypeError
      else Inr (case v of PStr n \<Rightarrow> if n \<in> set (fr_columns ops d) then Some n else None | _ \<Rightarrow> None))"

definition check_column :: "('d, 's) frame_ops \<Rightarrow> 'd \<Rightarrow> column_contract \<Rightarrow> contract_violation list result" where
  "check_column ops d c =
     bindE (has_column ops d (cc_name c)) (\<lambda>found.
       case found of
         Some n \<Rightarrow> validate_column ops c (fr_column ops d n)
       | None \<Rightarrow> Inr (if truthy (cc_required c)
           then [violation (cc_name c) ''required'' SEV_ERROR
             (''Required column '' @ [sq] @ py_str (cc_name c) @ [sq] @ '' is missing'') None None]
           else []))"

text \<open>The comparison of the number of rows with a bound of the contract.\<close>

definition rows_compare :: "(rat \<Rightarrow> rat \<Rightarrow> bool) \<Rightarrow> int \<Rightarrow> pyval \<Rightarrow> bool result" where
  "rows_compare rel n v = compare_num rel (of_int n) v"

definition check_rows :: "(rat \<Rightarrow> rat \<Rightarrow> bool) \<Rightarrow> string \<Rightarrow> contract_severity \<Rightarrow> string \<Rightarrow> int \<Rightarrow> pyval \<Rightarrow> contract_violation list result" where
  "check_rows rel rule sev word n v =
     (if v = PNone then Inr []
      else bindE (rows_compare rel n v) (\<lambda>bad. Inr (if bad
        then [violation (PStr ''__table__'') rule sev (''Expected at '' @ word @ '' '' @ py_str v @ '' rows, got '' @ int_str n)
          (Some (int_str n)) (Some (py_str v))]
        else [])))"

definition validate_contract :: "('d, 's) frame_ops \<Rightarrow> data_contract \<Rightarrow> 'd \<Rightarrow> contract_violation list result" where
  "validate_contract ops dc d =
     concatE (map (check_column ops d) (dc_columns dc) @
       [check_rows (<) ''min_rows'' SEV_ERROR ''least'' (fr_rows ops d) (dc_min_rows dc),
        check_rows (>) ''max_rows'' SEV_WARNING ''most'' (fr_rows ops d) (dc_max_rows dc)])"

subsection \<open>Parsing\<close>

definition dtype_kinds :: "dtype_kind list" where
  "dtype_kinds = [STRING, INTEGER, FLOAT, BOOLEAN, DATETIME, ANY]"

definition dtype_of :: "pyval \<Rightarrow> dtype_kind option result" where
  "dtype_of v =
     (if \<not> truthy v then Inr None
      else case find (\<lambda>k. v = PStr (dtype_kind_value k)) dtype_kinds of
          None \<Rightarrow> Inl (ValueError (py_repr v @ '' is not a valid DtypeKind''))
        | Some k \<Rightarrow> Inr (Some k))"

definition parse_column :: "pyval \<Rightarrow> column_contract result" where
  "parse_column v =
     (case v of
        PDict col \<Rightarrow>
          bindE (dtype_of (get_none col ''dtype'')) (\<lambda>dtype.
          case dict_get col (PStr ''name'') of
            None \<Rightarrow> Inl KeyError
          | Some name \<Rightarrow> Inr \<lparr>cc_name = name, cc_dtype = dtype, cc_required = get_or col ''required'' (PBool True),
              cc_not_null = get_or col ''not_null'' (PBool False), cc_unique = get_or col ''unique'' (PBool False),
              cc_min_value = get_none col ''min_value'', cc_max_value = get_none col ''max_value'',
              cc_allowed_values = get_none col ''allowed_values'', cc_regex = get_none col ''regex''\<rparr>)
      | _ \<Rightarrow> Inl AttributeError)"

text \<open>Iterating over \<^verbatim>\<open>columns\<close>: a text gives its characters, a mapping its keys.\<close>

definition items_of :: "pyval \<Rightarrow> pyval list result" where
  "items_of v = (case v of PList vs \<Rightarrow> Inr vs | PStr s \<Rightarrow> Inr (map (\<lambda>c. PStr [c]) s) | PDict kvs \<Rightarrow> Inr (map fst kvs)
     | _ \<Rightarrow> Inl TypeError)"

definition parse_contract_from_yaml :: "pydict \<Rightarrow> data_contract result" where
  "parse_contract_from_yaml data =
     bindE (items_of (get_or data ''columns'' (PList []))) (\<lambda>cols.
     bindE (mapE parse_column cols) (\<lambda>columns.
       Inr \<lparr>dc_step_name = get_or data ''step_name'' empty_str, dc_columns = columns,
         dc_min_rows = get_none data ''min_rows'', dc_max_rows = get_none data ''max_rows''\<rparr>))"

text \<open>A contract is a mapping; the conversion of any other value to one is taken to fail.\<close>

definition validate_step_contract :: "('d, 's) frame_ops \<Rightarrow> pyval \<Rightarrow> 'd \<Rightarrow> pyval \<Rightarrow> contract_violation list result" where
  "validate_step_contract ops cfg d name =
     (if \<not> truthy cfg then Inr []
      else case cfg of
          PDict kvs \<Rightarrow> bindE (parse_contract_from_yaml (dict_set kvs (PStr ''step_name'') name)) (\<lambda>dc. validate_contract ops dc d)
        | _ \<Rightarrow> Inl TypeError)"

text \<open>The contract check of the runner.\<close>

definition contract_check :: "('d, 's) frame_ops \<Rightarrow> ('t \<Rightarrow> 'd) \<Rightarrow> pyval \<Rightarrow> 't \<Rightarrow> pyval \<Rightarrow> pyval list result" where
  "contract_check ops to_df cfg t name =
     bindE (validate_step_contract ops cfg (to_df t) name) (\<lambda>vs. Inr (map violation_to_dict vs))"

section \<open>What a contract demands\<close>

definition column_satisfied :: "('d, 's) frame_ops \<Rightarrow> column_contract \<Rightarrow> 's \<Rightarrow> bool" where
  "column_satisfied ops c s \<longleftrightarrow>
     (\<forall>k. cc_dtype c = Some k \<longrightarrow> k = ANY \<or> map_of dtype_map (se_dtype ops s) \<in> {None, Some k}) \<and>
     (truthy (cc_not_null c) \<longrightarrow> se_nulls ops s = 0) \<and> (truthy (cc_unique c) \<longrightarrow> se_duplicates ops s = 0) \<and>
     (cc_min_value c \<noteq> PNone \<and> se_numeric ops s \<longrightarrow> se_below ops s (cc_min_value c) = Inr 0) \<and>
     (cc_max_value c \<noteq> PNone \<and> se_numeric ops s \<longrightarrow> se_above ops s (cc_max_value c) = Inr 0) \<and>
     (cc_allowed_values c \<noteq> PNone \<longrightarrow> (\<exists>bad. se_outside ops s (cc_allowed_values c) = Inr (0, bad)))"

definition contract_satisfied :: "('d, 's) frame_ops \<Rightarrow> data_contract \<Rightarrow> 'd \<Rightarrow> bool" where
  "contract_satisfied ops dc d \<longleftrightarrow>
     (\<forall>c \<in> set (dc_columns dc). case has_column ops d (cc_name c) of
        Inr (Some n) \<Rightarrow> column_satisfied ops c (fr_column ops d n)
      | _ \<Rightarrow> \<not> truthy (cc_required c)) \<and>
     (dc_min_rows dc \<noteq> PNone \<longrightarrow> rows_compare (<) (fr_rows ops d) (dc_min_rows dc) = Inr False) \<and>
     (dc_max_rows dc \<noteq> PNone \<longrightarrow> rows_compare (>) (fr_rows ops d) (dc_max_rows dc) = Inr False)"

lemma check_dtype_Nil: "check_dtype ops c s = [] \<longleftrightarrow>
    (\<forall>k. cc_dtype c = Some k \<longrightarrow> k = ANY \<or> map_of dtype_map (se_dtype ops s) \<in> {None, Some k})"
  by (auto simp: check_dtype_def split: option.splits)

lemma check_null_unique_Nil:
  "check_not_null ops c s = [] \<longleftrightarrow> (truthy (cc_not_null c) \<longrightarrow> se_nulls ops s = 0)"
  "check_unique ops c s = [] \<longleftrightarrow> (truthy (cc_unique c) \<longrightarrow> se_duplicates ops s = 0)"
  by (simp_all add: check_not_null_def check_unique_def)

lemma check_bounds_Nil:
  "check_min ops c s = Inr [] \<longleftrightarrow> (cc_min_value c \<noteq> PNone \<and> se_numeric ops s \<longrightarrow> se_below ops s (cc_min_value c) = Inr 0)"
  "check_max ops c s = Inr [] \<longleftrightarrow> (cc_max_value c \<noteq> PNone \<and> se_numeric ops s \<longrightarrow> se_above ops s (cc_max_value c) = Inr 0)"
  "check_allowed ops c s = Inr [] \<longleftrightarrow>
     (cc_allowed_values c \<noteq> PNone \<longrightarrow> (\<exists>bad. se_outside ops s (cc_allowed_values c) = Inr (0, bad)))"
  by (auto simp: check_min_def check_max_def check_allowed_def bindE_eq_Inr_iff split: if_splits prod.splits)

lemma check_rows_Nil: "check_rows rel rule sev word n v = Inr [] \<longleftrightarrow> (v \<noteq> PNone \<longrightarrow> rows_compare rel n v = Inr False)"
  by (auto simp: check_rows_def bindE_eq_Inr_iff split: if_splits)

lemma validate_column_Nil: "validate_column ops c s = Inr [] \<longleftrightarrow> column_satisfied ops c s"
  unfolding validate_column_def concatE_Inr_Nil_iff
  by (simp add: check_dtype_Nil check_null_unique_Nil check_bounds_Nil column_satisfied_def)

lemma check_column_Nil: "check_column ops d c = Inr [] \<longleftrightarrow>
    (case has_column ops d (cc_name c) of
       Inl _ \<Rightarrow> False | Inr (Some n) \<Rightarrow> column_satisfied ops c (fr_column ops d n) | Inr None \<Rightarrow> \<not> truthy (cc_required c))"
  by (auto simp: check_column_def bindE_def validate_column_Nil split: sum.splits option.splits)

lemma validate_contract_Nil:
  assumes "validate_contract ops dc d = Inr vs"
  shows "vs = [] \<longleftrightarrow> contract_satisfied ops dc d"
proof -
  from assms obtain ess where all: "map (check_column ops d) (dc_columns dc) @
      [check_rows (<) ''min_rows'' SEV_ERROR ''least'' (fr_rows ops d) (dc_min_rows dc),
       check_rows (>) ''max_rows'' SEV_WARNING ''most'' (fr_rows ops d) (dc_max_rows dc)] = map Inr ess"
    unfolding validate_contract_def using concatE_Inr by blast
  have "\<exists>es. check_column ops d c = Inr es" if c: "c \<in> set (dc_columns dc)" for c
  proof -
    from c have "check_column ops d c \<in> set (map Inr ess)" unfolding all [symmetric] by simp
    then show ?thesis by auto
  qed
  then have found: "\<not> (\<exists>e. has_column ops d (cc_name c) = Inl e)" if "c \<in> set (dc_columns dc)" for c
    using that by (force simp: check_column_def)
  have "vs = [] \<longleftrightarrow> validate_contract ops dc d = Inr []" using assms by auto
  also have "\<dots> \<longleftrightarrow> contract_satisfied ops dc d"
    using found
    unfolding validate_contract_def concatE_Inr_Nil_iff
    by (fastforce simp: list_all_iff check_rows_Nil check_column_Nil contract_satisfied_def split: sum.splits option.splits)
  finally show ?thesis .
qed

section \<open>Properties\<close>

text \<open>The violations stored with a completed step are those of its contract: if the contract can be read and
  evaluated, they are its violations on the output table in order, and there are none exactly if the
  output has every required column, each present column meets its type, null, uniqueness, range
  and value conditions, and the number of rows is within the bounds.\<close>

theorem step_contract_reported:
  assumes "execute_single_step env run_id total_steps i step st = (st', Inr res)"
    and "check_contract env = contract_check ops to_df" and "contract step = PDict kvs" and "kvs \<noteq> []"
    and "parse_contract_from_yaml (dict_set kvs (PStr ''step_name'') (step_name step)) = Inr dc"
    and "validate_contract ops dc (to_df (output_table res)) = Inr vs"
  shows "contract_violations res = map violation_to_dict vs \<and>
    (contract_violations res = [] \<longleftrightarrow> contract_satisfied ops dc (to_df (output_table res)))"
proof -
  from assms(3-6) have "contract_check ops to_df (contract step) (output_table res) (step_name step) = Inr (map violation_to_dict vs)"
    by (simp add: contract_check_def validate_step_contract_def truthy_def)
  with assms(1,2) have "contract_violations res = map violation_to_dict vs"
    by (auto simp: execute_single_step_def Let_def split: prod.splits sum.splits pyexn.splits)
  with validate_contract_Nil [OF assms(6)] show ?thesis by simp
qed

text \<open>A frame for the examples: the columns with their types and cells, where a cell is missing or a number.\<close>

definition cells_ops :: "((string \<times> string \<times> int option list) list, string \<times> int option list) frame_ops" where
  "cells_ops =
     \<lparr>fr_columns = map fst, fr_column = (\<lambda>d n. case map_of d n of None \<Rightarrow> ([], []) | Some s \<Rightarrow> s),
      fr_rows = (\<lambda>d. case d of [] \<Rightarrow> 0 | (n, ty, cs) # _ \<Rightarrow> int (length cs)), se_dtype = fst, se_numeric = (\<lambda>s. fst s = ''int64''),
      se_nulls = (\<lambda>s. length (filter (\<lambda>c. c = None) (snd s))),
      se_duplicates = (\<lambda>s. let cs = filter (\<lambda>c. c \<noteq> None) (snd s) in length cs - length (remdups cs)),
      se_below = (\<lambda>s v. case v of PInt m \<Rightarrow> Inr (length (filter (\<lambda>c. case c of None \<Rightarrow> False | Some x \<Rightarrow> x < m) (snd s))) | _ \<Rightarrow> Inl TypeError),
      se_above = (\<lambda>s v. case v of PInt m \<Rightarrow> Inr (length (filter (\<lambda>c. case c of None \<Rightarrow> False | Some x \<Rightarrow> x > m) (snd s))) | _ \<Rightarrow> Inl TypeError),
      se_outside = (\<lambda>s v. Inl TypeError)\<rparr>"

definition contract_env :: "((string \<times> string \<times> int option list) list, unit, unit) runner_env" where
  "contract_env = \<lparr>step_execute = (\<lambda>step reg rec. (rec, Inr
       \<lparr>res_step_name = step_name step, res_step_type = [], output_table = [(''id'', ''int64'', [Some 1, None, Some 9])],
        rows_in = 3, rows_out = 3, columns_in = [], columns_out = [], duration_ms = 1, res_warnings = [], contract_violations = [],
        engine = None, download_url = None, output_filename = None, output_format = None, output_object_name = None,
        output_size_bytes = None\<rparr>)),
     bus_put = (\<lambda>n t b. (b, Inr ())), check_contract = contract_check cells_ops id, wants_lineage = False\<rparr>"

definition contract_step :: "pydict \<Rightarrow> step_config" where
  "contract_step col = \<lparr>step_name = PStr ''a'', step_type = Inr LOAD, contract = PDict [(PStr ''columns'', PList [PDict col])],
     cfg_fields = LoadFields (PStr ''f1'') PNone\<rparr>"

definition contract_start :: "((string \<times> string \<times> int option list) list, unit, unit) run_state" where
  "contract_start = start_state () () []"

text \<open>The rules that the step above breaks, or the error of its contract.\<close>

definition broken_rules :: "pydict \<Rightarrow> pyval list result" where
  "broken_rules col = bindE (snd (execute_single_step contract_env ''r'' 1 0 (contract_step col) contract_start))
     (\<lambda>res. Inr (map (\<lambda>v. case v of PDict d \<Rightarrow> get_none d ''rule'' | _ \<Rightarrow> PNone) (contract_violations res)))"

theorem step_contract_reported_witness:
  "broken_rules [(PStr ''name'', PStr ''id''), (PStr ''dtype'', PStr ''integer''), (PStr ''not_null'', PBool True), (PStr ''min_value'', PInt 5)] =
     Inr [PStr ''not_null'', PStr ''min_value''] \<and>
   (\<exists>res. snd (execute_single_step contract_env ''r'' 1 0 (contract_step [(PStr ''name'', PStr ''id'')]) contract_start) = Inr res \<and>
      contract_violations res = [] \<and> contract_satisfied cells_ops \<lparr>dc_step_name = PStr ''a'', dc_columns =
        [\<lparr>cc_name = PStr ''id'', cc_dtype = None, cc_required = PBool True, cc_not_null = PBool False, cc_unique = PBool False,
          cc_min_value = PNone, cc_max_value = PNone, cc_allowed_values = PNone, cc_regex = PNone\<rparr>],
        dc_min_rows = PNone, dc_max_rows = PNone\<rparr> (output_table res))"
proof
  show "broken_rules [(PStr ''name'', PStr ''id''), (PStr ''dtype'', PStr ''integer''), (PStr ''not_null'', PBool True), (PStr ''min_value'', PInt 5)] =
     Inr [PStr ''not_null'', PStr ''min_value'']" by code_simp
  let ?step = "contract_step [(PStr ''name'', PStr ''id'')]"
  let ?run = "execute_single_step contract_env ''r'' 1 0 ?step contract_start"
  let ?dc = "\<lparr>dc_step_name = PStr ''a'', dc_columns =
        [\<lparr>cc_name = PStr ''id'', cc_dtype = None, cc_required = PBool True, cc_not_null = PBool False, cc_unique = PBool False,
          cc_min_value = PNone, cc_max_value = PNone, cc_allowed_values = PNone, cc_regex = PNone\<rparr>],
        dc_min_rows = PNone, dc_max_rows = PNone\<rparr>"
  have "map_sum (\<lambda>_. ()) (\<lambda>res. (contract_violations res, output_table res)) (snd ?run) = Inr ([], [(''id'', ''int64'', [Some 1, None, Some 9])])"
    by code_simp
  then obtain res where run: "?run = (fst ?run, Inr res)" and res: "contract_violations res = []"
    "output_table res = [(''id'', ''int64'', [Some 1, None, Some 9])]" by (cases ?run; cases "snd ?run") auto
  have dc: "parse_contract_from_yaml (dict_set [(PStr ''columns'', PList [PDict [(PStr ''name'', PStr ''id'')]])] (PStr ''step_name'')
      (step_name ?step)) = Inr ?dc" by code_simp
  have vs: "validate_contract cells_ops ?dc (id (output_table res)) = Inr []" unfolding res by code_simp
  have "contract_satisfied cells_ops ?dc (id (output_table res))"
    using step_contract_reported [where to_df = id, OF run _ _ _ dc vs] res(1) by (simp add: contract_env_def contract_step_def)
  with run res(1) show "\<exists>res. snd ?run = Inr res \<and> contract_violations res = [] \<and> contract_satisfied cells_ops ?dc (output_table res)"
    by (metis id_apply snd_conv)
qed

text \<open>A contract that cannot be read is the same as none: an unknown type name makes the evaluation raise, the runner
  logs it and stores no violation, although the column also breaks its null condition.\<close>

theorem unreadable_contract_ignored:
  "broken_rules [(PStr ''name'', PStr ''id''), (PStr ''dtype'', PStr ''int''), (PStr ''not_null'', PBool True)] = Inr []"
  by code_simp

text \<open>The pattern of a column contract is read and never used.\<close>

theorem contract_regex_unused:
  "validate_contract ops (dc\<lparr>dc_columns := map (\<lambda>c. c\<lparr>cc_regex := f c\<rparr>) (dc_columns dc)\<rparr>) d = validate_contract ops dc d"
proof -
  have "check_dtype ops (c\<lparr>cc_regex := r\<rparr>) s = check_dtype ops c s"
    "check_not_null ops (c\<lparr>cc_regex := r\<rparr>) s = check_not_null ops c s" "check_unique ops (c\<lparr>cc_regex := r\<rparr>) s = check_unique ops c s"
    "check_min ops (c\<lparr>cc_regex := r\<rparr>) s = check_min ops c s" "check_max ops (c\<lparr>cc_regex := r\<rparr>) s = check_max ops c s"
    "check_allowed ops (c\<lparr>cc_regex := r\<rparr>) s = check_allowed ops c s" for c r s
    by (simp_all add: check_dtype_def check_not_null_def check_unique_def check_min_def check_max_def check_allowed_def cong: if_cong option.case_cong)
  then have "validate_column ops (c\<lparr>cc_regex := r\<rparr>) s = validate_column ops c s" for c r s
    by (simp only: validate_column_def)
  then have "check_column ops d (c\<lparr>cc_regex := r\<rparr>) = check_column ops d c" for c r
    by (simp add: check_column_def cong: if_cong option.case_cong)
  then show ?thesis by (simp add: validate_contract_def comp_def)
qed

end
