(* ===== verification/ContractEngine.thy ===== *)
theory ContractEngine
  imports Contracts PyNum
begin

text \<open>
  The check of a finished run against the stored contract of its pipeline,
  \<^verbatim>\<open>src/backend/contracts/validator.py\<close>: reading the contract, the checks of the promised columns, of
  the null thresholds and of the number of rows, the columns nobody promised, and the report that decides
  whether the run is blocked.  \<^verbatim>\<open>yaml.safe_load\<close> and what the checks ask of an Arrow table are parameters.
\<close>

section \<open>Data\<close>

text \<open>What the checks ask of an Arrow table \<open>'t\<close> and of a column \<open>'c\<close>.  The compute kernels may raise; a
  distinct value is given by its \<^verbatim>\<open>str\<close> and its \<^verbatim>\<open>repr\<close>.\<close>

record ('t, 'c) arrow_view =
  av_names :: "'t \<Rightarrow> string list"
  av_field_index :: "'t \<Rightarrow> string \<Rightarrow> int"
  av_column :: "'t \<Rightarrow> int \<Rightarrow> 'c"
  av_num_rows :: "'t \<Rightarrow> int"
  co_type :: "'c \<Rightarrow> string"
  co_is_integer :: "'c \<Rightarrow> bool"
  co_is_floating :: "'c \<Rightarrow> bool"
  co_is_boolean :: "'c \<Rightarrow> bool"
  co_is_text :: "'c \<Rightarrow> bool"
  co_is_time :: "'c \<Rightarrow> bool"
  co_null_count :: "'c \<Rightarrow> nat"
  co_length :: "'c \<Rightarrow> nat"
  co_less :: "'c \<Rightarrow> pyval \<Rightarrow> nat result"
  co_greater :: "'c \<Rightarrow> pyval \<Rightarrow> nat result"
  co_unique :: "'c \<Rightarrow> (string \<times> string) list result"
  co_count_distinct :: "'c \<Rightarrow> nat result"

record breach =
  br_column :: pyval
  br_rule :: string
  br_severity :: string
  br_message :: string
  br_actual :: pyval
  br_expected :: pyval

record contract_validation =
  cr_passed :: bool
  cr_violations :: "breach list"

text \<open>The summary of a report, by the numbers of errors and warnings in its text.\<close>

datatype breach_summary =
    AllPassed
  | BreachBlocked nat nat
  | BreachWarningsOnly nat nat
  | BreachWarned nat nat

record breach_report =
  has_breaches :: bool
  should_block_run :: bool
  breaches :: "breach list"
  breach_summary_of :: breach_summary

definition type_category_map :: "(string \<times> string) list" where
  "type_category_map =
     [(''int8'', ''integer''), (''int16'', ''integer''), (''int32'', ''integer''), (''int64'', ''integer''),
      (''uint8'', ''integer''), (''uint16'', ''integer''), (''uint32'', ''integer''), (''uint64'', ''integer''),
      (''float16'', ''float''), (''float32'', ''float''), (''float64'', ''float''), (''double'', ''float''),
      (''bool'', ''boolean''), (''object'', ''string''), (''string'', ''string''), (''large_string'', ''string''),
      (''utf8'', ''string''), (''large_utf8'', ''string''), (''timestamp[ns]'', ''datetime''), (''timestamp[us]'', ''datetime''),
      (''timestamp[ms]'', ''datetime''), (''timestamp[s]'', ''datetime''), (''date32'', ''datetime''), (''date64'', ''datetime'')]"

section \<open>Operations\<close>

definition breach_count :: "contract_validation \<Rightarrow> nat" where
  "breach_count cr = length (filter (\<lambda>v. br_severity v = ''error'') (cr_violations cr))"

definition build_breach_report :: "contract_validation \<Rightarrow> string \<Rightarrow> breach_report" where
  "build_breach_report cr severity =
     (if cr_passed cr then \<lparr>has_breaches = False, should_block_run = False, breaches = [], breach_summary_of = AllPassed\<rparr>
      else let is_block = severity = ''block''; errors = breach_count cr; warnings = length (cr_violations cr) - errors;
               block = is_block \<and> errors > 0
        in \<lparr>has_breaches = True, should_block_run = block, breaches = cr_violations cr,
            breach_summary_of = (if block then BreachBlocked errors warnings
              else if is_block then BreachWarningsOnly errors warnings else BreachWarned errors warnings)\<rparr>)"

definition arrow_type_category :: "('t, 'c) arrow_view \<Rightarrow> 'c \<Rightarrow> string" where
  "arrow_type_category av c =
     (if co_is_integer av c then ''integer'' else if co_is_floating av c then ''float''
      else if co_is_boolean av c then ''boolean'' else if co_is_text av c then ''string''
      else if co_is_time av c then ''datetime''
      else let name = py_lower (co_type av c) in case map_of type_category_map name of None \<Rightarrow> name | Some cat \<Rightarrow> cat)"

definition parse_contract :: "(string \<Rightarrow> pyval result) \<Rightarrow> string \<Rightarrow> pydict result" where
  "parse_contract safe_load text =
     (case safe_load text of
        Inl (YAMLError m l) \<Rightarrow> Inr []
      | Inl e \<Rightarrow> Inl e
      | Inr (PDict d) \<Rightarrow> Inr d
      | Inr _ \<Rightarrow> Inr [])"

text \<open>\<^verbatim>\<open>contract.get(k, {}) or {}\<close>, whose \<^verbatim>\<open>items()\<close> only a mapping has.\<close>

definition mapping_at :: "pydict \<Rightarrow> string \<Rightarrow> pydict result" where
  "mapping_at d k =
     (let v = get_or d k (PDict []) in
      if \<not> truthy v then Inr [] else case v of PDict kvs \<Rightarrow> Inr kvs | _ \<Rightarrow> Inl AttributeError)"

definition error_breach :: "pyval \<Rightarrow> string \<Rightarrow> string \<Rightarrow> pyval \<Rightarrow> pyval \<Rightarrow> breach" where
  "error_breach col rule msg expd act =
     \<lparr>br_column = col, br_rule = rule, br_severity = ''error'', br_message = msg, br_actual = act, br_expected = expd\<rparr>"

definition warning_breach :: "pyval \<Rightarrow> string \<Rightarrow> string \<Rightarrow> pyval \<Rightarrow> pyval \<Rightarrow> breach" where
  "warning_breach col rule msg expd act = (error_breach col rule msg expd act)\<lparr>br_severity := ''warning''\<rparr>"

definition column_named :: "('t, 'c) arrow_view \<Rightarrow> 't \<Rightarrow> string \<Rightarrow> 'c" where
  "column_named av t n = av_column av t (av_field_index av t n)"

definition expected_category :: "string \<Rightarrow> string" where
  "expected_category ty = (case map_of type_category_map (py_lower ty) of None \<Rightarrow> py_lower ty | Some cat \<Rightarrow> cat)"

definition type_breaches :: "('t, 'c) arrow_view \<Rightarrow> string \<Rightarrow> 'c \<Rightarrow> pydict \<Rightarrow> breach list result" where
  "type_breaches av n c spec =
     (let ty = get_or spec ''type'' (PStr []) in
      if \<not> truthy ty then Inr []
      else case ty of
          PStr ty' \<Rightarrow> Inr (if arrow_type_category av c = expected_category ty' then []
            else [error_breach (PStr n) ''type_changed''
              (''Column '' @ [CHR 0x27] @ n @ [CHR 0x27] @ '' type mismatch: expected '' @ ty' @ '', got '' @ co_type av c)
              ty (PStr (co_type av c))])
        | _ \<Rightarrow> Inl AttributeError)"

definition null_breaches :: "('t, 'c) arrow_view \<Rightarrow> string \<Rightarrow> 'c \<Rightarrow> pydict \<Rightarrow> breach list" where
  "null_breaches av n c spec =
     (let k = co_null_count av c in
      if get_none spec ''nullable'' = PBool False \<and> k > 0
      then [error_breach (PStr n) ''not_null''
              (''Column '' @ [CHR 0x27] @ n @ [CHR 0x27] @ '' must not be null but has '' @ nat_str k @ '' null values'')
              (PStr ''0 nulls'') (PStr (nat_str k @ '' nulls''))]
      else [])"

definition min_breaches :: "('t, 'c) arrow_view \<Rightarrow> string \<Rightarrow> 'c \<Rightarrow> pydict \<Rightarrow> breach list result" where
  "min_breaches av n c spec =
     (let v = get_none spec ''min_value'' in
      if v = PNone then Inr []
      else bindE (co_less av c v) (\<lambda>k. Inr (if k > 0
        then [error_breach (PStr n) ''min_value''
                (''Column '' @ [CHR 0x27] @ n @ [CHR 0x27] @ '' has '' @ nat_str k @ '' values below minimum '' @ py_str v)
                (PStr (''>= '' @ py_str v)) (PStr (nat_str k @ '' values below''))]
        else [])))"

definition max_breaches :: "('t, 'c) arrow_view \<Rightarrow> string \<Rightarrow> 'c \<Rightarrow> pydict \<Rightarrow> breach list result" where
  "max_breaches av n c spec =
     (let v = get_none spec ''max_value'' in
      if v = PNone then Inr []
      else bindE (co_greater av c v) (\<lambda>k. Inr (if k > 0
        then [error_breach (PStr n) ''max_value''
                (''Column '' @ [CHR 0x27] @ n @ [CHR 0x27] @ '' has '' @ nat_str k @ '' values above maximum '' @ py_str v)
                (PStr (''<= '' @ py_str v)) (PStr (nat_str k @ '' values above''))]
        else [])))"

definition disallowed :: "pyval list \<Rightarrow> (string \<times> string) list \<Rightarrow> (string \<times> string) list" where
  "disallowed allowed vs = filter (\<lambda>(s, r). s \<notin> set (map py_str allowed)) vs"

definition allowed_breaches :: "('t, 'c) arrow_view \<Rightarrow> string \<Rightarrow> 'c \<Rightarrow> pydict \<Rightarrow> breach list result" where
  "allowed_breaches av n c spec =
     (let v = get_none spec ''allowed_values'' in
      if v = PNone then Inr []
      else bindE (co_unique av c) (\<lambda>vs. bindE (items_of v) (\<lambda>allowed.
        let bad = disallowed allowed vs; shown = ''['' @ join '', '' (map snd (take 5 bad)) @ '']''
        in Inr (if bad = [] then []
          else [error_breach (PStr n) ''allowed_values''
                  (''Column '' @ [CHR 0x27] @ n @ [CHR 0x27] @ '' has values not in allowed set: '' @ shown)
                  (PStr (py_str v)) (PStr shown)]))))"

definition unique_breaches :: "('t, 'c) arrow_view \<Rightarrow> string \<Rightarrow> 'c \<Rightarrow> pydict \<Rightarrow> breach list result" where
  "unique_breaches av n c spec =
     (if get_none spec ''unique'' \<noteq> PBool True then Inr []
      else bindE (co_count_distinct av c) (\<lambda>k.
        let present = co_length av c - co_null_count av c
        in Inr (if k < present
          then [error_breach (PStr n) ''unique''
                  (''Column '' @ [CHR 0x27] @ n @ [CHR 0x27] @ '' has duplicates ('' @ nat_str k @ '' unique of '' @ nat_str present @ '' non-null)'')
                  (PStr ''all unique'') (PStr (nat_str k @ '' unique''))]
          else [])))"

definition removed_breach :: "pyval \<Rightarrow> pydict \<Rightarrow> breach" where
  "removed_breach col spec = error_breach col ''column_removed''
     (''Column '' @ [CHR 0x27] @ py_str col @ [CHR 0x27] @ '' promised by contract but missing from output'')
     (get_none spec ''type'') (PStr ''missing'')"

definition present_breaches :: "('t, 'c) arrow_view \<Rightarrow> string \<Rightarrow> 'c \<Rightarrow> pydict \<Rightarrow> breach list result" where
  "present_breaches av n c spec =
     bindE (type_breaches av n c spec) (\<lambda>b1. bindE (min_breaches av n c spec) (\<lambda>b3. bindE (max_breaches av n c spec) (\<lambda>b4.
     bindE (allowed_breaches av n c spec) (\<lambda>b5. bindE (unique_breaches av n c spec) (\<lambda>b6.
       Inr (b1 @ null_breaches av n c spec @ b3 @ b4 @ b5 @ b6))))))"

definition column_breaches :: "('t, 'c) arrow_view \<Rightarrow> 't \<Rightarrow> pyval \<times> pyval \<Rightarrow> breach list result" where
  "column_breaches av t entry =
     (case entry of
        (col, PDict spec) \<Rightarrow>
          (case col of
             PStr n \<Rightarrow> if n \<in> set (av_names av t) then present_breaches av n (column_named av t n) spec
                       else Inr [removed_breach col spec]
           | _ \<Rightarrow> Inr [removed_breach col spec])
      | _ \<Rightarrow> Inr [])"

definition null_percentage :: "nat \<Rightarrow> nat \<Rightarrow> rat" where
  "null_percentage k m = round64 (round64 (of_nat k / of_nat m) * 100)"

definition exceeds :: "rat \<Rightarrow> flt \<Rightarrow> bool" where
  "exceeds x f = (case f of Fin q \<Rightarrow> x > q | Infinite pos \<Rightarrow> \<not> pos | NaN \<Rightarrow> False)"

text \<open>\<^verbatim>\<open>f"{x:.1f}"\<close> for a non-negative finite double.\<close>

definition format_1f :: "rat \<Rightarrow> string" where
  "format_1f x = (let n = nat (round_half_even (x * 10)) in nat_str (n div 10) @ ''.'' @ nat_str (n mod 10))"

definition threshold_breaches :: "('t, 'c) arrow_view \<Rightarrow> 't \<Rightarrow> pyval \<times> pyval \<Rightarrow> breach list result" where
  "threshold_breaches av t entry =
     (case entry of
        (PStr n, most) \<Rightarrow>
          if n \<notin> set (av_names av t) then Inr []
          else let c = column_named av t n in
            if co_length av c = 0 then Inr []
            else let pct = null_percentage (co_null_count av c) (co_length av c) in
              bindE (py_float most) (\<lambda>f. Inr (if exceeds pct f
                then [warning_breach (PStr n) ''null_threshold_exceeded''
                        (''Column '' @ [CHR 0x27] @ n @ [CHR 0x27] @ '' null rate '' @ format_1f pct @ ''% exceeds threshold '' @ py_str most @ ''%'')
                        (PStr (''max '' @ py_str most @ ''% nulls'')) (PStr (format_1f pct @ ''% nulls''))]
                else []))
      | _ \<Rightarrow> Inr [])"

definition row_breaches :: "(int \<Rightarrow> int \<Rightarrow> bool) \<Rightarrow> string \<Rightarrow> string \<Rightarrow> int \<Rightarrow> pyval \<Rightarrow> breach list result" where
  "row_breaches rel rule word rows v =
     (if v = PNone then Inr []
      else bindE (py_int v) (\<lambda>b. Inr (if rel rows b
        then [error_breach (PStr ''__row_count__'') rule
                (''Output has '' @ int_str rows @ '' rows, '' @ word @ '' is '' @ py_str v) (PStr (py_str v)) (PStr (int_str rows))]
        else [])))"

definition unexpected_columns :: "string list \<Rightarrow> pydict \<Rightarrow> string list" where
  "unexpected_columns names promised = sort (filter (\<lambda>n. dict_get promised (PStr n) = None) (remdups names))"

definition unexpected_breach :: "string \<Rightarrow> breach" where
  "unexpected_breach n = warning_breach (PStr n) ''unexpected_column''
     (''Column '' @ [CHR 0x27] @ n @ [CHR 0x27] @ '' not defined in contract'') PNone PNone"

definition table_breaches :: "('t, 'c) arrow_view \<Rightarrow> 't \<Rightarrow> pydict \<Rightarrow> breach list result" where
  "table_breaches av t d =
     bindE (mapping_at d ''columns'') (\<lambda>promised.
     bindE (mapE (column_breaches av t) promised) (\<lambda>bss.
     bindE (mapping_at d ''null_thresholds'') (\<lambda>thresholds.
     bindE (mapE (threshold_breaches av t) thresholds) (\<lambda>nss.
     bindE (row_breaches (<) ''row_count_below_minimum'' ''minimum'' (av_num_rows av t) (get_none d ''min_rows'')) (\<lambda>low.
     bindE (row_breaches (>) ''row_count_above_maximum'' ''maximum'' (av_num_rows av t) (get_none d ''max_rows'')) (\<lambda>high.
       Inr (concat bss @ concat nss @ low @ high @
            map unexpected_breach (unexpected_columns (av_names av t) promised))))))))"

definition validate_against_contract ::
    "('t, 'c) arrow_view \<Rightarrow> (string \<Rightarrow> pyval result) \<Rightarrow> 't option \<Rightarrow> string \<Rightarrow> contract_validation result" where
  "validate_against_contract av safe_load output text =
     bindE (parse_contract safe_load text) (\<lambda>d.
       if d = [] then Inr \<lparr>cr_passed = False, cr_violations =
           [error_breach (PStr ''__contract__'') ''parse_error'' ''Contract YAML is empty or invalid'' PNone PNone]\<rparr>
       else case output of
           None \<Rightarrow> Inr \<lparr>cr_passed = False, cr_violations =
             [error_breach (PStr ''__all__'') ''no_output'' ''Pipeline produced no output table'' PNone PNone]\<rparr>
         | Some t \<Rightarrow> bindE (table_breaches av t d) (\<lambda>vs. Inr \<lparr>cr_passed = vs = [], cr_violations = vs\<rparr>))"

section \<open>What a contract demands\<close>

text \<open>The conditions on a promised column that is there.\<close>

definition promise_kept :: "('t, 'c) arrow_view \<Rightarrow> 'c \<Rightarrow> pydict \<Rightarrow> bool" where
  "promise_kept av c spec \<longleftrightarrow>
     (\<forall>ty. get_or spec ''type'' (PStr []) = PStr ty \<longrightarrow> ty = [] \<or> arrow_type_category av c = expected_category ty) \<and>
     (get_none spec ''nullable'' = PBool False \<longrightarrow> co_null_count av c = 0) \<and>
     (\<forall>v. get_none spec ''min_value'' = v \<longrightarrow> v = PNone \<or> co_less av c v = Inr 0) \<and>
     (\<forall>v. get_none spec ''max_value'' = v \<longrightarrow> v = PNone \<or> co_greater av c v = Inr 0) \<and>
     (\<forall>v. get_none spec ''allowed_values'' = v \<longrightarrow> v = PNone \<or>
        (\<exists>vs allowed. co_unique av c = Inr vs \<and> items_of v = Inr allowed \<and> fst ` set vs \<subseteq> py_str ` set allowed)) \<and>
     (get_none spec ''unique'' = PBool True \<longrightarrow> (\<exists>k. co_count_distinct av c = Inr k \<and> co_length av c - co_null_count av c \<le> k))"

text \<open>The conditions whose failure is an error, and those whose failure is a warning.\<close>

definition contract_met :: "('t, 'c) arrow_view \<Rightarrow> 't \<Rightarrow> pydict \<Rightarrow> bool" where
  "contract_met av t d \<longleftrightarrow>
     (\<forall>promised col spec. mapping_at d ''columns'' = Inr promised \<longrightarrow> (col, PDict spec) \<in> set promised \<longrightarrow>
        (\<exists>n \<in> set (av_names av t). col = PStr n \<and> promise_kept av (column_named av t n) spec)) \<and>
     (\<forall>v b. get_none d ''min_rows'' = v \<longrightarrow> v \<noteq> PNone \<longrightarrow> py_int v = Inr b \<longrightarrow> b \<le> av_num_rows av t) \<and>
     (\<forall>v b. get_none d ''max_rows'' = v \<longrightarrow> v \<noteq> PNone \<longrightarrow> py_int v = Inr b \<longrightarrow> av_num_rows av t \<le> b)"

definition contract_unflagged :: "('t, 'c) arrow_view \<Rightarrow> 't \<Rightarrow> pydict \<Rightarrow> bool" where
  "contract_unflagged av t d \<longleftrightarrow>
     (\<forall>thresholds n most f. mapping_at d ''null_thresholds'' = Inr thresholds \<longrightarrow> (PStr n, most) \<in> set thresholds \<longrightarrow>
        n \<in> set (av_names av t) \<longrightarrow> co_length av (column_named av t n) \<noteq> 0 \<longrightarrow> py_float most = Inr f \<longrightarrow>
        \<not> exceeds (null_percentage (co_null_count av (column_named av t n)) (co_length av (column_named av t n))) f) \<and>
     (\<forall>promised n. mapping_at d ''columns'' = Inr promised \<longrightarrow> n \<in> set (av_names av t) \<longrightarrow> dict_get promised (PStr n) \<noteq> None)"

definition error_rules :: "string list" where
  "error_rules = [''parse_error'', ''no_output'', ''column_removed'', ''type_changed'', ''not_null'', ''min_value'', ''max_value'',
     ''allowed_values'', ''unique'', ''row_count_below_minimum'', ''row_count_above_maximum'']"

definition warning_rules :: "string list" where
  "warning_rules = [''null_threshold_exceeded'', ''unexpected_column'']"

definition errors_only :: "breach list \<Rightarrow> bool" where
  "errors_only vs \<longleftrightarrow> (\<forall>v \<in> set vs. br_severity v = ''error'' \<and> br_rule v \<in> set error_rules)"

definition warnings_only :: "breach list \<Rightarrow> bool" where
  "warnings_only vs \<longleftrightarrow> (\<forall>v \<in> set vs. br_severity v = ''warning'' \<and> br_rule v \<in> set warning_rules)"

lemma breach_sel [simp]:
  "br_severity (error_breach col rule msg e a) = ''error''" "br_rule (error_breach col rule msg e a) = rule"
  "br_severity (warning_breach col rule msg e a) = ''warning''" "br_rule (warning_breach col rule msg e a) = rule"
  by (simp_all add: error_breach_def warning_breach_def)

lemmas breaches_defs = type_breaches_def null_breaches_def min_breaches_def max_breaches_def allowed_breaches_def unique_breaches_def

lemma disallowed_Nil: "disallowed allowed vs = [] \<longleftrightarrow> fst ` set vs \<subseteq> py_str ` set allowed"
  by (auto simp: disallowed_def filter_empty_conv)

lemma errors_only_simps [simp]:
  "errors_only []" "errors_only (xs @ ys) \<longleftrightarrow> errors_only xs \<and> errors_only ys"
  "errors_only [error_breach col rule msg e a] \<longleftrightarrow> rule \<in> set error_rules"
  by (auto simp: errors_only_def)

lemma rule_listed [simp]:
  "''column_removed'' \<in> set error_rules" "''type_changed'' \<in> set error_rules" "''not_null'' \<in> set error_rules"
  "''min_value'' \<in> set error_rules" "''max_value'' \<in> set error_rules" "''allowed_values'' \<in> set error_rules"
  "''unique'' \<in> set error_rules" "''row_count_below_minimum'' \<in> set error_rules" "''row_count_above_maximum'' \<in> set error_rules"
  "''parse_error'' \<in> set error_rules" "''no_output'' \<in> set error_rules"
  by (simp_all add: error_rules_def)

lemma part_errors:
  "type_breaches av n c spec = Inr b1 \<Longrightarrow> errors_only b1" "errors_only (null_breaches av n c spec)"
  "min_breaches av n c spec = Inr b3 \<Longrightarrow> errors_only b3" "max_breaches av n c spec = Inr b4 \<Longrightarrow> errors_only b4"
  "allowed_breaches av n c spec = Inr b5 \<Longrightarrow> errors_only b5" "unique_breaches av n c spec = Inr b6 \<Longrightarrow> errors_only b6"
  by (auto simp: breaches_defs Let_def split: if_splits pyval.splits)

lemma present_errors: "present_breaches av n c spec = Inr vs \<Longrightarrow> errors_only vs"
  by (auto simp: present_breaches_def intro: part_errors)

lemma present_Nil:
  assumes "present_breaches av n c spec = Inr vs"
  shows "vs = [] \<longleftrightarrow> promise_kept av c spec"
proof -
  from assms obtain b1 b3 b4 b5 b6 where parts: "type_breaches av n c spec = Inr b1" "min_breaches av n c spec = Inr b3"
    "max_breaches av n c spec = Inr b4" "allowed_breaches av n c spec = Inr b5" "unique_breaches av n c spec = Inr b6"
    and vs: "vs = b1 @ null_breaches av n c spec @ b3 @ b4 @ b5 @ b6"
    by (auto simp: present_breaches_def)
  have "b1 = [] \<longleftrightarrow> (\<forall>ty. get_or spec ''type'' (PStr []) = PStr ty \<longrightarrow> ty = [] \<or> arrow_type_category av c = expected_category ty)"
    using parts(1) by (auto simp: type_breaches_def Let_def split: if_splits pyval.splits)
  moreover have "null_breaches av n c spec = [] \<longleftrightarrow> (get_none spec ''nullable'' = PBool False \<longrightarrow> co_null_count av c = 0)"
    by (simp add: null_breaches_def Let_def)
  moreover have "b3 = [] \<longleftrightarrow> (\<forall>v. get_none spec ''min_value'' = v \<longrightarrow> v = PNone \<or> co_less av c v = Inr 0)"
    using parts(2) by (auto simp: min_breaches_def Let_def split: if_splits)
  moreover have "b4 = [] \<longleftrightarrow> (\<forall>v. get_none spec ''max_value'' = v \<longrightarrow> v = PNone \<or> co_greater av c v = Inr 0)"
    using parts(3) by (auto simp: max_breaches_def Let_def split: if_splits)
  moreover have "b5 = [] \<longleftrightarrow> (\<forall>v. get_none spec ''allowed_values'' = v \<longrightarrow> v = PNone \<or>
      (\<exists>vs allowed. co_unique av c = Inr vs \<and> items_of v = Inr allowed \<and> fst ` set vs \<subseteq> py_str ` set allowed))"
    using parts(4) by (auto simp: allowed_breaches_def Let_def disallowed_Nil [symmetric] split: if_splits)
  moreover have "b6 = [] \<longleftrightarrow> (get_none spec ''unique'' = PBool True \<longrightarrow>
      (\<exists>k. co_count_distinct av c = Inr k \<and> co_length av c - co_null_count av c \<le> k))"
    using parts(5) by (auto simp: unique_breaches_def Let_def split: if_splits)
  ultimately show ?thesis unfolding vs promise_kept_def append_is_Nil_conv by presburger
qed

lemma column_breaches_cases:
  assumes "column_breaches av t (col, v) = Inr vs"
  obtains (unread) "\<And>spec. v \<noteq> PDict spec" "vs = []"
    | (present) spec n where "v = PDict spec" "col = PStr n" "n \<in> set (av_names av t)"
        "present_breaches av n (column_named av t n) spec = Inr vs"
    | (removed) spec where "v = PDict spec" "\<And>n. col = PStr n \<Longrightarrow> n \<notin> set (av_names av t)" "vs = [removed_breach col spec]"
  using assms by (cases v; cases col) (auto simp: column_breaches_def split: if_splits)

lemma column_breaches_iff:
  assumes "column_breaches av t (col, v) = Inr vs"
  shows "errors_only vs \<and> (vs = [] \<longleftrightarrow> (\<forall>spec. v = PDict spec \<longrightarrow>
    (\<exists>n \<in> set (av_names av t). col = PStr n \<and> promise_kept av (column_named av t n) spec)))"
  using assms
proof (cases rule: column_breaches_cases)
  case (present spec n)
  then show ?thesis using present_errors present_Nil by fastforce
qed (auto simp: removed_breach_def)

lemma row_breaches_iff:
  assumes "row_breaches rel rule word rows v = Inr vs" and "rule \<in> set error_rules"
  shows "errors_only vs \<and> (vs = [] \<longleftrightarrow> (v \<noteq> PNone \<longrightarrow> (\<forall>b. py_int v = Inr b \<longrightarrow> \<not> rel rows b)))"
  using assms by (auto simp: row_breaches_def errors_only_def split: if_splits)

lemma threshold_breaches_iff:
  assumes "threshold_breaches av t (col, most) = Inr vs"
  shows "warnings_only vs \<and> (vs = [] \<longleftrightarrow> (\<forall>n f. col = PStr n \<longrightarrow> n \<in> set (av_names av t) \<longrightarrow> co_length av (column_named av t n) \<noteq> 0 \<longrightarrow>
    py_float most = Inr f \<longrightarrow>
    \<not> exceeds (null_percentage (co_null_count av (column_named av t n)) (co_length av (column_named av t n))) f))"
  using assms by (auto simp: threshold_breaches_def warnings_only_def warning_rules_def Let_def split: pyval.splits if_splits)

lemma sort_Nil: "sort xs = [] \<longleftrightarrow> xs = []"
  by (metis set_empty set_sort)

lemma unexpected_Nil: "unexpected_columns names promised = [] \<longleftrightarrow> (\<forall>n \<in> set names. dict_get promised (PStr n) \<noteq> None)"
  by (simp add: unexpected_columns_def sort_Nil filter_empty_conv)

lemma warnings_unexpected: "warnings_only (map unexpected_breach ns)"
  by (simp add: warnings_only_def warning_rules_def unexpected_breach_def)

lemma concat_breaches:
  assumes "mapE f xs = Inr bss" and "\<And>x vs. x \<in> set xs \<Longrightarrow> f x = Inr vs \<Longrightarrow> Q vs \<and> (vs = [] \<longleftrightarrow> P x)"
    and "Q []" and "\<And>us vs. Q us \<Longrightarrow> Q vs \<Longrightarrow> Q (us @ vs)"
  shows "Q (concat bss) \<and> (concat bss = [] \<longleftrightarrow> (\<forall>x \<in> set xs. P x))"
proof -
  from assms(1) have "list_all2 (\<lambda>x y. f x = Inr y) xs bss" by (simp add: mapE_Inr_iff)
  then show ?thesis using assms(2)
  proof (induction rule: list_all2_induct)
    case Nil
    then show ?case using assms(3) by simp
  next
    case (Cons x xs y ys)
    then have "Q y \<and> (y = [] \<longleftrightarrow> P x)" "Q (concat ys) \<and> (concat ys = [] \<longleftrightarrow> (\<forall>x \<in> set xs. P x))" by auto
    then show ?case using assms(4) by auto
  qed
qed

lemma table_breaches_parts:
  assumes "table_breaches av t d = Inr vs"
  obtains errs warns low unexp where "vs = errs @ warns @ low @ unexp" "errors_only (errs @ low)" "warnings_only (warns @ unexp)"
    "errs @ low = [] \<longleftrightarrow> contract_met av t d" "warns @ unexp = [] \<longleftrightarrow> contract_unflagged av t d"
proof -
  from assms obtain promised bss thresholds nss low high where
    p: "mapping_at d ''columns'' = Inr promised" "mapE (column_breaches av t) promised = Inr bss"
    and th: "mapping_at d ''null_thresholds'' = Inr thresholds" "mapE (threshold_breaches av t) thresholds = Inr nss"
    and low: "row_breaches (<) ''row_count_below_minimum'' ''minimum'' (av_num_rows av t) (get_none d ''min_rows'') = Inr low"
    and high: "row_breaches (>) ''row_count_above_maximum'' ''maximum'' (av_num_rows av t) (get_none d ''max_rows'') = Inr high"
    and vs: "vs = concat bss @ concat nss @ (low @ high) @ map unexpected_breach (unexpected_columns (av_names av t) promised)"
    by (auto simp: table_breaches_def)
  have e: "errors_only (concat bss) \<and> (concat bss = [] \<longleftrightarrow> (\<forall>x \<in> set promised. \<forall>spec. snd x = PDict spec \<longrightarrow>
      (\<exists>n \<in> set (av_names av t). fst x = PStr n \<and> promise_kept av (column_named av t n) spec)))"
    by (rule concat_breaches [OF p(2)]) (use column_breaches_iff in force)+
  have w: "warnings_only (concat nss) \<and> (concat nss = [] \<longleftrightarrow> (\<forall>x \<in> set thresholds. \<forall>n f. fst x = PStr n \<longrightarrow> n \<in> set (av_names av t) \<longrightarrow>
      co_length av (column_named av t n) \<noteq> 0 \<longrightarrow> py_float (snd x) = Inr f \<longrightarrow>
      \<not> exceeds (null_percentage (co_null_count av (column_named av t n)) (co_length av (column_named av t n))) f))"
    by (rule concat_breaches [OF th(2)]) (use threshold_breaches_iff in \<open>force simp: warnings_only_def\<close>)+
  note lo = row_breaches_iff [OF low, simplified] and hi = row_breaches_iff [OF high, simplified]
  show ?thesis
  proof (rule that [OF vs])
    show "errors_only (concat bss @ low @ high)" using e lo hi by simp
    show "warnings_only (concat nss @ map unexpected_breach (unexpected_columns (av_names av t) promised))"
      using w warnings_unexpected by (auto simp: warnings_only_def)
    show "concat bss @ low @ high = [] \<longleftrightarrow> contract_met av t d"
      using e lo hi p(1) by (fastforce simp: contract_met_def not_less)
    show "concat nss @ map unexpected_breach (unexpected_columns (av_names av t) promised) = [] \<longleftrightarrow> contract_unflagged av t d"
      using w p(1) th(1) unexpected_Nil by (fastforce simp: contract_unflagged_def)
  qed
qed

text \<open>A run keeps its contract if the contract is a mapping with entries, there is an output, and the conditions hold.\<close>

definition errors_absent :: "('t, 'c) arrow_view \<Rightarrow> (string \<Rightarrow> pyval result) \<Rightarrow> 't option \<Rightarrow> string \<Rightarrow> bool" where
  "errors_absent av safe_load output text \<longleftrightarrow>
     (\<exists>d t. safe_load text = Inr (PDict d) \<and> d \<noteq> [] \<and> output = Some t \<and> contract_met av t d)"

definition contract_kept :: "('t, 'c) arrow_view \<Rightarrow> (string \<Rightarrow> pyval result) \<Rightarrow> 't option \<Rightarrow> string \<Rightarrow> bool" where
  "contract_kept av safe_load output text \<longleftrightarrow>
     (\<exists>d t. safe_load text = Inr (PDict d) \<and> d \<noteq> [] \<and> output = Some t \<and> contract_met av t d \<and> contract_unflagged av t d)"

lemma parse_contract_Inr:
  "parse_contract safe_load text = Inr d \<Longrightarrow> d \<noteq> [] \<Longrightarrow> safe_load text = Inr (PDict d)"
  "parse_contract safe_load text = Inr [] \<Longrightarrow> safe_load text = Inr (PDict d) \<Longrightarrow> d = []"
  by (auto simp: parse_contract_def split: sum.splits pyexn.splits pyval.splits)

lemma validate_against_contract_parts:
  assumes "validate_against_contract av safe_load output text = Inr cr"
  obtains errs warns low unexp where "cr_violations cr = errs @ warns @ low @ unexp" "cr_passed cr \<longleftrightarrow> cr_violations cr = []"
    "errors_only (errs @ low)" "warnings_only (warns @ unexp)" "errs @ low = [] \<longleftrightarrow> errors_absent av safe_load output text"
    "cr_violations cr = [] \<longleftrightarrow> contract_kept av safe_load output text"
proof -
  from assms obtain d where d: "parse_contract safe_load text = Inr d" by (auto simp: validate_against_contract_def)
  show ?thesis
  proof (cases "d = [] \<or> output = None")
    case True
    then have no: "\<not> errors_absent av safe_load output text" "\<not> contract_kept av safe_load output text"
      using d parse_contract_Inr by (fastforce simp: errors_absent_def contract_kept_def)+
    from assms d True obtain v where "cr_violations cr = [v]" "\<not> cr_passed cr" "errors_only [v]"
      by (auto simp: validate_against_contract_def split: if_splits option.splits)
    then show ?thesis using no that [of "[v]" "[]" "[]" "[]"] by (simp add: warnings_only_def)
  next
    case False
    then obtain t where t: "output = Some t" "d \<noteq> []" by blast
    with d have load: "safe_load text = Inr (PDict d)" using parse_contract_Inr(1) by blast
    from assms d t have tb: "table_breaches av t d = Inr (cr_violations cr)" "cr_passed cr \<longleftrightarrow> cr_violations cr = []"
      by (auto simp: validate_against_contract_def)
    from table_breaches_parts [OF tb(1)] obtain errs warns low unexp where
      parts: "cr_violations cr = errs @ warns @ low @ unexp" "errors_only (errs @ low)" "warnings_only (warns @ unexp)"
        "errs @ low = [] \<longleftrightarrow> contract_met av t d" "warns @ unexp = [] \<longleftrightarrow> contract_unflagged av t d" .
    show ?thesis
      by (rule that [OF parts(1) tb(2) parts(2,3)])
        (use parts(1,4,5) load t in \<open>auto simp: errors_absent_def contract_kept_def\<close>)
  qed
qed

section \<open>Properties\<close>


text \<open>Tables for the examples: columns of missing or present numbers with the name of their type.\<close>

definition cells_view :: "((string \<times> string \<times> int option list) list, string \<times> int option list) arrow_view" where
  "cells_view =
     \<lparr>av_names = map fst, av_field_index = (\<lambda>d n. int (length (takeWhile (\<lambda>x. fst x \<noteq> n) d))),
      av_column = (\<lambda>d i. snd (d ! nat i)), av_num_rows = (\<lambda>d. case d of [] \<Rightarrow> 0 | (n, ty, cs) # _ \<Rightarrow> int (length cs)),
      co_type = fst, co_is_integer = (\<lambda>c. fst c = ''int64''), co_is_floating = (\<lambda>c. fst c = ''double''), co_is_boolean = (\<lambda>c. False),
      co_is_text = (\<lambda>c. fst c = ''string''), co_is_time = (\<lambda>c. False), co_null_count = (\<lambda>c. length (filter (\<lambda>x. x = None) (snd c))),
      co_length = (\<lambda>c. length (snd c)),
      co_less = (\<lambda>c v. case v of PInt m \<Rightarrow> Inr (length (filter (\<lambda>x. case x of None \<Rightarrow> False | Some i \<Rightarrow> i < m) (snd c))) | _ \<Rightarrow> Inl TypeError),
      co_greater = (\<lambda>c v. case v of PInt m \<Rightarrow> Inr (length (filter (\<lambda>x. case x of None \<Rightarrow> False | Some i \<Rightarrow> i > m) (snd c))) | _ \<Rightarrow> Inl TypeError),
      co_unique = (\<lambda>c. Inr (map (\<lambda>x. case x of None \<Rightarrow> (''None'', ''None'') | Some i \<Rightarrow> (int_str i, int_str i)) (remdups (snd c)))),
      co_count_distinct = (\<lambda>c. Inr (length (remdups (filter (\<lambda>x. x \<noteq> None) (snd c)))))\<rparr>"

definition revenue_table :: "(string \<times> string \<times> int option list) list" where
  "revenue_table = [(''customer_id'', ''int64'', [Some 1, Some 2]), (''revenue_sum'', ''double'', [None, Some 7])]"

definition revenue_contract :: "string \<Rightarrow> pyval result" where
  "revenue_contract schema_key = Inr (PDict [
     (PStr schema_key, PDict [(PStr ''customer_id'', PDict [(PStr ''type'', PStr ''int32''), (PStr ''unique'', PBool True)]),
        (PStr ''revenue_sum'', PDict [(PStr ''type'', PStr ''float64''), (PStr ''min_value'', PInt 8)])]),
     (PStr ''null_thresholds'', PDict [(PStr ''revenue_sum'', PFloat ''5.0'' (Some 5))]), (PStr ''min_rows'', PInt 1)])"


text \<open>A contract written as documented promises nothing: the check reads the promised columns from columns, not from
  output_schema, so that the columns it lists are reported as unexpected and never checked.\<close>

theorem documented_schema_unread:
  "map_sum (\<lambda>_. ()) (\<lambda>cr. map (\<lambda>v. (br_column v, br_rule v)) (cr_violations cr))
     (validate_against_contract cells_view revenue_contract (Some revenue_table) ''output_schema'') =
   Inr [(PStr ''revenue_sum'', ''null_threshold_exceeded''), (PStr ''customer_id'', ''unexpected_column''),
     (PStr ''revenue_sum'', ''unexpected_column'')]"
  by code_simp

end
