(* ===== verification/YamlCache.thy ===== *)
theory YamlCache
  imports PipelineParser
begin

text \<open>
  \<^verbatim>\<open>backend/pipeline/cache.py\<close>: parsed pipelines by way of a cache of texts, the local one of the process in front of
  the one in Redis, both keyed by a hash of the text.  The hash, YAML, the clock and the answers of Redis are
  parameters; entries of Redis that have expired are given by a predicate.  Times are milliseconds.
\<close>

section \<open>Definitions\<close>

record yaml_cache =
  local_yaml_cache :: "(string \<times> string) list"
  redis_yaml :: "string \<Rightarrow> string option"
  redis_cache_disabled_until :: int

record cache_env =
  sha256_hex :: "string \<Rightarrow> string"
  use_redis_cache :: bool
  time_of_get :: int
  get_answers :: bool
  redis_expired :: "string \<Rightarrow> bool"
  time_of_set :: int
  set_answers :: bool

definition yaml_cache_prefix :: string where
  "yaml_cache_prefix = ''yaml:parsed:''"

definition local_cache_max_entries :: nat where
  "local_cache_max_entries = 256"

definition redis_retry_backoff :: int where
  "redis_retry_backoff = 5000"

text \<open>The ordered dictionary of the process, its oldest entry first.\<close>

definition move_to_end :: "string \<Rightarrow> (string \<times> string) list \<Rightarrow> (string \<times> string) list" where
  "move_to_end key od = filter (\<lambda>e. fst e \<noteq> key) od @ filter (\<lambda>e. fst e = key) od"

definition local_cache_get :: "string \<Rightarrow> (string \<times> string) list \<Rightarrow> (string \<times> string) list \<times> string option" where
  "local_cache_get key od = (case map_of od key of None \<Rightarrow> (od, None) | Some t \<Rightarrow> (move_to_end key od, Some t))"

definition local_cache_set :: "string \<Rightarrow> string \<Rightarrow> (string \<times> string) list \<Rightarrow> (string \<times> string) list" where
  "local_cache_set key t od =
     (let od1 = move_to_end key (AList.update key t od) in drop (length od1 - local_cache_max_entries) od1)"

text \<open>A call on Redis at a time: whether it was made and answered.  A failing one puts off the next ones.\<close>

definition redis_call :: "int \<Rightarrow> bool \<Rightarrow> yaml_cache \<Rightarrow> yaml_cache \<times> bool" where
  "redis_call now answers c =
     (if now < redis_cache_disabled_until c then (c, False)
      else if answers then (c\<lparr>redis_cache_disabled_until := 0\<rparr>, True)
      else (c\<lparr>redis_cache_disabled_until := now + redis_retry_backoff\<rparr>, False))"

definition cache_key :: "cache_env \<Rightarrow> string \<Rightarrow> string" where
  "cache_key env t = yaml_cache_prefix @ sha256_hex env t"

definition put_local :: "string \<Rightarrow> string \<Rightarrow> yaml_cache \<Rightarrow> yaml_cache" where
  "put_local key t c = c\<lparr>local_yaml_cache := local_cache_set key t (local_yaml_cache c)\<rparr>"

text \<open>The look-up in Redis: a text that parses is kept in the process too.\<close>

definition redis_lookup :: "cache_env \<Rightarrow> (string \<Rightarrow> pyval result) \<Rightarrow> string \<Rightarrow> yaml_cache \<Rightarrow> yaml_cache \<times> pipeline_config option" where
  "redis_lookup env safe_load key c =
     (if \<not> use_redis_cache env then (c, None)
      else case redis_call (time_of_get env) (get_answers env) c of
          (c1, False) \<Rightarrow> (c1, None)
        | (c1, True) \<Rightarrow>
            (case (if redis_expired env key then None else redis_yaml c1 key) of
               None \<Rightarrow> (c1, None)
             | Some t \<Rightarrow>
                 if t = [] then (c1, None)
                 else (case parse safe_load t of Inl e \<Rightarrow> (c1, None) | Inr p \<Rightarrow> (put_local key t c1, Some p))))"

definition redis_store :: "cache_env \<Rightarrow> string \<Rightarrow> string \<Rightarrow> yaml_cache \<Rightarrow> yaml_cache" where
  "redis_store env key t c =
     (if \<not> use_redis_cache env then c
      else case redis_call (time_of_set env) (set_answers env) c of
          (c1, False) \<Rightarrow> c1
        | (c1, True) \<Rightarrow> c1\<lparr>redis_yaml := (redis_yaml c1)(key \<mapsto> t)\<rparr>)"

definition empty_yaml :: pyexn where
  "empty_yaml = ValueError ''Pipeline YAML must not be empty''"

definition get_parsed_pipeline ::
    "cache_env \<Rightarrow> (string \<Rightarrow> pyval result) \<Rightarrow> string \<Rightarrow> yaml_cache \<Rightarrow> yaml_cache \<times> pipeline_config result" where
  "get_parsed_pipeline env safe_load text c =
     (if py_strip text = [] then (c, Inl empty_yaml)
      else let key = cache_key env text in
        case local_cache_get key (local_yaml_cache c) of
          (od, Some cached) \<Rightarrow> (c\<lparr>local_yaml_cache := od\<rparr>, parse safe_load cached)
        | (od, None) \<Rightarrow>
            (case redis_lookup env safe_load key c of
               (c1, Some p) \<Rightarrow> (c1, Inr p)
             | (c1, None) \<Rightarrow>
                 (case parse safe_load text of
                    Inl e \<Rightarrow> (c1, Inl e)
                  | Inr p \<Rightarrow> (redis_store env key text (put_local key text c1), Inr p))))"

definition invalidate_pipeline_cache :: "cache_env \<Rightarrow> string \<Rightarrow> yaml_cache \<Rightarrow> yaml_cache" where
  "invalidate_pipeline_cache env text c =
     (let key = cache_key env text; c1 = c\<lparr>local_yaml_cache := AList.delete key (local_yaml_cache c)\<rparr> in
      if \<not> use_redis_cache env then c1
      else case redis_call (time_of_set env) (set_answers env) c1 of
          (c2, False) \<Rightarrow> c2
        | (c2, True) \<Rightarrow> c2\<lparr>redis_yaml := (redis_yaml c2)(key := None)\<rparr>)"

text \<open>What the callers of the cache rely on: it is the parser behind a check for blank texts.\<close>

definition parsed_pipeline :: "(string \<Rightarrow> pyval result) \<Rightarrow> string \<Rightarrow> pipeline_config result" where
  "parsed_pipeline safe_load text = (if py_strip text = [] then Inl empty_yaml else parse safe_load text)"

section \<open>Caches of texts\<close>

text \<open>What is asked of either cache: a stored entry shows up nowhere else, and storing invents nothing.\<close>

locale text_cache =
  fixes lookup :: "'s \<Rightarrow> string \<Rightarrow> string option" and store :: "string \<Rightarrow> string \<Rightarrow> 's \<Rightarrow> 's"
    and forget :: "string \<Rightarrow> 's \<Rightarrow> 's" and ok :: "'s \<Rightarrow> bool"
  assumes ok_store: "ok s \<Longrightarrow> ok (store k t s)" and ok_forget: "ok s \<Longrightarrow> ok (forget k s)"
    and lookup_store: "ok s \<Longrightarrow> lookup (store k t s) k' = Some u \<Longrightarrow> (k' = k \<and> u = t) \<or> lookup s k' = Some u"
    and lookup_forget: "ok s \<Longrightarrow> lookup (forget k s) k' = Some u \<Longrightarrow> k' \<noteq> k \<and> lookup s k' = Some u"
begin

text \<open>Every entry is filed under the key of its text.\<close>

definition filed :: "(string \<Rightarrow> string) \<Rightarrow> 's \<Rightarrow> bool" where
  "filed key s \<longleftrightarrow> ok s \<and> (\<forall>k u. lookup s k = Some u \<longrightarrow> k = key u)"

lemma filed_store: "filed key s \<Longrightarrow> filed key (store (key t) t s)"
  unfolding filed_def using ok_store lookup_store by metis

lemma filed_forget: "filed key s \<Longrightarrow> filed key (forget k s)"
  unfolding filed_def using ok_forget lookup_forget by metis

text \<open>A hit is the text that was asked for, unless two texts share a key.\<close>

lemma filed_hit: "filed key s \<Longrightarrow> lookup s (key t) = Some u \<Longrightarrow> key u = key t"
  unfolding filed_def by metis

end

lemma map_of_filter_keys: "map_of (filter (\<lambda>e. P (fst e)) od) k = (if P k then map_of od k else None)"
  by (induction od) auto

lemma map_of_move_to_end [simp]: "map_of (move_to_end key od) k = map_of od k"
  by (auto simp: move_to_end_def map_add_def map_of_filter_keys [of "\<lambda>x. x \<noteq> key"] map_of_filter_keys [of "\<lambda>x. x = key"]
      split: option.splits)

lemma distinct_move_to_end: "distinct (map fst od) \<Longrightarrow> distinct (map fst (move_to_end key od))"
  by (auto simp: move_to_end_def distinct_map inj_on_def)

lemma length_move_to_end [simp]: "length (move_to_end key od) = length od"
  by (simp add: move_to_end_def sum_length_filter_compl add.commute) 

lemma map_of_drop: "distinct (map fst od) \<Longrightarrow> map_of (drop n od) k = Some u \<Longrightarrow> map_of od k = Some u"
  by (simp add: map_of_SomeD [THEN in_set_dropD])

lemma local_cache_set_entries:
  "distinct (map fst od) \<Longrightarrow> map_of (local_cache_set key t od) k = Some u \<Longrightarrow> (k = key \<and> u = t) \<or> map_of od k = Some u"
proof -
  assume d: "distinct (map fst od)" and u: "map_of (local_cache_set key t od) k = Some u"
  have "map_of (move_to_end key (AList.update key t od)) k = Some u"
    by (rule map_of_drop [OF distinct_move_to_end [OF distinct_update [OF d]] u [unfolded local_cache_set_def Let_def]])
  then show ?thesis by (simp add: update_conv' split: if_splits)
qed

lemma local_cache_set_distinct: "distinct (map fst od) \<Longrightarrow> distinct (map fst (local_cache_set key t od))"
  by (simp add: local_cache_set_def Let_def drop_map [symmetric] distinct_drop distinct_move_to_end distinct_update)

interpretation process_cache: text_cache map_of local_cache_set AList.delete "\<lambda>od. distinct (map fst od)"
proof unfold_locales
  fix s :: "(string \<times> string) list" and k k' t u :: string
  assume d: "distinct (map fst s)"
  show "distinct (map fst (local_cache_set k t s))" by (rule local_cache_set_distinct [OF d])
  show "distinct (map fst (AList.delete k s))" using d by (rule distinct_delete)
  show "k' = k \<and> u = t \<or> map_of s k' = Some u" if "map_of (local_cache_set k t s) k' = Some u"
    by (rule local_cache_set_entries [OF d that])
  show "k' \<noteq> k \<and> map_of s k' = Some u" if "map_of (AList.delete k s) k' = Some u"
    using that by (auto simp: delete_conv' split: if_splits)
qed

interpretation shared_cache: text_cache "\<lambda>m. m" "\<lambda>k t m. m(k \<mapsto> t)" "\<lambda>k m. m(k := None)" "\<lambda>m. True"
  by unfold_locales (auto split: if_splits)

section \<open>Properties\<close>

text \<open>Both caches are filed by the keys of their texts, and the one of the process is within its bound.\<close>

definition cache_ok :: "cache_env \<Rightarrow> yaml_cache \<Rightarrow> bool" where
  "cache_ok env c \<longleftrightarrow> process_cache.filed (cache_key env) (local_yaml_cache c) \<and> shared_cache.filed (cache_key env) (redis_yaml c) \<and>
     length (local_yaml_cache c) \<le> local_cache_max_entries"

lemma process_filedI:
  "distinct (map fst od) \<Longrightarrow> (\<And>k u. map_of od k = Some u \<Longrightarrow> k = key u) \<Longrightarrow> process_cache.filed key od"
  by (simp add: process_cache.filed_def)

lemma cache_ok_redis_call:
  "cache_ok env c \<Longrightarrow> redis_call now answers c = (c', b) \<Longrightarrow> cache_ok env c' \<and> redis_yaml c' = redis_yaml c \<and>
     local_yaml_cache c' = local_yaml_cache c"
  by (auto simp: redis_call_def cache_ok_def split: if_splits)

lemma length_local_cache_set: "length (local_cache_set key t od) \<le> local_cache_max_entries"
  by (simp add: local_cache_set_def Let_def)

lemma cache_ok_put_local: "cache_ok env c \<Longrightarrow> cache_ok env (put_local (cache_key env t) t c)"
  by (simp add: cache_ok_def put_local_def process_cache.filed_store length_local_cache_set)

lemma cache_ok_moved:
  assumes "cache_ok env c"
  shows "cache_ok env (c\<lparr>local_yaml_cache := move_to_end key (local_yaml_cache c)\<rparr>)"
  using assms distinct_move_to_end [of "local_yaml_cache c" key]
  by (simp add: cache_ok_def process_cache.filed_def)

lemma cache_ok_redis_change:
  assumes "cache_ok env c" and "shared_cache.filed (cache_key env) m"
  shows "cache_ok env (c\<lparr>redis_yaml := m\<rparr>)"
  using assms unfolding cache_ok_def by simp

lemma cache_ok_redis_store:
  assumes "cache_ok env c"
  shows "cache_ok env (redis_store env (cache_key env t) t c)"
proof -
  obtain c1 b where call: "redis_call (time_of_set env) (set_answers env) c = (c1, b)" by fastforce
  have ok: "cache_ok env c1" using cache_ok_redis_call [OF assms call] by blast
  then have "shared_cache.filed (cache_key env) (redis_yaml c1)" unfolding cache_ok_def by blast
  from cache_ok_redis_change [OF ok shared_cache.filed_store [OF this]] ok assms show ?thesis
    by (simp add: redis_store_def call split: bool.split)
qed

lemma cache_key_inj: "cache_key env s = cache_key env t \<Longrightarrow> sha256_hex env s = sha256_hex env t"
  by (simp add: cache_key_def)

lemma redis_lookup_miss:
  assumes "cache_ok env c" and "redis_lookup env safe_load key c = (c1, None)"
  shows "local_yaml_cache c1 = local_yaml_cache c \<and> redis_yaml c1 = redis_yaml c"
proof (cases "use_redis_cache env")
  case True
  obtain c2 b where call: "redis_call (time_of_get env) (get_answers env) c = (c2, b)" by fastforce
  from assms(2) True have "c1 = c2" by (auto simp: redis_lookup_def call split: bool.splits option.splits if_splits sum.splits)
  then show ?thesis using cache_ok_redis_call [OF assms(1) call] by simp
qed (use assms in \<open>simp add: redis_lookup_def\<close>)

lemma redis_lookup_sound:
  assumes "cache_ok env c" and "redis_lookup env safe_load (cache_key env text) c = (c', r)"
  shows "cache_ok env c' \<and> (\<forall>p. r = Some p \<longrightarrow> (\<exists>t. sha256_hex env t = sha256_hex env text \<and> redis_yaml c (cache_key env text) = Some t \<and>
    parse safe_load t = Inr p))"
proof (cases "use_redis_cache env")
  case False
  then show ?thesis using assms by (simp add: redis_lookup_def)
next
  case True
  obtain c1 b where call: "redis_call (time_of_get env) (get_answers env) c = (c1, b)" by fastforce
  note keep = cache_ok_redis_call [OF assms(1) call]
  have filed: "shared_cache.filed (cache_key env) (redis_yaml c)" using assms(1) by (simp add: cache_ok_def)
  from assms(2) True call have "(c' = c1 \<and> r = None) \<or> (\<exists>t p. redis_yaml c1 (cache_key env text) = Some t \<and> parse safe_load t = Inr p \<and>
      c' = put_local (cache_key env text) t c1 \<and> r = Some p)"
    by (auto simp: redis_lookup_def split: bool.splits option.splits if_splits sum.splits)
  then show ?thesis
  proof (elim disjE exE conjE)
    fix t p
    assume t: "redis_yaml c1 (cache_key env text) = Some t" and "parse safe_load t = Inr p"
      and "c' = put_local (cache_key env text) t c1" "r = Some p"
    moreover have key: "cache_key env t = cache_key env text" using shared_cache.filed_hit [OF filed] t keep by simp
    moreover have "cache_ok env (put_local (cache_key env text) t c1)" using cache_ok_put_local [of env c1 t] keep key by simp
    ultimately show ?thesis using keep cache_key_inj [OF key] by simp
  qed (use keep in simp)
qed

text \<open>C21.  The caches cannot be observed.  If no text held in one of them has the hash of the given text without being it,
  the answer is that of the parser, whichever of the caches is hit, and whether Redis answers, has forgotten or is down.
  Afterwards the entries are again filed under their own keys, at most 256 in the process; a text that
  cannot be parsed is stored nowhere.\<close>

theorem cache_transparent:
  assumes "cache_ok env c" and "get_parsed_pipeline env safe_load text c = (c', r)"
    and "\<And>t. t \<in> snd ` set (local_yaml_cache c) \<union> ran (redis_yaml c) \<Longrightarrow> sha256_hex env t = sha256_hex env text \<Longrightarrow> t = text"
  shows "r = parsed_pipeline safe_load text \<and> cache_ok env c' \<and> length (local_yaml_cache c') \<le> 256 \<and>
    (isl r \<longrightarrow> set (local_yaml_cache c') = set (local_yaml_cache c) \<and> redis_yaml c' = redis_yaml c)"
proof -
  let ?key = "cache_key env text" and ?od = "local_yaml_cache c"
  have "r = parsed_pipeline safe_load text \<and> cache_ok env c' \<and>
    (isl r \<longrightarrow> set (local_yaml_cache c') = set (local_yaml_cache c) \<and> redis_yaml c' = redis_yaml c)"
  proof (cases "py_strip text = []")
    case True
    then show ?thesis using assms(1,2) by (auto simp: get_parsed_pipeline_def parsed_pipeline_def)
  next
    case False
    show ?thesis
    proof (cases "map_of ?od ?key")
      case (Some u)
      have "cache_key env u = ?key" using process_cache.filed_hit [of "cache_key env" ?od "text" u] assms(1) Some by (simp add: cache_ok_def)
      then have "sha256_hex env u = sha256_hex env text" by (rule cache_key_inj)
      moreover have "u \<in> snd ` set ?od" using imageI [OF map_of_SomeD [OF Some], of snd] by simp
      ultimately have "u = text" using assms(3) by blast
      moreover have "set (move_to_end ?key ?od) = set ?od" by (auto simp: move_to_end_def)
      moreover from assms(2) False Some have "c' = c\<lparr>local_yaml_cache := move_to_end ?key ?od\<rparr>" "r = parse safe_load u"
        by (simp_all add: get_parsed_pipeline_def local_cache_get_def)
      ultimately show ?thesis using False cache_ok_moved [OF assms(1), of ?key] by (simp add: parsed_pipeline_def)
    next
      case None
      obtain c1 q where look: "redis_lookup env safe_load ?key c = (c1, q)" by fastforce
      note sound = redis_lookup_sound [OF assms(1) look]
      show ?thesis
      proof (cases q)
        case (Some p)
        with sound obtain t where "sha256_hex env t = sha256_hex env text" "redis_yaml c ?key = Some t" "parse safe_load t = Inr p" by auto
        then have "parse safe_load text = Inr p" using assms(3) [of t] by (auto simp: ran_def)
        moreover have "c' = c1 \<and> r = Inr p" using Some look assms(2) False None
          by (simp add: get_parsed_pipeline_def local_cache_get_def)
        ultimately show ?thesis using sound False by (simp add: parsed_pipeline_def)
      next
        case miss: None
        have same: "local_yaml_cache c1 = ?od \<and> redis_yaml c1 = redis_yaml c"
          by (rule redis_lookup_miss [OF assms(1) look [unfolded miss]])
        have stored: "cache_ok env (redis_store env ?key text (put_local ?key text c1))"
          using sound by (simp add: cache_ok_redis_store cache_ok_put_local)
        from look miss None have get: "get_parsed_pipeline env safe_load text c = (case parse safe_load text of
            Inl e \<Rightarrow> (c1, Inl e) | Inr p \<Rightarrow> (redis_store env ?key text (put_local ?key text c1), Inr p))"
          using False by (simp add: get_parsed_pipeline_def local_cache_get_def Let_def)
        show ?thesis
        proof (cases "parse safe_load text")
          case (Inl e)
          with assms(2) get have "c' = c1" "r = Inl e" by simp_all
          then show ?thesis using same sound False Inl by (simp add: parsed_pipeline_def)
        next
          case (Inr p)
          with assms(2) get have "c' = redis_store env ?key text (put_local ?key text c1)" "r = Inr p" by simp_all
          then show ?thesis using stored False Inr by (simp add: parsed_pipeline_def)
        qed
      qed
    qed
  qed
  then show ?thesis by (simp add: cache_ok_def local_cache_max_entries_def)
qed

lemma cache_ok_invalidate:
  assumes "cache_ok env c"
  shows "cache_ok env (invalidate_pipeline_cache env text c)"
proof -
  let ?key = "cache_key env text"
  let ?c = "c\<lparr>local_yaml_cache := AList.delete ?key (local_yaml_cache c)\<rparr>"
  from assms have "process_cache.filed (cache_key env) (AList.delete ?key (local_yaml_cache c))"
    unfolding cache_ok_def by (blast intro: process_cache.filed_forget)
  moreover have "length (AList.delete ?key (local_yaml_cache c)) \<le> local_cache_max_entries"
    using assms length_delete_le [of ?key "local_yaml_cache c"] unfolding cache_ok_def by linarith
  ultimately have ok: "cache_ok env ?c" using assms unfolding cache_ok_def by simp
  obtain c1 b where call: "redis_call (time_of_set env) (set_answers env) ?c = (c1, b)" by fastforce
  have ok1: "cache_ok env c1" using cache_ok_redis_call [OF ok call] by blast
  then have "shared_cache.filed (cache_key env) (redis_yaml c1)" unfolding cache_ok_def by blast
  from cache_ok_redis_change [OF ok1 shared_cache.filed_forget [OF this]] ok ok1 show ?thesis
    by (simp add: invalidate_pipeline_cache_def Let_def call split: bool.split)
qed

definition demo_cache_env :: cache_env where
  "demo_cache_env = \<lparr>sha256_hex = id, use_redis_cache = True, time_of_get = 10, get_answers = True, redis_expired = (\<lambda>k. False),
     time_of_set = 20, set_answers = True\<rparr>"

definition demo_cache :: yaml_cache where
  "demo_cache = \<lparr>local_yaml_cache = [(''yaml:parsed:x'', ''x'')], redis_yaml = [''yaml:parsed:y'' \<mapsto> ''y''], redis_cache_disabled_until = 0\<rparr>"

theorem cache_transparent_witness:
  "\<forall>safe_load. snd (get_parsed_pipeline demo_cache_env safe_load ''y'' demo_cache) = parsed_pipeline safe_load ''y''"
proof
  fix safe_load :: "string \<Rightarrow> pyval result"
  obtain c' r where run: "get_parsed_pipeline demo_cache_env safe_load ''y'' demo_cache = (c', r)" by fastforce
  have "cache_ok demo_cache_env demo_cache"
    by (auto simp: cache_ok_def process_cache.filed_def shared_cache.filed_def cache_key_def yaml_cache_prefix_def demo_cache_def
        demo_cache_env_def local_cache_max_entries_def split: if_splits)
  from cache_transparent [OF this run] run 
  show "snd (get_parsed_pipeline demo_cache_env safe_load ''y'' demo_cache) = parsed_pipeline safe_load ''y''"
    by (simp add: demo_cache_env_def)
qed

end
