(* ===== verification/PipelineTask.thy ===== *)
theory PipelineTask
  imports ProgressStream HealingAgent Versioning ContractEngine YamlCache
begin

text \<open>
  \<^verbatim>\<open>backend/tasks/pipeline_tasks.py\<close>: the Celery task that runs a pipeline, heals it, and persists, announces
  and counts the outcome.  The state is the part of the database that belongs to the run, its channel, its
  outgoing calls and the Arrow bus.  Other sessions may change the row of the run while the task computes;
  \<open>te_others\<close> says what they do in each phase, and \<open>RunLifecycle\<close> what they can do.  A column that the task
  sets is written with its next commit; other columns keep what other sessions wrote.  Commits are
  taken to succeed.  The catalog, metrics, trace identifiers, log texts and the duration in a webhook are left out.
\<close>

section \<open>State\<close>

datatype phase = Starting | FirstRun | Healing | Retrying | Finishing | Blocking | Failing

record step_row =
  sr_step_name :: pyval
  sr_step_type :: string
  sr_step_index :: nat
  sr_status :: step_status
  sr_rows_in :: int
  sr_rows_out :: int
  sr_columns_in :: "string list"
  sr_columns_out :: "string list"
  sr_duration_ms :: int
  sr_warnings :: "string list"
  sr_engine :: "string option"
  sr_download_url :: "string option"
  sr_output_filename :: "string option"
  sr_output_format :: "string option"
  sr_output_object_name :: "string option"
  sr_output_size_bytes :: "int option"
  sr_row_count_out :: "int option"

record violation_row =
  vr_step_name :: pyval
  vr_step_index :: nat
  vr_step_type :: string
  vr_column :: pyval
  vr_rule :: pyval
  vr_severity :: pyval
  vr_message :: pyval
  vr_actual :: pyval
  vr_expected :: pyval

record non_healable_row =
  nh_attempt_number :: nat
  nh_failed_step :: "string option"
  nh_error_type :: string
  nh_error_message :: string
  nh_classification_reason :: string

record notice =
  nt_event_type :: string
  nt_pipeline_name :: string
  nt_status :: string
  nt_error_message :: string

record webhook_call =
  wh_status :: string
  wh_pipeline_name :: string
  wh_steps_count :: nat
  wh_rows_processed :: int

record healing_audit =
  ah_failed_step :: string
  ah_attempts :: nat
  ah_confidence :: flt
  ah_description :: string
  ah_patch :: "pyval option"

record active_contract =
  ac_yaml_content :: string
  ac_severity :: string
  ac_consumers :: "string list"

record ('r, 'b) task_db =
  ts_run :: run_row
  ts_steps :: "step_row list"
  ts_violations :: "violation_row list"
  ts_lineage :: "'r list"
  ts_attempts :: "healing_attempt list"
  ts_non_healable :: "non_healable_row list"
  ts_versions :: "pipeline_version list"
  ts_schedules :: "schedule_row list"
  ts_schedule_runs :: "schedule_run_row list"
  ts_audits :: "healing_audit list"
  ts_channel :: progress_channel
  ts_notices :: "notice list"
  ts_webhooks :: "webhook_call list"
  ts_bus :: 'b

record ('t, 'c, 'r, 'b) task_env =
  te_yaml :: "string \<Rightarrow> pyval result"
  te_uuid_ok :: "string \<Rightarrow> bool"
  te_runner :: "pyval list \<Rightarrow> pyval list \<Rightarrow> ('t, 'r, 'b) runner_env"
  te_new_recorder :: 'r
  te_elapsed :: "phase \<Rightarrow> int"
  te_cleanup_run :: "string \<Rightarrow> 'b \<Rightarrow> 'b"
  te_error_class :: "pyexn \<Rightarrow> string"
  te_error_text :: "pyexn \<Rightarrow> string"
  te_healing_enabled :: bool
  te_healing_max_attempts :: int
  te_healer :: "pyexn \<Rightarrow> pyval list \<Rightarrow> heal_env"
  te_float :: "flt \<Rightarrow> pyval"
  te_contract :: "string \<Rightarrow> active_contract option"
  te_arrow :: "('t, 'c) arrow_view"
  te_inserted :: "phase \<Rightarrow> nat \<Rightarrow> pipeline_version list"
  te_others :: "phase \<Rightarrow> run_row \<Rightarrow> run_row"
  te_now :: "phase \<Rightarrow> int"
  te_sse :: sse_env
  te_redis :: redis_up
  te_task_id :: string

definition interfere :: "('t, 'c, 'r, 'b) task_env \<Rightarrow> phase \<Rightarrow> ('r, 'b) task_db \<Rightarrow> ('r, 'b) task_db" where
  "interfere env ph st = st\<lparr>ts_run := te_others env ph (ts_run st)\<rparr>"

definition set_status :: "run_status \<Rightarrow> ('r, 'b) task_db \<Rightarrow> ('r, 'b) task_db" where
  "set_status s st = st\<lparr>ts_run := (ts_run st)\<lparr>rw_status := s\<rparr>\<rparr>"

definition publish :: "('t, 'c, 'r, 'b) task_env \<Rightarrow> pydict \<Rightarrow> ('r, 'b) task_db \<Rightarrow> ('r, 'b) task_db" where
  "publish env p st = st\<lparr>ts_channel := publish_progress_payload (te_sse env) (te_redis env) p (ts_channel st)\<rparr>"

definition cache_progress :: "('t, 'c, 'r, 'b) task_env \<Rightarrow> pydict \<Rightarrow> ('r, 'b) task_db \<Rightarrow> ('r, 'b) task_db" where
  "cache_progress env p st = st\<lparr>ts_channel := cache_progress_payload (te_sse env) (te_redis env) p (ts_channel st)\<rparr>"

definition publish_terminal :: "('t, 'c, 'r, 'b) task_env \<Rightarrow> string \<Rightarrow> string \<Rightarrow> string \<Rightarrow> ('r, 'b) task_db \<Rightarrow> ('r, 'b) task_db" where
  "publish_terminal env event_type status error_msg st =
     st\<lparr>ts_channel := publish_terminal_event (te_sse env) (te_redis env) (rw_id (ts_run st)) event_type status error_msg (ts_channel st)\<rparr>"

section \<open>Running the pipeline\<close>

definition file_id_attr :: "step_config \<Rightarrow> pyval" where
  "file_id_attr s = (case cfg_fields s of LoadFields fid al \<Rightarrow> fid | _ \<Rightarrow> PNone)"

definition wasm_file_id_attr :: "step_config \<Rightarrow> pyval" where
  "wasm_file_id_attr s = (case cfg_fields s of WasmComputeFields i w f c out \<Rightarrow> w | _ \<Rightarrow> PNone)"

definition add_id :: "pyval \<Rightarrow> pyval list \<Rightarrow> pyval list result" where
  "add_id v ids =
     (if \<not> truthy v then Inr ids else if \<not> hashable v then Inl TypeError
      else Inr (if list_ex (py_eq v) ids then ids else ids @ [v]))"

definition referenced_ids :: "(step_config \<Rightarrow> pyval) \<Rightarrow> step_config list \<Rightarrow> pyval list result" where
  "referenced_ids attr ss = foldE (\<lambda>s. add_id (attr s)) ss []"

text \<open>The identifiers of files and of modules; \<^verbatim>\<open>as_uuid\<close> raises an exception of the web framework for a file identifier that
  is no UUID, which is not among the suppressed ones, while such modules are skipped.\<close>

definition load_inputs :: "('t, 'c, 'r, 'b) task_env \<Rightarrow> pipeline_config \<Rightarrow> (pyval list \<times> pyval list) result" where
  "load_inputs env cfg =
     bindE (referenced_ids file_id_attr (steps cfg)) (\<lambda>files.
     bindE (referenced_ids wasm_file_id_attr (steps cfg)) (\<lambda>modules.
       if list_ex (\<lambda>f. \<not> te_uuid_ok env (py_str f)) files then Inl (OtherError ''HTTPException'')
       else Inr (files, filter (\<lambda>m. te_uuid_ok env (py_str m)) modules)))"

definition run_pipeline ::
    "('t, 'c, 'r, 'b) task_env \<Rightarrow> phase \<Rightarrow> ('r, 'b) task_db \<Rightarrow> ('r, 'b) task_db \<times> ('t, 'r) execution_summary result" where
  "run_pipeline env ph st =
     (case parsed_pipeline (te_yaml env) (rw_yaml_config (ts_run st)) of
        Inl e \<Rightarrow> (st, Inl e)
      | Inr cfg \<Rightarrow>
          (case load_inputs env cfg of
             Inl e \<Rightarrow> (st, Inl e)
           | Inr (files, modules) \<Rightarrow>
               (case execute (te_runner env files modules) (te_new_recorder env) (ts_bus st) (te_elapsed env ph) (rw_id (ts_run st)) cfg of
                  (rs, res) \<Rightarrow>
                    (interfere env ph
                       (st\<lparr>ts_bus := bus rs, ts_channel := publish_steps (te_sse env) (te_redis env) (events rs) (ts_channel st)\<rparr>),
                     res))))"

section \<open>Healing\<close>

definition failed_step_of :: "pyexn \<Rightarrow> string" where
  "failed_step_of e = (case e of StepExecutionError sn msg \<Rightarrow> sn | _ \<Rightarrow> [])"

definition next_healing_attempt_number :: "('r, 'b) task_db \<Rightarrow> nat" where
  "next_healing_attempt_number st = length (ts_attempts st) + length (ts_non_healable st) + 1"

definition sanitized :: "('t, 'c, 'r, 'b) task_env \<Rightarrow> pyexn \<Rightarrow> string" where
  "sanitized env e = sanitize_error_text (te_error_text env e)"

definition run_payload :: "('r, 'b) task_db \<Rightarrow> string \<Rightarrow> string \<Rightarrow> pydict \<Rightarrow> pydict" where
  "run_payload st event_type status more_fields =
     [(PStr ''run_id'', PStr (rw_id (ts_run st))), (PStr ''event_type'', PStr event_type), (PStr ''status'', PStr status)] @ more_fields"

definition record_non_healable :: "('t, 'c, 'r, 'b) task_env \<Rightarrow> pyexn \<Rightarrow> ('r, 'b) task_db \<Rightarrow> ('r, 'b) task_db" where
  "record_non_healable env e st =
     (let n = next_healing_attempt_number st;
          reason = (case get_healing_scenario (te_error_class env e) (te_error_text env e) of
            Some s \<Rightarrow> s | None \<Rightarrow> ''Error is not healable automatically'');
          row = \<lparr>nh_attempt_number = n, nh_failed_step = (if failed_step_of e = [] then None else Some (failed_step_of e)),
            nh_error_type = te_error_class env e, nh_error_message = sanitized env e, nh_classification_reason = reason\<rparr>
      in publish env
        (run_payload st ''healing_non_healable'' (status_value (rw_status (ts_run st)))
          [(PStr ''attempt_number'', PInt (int n)), (PStr ''failed_step'', PStr (failed_step_of e)), (PStr ''reason'', PStr reason)])
        (st\<lparr>ts_non_healable := ts_non_healable st @ [row]\<rparr>))"

definition classify_healing_failure :: "healing_result \<Rightarrow> string" where
  "classify_healing_failure res =
     (if \<not> hr_success res then
        (case hr_error res of
           None \<Rightarrow> ''llm_unable_to_fix''
         | Some e \<Rightarrow>
             if e = [] then ''llm_unable_to_fix''
             else let m = py_lower e in
               if contains m ''timeout'' \<or> contains m ''timed out'' then ''llm_timeout''
               else if contains m ''quota'' \<or> contains m ''rate limit'' then ''llm_quota_exceeded''
               else if contains m ''invalid'' \<or> contains m ''syntax'' then ''llm_invalid_output''
               else ''llm_unable_to_fix'')
      else case hr_patched_yaml res of None \<Rightarrow> ''no_patch_generated'' | Some t \<Rightarrow> if t = [] then ''no_patch_generated'' else ''unknown'')"

text \<open>The texts among the file identifiers, each once.\<close>

definition collect_file_ids :: "step_config list \<Rightarrow> pyval list" where
  "collect_file_ids ss = fold (\<lambda>s ids. let v = file_id_attr s in if is_str v \<and> truthy v \<and> v \<notin> set ids then ids @ [v] else ids) ss []"

text \<open>A name that is no text is refused by the database.\<close>

definition save_version_if_needed ::
    "('t, 'c, 'r, 'b) task_env \<Rightarrow> phase \<Rightarrow> ('r, 'b) task_db \<Rightarrow> ('r, 'b) task_db \<times> unit result" where
  "save_version_if_needed env ph st =
     (let text = rw_yaml_config (ts_run st) in
      case parsed_pipeline (te_yaml env) text of
        Inl e \<Rightarrow> (st, Inl e)
      | Inr cfg \<Rightarrow>
          (case pipeline_name cfg of
             PStr name \<Rightarrow>
               (if (case latest_version name (ts_versions st) of None \<Rightarrow> False | Some v \<Rightarrow> pv_yaml_config v = text) then (st, Inr ())
                else (case save_version (te_yaml env) (te_inserted env ph) name text (Some (rw_id (ts_run st))) 5 (ts_versions st) of
                    (rows, r) \<Rightarrow> (st\<lparr>ts_versions := rows\<rparr>, bindE r (\<lambda>_. Inr ()))))
           | _ \<Rightarrow> (st, Inl (OtherError ''StatementError''))))"

definition healing_started :: "('t, 'c, 'r, 'b) task_env \<Rightarrow> pyexn \<Rightarrow> ('r, 'b) task_db \<Rightarrow> ('r, 'b) task_db" where
  "healing_started env e st =
     (let n = next_healing_attempt_number st; s1 = set_status HEALING st; status = status_value HEALING in
      publish env (run_payload s1 ''healing_attempt_started'' status
          [(PStr ''attempt_number'', PInt (int n)), (PStr ''failed_step'', PStr (failed_step_of e))])
        (publish env (run_payload s1 ''healing_started'' status
          [(PStr ''failed_step'', PStr (failed_step_of e)), (PStr ''error_type'', PStr (te_error_class env e)),
           (PStr ''error_message'', PStr (sanitized env e))]) s1))"

definition healing_gave_up :: "('t, 'c, 'r, 'b) task_env \<Rightarrow> pyexn \<Rightarrow> healing_result \<Rightarrow> ('r, 'b) task_db \<Rightarrow> ('r, 'b) task_db" where
  "healing_gave_up env e res st =
     publish env (run_payload st ''healing_failed'' (status_value FAILED)
       [(PStr ''attempts'', PInt (int (hr_attempts res))), (PStr ''failed_step'', PStr (failed_step_of e)),
        (PStr ''error_message'', opt_str (sanitize_error_message (hr_error res))), (PStr ''error_reason'', PStr (classify_healing_failure res))]) st"

definition apply_healing :: "('t, 'c, 'r, 'b) task_env \<Rightarrow> pyexn \<Rightarrow> healing_result \<Rightarrow> string \<Rightarrow> ('r, 'b) task_db \<Rightarrow> ('r, 'b) task_db" where
  "apply_healing env e res patched st =
     publish env (run_payload st ''healing_attempt_applied'' (status_value HEALING)
         [(PStr ''attempt_number'', PInt (int (hr_attempts res))), (PStr ''failed_step'', PStr (failed_step_of e))])
       (st\<lparr>ts_run := (ts_run st)\<lparr>rw_yaml_config := patched, rw_error_message := None\<rparr>\<rparr>)"

definition healing_succeeded :: "('t, 'c, 'r, 'b) task_env \<Rightarrow> pyexn \<Rightarrow> healing_result \<Rightarrow> ('r, 'b) task_db \<Rightarrow> ('r, 'b) task_db" where
  "healing_succeeded env e res st =
     (let s1 = set_status HEALED st; status = status_value HEALED in
      publish env (run_payload s1 ''healing_succeeded'' status [(PStr ''attempt_number'', PInt (int (hr_attempts res)))])
        (publish env (run_payload s1 ''healing_complete'' status
          [(PStr ''attempts'', PInt (int (hr_attempts res))), (PStr ''failed_step'', PStr (failed_step_of e)),
           (PStr ''confidence'', te_float env (hr_confidence res)), (PStr ''description'', PStr (hr_description res)),
           (PStr ''patch'', case hr_patch res of None \<Rightarrow> PNone | Some p \<Rightarrow> p)]) s1))"

definition retry_failed :: "('t, 'c, 'r, 'b) task_env \<Rightarrow> pyexn \<Rightarrow> healing_result \<Rightarrow> pyexn option \<Rightarrow> ('r, 'b) task_db \<Rightarrow> ('r, 'b) task_db" where
  "retry_failed env e res retry_error st =
     (let failed = (case retry_error of Some (StepExecutionError sn msg) \<Rightarrow> sn | _ \<Rightarrow> failed_step_of e);
          msg = opt_str (map_option (sanitized env) retry_error)
      in publish env (run_payload st ''healing_retry_failed'' (status_value FAILED)
            [(PStr ''attempt_number'', PInt (int (hr_attempts res))), (PStr ''failed_step'', PStr failed), (PStr ''error_message'', msg)])
          (publish env (run_payload st ''healing_failed'' (status_value FAILED)
            [(PStr ''attempts'', PInt (int (hr_attempts res))), (PStr ''failed_step'', PStr failed), (PStr ''error_message'', msg),
             (PStr ''error_reason'', PStr ''retry_after_heal_failed'')]) st))"

definition record_healing_audit :: "pyexn \<Rightarrow> healing_result \<Rightarrow> ('r, 'b) task_db \<Rightarrow> ('r, 'b) task_db" where
  "record_healing_audit e res st =
     st\<lparr>ts_audits := ts_audits st @ [\<lparr>ah_failed_step = failed_step_of e, ah_attempts = hr_attempts res, ah_confidence = hr_confidence res,
       ah_description = hr_description res, ah_patch = hr_patch res\<rparr>]\<rparr>"

text \<open>The second execution, of the patched text.\<close>

definition retry_run ::
    "('t, 'c, 'r, 'b) task_env \<Rightarrow> pyexn \<Rightarrow> healing_result \<Rightarrow> ('r, 'b) task_db \<Rightarrow> ('r, 'b) task_db \<times> ('t, 'r) execution_summary result" where
  "retry_run env e res st =
     (case save_version_if_needed env Healing st of
        (s1, Inl x) \<Rightarrow> (s1, Inl x)
      | (s1, Inr _) \<Rightarrow>
          (case run_pipeline env Retrying (record_healing_audit e res s1) of
             (s2, Inl x) \<Rightarrow> (s2, Inl x)
           | (s2, Inr sm) \<Rightarrow>
               (if sum_status sm = PS_COMPLETED then healing_succeeded env e res s2 else retry_failed env e res (sum_error sm) s2, Inr sm)))"

definition heal_and_retry ::
    "('t, 'c, 'r, 'b) task_env \<Rightarrow> ('t, 'r) execution_summary \<Rightarrow> pyexn \<Rightarrow> ('r, 'b) task_db \<Rightarrow> ('r, 'b) task_db \<times> ('t, 'r) execution_summary result" where
  "heal_and_retry env sm e st =
     (let s1 = healing_started env e st in
      case parsed_pipeline (te_yaml env) (rw_yaml_config (ts_run s1)) of
        Inl x \<Rightarrow> (s1, Inl x)
      | Inr cfg \<Rightarrow>
          (case attempt_heal (te_healer env e (collect_file_ids (steps cfg))) (rw_yaml_config (ts_run s1)) of
             (atts, res) \<Rightarrow>
               (let s2 = interfere env Healing (s1\<lparr>ts_attempts := ts_attempts s1 @ atts\<rparr>) in
                case hr_patched_yaml res of
                  Some (c # t) \<Rightarrow>
                    if hr_success res then retry_run env e res (apply_healing env e res (c # t) s2)
                    else (healing_gave_up env e res s2, Inr sm)
                | _ \<Rightarrow> (healing_gave_up env e res s2, Inr sm))))"

definition execute_with_autonomous_healing ::
    "('t, 'c, 'r, 'b) task_env \<Rightarrow> ('r, 'b) task_db \<Rightarrow> ('r, 'b) task_db \<times> ('t, 'r) execution_summary result" where
  "execute_with_autonomous_healing env st =
     (case run_pipeline env FirstRun st of
        (s1, Inl x) \<Rightarrow> (s1, Inl x)
      | (s1, Inr sm) \<Rightarrow>
          if sum_status sm = PS_COMPLETED \<or> \<not> te_healing_enabled env \<or> te_healing_max_attempts env \<le> 0 then (s1, Inr sm)
          else (case sum_error sm of
              None \<Rightarrow> (s1, Inr sm)
            | Some e \<Rightarrow>
                if \<not> is_healable (te_error_class env e) (te_error_text env e) then (record_non_healable env e s1, Inr sm)
                else heal_and_retry env sm e s1))"

section \<open>Persisting the outcome\<close>

definition violation_payload :: "('r, 'b) task_db \<Rightarrow> pyval \<Rightarrow> nat \<Rightarrow> pyval \<Rightarrow> pydict \<Rightarrow> pydict" where
  "violation_payload st step_nm idx severity v =
     [(PStr ''run_id'', PStr (rw_id (ts_run st))), (PStr ''event_type'', PStr ''contract_violation''), (PStr ''step_name'', step_nm),
      (PStr ''step_index'', PInt (int idx)), (PStr ''severity'', severity), (PStr ''column'', get_or v ''column'' (PStr [])),
      (PStr ''rule'', get_or v ''rule'' (PStr [])), (PStr ''message'', get_or v ''message'' (PStr [])),
      (PStr ''actual'', get_none v ''actual''), (PStr ''expected'', get_none v ''expected'')]"

text \<open>Violations are published but not cached.\<close>

definition publish_violation :: "('t, 'c, 'r, 'b) task_env \<Rightarrow> pydict \<Rightarrow> ('r, 'b) task_db \<Rightarrow> ('r, 'b) task_db" where
  "publish_violation env p st =
     (if pubsub_up (te_redis env)
      then st\<lparr>ts_channel := (ts_channel st)\<lparr>published := published (ts_channel st) @
        [json_dumps (te_sse env) (PDict (sign_sse_payload (te_sse env) p))]\<rparr>\<rparr>
      else st)"

definition breach_dict :: "breach \<Rightarrow> pydict" where
  "breach_dict v = [(PStr ''column'', br_column v), (PStr ''rule'', PStr (br_rule v)), (PStr ''message'', PStr (br_message v)),
     (PStr ''actual'', br_actual v), (PStr ''expected'', br_expected v)]"

definition store_breach ::
    "('t, 'c, 'r, 'b) task_env \<Rightarrow> active_contract \<Rightarrow> 't step_result \<Rightarrow> nat \<Rightarrow> breach \<Rightarrow> ('r, 'b) task_db \<Rightarrow> ('r, 'b) task_db" where
  "store_breach env c final idx v st =
     publish_violation env (violation_payload st (res_step_name final) idx (PStr (if ac_severity c = [] then ''warn'' else ac_severity c)) (breach_dict v))
       (st\<lparr>ts_violations := ts_violations st @
         [\<lparr>vr_step_name = res_step_name final, vr_step_index = idx, vr_step_type = res_step_type final, vr_column = br_column v,
           vr_rule = PStr (br_rule v), vr_severity = PStr (br_severity v), vr_message = PStr (br_message v),
           vr_actual = br_actual v, vr_expected = br_expected v\<rparr>]\<rparr>)"

text \<open>The contract of the pipeline.  The status that the task holds in memory is passed on, since it is not yet committed.\<close>

definition check_and_enforce_contract ::
    "('t, 'c, 'r, 'b) task_env \<Rightarrow> run_status \<Rightarrow> ('t, 'r) execution_summary \<Rightarrow> ('r, 'b) task_db \<Rightarrow> run_status \<times> ('r, 'b) task_db" where
  "check_and_enforce_contract env status sm st =
     (case te_contract env (rw_name (ts_run st)) of
        None \<Rightarrow> (status, st)
      | Some c \<Rightarrow>
          if sum_step_results sm = [] then (status, st)
          else let final = last (sum_step_results sm); idx = length (sum_step_results sm) - 1 in
            (case validate_against_contract (te_arrow env) (te_yaml env) (Some (output_table final)) (ac_yaml_content c) of
               Inl e \<Rightarrow> (status, st)
             | Inr v \<Rightarrow>
                 if cr_passed v then (status, st)
                 else let st1 = fold (store_breach env c final idx) (cr_violations v) st in
                   if status \<notin> {CONTRACT_VIOLATION, FAILED} \<and> should_block_run (build_breach_report v (ac_severity c))
                   then (CONTRACT_VIOLATION,
                     st1\<lparr>ts_schedules := block_downstream_schedules (te_now env Blocking) (ac_consumers c) (ts_schedules st1)\<rparr>)
                   else (status, st1)))"

definition step_row_of :: "nat \<Rightarrow> 't step_result \<Rightarrow> step_row" where
  "step_row_of idx res =
     \<lparr>sr_step_name = res_step_name res, sr_step_type = res_step_type res, sr_step_index = idx, sr_status = SS_COMPLETED,
      sr_rows_in = rows_in res, sr_rows_out = rows_out res, sr_columns_in = columns_in res, sr_columns_out = columns_out res,
      sr_duration_ms = duration_ms res, sr_warnings = res_warnings res, sr_engine = engine res, sr_download_url = download_url res,
      sr_output_filename = output_filename res, sr_output_format = output_format res, sr_output_object_name = output_object_name res,
      sr_output_size_bytes = output_size_bytes res, sr_row_count_out = (if res_step_type res = ''save'' then Some (rows_out res) else None)\<rparr>"

text \<open>The violations stored with a step are dictionaries.\<close>

definition dict_items :: "pyval \<Rightarrow> pydict" where
  "dict_items v = (case v of PDict d \<Rightarrow> d | _ \<Rightarrow> [])"

definition store_step_violation ::
    "('t, 'c, 'r, 'b) task_env \<Rightarrow> nat \<Rightarrow> 't step_result \<Rightarrow> pyval \<Rightarrow> ('r, 'b) task_db \<Rightarrow> ('r, 'b) task_db" where
  "store_step_violation env idx res v st =
     (let d = dict_items v; severity = get_or d ''severity'' (PStr ''error'') in
      publish_violation env (violation_payload st (res_step_name res) idx severity d)
       (st\<lparr>ts_violations := ts_violations st @
         [\<lparr>vr_step_name = res_step_name res, vr_step_index = idx, vr_step_type = res_step_type res,
           vr_column = get_or d ''column'' (PStr []), vr_rule = get_or d ''rule'' (PStr []), vr_severity = severity,
           vr_message = get_or d ''message'' (PStr []), vr_actual = get_none d ''actual'', vr_expected = get_none d ''expected''\<rparr>]\<rparr>))"

definition store_step ::
    "('t, 'c, 'r, 'b) task_env \<Rightarrow> nat \<times> 't step_result \<Rightarrow> ('r, 'b) task_db \<Rightarrow> ('r, 'b) task_db" where
  "store_step env r st =
     (case r of (idx, res) \<Rightarrow>
        fold (store_step_violation env idx res) (contract_violations res) (st\<lparr>ts_steps := ts_steps st @ [step_row_of idx res]\<rparr>))"

definition outcome_status :: "bool \<Rightarrow> bool \<Rightarrow> ('t, 'r) execution_summary \<Rightarrow> run_status" where
  "outcome_status violated healed sm =
     (if sum_status sm = PS_COMPLETED then if violated then CONTRACT_VIOLATION else if healed then HEALED else COMPLETED else FAILED)"

definition outcome_event :: "bool \<Rightarrow> ('t, 'r) execution_summary \<Rightarrow> string" where
  "outcome_event cancelled sm =
     (if cancelled then ''pipeline_cancelled'' else if sum_status sm = PS_COMPLETED then ''pipeline_completed'' else ''pipeline_failed'')"

definition is_healed_run :: "('r, 'b) task_db \<Rightarrow> bool" where
  "is_healed_run st \<longleftrightarrow> rw_status (ts_run st) = HEALED \<or> list_ex ha_applied (ts_attempts st)"

definition has_violations :: "('t, 'r) execution_summary \<Rightarrow> bool" where
  "has_violations sm \<longleftrightarrow> list_ex (\<lambda>res. contract_violations res \<noteq> []) (sum_step_results sm)"

text \<open>The columns that the final commit writes: the status if it is another one than was read, the error of a failed run, and the totals.\<close>

definition finished_row ::
    "('t, 'c, 'r, 'b) task_env \<Rightarrow> run_status \<Rightarrow> run_status \<Rightarrow> bool \<Rightarrow> ('t, 'r) execution_summary \<Rightarrow> run_row \<Rightarrow> run_row" where
  "finished_row env was status cancelled sm r =
     r\<lparr>rw_status := (if status = was then rw_status r else status),
       rw_error_message := (if \<not> cancelled \<and> sum_status sm \<noteq> PS_COMPLETED then map_option (sanitized env) (sum_error sm) else rw_error_message r),
       rw_completed_at := Some (te_now env Finishing),
       rw_total_rows_in := Some (sum_total_rows_processed sm),
       rw_total_rows_out := Some (if sum_step_results sm = [] then 0 else rows_out (last (sum_step_results sm)))\<rparr>"

text \<open>Counting the run of a schedule.\<close>

definition schedule_status :: "run_status \<Rightarrow> string" where
  "schedule_status s = (if s \<in> {COMPLETED, HEALED, CONTRACT_VIOLATION, FAILED, CANCELLED, RUNNING, PENDING, HEALING} then status_value s else ''UNKNOWN'')"

definition whole_seconds :: "int \<Rightarrow> int" where
  "whole_seconds ms = (if ms \<ge> 0 then ms div 1000 else - ((- ms) div 1000))"

definition run_seconds :: "run_row \<Rightarrow> int option" where
  "run_seconds r = (case (rw_started_at r, rw_completed_at r) of (Some a, Some b) \<Rightarrow> Some (whole_seconds (b - a)) | _ \<Rightarrow> None)"

text \<open>The firing of the run, the latest one if there are several.\<close>

fun latest_firing :: "string \<Rightarrow> schedule_run_row list \<Rightarrow> schedule_run_row option" where
  "latest_firing rid [] = None"
| "latest_firing rid (x # xs) =
     (case latest_firing rid xs of
        None \<Rightarrow> if sn_run_id x = Some rid then Some x else None
      | Some y \<Rightarrow> if sn_run_id x = Some rid \<and> sn_triggered_at x \<ge> sn_triggered_at y then Some x else Some y)"

definition counted_firing :: "run_row \<Rightarrow> schedule_run_row \<Rightarrow> schedule_run_row" where
  "counted_firing r x =
     x\<lparr>sn_status := Some (schedule_status (rw_status r)), sn_duration_seconds := run_seconds r,
       sn_error_message := (if rw_status r = FAILED
         then (case rw_error_message r of None \<Rightarrow> None | Some m \<Rightarrow> if m = [] then None else Some (take 500 m))
         else sn_error_message x)\<rparr>"

definition counted_schedule :: "run_row \<Rightarrow> schedule_row \<Rightarrow> schedule_row" where
  "counted_schedule r s =
     s\<lparr>sc_last_run_status := Some (schedule_status (rw_status r)),
       sc_successful_runs := sc_successful_runs s + (if rw_status r = COMPLETED then 1 else 0),
       sc_healed_runs := sc_healed_runs s + (if rw_status r = HEALED then 1 else 0),
       sc_failed_runs := sc_failed_runs s + (if rw_status r \<in> {FAILED, CONTRACT_VIOLATION} then 1 else 0)\<rparr>"

definition update_schedule_stats :: "string \<Rightarrow> ('r, 'b) task_db \<Rightarrow> ('r, 'b) task_db" where
  "update_schedule_stats sid st =
     (let r = ts_run st; firing = latest_firing (rw_id r) (ts_schedule_runs st) in
      st\<lparr>ts_schedule_runs := map (\<lambda>x. if firing = Some x then counted_firing r x else x) (ts_schedule_runs st),
         ts_schedules := map (\<lambda>s. if sc_id s = sid then counted_schedule r s else s) (ts_schedules st)\<rparr>)"

text \<open>After the final commit: the terminal event, the calls to other tasks, the schedule and the version.\<close>

definition announce :: "('t, 'c, 'r, 'b) task_env \<Rightarrow> string \<Rightarrow> ('t, 'r) execution_summary \<Rightarrow> ('r, 'b) task_db \<Rightarrow> ('r, 'b) task_db" where
  "announce env event_type sm st =
     (let r = ts_run st; status = status_value (rw_status r);
          s1 = publish_terminal env event_type status (case sum_error sm of None \<Rightarrow> [] | Some e \<Rightarrow> sanitized env e) st
      in s1\<lparr>ts_notices := ts_notices st @ [\<lparr>nt_event_type = event_type, nt_pipeline_name = rw_name r, nt_status = status,
              nt_error_message = (case rw_error_message r of None \<Rightarrow> [] | Some m \<Rightarrow> m)\<rparr>],
            ts_webhooks := ts_webhooks st @ [\<lparr>wh_status = (if sum_status sm = PS_COMPLETED then ''completed'' else ''failed''),
              wh_pipeline_name = rw_name r, wh_steps_count = length (sum_step_results sm), wh_rows_processed = sum_total_rows_processed sm\<rparr>]\<rparr>)"

definition count_for_schedule :: "('r, 'b) task_db \<Rightarrow> ('r, 'b) task_db" where
  "count_for_schedule st = (case rw_schedule_id (ts_run st) of None \<Rightarrow> st | Some sid \<Rightarrow> if sid = [] then st else update_schedule_stats sid st)"

definition store_results :: "('t, 'c, 'r, 'b) task_env \<Rightarrow> ('t, 'r) execution_summary \<Rightarrow> ('r, 'b) task_db \<Rightarrow> ('r, 'b) task_db" where
  "store_results env sm st =
     (let s1 = fold (store_step env) (List.enumerate 0 (sum_step_results sm)) st in s1\<lparr>ts_lineage := ts_lineage s1 @ [sum_lineage sm]\<rparr>)"

definition persist_results :: "('t, 'c, 'r, 'b) task_env \<Rightarrow> ('t, 'r) execution_summary \<Rightarrow> ('r, 'b) task_db \<Rightarrow> ('r, 'b) task_db" where
  "persist_results env sm st =
     (let was = rw_status (ts_run st); cancelled = was = CANCELLED;
          held = (if cancelled then CANCELLED else outcome_status (has_violations sm) (is_healed_run st) sm);
          s1 = store_results env sm st;
          (status, s2) = (if cancelled then (held, s1) else check_and_enforce_contract env held sm s1);
          s3 = interfere env Finishing s2;
          s4 = s3\<lparr>ts_run := finished_row env was status cancelled sm (ts_run s3)\<rparr>;
          s5 = count_for_schedule (announce env (outcome_event cancelled sm) sm s4)
      in fst (save_version_if_needed env Finishing s5))"

section \<open>The task\<close>

definition mark_running :: "('t, 'c, 'r, 'b) task_env \<Rightarrow> ('r, 'b) task_db \<Rightarrow> ('r, 'b) task_db" where
  "mark_running env st =
     (let s1 = st\<lparr>ts_run := (ts_run st)\<lparr>rw_status := RUNNING, rw_started_at := Some (te_now env Starting)\<rparr>\<rparr>
      in cache_progress env (run_payload s1 ''pipeline_started'' (status_value RUNNING) []) s1)"

definition mark_failed :: "('t, 'c, 'r, 'b) task_env \<Rightarrow> string \<Rightarrow> ('r, 'b) task_db \<Rightarrow> ('r, 'b) task_db" where
  "mark_failed env msg st =
     (let safe = sanitize_error_text msg;
          s1 = st\<lparr>ts_run := (ts_run st)\<lparr>rw_status := FAILED, rw_completed_at := Some (te_now env Failing), rw_error_message := Some safe\<rparr>\<rparr>
      in cache_progress env (run_payload s1 ''pipeline_failed'' (status_value FAILED) [(PStr ''error_message'', PStr safe)]) s1)"

definition should_execute :: "run_row \<Rightarrow> bool" where
  "should_execute r \<longleftrightarrow> rw_status r = PENDING"

text \<open>The body of the task after its check: the state and the exception that it raises, if any.\<close>

definition run_task :: "('t, 'c, 'r, 'b) task_env \<Rightarrow> ('r, 'b) task_db \<Rightarrow> ('r, 'b) task_db \<times> pyexn option" where
  "run_task env st =
     (let s1 = interfere env Starting (st\<lparr>ts_run := (ts_run st)\<lparr>rw_celery_task_id := Some (te_task_id env)\<rparr>\<rparr>) in
      case execute_with_autonomous_healing env (mark_running env s1) of
        (s2, Inr sm) \<Rightarrow> (persist_results env sm s2, None)
      | (s2, Inl e) \<Rightarrow>
          (let safe = sanitized env e
           in (publish_terminal env ''pipeline_failed'' (status_value FAILED) safe (mark_failed env safe s2), Some e)))"

text \<open>The answer is the status of the run; whatever happens, the tables of the run are removed from the bus.\<close>

definition execute_pipeline_task ::
    "('t, 'c, 'r, 'b) task_env \<Rightarrow> string \<Rightarrow> ('r, 'b) task_db \<Rightarrow> ('r, 'b) task_db \<times> string result" where
  "execute_pipeline_task env run_id st =
     (let (s, answer) =
        (if rw_id (ts_run st) \<noteq> run_id then (st, Inr ''NOT_FOUND'')
         else if \<not> should_execute (ts_run st) then (st, Inr (status_value (rw_status (ts_run st))))
         else case run_task env st of
             (s, None) \<Rightarrow> (s, Inr (status_value (rw_status (ts_run s))))
           | (s, Some e) \<Rightarrow> (s, Inl e))
      in (s\<lparr>ts_bus := te_cleanup_run env run_id (ts_bus s)\<rparr>, answer))"

section \<open>What each part leaves alone\<close>

text \<open>Publishing changes only the channel.\<close>

lemma publish_frame [simp]:
  "ts_run (publish env p st) = ts_run st" "ts_steps (publish env p st) = ts_steps st" "ts_violations (publish env p st) = ts_violations st"
  "ts_lineage (publish env p st) = ts_lineage st" "ts_attempts (publish env p st) = ts_attempts st" "ts_non_healable (publish env p st) = ts_non_healable st"
  "ts_versions (publish env p st) = ts_versions st" "ts_schedules (publish env p st) = ts_schedules st" "ts_schedule_runs (publish env p st) = ts_schedule_runs st"
  "ts_audits (publish env p st) = ts_audits st" "ts_notices (publish env p st) = ts_notices st" "ts_webhooks (publish env p st) = ts_webhooks st"
  "ts_bus (publish env p st) = ts_bus st"
  by (simp_all add: publish_def)

lemma cache_progress_frame [simp]:
  "ts_run (cache_progress env p st) = ts_run st" "ts_steps (cache_progress env p st) = ts_steps st" "ts_violations (cache_progress env p st) = ts_violations st"
  "ts_lineage (cache_progress env p st) = ts_lineage st" "ts_attempts (cache_progress env p st) = ts_attempts st" "ts_non_healable (cache_progress env p st) = ts_non_healable st"
  "ts_versions (cache_progress env p st) = ts_versions st" "ts_schedules (cache_progress env p st) = ts_schedules st" "ts_schedule_runs (cache_progress env p st) = ts_schedule_runs st"
  "ts_audits (cache_progress env p st) = ts_audits st" "ts_notices (cache_progress env p st) = ts_notices st" "ts_webhooks (cache_progress env p st) = ts_webhooks st"
  "ts_bus (cache_progress env p st) = ts_bus st"
  by (simp_all add: cache_progress_def)

lemma publish_terminal_frame [simp]:
  "ts_run (publish_terminal env t status msg st) = ts_run st" "ts_steps (publish_terminal env t status msg st) = ts_steps st" "ts_violations (publish_terminal env t status msg st) = ts_violations st"
  "ts_lineage (publish_terminal env t status msg st) = ts_lineage st" "ts_attempts (publish_terminal env t status msg st) = ts_attempts st" "ts_non_healable (publish_terminal env t status msg st) = ts_non_healable st"
  "ts_versions (publish_terminal env t status msg st) = ts_versions st" "ts_schedules (publish_terminal env t status msg st) = ts_schedules st" "ts_schedule_runs (publish_terminal env t status msg st) = ts_schedule_runs st"
  "ts_audits (publish_terminal env t status msg st) = ts_audits st" "ts_notices (publish_terminal env t status msg st) = ts_notices st" "ts_webhooks (publish_terminal env t status msg st) = ts_webhooks st"
  "ts_bus (publish_terminal env t status msg st) = ts_bus st"
  by (simp_all add: publish_terminal_def)

lemma publish_violation_frame [simp]:
  "ts_run (publish_violation env p st) = ts_run st" "ts_steps (publish_violation env p st) = ts_steps st" "ts_violations (publish_violation env p st) = ts_violations st"
  "ts_lineage (publish_violation env p st) = ts_lineage st" "ts_attempts (publish_violation env p st) = ts_attempts st" "ts_non_healable (publish_violation env p st) = ts_non_healable st"
  "ts_versions (publish_violation env p st) = ts_versions st" "ts_schedules (publish_violation env p st) = ts_schedules st" "ts_schedule_runs (publish_violation env p st) = ts_schedule_runs st"
  "ts_audits (publish_violation env p st) = ts_audits st" "ts_notices (publish_violation env p st) = ts_notices st" "ts_webhooks (publish_violation env p st) = ts_webhooks st"
  "ts_bus (publish_violation env p st) = ts_bus st"
  by (simp_all add: publish_violation_def)

lemma set_status_frame [simp]:
  "ts_schedules (set_status s st) = ts_schedules st" "ts_steps (set_status s st) = ts_steps st" "rw_status (ts_run (set_status s st)) = s"
  "ts_attempts (set_status s st) = ts_attempts st" "rw_id (ts_run (set_status s st)) = rw_id (ts_run st)"
  by (simp_all add: set_status_def)

lemma save_version_frame:
  assumes "save_version_if_needed env ph st = (st', r)"
  shows "ts_run st' = ts_run st \<and> ts_channel st' = ts_channel st \<and> ts_schedules st' = ts_schedules st \<and> ts_steps st' = ts_steps st \<and>
    ts_violations st' = ts_violations st \<and> ts_lineage st' = ts_lineage st \<and> ts_attempts st' = ts_attempts st \<and>
    ts_schedule_runs st' = ts_schedule_runs st \<and> ts_notices st' = ts_notices st \<and> ts_webhooks st' = ts_webhooks st \<and> ts_bus st' = ts_bus st"
  using assms
  by (auto simp: save_version_if_needed_def Let_def split: sum.splits pyval.splits if_splits prod.splits)

lemma save_version_fst [simp]:
  "ts_run (fst (save_version_if_needed env ph st)) = ts_run st" "ts_channel (fst (save_version_if_needed env ph st)) = ts_channel st"
  "ts_schedules (fst (save_version_if_needed env ph st)) = ts_schedules st" "ts_steps (fst (save_version_if_needed env ph st)) = ts_steps st"
  "ts_violations (fst (save_version_if_needed env ph st)) = ts_violations st" "ts_lineage (fst (save_version_if_needed env ph st)) = ts_lineage st"
  "ts_notices (fst (save_version_if_needed env ph st)) = ts_notices st" "ts_webhooks (fst (save_version_if_needed env ph st)) = ts_webhooks st"
  using save_version_frame [OF prod.collapse [symmetric], of env ph st] by simp_all

lemma store_breach_frame [simp]:
  "ts_run (store_breach env c final idx v st) = ts_run st" "ts_schedules (store_breach env c final idx v st) = ts_schedules st"
  "ts_steps (store_breach env c final idx v st) = ts_steps st" "ts_lineage (store_breach env c final idx v st) = ts_lineage st"
  "ts_attempts (store_breach env c final idx v st) = ts_attempts st"
  by (simp_all add: store_breach_def)

lemma store_step_violation_frame [simp]:
  "ts_run (store_step_violation env idx res v st) = ts_run st" "ts_schedules (store_step_violation env idx res v st) = ts_schedules st"
  "ts_steps (store_step_violation env idx res v st) = ts_steps st" "ts_lineage (store_step_violation env idx res v st) = ts_lineage st"
  "ts_attempts (store_step_violation env idx res v st) = ts_attempts st"
  by (simp_all add: store_step_violation_def Let_def)

lemma fold_keeps: "(\<And>x s. f (g x s) = f s) \<Longrightarrow> f (fold g xs st) = f st"
  by (induction xs arbitrary: st) simp_all

lemma store_step_frame [simp]:
  "ts_run (store_step env r st) = ts_run st" "ts_schedules (store_step env r st) = ts_schedules st"
  "ts_lineage (store_step env r st) = ts_lineage st" "ts_attempts (store_step env r st) = ts_attempts st"
  by (cases r; simp add: store_step_def fold_keeps [of ts_run] fold_keeps [of ts_schedules] fold_keeps [of ts_lineage] fold_keeps [of ts_attempts])+

lemma store_results_frame [simp]:
  "ts_run (store_results env sm st) = ts_run st" "ts_schedules (store_results env sm st) = ts_schedules st"
  "ts_attempts (store_results env sm st) = ts_attempts st" "ts_lineage (store_results env sm st) = ts_lineage st @ [sum_lineage sm]"
  by (simp_all add: store_results_def Let_def fold_keeps [of ts_run] fold_keeps [of ts_schedules] fold_keeps [of ts_attempts] fold_keeps [of ts_lineage])

lemma check_frame:
  assumes "check_and_enforce_contract env status sm st = (status', st')"
  shows "ts_run st' = ts_run st" "ts_steps st' = ts_steps st" "ts_lineage st' = ts_lineage st"
    "status' = status \<or> (status' = CONTRACT_VIOLATION \<and> status \<noteq> FAILED)"
    "status' = status \<and> ts_schedules st' = ts_schedules st \<or>
     (\<exists>consumers. ts_schedules st' = block_downstream_schedules (te_now env Blocking) consumers (ts_schedules st))"
  using assms
  by (auto simp: check_and_enforce_contract_def Let_def fold_keeps [of ts_run] fold_keeps [of ts_steps] fold_keeps [of ts_lineage]
      fold_keeps [of ts_schedules] split: option.splits sum.splits if_splits)

lemma announce_frame [simp]:
  "ts_run (announce env t sm st) = ts_run st" "ts_schedules (announce env t sm st) = ts_schedules st" "ts_steps (announce env t sm st) = ts_steps st"
  "ts_lineage (announce env t sm st) = ts_lineage st" "ts_violations (announce env t sm st) = ts_violations st"
  by (simp_all add: announce_def Let_def)

lemma count_frame [simp]:
  "ts_run (count_for_schedule st) = ts_run st" "ts_steps (count_for_schedule st) = ts_steps st" "ts_lineage (count_for_schedule st) = ts_lineage st"
  "ts_channel (count_for_schedule st) = ts_channel st" "ts_violations (count_for_schedule st) = ts_violations st"
  "ts_notices (count_for_schedule st) = ts_notices st" "ts_webhooks (count_for_schedule st) = ts_webhooks st"
  by (simp_all add: count_for_schedule_def update_schedule_stats_def Let_def split: option.split)

lemma check_snd [simp]:
  "ts_run (snd (check_and_enforce_contract env status sm st)) = ts_run st" "ts_steps (snd (check_and_enforce_contract env status sm st)) = ts_steps st"
  "ts_lineage (snd (check_and_enforce_contract env status sm st)) = ts_lineage st"
  by (rule check_frame(1-3) [OF prod.collapse [symmetric]])+

section \<open>The row of the run\<close>

definition checked :: "('t, 'c, 'r, 'b) task_env \<Rightarrow> ('t, 'r) execution_summary \<Rightarrow> ('r, 'b) task_db \<Rightarrow> run_status \<times> ('r, 'b) task_db" where
  "checked env sm st =
     (if rw_status (ts_run st) = CANCELLED then (CANCELLED, store_results env sm st)
      else check_and_enforce_contract env (outcome_status (has_violations sm) (is_healed_run st) sm) sm (store_results env sm st))"

definition final_row :: "('t, 'c, 'r, 'b) task_env \<Rightarrow> ('t, 'r) execution_summary \<Rightarrow> ('r, 'b) task_db \<Rightarrow> run_row" where
  "final_row env sm st = finished_row env (rw_status (ts_run st)) (fst (checked env sm st)) (rw_status (ts_run st) = CANCELLED) sm
     (te_others env Finishing (ts_run st))"

lemma checked_frame [simp]: "ts_run (snd (checked env sm st)) = ts_run st" "ts_lineage (snd (checked env sm st)) = ts_lineage st @ [sum_lineage sm]"
  "ts_steps (snd (checked env sm st)) = ts_steps (store_results env sm st)"
  by (simp_all add: checked_def)

lemma persist_results_alt:
  "persist_results env sm st =
     fst (save_version_if_needed env Finishing (count_for_schedule (announce env (outcome_event (rw_status (ts_run st) = CANCELLED) sm) sm
       ((snd (checked env sm st))\<lparr>ts_run := final_row env sm st\<rparr>))))"
proof -
  obtain status s2 where c: "checked env sm st = (status, s2)" by fastforce
  have run: "ts_run s2 = ts_run st" using checked_frame(1) [of env sm st] c by simp
  from c show ?thesis
    by (auto simp: persist_results_def Let_def checked_def final_row_def interfere_def run split: prod.split if_splits)
qed

lemma persist_run [simp]: "ts_run (persist_results env sm st) = final_row env sm st"
  by (simp add: persist_results_alt)

definition finished_statuses :: "run_status set" where
  "finished_statuses = {COMPLETED, HEALED, CONTRACT_VIOLATION, FAILED, CANCELLED}"

definition lawful :: "('t, 'c, 'r, 'b) task_env \<Rightarrow> bool" where
  "lawful env \<longleftrightarrow> (\<forall>ph r. outside_steps r (te_others env ph r))"

lemma outside_closed: "outside_steps r r' \<Longrightarrow> \<not> open_status (rw_status r) \<Longrightarrow> r' = r"
  using outside_steps_status by blast

lemma finished_closed: "s \<in> finished_statuses \<Longrightarrow> \<not> open_status s"
  by (auto simp: finished_statuses_def open_status_def cancellable_def reconcilable_def)

lemma outcome_status_cases: "outcome_status v h sm \<in> {COMPLETED, HEALED, CONTRACT_VIOLATION, FAILED}"
  by (simp add: outcome_status_def)

lemma checked_status: "fst (checked env sm st) \<in> finished_statuses"
proof (cases "rw_status (ts_run st) = CANCELLED")
  case True
  then show ?thesis by (simp add: checked_def finished_statuses_def)
next
  case False
  obtain status s2 where c: "checked env sm st = (status, s2)" by fastforce
  from check_frame(4) [OF c [unfolded checked_def if_not_P [OF False]]] outcome_status_cases c show ?thesis
    unfolding finished_statuses_def by (metis fst_conv insert_iff)
qed

text \<open>The row that is left: the status is the one the task settled on, and only a cancelled run stays cancelled.\<close>

lemma final_row_settled:
  assumes "lawful env"
  shows "rw_status (final_row env sm st) = fst (checked env sm st) \<and> rw_id (final_row env sm st) = rw_id (ts_run st) \<and>
    rw_name (final_row env sm st) = rw_name (ts_run st) \<and> rw_started_at (final_row env sm st) = rw_started_at (ts_run st) \<and>
    rw_schedule_id (final_row env sm st) = rw_schedule_id (ts_run st) \<and> rw_completed_at (final_row env sm st) = Some (te_now env Finishing)"
proof -
  let ?r = "ts_run st"
  have steps: "outside_steps ?r (te_others env Finishing ?r)" using assms by (simp add: lawful_def)
  have "rw_status (te_others env Finishing ?r) = rw_status ?r" if "fst (checked env sm st) = rw_status ?r"
    using outside_closed [OF steps] finished_closed checked_status [of env sm st] that by auto
  then show ?thesis using outside_steps_keep [OF steps] by (simp add: final_row_def finished_row_def)
qed

lemma checked_cancelled: "fst (checked env sm st) = CANCELLED \<longleftrightarrow> rw_status (ts_run st) = CANCELLED"
proof (cases "rw_status (ts_run st) = CANCELLED")
  case False
  obtain status s2 where c: "checked env sm st = (status, s2)" by fastforce
  from check_frame(4) [OF c [unfolded checked_def if_not_P [OF False]]] outcome_status_cases c False show ?thesis
    by (metis fst_conv insert_iff run_status.distinct singletonD)
qed (simp add: checked_def)

lemma mark_failed_run [simp]:
  "ts_run (mark_failed env msg st) = (ts_run st)\<lparr>rw_status := FAILED, rw_completed_at := Some (te_now env Failing),
     rw_error_message := Some (sanitize_error_text msg)\<rparr>"
  by (simp add: mark_failed_def Let_def)

lemma mark_running_run [simp]:
  "ts_run (mark_running env st) = (ts_run st)\<lparr>rw_status := RUNNING, rw_started_at := Some (te_now env Starting)\<rparr>"
  by (simp add: mark_running_def Let_def)

lemma executeE:
  assumes "execute_pipeline_task env run_id st = (st', ans)" and "rw_id (ts_run st) = run_id" and "should_execute (ts_run st)"
  obtains (persisted) sm s2 where "execute_with_autonomous_healing env (mark_running env (interfere env Starting
        (st\<lparr>ts_run := (ts_run st)\<lparr>rw_celery_task_id := Some (te_task_id env)\<rparr>\<rparr>))) = (s2, Inr sm)"
      "st' = (persist_results env sm s2)\<lparr>ts_bus := te_cleanup_run env run_id (ts_bus (persist_results env sm s2))\<rparr>"
      "ans = Inr (status_value (rw_status (ts_run st')))"
  | (raised) e s2 where "execute_with_autonomous_healing env (mark_running env (interfere env Starting
        (st\<lparr>ts_run := (ts_run st)\<lparr>rw_celery_task_id := Some (te_task_id env)\<rparr>\<rparr>))) = (s2, Inl e)"
      "ts_run st' = ts_run (mark_failed env (sanitized env e) s2)"
      "ts_channel st' = ts_channel (publish_terminal env ''pipeline_failed'' (status_value FAILED) (sanitized env e) (mark_failed env (sanitized env e) s2))"
      "ans = Inl e"
proof -
  let ?s = "mark_running env (interfere env Starting (st\<lparr>ts_run := (ts_run st)\<lparr>rw_celery_task_id := Some (te_task_id env)\<rparr>\<rparr>))"
  obtain s2 r where ex: "execute_with_autonomous_healing env ?s = (s2, r)" by fastforce
  show ?thesis
  proof (cases r)
    case (Inl e)
    show ?thesis by (rule raised [of s2 e]) (use assms ex Inl in \<open>auto simp: execute_pipeline_task_def run_task_def Let_def\<close>)
  next
    case (Inr sm)
    show ?thesis by (rule persisted [of s2 sm]) (use assms ex Inr in \<open>auto simp: execute_pipeline_task_def run_task_def Let_def\<close>)
  qed
qed

section \<open>Execution and healing\<close>

lemma healing_rows [simp]:
  "ts_run (record_non_healable env e st) = ts_run st"
  "ts_run (healing_started env e st) = (ts_run st)\<lparr>rw_status := HEALING\<rparr>"
  "ts_run (healing_gave_up env e res st) = ts_run st"
  "ts_run (apply_healing env e res t st) = (ts_run st)\<lparr>rw_yaml_config := t, rw_error_message := None\<rparr>"
  "ts_run (healing_succeeded env e res st) = (ts_run st)\<lparr>rw_status := HEALED\<rparr>"
  "ts_run (retry_failed env e res err st) = ts_run st"
  "ts_run (record_healing_audit e res st) = ts_run st"
  "ts_run (interfere env ph st) = te_others env ph (ts_run st)"
  by (simp_all add: record_non_healable_def healing_started_def healing_gave_up_def apply_healing_def healing_succeeded_def
      retry_failed_def record_healing_audit_def interfere_def set_status_def Let_def)

text \<open>The rows that are only written when the outcome is persisted.\<close>

definition same_rows :: "('r, 'b) task_db \<Rightarrow> ('r, 'b) task_db \<Rightarrow> bool" where
  "same_rows st st' \<longleftrightarrow> ts_schedules st' = ts_schedules st \<and> ts_steps st' = ts_steps st \<and> ts_lineage st' = ts_lineage st \<and>
     ts_violations st' = ts_violations st \<and> ts_notices st' = ts_notices st \<and> ts_webhooks st' = ts_webhooks st"

lemma same_rows_trans: "same_rows a b \<Longrightarrow> same_rows b c \<Longrightarrow> same_rows a c"
  by (simp add: same_rows_def)

lemma healing_same_rows [simp]:
  "same_rows st (record_non_healable env e st)" "same_rows st (healing_started env e st)" "same_rows st (healing_gave_up env e res st)"
  "same_rows st (apply_healing env e res t st)" "same_rows st (healing_succeeded env e res st)" "same_rows st (retry_failed env e res err st)"
  "same_rows st (record_healing_audit e res st)" "same_rows st (interfere env ph st)" "same_rows st (mark_running env st)"
  by (simp_all add: same_rows_def record_non_healable_def healing_started_def healing_gave_up_def apply_healing_def healing_succeeded_def
      retry_failed_def record_healing_audit_def interfere_def set_status_def mark_running_def Let_def)

lemma save_version_same_rows: "save_version_if_needed env ph st = (st', r) \<Longrightarrow> same_rows st st'"
  using save_version_frame by (fastforce simp: same_rows_def)

lemma run_pipeline_frame:
  assumes "run_pipeline env ph st = (st', r)"
  shows "(ts_run st' = ts_run st \<and> isl r) \<or> ts_run st' = te_others env ph (ts_run st)" and "same_rows st st'"
  using assms
  by (auto simp: run_pipeline_def interfere_def same_rows_def split: sum.splits prod.splits)

definition same_run :: "run_row \<Rightarrow> run_row \<Rightarrow> bool" where
  "same_run r r' \<longleftrightarrow> rw_id r' = rw_id r \<and> rw_name r' = rw_name r \<and> rw_schedule_id r' = rw_schedule_id r \<and> rw_started_at r' = rw_started_at r"

lemma same_run_others: "lawful env \<Longrightarrow> same_run r (te_others env ph r)"
  using outside_steps_keep by (auto simp: same_run_def lawful_def)

lemma same_run_trans: "same_run a b \<Longrightarrow> same_run b c \<Longrightarrow> same_run a c"
  by (simp add: same_run_def)

lemma run_pipeline_same_run: "lawful env \<Longrightarrow> run_pipeline env ph st = (st', r) \<Longrightarrow> same_run (ts_run st) (ts_run st')"
  using run_pipeline_frame(1) [of env ph st st' r] same_run_others [of env "ts_run st" ph] by (auto simp: same_run_def)

lemma retry_run_frame:
  assumes "lawful env" and "retry_run env e res st = (st', r)"
  shows "same_run (ts_run st) (ts_run st') \<and> same_rows st st'"
proof -
  obtain s1 v where save: "save_version_if_needed env Healing st = (s1, v)" by fastforce
  note s1 = save_version_frame [OF save] save_version_same_rows [OF save]
  show ?thesis
  proof (cases v)
    case (Inl x)
    then show ?thesis using assms(2) save s1 by (simp add: retry_run_def same_run_def)
  next
    case (Inr u)
    obtain s2 q where run: "run_pipeline env Retrying (record_healing_audit e res s1) = (s2, q)" by fastforce
    note f = run_pipeline_same_run [OF assms(1) run] run_pipeline_frame(2) [OF run]
    have "same_rows st s2" using same_rows_trans [OF s1(2) same_rows_trans [OF healing_same_rows(7) f(2)]] .
    moreover have "same_run (ts_run st) (ts_run s2)" using f(1) s1(1) by simp
    ultimately show ?thesis using assms(2) save run Inr
      by (auto simp: retry_run_def same_run_def split: sum.splits if_splits intro: same_rows_trans)
  qed
qed

lemma heal_and_retry_frame:
  assumes "lawful env" and "heal_and_retry env sm e st = (st', r)"
  shows "same_run (ts_run st) (ts_run st') \<and> same_rows st st'"
proof (cases "parsed_pipeline (te_yaml env) (rw_yaml_config (ts_run (healing_started env e st)))")
  case (Inl x)
  then show ?thesis using assms(2) by (auto simp: heal_and_retry_def Let_def same_run_def)
next
  case (Inr cfg)
  let ?s1 = "healing_started env e st"
  obtain atts res where heal: "attempt_heal (te_healer env e (collect_file_ids (steps cfg))) (rw_yaml_config (ts_run ?s1)) = (atts, res)"
    by fastforce
  let ?s2 = "interfere env Healing (?s1\<lparr>ts_attempts := ts_attempts ?s1 @ atts\<rparr>)"
  have rows: "same_rows st ?s2"
    using same_rows_trans [OF healing_same_rows(2) [of st env e], of ?s2] by (simp add: same_rows_def interfere_def)
  have run: "same_run (ts_run st) (ts_run ?s2)"
    using same_run_others [OF assms(1), of "ts_run ?s1" Healing] by (simp add: same_run_def)
  show ?thesis
  proof (cases "\<exists>c t. hr_patched_yaml res = Some (c # t) \<and> hr_success res")
    case True
    then obtain c t where "hr_patched_yaml res = Some (c # t)" "hr_success res" by blast
    with assms(2) Inr heal have "retry_run env e res (apply_healing env e res (c # t) ?s2) = (st', r)"
      by (simp add: heal_and_retry_def Let_def)
    note retry = retry_run_frame [OF assms(1) this]
    have "same_rows st st'" by (rule same_rows_trans [OF same_rows_trans [OF rows healing_same_rows(4)] conjunct2 [OF retry]])
    with retry run show ?thesis by (simp add: same_run_def)
  next
    case False
    with assms(2) Inr heal have "st' = healing_gave_up env e res ?s2"
      by (auto simp: heal_and_retry_def Let_def split: option.splits list.splits if_splits)
    then show ?thesis using same_rows_trans [OF rows healing_same_rows(3)] run by (simp add: same_run_def)
  qed
qed

lemma execution_frame:
  assumes "lawful env" and "execute_with_autonomous_healing env st = (st', r)"
  shows "same_run (ts_run st) (ts_run st') \<and> same_rows st st'"
proof -
  obtain s1 q where run: "run_pipeline env FirstRun st = (s1, q)" by fastforce
  note f = run_pipeline_same_run [OF assms(1) run] run_pipeline_frame(2) [OF run]
  have "st' = s1 \<or> (\<exists>e. st' = record_non_healable env e s1) \<or> (\<exists>sm e. heal_and_retry env sm e s1 = (st', r))"
    using assms(2) run by (auto simp: execute_with_autonomous_healing_def split: sum.splits if_splits option.splits)
  then show ?thesis
  proof (elim disjE exE)
    fix sm e
    assume "heal_and_retry env sm e s1 = (st', r)"
    from heal_and_retry_frame [OF assms(1) this] f show ?thesis using same_run_trans same_rows_trans by blast
  next
    fix e
    assume "st' = record_non_healable env e s1"
    then show ?thesis using f same_rows_trans [OF f(2) healing_same_rows(1)] by simp
  qed (use f in simp)
qed

section \<open>What is stored and announced\<close>

lemma fold_appends:
  assumes "\<And>x s. f (g x s) = f s @ h x"
  shows "f (fold g xs st) = f st @ concat (map h xs)"
proof (induction xs arbitrary: st)
  case (Cons x xs)
  then show ?case using assms by simp
qed simp

lemma store_step_steps: "ts_steps (store_step env r st) = ts_steps st @ [step_row_of (fst r) (snd r)]"
  by (cases r) (simp add: store_step_def fold_keeps [of ts_steps])

lemma store_results_steps: "ts_steps (store_results env sm st) = ts_steps st @ map (\<lambda>(i, res). step_row_of i res) (List.enumerate 0 (sum_step_results sm))"
  by (simp add: store_results_def Let_def fold_appends [of ts_steps, OF store_step_steps] split_def)

text \<open>Whether the contract of the pipeline demands that the run is blocked.\<close>

definition breach_blocks :: "('t, 'c, 'r, 'b) task_env \<Rightarrow> string \<Rightarrow> ('t, 'r) execution_summary \<Rightarrow> bool" where
  "breach_blocks env name sm =
     (case te_contract env name of
        None \<Rightarrow> False
      | Some c \<Rightarrow> sum_step_results sm \<noteq> [] \<and>
          (case validate_against_contract (te_arrow env) (te_yaml env) (Some (output_table (last (sum_step_results sm)))) (ac_yaml_content c) of
             Inl e \<Rightarrow> False | Inr v \<Rightarrow> should_block_run (build_breach_report v (ac_severity c))))"

definition outcome_of :: "('t, 'c, 'r, 'b) task_env \<Rightarrow> ('t, 'r) execution_summary \<Rightarrow> ('r, 'b) task_db \<Rightarrow> run_status" where
  "outcome_of env sm st =
     (if rw_status (ts_run st) = CANCELLED then CANCELLED
      else if sum_status sm \<noteq> PS_COMPLETED then FAILED
      else if has_violations sm \<or> breach_blocks env (rw_name (ts_run st)) sm then CONTRACT_VIOLATION
      else if is_healed_run st then HEALED else COMPLETED)"

lemma checked_outcome: "fst (checked env sm st) = outcome_of env sm st"
  by (auto simp: checked_def outcome_of_def outcome_status_def check_and_enforce_contract_def breach_blocks_def Let_def build_breach_report_def
      split: option.splits sum.splits if_splits)

lemma final_status: "lawful env \<Longrightarrow> rw_status (final_row env sm st) = outcome_of env sm st"
  using final_row_settled checked_outcome by metis

lemma checked_schedules:
  "ts_schedules (snd (checked env sm st)) = ts_schedules st \<or>
   (\<exists>consumers. ts_schedules (snd (checked env sm st)) = block_downstream_schedules (te_now env Blocking) consumers (ts_schedules st))"
proof (cases "rw_status (ts_run st) = CANCELLED")
  case True
  then show ?thesis by (simp add: checked_def)
next
  case False
  obtain status s2 where c: "check_and_enforce_contract env (outcome_status (has_violations sm) (is_healed_run st) sm) sm (store_results env sm st) = (status, s2)"
    by fastforce
  from check_frame(5) [OF c] False c show ?thesis by (auto simp: checked_def)
qed

lemma announced_channel:
  assumes "pubsub_up (te_redis env)" and "cache_up (te_redis env)"
  shows "last_payload (publish_terminal_event (te_sse env) (te_redis env) rid event_type status msg ch) =
    Some (json_dumps (te_sse env) (PDict (sign_sse_payload (te_sse env) (terminal_payload rid event_type status msg))))"
  using assms by (simp add: publish_terminal_event_def publish_progress_payload_def cache_progress_payload_def Let_def)

section \<open>Counters of schedules\<close>

definition runs_counted :: "schedule_row \<Rightarrow> nat" where
  "runs_counted s = sc_successful_runs s + sc_failed_runs s + sc_healed_runs s"

lemma block_counters:
  "map (\<lambda>s. (sc_id s, runs_counted s)) (block_downstream_schedules now consumers ss) = map (\<lambda>s. (sc_id s, runs_counted s)) ss"
proof (induction consumers arbitrary: ss)
  case (Cons c cs)
  have "(\<lambda>s. (sc_id s, runs_counted s)) \<circ> block_schedule now c = (\<lambda>s. (sc_id s, runs_counted s))"
    by (rule ext) (simp add: block_schedule_def runs_counted_def)
  with Cons [of "map (block_schedule now c) ss"] show ?case by (simp add: block_downstream_schedules_def)
qed (simp add: block_downstream_schedules_def)

lemma checked_counters:
  "map (\<lambda>s. (sc_id s, runs_counted s)) (ts_schedules (snd (checked env sm st))) = map (\<lambda>s. (sc_id s, runs_counted s)) (ts_schedules st)"
  using checked_schedules [of env sm st] block_counters by auto

lemma counted_once: "rw_status r \<in> finished_statuses \<Longrightarrow>
    runs_counted (counted_schedule r s) = runs_counted s + (if rw_status r = CANCELLED then 0 else 1)"
  by (auto simp: counted_schedule_def runs_counted_def finished_statuses_def)

section \<open>Properties\<close>

text \<open>C6.  A run that is started comes to an end and is executed only once.  Whatever other sessions do, and whether the task
  raises or not, the row is left in one of the five final states with the time of its completion, failed if the
  task raised, and otherwise with the status that the task returns.  A second delivery of the task changes
  nothing but the bus.\<close>

theorem task_finishes:
  assumes "lawful env" and "rw_id (ts_run st) = run_id" and "rw_status (ts_run st) = PENDING"
    and "execute_pipeline_task env run_id st = (st', ans)"
  shows "rw_status (ts_run st') \<in> finished_statuses \<and> rw_completed_at (ts_run st') \<noteq> None \<and>
    (case ans of Inl e \<Rightarrow> rw_status (ts_run st') = FAILED | Inr a \<Rightarrow> a = status_value (rw_status (ts_run st'))) \<and>
    execute_pipeline_task env' run_id st' = (st'\<lparr>ts_bus := te_cleanup_run env' run_id (ts_bus st')\<rparr>, Inr (status_value (rw_status (ts_run st'))))"
proof -
  let ?s0 = "mark_running env (interfere env Starting (st\<lparr>ts_run := (ts_run st)\<lparr>rw_celery_task_id := Some (te_task_id env)\<rparr>\<rparr>))"
  have id0: "rw_id (ts_run ?s0) = run_id"
    using same_run_others [OF assms(1), of "(ts_run st)\<lparr>rw_celery_task_id := Some (te_task_id env)\<rparr>" Starting] assms(2) by (simp add: same_run_def)
  have start: "should_execute (ts_run st)" using assms(3) by (simp add: should_execute_def)
  have "rw_id (ts_run st') = run_id \<and> rw_status (ts_run st') \<in> finished_statuses \<and> rw_completed_at (ts_run st') \<noteq> None \<and>
    (case ans of Inl e \<Rightarrow> rw_status (ts_run st') = FAILED | Inr a \<Rightarrow> a = status_value (rw_status (ts_run st')))"
    using assms(4,2) start
  proof (cases rule: executeE)
    case (persisted sm s2)
    have "rw_id (ts_run s2) = run_id" using execution_frame [OF assms(1) persisted(1)] id0 by (simp add: same_run_def)
    then show ?thesis using persisted(2,3) final_row_settled [OF assms(1), of sm s2] checked_status [of env sm s2] by simp
  next
    case (raised e s2)
    have "rw_id (ts_run s2) = run_id" using execution_frame [OF assms(1) raised(1)] id0 by (simp add: same_run_def)
    then show ?thesis using raised(2,4) by (simp add: finished_statuses_def)
  qed
  moreover from this have "\<not> should_execute (ts_run st')" by (auto simp: should_execute_def finished_statuses_def)
  ultimately show ?thesis by (simp add: execute_pipeline_task_def)
qed

text \<open>A pipeline of one step in a world that does nothing else.\<close>

definition one_load :: pyval where
  "one_load = PDict [(PStr ''name'', PStr ''p''), (PStr ''steps'', PList [PDict
     [(PStr ''name'', PStr ''a''), (PStr ''type'', PStr ''load''), (PStr ''file_id'', PStr ''f'')]])]"

definition no_columns :: "(string list, unit) arrow_view" where
  "no_columns = \<lparr>av_names = id, av_field_index = (\<lambda>t n. -1), av_column = (\<lambda>t i. ()), av_num_rows = (\<lambda>t. 0),
     co_type = (\<lambda>c. []), co_is_integer = (\<lambda>c. False), co_is_floating = (\<lambda>c. False), co_is_boolean = (\<lambda>c. False),
     co_is_text = (\<lambda>c. False), co_is_time = (\<lambda>c. False), co_null_count = (\<lambda>c. 0), co_length = (\<lambda>c. 0),
     co_less = (\<lambda>c v. Inr 0), co_greater = (\<lambda>c v. Inr 0), co_unique = (\<lambda>c. Inr []), co_count_distinct = (\<lambda>c. Inr 0)\<rparr>"

definition loaded :: "string list step_result" where
  "loaded = \<lparr>res_step_name = PStr ''a'', res_step_type = ''load'', output_table = [''x''], rows_in = 3, rows_out = 3, columns_in = [],
     columns_out = [''x''], duration_ms = 1, res_warnings = [], contract_violations = [], engine = None, download_url = None,
     output_filename = None, output_format = None, output_object_name = None, output_size_bytes = None\<rparr>"

definition status_json :: sse_env where
  "status_json = \<lparr>json_dumps = (\<lambda>v. case v of PDict d \<Rightarrow> py_str (get_none d ''status'') | _ \<Rightarrow> []), json_dumps_sorted = (\<lambda>v. []), json_parse = (\<lambda>s. Inl TypeError), hmac_hex = (\<lambda>s. ''x''),
     test_environment = False\<rparr>"

definition calm_env :: "(string list, unit, unit, unit list) task_env" where
  "calm_env = \<lparr>te_yaml = (\<lambda>t. Inr one_load), te_uuid_ok = (\<lambda>s. True),
     te_runner = (\<lambda>files modules. \<lparr>step_execute = (\<lambda>s reg rec. (rec, Inr loaded)), bus_put = (\<lambda>k t b. (b @ [()], Inr ())),
       check_contract = (\<lambda>c t n. Inr []), wants_lineage = False\<rparr>),
     te_new_recorder = (), te_elapsed = (\<lambda>ph. 1), te_cleanup_run = (\<lambda>run b. []), te_error_class = (\<lambda>e. ''ColumnNotFoundError''),
     te_error_text = (\<lambda>e. case e of StepExecutionError sn msg \<Rightarrow> msg | _ \<Rightarrow> []), te_healing_enabled = True, te_healing_max_attempts = 3,
     te_healer = (\<lambda>e files. demo_heal), te_float = (\<lambda>f. PNone), te_contract = (\<lambda>n. None), te_arrow = no_columns,
     te_inserted = (\<lambda>ph n. []), te_others = (\<lambda>ph r. r), te_now = (\<lambda>ph. if ph = Starting then 1000 else 5000),
     te_sse = status_json, te_redis = \<lparr>pubsub_up = True, cache_up = True\<rparr>, te_task_id = ''t''\<rparr>"

definition fresh_run :: run_row where
  "fresh_run = \<lparr>rw_id = ''r'', rw_name = ''p'', rw_status = PENDING, rw_yaml_config = ''load'', rw_created_at = 0, rw_started_at = None,
     rw_completed_at = None, rw_total_rows_in = None, rw_total_rows_out = None, rw_error_message = None, rw_celery_task_id = None,
     rw_schedule_id = Some ''a''\<rparr>"

definition fresh_state :: "(unit, unit list) task_db" where
  "fresh_state = \<lparr>ts_run = fresh_run, ts_steps = [], ts_violations = [], ts_lineage = [], ts_attempts = [], ts_non_healable = [],
     ts_versions = [], ts_schedules = [daily ''a'' 5, daily ''b'' 7], ts_schedule_runs = [], ts_audits = [],
     ts_channel = \<lparr>published = [], last_payload = None\<rparr>, ts_notices = [], ts_webhooks = [], ts_bus = []\<rparr>"

lemma calm_lawful: "lawful calm_env"
  by (simp add: lawful_def calm_env_def outside_steps.nothing)

theorem task_finishes_witness:
  "\<exists>st' ans. execute_pipeline_task calm_env ''r'' fresh_state = (st', ans) \<and> rw_status (ts_run st') \<in> finished_statuses \<and>
     execute_pipeline_task calm_env ''r'' st' = (st'\<lparr>ts_bus := []\<rparr>, Inr (status_value (rw_status (ts_run st'))))"
proof -
  obtain st' ans where run: "execute_pipeline_task calm_env ''r'' fresh_state = (st', ans)" by fastforce
  from task_finishes [OF calm_lawful _ _ run, of calm_env] run show ?thesis
    by (auto simp: fresh_state_def fresh_run_def calm_env_def)
qed

text \<open>C7.  The outcome is recorded as it was.  If other sessions only cancel and time out, the status is cancelled if the run
  was cancelled before its results are persisted, failed if it failed, a contract violation if a step or the
  output broke a contract that says so, healed if healing was applied, and completed otherwise.  The error of a
  failed run is stored as the sanitizer leaves it.  A row is stored for each step in order, with the lineage and
  the totals, and one notice carries the stored status.\<close>

theorem outcome_recorded:
  assumes "lawful env"
  shows "let st' = persist_results env sm st; r = ts_run st' in
    rw_status r = outcome_of env sm st \<and> rw_completed_at r = Some (te_now env Finishing) \<and>
    (rw_status (ts_run st) \<noteq> CANCELLED \<and> sum_status sm \<noteq> PS_COMPLETED \<longrightarrow>
       rw_error_message r = map_option (sanitized env) (sum_error sm)) \<and>
    rw_total_rows_in r = Some (sum_total_rows_processed sm) \<and>
    rw_total_rows_out r = Some (if sum_step_results sm = [] then 0 else rows_out (last (sum_step_results sm))) \<and>
    ts_steps st' = ts_steps st @ map (\<lambda>(i, res). step_row_of i res) (List.enumerate 0 (sum_step_results sm)) \<and>
    ts_lineage st' = ts_lineage st @ [sum_lineage sm] \<and>
    (\<exists>n. ts_notices st' = ts_notices (snd (checked env sm st)) @ [n] \<and> nt_status n = status_value (outcome_of env sm st) \<and>
       nt_event_type n = outcome_event (outcome_of env sm st = CANCELLED) sm)"
proof -
  have "rw_total_rows_in (final_row env sm st) = Some (sum_total_rows_processed sm)"
    "rw_total_rows_out (final_row env sm st) = Some (if sum_step_results sm = [] then 0 else rows_out (last (sum_step_results sm)))"
    "rw_status (ts_run st) \<noteq> CANCELLED \<and> sum_status sm \<noteq> PS_COMPLETED \<longrightarrow>
      rw_error_message (final_row env sm st) = map_option (sanitized env) (sum_error sm)"
    by (simp_all add: final_row_def finished_row_def)
  moreover have "outcome_of env sm st = CANCELLED \<longleftrightarrow> rw_status (ts_run st) = CANCELLED"
    using checked_cancelled [of env sm st] by (simp add: checked_outcome)
  moreover have "ts_notices (persist_results env sm st) = ts_notices (snd (checked env sm st)) @
      [\<lparr>nt_event_type = outcome_event (rw_status (ts_run st) = CANCELLED) sm, nt_pipeline_name = rw_name (final_row env sm st),
        nt_status = status_value (outcome_of env sm st),
        nt_error_message = (case rw_error_message (final_row env sm st) of None \<Rightarrow> [] | Some m \<Rightarrow> m)\<rparr>]"
    by (simp add: persist_results_alt announce_def Let_def final_status [OF assms])
  moreover have "ts_steps (persist_results env sm st) = ts_steps (store_results env sm st)"
    "ts_lineage (persist_results env sm st) = ts_lineage st @ [sum_lineage sm]" by (simp_all add: persist_results_alt)
  ultimately show ?thesis
    using final_status [OF assms] final_row_settled [OF assms, of sm st] by (simp add: Let_def store_results_steps)
qed

definition one_step_summary :: "(string list, unit) execution_summary" where
  "one_step_summary = \<lparr>sum_run_id = ''r'', sum_pipeline_name = PStr ''p'', sum_status = PS_COMPLETED, sum_step_results = [loaded],
     sum_lineage = (), sum_total_duration_ms = 1, sum_total_rows_processed = 3, sum_error = None\<rparr>"

theorem outcome_recorded_witness:
  "rw_status (ts_run (persist_results calm_env one_step_summary fresh_state)) = COMPLETED \<and>
   ts_steps (persist_results calm_env one_step_summary fresh_state) = [step_row_of 0 loaded]"
  using outcome_recorded [OF calm_lawful, of one_step_summary fresh_state]
  by (simp add: Let_def outcome_of_def fresh_state_def fresh_run_def one_step_summary_def has_violations_def loaded_def breach_blocks_def
      calm_env_def is_healed_run_def)



text \<open>C18.  A browser that reconnects learns how the run ended.  When both Redis servers answer, the last cached payload of an
  executed run is the signed terminal event with the stored status, which ends a stream.\<close>

theorem reconnecting_reader_sees_end:
  assumes "lawful env" and "rw_id (ts_run st) = run_id" and "rw_status (ts_run st) = PENDING"
    and "execute_pipeline_task env run_id st = (st', ans)" and "pubsub_up (te_redis env)" and "cache_up (te_redis env)"
  shows "\<exists>event_type msg. event_type \<in> {''pipeline_completed'', ''pipeline_failed'', ''pipeline_cancelled''} \<and>
    last_payload (ts_channel st') = Some (json_dumps (te_sse env) (PDict (sign_sse_payload (te_sse env)
      (terminal_payload run_id event_type (status_value (rw_status (ts_run st'))) msg)))) \<and>
    ends_stream (terminal_payload run_id event_type (status_value (rw_status (ts_run st'))) msg)"
proof -
  let ?s0 = "mark_running env (interfere env Starting (st\<lparr>ts_run := (ts_run st)\<lparr>rw_celery_task_id := Some (te_task_id env)\<rparr>\<rparr>))"
  have id0: "rw_id (ts_run ?s0) = run_id"
    using same_run_others [OF assms(1), of "(ts_run st)\<lparr>rw_celery_task_id := Some (te_task_id env)\<rparr>" Starting] assms(2) by (simp add: same_run_def)
  have start: "should_execute (ts_run st)" using assms(3) by (simp add: should_execute_def)
  have ends: "ends_stream (terminal_payload run_id event_type status msg)"
    if "event_type \<in> {''pipeline_completed'', ''pipeline_failed'', ''pipeline_cancelled''}" for event_type status msg
    using that by (auto simp: ends_stream_def terminal_payload_def extract_event_type_def is_terminal_event_def get_none_def get_or_def
        terminal_event_types_def)
  note last = announced_channel [OF assms(5,6)]
  have "\<exists>event_type msg. event_type \<in> {''pipeline_completed'', ''pipeline_failed'', ''pipeline_cancelled''} \<and>
    last_payload (ts_channel st') = Some (json_dumps (te_sse env) (PDict (sign_sse_payload (te_sse env)
      (terminal_payload run_id event_type (status_value (rw_status (ts_run st'))) msg))))"
    using assms(4,2) start
  proof (cases rule: executeE)
    case (persisted sm s2)
    have "rw_id (ts_run s2) = run_id" using execution_frame [OF assms(1) persisted(1)] id0 by (simp add: same_run_def)
    then have rid: "rw_id (final_row env sm s2) = run_id" using final_row_settled [OF assms(1), of sm s2] by simp
    have "outcome_event b sm \<in> {''pipeline_completed'', ''pipeline_failed'', ''pipeline_cancelled''}" for b by (simp add: outcome_event_def)
    then show ?thesis using persisted(2) rid
      by (intro exI [of _ "outcome_event (rw_status (ts_run s2) = CANCELLED) sm"] exI [of _ "case sum_error sm of None \<Rightarrow> [] | Some e \<Rightarrow> sanitized env e"])
        (simp add: persist_results_alt announce_def Let_def publish_terminal_def last)
  next
    case (raised e s2)
    have "rw_id (ts_run s2) = run_id" using execution_frame [OF assms(1) raised(1)] id0 by (simp add: same_run_def)
    then show ?thesis using raised(2,3)
      by (intro exI [of _ "''pipeline_failed''"] exI [of _ "sanitized env e"]) (simp add: publish_terminal_def last)
  qed
  with ends show ?thesis by blast
qed

theorem reconnecting_reader_sees_end_witness:
  "\<exists>st' ans. execute_pipeline_task calm_env ''r'' fresh_state = (st', ans) \<and>
     last_payload (ts_channel st') = Some (status_value (rw_status (ts_run st')))"
proof -
  obtain st' ans where run: "execute_pipeline_task calm_env ''r'' fresh_state = (st', ans)" by fastforce
  have up: "pubsub_up (te_redis calm_env)" "cache_up (te_redis calm_env)" "te_sse calm_env = status_json" by (simp_all add: calm_env_def)
  have dumps: "json_dumps status_json (PDict (sign_sse_payload e p)) = py_str (get_none p ''status'')" for e p
    by (simp add: status_json_def get_none_sign)
  have "\<exists>event_type msg. last_payload (ts_channel st') = Some (py_str (get_none (terminal_payload ''r'' event_type (status_value (rw_status (ts_run st'))) msg) ''status''))"
    using reconnecting_reader_sees_end [OF calm_lawful _ _ run up(1,2)] unfolding up(3) dumps
    by (auto simp: fresh_state_def fresh_run_def)
  with run show ?thesis by (auto simp: terminal_payload_def get_none_def get_or_def py_str_def)
qed

section \<open>Where the task does not do what it means to\<close>

text \<open>A task delivered a second time while the first is running removes the tables of the run from the bus.\<close>

theorem duplicate_delivery_empties_bus:
  "execute_pipeline_task env (rw_id (ts_run st)) (set_status RUNNING st) =
     ((set_status RUNNING st)\<lparr>ts_bus := te_cleanup_run env (rw_id (ts_run st)) (ts_bus st)\<rparr>, Inr ''RUNNING'')"
  by (simp add: execute_pipeline_task_def should_execute_def set_status_def)

lemma healing_steps_status:
  assumes "outside_steps r r'"
  shows "rw_status r \<in> {HEALING, TIMEOUT} \<Longrightarrow> rw_status r' \<in> {HEALING, TIMEOUT}"
  using assms
proof (induction rule: outside_steps.induct)
  case (more r s t)
  from more.hyps(1) more.prems have "rw_status s \<in> {HEALING, TIMEOUT}"
    by (auto elim!: outside_step_cases simp: cancelled_row_def timeout_row_def cancellable_def)
  then show ?case by (rule more.IH)
qed

text \<open>A run that the user cancelled while its failing first execution was under way is healed and executed again, and the
  cancellation is lost: from then on the row cannot be cancelled either.\<close>

theorem healing_discards_cancel:
  assumes "lawful env" and "heal_and_retry env sm e st = (st', r)"
  shows "rw_status (ts_run st') \<in> {HEALING, HEALED, TIMEOUT} \<and> (\<forall>now. cancel_pipeline_run True now (Some (ts_run st')) =
    (Some (ts_run st'), Conflict (''Cannot cancel pipeline with status '' @ [CHR 0x27] @ status_value (rw_status (ts_run st')) @ [CHR 0x27])))"
proof -
  have others: "rw_status r \<in> {HEALING, TIMEOUT} \<Longrightarrow> rw_status (te_others env ph r) \<in> {HEALING, TIMEOUT}" for ph r
    using healing_steps_status [of r "te_others env ph r"] assms(1) by (auto simp: lawful_def)
  have retry: "rw_status (ts_run s') \<in> {HEALING, HEALED, TIMEOUT}"
    if "retry_run env e res s = (s', q)" and "rw_status (ts_run s) \<in> {HEALING, TIMEOUT}" for res s s' and q :: "('a, 'c) execution_summary result"
  proof -
    obtain s1 v where save: "save_version_if_needed env Healing s = (s1, v)" by fastforce
    have s1: "ts_run s1 = ts_run s" using save_version_frame [OF save] by simp
    obtain s2 q' where run: "run_pipeline env Retrying (record_healing_audit e res s1) = (s2, q')" by fastforce
    have "rw_status (ts_run s2) \<in> {HEALING, TIMEOUT}"
      using run_pipeline_frame(1) [OF run] others [of "ts_run s" Retrying] that(2) s1 by auto
    then show ?thesis using that save run s1 by (auto simp: retry_run_def split: sum.splits if_splits)
  qed
  let ?s1 = "healing_started env e st"
  have "rw_status (ts_run st') \<in> {HEALING, HEALED, TIMEOUT}"
  proof (cases "parsed_pipeline (te_yaml env) (rw_yaml_config (ts_run ?s1))")
    case (Inl x)
    then show ?thesis using assms(2) by (auto simp: heal_and_retry_def Let_def)
  next
    case (Inr cfg)
    obtain atts res where heal: "attempt_heal (te_healer env e (collect_file_ids (steps cfg))) (rw_yaml_config (ts_run ?s1)) = (atts, res)"
      by fastforce
    let ?s2 = "interfere env Healing (?s1\<lparr>ts_attempts := ts_attempts ?s1 @ atts\<rparr>)"
    have s2: "rw_status (ts_run ?s2) \<in> {HEALING, TIMEOUT}" using others [of "(ts_run st)\<lparr>rw_status := HEALING\<rparr>" Healing] by simp
    from assms(2) Inr heal consider "st' = healing_gave_up env e res ?s2"
      | t where "retry_run env e res (apply_healing env e res t ?s2) = (st', r)"
      by (auto simp: heal_and_retry_def Let_def split: option.splits list.splits if_splits)
    then show ?thesis
    proof cases
      case 2
      from retry [OF 2] s2 show ?thesis by simp
    qed (use s2 in auto)
  qed
  then show ?thesis by (auto simp: cancel_pipeline_run_def cancellable_def)
qed

text \<open>The reason published for a failed healing is always the same: the text that the agent returns mentions no cause.\<close>

theorem healing_failure_reason_constant:
  assumes "attempt_heal env y = (atts, res)" and "\<not> hr_success res"
  shows "classify_healing_failure res = ''llm_unable_to_fix''"
proof -
  have "res = healing_failed" using heal_attempts_run [OF assms(1) [unfolded attempt_heal_def]] assms(2) by simp
  moreover have "classify_healing_failure healing_failed = ''llm_unable_to_fix''" by code_simp
  ultimately show ?thesis by simp
qed

text \<open>A run that is already marked because of a step contract, if only for a warning, is not held against the contract of the
  pipeline: its consumers are not put off.\<close>

theorem warned_run_blocks_nobody:
  assumes "sum_status sm = PS_COMPLETED" and "has_violations sm"
  shows "ts_schedules (snd (checked env sm st)) = ts_schedules st"
  using assms
  by (auto simp: checked_def outcome_status_def check_and_enforce_contract_def Let_def fold_keeps [of ts_schedules]
      split: option.splits sum.splits if_splits)

text \<open>The webhooks of a cancelled run say that it completed, if its execution did.\<close>

theorem cancelled_run_reported_completed:
  assumes "rw_status (ts_run st) = CANCELLED" and "sum_status sm = PS_COMPLETED"
  shows "\<exists>w. ts_webhooks (persist_results env sm st) = ts_webhooks (snd (checked env sm st)) @ [w] \<and> wh_status w = ''completed''"
  using assms by (simp add: persist_results_alt announce_def Let_def)

end
