(* ===== verification/UuidText.thy ===== *)
theory UuidText
  imports PyBase
begin

text \<open>
  \<^verbatim>\<open>backend/utils/uuid_utils.py\<close>: the identifiers of rows as texts.  A UUID is a number below \<open>2 ^ 128\<close>; \<^verbatim>\<open>uuid.UUID\<close> and
  \<^verbatim>\<open>str\<close> of the standard library read and write it.
\<close>

section \<open>Definitions\<close>

type_synonym uuid = nat

text \<open>\<^verbatim>\<open>int(s, 16)\<close>: spaces around, a sign, a prefix, and single underscores between the digits.\<close>

definition hex_value :: "char \<Rightarrow> nat option" where
  "hex_value c =
     (if 48 \<le> cp c \<and> cp c \<le> 57 then Some (cp c - 48)
      else if 97 \<le> cp c \<and> cp c \<le> 102 then Some (cp c - 87)
      else if 65 \<le> cp c \<and> cp c \<le> 70 then Some (cp c - 55)
      else None)"

fun hex_number :: "bool \<Rightarrow> nat \<Rightarrow> string \<Rightarrow> nat option" where
  "hex_number after_digit n [] = (if after_digit then Some n else None)"
| "hex_number after_digit n (c # cs) =
     (case hex_value c of
        Some d \<Rightarrow> hex_number True (16 * n + d) cs
      | None \<Rightarrow> if c = CHR ''_'' \<and> after_digit then hex_number False n cs else None)"

definition after_prefix :: "string \<Rightarrow> string" where
  "after_prefix s =
     (if starts_with s ''0x'' \<or> starts_with s ''0X''
      then (let t = drop 2 s in if starts_with t ''_'' then drop 1 t else t)
      else s)"

definition int_base16 :: "string \<Rightarrow> int option" where
  "int_base16 s =
     (let t = py_strip s;
          negative = starts_with t ''-'';
          digits = (if negative \<or> starts_with t ''+'' then drop 1 t else t)
      in map_option (\<lambda>n. if negative then - int n else int n) (hex_number False 0 (after_prefix digits)))"

definition brace :: "char \<Rightarrow> bool" where
  "brace c \<longleftrightarrow> c = CHR ''{'' \<or> c = CHR ''}''"

definition strip_braces :: "string \<Rightarrow> string" where
  "strip_braces s = rev (dropWhile brace (rev (dropWhile brace s)))"

text \<open>\<^verbatim>\<open>uuid.UUID(value)\<close>, \<open>None\<close> for a \<^verbatim>\<open>ValueError\<close>.\<close>

definition py_uuid :: "string \<Rightarrow> uuid option" where
  "py_uuid s =
     (let h = filter (\<lambda>c. c \<noteq> CHR ''-'') (strip_braces (replace_all ''uuid:'' [] (replace_all ''urn:'' [] s)))
      in if length h \<noteq> 32 then None
         else case int_base16 h of
             None \<Rightarrow> None
           | Some i \<Rightarrow> if 0 \<le> i \<and> i < 2 ^ 128 then Some (nat i) else None)"

text \<open>\<^verbatim>\<open>str(u)\<close>.\<close>

definition hex_char :: "nat \<Rightarrow> char" where
  "hex_char d = char_of (if d < 10 then d + 48 else d + 87)"

fun hex_digits :: "nat \<Rightarrow> uuid \<Rightarrow> string" where
  "hex_digits 0 u = []"
| "hex_digits (Suc k) u = hex_digits k (u div 16) @ [hex_char (u mod 16)]"

definition uuid_text :: "uuid \<Rightarrow> string" where
  "uuid_text u =
     (let h = hex_digits 32 u
      in take 8 h @ ''-'' @ take 4 (drop 8 h) @ ''-'' @ take 4 (drop 12 h) @ ''-'' @ take 4 (drop 16 h) @ ''-'' @ drop 20 h)"

section \<open>Reading what was written\<close>

definition hex_lower :: "char \<Rightarrow> bool" where
  "hex_lower c \<longleftrightarrow> (48 \<le> cp c \<and> cp c \<le> 57) \<or> (97 \<le> cp c \<and> cp c \<le> 102)"

lemma cp_hex_char: "d < 16 \<Longrightarrow> cp (hex_char d) = (if d < 10 then d + 48 else d + 87)"
  by (simp add: hex_char_def cp_def of_char_of)

lemma hex_lower_digit: "d < 16 \<Longrightarrow> hex_lower (hex_char d)"
  by (auto simp: hex_lower_def cp_hex_char)

lemma hex_value_digit: "d < 16 \<Longrightarrow> hex_value (hex_char d) = Some d"
  by (auto simp: hex_value_def cp_hex_char)

lemma hex_digits_lower: "list_all hex_lower (hex_digits k u)"
  by (induction k arbitrary: u) (auto simp: hex_lower_digit)

lemma length_hex_digits [simp]: "length (hex_digits k u) = k"
  by (induction k arbitrary: u) auto

lemma hex_number_append:
  "list_all hex_lower s \<Longrightarrow> s \<noteq> [] \<or> b \<Longrightarrow> \<exists>m. hex_number b n s = Some m \<and> hex_number b n (s @ t) = hex_number True m t"
proof (induction s arbitrary: b n)
  case Nil
  then show ?case by simp
next
  case (Cons c s)
  then obtain d where "hex_value c = Some d" by (auto simp: hex_lower_def hex_value_def)
  with Cons show ?case by simp
qed

lemma hex_number_digits: "0 < k \<Longrightarrow> u < 16 ^ k \<Longrightarrow> hex_number False 0 (hex_digits k u) = Some u"
proof (induction k arbitrary: u)
  case 0
  then show ?case by simp
next
  case (Suc k)
  show ?case
  proof (cases "k = 0")
    case True
    with Suc.prems show ?thesis by (simp add: hex_value_digit)
  next
    case False
    have u: "u div 16 < 16 ^ k" using Suc.prems by (simp add: less_mult_imp_div_less mult.commute)
    with Suc.IH False have ih: "hex_number False 0 (hex_digits k (u div 16)) = Some (u div 16)" by simp
    from False have "hex_digits k (u div 16) \<noteq> []" by (metis length_hex_digits length_0_conv)
    with hex_number_append [OF hex_digits_lower, of k "u div 16" False 0 "[hex_char (u mod 16)]"] ih
    show ?thesis by (simp add: hex_value_digit)
  qed
qed

definition uuid_char :: "char \<Rightarrow> bool" where
  "uuid_char c \<longleftrightarrow> hex_lower c \<or> c = CHR ''-''"

lemma uuid_text_chars: "list_all uuid_char (uuid_text u)"
  using hex_digits_lower [of 32 u]
  by (auto simp: uuid_text_def Let_def list_all_iff uuid_char_def dest!: in_set_takeD in_set_dropD)

lemma replace_all_absent: "p \<noteq> [] \<Longrightarrow> hd p \<notin> set s \<Longrightarrow> replace_all p r s = s"
proof (induction s)
  case Nil
  then show ?case by (simp add: replace_all.simps)
next
  case (Cons c s)
  then have "\<not> starts_with (c # s) p" by (cases p) (auto simp: starts_with_def)
  with Cons show ?case by (subst replace_all.simps) simp
qed

lemma dropWhile_none: "list_all (\<lambda>c. \<not> P c) s \<Longrightarrow> dropWhile P s = s"
  by (cases s) auto

lemma not_hex:
  "\<not> hex_lower (CHR ''-'')" "\<not> hex_lower (CHR ''u'')" "\<not> hex_lower (CHR ''x'')" "\<not> hex_lower (CHR ''X'')"
  "\<not> hex_lower (CHR ''+'')" "\<not> hex_lower (CHR 0x7B)" "\<not> hex_lower (CHR 0x7D)"
  by code_simp+

lemma filter_uuid_text: "filter (\<lambda>c. c \<noteq> CHR ''-'') (uuid_text u) = hex_digits 32 u"
proof -
  let ?h = "hex_digits 32 u"
  have "filter (\<lambda>c. c \<noteq> CHR ''-'') s = s" if "set s \<subseteq> set ?h" for s
    using that hex_digits_lower [of 32 u] not_hex(1) by (intro filter_True) (auto simp: list_all_iff)
  then have "filter (\<lambda>c. c \<noteq> CHR ''-'') (uuid_text u) =
      take 8 ?h @ take 4 (drop 8 ?h) @ take 4 (drop 12 ?h) @ take 4 (drop 16 ?h) @ drop 20 ?h"
    by (simp add: uuid_text_def Let_def set_take_subset set_drop_subset subset_trans [OF set_take_subset set_drop_subset])
  also have "\<dots> = ?h"
    using take_add [of 8 4 ?h] take_add [of 12 4 ?h] take_add [of 16 4 ?h] append_take_drop_id [of 20 ?h] by simp
  finally show ?thesis .
qed

lemma not_space_hex: "hex_lower c \<Longrightarrow> \<not> is_space c"
  by (auto simp: hex_lower_def is_space_def)

lemma strip_none: "list_all (\<lambda>c. \<not> is_space c) s \<Longrightarrow> py_strip s = s"
  by (simp add: py_strip_def dropWhile_none)

lemma int_base16_digits: "u < 16 ^ 32 \<Longrightarrow> int_base16 (hex_digits 32 u) = Some (int u)"
proof -
  assume u: "u < 16 ^ 32"
  let ?h = "hex_digits 32 u"
  have "list_all (\<lambda>c. \<not> is_space c) ?h" using hex_digits_lower [of 32 u] not_space_hex by (auto simp: list_all_iff)
  then have strip: "py_strip ?h = ?h" by (rule strip_none)
  have no: "\<not> starts_with ?h p" if "\<exists>c \<in> set p. \<not> hex_lower c" for p
    using that hex_digits_lower [of 32 u] unfolding starts_with_def list_all_iff by (metis in_set_takeD)
  show ?thesis
    using hex_number_digits [OF _ u] by (simp add: int_base16_def strip after_prefix_def no not_hex)
qed

lemma py_uuid_text: "u < 2 ^ 128 \<Longrightarrow> py_uuid (uuid_text u) = Some u"
proof -
  assume u: "u < 2 ^ 128"
  have "CHR ''u'' \<notin> set (uuid_text u)" using uuid_text_chars [of u] not_hex(2) by (auto simp: list_all_iff uuid_char_def)
  then have replaced: "replace_all ''uuid:'' [] (replace_all ''urn:'' [] (uuid_text u)) = uuid_text u"
    by (simp add: replace_all_absent)
  have "list_all (\<lambda>c. \<not> brace c) (uuid_text u)"
    using uuid_text_chars [of u] not_hex(6,7) by (auto simp: list_all_iff uuid_char_def brace_def)
  then have stripped: "strip_braces (uuid_text u) = uuid_text u"
    by (simp add: strip_braces_def dropWhile_none)
  from u have "u < 16 ^ 32" by simp
  with u show ?thesis
    by (simp add: py_uuid_def replaced stripped filter_uuid_text int_base16_digits Let_def)
qed

lemma uuid_text_inj: "u < 2 ^ 128 \<Longrightarrow> v < 2 ^ 128 \<Longrightarrow> uuid_text u = uuid_text v \<longleftrightarrow> u = v"
  by (metis option.inject py_uuid_text)

text \<open>One row has many names: upper case, braces, a prefix, and underscores between digits.\<close>

lemma other_spellings:
  "py_uuid ''{0000000000000000000000000000001F}'' = Some 31" "py_uuid ''urn:uuid:00000000-0000-0000-0000-00000000001f'' = Some 31"
  "py_uuid ''0x_0000000000000000000000000001f'' = Some 31" "py_uuid ''0x1f'' = None"
  by code_simp+

end
