(* ===== verification/AccessControl.thy ===== *)
theory AccessControl
  imports PipelineTask UuidText
begin

text \<open>
  Who may do what with a pipeline: the grants of \<^verbatim>\<open>backend/api/permissions.py\<close>, the checks of
  \<^verbatim>\<open>backend/api/pipelines.py\<close> and \<^verbatim>\<open>backend/api/versions.py\<close>, and the contracts of \<^verbatim>\<open>backend/api/contracts.py\<close>.  A
  pipeline is nothing but its name.  The database is the record of its tables, each in the order in which the rows were
  inserted; a query without an order finds the first row.  A request takes the identifier that a new row gets.
\<close>

section \<open>Tables\<close>

record account =
  us_id :: uuid
  us_role :: string

record grant_row =
  gr_id :: uuid
  gr_pipeline :: string
  gr_user :: uuid
  gr_level :: permission_level

record contract_row =
  cr_id :: uuid
  cr_pipeline :: string
  cr_version :: int
  cr_yaml :: string
  cr_severity :: string
  cr_consumers :: "string list"
  cr_user :: uuid
  cr_active :: bool

record upload_row =
  up_id :: uuid
  up_user :: "uuid option"
  up_columns :: "string list"
  up_dtypes :: "(string \<times> string) list"
  up_row_count :: int

record snapshot_row =
  ss_file :: uuid
  ss_run :: string
  ss_columns :: "string list"
  ss_dtypes :: "(string \<times> string) list"
  ss_row_count :: int

record audit_row =
  au_action :: string
  au_user :: uuid
  au_resource_type :: string
  au_resource :: uuid
  au_details :: "(string \<times> string) list"

datatype queued_task = ExecuteTask string | StreamingTask string

text \<open>Runs and schedules come with the account that they belong to.\<close>

record api_db =
  db_users :: "account list"
  db_grants :: "grant_row list"
  db_contracts :: "contract_row list"
  db_runs :: "(run_row \<times> uuid option) list"
  db_versions :: "pipeline_version list"
  db_files :: "upload_row list"
  db_snapshots :: "snapshot_row list"
  db_schedules :: "(schedule_row \<times> uuid) list"
  db_audit :: "audit_row list"
  db_queue :: "queued_task list"

text \<open>An \<^verbatim>\<open>HTTPException\<close>, one of status 400 with the errors of a validation, or an exception that the handlers of the application turn into an answer.\<close>

datatype http_error = HTTP nat string | Invalid string "validation_error list" | Unhandled pyexn

type_synonym 'a answer = "http_error + 'a"

definition log_action :: "string \<Rightarrow> account \<Rightarrow> string \<Rightarrow> uuid \<Rightarrow> (string \<times> string) list \<Rightarrow> api_db \<Rightarrow> api_db" where
  "log_action action user rtype resource details db =
     db\<lparr>db_audit := db_audit db @ [\<lparr>au_action = action, au_user = us_id user, au_resource_type = rtype, au_resource = resource,
        au_details = details\<rparr>]\<rparr>"

text \<open>The columns for names hold 255 characters.\<close>

definition fits_column :: "string \<Rightarrow> bool" where
  "fits_column s \<longleftrightarrow> length s \<le> 255"

definition invalid_uuid :: "string \<Rightarrow> http_error" where
  "invalid_uuid s = HTTP 422 (''Invalid UUID format: '' @ quoted s)"

section \<open>Grants\<close>

fun level_value :: "permission_level \<Rightarrow> string" where
  "level_value OWNER = ''owner''"
| "level_value RUNNER = ''runner''"
| "level_value VIEWER = ''viewer''"

definition level_of :: "string \<Rightarrow> permission_level option" where
  "level_of s = find (\<lambda>l. level_value l = s) [OWNER, RUNNER, VIEWER]"

definition grant_of :: "api_db \<Rightarrow> string \<Rightarrow> uuid \<Rightarrow> grant_row option" where
  "grant_of db name u = find (\<lambda>g. gr_pipeline g = name \<and> gr_user g = u) (db_grants db)"

definition require_owner :: "api_db \<Rightarrow> string \<Rightarrow> account \<Rightarrow> bool" where
  "require_owner db name user \<longleftrightarrow>
     list_ex (\<lambda>g. gr_pipeline g = name \<and> gr_user g = us_id user \<and> gr_level g = OWNER) (db_grants db) \<or> us_role user = ''admin''"

definition not_owner :: http_error where
  "not_owner = HTTP 403 ''Only pipeline owners or admins can manage permissions''"

definition find_user :: "api_db \<Rightarrow> uuid \<Rightarrow> account option" where
  "find_user db u = find (\<lambda>a. us_id a = u) (db_users db)"

definition set_level :: "uuid \<Rightarrow> permission_level \<Rightarrow> api_db \<Rightarrow> api_db" where
  "set_level i l db = db\<lparr>db_grants := map (\<lambda>g. if gr_id g = i then g\<lparr>gr_level := l\<rparr> else g) (db_grants db)\<rparr>"

definition add_grant :: "grant_row \<Rightarrow> api_db \<Rightarrow> api_db" where
  "add_grant g db = db\<lparr>db_grants := db_grants db @ [g]\<rparr>"

definition grant_permission :: "uuid \<Rightarrow> account \<Rightarrow> string \<Rightarrow> string \<Rightarrow> string \<Rightarrow> api_db \<Rightarrow> api_db \<times> grant_row answer" where
  "grant_permission new_id user name target permission_level db =
     (let level = py_lower (py_strip permission_level) in
      if \<not> require_owner db name user then (db, Inl not_owner)
      else case level_of level of
          None \<Rightarrow> (db, Inl (HTTP 400 (''Invalid permission level '' @ quoted level @ ''. Must be '' @ quoted ''owner'' @ '', '' @
                     quoted ''runner'' @ '', or '' @ quoted ''viewer'' @ ''.'')))
        | Some l \<Rightarrow>
            (case py_uuid target of
               None \<Rightarrow> (db, Inl (invalid_uuid target))
             | Some u \<Rightarrow>
                 if find_user db u = None then (db, Inl (HTTP 404 ''Target user not found''))
                 else case grant_of db name u of
                     Some g \<Rightarrow> (set_level (gr_id g) l db, Inr (g\<lparr>gr_level := l\<rparr>))
                   | None \<Rightarrow>
                       if \<not> fits_column name then (db, Inl (Unhandled (OtherError ''DataError'')))
                       else let g = \<lparr>gr_id = new_id, gr_pipeline = name, gr_user = u, gr_level = l\<rparr> in
                         (log_action ''permission_granted'' user ''pipeline_permission'' new_id
                            [(''pipeline_name'', name), (''target_user'', target), (''level'', level)] (add_grant g db), Inr g)))"

definition list_permissions :: "account \<Rightarrow> string \<Rightarrow> api_db \<Rightarrow> grant_row list answer" where
  "list_permissions user name db =
     (if \<not> require_owner db name user then Inl not_owner
      else Inr (rev (filter (\<lambda>g. gr_pipeline g = name) (db_grants db))))"

definition revoke_permission :: "account \<Rightarrow> string \<Rightarrow> string \<Rightarrow> api_db \<Rightarrow> api_db \<times> string answer" where
  "revoke_permission user name target db =
     (if \<not> require_owner db name user then (db, Inl not_owner)
      else case py_uuid target of
          None \<Rightarrow> (db, Inl (invalid_uuid target))
        | Some u \<Rightarrow>
            (case grant_of db name u of
               None \<Rightarrow> (db, Inl (HTTP 404 ''Permission not found''))
             | Some g \<Rightarrow>
                 (log_action ''permission_revoked'' user ''pipeline_permission'' u [(''pipeline_name'', name), (''target_user'', target)]
                    (db\<lparr>db_grants := filter (\<lambda>h. gr_id h \<noteq> gr_id g) (db_grants db)\<rparr>),
                  Inr (''Permission revoked for user '' @ quoted target @ '' on pipeline '' @ quoted name))))"

section \<open>Checks\<close>

definition owns_contract :: "api_db \<Rightarrow> string \<Rightarrow> uuid \<Rightarrow> bool" where
  "owns_contract db name u \<longleftrightarrow> list_ex (\<lambda>c. cr_pipeline c = name \<and> cr_user c = u) (db_contracts db)"

definition name_in_use :: "api_db \<Rightarrow> string \<Rightarrow> bool" where
  "name_in_use db name \<longleftrightarrow>
     list_ex (\<lambda>r. rw_name (fst r) = name) (db_runs db) \<or> list_ex (\<lambda>c. cr_pipeline c = name) (db_contracts db) \<or>
     list_ex (\<lambda>g. gr_pipeline g = name) (db_grants db)"

definition access_denied :: http_error where
  "access_denied = HTTP 404 ''Pipeline run or pipeline not found, or access denied.''"

definition lacks_level :: "permission_level list \<Rightarrow> string \<Rightarrow> string \<Rightarrow> http_error" where
  "lacks_level levels action name =
     HTTP 403 (''User lacks required permissions ('' @ join '', '' (map level_value levels) @ '') to '' @ action @ quoted name)"

text \<open>Of \<^verbatim>\<open>api/pipelines.py\<close>; \<open>grant_owner\<close> has the identifier of the row that makes the user an owner.\<close>

definition check_pipeline_permission ::
    "account \<Rightarrow> string \<Rightarrow> permission_level list \<Rightarrow> uuid option \<Rightarrow> api_db \<Rightarrow> api_db \<times> unit answer" where
  "check_pipeline_permission user name levels grant_owner db =
     (if us_role user = ''admin'' \<or> owns_contract db name (us_id user) then (db, Inr ())
      else case grant_of db name (us_id user) of
          Some g \<Rightarrow> if gr_level g \<in> set levels then (db, Inr ())
                    else (db, Inl (lacks_level levels ''perform this action on pipeline '' name))
        | None \<Rightarrow>
            (case grant_owner of
               None \<Rightarrow> (db, Inl access_denied)
             | Some new_id \<Rightarrow>
                 if name_in_use db name then (db, Inl access_denied)
                 else if \<not> fits_column name then (db, Inl (Unhandled (OtherError ''DataError'')))
                 else (add_grant \<lparr>gr_id = new_id, gr_pipeline = name, gr_user = us_id user, gr_level = OWNER\<rparr> db, Inr ())))"

definition check_run_permission :: "account \<Rightarrow> run_row \<times> uuid option \<Rightarrow> permission_level list \<Rightarrow> api_db \<Rightarrow> unit answer" where
  "check_run_permission user run levels db =
     (if us_role user = ''admin'' \<or> snd run = Some (us_id user) then Inr ()
      else snd (check_pipeline_permission user (rw_name (fst run)) levels None db))"

text \<open>The function of the same name in \<^verbatim>\<open>api/versions.py\<close>.\<close>

definition check_version_permission :: "account \<Rightarrow> string \<Rightarrow> permission_level list \<Rightarrow> api_db \<Rightarrow> unit answer" where
  "check_version_permission user name levels db =
     (if us_role user = ''admin'' then Inr ()
      else case grant_of db name (us_id user) of
          None \<Rightarrow> Inl access_denied
        | Some g \<Rightarrow> if gr_level g \<in> set levels then Inr () else Inl (lacks_level levels ''access pipeline '' name))"

definition ensure_pipeline_contract_access :: "account \<Rightarrow> string \<Rightarrow> permission_level list \<Rightarrow> bool \<Rightarrow> api_db \<Rightarrow> bool" where
  "ensure_pipeline_contract_access user name levels allow_new db \<longleftrightarrow>
     us_role user = ''admin'' \<or> owns_contract db name (us_id user) \<or>
     (case grant_of db name (us_id user) of None \<Rightarrow> False | Some g \<Rightarrow> gr_level g \<in> set levels) \<or>
     (allow_new \<and> \<not> name_in_use db name)"

section \<open>Contracts\<close>

definition not_authorized :: http_error where
  "not_authorized = HTTP 403 ''Not authorized for this pipeline''"

definition contract_not_found :: "string \<Rightarrow> string \<Rightarrow> http_error" where
  "contract_not_found i name = HTTP 404 (''Contract '' @ i @ '' not found for pipeline '' @ name)"

text \<open>The contracts of a name that a user sees, newest version first; equal versions keep the order of the table.\<close>

definition contract_query :: "account \<Rightarrow> string \<Rightarrow> api_db \<Rightarrow> contract_row list" where
  "contract_query user name db =
     filter (\<lambda>c. (us_role user = ''admin'' \<or> cr_user c = us_id user) \<and> cr_pipeline c = name) (db_contracts db)"

definition newest_first :: "contract_row list \<Rightarrow> contract_row list" where
  "newest_first cs = sort_key (\<lambda>c. - cr_version c) cs"

definition list_contracts :: "account \<Rightarrow> string \<Rightarrow> api_db \<Rightarrow> contract_row list answer" where
  "list_contracts user name db =
     (if \<not> ensure_pipeline_contract_access user name [OWNER, RUNNER, VIEWER] False db then Inl not_authorized
      else Inr (newest_first (contract_query user name db)))"

definition new_contract :: "uuid \<Rightarrow> account \<Rightarrow> string \<Rightarrow> int \<Rightarrow> string \<Rightarrow> string \<Rightarrow> string list \<Rightarrow> contract_row" where
  "new_contract new_id user name version yaml severity consumers =
     \<lparr>cr_id = new_id, cr_pipeline = name, cr_version = version, cr_yaml = yaml, cr_severity = severity, cr_consumers = consumers,
      cr_user = us_id user, cr_active = True\<rparr>"

definition create_contract ::
    "uuid \<Rightarrow> account \<Rightarrow> string \<Rightarrow> string \<Rightarrow> string \<Rightarrow> string list \<Rightarrow> api_db \<Rightarrow> api_db \<times> contract_row answer" where
  "create_contract new_id user name yaml severity consumers db =
     (if \<not> ensure_pipeline_contract_access user name [OWNER] True db then (db, Inl not_authorized)
      else if \<not> fits_column name then (db, Inl (Unhandled (OtherError ''DataError'')))
      else let version = (case newest_first (contract_query user name db) of [] \<Rightarrow> 1 | c # _ \<Rightarrow> cr_version c + 1);
               c = new_contract new_id user name version yaml severity consumers
        in (db\<lparr>db_contracts := db_contracts db @ [c]\<rparr>, Inr c))"

text \<open>The text of the identifier goes to the database, which reads it in its own way (\<open>row_id\<close>) or raises.\<close>

definition find_contract :: "(string \<Rightarrow> uuid option) \<Rightarrow> account \<Rightarrow> string \<Rightarrow> string \<Rightarrow> api_db \<Rightarrow> contract_row answer" where
  "find_contract row_id user name i db =
     (case row_id i of
        None \<Rightarrow> Inl (Unhandled (OtherError ''DataError''))
      | Some u \<Rightarrow>
          (case find (\<lambda>c. cr_id c = u) (contract_query user name db) of
             None \<Rightarrow> Inl (contract_not_found i name)
           | Some c \<Rightarrow> Inr c))"

definition get_contract :: "(string \<Rightarrow> uuid option) \<Rightarrow> account \<Rightarrow> string \<Rightarrow> string \<Rightarrow> api_db \<Rightarrow> contract_row answer" where
  "get_contract row_id user name i db =
     (if \<not> ensure_pipeline_contract_access user name [OWNER, RUNNER, VIEWER] False db then Inl not_authorized
      else find_contract row_id user name i db)"

definition update_contract ::
    "(string \<Rightarrow> uuid option) \<Rightarrow> uuid \<Rightarrow> account \<Rightarrow> string \<Rightarrow> string \<Rightarrow> string \<Rightarrow> string \<Rightarrow> string list \<Rightarrow> api_db \<Rightarrow>
     api_db \<times> contract_row answer" where
  "update_contract row_id new_id user name i yaml severity consumers db =
     (if \<not> ensure_pipeline_contract_access user name [OWNER] False db then (db, Inl not_authorized)
      else case find_contract row_id user name i db of
          Inl e \<Rightarrow> (db, Inl e)
        | Inr old \<Rightarrow>
            (let c = new_contract new_id user name (cr_version old + 1) yaml severity consumers
             in (db\<lparr>db_contracts := map (\<lambda>r. if cr_id r = cr_id old then r\<lparr>cr_active := False\<rparr> else r) (db_contracts db) @ [c]\<rparr>, Inr c)))"

definition delete_contract ::
    "(string \<Rightarrow> uuid option) \<Rightarrow> account \<Rightarrow> string \<Rightarrow> string \<Rightarrow> api_db \<Rightarrow> api_db \<times> unit answer" where
  "delete_contract row_id user name i db =
     (if \<not> ensure_pipeline_contract_access user name [OWNER] False db then (db, Inl not_authorized)
      else case find_contract row_id user name i db of
          Inl e \<Rightarrow> (db, Inl e)
        | Inr c \<Rightarrow> (db\<lparr>db_contracts := filter (\<lambda>r. cr_id r \<noteq> cr_id c) (db_contracts db)\<rparr>, Inr ()))"

text \<open>What the task of a run reads: the active row with the highest version, whoever wrote it.\<close>

definition contract_for_run :: "api_db \<Rightarrow> string \<Rightarrow> active_contract option" where
  "contract_for_run db name =
     (case newest_first (filter (\<lambda>c. cr_pipeline c = name \<and> cr_active c) (db_contracts db)) of
        [] \<Rightarrow> None
      | c # _ \<Rightarrow> Some \<lparr>ac_yaml_content = cr_yaml c, ac_severity = cr_severity c, ac_consumers = cr_consumers c\<rparr>)"

section \<open>Versions\<close>

definition find_version :: "string \<Rightarrow> int \<Rightarrow> api_db \<Rightarrow> pipeline_version option" where
  "find_version name n db = find (\<lambda>v. pv_pipeline_name v = name \<and> pv_version_number v = n) (db_versions db)"

definition version_not_found :: http_error where
  "version_not_found = HTTP 404 ''Version not found''"

definition list_versions :: "account \<Rightarrow> string \<Rightarrow> api_db \<Rightarrow> pipeline_version list answer" where
  "list_versions user name db =
     (case check_version_permission user name [OWNER, RUNNER, VIEWER] db of
        Inl e \<Rightarrow> Inl e
      | Inr _ \<Rightarrow> Inr (sort_key (\<lambda>v. - pv_version_number v) (filter (\<lambda>v. pv_pipeline_name v = name) (db_versions db))))"

definition get_version :: "account \<Rightarrow> string \<Rightarrow> int \<Rightarrow> api_db \<Rightarrow> pipeline_version answer" where
  "get_version user name n db =
     (case check_version_permission user name [OWNER, RUNNER, VIEWER] db of
        Inl e \<Rightarrow> Inl e
      | Inr _ \<Rightarrow> (case find_version name n db of None \<Rightarrow> Inl version_not_found | Some v \<Rightarrow> Inr v))"

definition or_unhandled :: "'a result \<Rightarrow> 'a answer" where
  "or_unhandled r = (case r of Inl e \<Rightarrow> Inl (Unhandled e) | Inr x \<Rightarrow> Inr x)"

definition diff_versions ::
    "(string \<Rightarrow> pyval result) \<Rightarrow> account \<Rightarrow> string \<Rightarrow> int \<Rightarrow> int \<Rightarrow> api_db \<Rightarrow> pipeline_diff answer" where
  "diff_versions safe_load user name a b db =
     (case check_version_permission user name [OWNER, RUNNER, VIEWER] db of
        Inl e \<Rightarrow> Inl e
      | Inr _ \<Rightarrow>
          (case (find_version name a db, find_version name b db) of
             (Some va, Some vb) \<Rightarrow> or_unhandled (diff_pipelines safe_load (pv_yaml_config va) (pv_yaml_config vb) a b)
           | _ \<Rightarrow> Inl version_not_found))"

text \<open>Versions that other sessions insert meanwhile are given for each attempt.\<close>

definition restore_version ::
    "(string \<Rightarrow> pyval result) \<Rightarrow> (nat \<Rightarrow> pipeline_version list) \<Rightarrow> account \<Rightarrow> string \<Rightarrow> int \<Rightarrow> api_db \<Rightarrow> api_db \<times> pipeline_version answer" where
  "restore_version safe_load inserted user name n db =
     (case check_version_permission user name [OWNER, RUNNER] db of
        Inl e \<Rightarrow> (db, Inl e)
      | Inr _ \<Rightarrow>
          (case find_version name n db of
             None \<Rightarrow> (db, Inl version_not_found)
           | Some v \<Rightarrow>
               (case save_version safe_load inserted name (pv_yaml_config v) None 5 (db_versions db) of
                  (rows, r) \<Rightarrow> (db\<lparr>db_versions := rows\<rparr>, or_unhandled r))))"

section \<open>Rows of a name\<close>

text \<open>All that the checks look at.\<close>

definition rows_of :: "string \<Rightarrow> api_db \<Rightarrow> grant_row list \<times> contract_row list \<times> (run_row \<times> uuid option) list" where
  "rows_of name db = (filter (\<lambda>g. gr_pipeline g = name) (db_grants db), filter (\<lambda>c. cr_pipeline c = name) (db_contracts db),
     filter (\<lambda>r. rw_name (fst r) = name) (db_runs db))"

definition standing :: "api_db \<Rightarrow> string \<Rightarrow> uuid \<Rightarrow> bool" where
  "standing db name u \<longleftrightarrow> grant_of db name u \<noteq> None \<or> owns_contract db name u"

definition keys_ok :: "api_db \<Rightarrow> bool" where
  "keys_ok db \<longleftrightarrow> distinct (map gr_id (db_grants db)) \<and> distinct (map (\<lambda>g. (gr_pipeline g, gr_user g)) (db_grants db)) \<and>
     distinct (map cr_id (db_contracts db)) \<and> distinct (map (rw_id \<circ> fst) (db_runs db))"

definition fresh_id :: "uuid \<Rightarrow> api_db \<Rightarrow> bool" where
  "fresh_id i db \<longleftrightarrow> i \<notin> gr_id ` set (db_grants db) \<and> i \<notin> cr_id ` set (db_contracts db) \<and>
     uuid_text i \<notin> (rw_id \<circ> fst) ` set (db_runs db)"

lemma find_filter: "find P (filter Q xs) = find (\<lambda>x. Q x \<and> P x) xs"
  by (induction xs) auto

lemma find_SomeD: "find P xs = Some x \<Longrightarrow> x \<in> set xs \<and> P x"
  by (auto simp: find_Some_iff)

lemma list_ex_filter: "list_ex P (filter Q xs) \<longleftrightarrow> list_ex (\<lambda>x. Q x \<and> P x) xs"
  by (auto simp: list_ex_iff)

lemma grant_of_find: "grant_of db name u = find (\<lambda>g. gr_user g = u) (fst (rows_of name db))"
  by (simp add: rows_of_def grant_of_def find_filter)

lemma owns_contract_ex: "owns_contract db name u \<longleftrightarrow> list_ex (\<lambda>c. cr_user c = u) (fst (snd (rows_of name db)))"
  by (simp add: rows_of_def owns_contract_def list_ex_filter)

lemma require_owner_ex: "require_owner db name a \<longleftrightarrow>
    list_ex (\<lambda>g. gr_user g = us_id a \<and> gr_level g = OWNER) (fst (rows_of name db)) \<or> us_role a = ''admin''"
  by (simp add: rows_of_def require_owner_def list_ex_filter)

lemma name_in_use_ex: "name_in_use db name \<longleftrightarrow> rows_of name db \<noteq> ([], [], [])"
  by (auto simp: rows_of_def name_in_use_def filter_empty_conv list_ex_iff)

lemma standing_rows: "rows_of name db = rows_of name db' \<Longrightarrow> standing db name u = standing db' name u"
  by (simp add: standing_def grant_of_find owns_contract_ex)

text \<open>What all checks have in common: the administrator passes, a stranger to a name in use does not, and only the rows of the name count.\<close>

locale permission_check =
  fixes passes :: "account \<Rightarrow> string \<Rightarrow> api_db \<Rightarrow> bool"
  assumes admin: "us_role a = ''admin'' \<Longrightarrow> passes a name db"
    and stranger: "us_role a \<noteq> ''admin'' \<Longrightarrow> \<not> standing db name (us_id a) \<Longrightarrow> name_in_use db name \<Longrightarrow> \<not> passes a name db"
    and rows_only: "rows_of name db = rows_of name db' \<Longrightarrow> passes a name db = passes a name db'"
begin

lemma passes_standing: "passes a name db \<Longrightarrow> name_in_use db name \<Longrightarrow> us_role a = ''admin'' \<or> standing db name (us_id a)"
  using stranger by blast

lemma stranger_after:
  assumes "rows_of name db = rows_of name db'" and "us_role a \<noteq> ''admin''" and "\<not> standing db name (us_id a)" and "name_in_use db name"
  shows "\<not> passes a name db'"
  using assms stranger rows_only by blast

end

definition check_answered :: "api_db \<times> 'a answer \<Rightarrow> bool" where
  "check_answered r \<longleftrightarrow> (case snd r of Inl _ \<Rightarrow> False | Inr _ \<Rightarrow> True)"

lemma require_owner_standing: "require_owner db name a \<Longrightarrow> us_role a \<noteq> ''admin'' \<Longrightarrow> standing db name (us_id a)"
  by (auto simp: require_owner_def standing_def grant_of_def find_None_iff list_ex_iff)

interpretation owner_check: permission_check "\<lambda>a name db. require_owner db name a"
proof
  fix a name and db db' :: api_db
  show "us_role a = ''admin'' \<Longrightarrow> require_owner db name a" by (simp add: require_owner_def)
  show "us_role a \<noteq> ''admin'' \<Longrightarrow> \<not> standing db name (us_id a) \<Longrightarrow> name_in_use db name \<Longrightarrow> \<not> require_owner db name a"
    using require_owner_standing by blast
  show "rows_of name db = rows_of name db' \<Longrightarrow> require_owner db name a = require_owner db' name a"
    by (simp add: require_owner_ex)
qed

interpretation run_check: permission_check "\<lambda>a name db. check_answered (check_pipeline_permission a name levels grant_owner db)"
proof
  fix a name and db db' :: api_db
  show "us_role a = ''admin'' \<Longrightarrow> check_answered (check_pipeline_permission a name levels grant_owner db)"
    by (simp add: check_pipeline_permission_def check_answered_def)
  show "us_role a \<noteq> ''admin'' \<Longrightarrow> \<not> standing db name (us_id a) \<Longrightarrow> name_in_use db name \<Longrightarrow>
      \<not> check_answered (check_pipeline_permission a name levels grant_owner db)"
    by (simp add: check_pipeline_permission_def check_answered_def standing_def split: option.splits)
  assume "rows_of name db = rows_of name db'"
  then show "check_answered (check_pipeline_permission a name levels grant_owner db) = check_answered (check_pipeline_permission a name levels grant_owner db')"
    by (simp add: check_pipeline_permission_def check_answered_def grant_of_find owns_contract_ex name_in_use_ex split: option.splits)
qed

interpretation version_check: permission_check "\<lambda>a name db. check_version_permission a name levels db = Inr ()"
proof
  fix a name and db db' :: api_db
  show "us_role a = ''admin'' \<Longrightarrow> check_version_permission a name levels db = Inr ()"
    by (simp add: check_version_permission_def)
  show "us_role a \<noteq> ''admin'' \<Longrightarrow> \<not> standing db name (us_id a) \<Longrightarrow> name_in_use db name \<Longrightarrow>
      check_version_permission a name levels db \<noteq> Inr ()"
    by (simp add: check_version_permission_def standing_def)
  assume "rows_of name db = rows_of name db'"
  then show "(check_version_permission a name levels db = Inr ()) = (check_version_permission a name levels db' = Inr ())"
    by (simp add: check_version_permission_def grant_of_find)
qed

interpretation contract_check: permission_check "\<lambda>a name db. ensure_pipeline_contract_access a name levels allow_new db"
proof
  fix a name and db db' :: api_db
  show "us_role a = ''admin'' \<Longrightarrow> ensure_pipeline_contract_access a name levels allow_new db"
    by (simp add: ensure_pipeline_contract_access_def)
  show "us_role a \<noteq> ''admin'' \<Longrightarrow> \<not> standing db name (us_id a) \<Longrightarrow> name_in_use db name \<Longrightarrow>
      \<not> ensure_pipeline_contract_access a name levels allow_new db"
    by (simp add: ensure_pipeline_contract_access_def standing_def)
  assume "rows_of name db = rows_of name db'"
  then show "ensure_pipeline_contract_access a name levels allow_new db = ensure_pipeline_contract_access a name levels allow_new db'"
    by (simp add: ensure_pipeline_contract_access_def grant_of_find owns_contract_ex name_in_use_ex)
qed

section \<open>What the operations change\<close>

named_theorems access_simps \<open>how the primitive changes act on the rows of a name\<close>

lemma filter_map_other:
  assumes "distinct (map k xs)" and "x \<in> set xs" and "\<not> P x" and "\<And>y. P (f y) = P y"
  shows "filter P (map (\<lambda>y. if k y = k x then f y else y) xs) = filter P xs"
proof -
  have "(\<lambda>y. if k y = k x then f y else y) y = y" if "y \<in> set (filter P xs)" for y
    using that assms(1-3) by (auto simp: distinct_map dest: inj_onD)
  then have "map (\<lambda>y. if k y = k x then f y else y) (filter P xs) = filter P xs" by (intro map_idI) auto
  moreover have "filter P (map (\<lambda>y. if k y = k x then f y else y) xs) = map (\<lambda>y. if k y = k x then f y else y) (filter P xs)"
    using assms(4) by (induction xs) auto
  ultimately show ?thesis by simp
qed

lemma filter_delete_other:
  assumes "distinct (map k xs)" and "x \<in> set xs" and "\<not> P x"
  shows "filter P (filter (\<lambda>y. k y \<noteq> k x) xs) = filter P xs"
  using assms unfolding filter_filter by (intro filter_cong) (auto simp: distinct_map dest: inj_onD)

lemma grant_of_Some: "grant_of db name u = Some g \<Longrightarrow> g \<in> set (db_grants db) \<and> gr_pipeline g = name \<and> gr_user g = u"
  by (auto simp: grant_of_def dest: find_SomeD)

lemma grant_of_None: "grant_of db name u = None \<longleftrightarrow> (\<forall>g \<in> set (db_grants db). gr_pipeline g = name \<longrightarrow> gr_user g \<noteq> u)"
  by (auto simp: grant_of_def find_None_iff)

lemma standing_iff: "standing db name u \<longleftrightarrow> (\<exists>g \<in> set (db_grants db). gr_pipeline g = name \<and> gr_user g = u) \<or>
    (\<exists>c \<in> set (db_contracts db). cr_pipeline c = name \<and> cr_user c = u)"
  by (auto simp: standing_def grant_of_None owns_contract_def list_ex_iff simp del: not_None_eq)

lemma log_action_rows [access_simps]:
  "rows_of m (log_action act a ty i ds db) = rows_of m db" "keys_ok (log_action act a ty i ds db) = keys_ok db"
  "standing (log_action act a ty i ds db) m u = standing db m u" "fresh_id j (log_action act a ty i ds db) = fresh_id j db"
  by (simp_all add: log_action_def rows_of_def keys_ok_def standing_iff fresh_id_def)

lemma add_grant_rows [access_simps]:
  "m \<noteq> gr_pipeline g \<Longrightarrow> rows_of m (add_grant g db) = rows_of m db"
  "standing (add_grant g db) m u \<longleftrightarrow> standing db m u \<or> (gr_pipeline g = m \<and> gr_user g = u)"
  by (auto simp: add_grant_def rows_of_def standing_iff)

lemma add_grant_keys:
  "keys_ok db \<Longrightarrow> fresh_id (gr_id g) db \<Longrightarrow> grant_of db (gr_pipeline g) (gr_user g) = None \<Longrightarrow> keys_ok (add_grant g db)"
  by (auto simp: add_grant_def keys_ok_def fresh_id_def grant_of_None)

lemma map_level [simp]: "map k (map (\<lambda>g. if gr_id g = i then g\<lparr>gr_level := l\<rparr> else g) gs) = map k gs"
  if "\<And>g. k (g\<lparr>gr_level := l\<rparr>) = k g" for k
  using that by (induction gs) auto

lemma set_level_rows [access_simps]:
  "standing (set_level i l db) m u \<longleftrightarrow> standing db m u" "keys_ok (set_level i l db) \<longleftrightarrow> keys_ok db" "fresh_id j (set_level i l db) \<longleftrightarrow> fresh_id j db"
proof -
  let ?f = "\<lambda>g. if gr_id g = i then g\<lparr>gr_level := l\<rparr> else g"
  have ids: "map gr_id (map ?f (db_grants db)) = map gr_id (db_grants db)"
    "map (\<lambda>g. (gr_pipeline g, gr_user g)) (map ?f (db_grants db)) = map (\<lambda>g. (gr_pipeline g, gr_user g)) (db_grants db)"
    by (rule map_level, simp)+
  then show "keys_ok (set_level i l db) \<longleftrightarrow> keys_ok db" by (simp add: keys_ok_def set_level_def del: map_map)
  from ids(1) have "gr_id ` set (map ?f (db_grants db)) = gr_id ` set (db_grants db)" by (metis list.set_map)
  then show "fresh_id j (set_level i l db) \<longleftrightarrow> fresh_id j db" by (simp add: fresh_id_def set_level_def del: set_map list.set_map)
  have "standing db' m u \<longleftrightarrow> (m, u) \<in> set (map (\<lambda>g. (gr_pipeline g, gr_user g)) (db_grants db')) \<or>
      (\<exists>c \<in> set (db_contracts db'). cr_pipeline c = m \<and> cr_user c = u)" for db'
    by (force simp: standing_iff)
  then show "standing (set_level i l db) m u \<longleftrightarrow> standing db m u"
    using ids(2) by (simp add: set_level_def del: map_map set_map list.set_map)
qed

lemma set_level_other:
  "keys_ok db \<Longrightarrow> g \<in> set (db_grants db) \<Longrightarrow> m \<noteq> gr_pipeline g \<Longrightarrow> rows_of m (set_level (gr_id g) l db) = rows_of m db"
  using filter_map_other [of gr_id "db_grants db" g "\<lambda>g. gr_pipeline g = m" "\<lambda>g. g\<lparr>gr_level := l\<rparr>"]
  by (auto simp: rows_of_def set_level_def keys_ok_def)

lemma distinct_map_filter_sub: "distinct (map k xs) \<Longrightarrow> distinct (map k (filter P xs))"
  by (induction xs) auto

text \<open>Granting and revoking.\<close>

lemma grant_cases:
  obtains e where "grant_permission i a name target lv db = (db, Inl e)"
  | l u g where "grant_permission i a name target lv db = (set_level (gr_id g) l db, Inr (g\<lparr>gr_level := l\<rparr>))"
      "require_owner db name a" "level_of (py_lower (py_strip lv)) = Some l" "py_uuid target = Some u" "grant_of db name u = Some g"
  | l u where "grant_permission i a name target lv db = (log_action ''permission_granted'' a ''pipeline_permission'' i
        [(''pipeline_name'', name), (''target_user'', target), (''level'', py_lower (py_strip lv))]
        (add_grant \<lparr>gr_id = i, gr_pipeline = name, gr_user = u, gr_level = l\<rparr> db), Inr \<lparr>gr_id = i, gr_pipeline = name, gr_user = u, gr_level = l\<rparr>)"
      "require_owner db name a" "level_of (py_lower (py_strip lv)) = Some l" "py_uuid target = Some u" "grant_of db name u = None"
proof (cases "require_owner db name a \<and> level_of (py_lower (py_strip lv)) \<noteq> None \<and> py_uuid target \<noteq> None")
  case False
  then have "\<exists>e. grant_permission i a name target lv db = (db, Inl e)"
    by (cases "py_uuid target"; cases "level_of (py_lower (py_strip lv))") (auto simp: grant_permission_def Let_def)
  with that(1) show thesis by blast
next
  case True
  then obtain l u where "level_of (py_lower (py_strip lv)) = Some l" "py_uuid target = Some u" "require_owner db name a" by auto
  with that show thesis
    by (cases "find_user db u"; cases "grant_of db name u"; cases "fits_column name") (auto simp: grant_permission_def Let_def)
qed

lemma revoke_cases:
  obtains e where "revoke_permission a name target db = (db, Inl e)"
  | u g where "revoke_permission a name target db = (log_action ''permission_revoked'' a ''pipeline_permission'' u
        [(''pipeline_name'', name), (''target_user'', target)]
        (db\<lparr>db_grants := filter (\<lambda>h. gr_id h \<noteq> gr_id g) (db_grants db)\<rparr>),
        Inr (''Permission revoked for user '' @ quoted target @ '' on pipeline '' @ quoted name))"
      "require_owner db name a" "py_uuid target = Some u" "grant_of db name u = Some g"
  using that by (cases "require_owner db name a"; cases "py_uuid target"; cases "grant_of db name (the (py_uuid target))")
    (auto simp: revoke_permission_def)

lemma grant_permission_effect:
  assumes "keys_ok db"
  shows "m \<noteq> name \<Longrightarrow> rows_of m (fst (grant_permission i a name target lv db)) = rows_of m db"
    and "fresh_id i db \<Longrightarrow> keys_ok (fst (grant_permission i a name target lv db))"
    and "standing (fst (grant_permission i a name target lv db)) m u \<Longrightarrow> \<not> standing db m u \<Longrightarrow> m = name \<and> py_uuid target = Some u"
    and "us_role a \<noteq> ''admin'' \<Longrightarrow> \<not> standing db name (us_id a) \<Longrightarrow> fst (grant_permission i a name target lv db) = db"
  using assms
  by (cases rule: grant_cases [of i a name target lv db];
      auto simp: access_simps set_level_other add_grant_keys dest: grant_of_Some require_owner_standing)+

lemma delete_grant_effect:
  assumes "keys_ok db" and "g \<in> set (db_grants db)"
  shows "m \<noteq> gr_pipeline g \<Longrightarrow> rows_of m (db\<lparr>db_grants := filter (\<lambda>h. gr_id h \<noteq> gr_id g) (db_grants db)\<rparr>) = rows_of m db"
    and "keys_ok (db\<lparr>db_grants := filter (\<lambda>h. gr_id h \<noteq> gr_id g) (db_grants db)\<rparr>)"
    and "standing (db\<lparr>db_grants := filter (\<lambda>h. gr_id h \<noteq> gr_id g) (db_grants db)\<rparr>) m u \<Longrightarrow> standing db m u"
  using assms filter_delete_other [of gr_id "db_grants db" g "\<lambda>g. gr_pipeline g = m"]
  by (auto simp: rows_of_def keys_ok_def standing_iff distinct_map_filter_sub)

lemma revoke_permission_effect:
  assumes "keys_ok db"
  shows "m \<noteq> name \<Longrightarrow> rows_of m (fst (revoke_permission a name target db)) = rows_of m db"
    and "keys_ok (fst (revoke_permission a name target db))"
    and "standing (fst (revoke_permission a name target db)) m u \<Longrightarrow> standing db m u"
    and "us_role a \<noteq> ''admin'' \<Longrightarrow> \<not> standing db name (us_id a) \<Longrightarrow> fst (revoke_permission a name target db) = db"
  using assms
  by (cases rule: revoke_cases [of a name target db];
      auto simp: access_simps delete_grant_effect dest: grant_of_Some require_owner_standing)+

text \<open>Contracts.\<close>

lemma find_contract_Inr: "find_contract row_id a name i db = Inr c \<Longrightarrow> c \<in> set (db_contracts db) \<and> cr_pipeline c = name"
  by (auto simp: find_contract_def contract_query_def dest: find_SomeD split: option.splits)

lemma add_contract_effect:
  "m \<noteq> cr_pipeline c \<Longrightarrow> rows_of m (db\<lparr>db_contracts := db_contracts db @ [c]\<rparr>) = rows_of m db"
  "keys_ok db \<Longrightarrow> fresh_id (cr_id c) db \<Longrightarrow> keys_ok (db\<lparr>db_contracts := db_contracts db @ [c]\<rparr>)"
  "standing (db\<lparr>db_contracts := db_contracts db @ [c]\<rparr>) m u \<longleftrightarrow> standing db m u \<or> (m = cr_pipeline c \<and> u = cr_user c)"
  by (auto simp: rows_of_def keys_ok_def fresh_id_def standing_iff)

definition deactivated :: "uuid \<Rightarrow> api_db \<Rightarrow> api_db" where
  "deactivated i db = db\<lparr>db_contracts := map (\<lambda>r. if cr_id r = i then r\<lparr>cr_active := False\<rparr> else r) (db_contracts db)\<rparr>"

lemma deactivated_effect:
  assumes "keys_ok db" and "c \<in> set (db_contracts db)"
  shows "m \<noteq> cr_pipeline c \<Longrightarrow> rows_of m (deactivated (cr_id c) db) = rows_of m db"
    and "keys_ok (deactivated (cr_id c) db)"
    and "standing (deactivated (cr_id c) db) m u \<longleftrightarrow> standing db m u"
    and "fresh_id j (deactivated (cr_id c) db) \<longleftrightarrow> fresh_id j db"
proof -
  let ?f = "\<lambda>r. if cr_id r = cr_id c then r\<lparr>cr_active := False\<rparr> else r"
  show "m \<noteq> cr_pipeline c \<Longrightarrow> rows_of m (deactivated (cr_id c) db) = rows_of m db"
    using filter_map_other [of cr_id "db_contracts db" c "\<lambda>c. cr_pipeline c = m" "\<lambda>c. c\<lparr>cr_active := False\<rparr>"] assms
    by (simp add: rows_of_def deactivated_def keys_ok_def)
  have ids: "map cr_id (map ?f (db_contracts db)) = map cr_id (db_contracts db)"
    "map (\<lambda>c. (cr_pipeline c, cr_user c)) (map ?f (db_contracts db)) = map (\<lambda>c. (cr_pipeline c, cr_user c)) (db_contracts db)"
    by auto
  then show "keys_ok (deactivated (cr_id c) db)" using assms(1) by (simp add: keys_ok_def deactivated_def del: map_map)
  from ids(1) have "cr_id ` set (map ?f (db_contracts db)) = cr_id ` set (db_contracts db)" by (metis list.set_map)
  then show "fresh_id j (deactivated (cr_id c) db) \<longleftrightarrow> fresh_id j db"
    by (simp add: fresh_id_def deactivated_def del: set_map list.set_map)
  have "standing db' m u \<longleftrightarrow> (\<exists>g \<in> set (db_grants db'). gr_pipeline g = m \<and> gr_user g = u) \<or>
      (m, u) \<in> set (map (\<lambda>c. (cr_pipeline c, cr_user c)) (db_contracts db'))" for db'
    by (force simp: standing_iff)
  then show "standing (deactivated (cr_id c) db) m u \<longleftrightarrow> standing db m u"
    using ids(2) by (simp add: deactivated_def del: map_map set_map list.set_map)
qed

lemma create_cases:
  obtains e where "create_contract i a name y sev cons db = (db, Inl e)"
  | v where "create_contract i a name y sev cons db =
        (db\<lparr>db_contracts := db_contracts db @ [new_contract i a name v y sev cons]\<rparr>, Inr (new_contract i a name v y sev cons))"
      "ensure_pipeline_contract_access a name [OWNER] True db" "fits_column name"
  using that by (cases "ensure_pipeline_contract_access a name [OWNER] True db"; cases "fits_column name") (auto simp: create_contract_def Let_def)

lemma update_cases:
  obtains e where "update_contract row_id i a name t y sev cons db = (db, Inl e)"
  | old v where "update_contract row_id i a name t y sev cons db =
        ((deactivated (cr_id old) db)\<lparr>db_contracts := db_contracts (deactivated (cr_id old) db) @ [new_contract i a name v y sev cons]\<rparr>,
         Inr (new_contract i a name v y sev cons))"
      "ensure_pipeline_contract_access a name [OWNER] False db" "find_contract row_id a name t db = Inr old" "v = cr_version old + 1"
proof (cases "ensure_pipeline_contract_access a name [OWNER] False db \<and> (\<exists>old. find_contract row_id a name t db = Inr old)")
  case True
  then obtain old where "ensure_pipeline_contract_access a name [OWNER] False db" "find_contract row_id a name t db = Inr old" by blast
  then show thesis using that(2) [of old "cr_version old + 1"] by (simp add: update_contract_def deactivated_def Let_def)
next
  case False
  then have "\<exists>e. update_contract row_id i a name t y sev cons db = (db, Inl e)"
    by (cases "find_contract row_id a name t db") (auto simp: update_contract_def)
  with that(1) show thesis by blast
qed

lemma delete_cases:
  obtains e where "delete_contract row_id a name t db = (db, Inl e)"
  | c where "delete_contract row_id a name t db = (db\<lparr>db_contracts := filter (\<lambda>r. cr_id r \<noteq> cr_id c) (db_contracts db)\<rparr>, Inr ())"
      "ensure_pipeline_contract_access a name [OWNER] False db" "find_contract row_id a name t db = Inr c"
  using that by (cases "ensure_pipeline_contract_access a name [OWNER] False db"; cases "find_contract row_id a name t db")
    (auto simp: delete_contract_def)

lemma new_contract_sel [simp]:
  "cr_id (new_contract i a name v y sev cons) = i" "cr_pipeline (new_contract i a name v y sev cons) = name"
  "cr_user (new_contract i a name v y sev cons) = us_id a"
  by (simp_all add: new_contract_def)

lemma create_contract_effect:
  assumes "keys_ok db"
  shows "m \<noteq> name \<Longrightarrow> rows_of m (fst (create_contract i a name y sev cons db)) = rows_of m db"
    and "fresh_id i db \<Longrightarrow> keys_ok (fst (create_contract i a name y sev cons db))"
    and "standing (fst (create_contract i a name y sev cons db)) m u \<Longrightarrow> \<not> standing db m u \<Longrightarrow> m = name \<and> u = us_id a"
    and "us_role a \<noteq> ''admin'' \<Longrightarrow> \<not> standing db name (us_id a) \<Longrightarrow> name_in_use db name \<Longrightarrow>
      fst (create_contract i a name y sev cons db) = db"
  using assms
  by (cases rule: create_cases [of i a name y sev cons db]; auto simp: add_contract_effect dest: contract_check.stranger)+

lemma update_contract_effect:
  assumes "keys_ok db"
  shows "m \<noteq> name \<Longrightarrow> rows_of m (fst (update_contract row_id i a name t y sev cons db)) = rows_of m db"
    and "fresh_id i db \<Longrightarrow> keys_ok (fst (update_contract row_id i a name t y sev cons db))"
    and "standing (fst (update_contract row_id i a name t y sev cons db)) m u \<Longrightarrow> \<not> standing db m u \<Longrightarrow> m = name \<and> u = us_id a"
    and "us_role a \<noteq> ''admin'' \<Longrightarrow> \<not> standing db name (us_id a) \<Longrightarrow> name_in_use db name \<Longrightarrow>
      fst (update_contract row_id i a name t y sev cons db) = db"
  using assms
  by (cases rule: update_cases [of row_id i a name t y sev cons db];
      auto simp: add_contract_effect deactivated_effect dest: find_contract_Inr contract_check.stranger)+

lemma delete_contract_effect:
  assumes "keys_ok db"
  shows "m \<noteq> name \<Longrightarrow> rows_of m (fst (delete_contract row_id a name t db)) = rows_of m db"
    and "keys_ok (fst (delete_contract row_id a name t db))"
    and "standing (fst (delete_contract row_id a name t db)) m u \<Longrightarrow> standing db m u"
    and "us_role a \<noteq> ''admin'' \<Longrightarrow> \<not> standing db name (us_id a) \<Longrightarrow> name_in_use db name \<Longrightarrow>
      fst (delete_contract row_id a name t db) = db"
proof -
  have del: "(m \<noteq> cr_pipeline c \<longrightarrow> rows_of m (db\<lparr>db_contracts := filter (\<lambda>r. cr_id r \<noteq> cr_id c) (db_contracts db)\<rparr>) = rows_of m db) \<and>
      keys_ok (db\<lparr>db_contracts := filter (\<lambda>r. cr_id r \<noteq> cr_id c) (db_contracts db)\<rparr>) \<and>
      (standing (db\<lparr>db_contracts := filter (\<lambda>r. cr_id r \<noteq> cr_id c) (db_contracts db)\<rparr>) m u \<longrightarrow> standing db m u)"
    if "c \<in> set (db_contracts db)" for c
    using assms that filter_delete_other [of cr_id "db_contracts db" c "\<lambda>c. cr_pipeline c = m"]
    by (auto simp: rows_of_def keys_ok_def standing_iff distinct_map_filter_sub)
  show "m \<noteq> name \<Longrightarrow> rows_of m (fst (delete_contract row_id a name t db)) = rows_of m db"
    and "keys_ok (fst (delete_contract row_id a name t db))"
    and "standing (fst (delete_contract row_id a name t db)) m u \<Longrightarrow> standing db m u"
    and "us_role a \<noteq> ''admin'' \<Longrightarrow> \<not> standing db name (us_id a) \<Longrightarrow> name_in_use db name \<Longrightarrow>
      fst (delete_contract row_id a name t db) = db"
    using assms
    by (cases rule: delete_cases [of row_id a name t db]; auto simp: del dest!: find_contract_Inr dest: contract_check.stranger)+
qed

text \<open>The check of \<^verbatim>\<open>api/pipelines.py\<close>.\<close>

lemma check_cases:
  obtains r where "check_pipeline_permission a name levels gr db = (db, r)"
  | i where "check_pipeline_permission a name levels gr db =
        (add_grant \<lparr>gr_id = i, gr_pipeline = name, gr_user = us_id a, gr_level = OWNER\<rparr> db, Inr ())"
      "gr = Some i" "\<not> name_in_use db name" "us_role a \<noteq> ''admin''"
proof -
  have "(\<exists>r. check_pipeline_permission a name levels gr db = (db, r)) \<or>
      (\<exists>i. check_pipeline_permission a name levels gr db =
        (add_grant \<lparr>gr_id = i, gr_pipeline = name, gr_user = us_id a, gr_level = OWNER\<rparr> db, Inr ()) \<and>
        gr = Some i \<and> \<not> name_in_use db name \<and> us_role a \<noteq> ''admin'')"
    by (simp add: check_pipeline_permission_def split: option.splits)
  with that show thesis by blast
qed

lemma check_pipeline_permission_effect:
  assumes "keys_ok db"
  shows "m \<noteq> name \<Longrightarrow> rows_of m (fst (check_pipeline_permission a name levels gr db)) = rows_of m db"
    and "\<forall>i. gr = Some i \<longrightarrow> fresh_id i db \<Longrightarrow> keys_ok (fst (check_pipeline_permission a name levels gr db))"
    and "standing (fst (check_pipeline_permission a name levels gr db)) m u \<Longrightarrow> \<not> standing db m u \<Longrightarrow>
      m = name \<and> u = us_id a \<and> \<not> name_in_use db name"
    and "name_in_use db name \<Longrightarrow> fst (check_pipeline_permission a name levels gr db) = db"
  using assms
  by (cases rule: check_cases [of a name levels gr db];
      auto simp: access_simps name_in_use_def grant_of_None list_ex_iff intro!: add_grant_keys)+

section \<open>Grants as a map\<close>

text \<open>The specification: a map from names and users to levels.\<close>

definition levels :: "api_db \<Rightarrow> string \<times> uuid \<Rightarrow> permission_level option" where
  "levels db k = map_option gr_level (grant_of db (fst k) (snd k))"

lemma levels_iff: "keys_ok db \<Longrightarrow> levels db (m, u) = Some l \<longleftrightarrow>
    (\<exists>g \<in> set (db_grants db). gr_pipeline g = m \<and> gr_user g = u \<and> gr_level g = l)"
proof -
  assume keys: "keys_ok db"
  have unique: "g = h" if "g \<in> set (db_grants db)" "h \<in> set (db_grants db)" "gr_pipeline g = gr_pipeline h" "gr_user g = gr_user h" for g h
    using keys that by (auto simp: keys_ok_def distinct_map dest: inj_onD)
  show ?thesis
  proof
    assume "levels db (m, u) = Some l"
    then show "\<exists>g \<in> set (db_grants db). gr_pipeline g = m \<and> gr_user g = u \<and> gr_level g = l"
      by (auto simp: levels_def dest: grant_of_Some)
  next
    assume "\<exists>g \<in> set (db_grants db). gr_pipeline g = m \<and> gr_user g = u \<and> gr_level g = l"
    then obtain g where g: "g \<in> set (db_grants db)" "gr_pipeline g = m" "gr_user g = u" "gr_level g = l" by blast
    then obtain h where h: "grant_of db m u = Some h" using grant_of_None [of db m u] by (cases "grant_of db m u") auto
    then have "h = g" using grant_of_Some [OF h] g unique by metis
    with h g(4) show "levels db (m, u) = Some l" by (simp add: levels_def)
  qed
qed

lemma option_eqI: "(\<And>l. a = Some l \<longleftrightarrow> b = Some l) \<Longrightarrow> a = b"
  by (cases a; cases b) auto

lemma levels_eqI:
  assumes "keys_ok db" and "\<And>m u l. (\<exists>g \<in> set (db_grants db). gr_pipeline g = m \<and> gr_user g = u \<and> gr_level g = l) \<longleftrightarrow> f (m, u) = Some l"
  shows "levels db = f"
proof (intro ext)
  fix k :: "string \<times> uuid"
  obtain m u where k: "k = (m, u)" by (cases k)
  have "levels db (m, u) = Some l \<longleftrightarrow> f (m, u) = Some l" for l
    using levels_iff [OF assms(1), of m u l] assms(2) [of m u l] by simp
  then show "levels db k = f k" unfolding k by (rule option_eqI)
qed

lemma levels_log [simp]: "levels (log_action act a ty i ds db) = levels db"
  by (auto simp: levels_def grant_of_def log_action_def)

lemma bex_map: "(\<exists>y \<in> set (map f xs). P y) \<longleftrightarrow> (\<exists>x \<in> set xs. P (f x))"
  by auto

lemma levels_grant:
  assumes keys: "keys_ok db" and "fresh_id i db" and "grant_permission i a name target lv db = (db', Inr g)"
  shows "require_owner db name a \<and>
    (\<exists>l u. level_of (py_lower (py_strip lv)) = Some l \<and> py_uuid target = Some u \<and> levels db' = (levels db)((name, u) \<mapsto> l))"
proof (cases rule: grant_cases [of i a name target lv db])
  case (1 e)
  with assms(3) show ?thesis by simp
next
  case (2 l u h)
  have h: "h \<in> set (db_grants db)" "gr_pipeline h = name" "gr_user h = u" using grant_of_Some [OF 2(5)] by auto
  have db': "db' = set_level (gr_id h) l db" using 2(1) assms(3) by simp
  have unique: "x = h" if "x \<in> set (db_grants db)" "gr_id x = gr_id h \<or> (gr_pipeline x = name \<and> gr_user x = u)" for x
    using keys h that by (auto simp: keys_ok_def distinct_map dest: inj_onD)
  have "levels db' = (levels db)((name, u) \<mapsto> l)"
  proof (rule levels_eqI)
    show "keys_ok db'" by (simp add: db' access_simps keys)
    have grants: "db_grants db' = map (\<lambda>g. if gr_id g = gr_id h then g\<lparr>gr_level := l\<rparr> else g) (db_grants db)"
      by (simp add: db' set_level_def)
    fix m v l'
    have "(\<exists>x \<in> set (db_grants db'). gr_pipeline x = m \<and> gr_user x = v \<and> gr_level x = l') \<longleftrightarrow>
        (\<exists>x \<in> set (db_grants db). gr_pipeline x = m \<and> gr_user x = v \<and> (if gr_id x = gr_id h then l else gr_level x) = l')"
      unfolding grants bex_map by (rule bex_cong) auto
    also have "\<dots> \<longleftrightarrow> (if m = name \<and> v = u then l' = l else levels db (m, v) = Some l')"
      using unique h levels_iff [OF keys, of m v l'] by (metis (full_types))
    finally show "(\<exists>x \<in> set (db_grants db'). gr_pipeline x = m \<and> gr_user x = v \<and> gr_level x = l') \<longleftrightarrow>
        ((levels db)((name, u) \<mapsto> l)) (m, v) = Some l'" by auto
  qed
  with 2 show ?thesis by blast
next
  case (3 l u)
  let ?g = "\<lparr>gr_id = i, gr_pipeline = name, gr_user = u, gr_level = l\<rparr>"
  have "levels (add_grant ?g db) = (levels db)((name, u) \<mapsto> l)"
  proof (rule levels_eqI)
    show "keys_ok (add_grant ?g db)" using keys assms(2) 3(5) by (simp add: add_grant_keys)
    fix m v l'
    show "(\<exists>x \<in> set (db_grants (add_grant ?g db)). gr_pipeline x = m \<and> gr_user x = v \<and> gr_level x = l') \<longleftrightarrow>
        ((levels db)((name, u) \<mapsto> l)) (m, v) = Some l'"
      using 3(5) levels_iff [OF keys, of m v l'] by (cases "m = name \<and> v = u") (simp add: add_grant_def grant_of_None, blast)+
  qed
  with 3 assms(3) show ?thesis by auto
qed

lemma levels_revoke:
  assumes keys: "keys_ok db" and "revoke_permission a name target db = (db', Inr msg)"
  shows "require_owner db name a \<and>
    (\<exists>u. py_uuid target = Some u \<and> levels db (name, u) \<noteq> None \<and> levels db' = (levels db)((name, u) := None))"
proof (cases rule: revoke_cases [of a name target db])
  case (1 e)
  with assms(2) show ?thesis by simp
next
  case (2 u h)
  have h: "h \<in> set (db_grants db)" "gr_pipeline h = name" "gr_user h = u" using grant_of_Some [OF 2(4)] by auto
  have unique: "x = h" if "x \<in> set (db_grants db)" "gr_id x = gr_id h \<or> (gr_pipeline x = name \<and> gr_user x = u)" for x
    using keys h that by (auto simp: keys_ok_def distinct_map dest: inj_onD)
  let ?db = "db\<lparr>db_grants := filter (\<lambda>x. gr_id x \<noteq> gr_id h) (db_grants db)\<rparr>"
  have "levels ?db = (levels db)((name, u) := None)"
  proof (rule levels_eqI)
    show "keys_ok ?db" by (rule delete_grant_effect(2) [OF keys h(1)])
    fix m v l'
    show "(\<exists>x \<in> set (db_grants ?db). gr_pipeline x = m \<and> gr_user x = v \<and> gr_level x = l') \<longleftrightarrow>
        ((levels db)((name, u) := None)) (m, v) = Some l'"
      using unique h levels_iff [OF keys, of m v l'] by (cases "m = name \<and> v = u") (simp, blast)+
  qed
  with 2 assms(2) show ?thesis by (auto simp: levels_def)
qed

section \<open>Properties\<close>

text \<open>C17.  The rows of grants implement a map from pairs of a name and a user to a level: a granted request, which only an owner or
  an administrator gets, sets one entry to the requested level, a revocation of an entry that is there removes it, everything else changes
  nothing, and the list of the permissions of a name is the graph of the map at that name.\<close>

theorem grants_refine_map:
  assumes "keys_ok db" and "fresh_id i db"
  shows "(case grant_permission i a name target lv db of
      (db', Inl _) \<Rightarrow> db' = db
    | (db', Inr _) \<Rightarrow> require_owner db name a \<and>
        (\<exists>l u. level_of (py_lower (py_strip lv)) = Some l \<and> py_uuid target = Some u \<and> levels db' = (levels db)((name, u) \<mapsto> l))) \<and>
    (case revoke_permission a name target db of
      (db', Inl _) \<Rightarrow> db' = db
    | (db', Inr _) \<Rightarrow> require_owner db name a \<and>
        (\<exists>u. py_uuid target = Some u \<and> levels db (name, u) \<noteq> None \<and> levels db' = (levels db)((name, u) := None))) \<and>
    (case list_permissions a name db of
      Inl _ \<Rightarrow> \<not> require_owner db name a
    | Inr gs \<Rightarrow> distinct (map gr_user gs) \<and> (\<forall>u l. levels db (name, u) = Some l \<longleftrightarrow> (\<exists>g \<in> set gs. gr_user g = u \<and> gr_level g = l)))"
proof (intro conjI)
  have "grant_permission i a name target lv db = (db', Inl e) \<Longrightarrow> db' = db" for db' e
    by (cases rule: grant_cases [of i a name target lv db]) auto
  then show "case grant_permission i a name target lv db of
      (db', Inl _) \<Rightarrow> db' = db
    | (db', Inr _) \<Rightarrow> require_owner db name a \<and>
        (\<exists>l u. level_of (py_lower (py_strip lv)) = Some l \<and> py_uuid target = Some u \<and> levels db' = (levels db)((name, u) \<mapsto> l))"
    using levels_grant [OF assms, of a name target lv] by (simp split: prod.split sum.split)
  have "revoke_permission a name target db = (db', Inl e) \<Longrightarrow> db' = db" for db' e
    by (cases rule: revoke_cases [of a name target db]) auto
  then show "case revoke_permission a name target db of
      (db', Inl _) \<Rightarrow> db' = db
    | (db', Inr _) \<Rightarrow> require_owner db name a \<and>
        (\<exists>u. py_uuid target = Some u \<and> levels db (name, u) \<noteq> None \<and> levels db' = (levels db)((name, u) := None))"
    using levels_revoke [OF assms(1), of a name target] by (simp split: prod.split sum.split)
  have "distinct (map gr_user (filter (\<lambda>g. gr_pipeline g = name) gs))"
    if "distinct (map (\<lambda>g. (gr_pipeline g, gr_user g)) gs)" for gs
    using that by (auto simp: distinct_map inj_on_def)
  then have "distinct (map gr_user (filter (\<lambda>g. gr_pipeline g = name) (db_grants db)))" using assms(1) unfolding keys_ok_def by blast
  then show "case list_permissions a name db of
      Inl _ \<Rightarrow> \<not> require_owner db name a
    | Inr gs \<Rightarrow> distinct (map gr_user gs) \<and> (\<forall>u l. levels db (name, u) = Some l \<longleftrightarrow> (\<exists>g \<in> set gs. gr_user g = u \<and> gr_level g = l))"
    using levels_iff [OF assms(1), of name] by (simp add: list_permissions_def rev_map [symmetric] conj_assoc Bex_def)
qed

text \<open>A name with an owner, a second user, and an administrator.\<close>

definition demo_alice :: account where
  "demo_alice = \<lparr>us_id = 2, us_role = ''viewer''\<rparr>"

definition demo_bob :: account where
  "demo_bob = \<lparr>us_id = 3, us_role = ''viewer''\<rparr>"

definition demo_admin :: account where
  "demo_admin = \<lparr>us_id = 1, us_role = ''admin''\<rparr>"

definition demo_db :: api_db where
  "demo_db = \<lparr>db_users = [demo_admin, demo_alice, demo_bob],
     db_grants = [\<lparr>gr_id = 10, gr_pipeline = ''p'', gr_user = 2, gr_level = OWNER\<rparr>],
     db_contracts = [], db_runs = [], db_versions = [], db_files = [], db_snapshots = [], db_schedules = [], db_audit = [], db_queue = []\<rparr>"

lemma demo_keys: "keys_ok demo_db" "fresh_id 11 demo_db"
  by (simp_all add: keys_ok_def fresh_id_def demo_db_def)

theorem grants_refine_map_witness:
  "levels (fst (grant_permission 11 demo_alice ''p'' (uuid_text 3) '' Runner'' demo_db)) (''p'', 3) = Some RUNNER"
proof -
  have "level_of (py_lower (py_strip '' Runner'')) = Some RUNNER" by code_simp
  moreover have "py_uuid (uuid_text 3) = Some 3" by (rule py_uuid_text) simp
  moreover have "check_answered (grant_permission 11 demo_alice ''p'' (uuid_text 3) '' Runner'' demo_db)" by code_simp
  ultimately show ?thesis using grants_refine_map [OF demo_keys, where a = demo_alice and name = "''p''" and target = "uuid_text 3" and lv = "'' Runner''"]
    by (auto simp: check_answered_def split: prod.splits sum.splits)
qed

section \<open>Where the checks disagree\<close>

text \<open>The owner of a contract who has no grant counts as the owner of the pipeline for its runs, but sees none of its versions and cannot
  give permissions to anybody.\<close>

theorem contract_owner_half_owner:
  assumes "owns_contract db name (us_id a)" and "grant_of db name (us_id a) = None" and "us_role a \<noteq> ''admin''"
  shows "check_pipeline_permission a name ls gr db = (db, Inr ()) \<and> check_version_permission a name ls' db = Inl access_denied \<and>
    snd (grant_permission i a name target lv db) = Inl not_owner"
proof -
  have "\<not> require_owner db name a"
    using assms(2,3) by (auto simp: require_owner_def grant_of_None list_ex_iff)
  with assms show ?thesis by (simp add: check_pipeline_permission_def check_version_permission_def grant_permission_def Let_def)
qed

text \<open>Whoever writes the first contract of a new name is in that position.\<close>

theorem contract_creator_half_owner:
  assumes "us_role a \<noteq> ''admin''" and "\<not> name_in_use db name" and "fits_column name"
  shows "\<exists>db' c. create_contract i a name y sev cons db = (db', Inr c) \<and> owns_contract db' name (us_id a) \<and> grant_of db' name (us_id a) = None"
proof -
  have "grant_of db name (us_id a) = None" using assms(2) by (auto simp: name_in_use_def grant_of_None list_ex_iff)
  then have "\<forall>db'. db_grants db' = db_grants db \<longrightarrow> grant_of db' name (us_id a) = None" by (simp add: grant_of_def)
  with assms show ?thesis
    by (simp add: create_contract_def ensure_pipeline_contract_access_def Let_def owns_contract_def)
qed

text \<open>Nothing keeps the last owner of a pipeline from leaving it; then only administrators manage its permissions.\<close>

theorem last_owner_leaves:
  assumes "keys_ok db" and "require_owner db name a" and "grant_of db name (us_id a) = Some g" and "py_uuid target = Some (us_id a)"
    and "\<And>u. levels db (name, u) = Some OWNER \<Longrightarrow> u = us_id a"
  shows "\<exists>db' msg. revoke_permission a name target db = (db', Inr msg) \<and> (\<forall>b. us_role b \<noteq> ''admin'' \<longrightarrow> \<not> require_owner db' name b)"
proof -
  obtain db' msg where revoked: "revoke_permission a name target db = (db', Inr msg)"
    using assms(2-4) by (simp add: revoke_permission_def)
  with levels_revoke [OF assms(1) revoked] assms(4)
  have levels': "levels db' = (levels db)((name, us_id a) := None)" by auto
  have keys: "keys_ok db'" using revoke_permission_effect(2) [OF assms(1), of a name target] revoked by simp
  have "\<not> require_owner db' name b" if "us_role b \<noteq> ''admin''" for b
  proof
    assume "require_owner db' name b"
    with that have "levels db' (name, us_id b) = Some OWNER"
      by (auto simp: require_owner_def list_ex_iff levels_iff [OF keys])
    with levels' assms(5) [of "us_id b"] show False by (auto split: if_splits)
  qed
  with revoked show ?thesis by blast
qed

text \<open>A new grant is audited, a change of its level is not.\<close>

theorem level_change_not_audited:
  assumes "grant_permission i a name target lv db = (db', Inr g)" and "py_uuid target = Some u"
  shows "db_audit db' = db_audit db \<longleftrightarrow> grant_of db name u \<noteq> None"
  using assms by (cases rule: grant_cases [of i a name target lv db]) (auto simp: set_level_def log_action_def add_grant_def)

text \<open>A contract that is updated twice has two active successors of the same version.\<close>

theorem contract_versions_repeat:
  "(let (db1, _) = create_contract 20 demo_alice ''p'' ''a'' ''warn'' [] demo_db;
        (db2, _) = update_contract py_uuid 21 demo_alice ''p'' (uuid_text 20) ''b'' ''warn'' [] db1;
        (db3, _) = update_contract py_uuid 22 demo_alice ''p'' (uuid_text 20) ''c'' ''warn'' [] db2
    in map (\<lambda>c. (cr_yaml c, cr_version c, cr_active c)) (db_contracts db3)) =
   [(''a'', 1, False), (''b'', 2, True), (''c'', 2, True)]"
  by code_simp

text \<open>An owner by grant sees no contract of another owner, and the one that it adds starts again at version 1: runs are still checked against
  the other.\<close>

theorem second_owner_ignored:
  "(let (db1, _) = create_contract 20 demo_alice ''p'' ''a'' ''warn'' [] demo_db;
        (db2, _) = update_contract py_uuid 21 demo_alice ''p'' (uuid_text 20) ''b'' ''warn'' [] db1;
        (db3, _) = grant_permission 12 demo_alice ''p'' (uuid_text 3) ''owner'' db2;
        (db4, r) = create_contract 22 demo_bob ''p'' ''c'' ''block'' [] db3
    in (list_contracts demo_bob ''p'' db3, map_option ac_yaml_content (contract_for_run db4 ''p''), r)) =
   (Inr [], Some ''b'', Inr \<lparr>cr_id = 22, cr_pipeline = ''p'', cr_version = 1, cr_yaml = ''c'', cr_severity = ''block'', cr_consumers = [],
      cr_user = 3, cr_active = True\<rparr>)"
  by code_simp

end
