(* ===== verification/SchemaFlow.thy ===== *)
theory SchemaFlow
  imports StepExecutor "HOL-Library.Multiset"
begin

text \<open>
  \<^verbatim>\<open>backend/services/pipeline_validation.py\<close>: the simulation of the columns of each step before a run is accepted, and how it relates
  to the pandas executors.  The uploaded files are a function from the \<^verbatim>\<open>file_id\<close> of a load step to the columns stored with the
  file, \<open>None\<close> where the query finds nothing or raises.  A column is any value that YAML can name.
\<close>

section \<open>Definitions\<close>

type_synonym column_schema = "(pyval \<times> pyval list) list"

text \<open>\<^verbatim>\<open>list(v or [])\<close> and \<^verbatim>\<open>v in xs\<close>.\<close>

definition elements :: "pyval \<Rightarrow> pyval list result" where
  "elements v = (if truthy v then iterate v else Inr [])"

definition among :: "pyval \<Rightarrow> pyval list \<Rightarrow> bool" where
  "among v xs = list_ex (\<lambda>x. py_eq x v) xs"

definition schema_get :: "column_schema \<Rightarrow> pyval \<Rightarrow> pyval list result" where
  "schema_get schema v =
     (if hashable v then Inr (case dict_get schema v of None \<Rightarrow> [] | Some cols \<Rightarrow> cols) else Inl TypeError)"

definition append_missing_column_error ::
    "pyval \<Rightarrow> string \<Rightarrow> pyval \<Rightarrow> pyval \<Rightarrow> pyval list \<Rightarrow> validation_error list" where
  "append_missing_column_error name field col inp available =
     (if truthy col \<and> \<not> among col available
      then [verr name field (''Column '' @ quoted (py_str col) @ '' was not found in input '' @
              quoted (if truthy inp then py_str inp else ''unknown'') @ ''. Available columns: '' @ py_str (PList available))]
      else [])"

definition join_key_error :: "pyval \<Rightarrow> string \<Rightarrow> string \<Rightarrow> pyval \<Rightarrow> pyval list \<Rightarrow> validation_error list" where
  "join_key_error name key side inp cols =
     (if key \<noteq> [] \<and> \<not> among (PStr key) cols
      then [verr name ''on'' (''Join key '' @ quoted key @ '' was not found in '' @ side @ '' input '' @ quoted (py_str inp) @
              ''. Available columns: '' @ py_str (PList cols))]
      else [])"

definition merge_columns :: "string \<Rightarrow> pyval list \<Rightarrow> pyval list \<Rightarrow> pyval list" where
  "merge_columns key left_cols right_cols =
     fold (\<lambda>c merged. if \<not> among c merged \<and> \<not> py_eq c (PStr key) then merged @ [c] else merged) right_cols left_cols"

text \<open>\<^verbatim>\<open>xs[xs.index(old)] = new\<close>.\<close>

fun replace_first :: "pyval \<Rightarrow> pyval \<Rightarrow> pyval list \<Rightarrow> pyval list" where
  "replace_first old new [] = []"
| "replace_first old new (x # xs) = (if py_eq x old then new # xs else x # replace_first old new xs)"

definition rename_flow :: "(pyval \<times> pyval) list \<Rightarrow> pyval list \<Rightarrow> pyval list" where
  "rename_flow m cols = fold (\<lambda>(old, new) renamed. replace_first old new renamed) m cols"

text \<open>\<^verbatim>\<open>str(d.get(k, "") or "")\<close>.\<close>

definition text_entry :: "pydict \<Rightarrow> string \<Rightarrow> string" where
  "text_entry d k = (let v = get_or d k empty_str in if truthy v then py_str v else [])"

definition aggregation_flow :: "pyval \<Rightarrow> pyval \<Rightarrow> pyval list \<Rightarrow> pyval \<Rightarrow> validation_error list \<times> pyval list" where
  "aggregation_flow name inp available agg =
     (case agg of
        PDict a \<Rightarrow>
          let col = text_entry a ''column''; func = text_entry a ''function'' in
          (append_missing_column_error name ''aggregations.column'' (PStr col) inp available,
           if col \<noteq> [] \<and> func \<noteq> [] \<and> among (PStr col) available then [PStr (col @ ''_'' @ func)] else [])
      | _ \<Rightarrow> ([], []))"

definition rule_flow :: "pyval \<Rightarrow> pyval \<Rightarrow> pyval list \<Rightarrow> pyval \<Rightarrow> validation_error list" where
  "rule_flow name inp available rule =
     (case rule of
        PDict r \<Rightarrow> append_missing_column_error name ''rules.column'' (PStr (text_entry r ''column'')) inp available
      | _ \<Rightarrow> [])"

definition mapping_items :: "pyval \<Rightarrow> (pyval \<times> pyval) list result" where
  "mapping_items v = (if \<not> truthy v then Inr [] else case v of PDict d \<Rightarrow> Inr d | _ \<Rightarrow> Inl AttributeError)"

text \<open>The branches for a step with one input: the errors and the columns it leaves.\<close>

definition flow_fields :: "pyval \<Rightarrow> step_fields \<Rightarrow> pyval \<Rightarrow> pyval list \<Rightarrow> (validation_error list \<times> pyval list) result" where
  "flow_fields name f inp available =
     (let missing = (\<lambda>field cols. concat (map (\<lambda>c. append_missing_column_error name field c inp available) cols));
          present = filter (\<lambda>c. among c available) in
      case f of
        FilterFields _ c _ _ \<Rightarrow> Inr (missing ''column'' [c], available)
      | SelectFields _ cs \<Rightarrow> bindE (elements cs) (\<lambda>requested. Inr (missing ''columns'' requested, present requested))
      | RenameFields _ m \<Rightarrow> bindE (mapping_items m) (\<lambda>items. Inr (missing ''mapping'' (map fst items), rename_flow items available))
      | AggregateFields _ g a \<Rightarrow> bindE (elements g) (\<lambda>gs. bindE (elements a) (\<lambda>aggs.
          let flows = map (aggregation_flow name inp available) aggs in
          Inr (missing ''group_by'' gs @ concat (map fst flows), present gs @ concat (map snd flows))))
      | SortFields _ b _ _ \<Rightarrow> Inr (missing ''by'' (case b of PList bs \<Rightarrow> bs | _ \<Rightarrow> [b]), available)
      | ValidateFields _ r \<Rightarrow> bindE (elements r) (\<lambda>rs. Inr (concat (map (rule_flow name inp available) rs), available))
      | PivotFields _ ix c v _ _ \<Rightarrow> bindE (elements ix) (\<lambda>idx.
          Inr (missing ''index'' idx @ missing ''columns'' [c] @ missing ''values'' [v],
            present idx @ (if truthy v \<and> among v available then [PStr (py_str v @ ''_pivoted'')] else [])))
      | UnpivotFields _ ids vs vn vl \<Rightarrow> bindE (elements ids) (\<lambda>idl. bindE (elements vs) (\<lambda>vals.
          Inr (missing ''value_vars'' (idl @ vals), present idl @ [vn, vl])))
      | DeduplicateFields _ s _ \<Rightarrow> bindE (elements s) (\<lambda>sub. Inr (missing ''subset'' sub, available))
      | FillNullsFields _ _ cs _ \<Rightarrow> bindE (elements cs) (\<lambda>cols. Inr (missing ''columns'' cols, available))
      | SampleFields _ _ _ _ sb \<Rightarrow> Inr (missing ''stratify_by'' [sb], available)
      | WasmComputeFields _ _ _ ic oc \<Rightarrow> bindE (elements ic) (\<lambda>cols.
          Inr (missing ''input_columns'' cols, available @ (if truthy oc then [oc] else [])))
      | _ \<Rightarrow> Inr ([], available))"

definition flow_step :: "(pyval \<Rightarrow> string list option) \<Rightarrow> step_config \<Rightarrow> column_schema \<Rightarrow> (validation_error list \<times> pyval list) result" where
  "flow_step files st schema =
     (let name = step_name st in
      case cfg_fields st of
        LoadFields fid _ \<Rightarrow>
          Inr (if truthy fid
               then (case files fid of
                  None \<Rightarrow> ([verr name ''file_id'' (''Referenced file '' @ quoted (py_str fid) @ '' was not found.'')], [])
                | Some cols \<Rightarrow> ([], map PStr cols))
               else ([], []))
      | JoinFields l r key _ \<Rightarrow>
          bindE (schema_get schema l) (\<lambda>left_cols. bindE (schema_get schema r) (\<lambda>right_cols.
            Inr (join_key_error name key ''left'' l left_cols @ join_key_error name key ''right'' r right_cols,
              merge_columns key left_cols right_cols)))
      | f \<Rightarrow>
          (let inp = (case input_attr f of None \<Rightarrow> PNone | Some v \<Rightarrow> v) in
           bindE (if truthy inp then schema_get schema inp else Inr []) (\<lambda>available. flow_fields name f inp available)))"

text \<open>The loop over the steps.\<close>

fun flow_steps ::
    "(pyval \<Rightarrow> string list option) \<Rightarrow> step_config list \<Rightarrow> column_schema \<Rightarrow> (validation_error list \<times> column_schema) result" where
  "flow_steps files [] schema = Inr ([], schema)"
| "flow_steps files (st # sts) schema =
     bindE (flow_step files st schema) (\<lambda>(es, cols).
       if \<not> hashable (step_name st) then Inl TypeError
       else bindE (flow_steps files sts (dict_set schema (step_name st) cols)) (\<lambda>(es', schema'). Inr (es @ es', schema')))"

definition collect_schema_validation_errors ::
    "(pyval \<Rightarrow> string list option) \<Rightarrow> pipeline_config \<Rightarrow> validation_error list result" where
  "collect_schema_validation_errors files cfg = bindE (flow_steps files (steps cfg) []) (\<lambda>(es, _). Inr es)"

section \<open>Steps that the simulation follows\<close>

text \<open>Joins whose sides share columns besides the key, pivots, SQL, Wasm and streams are left out: for them the simulated columns are a
  guess.\<close>

definition plain_text :: "pyval \<Rightarrow> bool" where
  "plain_text v = (case v of PStr s \<Rightarrow> py_strip s \<noteq> [] | _ \<Rightarrow> False)"

definition plain_texts :: "pyval \<Rightarrow> bool" where
  "plain_texts v = (case v of PList vs \<Rightarrow> list_all plain_text vs | _ \<Rightarrow> False)"

definition plain_mapping :: "pyval \<Rightarrow> bool" where
  "plain_mapping v = (case v of PDict m \<Rightarrow> list_all (\<lambda>(k, w). plain_text k \<and> plain_text w) m \<and> distinct (map fst m) | _ \<Rightarrow> False)"

definition plain_aggregation :: "pyval \<Rightarrow> bool" where
  "plain_aggregation v =
     (case v of
        PDict a \<Rightarrow> plain_text (get_or a ''column'' empty_str) \<and> plain_text (get_or a ''function'' empty_str) \<and>
          get_or a ''column'' empty_str \<noteq> get_or a ''function'' empty_str
      | _ \<Rightarrow> False)"

definition known_columns :: "column_schema \<Rightarrow> pyval \<Rightarrow> pyval list" where
  "known_columns schema v = (case dict_get schema v of None \<Rightarrow> [] | Some cols \<Rightarrow> cols)"

definition followed :: "column_schema \<Rightarrow> step_fields \<Rightarrow> bool" where
  "followed schema f =
     (case f of
        LoadFields fid _ \<Rightarrow> plain_text fid
      | FilterFields i c _ _ \<Rightarrow> plain_text i \<and> plain_text c
      | SelectFields i cs \<Rightarrow> plain_text i \<and> plain_texts cs
      | RenameFields i m \<Rightarrow> plain_text i \<and> plain_mapping m
      | JoinFields l r key _ \<Rightarrow> plain_text l \<and> plain_text r \<and> key \<noteq> [] \<and>
          set (known_columns schema l) \<inter> set (known_columns schema r) \<subseteq> {PStr key}
      | AggregateFields i g a \<Rightarrow> plain_text i \<and> plain_texts g \<and>
          (case a of PList as \<Rightarrow> list_all plain_aggregation as | _ \<Rightarrow> False)
      | SortFields i b _ _ \<Rightarrow> plain_text i \<and> (case b of PList bs \<Rightarrow> list_all plain_text bs | _ \<Rightarrow> plain_text b)
      | SaveFields i _ \<Rightarrow> plain_text i
      | ValidateFields i _ \<Rightarrow> plain_text i
      | UnpivotFields i ids vs vn vl \<Rightarrow> plain_text i \<and> plain_texts ids \<and> plain_texts vs \<and> plain_text vn \<and> plain_text vl
      | DeduplicateFields i s _ \<Rightarrow> plain_text i \<and> plain_texts s
      | FillNullsFields i s cs _ \<Rightarrow> plain_text i \<and> plain_text s \<and> plain_texts cs
      | SampleFields i _ _ _ sb \<Rightarrow> plain_text i
      | StreamPublishFields i _ _ _ \<Rightarrow> plain_text i
      | _ \<Rightarrow> False)"

fun all_followed :: "(pyval \<Rightarrow> string list option) \<Rightarrow> step_config list \<Rightarrow> column_schema \<Rightarrow> bool" where
  "all_followed files [] schema = True"
| "all_followed files (st # sts) schema =
     (plain_text (step_name st) \<and> followed schema (cfg_fields st) \<and>
      (case flow_step files st schema of
         Inl _ \<Rightarrow> False
       | Inr (_, cols) \<Rightarrow> all_followed files sts (dict_set schema (step_name st) cols)))"

text \<open>The run: each step by the pandas executors, as the smart executor calls them.\<close>

definition pandas_step :: "('t, 'd) pandas \<Rightarrow> int \<Rightarrow> files_env \<Rightarrow> step_config \<Rightarrow> (pyval \<times> 't) list \<Rightarrow> 't outcome" where
  "pandas_step pd ms fs st reg =
     (case cfg_fields st of LoadFields _ _ \<Rightarrow> run_load pd ms fs st
      | _ \<Rightarrow> execute_step pd ms (fs\<lparr>file_paths := [], file_metadata := []\<rparr>) st reg)"

fun run_in_pandas :: "('t, 'd) pandas \<Rightarrow> int \<Rightarrow> files_env \<Rightarrow> step_config list \<Rightarrow> (pyval \<times> 't) list \<Rightarrow> (pyval \<times> 't) list result" where
  "run_in_pandas pd ms fs [] reg = Inr reg"
| "run_in_pandas pd ms fs (st # sts) reg =
     bindE (pandas_step pd ms fs st reg) (\<lambda>(_, r). bindE r (\<lambda>res.
       run_in_pandas pd ms fs sts (dict_set reg (step_name st) (output_table res))))"

abbreviation cols_of :: "('t, 'd) pandas \<Rightarrow> 't \<Rightarrow> string list" where
  "cols_of pd t \<equiv> df_columns pd (to_pandas pd t)"

text \<open>What pandas and Arrow document about the columns of their results; Arrow refuses frames that name a column twice.\<close>

definition column_laws :: "('t, 'd) pandas \<Rightarrow> bool" where
  "column_laws pd \<longleftrightarrow>
     (\<forall>d t. from_pandas pd d = Inr t \<longrightarrow> cols_of pd t = df_columns pd d \<and> distinct (df_columns pd d)) \<and>
     (\<forall>op c a d d'. df_filter pd op c a d = Inr d' \<longrightarrow> df_columns pd d' = df_columns pd d) \<and>
     (\<forall>cs d d'. df_select pd cs d = Inr d' \<longrightarrow> df_columns pd d' = cs) \<and>
     (\<forall>m d. df_columns pd (df_rename pd m d) = map (\<lambda>c. case map_of m c of None \<Rightarrow> c | Some n \<Rightarrow> n) (df_columns pd d)) \<and>
     (\<forall>key h l r d. df_merge pd key h l r = Inr d \<longrightarrow> set (df_columns pd l) \<inter> set (df_columns pd r) \<subseteq> {key} \<longrightarrow>
        df_columns pd d = df_columns pd l @ filter (\<lambda>c. c \<noteq> key) (df_columns pd r)) \<and>
     (\<forall>gs agg d g labels names r. df_group_agg pd gs agg d = Inr (g, labels) \<longrightarrow> length names = length labels \<longrightarrow>
        df_reset_index pd (df_set_columns pd names g) = Inr r \<longrightarrow>
        labels = concat (map (\<lambda>(c, fs). map (Pair c) fs) agg) \<and> df_columns pd r = gs @ names) \<and>
     (\<forall>by dirs d d'. df_sort_values pd by dirs d = Inr d' \<longrightarrow> df_columns pd d' = df_columns pd d) \<and>
     (\<forall>d. df_columns pd (df_reset_drop pd d) = df_columns pd d) \<and>
     (\<forall>ids vs vn vl d d'. df_melt pd ids vs (PStr vn) (PStr vl) d = Inr d' \<longrightarrow> df_columns pd d' = ids @ [vn, vl]) \<and>
     (\<forall>sub kp d d'. df_drop_duplicates pd sub kp d = Inr d' \<longrightarrow> df_columns pd d' = df_columns pd d) \<and>
     (\<forall>c v d d'. df_fillna pd c v d = Inr d' \<longrightarrow> df_columns pd d' = df_columns pd d) \<and>
     (\<forall>c d d'. df_ffill pd c d = Inr d' \<longrightarrow> df_columns pd d' = df_columns pd d) \<and>
     (\<forall>c d d'. df_bfill pd c d = Inr d' \<longrightarrow> df_columns pd d' = df_columns pd d) \<and>
     (\<forall>c d g. g \<in> set (df_groups pd c d) \<longrightarrow> df_columns pd g = df_columns pd d) \<and>
     (\<forall>gs d cs. df_concat pd gs = Inr d \<longrightarrow> (\<forall>g \<in> set gs. df_columns pd g = cs) \<longrightarrow> df_columns pd d = cs) \<and>
     (\<forall>n seed d d'. df_sample pd n seed d = Inr d' \<longrightarrow> df_columns pd d' = df_columns pd d) \<and>
     (\<forall>q seed d d'. df_sample_frac pd q seed d = Inr d' \<longrightarrow> df_columns pd d' = df_columns pd d)"

text \<open>The schema has an entry for exactly the tables in the registry, with their columns in any order.\<close>

definition same_columns :: "pyval list \<Rightarrow> string list \<Rightarrow> bool" where
  "same_columns cols cs \<longleftrightarrow> mset cols = mset (map PStr cs)"

definition knows :: "('t, 'd) pandas \<Rightarrow> column_schema \<Rightarrow> (pyval \<times> 't) list \<Rightarrow> bool" where
  "knows pd schema reg \<longleftrightarrow>
     (\<forall>n. rel_option (\<lambda>cols t. same_columns cols (cols_of pd t) \<and> distinct (cols_of pd t)) (dict_get schema (PStr n)) (dict_get reg (PStr n)))"

section \<open>Columns of the executors\<close>

lemmas laws1 = column_laws_def [THEN iffD1]
lemmas laws2 = laws1 [THEN conjunct2]
lemmas laws3 = laws2 [THEN conjunct2]
lemmas laws4 = laws3 [THEN conjunct2]
lemmas laws5 = laws4 [THEN conjunct2]
lemmas laws6 = laws5 [THEN conjunct2]
lemmas laws7 = laws6 [THEN conjunct2]
lemmas laws8 = laws7 [THEN conjunct2]
lemmas laws9 = laws8 [THEN conjunct2]
lemmas laws10 = laws9 [THEN conjunct2]
lemmas laws11 = laws10 [THEN conjunct2]
lemmas laws12 = laws11 [THEN conjunct2]
lemmas laws13 = laws12 [THEN conjunct2]
lemmas laws14 = laws13 [THEN conjunct2]
lemmas laws15 = laws14 [THEN conjunct2]
lemmas laws16 = laws15 [THEN conjunct2]
lemmas laws17 = laws16 [THEN conjunct2]

lemmas arrow_law = laws1 [THEN conjunct1, rule_format]
lemmas filter_law = laws2 [THEN conjunct1, rule_format]
lemmas select_law = laws3 [THEN conjunct1, rule_format]
lemmas rename_law = laws4 [THEN conjunct1, rule_format]
lemmas merge_law = laws5 [THEN conjunct1, rule_format]
lemmas group_law = laws6 [THEN conjunct1, rule_format]
lemmas sort_law = laws7 [THEN conjunct1, rule_format]
lemmas drop_law = laws8 [THEN conjunct1, rule_format]
lemmas melt_law = laws9 [THEN conjunct1, rule_format]
lemmas duplicates_law = laws10 [THEN conjunct1, rule_format]
lemmas fillna_law = laws11 [THEN conjunct1, rule_format]
lemmas ffill_law = laws12 [THEN conjunct1, rule_format]
lemmas bfill_law = laws13 [THEN conjunct1, rule_format]
lemmas groups_law = laws14 [THEN conjunct1, rule_format]
lemmas concat_law = laws15 [THEN conjunct1, rule_format]
lemmas sample_law = laws16 [THEN conjunct1, rule_format]
lemmas frac_law = laws17 [rule_format]

lemma fill_columns:
  assumes "column_laws pd" and "foldE (fill_column pd strat const) cs d = Inr d'"
  shows "df_columns pd d' = df_columns pd d"
proof -
  have one: "fill_column pd strat const c d1 = Inr d2 \<Longrightarrow> df_columns pd d2 = df_columns pd d1" for c d1 d2
    by (auto simp: fill_column_def fill_numeric_def dest: fillna_law [OF assms(1)] ffill_law [OF assms(1)] bfill_law [OF assms(1)]
        split: if_splits list.splits)
  show ?thesis
    by (rule foldE_invariant [OF assms(2), of "\<lambda>x. df_columns pd x = df_columns pd d"]) (auto dest: one)
qed

lemma sample_columns:
  assumes laws: "column_laws pd" and "run_sample pd num fract seed strat d = Inr d'"
  shows "df_columns pd d' = df_columns pd d"
proof -
  have groups: "df_columns pd f = df_columns pd d"
    if "mapE (sample_group pd n target seed) (df_groups pd strat d) = Inr fs" and "f \<in> set fs" for n target fs f
  proof -
    from mapE_Inr_set [OF that] obtain g where "g \<in> set (df_groups pd strat d)" "sample_group pd n target seed g = Inr f" by blast
    then show ?thesis using groups_law [OF laws, of g] sample_law [OF laws] by (auto simp: sample_group_def)
  qed
  show ?thesis using assms(2)
    by (auto simp: run_sample_def Let_def drop_law [OF laws] bindE_eq_Inr_iff split: if_splits option.splits
        dest!: frac_law [OF laws] sample_law [OF laws] dest: concat_law [OF laws, OF _ groups])
qed

text \<open>A step with one input that succeeds has read its table; what it needs is there, and its columns are determined.\<close>

definition reads :: "('t, 'd) pandas \<Rightarrow> (pyval \<times> 't) list \<Rightarrow> string \<Rightarrow> string list \<Rightarrow> (string list \<Rightarrow> string list \<Rightarrow> bool) \<Rightarrow> 't outcome \<Rightarrow> bool" where
  "reads pd reg inp need P r \<longleftrightarrow>
     (\<forall>c res. r = Inr (c, Inr res) \<longrightarrow> (\<exists>t. dict_get reg (PStr inp) = Some t \<and> set need \<subseteq> set (cols_of pd t) \<and>
        (distinct (cols_of pd t) \<longrightarrow> distinct (cols_of pd (output_table res))) \<and> P (cols_of pd t) (cols_of pd (output_table res))))"

lemma output_table_step [simp]: "output_table (step_output n ty ni ci out no co ms ws) = out"
  by (simp add: step_output_def)

lemmas reads_simps = reads_def outcome_simps validate_columns_Inr validate_column_exists_def

lemma run_filter_columns:
  assumes "column_laws pd" and "run_filter pd name col op v d = Inr d'"
  shows "df_columns pd d' = df_columns pd d"
proof -
  from assms(2) obtain o' arg mismatch where
    run: "(case df_filter pd o' col arg d of Inl TypeError \<Rightarrow> Inl mismatch | r \<Rightarrow> r) = Inr d'"
    unfolding run_filter_def bindE_eq_Inr_iff by blast
  have "df_filter pd o' col arg d = Inr d'"
  proof (cases "df_filter pd o' col arg d")
    case (Inl e)
    with run show ?thesis by (cases e) simp_all
  qed (use run in simp)
  with filter_law [OF assms(1)] show ?thesis by blast
qed

lemma filter_reads:
  assumes "column_laws pd"
  shows "reads pd reg inp [col] (=) (execute_filter pd ms reg name inp col op v)"
  by (auto simp: execute_filter_def reads_simps split: if_splits dest!: arrow_law [OF assms] run_filter_columns [OF assms])

lemma select_reads:
  assumes "column_laws pd"
  shows "reads pd reg inp cols (\<lambda>_ out. out = cols) (execute_select pd ms reg name inp cols)"
  by (auto simp: execute_select_def reads_simps dest!: arrow_law [OF assms] select_law [OF assms])

lemma rename_reads:
  assumes "column_laws pd"
  shows "reads pd reg inp (map fst m) (\<lambda>cs out. out = map (\<lambda>c. case map_of m c of None \<Rightarrow> c | Some n \<Rightarrow> n) cs)
    (execute_rename pd ms reg name inp m)"
  by (auto simp: execute_rename_def reads_simps rename_law [OF assms] split: if_splits dest!: arrow_law [OF assms])

lemma sort_reads:
  assumes "column_laws pd"
  shows "reads pd reg inp (sort_columns b) (=) (execute_sort pd ms reg name inp b ord asc)"
  by (auto simp: execute_sort_def reads_simps drop_law [OF assms] dest!: arrow_law [OF assms] sort_law [OF assms])

lemma unpivot_reads:
  assumes "column_laws pd"
  shows "reads pd reg inp (ids @ vals) (\<lambda>_ out. out = ids @ [vn, vl]) (execute_unpivot pd ms reg name inp ids vals (PStr vn) (PStr vl))"
  by (auto simp: execute_unpivot_def reads_simps split: if_splits dest!: arrow_law [OF assms] melt_law [OF assms])

lemma deduplicate_reads:
  assumes "column_laws pd"
  shows "reads pd reg inp sub (=) (execute_deduplicate pd ms reg name inp sub kp)"
  by (auto simp: execute_deduplicate_def reads_simps drop_law [OF assms] dest!: arrow_law [OF assms] duplicates_law [OF assms])

lemma fill_reads:
  assumes "column_laws pd"
  shows "reads pd reg inp cols (=) (execute_fill_nulls pd ms reg name inp strat cols v)"
  by (auto simp: execute_fill_nulls_def reads_simps dest!: arrow_law [OF assms] fill_columns [OF assms])

lemma sample_reads:
  assumes "column_laws pd"
  shows "reads pd reg inp [] (=) (execute_sample pd ms reg name inp num fract seed strat)"
  by (auto simp: execute_sample_def reads_simps drop_law [OF assms] split: if_splits
      dest!: arrow_law [OF assms] sample_columns [OF assms])

lemma watch_reads:
  "reads pd reg inp [] (=) (execute_save pd ms reg run_id name inp fname)"
  "reads pd reg inp [] (=) (execute_validate pd ms reg name inp rs)"
  "reads pd reg inp [] (=) (execute_stream_publish pd ms reg name inp tpc key_col)"
  by (auto simp: execute_save_def execute_validate_def execute_stream_publish_def reads_simps split: if_splits)

text \<open>The labels of an aggregation, in the order of its columns.\<close>

definition agg_labels :: "(string \<times> string list) list \<Rightarrow> (string \<times> string) list" where
  "agg_labels d = concat (map (\<lambda>(c, fs). map (Pair c) fs) d)"

lemma labels_update:
  "distinct (map fst d) \<Longrightarrow> mset (agg_labels (add_aggregation cf d)) = add_mset cf (mset (agg_labels d))"
proof (induction d)
  case Nil
  then show ?case by (simp add: agg_labels_def add_aggregation_def)
next
  case (Cons e d)
  obtain c fs where e: "e = (c, fs)" by (cases e)
  show ?case
  proof (cases "c = fst cf")
    case True
    then show ?thesis by (simp add: e agg_labels_def add_aggregation_def)
  next
    case False
    with Cons show ?thesis by (simp add: e agg_labels_def add_aggregation_def)
  qed
qed

lemma aggregation_labels:
  assumes "build_aggregation_dict name available aggs = Inr d"
  shows "mset (agg_labels d) = mset aggs" and "set (map fst aggs) \<subseteq> set available"
proof -
  let ?f = "\<lambda>cf agg_dict. bindE (validate_column_exists name available (fst cf)) (\<lambda>_. Inr (add_aggregation cf agg_dict))"
  have "foldE ?f aggs d0 = Inr d \<Longrightarrow> distinct (map fst d0) \<Longrightarrow>
      mset (agg_labels d) = mset aggs + mset (agg_labels d0) \<and> set (map fst aggs) \<subseteq> set available" for d0
  proof (induction aggs arbitrary: d0)
    case (Cons cf aggs)
    then have "foldE ?f aggs (add_aggregation cf d0) = Inr d" "fst cf \<in> set available"
      by (auto simp: bindE_eq_Inr_iff validate_column_exists_def split: if_splits)
    moreover have "distinct (map fst (add_aggregation cf d0))"
      using Cons.prems(2) by (simp add: add_aggregation_def distinct_update)
    ultimately show ?case using Cons.IH labels_update [OF Cons.prems(2), of cf] by auto
  qed simp
  from this [of "[]"] assms show "mset (agg_labels d) = mset aggs" "set (map fst aggs) \<subseteq> set available"
    by (auto simp: build_aggregation_dict_def agg_labels_def)
qed

lemma aggregate_reads:
  assumes "column_laws pd"
  shows "reads pd reg inp (groups @ map fst aggs) (\<lambda>_ out. mset out = mset (groups @ map flat_name aggs))
    (execute_aggregate pd ms reg name inp groups aggs)"
  unfolding reads_def
proof (intro allI impI)
  fix c res
  assume "execute_aggregate pd ms reg name inp groups aggs = Inr (c, Inr res)"
  then obtain t d agg_df where t: "dict_get reg (PStr inp) = Some t" and groups: "set groups \<subseteq> set (cols_of pd t)"
    and d: "build_aggregation_dict name (cols_of pd t) aggs = Inr d"
    and agg: "perform_aggregation pd name groups d (to_pandas pd t) = Inr agg_df" and out: "from_pandas pd agg_df = Inr (output_table res)"
    by (auto simp: execute_aggregate_def reads_simps)
  from agg obtain g labels where "df_group_agg pd groups d (to_pandas pd t) = Inr (g, labels)"
    "df_reset_index pd (df_set_columns pd (map flat_name labels) g) = Inr agg_df"
    by (auto simp: perform_aggregation_def bindE_eq_Inr_iff split: sum.splits)
  from group_law [OF assms this(1) _ this(2)] have cols: "df_columns pd agg_df = groups @ map flat_name (agg_labels d)"
    by (simp add: agg_labels_def)
  note labels = aggregation_labels [OF d]
  from labels(1) have "image_mset flat_name (mset (agg_labels d)) = image_mset flat_name (mset aggs)" by simp
  with arrow_law [OF assms out] cols labels(2) groups t show "\<exists>t. dict_get reg (PStr inp) = Some t \<and>
      set (groups @ map fst aggs) \<subseteq> set (cols_of pd t) \<and> (distinct (cols_of pd t) \<longrightarrow> distinct (cols_of pd (output_table res))) \<and>
      mset (cols_of pd (output_table res)) = mset (groups @ map flat_name aggs)"
    by auto
qed

section \<open>Columns of the simulation\<close>

lemma same_columns_set: "same_columns cols cs \<Longrightarrow> set cols = PStr ` set cs"
  unfolding same_columns_def by (metis list.set_map set_mset_mset)

lemma among_PStr [simp]: "among (PStr c) cols \<longleftrightarrow> PStr c \<in> set cols"
  by (auto simp: among_def list_ex_iff)

lemma among_same: "same_columns cols cs \<Longrightarrow> among (PStr c) cols \<longleftrightarrow> c \<in> set cs"
  using same_columns_set by fastforce

lemma same_columns_map: "mset out = mset cs \<Longrightarrow> same_columns (map PStr cs) out"
  by (simp add: same_columns_def)

lemma plain_textE:
  assumes "plain_text v"
  obtains s where "v = PStr s" "py_strip s \<noteq> []" "s \<noteq> []"
proof -
  have "py_strip [] = []" by (simp add: py_strip_def)
  then show ?thesis using assms that by (cases v) (auto simp: plain_text_def)
qed

lemma plain_list: "list_all plain_text vs \<Longrightarrow> \<exists>ss. vs = map PStr ss \<and> (\<forall>s \<in> set ss. s \<noteq> [] \<and> py_strip s \<noteq> [])"
proof (induction vs)
  case (Cons v vs)
  then obtain s ss where "v = PStr s" "py_strip s \<noteq> []" "s \<noteq> []" "vs = map PStr ss" "\<forall>s \<in> set ss. s \<noteq> [] \<and> py_strip s \<noteq> []"
    by (auto elim: plain_textE)
  then show ?case by (intro exI [of _ "s # ss"]) simp
qed simp

lemma plain_textsE:
  assumes "plain_texts v"
  obtains ss where "v = PList (map PStr ss)" "\<forall>s \<in> set ss. s \<noteq> [] \<and> py_strip s \<noteq> []"
  using assms plain_list by (cases v) (auto simp: plain_texts_def)

lemma texts_of_PStr [simp]: "texts_of (PList (map PStr ss)) = Inr ss"
  by (induction ss) (simp_all add: texts_of_def)

lemma elements_texts [simp]: "elements (PList vs) = Inr vs"
  by (simp add: elements_def iterate_def)

text \<open>The errors of a list of columns.\<close>

lemma missing_none:
  assumes "\<forall>s \<in> set ss. s \<noteq> []"
  shows "concat (map (\<lambda>c. append_missing_column_error name field c inp available) (map PStr ss)) = [] \<longleftrightarrow>
    (\<forall>s \<in> set ss. among (PStr s) available)"
  using assms by (auto simp: append_missing_column_error_def)

lemma missing_same:
  assumes "\<forall>s \<in> set ss. s \<noteq> []" and "same_columns available cs"
  shows "concat (map (\<lambda>c. append_missing_column_error name field c inp available) (map PStr ss)) = [] \<longleftrightarrow> set ss \<subseteq> set cs"
  unfolding missing_none [OF assms(1)] using among_same [OF assms(2)] by blast

lemma present_all:
  assumes "same_columns available cs" and "set ss \<subseteq> set cs"
  shows "filter (\<lambda>c. among c available) (map PStr ss) = map PStr ss"
  unfolding filter_id_conv using same_columns_set [OF assms(1)] assms(2) by auto

text \<open>Renaming.\<close>

lemma mset_replace_first: "PStr a \<in> set xs \<Longrightarrow> mset xs = add_mset (PStr a) R \<Longrightarrow> mset (replace_first (PStr a) b xs) = add_mset b R"
proof (induction xs arbitrary: R)
  case (Cons x xs)
  show ?case
  proof (cases "x = PStr a")
    case True
    with Cons.prems show ?thesis by simp
  next
    case False
    with Cons.prems(2) obtain R' where "R = add_mset x R'" "mset xs = add_mset (PStr a) R'"
      by (auto simp: add_eq_conv_ex)
    with Cons False show ?thesis by (metis (no_types, lifting) Cons.prems(1) add_mset_commute mset.simps(2) py_eq_PStr replace_first.simps(2) set_ConsD)
  qed
qed simp

lemma mset_rename_flow:
  "mset xs = mset (map PStr (map fst ps)) + R \<Longrightarrow>
   mset (rename_flow (map (\<lambda>(k, w). (PStr k, PStr w)) ps) xs) = mset (map PStr (map snd ps)) + R"
proof (induction ps arbitrary: xs R)
  case Nil
  then show ?case by (simp add: rename_flow_def)
next
  case (Cons p ps)
  obtain k w where p: "p = (k, w)" by (cases p)
  have "PStr k \<in># mset xs" using Cons.prems by (simp add: p)
  then have "PStr k \<in> set xs" by simp
  moreover have "mset xs = add_mset (PStr k) (mset (map PStr (map fst ps)) + R)" using Cons.prems by (simp add: p)
  ultimately have "mset (replace_first (PStr k) (PStr w) xs) = mset (map PStr (map fst ps)) + add_mset (PStr w) R"
    using mset_replace_first [of k xs] by (simp only: union_mset_add_mset_right)
  from Cons.IH [OF this] show ?case by (simp add: p rename_flow_def)
qed

lemma mset_renamed:
  assumes "distinct cs" and "distinct (map fst ps)" and "set (map fst ps) \<subseteq> set cs"
  shows "\<exists>R. mset cs = mset (map fst ps) + R \<and>
    mset (map (\<lambda>c. case map_of ps c of None \<Rightarrow> c | Some n \<Rightarrow> n) cs) = mset (map snd ps) + R"
proof -
  let ?f = "\<lambda>c. case map_of ps c of None \<Rightarrow> c | Some n \<Rightarrow> n"
  define rest where "rest = filter (\<lambda>c. c \<notin> set (map fst ps)) cs"
  have cs: "mset cs = mset (map fst ps @ rest)"
    using assms by (subst set_eq_iff_mset_eq_distinct [symmetric]) (auto simp: rest_def)
  have keys: "map ?f (map fst ps) = map snd ps"
    using assms(2) by (auto simp: map_of_is_SomeI)
  have others: "map ?f rest = rest" by (rule map_idI) (simp add: rest_def flip: map_of_eq_None_iff)
  have "mset (map ?f cs) = image_mset ?f (mset cs)" by simp
  also have "\<dots> = mset (map ?f (map fst ps)) + mset (map ?f rest)"
    by (simp only: cs mset_append mset_map image_mset_union)
  finally have "mset (map ?f cs) = mset (map snd ps) + mset rest" unfolding keys others .
  with cs show ?thesis by auto
qed

lemma rename_flow_same:
  assumes "same_columns available cs" and "distinct cs" and "distinct (map fst ps)" and "set (map fst ps) \<subseteq> set cs"
  shows "same_columns (rename_flow (map (\<lambda>(k, w). (PStr k, PStr w)) ps) available)
    (map (\<lambda>c. case map_of ps c of None \<Rightarrow> c | Some n \<Rightarrow> n) cs)"
proof -
  from mset_renamed [OF assms(2-4)] obtain R where R: "mset cs = mset (map fst ps) + R"
    "mset (map (\<lambda>c. case map_of ps c of None \<Rightarrow> c | Some n \<Rightarrow> n) cs) = mset (map snd ps) + R" by blast
  from R(1) assms(1) have "mset available = mset (map PStr (map fst ps)) + image_mset PStr R"
    by (simp only: same_columns_def mset_map image_mset_union)
  from mset_rename_flow [OF this] have "mset (rename_flow (map (\<lambda>(k, w). (PStr k, PStr w)) ps) available) =
      image_mset PStr (mset (map snd ps) + R)"
    by (simp only: mset_map image_mset_union)
  then show ?thesis unfolding same_columns_def mset_map [of PStr] R(2) .
qed

text \<open>Merging: columns that the left side does not have are appended, but for the key.\<close>

lemma merge_columns_step:
  "merge_columns key (map PStr ls) (map PStr (c # rs)) =
     merge_columns key (map PStr (if c \<notin> set ls \<and> c \<noteq> key then ls @ [c] else ls)) (map PStr rs)"
  by (simp add: merge_columns_def image_iff)

lemma merge_columns_append:
  "set ls \<inter> set rs \<subseteq> {key} \<Longrightarrow> distinct rs \<Longrightarrow>
   merge_columns key (map PStr ls) (map PStr rs) = map PStr (ls @ filter (\<lambda>c. c \<noteq> key) rs)"
proof (induction rs arbitrary: ls)
  case Nil
  then show ?case by (simp add: merge_columns_def)
next
  case (Cons c rs)
  have rest: "set (if c \<notin> set ls \<and> c \<noteq> key then ls @ [c] else ls) \<inter> set rs \<subseteq> {key}" using Cons.prems by auto
  have "c \<notin> set ls \<and> c \<noteq> key \<longleftrightarrow> c \<noteq> key" using Cons.prems by auto
  then show ?case using Cons.IH [OF rest] Cons.prems(2) unfolding merge_columns_step by simp
qed

lemma same_columns_texts:
  assumes "same_columns cols cs"
  obtains cs' where "cols = map PStr cs'" "mset cs' = mset cs"
proof -
  have "\<exists>cs'. cols = map PStr cs'" using same_columns_set [OF assms] by (auto simp: ex_map_conv)
  then obtain cs' where cs': "cols = map PStr cs'" ..
  define text_in where "text_in = (\<lambda>v. case v of PStr s \<Rightarrow> s | _ \<Rightarrow> [])"
  have "image_mset text_in (mset cols) = image_mset text_in (mset (map PStr cs))" using assms by (simp add: same_columns_def)
  then have "mset cs' = mset cs" by (simp add: cs' text_in_def image_mset.compositionality comp_def)
  with cs' that show ?thesis by blast
qed

lemma merge_columns_same:
  assumes "same_columns lcols ls" and "same_columns rcols rs" and "distinct rs" and "set ls \<inter> set rs \<subseteq> {key}"
  shows "same_columns (merge_columns key lcols rcols) (ls @ filter (\<lambda>c. c \<noteq> key) rs)"
proof -
  obtain ls' where ls': "lcols = map PStr ls'" "mset ls' = mset ls" using assms(1) by (rule same_columns_texts)
  obtain rs' where rs': "rcols = map PStr rs'" "mset rs' = mset rs" using assms(2) by (rule same_columns_texts)
  have "distinct rs'" "set ls' \<inter> set rs' \<subseteq> {key}"
    using ls'(2) rs'(2) assms(3,4) by (metis mset_eq_imp_distinct_iff, metis mset_eq_setD)
  then have "merge_columns key lcols rcols = map PStr (ls' @ filter (\<lambda>c. c \<noteq> key) rs')"
    using merge_columns_append ls'(1) rs'(1) by simp
  then show ?thesis using ls'(2) rs'(2) by (simp add: same_columns_def mset_filter)
qed

section \<open>Errors and columns of a step\<close>

lemma plain_aggregations:
  "list_all plain_aggregation as \<Longrightarrow> \<exists>aggs. mapE aggregation_of as = Inr aggs \<and> (\<forall>cf \<in> set aggs. fst cf \<noteq> [] \<and> snd cf \<noteq> fst cf) \<and>
     map (aggregation_flow name inp available) as =
     map (\<lambda>cf. (append_missing_column_error name ''aggregations.column'' (PStr (fst cf)) inp available,
       if among (PStr (fst cf)) available then [PStr (flat_name cf)] else [])) aggs"
proof (induction as)
  case (Cons v as)
  then obtain aggs where aggs: "mapE aggregation_of as = Inr aggs" "\<forall>cf \<in> set aggs. fst cf \<noteq> [] \<and> snd cf \<noteq> fst cf"
    "map (aggregation_flow name inp available) as =
     map (\<lambda>cf. (append_missing_column_error name ''aggregations.column'' (PStr (fst cf)) inp available,
       if among (PStr (fst cf)) available then [PStr (flat_name cf)] else [])) aggs" by auto
  from Cons.prems obtain a where a: "v = PDict a" by (cases v) (simp_all add: plain_aggregation_def)
  with Cons.prems obtain c f where cf: "get_or a ''column'' empty_str = PStr c" "get_or a ''function'' empty_str = PStr f"
    "c \<noteq> []" "f \<noteq> []" "f \<noteq> c"
    by (auto simp: plain_aggregation_def elim!: plain_textE)
  have "aggregation_of v = Inr (c, f)" by (simp add: a aggregation_of_def cf)
  moreover have "aggregation_flow name inp available v =
      (append_missing_column_error name ''aggregations.column'' (PStr c) inp available,
       if among (PStr c) available then [PStr (flat_name (c, f))] else [])"
    by (simp add: a aggregation_flow_def text_entry_def cf Let_def py_str_def flat_name_def)
  ultimately show ?case using aggs cf by (intro exI [of _ "(c, f) # aggs"]) simp
qed simp

lemma missing_single:
  "col \<noteq> [] \<Longrightarrow> same_columns available cs \<Longrightarrow>
   append_missing_column_error name field (PStr col) inp available = [] \<longleftrightarrow> col \<in> set cs"
  using among_same by (auto simp: append_missing_column_error_def simp del: among_PStr)

lemma sort_columns_plain:
  assumes "case b of PList bs \<Rightarrow> list_all plain_text bs | _ \<Rightarrow> plain_text b"
  shows "(case b of PList bs \<Rightarrow> bs | _ \<Rightarrow> [b]) = map PStr (sort_columns b) \<and> (\<forall>s \<in> set (sort_columns b). s \<noteq> [])"
proof (cases b)
  case (PList bs)
  with assms plain_list [of bs] obtain ss where "bs = map PStr ss" "\<forall>s \<in> set ss. s \<noteq> [] \<and> py_strip s \<noteq> []" by auto
  then show ?thesis by (simp add: PList sort_columns_def py_str_def comp_def)
qed (use assms in \<open>auto simp: plain_text_def sort_columns_def py_str_def py_strip_def\<close>)

lemma plain_mappingE:
  assumes "plain_mapping m"
  obtains ps where "m = PDict (map (\<lambda>(k, w). (PStr k, PStr w)) ps)" "distinct (map fst ps)" "\<forall>k \<in> set (map fst ps). k \<noteq> []"
    "text_pairs_of m = Inr ps" "mapping_items m = Inr (map (\<lambda>(k, w). (PStr k, PStr w)) ps)"
proof -
  from assms obtain kvs where m: "m = PDict kvs" "list_all (\<lambda>(k, w). plain_text k \<and> plain_text w) kvs" "distinct (map fst kvs)"
    by (cases m) (auto simp: plain_mapping_def)
  have "\<exists>ps. kvs = map (\<lambda>(k, w). (PStr k, PStr w)) ps \<and> (\<forall>k \<in> set (map fst ps). k \<noteq> []) \<and>
      mapE (\<lambda>(k, w). bindE (text_of k) (\<lambda>k'. bindE (text_of w) (\<lambda>w'. Inr (k', w')))) kvs = Inr ps"
    using m(2)
  proof (induction kvs)
    case (Cons kv kvs)
    then obtain ps k w where "kvs = map (\<lambda>(k, w). (PStr k, PStr w)) ps" "\<forall>k \<in> set (map fst ps). k \<noteq> []"
      "mapE (\<lambda>(k, w). bindE (text_of k) (\<lambda>k'. bindE (text_of w) (\<lambda>w'. Inr (k', w')))) kvs = Inr ps"
      "kv = (PStr k, PStr w)" "k \<noteq> []" by (auto elim!: plain_textE)
    then show ?case by (intro exI [of _ "(k, w) # ps"]) simp
  qed simp
  then obtain ps where ps: "kvs = map (\<lambda>(k, w). (PStr k, PStr w)) ps" "\<forall>k \<in> set (map fst ps). k \<noteq> []" "text_pairs_of m = Inr ps"
    by (auto simp: m(1) text_pairs_of_def)
  have "map fst kvs = map PStr (map fst ps)" unfolding ps(1) by auto
  with m(3) have "distinct (map fst ps)" by (metis distinct_map)
  moreover have "mapping_items m = Inr kvs" by (simp add: m(1) mapping_items_def)
  ultimately show ?thesis using that m(1) ps by blast
qed

definition strict :: "step_fields \<Rightarrow> bool" where
  "strict f = (case f of ValidateFields _ _ \<Rightarrow> False | SampleFields _ _ _ _ _ \<Rightarrow> False | _ \<Rightarrow> True)"

lemma flow_fields_errors:
  assumes "same_columns available cs" and "followed schema f" and "input_attr f \<noteq> None" and "strict f"
    and "flow_fields name f inp available = Inr (es, cols)"
  shows "\<exists>need. needed_columns f = Inr need \<and> (es = [] \<longleftrightarrow> set need \<subseteq> set cs)"
proof (cases f)
  case (FilterFields i c op v)
  with assms(2) obtain col where col: "c = PStr col" "col \<noteq> []" by (auto simp: followed_def elim!: plain_textE)
  with assms(5) FilterFields have "es = append_missing_column_error name ''column'' (PStr col) inp available"
    by (auto simp: flow_fields_def)
  then show ?thesis using missing_single [OF col(2) assms(1)] FilterFields col(1) by simp
next
  case (SelectFields i v)
  with assms(2) obtain ss where ss: "v = PList (map PStr ss)" "\<forall>s \<in> set ss. s \<noteq> []" by (auto simp: followed_def elim!: plain_textsE)
  with assms(5) SelectFields missing_same [OF ss(2) assms(1), of name "''columns''" inp] show ?thesis
    by (auto simp: flow_fields_def simp del: map_map)
next
  case (RenameFields i m)
  with assms(2) obtain ps where ps: "text_pairs_of m = Inr ps" "mapping_items m = Inr (map (\<lambda>(k, w). (PStr k, PStr w)) ps)"
    and ne: "\<forall>k \<in> set (map fst ps). k \<noteq> []"
    by (auto simp: followed_def elim!: plain_mappingE)
  have "map fst (map (\<lambda>(k, w). (PStr k, PStr w)) ps) = map PStr (map fst ps)" by auto
  with assms(5) RenameFields ps(2) have es: "es = concat (map (\<lambda>c. append_missing_column_error name ''mapping'' c inp available) (map PStr (map fst ps)))"
    by (simp add: flow_fields_def del: map_map)
  show ?thesis unfolding es missing_same [OF ne assms(1)] by (simp add: RenameFields ps(1))
next
  case (AggregateFields i g a)
  with assms(2) obtain gs as where g: "g = PList (map PStr gs)" "\<forall>s \<in> set gs. s \<noteq> []" "a = PList as" "list_all plain_aggregation as"
    by (cases a) (auto simp: followed_def elim!: plain_textsE)
  from plain_aggregations [OF g(4), of name inp available] obtain aggs where aggs: "mapE aggregation_of as = Inr aggs"
    "\<forall>cf \<in> set aggs. fst cf \<noteq> [] \<and> snd cf \<noteq> fst cf"
    "map (aggregation_flow name inp available) as =
     map (\<lambda>cf. (append_missing_column_error name ''aggregations.column'' (PStr (fst cf)) inp available,
       if among (PStr (fst cf)) available then [PStr (flat_name cf)] else [])) aggs" by blast
  have "concat (map fst (map (aggregation_flow name inp available) as)) = [] \<longleftrightarrow> set (map fst aggs) \<subseteq> set cs"
    unfolding aggs(3) using aggs(2) missing_single [OF _ assms(1)] by auto
  then show ?thesis using assms(5) missing_same [OF g(2) assms(1)] g(1,3) aggs(1) AggregateFields
    by (auto simp: flow_fields_def Let_def list_of_def simp del: map_map)
next
  case (SortFields i b ord asc)
  with assms sort_columns_plain [of b] missing_same [OF _ assms(1), of "sort_columns b"] show ?thesis
    by (auto simp: followed_def flow_fields_def simp del: map_map)
next
  case (UnpivotFields i ids vs vn vl)
  with assms(2) obtain idl vals where "ids = PList (map PStr idl)" "vs = PList (map PStr vals)" "\<forall>s \<in> set (idl @ vals). s \<noteq> []"
    by (auto simp: followed_def elim!: plain_textsE)
  with assms(5) UnpivotFields missing_same [of "idl @ vals", OF _ assms(1), of name "''value_vars''" inp] show ?thesis
    by (auto simp: flow_fields_def simp del: map_map)
next
  case (DeduplicateFields i v k)
  with assms(2) obtain ss where ss: "v = PList (map PStr ss)" "\<forall>s \<in> set ss. s \<noteq> []" by (auto simp: followed_def elim!: plain_textsE)
  with assms(5) DeduplicateFields missing_same [OF ss(2) assms(1), of name "''subset''" inp] show ?thesis
    by (auto simp: flow_fields_def simp del: map_map)
next
  case (FillNullsFields i s v k)
  with assms(2) obtain ss t where ss: "v = PList (map PStr ss)" "\<forall>s \<in> set ss. s \<noteq> []" "s = PStr t"
    by (auto simp: followed_def elim!: plain_textsE plain_textE)
  with assms(5) FillNullsFields missing_same [OF ss(2) assms(1), of name "''columns''" inp] show ?thesis
    by (auto simp: flow_fields_def simp del: map_map)
qed (use assms in \<open>auto simp: followed_def flow_fields_def strict_def\<close>)

section \<open>The simulation follows the run\<close>

text \<open>The columns stored with a file are those that loading it yields, for the role of the run.\<close>

definition files_known :: "('t, 'd) pandas \<Rightarrow> int \<Rightarrow> files_env \<Rightarrow> (pyval \<Rightarrow> string list option) \<Rightarrow> bool" where
  "files_known pd ms fs files \<longleftrightarrow>
     (\<forall>name fid c res. execute_load pd ms (file_paths fs) (file_metadata fs) (user_role fs) name fid = Inr (c, Inr res) \<longrightarrow>
        (\<exists>cols. files (PStr fid) = Some cols \<and> mset cols = mset (cols_of pd (output_table res))))"

lemma pandas_step_run:
  assumes "pandas_step pd ms fs st reg = Inr (c, r)" and "input_attr (cfg_fields st) \<noteq> None \<or> (\<exists>l r k h. cfg_fields st = JoinFields l r k h)"
  obtains name where "run_step pd ms (fs\<lparr>file_paths := [], file_metadata := []\<rparr>) st reg name = Inr (c, r)"
  using assms by (auto simp: pandas_step_def execute_step_def bindE_eq_Inr_iff split: step_fields.splits if_splits)

lemma flow_step_single:
  assumes "input_attr (cfg_fields st) = Some (PStr inp)" and "inp \<noteq> []"
  shows "flow_step files st schema = flow_fields (step_name st) (cfg_fields st) (PStr inp) (known_columns schema (PStr inp))"
  using assms by (cases "cfg_fields st") (auto simp: flow_step_def schema_get_def hashable_def known_columns_def Let_def)

lemma knows_table:
  assumes "knows pd schema reg" and "dict_get reg (PStr n) = Some t"
  shows "same_columns (known_columns schema (PStr n)) (cols_of pd t) \<and> distinct (cols_of pd t)"
proof -
  have "rel_option (\<lambda>cols t. same_columns cols (cols_of pd t) \<and> distinct (cols_of pd t)) (dict_get schema (PStr n)) (dict_get reg (PStr n))"
    using assms(1) by (simp add: knows_def)
  then show ?thesis using assms(2) by (cases "dict_get schema (PStr n)") (simp_all add: known_columns_def)
qed

lemma knows_extend:
  assumes "knows pd schema reg" and "same_columns cols (cols_of pd t)" and "distinct (cols_of pd t)"
  shows "knows pd (dict_set schema (PStr n) cols) (dict_set reg (PStr n) t)"
  unfolding knows_def
proof
  fix m
  show "rel_option (\<lambda>cols t. same_columns cols (cols_of pd t) \<and> distinct (cols_of pd t))
      (dict_get (dict_set schema (PStr n) cols) (PStr m)) (dict_get (dict_set reg (PStr n) t) (PStr m))"
    using assms by (cases "m = n") (simp_all add: knows_def)
qed

text \<open>The columns that the simulation leaves when nothing is missing.\<close>

lemma flow_fields_columns:
  assumes "same_columns available cs" and "distinct cs" and "flow_fields name f inp available = Inr (es, cols)" and "followed schema f"
  shows "f = FilterFields i c op v \<Longrightarrow> same_columns cols cs"
    and "f = SelectFields i (PList (map PStr ss)) \<Longrightarrow> set ss \<subseteq> set cs \<Longrightarrow> same_columns cols ss"
    and "f = RenameFields i m \<Longrightarrow> text_pairs_of m = Inr ps \<Longrightarrow> set (map fst ps) \<subseteq> set cs \<Longrightarrow>
      same_columns cols (map (\<lambda>c. case map_of ps c of None \<Rightarrow> c | Some n \<Rightarrow> n) cs)"
    and "f = AggregateFields i (PList (map PStr gs)) (PList as) \<Longrightarrow> mapE aggregation_of as = Inr aggs \<Longrightarrow>
      set (gs @ map fst aggs) \<subseteq> set cs \<Longrightarrow> cols = map PStr (gs @ map flat_name aggs)"
    and "f = SortFields i b ord asc \<Longrightarrow> same_columns cols cs"
    and "f = SaveFields i fname \<Longrightarrow> same_columns cols cs"
    and "f = ValidateFields i r \<Longrightarrow> same_columns cols cs"
    and "f = UnpivotFields i (PList (map PStr ids)) (PList (map PStr vals)) (PStr vn) (PStr vl) \<Longrightarrow> set ids \<subseteq> set cs \<Longrightarrow>
      same_columns cols (ids @ [vn, vl])"
    and "f = DeduplicateFields i v k \<Longrightarrow> same_columns cols cs"
    and "f = FillNullsFields i v vs w \<Longrightarrow> same_columns cols cs"
    and "f = SampleFields i n fr rs sb \<Longrightarrow> same_columns cols cs"
    and "f = StreamPublishFields i tpc s k \<Longrightarrow> same_columns cols cs"
proof -
  assume "f = SelectFields i (PList (map PStr ss))" and "set ss \<subseteq> set cs"
  then show "same_columns cols ss" using assms(3) present_all [OF assms(1)] by (auto simp: flow_fields_def same_columns_def)
next
  assume f: "f = RenameFields i m" and ps: "text_pairs_of m = Inr ps" and sub: "set (map fst ps) \<subseteq> set cs"
  from assms(4) f obtain qs where qs: "distinct (map fst qs)" "text_pairs_of m = Inr qs" "mapping_items m = Inr (map (\<lambda>(k, w). (PStr k, PStr w)) qs)"
    by (auto simp: followed_def elim!: plain_mappingE)
  with ps have "qs = ps" by simp
  with qs f assms(3) rename_flow_same [OF assms(1,2), of ps] sub
  show "same_columns cols (map (\<lambda>c. case map_of ps c of None \<Rightarrow> c | Some n \<Rightarrow> n) cs)" by (auto simp: flow_fields_def)
next
  assume f: "f = AggregateFields i (PList (map PStr gs)) (PList as)" and aggs: "mapE aggregation_of as = Inr aggs"
    and sub: "set (gs @ map fst aggs) \<subseteq> set cs"
  from assms(4) f have "list_all plain_aggregation as" by (simp add: followed_def)
  from plain_aggregations [OF this, of name inp available] aggs
  have flows: "map (aggregation_flow name inp available) as =
     map (\<lambda>cf. (append_missing_column_error name ''aggregations.column'' (PStr (fst cf)) inp available,
       if among (PStr (fst cf)) available then [PStr (flat_name cf)] else [])) aggs" by auto
  have "\<forall>cf \<in> set aggs. among (PStr (fst cf)) available" using sub among_same [OF assms(1)] by auto
  then have "concat (map snd (map (aggregation_flow name inp available) as)) = map (PStr \<circ> flat_name) aggs"
    unfolding flows by (induction aggs) simp_all
  then show "cols = map PStr (gs @ map flat_name aggs)"
    using assms(3) f present_all [OF assms(1), of gs] sub by (auto simp: flow_fields_def Let_def)
next
  assume "f = UnpivotFields i (PList (map PStr ids)) (PList (map PStr vals)) (PStr vn) (PStr vl)" and "set ids \<subseteq> set cs"
  then show "same_columns cols (ids @ [vn, vl])" using assms(3) present_all [OF assms(1)]
    by (auto simp: flow_fields_def same_columns_def)
qed (use assms in \<open>auto simp: flow_fields_def bindE_eq_Inr_iff\<close>)

definition tracked :: "('t, 'd) pandas \<Rightarrow> step_config \<Rightarrow> validation_error list \<Rightarrow> pyval list \<Rightarrow> 't step_result \<Rightarrow> bool" where
  "tracked pd st es cols res \<longleftrightarrow>
     same_columns cols (cols_of pd (output_table res)) \<and> distinct (cols_of pd (output_table res)) \<and> (strict (cfg_fields st) \<longrightarrow> es = [])"

lemma single_tracked:
  assumes "knows pd schema reg" and "input_attr (cfg_fields st) = Some (PStr inp)" and "inp \<noteq> []"
    and "followed schema (cfg_fields st)" and "flow_step files st schema = Inr (es, cols)"
    and "reads pd reg inp need P r" and "r = Inr (c, Inr res)"
    and need: "strict (cfg_fields st) \<Longrightarrow> needed_columns (cfg_fields st) = Inr need"
    and step: "\<And>cs. flow_fields (step_name st) (cfg_fields st) (PStr inp) (known_columns schema (PStr inp)) = Inr (es, cols) \<Longrightarrow>
      same_columns (known_columns schema (PStr inp)) cs \<Longrightarrow> distinct cs \<Longrightarrow> set need \<subseteq> set cs \<Longrightarrow>
      P cs (cols_of pd (output_table res)) \<Longrightarrow> same_columns cols (cols_of pd (output_table res))"
  shows "tracked pd st es cols res"
proof -
  have flow: "flow_fields (step_name st) (cfg_fields st) (PStr inp) (known_columns schema (PStr inp)) = Inr (es, cols)"
    using flow_step_single [OF assms(2,3)] assms(5) by simp
  from assms(6,7) obtain t where t: "dict_get reg (PStr inp) = Some t" "set need \<subseteq> set (cols_of pd t)"
    "distinct (cols_of pd t) \<longrightarrow> distinct (cols_of pd (output_table res))" "P (cols_of pd t) (cols_of pd (output_table res))"
    by (auto simp: reads_def)
  note known = knows_table [OF assms(1) t(1)]
  have "es = []" if "strict (cfg_fields st)"
    using flow_fields_errors [OF _ assms(4) _ that flow] known need [OF that] t(2) assms(2) by auto
  with step [OF flow] known t show ?thesis by (auto simp: tracked_def)
qed

lemma followed_input: "followed schema f \<Longrightarrow> input_attr f = Some v \<Longrightarrow> \<exists>inp. v = PStr inp \<and> inp \<noteq> []"
  by (cases f) (auto simp: followed_def elim!: plain_textE)

lemma equal_columns: "same_columns cols cs \<Longrightarrow> cs = out \<Longrightarrow> same_columns cols out"
  by simp

lemma same_columns_mset: "same_columns cols cs \<Longrightarrow> mset cs = mset out \<Longrightarrow> same_columns cols out"
  by (simp add: same_columns_def)

lemma one_input_tracked:
  assumes laws: "column_laws pd" and knows: "knows pd schema reg" and foll: "followed schema (cfg_fields st)"
    and flow: "flow_step files st schema = Inr (es, cols)" and run: "run_step pd ms fs st reg name = Inr (c, Inr res)"
    and inp: "input_attr (cfg_fields st) = Some (PStr inp)" "inp \<noteq> []"
  shows "tracked pd st es cols res"
proof (cases "cfg_fields st")
  case (FilterFields i cc op v)
  with run inp obtain col where run': "execute_filter pd ms reg name inp col op v = Inr (c, Inr res)" and cc: "cc = PStr col"
    by (auto simp: run_step_def)
  show ?thesis
    by (rule single_tracked [OF knows inp foll flow filter_reads [OF laws] run'])
      (auto simp: FilterFields cc intro: equal_columns dest: flow_fields_columns(1) [OF _ _ _ foll [unfolded FilterFields cc]])
next
  case (SelectFields i v)
  with run inp foll obtain ss where run': "execute_select pd ms reg name inp ss = Inr (c, Inr res)" and v: "v = PList (map PStr ss)"
    by (auto simp: run_step_def followed_def elim!: plain_textsE)
  show ?thesis
    by (rule single_tracked [OF knows inp foll flow select_reads [OF laws] run'])
      (auto simp: SelectFields v intro: flow_fields_columns(2) [OF _ _ _ foll])
next
  case (RenameFields i m)
  with run inp obtain ps where run': "execute_rename pd ms reg name inp ps = Inr (c, Inr res)" and ps: "text_pairs_of m = Inr ps"
    by (auto simp: run_step_def)
  show ?thesis
    by (rule single_tracked [OF knows inp foll flow rename_reads [OF laws] run'])
      (auto simp: RenameFields ps intro!: flow_fields_columns(3) [OF _ _ _ foll])
next
  case (AggregateFields i g a)
  with run inp foll obtain gs as aggs where run': "execute_aggregate pd ms reg name inp gs aggs = Inr (c, Inr res)"
    and g: "g = PList (map PStr gs)" "a = PList as" "mapE aggregation_of as = Inr aggs"
    by (cases a) (auto simp: run_step_def followed_def list_of_def elim!: plain_textsE)
  show ?thesis
  proof (rule single_tracked [OF knows inp foll flow aggregate_reads [OF laws] run'], goal_cases)
    case 1
    then show ?case by (simp add: AggregateFields g list_of_def)
  next
    case (2 cs)
    have "cols = map PStr (gs @ map flat_name aggs)"
      by (rule flow_fields_columns(4) [OF 2(2,3,1) foll _ g(3)]) (use 2(4) in \<open>simp_all add: AggregateFields g\<close>)
    with 2(5) show ?case using same_columns_map [of "cols_of pd (output_table res)" "gs @ map flat_name aggs"] by simp
  qed
next
  case (SortFields i b ord asc)
  with run inp have run': "execute_sort pd ms reg name inp b ord asc = Inr (c, Inr res)" by (auto simp: run_step_def)
  show ?thesis
    by (rule single_tracked [OF knows inp foll flow sort_reads [OF laws] run'])
      (auto simp: SortFields intro: equal_columns dest: flow_fields_columns(5) [OF _ _ _ foll [unfolded SortFields]])
next
  case (SaveFields i f)
  with run inp obtain fname where run': "execute_save pd ms reg (current_run_id fs) name inp fname = Inr (c, Inr res)" by (auto simp: run_step_def)
  show ?thesis
    by (rule single_tracked [OF knows inp foll flow watch_reads(1) run'])
      (auto simp: SaveFields intro: equal_columns dest: flow_fields_columns(6) [OF _ _ _ foll [unfolded SaveFields]])
next
  case (ValidateFields i r)
  with run inp obtain rs where run': "execute_validate pd ms reg name inp rs = Inr (c, Inr res)" by (auto simp: run_step_def)
  show ?thesis
    by (rule single_tracked [OF knows inp foll flow watch_reads(2) run'])
      (auto simp: ValidateFields strict_def intro: equal_columns dest: flow_fields_columns(7) [OF _ _ _ foll [unfolded ValidateFields]])
next
  case (UnpivotFields i ids vs vn vl)
  with run inp foll obtain idl vals vname valname where
    run': "execute_unpivot pd ms reg name inp idl vals (PStr vname) (PStr valname) = Inr (c, Inr res)"
    and v: "ids = PList (map PStr idl)" "vs = PList (map PStr vals)" "vn = PStr vname" "vl = PStr valname"
    by (auto simp: run_step_def followed_def elim!: plain_textsE plain_textE)
  show ?thesis
    by (rule single_tracked [OF knows inp foll flow unpivot_reads [OF laws] run'])
      (auto simp: UnpivotFields v intro: flow_fields_columns(8) [OF _ _ _ foll])
next
  case (DeduplicateFields i v k)
  with run inp obtain sub where run': "execute_deduplicate pd ms reg name inp sub k = Inr (c, Inr res)" and v: "texts_of v = Inr sub"
    by (auto simp: run_step_def)
  show ?thesis
    by (rule single_tracked [OF knows inp foll flow deduplicate_reads [OF laws] run'])
      (auto simp: DeduplicateFields v intro: equal_columns dest: flow_fields_columns(9) [OF _ _ _ foll [unfolded DeduplicateFields]])
next
  case (FillNullsFields i v vs w)
  with run inp obtain strat fcols where run': "execute_fill_nulls pd ms reg name inp strat fcols w = Inr (c, Inr res)"
    and v: "v = PStr strat" "texts_of vs = Inr fcols"
    by (auto simp: run_step_def)
  show ?thesis
    by (rule single_tracked [OF knows inp foll flow fill_reads [OF laws] run'])
      (auto simp: FillNullsFields v intro: equal_columns dest: flow_fields_columns(10) [OF _ _ _ foll [unfolded FillNullsFields]])
next
  case (SampleFields i n fr rs sb)
  with run inp obtain num fract strat where run': "execute_sample pd ms reg name inp num fract rs strat = Inr (c, Inr res)"
    by (auto simp: run_step_def)
  show ?thesis
    by (rule single_tracked [OF knows inp foll flow sample_reads [OF laws] run'])
      (auto simp: SampleFields strict_def intro: equal_columns dest: flow_fields_columns(11) [OF _ _ _ foll [unfolded SampleFields]])
next
  case (StreamPublishFields i tpc s k)
  with run inp obtain topic_name where run': "execute_stream_publish pd ms reg name inp topic_name k = Inr (c, Inr res)" by (auto simp: run_step_def)
  show ?thesis
    by (rule single_tracked [OF knows inp foll flow watch_reads(3) run'])
      (auto simp: StreamPublishFields intro: equal_columns dest: flow_fields_columns(12) [OF _ _ _ foll [unfolded StreamPublishFields]])
qed (use foll inp in \<open>auto simp: followed_def\<close>)

text \<open>Loads and joins.\<close>

lemma load_tracked:
  assumes "column_laws pd" and known: "files_known pd ms fs files" and foll: "followed schema (cfg_fields st)"
    and flow: "flow_step files st schema = Inr (es, cols)" and run: "run_load pd ms fs st = Inr (c, Inr res)"
    and load: "cfg_fields st = LoadFields fid al"
  shows "tracked pd st es cols res"
proof -
  from run load obtain name fname where fid: "fid = PStr fname"
    and run': "execute_load pd ms (file_paths fs) (file_metadata fs) (user_role fs) name fname = Inr (c, Inr res)"
    by (auto simp: run_load_def)
  with known obtain fcols where "files (PStr fname) = Some fcols" "mset fcols = mset (cols_of pd (output_table res))"
    unfolding files_known_def by blast
  moreover have "fname \<noteq> []" using foll by (auto simp: load fid followed_def elim!: plain_textE)
  moreover have "distinct (cols_of pd (output_table res))"
    using run' arrow_law [OF assms(1)] by (auto simp: execute_load_def outcome_simps)
  ultimately show ?thesis using flow by (auto simp: flow_step_def load fid tracked_def same_columns_map)
qed

lemma flow_step_join:
  assumes "cfg_fields st = JoinFields (PStr l) (PStr r) key h"
  shows "flow_step files st schema =
    Inr (join_key_error (step_name st) key ''left'' (PStr l) (known_columns schema (PStr l)) @
           join_key_error (step_name st) key ''right'' (PStr r) (known_columns schema (PStr r)),
         merge_columns key (known_columns schema (PStr l)) (known_columns schema (PStr r)))"
  using assms by (simp add: flow_step_def schema_get_def hashable_def known_columns_def Let_def)

lemma join_key_error_same:
  "key \<noteq> [] \<Longrightarrow> same_columns cols cs \<Longrightarrow> join_key_error name key side inp cols = [] \<longleftrightarrow> key \<in> set cs"
  using among_same [of cols cs key] by (simp add: join_key_error_def del: among_PStr)

lemma join_tracked:
  assumes laws: "column_laws pd" and knows: "knows pd schema reg" and foll: "followed schema (cfg_fields st)"
    and flow: "flow_step files st schema = Inr (es, cols)" and run: "run_step pd ms fs st reg name = Inr (c, Inr res)"
    and join: "cfg_fields st = JoinFields l r key h"
  shows "tracked pd st es cols res"
proof -
  from run join obtain ln rn where names: "l = PStr ln" "r = PStr rn" and run': "execute_join pd ms reg name ln rn key h = Inr (c, Inr res)"
    by (auto simp: run_step_def)
  from run' obtain lt rt hv joined where t: "dict_get reg (PStr ln) = Some lt" "dict_get reg (PStr rn) = Some rt"
    and key: "key \<in> set (cols_of pd lt)" "key \<in> set (cols_of pd rt)"
    and merge: "df_merge pd key hv (to_pandas pd lt) (to_pandas pd rt) = Inr joined" and out: "from_pandas pd joined = Inr (output_table res)"
    by (auto simp: execute_join_def outcome_simps validate_join_key_def split: if_splits)
  note left = knows_table [OF knows t(1)] and right = knows_table [OF knows t(2)]
  have "set (known_columns schema l) \<inter> set (known_columns schema r) \<subseteq> {PStr key}" and ne: "key \<noteq> []"
    using foll by (auto simp: followed_def join)
  then have "PStr ` set (cols_of pd lt) \<inter> PStr ` set (cols_of pd rt) \<subseteq> {PStr key}"
    using same_columns_set [OF left [THEN conjunct1]] same_columns_set [OF right [THEN conjunct1]] by (simp add: names)
  then have sep: "set (cols_of pd lt) \<inter> set (cols_of pd rt) \<subseteq> {key}" by auto
  have "cols_of pd (output_table res) = cols_of pd lt @ filter (\<lambda>c. c \<noteq> key) (cols_of pd rt)" "distinct (cols_of pd (output_table res))"
    using arrow_law [OF laws out] merge_law [OF laws merge] sep by auto
  moreover have "same_columns (merge_columns key (known_columns schema l) (known_columns schema r))
      (cols_of pd lt @ filter (\<lambda>c. c \<noteq> key) (cols_of pd rt))"
    unfolding names using left right sep by (intro merge_columns_same) auto
  moreover have "es = []" "cols = merge_columns key (known_columns schema l) (known_columns schema r)"
    using flow flow_step_join [OF join [unfolded names]] join_key_error_same [OF ne left [THEN conjunct1]]
      join_key_error_same [OF ne right [THEN conjunct1]] key
    by (auto simp: names)
  ultimately show ?thesis by (simp add: tracked_def)
qed

lemma step_tracked:
  assumes laws: "column_laws pd" and known: "files_known pd ms fs files" and knows: "knows pd schema reg"
    and foll: "followed schema (cfg_fields st)" and flow: "flow_step files st schema = Inr (es, cols)"
    and run: "pandas_step pd ms fs st reg = Inr (c, Inr res)"
  shows "tracked pd st es cols res"
proof (cases "input_attr (cfg_fields st)")
  case (Some v)
  with followed_input [OF foll] obtain inp where inp: "input_attr (cfg_fields st) = Some (PStr inp)" "inp \<noteq> []" by blast
  obtain name where "run_step pd ms (fs\<lparr>file_paths := [], file_metadata := []\<rparr>) st reg name = Inr (c, Inr res)"
    by (rule pandas_step_run [OF run]) (use inp in simp_all)
  from one_input_tracked [OF laws knows foll flow this inp] show ?thesis .
next
  case None
  show ?thesis
  proof (cases "cfg_fields st")
    case (LoadFields fid al)
    with run have "run_load pd ms fs st = Inr (c, Inr res)" by (simp add: pandas_step_def)
    from load_tracked [OF laws known foll flow this LoadFields] show ?thesis .
  next
    case (JoinFields l r key h)
    obtain name where "run_step pd ms (fs\<lparr>file_paths := [], file_metadata := []\<rparr>) st reg name = Inr (c, Inr res)"
      by (rule pandas_step_run [OF run]) (use JoinFields in simp_all)
    from join_tracked [OF laws knows foll flow this JoinFields] show ?thesis .
  qed (use None foll in \<open>auto simp: followed_def\<close>)
qed

text \<open>The checks of the executors: all needed columns, and the key on both sides of a join.\<close>

definition column_checks_pass :: "('t, 'd) pandas \<Rightarrow> (pyval \<times> 't) list \<Rightarrow> step_config \<Rightarrow> bool" where
  "column_checks_pass pd reg st \<longleftrightarrow>
     (case cfg_fields st of
        JoinFields l r key h \<Rightarrow> \<forall>lt rt. dict_get reg l = Some lt \<longrightarrow> dict_get reg r = Some rt \<longrightarrow> key \<in> set (cols_of pd lt) \<inter> set (cols_of pd rt)
      | f \<Rightarrow> \<forall>i t need. input_attr f = Some i \<longrightarrow> dict_get reg i = Some t \<longrightarrow> needed_columns f = Inr need \<longrightarrow> set need \<subseteq> set (cols_of pd t))"

lemma column_checks_single:
  "input_attr (cfg_fields st) = Some (PStr inp) \<Longrightarrow> needed_columns (cfg_fields st) = Inr need \<Longrightarrow>
   (\<And>t. dict_get reg (PStr inp) = Some t \<Longrightarrow> set need \<subseteq> set (cols_of pd t)) \<Longrightarrow> column_checks_pass pd reg st"
  by (cases "cfg_fields st") (simp_all add: column_checks_pass_def)

lemma needed_lenient: "\<not> strict f \<Longrightarrow> needed_columns f = Inr []"
  by (cases f) (simp_all add: strict_def)

lemma accepted_step:
  assumes knows: "knows pd schema reg" and foll: "followed schema (cfg_fields st)" and flow: "flow_step files st schema = Inr ([], cols)"
  shows "column_checks_pass pd reg st"
proof (cases "input_attr (cfg_fields st)")
  case (Some v)
  with followed_input [OF foll] obtain inp where inp: "input_attr (cfg_fields st) = Some (PStr inp)" "inp \<noteq> []" by blast
  from flow flow_step_single [OF inp] have flow': "flow_fields (step_name st) (cfg_fields st) (PStr inp) (known_columns schema (PStr inp)) = Inr ([], cols)"
    by simp
  show ?thesis
  proof (cases "strict (cfg_fields st)")
    case False
    from column_checks_single [OF inp(1) needed_lenient [OF False]] show ?thesis by simp
  next
    case True
    show ?thesis
    proof (cases "dict_get reg (PStr inp)")
      case None
      with inp(1) show ?thesis by (cases "cfg_fields st") (simp_all add: column_checks_pass_def)
    next
      case (Some t)
      note known = knows_table [OF knows Some]
      from flow_fields_errors [OF known [THEN conjunct1] foll _ True flow'] inp(1)
      obtain need where "needed_columns (cfg_fields st) = Inr need" "set need \<subseteq> set (cols_of pd t)" by auto
      with Some show ?thesis by (intro column_checks_single [OF inp(1)]) auto
    qed
  qed
next
  case None
  show ?thesis
  proof (cases "cfg_fields st")
    case (JoinFields l r key h)
    from foll obtain ln rn where names: "l = PStr ln" "r = PStr rn" and ne: "key \<noteq> []"
      by (auto simp: followed_def JoinFields elim!: plain_textE)
    have "key \<in> set (cols_of pd lt)" "key \<in> set (cols_of pd rt)" if "dict_get reg l = Some lt" "dict_get reg r = Some rt" for lt rt
      using knows_table [OF knows, of ln lt] knows_table [OF knows, of rn rt] that flow flow_step_join [OF JoinFields [unfolded names]]
        join_key_error_same [OF ne]
      by (auto simp: names)
    then show ?thesis by (simp add: column_checks_pass_def JoinFields)
  qed (use None in \<open>simp_all add: column_checks_pass_def\<close>)
qed

lemma flow_run:
  assumes laws: "column_laws pd" and known: "files_known pd ms fs files"
  shows "all_followed files sts schema \<Longrightarrow> flow_steps files sts schema = Inr (es, schema') \<Longrightarrow> knows pd schema reg \<Longrightarrow>
    (es = [] \<longrightarrow> (\<forall>front st later reg'. sts = front @ st # later \<longrightarrow> run_in_pandas pd ms fs front reg = Inr reg' \<longrightarrow> column_checks_pass pd reg' st)) \<and>
    ((\<exists>reg'. run_in_pandas pd ms fs sts reg = Inr reg') \<and> list_all (strict \<circ> cfg_fields) sts \<longrightarrow> es = [])"
proof (induction sts arbitrary: schema reg es)
  case (Cons st sts)
  from Cons.prems(1) obtain es1 cols where flow: "flow_step files st schema = Inr (es1, cols)" and foll: "followed schema (cfg_fields st)"
    and name: "plain_text (step_name st)" and rest: "all_followed files sts (dict_set schema (step_name st) cols)"
    by (auto split: sum.splits prod.splits)
  from name obtain n where n: "step_name st = PStr n" by (rule plain_textE)
  from Cons.prems(2) flow obtain es2 where es: "es = es1 @ es2"
    and flows: "flow_steps files sts (dict_set schema (PStr n) cols) = Inr (es2, schema')"
    by (auto simp: n hashable_def bindE_eq_Inr_iff split: prod.splits)
  have step: "tracked pd st es1 cols res \<and> knows pd (dict_set schema (PStr n) cols) (dict_set reg (PStr n) (output_table res))"
    if "pandas_step pd ms fs st reg = Inr (c, Inr res)" for c res
    using step_tracked [OF laws known Cons.prems(3) foll flow that] knows_extend [OF Cons.prems(3)] by (auto simp: tracked_def)
  have IH: "(es2 = [] \<longrightarrow> (\<forall>front s later reg'. sts = front @ s # later \<longrightarrow>
        run_in_pandas pd ms fs front (dict_set reg (PStr n) (output_table res)) = Inr reg' \<longrightarrow> column_checks_pass pd reg' s)) \<and>
      ((\<exists>reg'. run_in_pandas pd ms fs sts (dict_set reg (PStr n) (output_table res)) = Inr reg') \<and> list_all (strict \<circ> cfg_fields) sts \<longrightarrow> es2 = [])"
    if "pandas_step pd ms fs st reg = Inr (c, Inr res)" for c res
    using Cons.IH [OF rest [unfolded n] flows] step [OF that] by blast
  show ?case
  proof (intro conjI impI allI)
    fix front s later reg'
    assume "es = []" and split: "st # sts = front @ s # later" and run: "run_in_pandas pd ms fs front reg = Inr reg'"
    show "column_checks_pass pd reg' s"
    proof (cases front)
      case Nil
      with split run have "s = st" "reg' = reg" by auto
      with accepted_step [OF Cons.prems(3) foll] flow es \<open>es = []\<close> show ?thesis by simp
    next
      case (Cons f front')
      with split have front: "front = st # front'" and "sts = front' @ s # later" by auto
      moreover obtain c res where "pandas_step pd ms fs st reg = Inr (c, Inr res)"
        "run_in_pandas pd ms fs front' (dict_set reg (PStr n) (output_table res)) = Inr reg'"
        using run unfolding front by (auto simp: n)
      ultimately show ?thesis using IH es \<open>es = []\<close> by blast
    qed
  next
    assume "(\<exists>reg'. run_in_pandas pd ms fs (st # sts) reg = Inr reg') \<and> list_all (strict \<circ> cfg_fields) (st # sts)"
    then obtain c res reg' where run: "pandas_step pd ms fs st reg = Inr (c, Inr res)"
      and "run_in_pandas pd ms fs sts (dict_set reg (PStr n) (output_table res)) = Inr reg'" "strict (cfg_fields st)" "list_all (strict \<circ> cfg_fields) sts"
      by (auto simp: n)
    with IH [OF run] step [OF run] show "es = []" by (auto simp: es tracked_def)
  qed
qed simp

section \<open>Properties\<close>


definition framed :: "(frame, frame) pandas" where
  "framed = (demo_pandas (Inr []))\<lparr>
     from_pandas := (\<lambda>f. if distinct (map fst f) then Inr f else Inl (ValueError ''Duplicate column names found'')),
     df_select := (\<lambda>cs f. Inr (map (\<lambda>c. (c, case map_of f c of None \<Rightarrow> [] | Some cells \<Rightarrow> cells)) cs)),
     df_merge := (\<lambda>key h l r. Inr (l @ filter (\<lambda>(c, cells). c \<noteq> key) r)),
     df_group_agg := (\<lambda>gs agg f. Inr (map (\<lambda>c. (c, [])) (gs @ map flat_name (agg_labels agg)), agg_labels agg)),
     df_set_columns := (\<lambda>names f. take (length f - length names) f @ map (\<lambda>c. (c, [])) names),
     df_melt := (\<lambda>ids vs vn vl f. case (vn, vl) of (PStr a, PStr b) \<Rightarrow> Inr (map (\<lambda>c. (c, [])) (ids @ [a, b])) | _ \<Rightarrow> Inl TypeError),
     df_concat := (\<lambda>gs. case gs of [] \<Rightarrow> Inl (ValueError ''No objects to concatenate'') | g # _ \<Rightarrow> Inr g)\<rparr>"

lemma framed_lawful: "column_laws framed"
  by (auto simp: column_laws_def framed_def demo_pandas_def agg_labels_def comp_def split_def filter_map
      split: if_splits list.splits option.splits)

definition stored_files :: "pyval \<Rightarrow> string list option" where
  "stored_files v = (if v = PStr ''f1'' then Some [''id'', ''ssn''] else None)"

definition load_and :: "step_config list \<Rightarrow> pipeline_config" where
  "load_and sts = \<lparr>pipeline_name = PStr ''p'', description = PNone, steps = demo_step ''a'' LOAD (LoadFields (PStr ''f1'') PNone) # sts\<rparr>"

lemma framed_load: "\<exists>c res. execute_load framed 0 (file_paths demo_files) (file_metadata demo_files) (user_role demo_files) name ''f1'' = Inr (c, Inr res) \<and>
  map fst (output_table res) = [''id'', ''ssn'']"
proof -
  have "py_lower (path_suffix ''data/f1.csv'') = ''.csv''" by code_simp
  then show ?thesis
    by (simp add: execute_load_def read_file_def supported_file_extensions_def enforce_policies_def Let_def demo_files_def framed_def demo_pandas_def)
qed

lemma framed_files: "files_known framed 0 demo_files stored_files"
  unfolding files_known_def
proof (intro allI impI)
  fix name fid c res
  assume run: "execute_load framed 0 (file_paths demo_files) (file_metadata demo_files) (user_role demo_files) name fid = Inr (c, Inr res)"
  have "py_lower (path_suffix []) = []" by code_simp
  with run have "fid = ''f1''"
    by (cases "fid = ''f1''") (auto simp: execute_load_def read_file_def supported_file_extensions_def Let_def demo_files_def)
  then show "\<exists>cols. stored_files (PStr fid) = Some cols \<and> mset cols = mset (cols_of framed (output_table res))"
    using run framed_load [of name] by (auto simp: stored_files_def framed_def demo_pandas_def)
qed


section \<open>Where the simulation guesses\<close>

text \<open>Columns that a query computes are unknown to the simulation: a step that uses one is reported, and such a pipeline cannot be run.\<close>

theorem query_columns_rejected:
  "map err_field (projr (collect_schema_validation_errors stored_files (load_and
     [demo_step ''q'' SQL (SqlFields (PStr ''a'') (PStr ''SELECT id AS total FROM __input__'')),
      demo_step ''s'' SELECT (SelectFields (PStr ''q'') (PList [PStr ''total'']))]))) = [''columns'']"
  by code_simp

text \<open>Both sides of this join have the column ssn, which pandas renames to \<^verbatim>\<open>ssn_left\<close> and \<^verbatim>\<open>ssn_right\<close>; the simulation accepts a step that
  uses ssn and reports one that uses \<^verbatim>\<open>ssn_left\<close>.\<close>

theorem join_suffixes_ignored:
  "collect_schema_validation_errors stored_files (load_and
     [demo_step ''b'' LOAD (LoadFields (PStr ''f1'') PNone),
      demo_step ''j'' JOIN (JoinFields (PStr ''a'') (PStr ''b'') ''id'' (Inr INNER)),
      demo_step ''s'' SELECT (SelectFields (PStr ''j'') (PList [PStr ''ssn'']))]) = Inr [] \<and>
   map err_field (projr (collect_schema_validation_errors stored_files (load_and
     [demo_step ''b'' LOAD (LoadFields (PStr ''f1'') PNone),
      demo_step ''j'' JOIN (JoinFields (PStr ''a'') (PStr ''b'') ''id'' (Inr INNER)),
      demo_step ''s'' SELECT (SelectFields (PStr ''j'') (PList [PStr ''ssn_left'']))]))) = [''columns'']"
  by code_simp

text \<open>The columns of a pivot are taken to be the index and \<^verbatim>\<open><values>_pivoted\<close>, which no pivot makes.\<close>

theorem pivot_columns_invented:
  "snd (projr (flow_fields (PStr ''p'') (PivotFields (PStr ''a'') (PList [PStr ''id'']) (PStr ''month'') (PStr ''amount'') (PStr ''sum'') (PInt 0))
     (PStr ''a'') [PStr ''id'', PStr ''month'', PStr ''amount''])) = [PStr ''id'', PStr ''amount_pivoted'']"
  by code_simp

text \<open>A rule for a column that is missing only counts as failed when the pipeline runs; the simulation refuses the run.\<close>

theorem warned_rule_rejected:
  "map err_field (projr (collect_schema_validation_errors stored_files (load_and
     [demo_step ''v'' VALIDATE (ValidateFields (PStr ''a'') (PList [PDict [(PStr ''check'', PStr ''not_null''),
        (PStr ''column'', PStr ''email''), (PStr ''severity'', PStr ''info'')]]))]))) = [''rules.column'']"
  by code_simp

end
