(* ===== verification/CronText.thy ===== *)
theory CronText
  imports PyNum
begin

text \<open>
  \<^verbatim>\<open>backend/scheduling/cron_utils.py\<close> and the cron expressions that \<^verbatim>\<open>backend/api/schedules.py\<close> accepts: their spellings, their
  descriptions for people, and the next times.  \<^verbatim>\<open>croniter\<close> is a parameter.  Times are numbers.
\<close>

section \<open>Definitions\<close>

text \<open>The constructor with its check, \<^verbatim>\<open>is_valid\<close>, and the next time after another.\<close>

record croniter =
  cron_accepts :: "string \<Rightarrow> unit result"
  cron_valid :: "string \<Rightarrow> bool result"
  cron_after :: "string \<Rightarrow> int \<Rightarrow> int result"

definition validate_cron :: "croniter \<Rightarrow> (pyexn \<Rightarrow> string) \<Rightarrow> string \<Rightarrow> bool \<times> string" where
  "validate_cron cr exn_str expression =
     (if py_strip expression = [] then (False, ''Cron expression must not be empty'')
      else case cron_valid cr (py_strip expression) of
          Inl e \<Rightarrow> (False, exn_str e)
        | Inr valid \<Rightarrow> if \<not> valid then (False, ''Invalid cron expression: '' @ [CHR 0x27] @ expression @ [CHR 0x27]) else (True, []))"

definition get_next_run_at :: "croniter \<Rightarrow> string \<Rightarrow> int \<Rightarrow> int result" where
  "get_next_run_at cr expression from_time =
     bindE (cron_accepts cr (py_strip expression)) (\<lambda>_. cron_after cr (py_strip expression) from_time)"

fun runs_after :: "croniter \<Rightarrow> string \<Rightarrow> nat \<Rightarrow> int \<Rightarrow> int list result" where
  "runs_after cr expression 0 t = Inr []"
| "runs_after cr expression (Suc n) t =
     bindE (cron_after cr expression t) (\<lambda>t'. bindE (runs_after cr expression n t') (\<lambda>ts. Inr (t' # ts)))"

definition get_next_n_runs :: "croniter \<Rightarrow> string \<Rightarrow> int \<Rightarrow> int \<Rightarrow> int list result" where
  "get_next_n_runs cr expression n now =
     bindE (cron_accepts cr (py_strip expression)) (\<lambda>_. runs_after cr (py_strip expression) (nat n) now)"

definition cron_human_map :: "(string \<times> string) list" where
  "cron_human_map =
     [(''0 * * * *'', ''every hour''), (''0 */2 * * *'', ''every 2 hours''), (''0 */4 * * *'', ''every 4 hours''),
      (''0 */6 * * *'', ''every 6 hours''), (''0 */12 * * *'', ''every 12 hours''), (''0 0 * * *'', ''every day at midnight''),
      (''0 6 * * *'', ''every day at 6:00 AM''), (''0 8 * * *'', ''every day at 8:00 AM''), (''0 9 * * *'', ''every day at 9:00 AM''),
      (''0 12 * * *'', ''every day at noon''), (''0 18 * * *'', ''every day at 6:00 PM''), (''0 0 * * 0'', ''every Sunday at midnight''),
      (''0 9 * * 1'', ''every Monday at 9:00 AM''), (''0 6 * * 1'', ''every Monday at 6:00 AM''),
      (''0 9 * * 2'', ''every Tuesday at 9:00 AM''), (''0 9 * * 3'', ''every Wednesday at 9:00 AM''),
      (''0 9 * * 4'', ''every Thursday at 9:00 AM''), (''0 9 * * 5'', ''every Friday at 9:00 AM''),
      (''0 0 1 * *'', ''on the 1st of every month''), (''0 0 1 1 *'', ''on January 1st''), (''*/5 * * * *'', ''every 5 minutes''),
      (''*/15 * * * *'', ''every 15 minutes''), (''*/30 * * * *'', ''every 30 minutes'')]"

definition dow_names :: "(string \<times> string) list" where
  "dow_names =
     [(''0'', ''Sunday''), (''1'', ''Monday''), (''2'', ''Tuesday''), (''3'', ''Wednesday''), (''4'', ''Thursday''), (''5'', ''Friday''),
      (''6'', ''Saturday''), (''7'', ''Sunday'')]"

text \<open>\<^verbatim>\<open>isdigit\<close> also holds of superscripts, which \<^verbatim>\<open>int\<close> does not read, nor does it read more than 4300 digits.\<close>

definition ascii_digit :: "char \<Rightarrow> bool" where
  "ascii_digit c \<longleftrightarrow> 48 \<le> cp c \<and> cp c \<le> 57"

definition py_isdigit :: "string \<Rightarrow> bool" where
  "py_isdigit s \<longleftrightarrow> s \<noteq> [] \<and> list_all (\<lambda>c. ascii_digit c \<or> cp c \<in> {178, 179, 185}) s"

definition digits_value :: "string \<Rightarrow> int" where
  "digits_value s = foldl (\<lambda>n c. 10 * n + (int (cp c) - 48)) 0 s"

definition int_of_digits :: "string \<Rightarrow> int result" where
  "int_of_digits s =
     (if list_all ascii_digit s \<and> length s \<le> 4300 then Inr (digits_value s) else Inl (ValueError ''invalid literal for int()''))"

definition two_digits :: "int \<Rightarrow> string" where
  "two_digits m = (if m < 10 then ''0'' else []) @ int_str m"

definition clock_text :: "int \<Rightarrow> int \<Rightarrow> string" where
  "clock_text h m =
     (if h = 0 \<and> m = 0 then ''midnight''
      else if h = 12 \<and> m = 0 then ''noon''
      else let period = (if h < 12 then ''AM'' else ''PM'');
               h12 = (if 1 \<le> h \<and> h \<le> 12 then h else if h > 12 then h - 12 else 12)
        in int_str h12 @ '':'' @ two_digits m @ '' '' @ period)"

definition day_text :: "string \<Rightarrow> string \<Rightarrow> string \<Rightarrow> string" where
  "day_text mday dow time_str =
     (if dow \<noteq> ''*'' then ''every '' @ (case map_of dow_names dow of None \<Rightarrow> ''day '' @ dow | Some d \<Rightarrow> d) @ '' at '' @ time_str
      else if mday \<noteq> ''*'' then ''on the '' @ mday @ '' of every month at '' @ time_str
      else ''every day at '' @ time_str)"

definition build_cron_description :: "string \<Rightarrow> string \<Rightarrow> string \<Rightarrow> string \<Rightarrow> string \<Rightarrow> string result" where
  "build_cron_description minute hour mday month dow =
     (if py_isdigit hour \<and> py_isdigit minute
      then bindE (int_of_digits hour) (\<lambda>h. bindE (int_of_digits minute) (\<lambda>m. Inr (day_text mday dow (clock_text h m))))
      else if starts_with hour ''*/'' then Inr (''every '' @ drop 2 hour @ '' hours'')
      else Inr (day_text mday dow (''at '' @ hour @ '':'' @ minute)))"

definition custom_schedule :: "string \<Rightarrow> string" where
  "custom_schedule s = ''custom schedule: '' @ s"

definition cron_to_human :: "string \<Rightarrow> string" where
  "cron_to_human expression =
     (let normalized = py_strip expression in
      case map_of cron_human_map normalized of
        Some t \<Rightarrow> t
      | None \<Rightarrow>
          (case split_ws normalized of
             [minute, hour, mday, month, dow] \<Rightarrow>
               (case build_cron_description minute hour mday month dow of
                  Inl e \<Rightarrow> custom_schedule normalized
                | Inr desc \<Rightarrow> if desc = [] then custom_schedule normalized else desc)
           | _ \<Rightarrow> custom_schedule normalized))"

text \<open>The fields that go to the scheduler of Celery: minute, hour, day of the week, day of the month, month.\<close>

definition parse_celery_crontab :: "string \<Rightarrow> (string \<times> string \<times> string \<times> string \<times> string) result" where
  "parse_celery_crontab expression =
     (case split_ws (py_strip expression) of
        [minute, hour, mday, month, dow] \<Rightarrow> Inr (minute, hour, dow, mday, month)
      | _ \<Rightarrow> Inl (ValueError (''Invalid cron expression: '' @ expression)))"

text \<open>The validator of the request that creates a schedule.\<close>

definition spoken_schedules :: "(string \<times> string) list" where
  "spoken_schedules =
     [(''every minute'', ''* * * * *''), (''every 5 minutes'', ''*/5 * * * *''), (''every 15 minutes'', ''*/15 * * * *''),
      (''every 30 minutes'', ''*/30 * * * *''), (''every hour'', ''0 * * * *''), (''hourly'', ''0 * * * *''), (''daily'', ''0 0 * * *''),
      (''midnight'', ''0 0 * * *''), (''weekly'', ''0 0 * * 0''), (''monthly'', ''0 0 1 * *'')]"

definition named_schedules :: "(string \<times> string) list" where
  "named_schedules =
     [(''@yearly'', ''0 0 1 1 *''), (''@annually'', ''0 0 1 1 *''), (''@monthly'', ''0 0 1 * *''), (''@weekly'', ''0 0 * * 0''),
      (''@daily'', ''0 0 * * *''), (''@midnight'', ''0 0 * * *''), (''@hourly'', ''0 * * * *'')]"

definition invalid_cron :: "string \<Rightarrow> string" where
  "invalid_cron value =
     (let q = [CHR 0x27] in ''Invalid cron expression '' @ q @ value @ q @ ''. Use format like '' @ q @ ''*/5 * * * *'' @ q @ '', '' @
      q @ ''0 * * * *'' @ q @ '' (hourly), '' @ q @ ''0 0 * * *'' @ q @ '' (daily)'')"

definition requested_cron :: "croniter \<Rightarrow> string \<Rightarrow> string result" where
  "requested_cron cr value =
     (if py_strip value = [] then Inl (ValueError ''Cron expression is required'')
      else let normalized = py_lower (py_strip value) in
        case map_of spoken_schedules normalized of
          Some e \<Rightarrow> Inr e
        | None \<Rightarrow>
            (case (if starts_with normalized ''@'' then map_of named_schedules normalized else None) of
               Some e \<Rightarrow> Inr e
             | None \<Rightarrow>
                 (case cron_accepts cr value of
                    Inr _ \<Rightarrow> Inr value
                  | Inl (ValueError m) \<Rightarrow> Inl (ValueError (invalid_cron value))
                  | Inl KeyError \<Rightarrow> Inl (ValueError (invalid_cron value))
                  | Inl e \<Rightarrow> Inl e)))"

section \<open>Next times\<close>

definition advances :: "croniter \<Rightarrow> bool" where
  "advances cr \<longleftrightarrow> (\<forall>e t t'. cron_after cr e t = Inr t' \<longrightarrow> t < t')"

lemma runs_after_increase:
  "advances cr \<Longrightarrow> runs_after cr e n t = Inr ts \<Longrightarrow> length ts = n \<and> sorted_wrt (<) (t # ts)"
proof (induction n arbitrary: t ts)
  case 0
  then show ?case by simp
next
  case (Suc n)
  then obtain t' us where us: "cron_after cr e t = Inr t'" "runs_after cr e n t' = Inr us" "ts = t' # us" by auto
  with Suc have "length us = n \<and> sorted_wrt (<) (t' # us)" "t < t'" by (auto simp: advances_def)
  with us(3) show ?case by force
qed

lemma next_runs_increase:
  assumes "advances cr" and "get_next_n_runs cr e n now = Inr ts"
  shows "length ts = nat n \<and> sorted_wrt (<) (now # ts) \<and> (0 < n \<longrightarrow> get_next_run_at cr e now = Inr (hd ts))"
proof -
  obtain u where ts: "cron_accepts cr (py_strip e) = Inr u" "runs_after cr (py_strip e) (nat n) now = Inr ts"
    using assms(2) by (auto simp: get_next_n_runs_def)
  moreover have "cron_after cr (py_strip e) now = Inr (hd ts)" if "0 < n"
    using ts(2) that by (cases "nat n") auto
  ultimately show ?thesis using runs_after_increase [OF assms(1) ts(2)] by (auto simp: get_next_run_at_def)
qed

section \<open>Descriptions\<close>

lemma cp_digit_char: "d < 10 \<Longrightarrow> cp (digit_char d) = 48 + d"
  by (simp add: digit_char_def cp_def)

lemma digits_value_snoc: "digits_value (s @ [c]) = 10 * digits_value s + (int (cp c) - 48)"
  by (simp add: digits_value_def)

lemma digits_value_nat_str: "digits_value (nat_str n) = int n"
proof (induction n rule: nat_str.induct)
  case (1 n)
  show ?case
  proof (cases "n < 10")
    case True
    then show ?thesis by (subst nat_str.simps) (simp add: digits_value_def cp_digit_char)
  next
    case False
    with 1 have "digits_value (nat_str n) = 10 * int (n div 10) + (int (cp (digit_char (n mod 10))) - 48)"
      by (subst nat_str.simps) (simp add: digits_value_snoc)
    moreover have "10 * int (n div 10) + int (n mod 10) = int n"
      by (metis mult_div_mod_eq of_nat_add of_nat_mult of_nat_numeral)
    ultimately show ?thesis by (simp add: cp_digit_char)
  qed
qed

lemma digits_value_int_str: "0 \<le> i \<Longrightarrow> digits_value (int_str i) = i"
  by (simp add: int_str_def digits_value_nat_str)

lemma digits_value_two_digits: "0 \<le> m \<Longrightarrow> digits_value (two_digits m) = m"
proof -
  have "digits_value (''0'' @ s) = digits_value s" for s
    by (simp add: digits_value_def cp_def)
  then show "0 \<le> m \<Longrightarrow> digits_value (two_digits m) = m" by (simp add: two_digits_def digits_value_int_str)
qed

lemma no_colon_int_str: "0 \<le> i \<Longrightarrow> CHR '':'' \<notin> set (int_str i)"
proof -
  have "CHR '':'' \<notin> set (nat_str n)" for n
    using nat_str_digits [of n] by (auto simp: list_all_iff is_digit_def cp_def)
  then show "0 \<le> i \<Longrightarrow> CHR '':'' \<notin> set (int_str i)" by (simp add: int_str_def)
qed

definition hour12 :: "int \<Rightarrow> int" where
  "hour12 h = (if 1 \<le> h \<and> h \<le> 12 then h else if h > 12 then h - 12 else 12)"

lemma clock_text_parts: "\<not> (h = 0 \<and> m = 0) \<Longrightarrow> \<not> (h = 12 \<and> m = 0) \<Longrightarrow>
    clock_text h m = int_str (hour12 h) @ '':'' @ two_digits m @ (if h < 12 then '' AM'' else '' PM'')"
  by (simp add: clock_text_def hour12_def Let_def)

lemma split_at_colon: "CHR '':'' \<notin> set xs \<Longrightarrow> CHR '':'' \<notin> set xs' \<Longrightarrow> xs @ '':'' @ ys = xs' @ '':'' @ ys' \<Longrightarrow> xs = xs' \<and> ys = ys'"
  by (induction xs arbitrary: xs') (auto simp: Cons_eq_append_conv append_eq_Cons_conv)

text \<open>Two times of the day never have the same description.\<close>

theorem clock_text_unique:
  assumes "0 \<le> h" "h < 24" "0 \<le> m" "m < 60" "0 \<le> h'" "h' < 24" "0 \<le> m'" "m' < 60"
    and same: "clock_text h m = clock_text h' m'"
  shows "h = h' \<and> m = m'"
proof -
  let ?plain = "\<lambda>h m. \<not> (h = 0 \<and> m = 0) \<and> \<not> (h = 12 \<and> m = (0 :: int))"
  have colon: "CHR '':'' \<in> set (clock_text h m) \<longleftrightarrow> ?plain h m" for h m
    by (cases "?plain h m") (simp add: clock_text_parts, auto simp: clock_text_def)
  show ?thesis
  proof (cases "?plain h m")
    case True
    with colon same have plain: "?plain h' m'" by metis
    have h12: "0 \<le> hour12 h" "0 \<le> hour12 h'" using assms by (simp_all add: hour12_def)
    have eq: "int_str (hour12 h) @ '':'' @ two_digits m @ (if h < 12 then '' AM'' else '' PM'') =
        int_str (hour12 h') @ '':'' @ two_digits m' @ (if h' < 12 then '' AM'' else '' PM'')"
      using same clock_text_parts [of h m] clock_text_parts [of h' m'] True plain by argo
    from split_at_colon [OF no_colon_int_str [OF h12(1)] no_colon_int_str [OF h12(2)] eq]
    have parts: "int_str (hour12 h) = int_str (hour12 h')"
      "two_digits m @ (if h < 12 then '' AM'' else '' PM'') = two_digits m' @ (if h' < 12 then '' AM'' else '' PM'')" by auto
    from parts(2) have tail: "two_digits m = two_digits m'" "h < 12 \<longleftrightarrow> h' < 12" by (auto split: if_splits)
    have "m = m'" using digits_value_two_digits [OF assms(3)] digits_value_two_digits [OF assms(7)] unfolding tail(1) by (rule trans [OF sym])
    moreover have "hour12 h = hour12 h'"
      using digits_value_int_str [OF h12(1)] digits_value_int_str [OF h12(2)] unfolding parts(1) by (rule trans [OF sym])
    ultimately show ?thesis using assms(1,2,5,6) tail(2) unfolding hour12_def by presburger
  next
    case False
    with colon same have "\<not> ?plain h' m'" by metis
    moreover have "clock_text 0 0 = ''midnight''" "clock_text 12 0 = ''noon''" by (simp_all add: clock_text_def)
    ultimately show ?thesis using False same by force
  qed
qed

text \<open>What the descriptions leave out: the month, the day of the month beside a day of the week, and everything beside an interval of hours;
  and where they say too much.\<close>

lemma cron_text_gaps:
  "cron_to_human ''0 6 1 6 *'' = ''on the 1 of every month at 6:00 AM''"
  "cron_to_human ''0 6 13 * 5'' = ''every Friday at 6:00 AM''"
  "cron_to_human ''30 */2 * * 1'' = ''every 2 hours''"
  "cron_to_human ''*/10 * * * *'' = ''every day at at *:*/10''"
  by code_simp+

end
