(* ===== verification/RunApi.thy ===== *)
theory RunApi
  imports AccessControl SchemaFlow YamlCache CronText
begin

text \<open>
  The requests that start, show and cancel runs (\<^verbatim>\<open>backend/api/pipelines.py\<close>) and those on schedules
  (\<^verbatim>\<open>backend/api/schedules.py\<close>), over the tables of AccessControl, the parser, the validator and the preflight of columns.
  YAML, JSON, the cron library and the broker are parameters, as is what a started task has done to the row of its run by the time that
  the request finishes.
\<close>

section \<open>Definitions\<close>

record api_env =
  ap_yaml :: "string \<Rightarrow> pyval result"
  ap_json :: "string \<Rightarrow> pyval option"
  ap_max_steps :: int
  ap_croniter :: croniter
  ap_exn_str :: "pyexn \<Rightarrow> string"
  ap_now :: int
  ap_broker_up :: bool
  ap_task_id :: string
  ap_meanwhile :: "run_row \<Rightarrow> run_row"
  ap_row_id :: "string \<Rightarrow> uuid option"
  ap_sse :: sse_env
  ap_redis :: redis_up

subsection \<open>Files and names\<close>

definition owned_file_ids :: "api_db \<Rightarrow> account \<Rightarrow> string list" where
  "owned_file_ids db user =
     map (uuid_text \<circ> up_id) (filter (\<lambda>f. us_role user = ''admin'' \<or> up_user f = Some (us_id user)) (db_files db))"

definition find_file :: "api_db \<Rightarrow> uuid \<Rightarrow> upload_row option" where
  "find_file db u = find (\<lambda>f. up_id f = u) (db_files db)"

text \<open>What the preflight finds for a \<^verbatim>\<open>file_id\<close>.\<close>

definition stored_columns :: "api_db \<Rightarrow> pyval \<Rightarrow> string list option" where
  "stored_columns db v = (case py_uuid (py_str v) of None \<Rightarrow> None | Some u \<Rightarrow> map_option up_columns (find_file db u))"

definition requested_name :: "string option \<Rightarrow> pipeline_config \<Rightarrow> pyval" where
  "requested_name name cfg = (case name of None \<Rightarrow> pipeline_name cfg | Some n \<Rightarrow> if n = [] then pipeline_name cfg else PStr n)"

text \<open>The database compares names with texts only.\<close>

definition check_named_permission ::
    "account \<Rightarrow> pyval \<Rightarrow> permission_level list \<Rightarrow> uuid option \<Rightarrow> api_db \<Rightarrow> api_db \<times> unit answer" where
  "check_named_permission user name lvls grant_owner db =
     (case name of
        PStr n \<Rightarrow> check_pipeline_permission user n lvls grant_owner db
      | _ \<Rightarrow> (db, if us_role user = ''admin'' then Inr () else Inl (Unhandled (OtherError ''ProgrammingError''))))"

subsection \<open>Creating and queueing a run\<close>

definition referenced_files :: "step_config list \<Rightarrow> string list" where
  "referenced_files ss =
     remdups (concat (map (\<lambda>s. case file_id_attr s of PStr f \<Rightarrow> if f = [] then [] else [f] | _ \<Rightarrow> []) ss))"

text \<open>\<^verbatim>\<open>as_uuid\<close> of the references in turn.\<close>

fun file_uuids :: "string list \<Rightarrow> uuid list answer" where
  "file_uuids [] = Inr []"
| "file_uuids (f # fs) =
     (case py_uuid f of
        None \<Rightarrow> Inl (invalid_uuid f)
      | Some u \<Rightarrow> (case file_uuids fs of Inl e \<Rightarrow> Inl e | Inr us \<Rightarrow> Inr (u # us)))"

definition snapshot_of :: "string \<Rightarrow> upload_row \<Rightarrow> snapshot_row" where
  "snapshot_of run_id f =
     \<lparr>ss_file = up_id f, ss_run = run_id, ss_columns = up_columns f, ss_dtypes = up_dtypes f, ss_row_count = up_row_count f\<rparr>"

definition create_run_schema_snapshots :: "string \<Rightarrow> pipeline_config \<Rightarrow> api_db \<Rightarrow> api_db \<times> unit answer" where
  "create_run_schema_snapshots run_id cfg db =
     (case file_uuids (referenced_files (steps cfg)) of
        Inl e \<Rightarrow> (db, Inl e)
      | Inr us \<Rightarrow>
          (db\<lparr>db_snapshots := db_snapshots db @ map (snapshot_of run_id) (filter (\<lambda>f. up_id f \<in> set us) (db_files db))\<rparr>, Inr ()))"

definition is_stream_consume :: "step_config \<Rightarrow> bool" where
  "is_stream_consume s \<longleftrightarrow> step_type s = Inr STREAM_CONSUME \<or> step_type s = Inl (PStr ''stream_consume'')"

definition has_stream_consume :: "pipeline_config \<Rightarrow> bool" where
  "has_stream_consume cfg \<longleftrightarrow> list_ex is_stream_consume (steps cfg)"

definition pending_run :: "string \<Rightarrow> string \<Rightarrow> string \<Rightarrow> int \<Rightarrow> run_row" where
  "pending_run run_id name yaml now =
     \<lparr>rw_id = run_id, rw_name = name, rw_status = PENDING, rw_yaml_config = yaml, rw_created_at = now, rw_started_at = None,
      rw_completed_at = None, rw_total_rows_in = None, rw_total_rows_out = None, rw_error_message = None, rw_celery_task_id = None,
      rw_schedule_id = None\<rparr>"

text \<open>The last commit of the request writes the task and, for a daemon, the status, whatever the task has written before.\<close>

definition queued_run :: "api_env \<Rightarrow> bool \<Rightarrow> run_row \<Rightarrow> run_row" where
  "queued_run env streaming r =
     (let r1 = (ap_meanwhile env r)\<lparr>rw_celery_task_id := Some (ap_task_id env)\<rparr>
      in if streaming then r1\<lparr>rw_status := STREAMING_ACTIVE\<rparr> else r1)"

definition create_and_queue_pipeline_run ::
    "api_env \<Rightarrow> uuid \<Rightarrow> account \<Rightarrow> string \<Rightarrow> string option \<Rightarrow> pipeline_config \<Rightarrow> api_db \<Rightarrow> api_db \<times> (string \<times> string) answer" where
  "create_and_queue_pipeline_run env new_id user yaml name cfg db =
     (case requested_name name cfg of
        PStr n \<Rightarrow>
          if \<not> fits_column n then (db, Inl (Unhandled (OtherError ''DataError'')))
          else let run_id = uuid_text new_id;
                   r = pending_run run_id n yaml (ap_now env);
                   db1 = db\<lparr>db_runs := db_runs db @ [(r, Some (us_id user))]\<rparr>
            in (case create_run_schema_snapshots run_id cfg db1 of
                  (db2, Inl e) \<Rightarrow> (db2, Inl e)
                | (db2, Inr _) \<Rightarrow>
                    if \<not> ap_broker_up env then (db2, Inl (Unhandled (OtherError ''OperationalError'')))
                    else let streaming = has_stream_consume cfg;
                             r' = queued_run env streaming r;
                             db3 = db2\<lparr>db_runs := db_runs db @ [(r', Some (us_id user))],
                                       db_queue := db_queue db2 @ [if streaming then StreamingTask run_id else ExecuteTask run_id]\<rparr>
                      in (log_action ''pipeline_run'' user ''pipeline'' new_id [(''name'', n)] db3, Inr (run_id, status_value (rw_status r'))))
      | _ \<Rightarrow> (db, Inl (Unhandled (OtherError ''ProgrammingError''))))"

subsection \<open>Starting a run\<close>

text \<open>The body of the request, before the handler.\<close>

definition run_request_ok :: "api_env \<Rightarrow> string \<Rightarrow> string option \<Rightarrow> bool" where
  "run_request_ok env yaml name \<longleftrightarrow>
     10 \<le> length yaml \<and> (case name of None \<Rightarrow> True | Some n \<Rightarrow> length n \<le> 255) \<and>
     (case ap_yaml env (py_strip yaml) of Inl (YAMLError m l) \<Rightarrow> False | _ \<Rightarrow> True)"

definition unprocessable :: http_error where
  "unprocessable = HTTP 422 ''Request validation failed''"

definition file_message :: "validation_error \<Rightarrow> bool" where
  "file_message e \<longleftrightarrow> contains (py_lower (err_message e)) ''not found'' \<or> contains (py_lower (err_message e)) ''registered''"

definition invalid_config :: "validation_error list \<Rightarrow> http_error" where
  "invalid_config es = Invalid ''Pipeline configuration is invalid'' es"

definition run_pipeline_request ::
    "api_env \<Rightarrow> uuid \<Rightarrow> uuid \<Rightarrow> account \<Rightarrow> string \<Rightarrow> string option \<Rightarrow> api_db \<Rightarrow> api_db \<times> (string \<times> string) answer" where
  "run_pipeline_request env run_id grant_id user yaml name db =
     (if \<not> run_request_ok env yaml name then (db, Inl unprocessable)
      else case parsed_pipeline (ap_yaml env) yaml of
          Inl e \<Rightarrow> (db, Inl (Unhandled e))
        | Inr cfg \<Rightarrow>
            (case check_named_permission user (requested_name name cfg) [OWNER, RUNNER] (Some grant_id) db of
               (db1, Inl e) \<Rightarrow> (db1, Inl e)
             | (db1, Inr _) \<Rightarrow>
                 (case validate (ap_max_steps env) cfg (owned_file_ids db1 user) of
                    Inl e \<Rightarrow> (db1, Inl (Unhandled e))
                  | Inr r \<Rightarrow>
                      if \<not> is_valid r
                      then (db1, Inl (case find file_message (errors r) of
                              Some e \<Rightarrow> HTTP 404 (''Referenced file not found: '' @ err_message e)
                            | None \<Rightarrow> invalid_config (errors r)))
                      else case collect_schema_validation_errors (stored_columns db1) cfg of
                          Inl e \<Rightarrow> (db1, Inl (Unhandled e))
                        | Inr es \<Rightarrow>
                            if es \<noteq> [] then (db1, Inl (Invalid ''Schema mismatch detected before execution'' es))
                            else create_and_queue_pipeline_run env run_id user yaml name cfg db1)))"

text \<open>The older request: a body that is no object counts as empty.\<close>

definition legacy_payload :: "api_env \<Rightarrow> string \<Rightarrow> pydict" where
  "legacy_payload env raw = (if raw = [] then [] else case ap_json env raw of Some (PDict d) \<Rightarrow> d | _ \<Rightarrow> [])"

definition no_yaml :: http_error where
  "no_yaml = HTTP 422 (''Request body must include '' @ quoted ''yaml_config'' @ '' (or legacy '' @ quoted ''yaml'' @ '')'')"

definition legacy_yaml :: "pydict \<Rightarrow> pyval" where
  "legacy_yaml payload = (let v = get_none payload ''yaml_config'' in if v = PNone then get_none payload ''yaml'' else v)"

definition legacy_name :: "pydict \<Rightarrow> string option option" where
  "legacy_name payload = (case get_none payload ''name'' of PNone \<Rightarrow> Some None | PStr n \<Rightarrow> Some (Some n) | _ \<Rightarrow> None)"

definition run_pipeline_legacy :: "api_env \<Rightarrow> uuid \<Rightarrow> uuid \<Rightarrow> account \<Rightarrow> string \<Rightarrow> api_db \<Rightarrow> api_db \<times> (string \<times> string) answer" where
  "run_pipeline_legacy env run_id grant_id user raw db =
     (let payload = legacy_payload env raw
      in case legacy_yaml payload of
          PStr yaml \<Rightarrow>
            if py_strip yaml = [] then (db, Inl (no_yaml))
            else (case legacy_name payload of
                None \<Rightarrow> (db, Inl (HTTP 422 (quoted ''name'' @ '' must be a string when provided'')))
              | Some name \<Rightarrow>
                  (case parsed_pipeline (ap_yaml env) yaml of
                     Inl e \<Rightarrow> (db, Inl (Unhandled e))
                   | Inr cfg \<Rightarrow>
                       (case check_named_permission user (requested_name name cfg) [OWNER, RUNNER] (Some grant_id) db of
                          (db1, Inl e) \<Rightarrow> (db1, Inl e)
                        | (db1, Inr _) \<Rightarrow>
                            (case validate (ap_max_steps env) cfg (owned_file_ids db1 user) of
                               Inl e \<Rightarrow> (db1, Inl (Unhandled e))
                             | Inr r \<Rightarrow>
                                 if \<not> is_valid r then (db1, Inl (invalid_config (errors r)))
                                 else create_and_queue_pipeline_run env run_id user yaml name cfg db1))))
        | _ \<Rightarrow> (db, Inl (no_yaml)))"

text \<open>The check without a run: columns are looked at only if the configuration is valid.\<close>

definition validate_pipeline :: "api_env \<Rightarrow> account \<Rightarrow> string \<Rightarrow> api_db \<Rightarrow> validation_result answer" where
  "validate_pipeline env user yaml db =
     or_unhandled (bindE (parsed_pipeline (ap_yaml env) yaml) (\<lambda>cfg.
       bindE (validate (ap_max_steps env) cfg (owned_file_ids db user)) (\<lambda>r.
         if \<not> is_valid r then Inr r
         else bindE (collect_schema_validation_errors (stored_columns db) cfg) (\<lambda>es.
           let all = errors r @ es in Inr (r\<lparr>errors := all, is_valid := (all = [])\<rparr>)))))"

subsection \<open>Showing and cancelling runs\<close>

definition run_statuses :: "run_status list" where
  "run_statuses = [PENDING, RUNNING, HEALING, HEALED, COMPLETED, CONTRACT_VIOLATION, FAILED, CANCELLED, TIMEOUT, STREAMING_ACTIVE,
     STREAMING_PAUSED, STREAMING_STOPPED]"

definition status_of :: "string \<Rightarrow> run_status option" where
  "status_of s = find (\<lambda>st. status_value st = s) run_statuses"

text \<open>\<^verbatim>\<open>upper\<close>; the two letters whose capitals are above 255, which occur in no status, stay.\<close>

definition upper_chars :: "char \<Rightarrow> string" where
  "upper_chars c =
     (if cp c = 223 then ''SS''
      else if (97 \<le> cp c \<and> cp c \<le> 122) \<or> (224 \<le> cp c \<and> cp c \<le> 254 \<and> cp c \<noteq> 247) then [char_of (cp c - 32)]
      else [c])"

definition py_upper :: "string \<Rightarrow> string" where
  "py_upper s = concat (map upper_chars s)"

definition run_query :: "account \<Rightarrow> string option \<Rightarrow> api_db \<Rightarrow> (run_row \<times> uuid option) list" where
  "run_query user status_filter db =
     (let mine = filter (\<lambda>r. snd r = Some (us_id user)) (db_runs db) in
      case status_filter of
        None \<Rightarrow> mine
      | Some s \<Rightarrow>
          (case (if s = [] then None else status_of (py_upper s)) of
             None \<Rightarrow> mine
           | Some st \<Rightarrow> filter (\<lambda>r. rw_status (fst r) = st) mine))"

definition page_limit :: "int \<Rightarrow> int" where
  "page_limit limit = max 1 (min limit 100)"

definition list_pipeline_runs :: "account \<Rightarrow> int \<Rightarrow> int \<Rightarrow> string option \<Rightarrow> api_db \<Rightarrow> (run_row \<times> uuid option) list \<times> nat" where
  "list_pipeline_runs user page limit status_filter db =
     (let page' = max 1 page; limit' = page_limit limit; rows = run_query user status_filter db;
          ordered = sort_key (\<lambda>r. - rw_created_at (fst r)) rows
      in (take (nat limit') (drop (nat ((page' - 1) * limit')) ordered), length rows))"

definition find_run :: "string \<Rightarrow> api_db \<Rightarrow> (run_row \<times> uuid option) answer" where
  "find_run run_id db =
     (case py_uuid run_id of
        None \<Rightarrow> Inl (invalid_uuid run_id)
      | Some u \<Rightarrow>
          (case find (\<lambda>r. rw_id (fst r) = uuid_text u) (db_runs db) of
             None \<Rightarrow> Inl (HTTP 404 (''Pipeline run '' @ quoted run_id @ '' not found''))
           | Some r \<Rightarrow> Inr r))"

definition get_pipeline_run :: "account \<Rightarrow> string \<Rightarrow> api_db \<Rightarrow> run_row answer" where
  "get_pipeline_run user run_id db =
     (case find_run run_id db of
        Inl e \<Rightarrow> Inl e
      | Inr r \<Rightarrow> (case check_run_permission user r [OWNER, RUNNER, VIEWER] db of Inl e \<Rightarrow> Inl e | Inr _ \<Rightarrow> Inr (fst r)))"

definition cancel_payload :: "string \<Rightarrow> pydict" where
  "cancel_payload run_id =
     [(PStr ''run_id'', PStr run_id), (PStr ''event_type'', PStr ''pipeline_cancelled''), (PStr ''status'', PStr ''CANCELLED''),
      (PStr ''error_message'', PStr ''Cancelled by user'')]"

text \<open>The cancellation of RunLifecycle behind its check, with the event on the channel of the run.\<close>

definition request_cancel ::
    "api_env \<Rightarrow> account \<Rightarrow> string \<Rightarrow> api_db \<Rightarrow> progress_channel \<Rightarrow> api_db \<times> progress_channel \<times> string answer" where
  "request_cancel env user run_id db ch =
     (case find_run run_id db of
        Inl e \<Rightarrow> (db, ch, Inl e)
      | Inr r \<Rightarrow>
          (case check_run_permission user r [OWNER, RUNNER] db of
             Inl e \<Rightarrow> (db, ch, Inl e)
           | Inr _ \<Rightarrow>
               (case cancel_pipeline_run True (ap_now env) (Some (fst r)) of
                  (Some row, CancelAccepted) \<Rightarrow>
                    (log_action ''pipeline_cancelled'' user ''pipeline'' (the (py_uuid run_id)) []
                       (db\<lparr>db_runs := map (\<lambda>x. if rw_id (fst x) = rw_id row then (row, snd x) else x) (db_runs db)\<rparr>),
                     if pubsub_up (ap_redis env) then publish_progress_payload (ap_sse env) (ap_redis env) (cancel_payload run_id) ch else ch,
                     Inr run_id)
                | (_, Conflict m) \<Rightarrow> (db, ch, Inl (HTTP 409 m))
                | (_, _) \<Rightarrow> (db, ch, Inl access_denied))))"

subsection \<open>Schedules\<close>

definition schedule_request_ok :: "api_env \<Rightarrow> string \<Rightarrow> string \<Rightarrow> string \<Rightarrow> string answer" where
  "schedule_request_ok env name yaml cron =
     (case requested_cron (ap_croniter env) cron of
        Inr e \<Rightarrow> if length name \<le> 255 \<and> 10 \<le> length yaml \<and> length yaml \<le> 50000 then Inr e else Inl unprocessable
      | Inl (ValueError m) \<Rightarrow> Inl unprocessable
      | Inl e \<Rightarrow> Inl (Unhandled e))"

text \<open>The search for a template variable, two braces around a word.\<close>

definition placeholder_here :: "string \<Rightarrow> bool" where
  "placeholder_here s \<longleftrightarrow> starts_with s ''{{'' \<and>
     (let t = dropWhile is_space (drop 2 s)
      in takeWhile is_word t \<noteq> [] \<and> starts_with (dropWhile is_space (dropWhile is_word t)) ''}}'')"

fun has_placeholder :: "string \<Rightarrow> bool" where
  "has_placeholder [] = False"
| "has_placeholder (c # s) = (placeholder_here (c # s) \<or> has_placeholder s)"

definition placeholder_hint :: string where
  "placeholder_hint = '' The YAML still contains {{placeholder}} template variables. '' @
     ''Fork the template from the Templates page to fill in real files.''"

definition streaming_refused :: "string list \<Rightarrow> http_error" where
  "streaming_refused names = HTTP 400 (''Scheduled pipelines cannot use '' @ quoted ''stream_consume'' @ '': '' @ join '', '' names @
     '' has no batch executor. Run streaming pipelines from the Runs page, which routes them to the streaming daemon.'')"

definition error_line :: "validation_error \<Rightarrow> string" where
  "error_line e = py_str (err_step e) @ ''.'' @ err_field e @ '': '' @ err_message e"

definition schedule_checks :: "api_env \<Rightarrow> pipeline_config \<Rightarrow> string \<Rightarrow> account \<Rightarrow> api_db \<Rightarrow> unit answer" where
  "schedule_checks env cfg yaml user db =
     (case validate (ap_max_steps env) cfg (owned_file_ids db user) of
        Inl e \<Rightarrow> Inl (Unhandled e)
      | Inr r \<Rightarrow>
          let streaming_steps = map step_name (filter is_stream_consume (steps cfg));
              file_errors = filter file_message (errors r)
          in if streaming_steps \<noteq> []
             then Inl (if list_all is_str streaming_steps then streaming_refused (map py_str streaming_steps) else Unhandled TypeError)
             else if file_errors \<noteq> [] \<and> length file_errors = length (errors r)
             then Inl (HTTP 404 (''Scheduled pipeline references unknown files: '' @ join ''; '' (map err_message file_errors) @
                    (if has_placeholder yaml then placeholder_hint else [])))
             else case collect_schema_validation_errors (stored_columns db) cfg of
                 Inl e \<Rightarrow> Inl (Unhandled e)
               | Inr es \<Rightarrow>
                   let all_errors = errors r @ es; others = filter (\<lambda>e. e \<notin> set file_errors) all_errors
                   in if all_errors \<noteq> []
                      then Inl (HTTP 422 (''Scheduled pipeline failed validation: '' @
                             join ''; '' (map error_line (if others \<noteq> [] then others else all_errors))))
                      else Inr ())"

definition new_schedule :: "string \<Rightarrow> string \<Rightarrow> string \<Rightarrow> string \<Rightarrow> int \<Rightarrow> schedule_row" where
  "new_schedule sid name yaml cron next_run =
     \<lparr>sc_id = sid, sc_pipeline_name = name, sc_yaml_config = yaml, sc_cron_expression = cron, sc_is_active = True, sc_last_run_at = None,
      sc_next_run_at = Some next_run, sc_last_run_status = None, sc_total_runs = 0, sc_successful_runs = 0, sc_failed_runs = 0,
      sc_healed_runs = 0\<rparr>"

definition create_schedule ::
    "api_env \<Rightarrow> uuid \<Rightarrow> uuid \<Rightarrow> account \<Rightarrow> string \<Rightarrow> string \<Rightarrow> string \<Rightarrow> api_db \<Rightarrow> api_db \<times> schedule_row answer" where
  "create_schedule env schedule_id grant_id user name yaml cron_expression db =
     (case schedule_request_ok env name yaml cron_expression of
        Inl e \<Rightarrow> (db, Inl e)
      | Inr cron \<Rightarrow>
          (case get_next_run_at (ap_croniter env) cron (ap_now env) of
             Inl e \<Rightarrow> (db, Inl (Unhandled e))
           | Inr next_run \<Rightarrow>
               (case parsed_pipeline (ap_yaml env) yaml of
                  Inl e \<Rightarrow> (db, Inl (HTTP 400 (''Scheduled pipeline YAML is invalid: '' @ ap_exn_str env e)))
                | Inr cfg \<Rightarrow>
                    (case check_pipeline_permission user name [OWNER, RUNNER] (Some grant_id) db of
                       (db1, Inl e) \<Rightarrow> (db1, Inl e)
                     | (db1, Inr _) \<Rightarrow>
                         (case schedule_checks env cfg yaml user db1 of
                            Inl e \<Rightarrow> (db1, Inl e)
                          | Inr _ \<Rightarrow>
                              let s = new_schedule (uuid_text schedule_id) name yaml cron next_run
                              in (log_action ''schedule_created'' user ''schedule'' schedule_id [(''pipeline_name'', name), (''cron'', cron)]
                                    (db1\<lparr>db_schedules := db_schedules db1 @ [(s, us_id user)]\<rparr>), Inr s))))))"

definition list_schedules :: "account \<Rightarrow> api_db \<Rightarrow> schedule_row list" where
  "list_schedules user db = rev (map fst (filter (\<lambda>s. snd s = us_id user) (db_schedules db)))"

definition get_schedule_or_404 :: "string \<Rightarrow> account \<Rightarrow> api_db \<Rightarrow> schedule_row answer" where
  "get_schedule_or_404 schedule_id user db =
     (case py_uuid schedule_id of
        None \<Rightarrow> Inl (invalid_uuid schedule_id)
      | Some u \<Rightarrow>
          (case find (\<lambda>s. sc_id (fst s) = uuid_text u \<and> snd s = us_id user) (db_schedules db) of
             None \<Rightarrow> Inl (HTTP 404 ''Schedule not found'')
           | Some s \<Rightarrow> Inr (fst s)))"

definition store_schedule :: "schedule_row \<Rightarrow> api_db \<Rightarrow> api_db" where
  "store_schedule s db = db\<lparr>db_schedules := map (\<lambda>x. if sc_id (fst x) = sc_id s then (s, snd x) else x) (db_schedules db)\<rparr>"

definition pause_schedule :: "account \<Rightarrow> string \<Rightarrow> api_db \<Rightarrow> api_db \<times> schedule_row answer" where
  "pause_schedule user schedule_id db =
     (case get_schedule_or_404 schedule_id user db of
        Inl e \<Rightarrow> (db, Inl e)
      | Inr s \<Rightarrow>
          if \<not> sc_is_active s then (db, Inl (HTTP 400 ''Schedule is already paused''))
          else let s' = s\<lparr>sc_is_active := False, sc_next_run_at := None\<rparr> in (store_schedule s' db, Inr s'))"

definition resume_schedule :: "api_env \<Rightarrow> account \<Rightarrow> string \<Rightarrow> api_db \<Rightarrow> api_db \<times> schedule_row answer" where
  "resume_schedule env user schedule_id db =
     (case get_schedule_or_404 schedule_id user db of
        Inl e \<Rightarrow> (db, Inl e)
      | Inr s \<Rightarrow>
          if sc_is_active s then (db, Inl (HTTP 400 ''Schedule is already active''))
          else case get_next_run_at (ap_croniter env) (sc_cron_expression s) (ap_now env) of
              Inl e \<Rightarrow> (db, Inl (Unhandled e))
            | Inr t \<Rightarrow> let s' = s\<lparr>sc_is_active := True, sc_next_run_at := Some t\<rparr> in (store_schedule s' db, Inr s'))"

definition toggle_schedule :: "api_env \<Rightarrow> account \<Rightarrow> string \<Rightarrow> api_db \<Rightarrow> api_db \<times> schedule_row answer" where
  "toggle_schedule env user schedule_id db =
     (case get_schedule_or_404 schedule_id user db of
        Inl e \<Rightarrow> (db, Inl e)
      | Inr s \<Rightarrow>
          (case (if sc_is_active s then Inr (s\<lparr>sc_is_active := False, sc_next_run_at := None\<rparr>)
                 else bindE (get_next_run_at (ap_croniter env) (sc_cron_expression s) (ap_now env))
                        (\<lambda>t. Inr (s\<lparr>sc_is_active := True, sc_next_run_at := Some t\<rparr>))) of
             Inl e \<Rightarrow> (db, Inl (Unhandled e))
           | Inr s' \<Rightarrow>
               (log_action ''schedule_toggled'' user ''schedule'' (the (py_uuid schedule_id))
                  [(''is_active'', py_str (PBool (sc_is_active s')))] (store_schedule s' db), Inr s')))"

definition delete_schedule :: "account \<Rightarrow> string \<Rightarrow> api_db \<Rightarrow> api_db \<times> string answer" where
  "delete_schedule user schedule_id db =
     (case get_schedule_or_404 schedule_id user db of
        Inl e \<Rightarrow> (db, Inl e)
      | Inr s \<Rightarrow>
          (log_action ''schedule_deleted'' user ''schedule'' (the (py_uuid schedule_id)) []
             (db\<lparr>db_schedules := filter (\<lambda>x. sc_id (fst x) \<noteq> sc_id s) (db_schedules db)\<rparr>),
           Inr (''Schedule '' @ quoted schedule_id @ '' deleted'')))"

text \<open>The next times shown for a schedule.\<close>

definition preview_schedule :: "api_env \<Rightarrow> account \<Rightarrow> string \<Rightarrow> int \<Rightarrow> api_db \<Rightarrow> (string \<times> string \<times> int list) answer" where
  "preview_schedule env user schedule_id n db =
     (case get_schedule_or_404 schedule_id user db of
        Inl e \<Rightarrow> Inl e
      | Inr s \<Rightarrow>
          (case get_next_n_runs (ap_croniter env) (sc_cron_expression s) n (ap_now env) of
             Inl e \<Rightarrow> Inl (Unhandled e)
           | Inr ts \<Rightarrow> Inr (sc_cron_expression s, cron_to_human (sc_cron_expression s), ts)))"

subsection \<open>Requests\<close>

datatype api_request =
    GrantRequest string string string
  | RevokeRequest string string
  | CreateContract string string string "string list"
  | UpdateContract string string string string "string list"
  | DeleteContract string string
  | RestoreRequest string int
  | RunRequest string "string option"
  | LegacyRunRequest string
  | CancelRequest string
  | CreateSchedule string string string
  | PauseSchedule string
  | ResumeSchedule string
  | ToggleSchedule string
  | DeleteSchedule string

definition succeeded :: "'a answer \<Rightarrow> bool" where
  "succeeded r = (case r of Inl _ \<Rightarrow> False | Inr _ \<Rightarrow> True)"

definition served :: "api_db \<times> 'a answer \<Rightarrow> api_db \<times> bool" where
  "served r = (fst r, succeeded (snd r))"

text \<open>One request of an account, with the identifiers for a new row and for a grant that comes with it.  Requests come one after the
  other; the channel of a cancelled run is not looked at here.\<close>

fun serve :: "api_env \<Rightarrow> uuid \<Rightarrow> uuid \<Rightarrow> account \<Rightarrow> api_request \<Rightarrow> api_db \<Rightarrow> api_db \<times> bool" where
  "serve env i j a (GrantRequest name target lv) db = served (grant_permission i a name target lv db)"
| "serve env i j a (RevokeRequest name target) db = served (revoke_permission a name target db)"
| "serve env i j a (CreateContract name y sev cons) db = served (create_contract i a name y sev cons db)"
| "serve env i j a (UpdateContract name t y sev cons) db = served (update_contract (ap_row_id env) i a name t y sev cons db)"
| "serve env i j a (DeleteContract name t) db = served (delete_contract (ap_row_id env) a name t db)"
| "serve env i j a (RestoreRequest name n) db = served (restore_version (ap_yaml env) (\<lambda>_. []) a name n db)"
| "serve env i j a (RunRequest yaml name) db = served (run_pipeline_request env i j a yaml name db)"
| "serve env i j a (LegacyRunRequest raw) db = served (run_pipeline_legacy env i j a raw db)"
| "serve env i j a (CancelRequest r) db =
     (case request_cancel env a r db \<lparr>published = [], last_payload = None\<rparr> of (db', _, answer) \<Rightarrow> (db', succeeded answer))"
| "serve env i j a (CreateSchedule name yaml cron) db = served (create_schedule env i j a name yaml cron db)"
| "serve env i j a (PauseSchedule s) db = served (pause_schedule a s db)"
| "serve env i j a (ResumeSchedule s) db = served (resume_schedule env a s db)"
| "serve env i j a (ToggleSchedule s) db = served (toggle_schedule env a s db)"
| "serve env i j a (DeleteSchedule s) db = served (delete_schedule a s db)"

type_synonym api_call = "account \<times> uuid \<times> uuid \<times> api_request"

fun serve_all :: "api_env \<Rightarrow> api_call list \<Rightarrow> api_db \<Rightarrow> api_db" where
  "serve_all env [] db = db"
| "serve_all env ((a, i, j, r) # calls) db = serve_all env calls (fst (serve env i j a r db))"

section \<open>What requests change\<close>

definition view :: "string \<Rightarrow> api_db \<Rightarrow>
    (grant_row list \<times> contract_row list \<times> (run_row \<times> uuid option) list) \<times> pipeline_version list" where
  "view name db = (rows_of name db, filter (\<lambda>v. pv_pipeline_name v = name) (db_versions db))"

definition keeps_identity :: "api_env \<Rightarrow> bool" where
  "keeps_identity env \<longleftrightarrow> (\<forall>r. rw_id (ap_meanwhile env r) = rw_id r \<and> rw_name (ap_meanwhile env r) = rw_name r)"

definition runs_of :: "api_db \<Rightarrow> (string \<times> uuid option) list" where
  "runs_of db = map (\<lambda>r. (rw_name (fst r), snd r)) (db_runs db)"

text \<open>A stranger to a name: no administrator, no grant, no contract, no run.\<close>

definition is_stranger :: "api_db \<Rightarrow> string \<Rightarrow> account \<Rightarrow> bool" where
  "is_stranger db name a \<longleftrightarrow> us_role a \<noteq> ''admin'' \<and> \<not> standing db name (us_id a) \<and> (name, Some (us_id a)) \<notin> set (runs_of db)"

fun grants_to :: "api_request \<Rightarrow> string \<Rightarrow> uuid \<Rightarrow> bool" where
  "grants_to (GrantRequest m target lv) name u = (m = name \<and> py_uuid target = Some u)"
| "grants_to r name u = False"

text \<open>What every request does and does not do.\<close>

definition well_behaved :: "account \<Rightarrow> (string \<Rightarrow> uuid \<Rightarrow> bool) \<Rightarrow> api_db \<Rightarrow> api_db \<Rightarrow> bool" where
  "well_behaved a given db db' \<longleftrightarrow> keys_ok db' \<and>
     (\<forall>name. is_stranger db name a \<and> name_in_use db name \<longrightarrow> view name db' = view name db) \<and>
     (\<forall>name u. standing db' name u \<longrightarrow> standing db name u \<or> u = us_id a \<or> given name u) \<and>
     (\<exists>new. runs_of db' = runs_of db @ new \<and> (\<forall>r \<in> set new. snd r = Some (us_id a)))"

lemma well_behaved_same: "keys_ok db \<Longrightarrow> well_behaved a given db db"
  by (simp add: well_behaved_def)

lemma runs_of_simps [simp]:
  "runs_of (log_action act a ty i ds db) = runs_of db" "runs_of (add_grant g db) = runs_of db" "runs_of (set_level i l db) = runs_of db"
  "db_versions (log_action act a ty i ds db) = db_versions db" "db_versions (add_grant g db) = db_versions db"
  "db_versions (set_level i l db) = db_versions db" "db_versions (deactivated i db) = db_versions db"
  "db_runs (deactivated i db) = db_runs db" "db_runs (add_grant g db) = db_runs db" "db_runs (log_action act a ty i ds db) = db_runs db"
  by (simp_all add: runs_of_def log_action_def add_grant_def set_level_def deactivated_def)

lemma well_behavedI:
  assumes "keys_ok db'" and "\<And>m. m \<noteq> name \<Longrightarrow> rows_of m db' = rows_of m db"
    and "is_stranger db name a \<Longrightarrow> name_in_use db name \<Longrightarrow> db' = db"
    and "\<And>m u. standing db' m u \<Longrightarrow> \<not> standing db m u \<Longrightarrow> u = us_id a \<or> given m u"
    and "runs_of db' = runs_of db" and "db_versions db' = db_versions db"
  shows "well_behaved a given db db'"
  using assms unfolding well_behaved_def view_def by (metis append_Nil2 empty_iff empty_set)

lemma grant_versions_runs:
  "runs_of (fst (grant_permission i a name target lv db)) = runs_of db"
  "db_versions (fst (grant_permission i a name target lv db)) = db_versions db"
  by (cases rule: grant_cases [of i a name target lv db]; simp)+

lemma revoke_versions_runs:
  "runs_of (fst (revoke_permission a name target db)) = runs_of db"
  "db_versions (fst (revoke_permission a name target db)) = db_versions db"
  by (cases rule: revoke_cases [of a name target db]; simp add: runs_of_def)+

lemma create_versions_runs:
  "runs_of (fst (create_contract i a name y sev cons db)) = runs_of db"
  "db_versions (fst (create_contract i a name y sev cons db)) = db_versions db"
  by (cases rule: create_cases [of i a name y sev cons db]; simp add: runs_of_def)+

lemma update_versions_runs:
  "runs_of (fst (update_contract row_id i a name t y sev cons db)) = runs_of db"
  "db_versions (fst (update_contract row_id i a name t y sev cons db)) = db_versions db"
  by (cases rule: update_cases [of row_id i a name t y sev cons db]; simp add: runs_of_def)+

lemma delete_versions_runs:
  "runs_of (fst (delete_contract row_id a name t db)) = runs_of db"
  "db_versions (fst (delete_contract row_id a name t db)) = db_versions db"
  by (cases rule: delete_cases [of row_id a name t db]; simp add: runs_of_def)+

lemma well_behaved_grant:
  assumes "keys_ok db" and "fresh_id i db"
  shows "well_behaved a (\<lambda>m u. m = name \<and> py_uuid target = Some u) db (fst (grant_permission i a name target lv db))"
proof (rule well_behavedI [where name = name])
  fix m u
  show "standing (fst (grant_permission i a name target lv db)) m u \<Longrightarrow> \<not> standing db m u \<Longrightarrow> u = us_id a \<or> ((\<lambda>m u. m = name \<and> py_uuid target = Some u)) m u"
    by (drule grant_permission_effect(3) [OF assms(1)]) simp_all
qed (simp_all add: grant_permission_effect(1,2,4) grant_versions_runs is_stranger_def assms)

lemma well_behaved_revoke:
  assumes "keys_ok db"
  shows "well_behaved a given db (fst (revoke_permission a name target db))"
proof (rule well_behavedI [where name = name])
  fix m u
  show "standing (fst (revoke_permission a name target db)) m u \<Longrightarrow> \<not> standing db m u \<Longrightarrow> u = us_id a \<or> (given) m u"
    by (drule revoke_permission_effect(3) [OF assms(1)]) simp_all
qed (simp_all add: revoke_permission_effect(1,2,4) revoke_versions_runs is_stranger_def assms)

lemma well_behaved_create:
  assumes "keys_ok db" and "fresh_id i db"
  shows "well_behaved a given db (fst (create_contract i a name y sev cons db))"
proof (rule well_behavedI [where name = name])
  fix m u
  show "standing (fst (create_contract i a name y sev cons db)) m u \<Longrightarrow> \<not> standing db m u \<Longrightarrow> u = us_id a \<or> (given) m u"
    by (drule create_contract_effect(3) [OF assms(1)]) simp_all
qed (simp_all add: create_contract_effect(1,2,4) create_versions_runs is_stranger_def assms)

lemma well_behaved_update:
  assumes "keys_ok db" and "fresh_id i db"
  shows "well_behaved a given db (fst (update_contract row_id i a name t y sev cons db))"
proof (rule well_behavedI [where name = name])
  fix m u
  show "standing (fst (update_contract row_id i a name t y sev cons db)) m u \<Longrightarrow> \<not> standing db m u \<Longrightarrow> u = us_id a \<or> (given) m u"
    by (drule update_contract_effect(3) [OF assms(1)]) simp_all
qed (simp_all add: update_contract_effect(1,2,4) update_versions_runs is_stranger_def assms)

lemma well_behaved_delete:
  assumes "keys_ok db"
  shows "well_behaved a given db (fst (delete_contract row_id a name t db))"
proof (rule well_behavedI [where name = name])
  fix m u
  show "standing (fst (delete_contract row_id a name t db)) m u \<Longrightarrow> \<not> standing db m u \<Longrightarrow> u = us_id a \<or> (given) m u"
    by (drule delete_contract_effect(3) [OF assms(1)]) simp_all
qed (simp_all add: delete_contract_effect(1,2,4) delete_versions_runs is_stranger_def assms)

lemma create_and_queue_tables:
  assumes "keeps_identity env" and db': "db' = fst (create_and_queue_pipeline_run env i a yaml name cfg db)"
  shows "db_grants db' = db_grants db \<and> db_contracts db' = db_contracts db \<and> db_versions db' = db_versions db \<and>
    (db_runs db' = db_runs db \<or> (\<exists>r n. requested_name name cfg = PStr n \<and> rw_id r = uuid_text i \<and> rw_name r = n \<and>
       db_runs db' = db_runs db @ [(r, Some (us_id a))]))"
proof -
  have queued: "rw_id (queued_run env b r) = rw_id r" "rw_name (queued_run env b r) = rw_name r" for b r
    using assms(1) by (simp_all add: queued_run_def Let_def keeps_identity_def)
  show ?thesis unfolding db'
    by (simp add: create_and_queue_pipeline_run_def create_run_schema_snapshots_def log_action_def Let_def queued pending_run_def
        split: pyval.split sum.split)
qed

lemma tables_rows:
  assumes "db_grants db' = db_grants db" and "db_contracts db' = db_contracts db"
  shows "standing db' m u = standing db m u"
    and "db_runs db' = db_runs db \<Longrightarrow> rows_of m db' = rows_of m db"
    and "db_runs db' = db_runs db @ [(r, p)] \<Longrightarrow> m \<noteq> rw_name r \<Longrightarrow> rows_of m db' = rows_of m db"
    and "db_runs db' = db_runs db \<Longrightarrow> keys_ok db \<Longrightarrow> keys_ok db'"
    and "db_runs db' = db_runs db @ [(r, p)] \<Longrightarrow> keys_ok db \<Longrightarrow> fresh_id i db \<Longrightarrow> rw_id r = uuid_text i \<Longrightarrow> keys_ok db'"
  using assms by (simp_all add: standing_iff rows_of_def keys_ok_def fresh_id_def)

lemma create_and_queue_effect:
  assumes "keeps_identity env" and "keys_ok db" and "fresh_id i db"
    and db': "db' = fst (create_and_queue_pipeline_run env i a yaml name cfg db)"
  shows "keys_ok db'" and "standing db' m u = standing db m u" and "db_versions db' = db_versions db"
    and "requested_name name cfg \<noteq> PStr m \<Longrightarrow> rows_of m db' = rows_of m db"
    and "\<exists>new. runs_of db' = runs_of db @ new \<and> (\<forall>r \<in> set new. snd r = Some (us_id a))"
proof -
  note tables = create_and_queue_tables [OF assms(1) db']
  note same = tables_rows [of db' db]
  show "keys_ok db'" using tables same(4,5) assms(2,3) by blast
  show "standing db' m u = standing db m u" using tables same(1) by blast
  show "db_versions db' = db_versions db" using tables by blast
  show "requested_name name cfg \<noteq> PStr m \<Longrightarrow> rows_of m db' = rows_of m db" using tables same(2,3) by metis
  from tables consider "db_runs db' = db_runs db" | r where "db_runs db' = db_runs db @ [(r, Some (us_id a))]" by blast
  then show "\<exists>new. runs_of db' = runs_of db @ new \<and> (\<forall>r \<in> set new. snd r = Some (us_id a))"
    by cases (auto simp: runs_of_def)
qed

lemma check_versions_runs:
  "runs_of (fst (check_pipeline_permission a name lvls gr db)) = runs_of db"
  "db_versions (fst (check_pipeline_permission a name lvls gr db)) = db_versions db"
  by (cases rule: check_cases [of a name lvls gr db]; simp)+

lemma check_fresh: "fresh_id i db \<Longrightarrow> gr = Some j \<Longrightarrow> i \<noteq> j \<Longrightarrow> fresh_id i (fst (check_pipeline_permission a name lvls gr db))"
  by (cases rule: check_cases [of a name lvls gr db]) (auto simp: fresh_id_def add_grant_def)

lemma check_let_through:
  "check_pipeline_permission a name lvls gr db = (db1, Inr x) \<Longrightarrow> \<not> (is_stranger db name a \<and> name_in_use db name)"
  using run_check.stranger [of a db name lvls gr] by (auto simp: is_stranger_def check_answered_def)

lemma check_refused: "check_pipeline_permission a name lvls gr db = (db1, Inl e) \<Longrightarrow> db1 = db"
  by (cases rule: check_cases [of a name lvls gr db]) auto

text \<open>A request that passes the check and then queues a run.\<close>

lemma well_behaved_queue:
  assumes "keeps_identity env" and keys: "keys_ok db" and "fresh_id i db" and "fresh_id j db" and "i \<noteq> j"
    and check: "check_named_permission a (requested_name name cfg) lvls (Some j) db = (db1, Inr x)"
    and "db' = db1 \<or> db' = fst (create_and_queue_pipeline_run env i a yaml name cfg db1)"
  shows "well_behaved a given db db'"
proof (cases "\<exists>n. requested_name name cfg = PStr n")
  case True
  then obtain n where n: "requested_name name cfg = PStr n" by blast
  with check have c: "check_pipeline_permission a n lvls (Some j) db = (db1, Inr x)" by (simp add: check_named_permission_def)
  note eff = check_pipeline_permission_effect [OF keys, where name = n and a = a and levels = lvls and gr = "Some j", unfolded c fst_conv]
  have keys1: "keys_ok db1" using eff(2) assms(4) by simp
  have fresh1: "fresh_id i db1" using check_fresh [OF assms(3), of "Some j" j a n lvls] assms(5) c by simp
  note qeff = create_and_queue_effect [OF assms(1) keys1 fresh1, where a = a and yaml = yaml and name = name and cfg = cfg, OF refl]
  have runs1: "runs_of db1 = runs_of db" "db_versions db1 = db_versions db"
    using check_versions_runs [of a n lvls "Some j" db] c by simp_all
  have "\<not> (is_stranger db n a \<and> name_in_use db n)" by (rule check_let_through [OF c])
  moreover have rows: "rows_of m db' = rows_of m db" if "m \<noteq> n" for m
    using assms(7) eff(1) [OF that] qeff(4) [of m] n that by auto
  moreover have "keys_ok db'" "db_versions db' = db_versions db" using assms(7) keys1 qeff(1,3) runs1(2) by auto
  moreover have "standing db' m u \<longleftrightarrow> standing db1 m u" for m u using assms(7) qeff(2) by auto
  then have "standing db' m u \<longrightarrow> standing db m u \<or> u = us_id a" for m u using eff(3) [of m u] by blast
  moreover have "\<exists>new. runs_of db' = runs_of db @ new \<and> (\<forall>r \<in> set new. snd r = Some (us_id a))"
    using assms(7) qeff(5) runs1(1) by auto
  ultimately show ?thesis unfolding well_behaved_def view_def by metis
next
  case False
  then have db1: "db1 = db" using check by (auto simp: check_named_permission_def split: pyval.splits)
  have "fst (create_and_queue_pipeline_run env i a yaml name cfg db) = db"
    using False by (auto simp: create_and_queue_pipeline_run_def split: pyval.splits)
  with assms(7) db1 keys show ?thesis by (auto intro: well_behaved_same)
qed

text \<open>A request that starts a run: nothing happens before the check lets it through.\<close>

definition starts :: "api_env \<Rightarrow> uuid \<Rightarrow> uuid \<Rightarrow> account \<Rightarrow> api_db \<Rightarrow> api_db \<Rightarrow> bool" where
  "starts env i j a db db' \<longleftrightarrow> db' = db \<or>
     (\<exists>yaml name cfg db1 x. check_named_permission a (requested_name name cfg) [OWNER, RUNNER] (Some j) db = (db1, Inr x) \<and>
        (db' = db1 \<or> db' = fst (create_and_queue_pipeline_run env i a yaml name cfg db1)))"

lemma check_named_refused: "check_named_permission a v lvls gr db = (db1, Inl e) \<Longrightarrow> db1 = db"
  by (auto simp: check_named_permission_def dest: check_refused split: pyval.splits if_splits)

lemma startsI:
  assumes "check_named_permission a (requested_name name cfg) [OWNER, RUNNER] (Some j) db = (db1, r)"
    and "\<And>e. r = Inl e \<Longrightarrow> db' = db1" and "\<And>x. r = Inr x \<Longrightarrow> db' = db1 \<or> db' = fst (create_and_queue_pipeline_run env i a yaml name cfg db1)"
  shows "starts env i j a db db'"
proof (cases r)
  case (Inl e)
  with assms check_named_refused show ?thesis by (simp add: starts_def)
next
  case (Inr x)
  with assms(1,3) show ?thesis unfolding starts_def by blast
qed

lemma run_pipeline_request_starts: "starts env i j a db (fst (run_pipeline_request env i j a yaml name db))"
proof (cases "run_request_ok env yaml name \<and> (\<exists>cfg. parsed_pipeline (ap_yaml env) yaml = Inr cfg)")
  case True
  then obtain cfg where cfg: "run_request_ok env yaml name" "parsed_pipeline (ap_yaml env) yaml = Inr cfg" by blast
  obtain db1 r where check: "check_named_permission a (requested_name name cfg) [OWNER, RUNNER] (Some j) db = (db1, r)" by fastforce
  show ?thesis
    by (rule startsI [OF check, where yaml = yaml]) (simp_all add: run_pipeline_request_def cfg check split: sum.split)
next
  case False
  then have "fst (run_pipeline_request env i j a yaml name db) = db"
    by (cases "parsed_pipeline (ap_yaml env) yaml") (auto simp: run_pipeline_request_def)
  then show ?thesis by (simp add: starts_def)
qed

lemma run_pipeline_legacy_starts: "starts env i j a db (fst (run_pipeline_legacy env i j a raw db))"
proof (cases "\<exists>yaml name cfg. legacy_yaml (legacy_payload env raw) = PStr yaml \<and> py_strip yaml \<noteq> [] \<and>
    legacy_name (legacy_payload env raw) = Some name \<and> parsed_pipeline (ap_yaml env) yaml = Inr cfg")
  case True
  then obtain yaml name cfg where y: "legacy_yaml (legacy_payload env raw) = PStr yaml" "py_strip yaml \<noteq> []"
    "legacy_name (legacy_payload env raw) = Some name" "parsed_pipeline (ap_yaml env) yaml = Inr cfg" by blast
  obtain db1 r where check: "check_named_permission a (requested_name name cfg) [OWNER, RUNNER] (Some j) db = (db1, r)" by fastforce
  show ?thesis
    by (rule startsI [OF check, where yaml = yaml]) (simp_all add: run_pipeline_legacy_def Let_def y check split: sum.split)
next
  case False
  then have "fst (run_pipeline_legacy env i j a raw db) = db"
    by (auto simp: run_pipeline_legacy_def Let_def split: pyval.split option.split sum.split)
  then show ?thesis by (simp add: starts_def)
qed

lemma well_behaved_starts:
  assumes "keeps_identity env" "keys_ok db" "fresh_id i db" "fresh_id j db" "i \<noteq> j" "starts env i j a db db'"
  shows "well_behaved a given db db'"
  using assms(6) well_behaved_same [OF assms(2)] well_behaved_queue [OF assms(1-5)] unfolding starts_def by blast

text \<open>Schedules touch nothing of a name but, at their creation, its first owner.\<close>

lemma well_behaved_check:
  assumes "keys_ok db" and "fresh_id j db"
  shows "well_behaved a given db (fst (check_pipeline_permission a n lvls (Some j) db))"
proof (cases "check_pipeline_permission a n lvls (Some j) db")
  case (Pair db1 r)
  note eff = check_pipeline_permission_effect [OF assms(1), where name = n and a = a and levels = lvls and gr = "Some j", unfolded Pair fst_conv]
  show ?thesis unfolding Pair fst_conv
  proof (rule well_behavedI [where name = n])
    show "keys_ok db1" using eff(2) assms(2) by simp
    show "rows_of m db1 = rows_of m db" if "m \<noteq> n" for m using eff(1) that .
    show "is_stranger db n a \<Longrightarrow> name_in_use db n \<Longrightarrow> db1 = db" using eff(4) by simp
    show "standing db1 m u \<Longrightarrow> \<not> standing db m u \<Longrightarrow> u = us_id a \<or> given m u" for m u using eff(3) [of m u] by blast
    show "runs_of db1 = runs_of db" "db_versions db1 = db_versions db"
      using check_versions_runs [of a n lvls "Some j" db] Pair by simp_all
  qed
qed

lemma schedules_only:
  "rows_of m (db\<lparr>db_schedules := ss\<rparr>) = rows_of m db" "keys_ok (db\<lparr>db_schedules := ss\<rparr>) = keys_ok db"
  "standing (db\<lparr>db_schedules := ss\<rparr>) m u = standing db m u" "runs_of (db\<lparr>db_schedules := ss\<rparr>) = runs_of db"
  by (simp_all add: rows_of_def keys_ok_def standing_iff runs_of_def)

lemma well_behaved_log [simp]: "well_behaved a given db (log_action act b ty i ds db') = well_behaved a given db db'"
  by (simp add: well_behaved_def view_def access_simps)

lemma well_behaved_schedules [simp]: "well_behaved a given db (db'\<lparr>db_schedules := ss\<rparr>) = well_behaved a given db db'"
  by (simp add: well_behaved_def view_def schedules_only)

lemma well_behaved_schedule_requests:
  assumes "keys_ok db"
  shows "well_behaved a given db (fst (pause_schedule a s db))" "well_behaved a given db (fst (resume_schedule env a s db))"
    "well_behaved a given db (fst (toggle_schedule env a s db))" "well_behaved a given db (fst (delete_schedule a s db))"
  by (simp_all add: pause_schedule_def resume_schedule_def toggle_schedule_def delete_schedule_def store_schedule_def Let_def
      well_behaved_same assms split: sum.split)

lemma well_behaved_create_schedule:
  assumes "keys_ok db" and "fresh_id j db"
  shows "well_behaved a given db (fst (create_schedule env i j a name yaml cron db))"
proof -
  obtain db1 r where check: "check_pipeline_permission a name [OWNER, RUNNER] (Some j) db = (db1, r)" by fastforce
  then have "well_behaved a given db db1" using well_behaved_check [OF assms, of a given name "[OWNER, RUNNER]"] by simp
  then show ?thesis
    by (simp add: create_schedule_def check Let_def well_behaved_same assms(1) split: sum.split)
qed

text \<open>Restoring a version.\<close>

lemma save_alone:
  "list_all (\<lambda>os. os = []) others \<Longrightarrow> \<exists>vs. fst (save_attempts safe_load name yaml run_id others rows) = rows @ vs \<and>
     (\<forall>v \<in> set vs. pv_pipeline_name v = name)"
proof (induction safe_load name yaml run_id others rows rule: save_attempts.induct)
  case (1 safe_load name yaml run_id rows)
  then show ?case by simp
next
  case (2 safe_load name yaml run_id oth rest rows)
  show ?case
  proof (cases "next_version safe_load name yaml run_id rows")
    case (Inl e)
    with 2 show ?thesis by simp
  next
    case (Inr v)
    with 2 next_version_Inr [OF Inr] show ?thesis by simp
  qed
qed

lemma well_behaved_restore:
  assumes "keys_ok db"
  shows "well_behaved a given db (fst (restore_version safe_load (\<lambda>_. []) a name n db))"
proof (cases "check_version_permission a name [OWNER, RUNNER] db = Inr () \<and> find_version name n db \<noteq> None")
  case False
  then have "fst (restore_version safe_load (\<lambda>_. []) a name n db) = db"
    by (cases "check_version_permission a name [OWNER, RUNNER] db") (auto simp: restore_version_def)
  with well_behaved_same [OF assms] show ?thesis by simp
next
  case True
  then obtain v where v: "check_version_permission a name [OWNER, RUNNER] db = Inr ()" "find_version name n db = Some v" by blast
  obtain vs where vs: "fst (save_version safe_load (\<lambda>_. []) name (pv_yaml_config v) None 5 (db_versions db)) = db_versions db @ vs"
    "\<forall>v \<in> set vs. pv_pipeline_name v = name"
    using save_alone [of "map (\<lambda>_. []) [0..<nat 5]" safe_load name "pv_yaml_config v" None "db_versions db"]
    by (auto simp: save_version_def list_all_iff)
  define db' where "db' = db\<lparr>db_versions := db_versions db @ vs\<rparr>"
  have db': "fst (restore_version safe_load (\<lambda>_. []) a name n db) = db'"
    using vs(1) by (cases "save_version safe_load (\<lambda>_. []) name (pv_yaml_config v) None 5 (db_versions db)")
      (simp add: restore_version_def v db'_def)
  have same: "rows_of m db' = rows_of m db" "keys_ok db' = keys_ok db" "standing db' m u = standing db m u" "runs_of db' = runs_of db" for m u
    by (simp_all add: db'_def rows_of_def keys_ok_def standing_iff runs_of_def)
  have "view m db' = view m db" if "m \<noteq> name" for m
    using vs(2) that same(1) by (auto simp: view_def db'_def filter_empty_conv)
  moreover have "\<not> (is_stranger db name a \<and> name_in_use db name)"
    using version_check.stranger [of a db name "[OWNER, RUNNER]"] v(1) by (auto simp: is_stranger_def)
  ultimately show ?thesis unfolding db' well_behaved_def using same assms by (metis append_Nil2 empty_iff empty_set)
qed

text \<open>Cancelling.\<close>

lemma find_run_Inr: "find_run run_id db = Inr r \<Longrightarrow> r \<in> set (db_runs db)"
  by (auto simp: find_run_def dest: find_SomeD split: option.splits)

lemma check_run_stranger:
  assumes "is_stranger db (rw_name (fst r)) a" and "r \<in> set (db_runs db)"
  shows "check_run_permission a r lvls db \<noteq> Inr ()"
proof -
  have "snd r \<noteq> Some (us_id a)" using assms by (force simp: is_stranger_def runs_of_def)
  with assms(1) show ?thesis by (simp add: check_run_permission_def is_stranger_def check_pipeline_permission_def standing_def)
qed

lemma request_cancel_cases:
  obtains "fst (request_cancel env a run_id db ch) = db"
  | r row where "find_run run_id db = Inr r" "check_run_permission a r [OWNER, RUNNER] db = Inr ()" "rw_id row = rw_id (fst r)"
      "rw_name row = rw_name (fst r)"
      "fst (request_cancel env a run_id db ch) = log_action ''pipeline_cancelled'' a ''pipeline'' (the (py_uuid run_id)) []
         (db\<lparr>db_runs := map (\<lambda>x. if rw_id (fst x) = rw_id row then (row, snd x) else x) (db_runs db)\<rparr>)"
proof (cases "\<exists>r. find_run run_id db = Inr r \<and> check_run_permission a r [OWNER, RUNNER] db = Inr () \<and> cancellable (rw_status (fst r))")
  case True
  then obtain r where r: "find_run run_id db = Inr r" "check_run_permission a r [OWNER, RUNNER] db = Inr ()" "cancellable (rw_status (fst r))"
    by blast
  have row: "rw_id (cancelled_row (ap_now env) (fst r)) = rw_id (fst r)" "rw_name (cancelled_row (ap_now env) (fst r)) = rw_name (fst r)"
    by (simp_all add: cancelled_row_def)
  show thesis
    by (rule that(2) [OF r(1,2), of "cancelled_row (ap_now env) (fst r)"])
      (simp_all add: request_cancel_def r cancel_pipeline_run_def row)
next
  case False
  then have "fst (request_cancel env a run_id db ch) = db"
    by (auto simp: request_cancel_def cancel_pipeline_run_def split: sum.split)
  with that(1) show thesis by blast
qed

lemma well_behaved_cancel:
  assumes "keys_ok db"
  shows "well_behaved a given db (fst (request_cancel env a run_id db ch))"
proof (cases rule: request_cancel_cases [of env a run_id db ch])
  case 1
  with well_behaved_same [OF assms] show ?thesis by simp
next
  case (2 r row)
  let ?f = "\<lambda>x. if rw_id (fst x) = rw_id row then (row, snd x) else x"
  define db' where "db' = db\<lparr>db_runs := map ?f (db_runs db)\<rparr>"
  have r: "r \<in> set (db_runs db)" by (rule find_run_Inr [OF 2(1)])
  have "inj_on (rw_id \<circ> fst) (set (db_runs db))" using assms by (simp add: keys_ok_def distinct_map)
  then have named: "rw_name (fst x) = rw_name row" if "x \<in> set (db_runs db)" "rw_id (fst x) = rw_id row" for x
    using inj_onD [of "rw_id \<circ> fst" "set (db_runs db)" x r] r that 2(3,4) by simp
  then have keep: "rw_name (fst (?f x)) = rw_name (fst x)" if "x \<in> set (db_runs db)" for x using that by auto
  have runs: "runs_of db' = runs_of db" using keep by (simp add: runs_of_def db'_def)
  have "filter (\<lambda>x. rw_name (fst x) = m) (map ?f xs) = filter (\<lambda>x. rw_name (fst x) = m) xs"
    if "m \<noteq> rw_name row" "set xs \<subseteq> set (db_runs db)" for m xs
    using that named by (induction xs) auto
  then have rows: "rows_of m db' = rows_of m db" if "m \<noteq> rw_name row" for m using that by (simp add: rows_of_def db'_def)
  have ids: "map (rw_id \<circ> fst) (map ?f (db_runs db)) = map (rw_id \<circ> fst) (db_runs db)" by auto
  have "keys_ok db'" using assms by (simp add: keys_ok_def db'_def ids del: map_map)
  moreover have "\<not> is_stranger db (rw_name row) a" using check_run_stranger [OF _ r, of a] 2(2,4) by auto
  moreover have "standing db' m u = standing db m u" for m u by (simp add: standing_iff db'_def)
  moreover have "db_versions db' = db_versions db" by (simp add: db'_def)
  ultimately have "well_behaved a given db db'" using rows runs unfolding well_behaved_def view_def
    by (metis append_Nil2 empty_iff empty_set)
  with 2(5) show ?thesis by (simp add: db'_def)
qed

lemma fst_served [simp]: "fst (served r) = fst r"
  by (simp add: served_def)

lemma well_behaved_weaken: "well_behaved a given db db' \<Longrightarrow> (\<And>m u. given m u \<Longrightarrow> given' m u) \<Longrightarrow> well_behaved a given' db db'"
  unfolding well_behaved_def by blast

lemma serve_well_behaved:
  assumes "keeps_identity env" and "keys_ok db" and "fresh_id i db" and "fresh_id j db" and "i \<noteq> j"
  shows "well_behaved a (grants_to r) db (fst (serve env i j a r db))"
proof (cases r)
  case (GrantRequest name target lv)
  then show ?thesis using well_behaved_grant [OF assms(2,3), of a name target lv] by (auto elim: well_behaved_weaken)
next
  case (CancelRequest run_id)
  then show ?thesis using well_behaved_cancel [OF assms(2), of a "grants_to r" env run_id] by (simp split: prod.split) (metis fst_conv)
qed (simp_all add: well_behaved_revoke well_behaved_create well_behaved_update well_behaved_delete well_behaved_restore assms
    well_behaved_starts [OF assms run_pipeline_request_starts] well_behaved_starts [OF assms run_pipeline_legacy_starts]
    well_behaved_create_schedule well_behaved_schedule_requests)

section \<open>Properties\<close>

fun fresh_calls :: "api_env \<Rightarrow> api_call list \<Rightarrow> api_db \<Rightarrow> bool" where
  "fresh_calls env [] db = True"
| "fresh_calls env ((a, i, j, r) # calls) db =
     (fresh_id i db \<and> fresh_id j db \<and> i \<noteq> j \<and> fresh_calls env calls (fst (serve env i j a r db)))"

text \<open>No call of an account other than \<open>u\<close> gives \<open>u\<close> a permission for the name, and \<open>u\<close> is no administrator.\<close>

fun nobody_lets_in :: "string \<Rightarrow> uuid \<Rightarrow> api_call \<Rightarrow> bool" where
  "nobody_lets_in name u (a, i, j, r) = (if us_id a = u then us_role a \<noteq> ''admin'' else \<not> grants_to r name u)"

definition left_out :: "api_db \<Rightarrow> string \<Rightarrow> uuid \<Rightarrow> bool" where
  "left_out db name u \<longleftrightarrow> keys_ok db \<and> \<not> standing db name u \<and> (name, Some u) \<notin> set (runs_of db) \<and> name \<in> fst ` set (runs_of db)"

lemma left_out_in_use: "left_out db name u \<Longrightarrow> name_in_use db name"
  by (fastforce simp: left_out_def name_in_use_def runs_of_def list_ex_iff)

lemma view_left_out:
  assumes "view name db' = view name db" and "keys_ok db'" and "left_out db name u"
  shows "left_out db' name u"
proof -
  have rows: "rows_of name db' = rows_of name db" using assms(1) by (simp add: view_def)
  have "(name, o') \<in> set (runs_of db) \<longleftrightarrow> (\<exists>r \<in> set (snd (snd (rows_of name db))). snd r = o')" for o' db
    by (force simp: runs_of_def rows_of_def)
  then have "(name, o') \<in> set (runs_of db') \<longleftrightarrow> (name, o') \<in> set (runs_of db)" for o' using rows by simp
  then have "(name, Some u) \<notin> set (runs_of db')" "name \<in> fst ` set (runs_of db')" using assms(3) by (force simp: left_out_def)+
  with assms(2,3) standing_rows [OF rows] show ?thesis by (simp add: left_out_def)
qed

lemma serve_left_out:
  assumes "keeps_identity env" and "fresh_id i db" and "fresh_id j db" and "i \<noteq> j"
    and "left_out db name u" and "nobody_lets_in name u (a, i, j, r)"
  shows "left_out (fst (serve env i j a r db)) name u"
    and "us_id a = u \<Longrightarrow> view name (fst (serve env i j a r db)) = view name db"
proof -
  let ?db' = "fst (serve env i j a r db)"
  have wb: "well_behaved a (grants_to r) db ?db'" using serve_well_behaved [OF assms(1) _ assms(2-4)] assms(5) by (simp add: left_out_def)
  show same: "us_id a = u \<Longrightarrow> view name ?db' = view name db"
    using wb assms(5,6) left_out_in_use [OF assms(5)] by (auto simp: well_behaved_def is_stranger_def left_out_def)
  show "left_out ?db' name u"
  proof (cases "us_id a = u")
    case True
    with same wb assms(5) show ?thesis by (auto simp: well_behaved_def intro: view_left_out)
  next
    case False
    then have "\<not> standing ?db' name u" using wb assms(5,6) by (auto simp: well_behaved_def left_out_def)
    moreover from wb obtain new where "runs_of ?db' = runs_of db @ new" "\<forall>r \<in> set new. snd r = Some (us_id a)"
      unfolding well_behaved_def by blast
    ultimately show ?thesis using wb assms(5) False by (auto simp: left_out_def well_behaved_def)
  qed
qed

text \<open>C15.  Nobody gets into a pipeline by the requests that start, restore, schedule, cancel, grant and write contracts: a user without
  administrator role, grant, contract or run of a name that has been run stays without standing through any sequence of requests of any users,
  unless somebody else grants it a permission for that name, and none of its own requests changes a grant, contract, run or version of
  the name.\<close>

theorem outsider_stays_out:
  assumes "keeps_identity env" and "left_out db name u" and "fresh_calls env calls db" and "list_all (nobody_lets_in name u) calls"
  shows "left_out (serve_all env calls db) name u \<and>
    (\<forall>a i j r. us_id a = u \<and> us_role a \<noteq> ''admin'' \<and> fresh_id i (serve_all env calls db) \<and> fresh_id j (serve_all env calls db) \<and> i \<noteq> j \<longrightarrow>
       view name (fst (serve env i j a r (serve_all env calls db))) = view name (serve_all env calls db))"
  using assms
proof (induction env calls db rule: serve_all.induct)
  case (1 env db)
  then show ?case by (auto intro: serve_left_out(2))
next
  case (2 env a i j r calls db)
  then have "left_out (fst (serve env i j a r db)) name u" using serve_left_out(1) [of env i db j name u a r] by simp
  with 2 show ?case by simp
qed

definition demo_api :: "pyval \<Rightarrow> api_env" where
  "demo_api v = \<lparr>ap_yaml = (\<lambda>_. Inr v), ap_json = (\<lambda>_. Some (PDict [(PStr ''yaml'', PStr ''name: p, steps'')])), ap_max_steps = 50,
     ap_croniter = \<lparr>cron_accepts = (\<lambda>_. Inr ()), cron_valid = (\<lambda>_. Inr True), cron_after = (\<lambda>_ t. Inr (t + 60))\<rparr>,
     ap_exn_str = (\<lambda>_. []), ap_now = 100, ap_broker_up = True, ap_task_id = ''t'', ap_meanwhile = (\<lambda>r. r), ap_row_id = py_uuid,
     ap_sse = \<lparr>json_dumps = (\<lambda>_. []), json_dumps_sorted = (\<lambda>_. []), json_parse = (\<lambda>_. Inr PNone), hmac_hex = (\<lambda>_. []),
       test_environment = False\<rparr>,
     ap_redis = \<lparr>pubsub_up = True, cache_up = True\<rparr>\<rparr>"

definition used_db :: api_db where
  "used_db = demo_db\<lparr>db_runs := [(pending_run (uuid_text 15) ''p'' ''name: p, steps'' 1, Some 2)],
     db_files := [\<lparr>up_id = 5, up_user = Some 2, up_columns = [''id''], up_dtypes = [(''id'', ''int64'')], up_row_count = 3\<rparr>]\<rparr>"

definition demo_target :: string where
  "demo_target = ''00000000-0000-0000-0000-000000000003''"

lemma demo_keeps_identity: "keeps_identity (demo_api v)"
  by (simp add: keeps_identity_def demo_api_def)

lemma used_left_out: "left_out used_db ''p'' 3"
  by (simp add: left_out_def keys_ok_def standing_iff runs_of_def used_db_def demo_db_def pending_run_def)

theorem outsider_stays_out_witness:
  "view ''p'' (fst (serve (demo_api PNone) 24 25 demo_bob (CreateContract ''p'' ''c'' ''warn'' [])
     (serve_all (demo_api PNone) [(demo_bob, 20, 21, GrantRequest ''p'' demo_target ''owner'')] used_db))) =
   view ''p'' (serve_all (demo_api PNone) [(demo_bob, 20, 21, GrantRequest ''p'' demo_target ''owner'')] used_db)"
proof -
  let ?calls = "[(demo_bob, 20, 21, GrantRequest ''p'' demo_target ''owner'')]"
  let ?db = "serve_all (demo_api PNone) ?calls used_db"
  have "fresh_calls (demo_api PNone) ?calls used_db" by code_simp
  moreover have "list_all (nobody_lets_in ''p'' 3) ?calls" by (simp add: demo_bob_def)
  ultimately have stays: "\<forall>a i j r. us_id a = 3 \<and> us_role a \<noteq> ''admin'' \<and> fresh_id i ?db \<and> fresh_id j ?db \<and> i \<noteq> j \<longrightarrow>
      view ''p'' (fst (serve (demo_api PNone) i j a r ?db)) = view ''p'' ?db"
    using outsider_stays_out [OF demo_keeps_identity used_left_out] by blast
  have "fresh_id 24 ?db" "fresh_id 25 ?db" by code_simp+
  then show ?thesis by (intro stays [rule_format]) (simp_all add: demo_bob_def del: serve_all.simps)
qed

section \<open>Accepted runs\<close>

definition entitled :: "api_db \<Rightarrow> string \<Rightarrow> account \<Rightarrow> bool" where
  "entitled db name a \<longleftrightarrow> us_role a = ''admin'' \<or> owns_contract db name (us_id a) \<or> levels db (name, us_id a) \<in> {Some OWNER, Some RUNNER}"

lemma levels_add_grant:
  "grant_of db (gr_pipeline g) (gr_user g) = None \<Longrightarrow> levels (add_grant g db) (gr_pipeline g, gr_user g) = Some (gr_level g)"
proof -
  have "find P xs = None \<Longrightarrow> find P (xs @ [x]) = (if P x then Some x else None)" for P xs and x :: grant_row
    by (induction xs) (auto split: if_splits)
  then show "grant_of db (gr_pipeline g) (gr_user g) = None \<Longrightarrow> levels (add_grant g db) (gr_pipeline g, gr_user g) = Some (gr_level g)"
    by (simp add: levels_def grant_of_def add_grant_def)
qed

lemma check_entitled:
  assumes "check_pipeline_permission a n [OWNER, RUNNER] (Some j) db = (db1, Inr x)"
  shows "(db1 = db \<and> entitled db n a) \<or>
    (\<not> name_in_use db n \<and> db1 = add_grant \<lparr>gr_id = j, gr_pipeline = n, gr_user = us_id a, gr_level = OWNER\<rparr> db \<and>
     levels db1 (n, us_id a) = Some OWNER)"
proof (cases rule: check_cases [of a n "[OWNER, RUNNER]" "Some j" db])
  case (1 r)
  with assms have "db1 = db" by simp
  moreover have "entitled db n a"
    using assms \<open>db1 = db\<close> by (auto simp: check_pipeline_permission_def entitled_def levels_def add_grant_def split: if_splits option.splits
        dest: arg_cong [where f = "length \<circ> db_grants"])
  ultimately show ?thesis by simp
next
  case (2 i)
  then have "grant_of db n (us_id a) = None" by (auto simp: name_in_use_def grant_of_None list_ex_iff)
  with 2 assms levels_add_grant [of db "\<lparr>gr_id = j, gr_pipeline = n, gr_user = us_id a, gr_level = OWNER\<rparr>"] show ?thesis by auto
qed

lemma referenced_registered:
  assumes "well_formed k (owned_file_ids db a) cfg" and "f \<in> set (referenced_files (steps cfg))"
  shows "\<exists>u \<in> set (db_files db). f = uuid_text (up_id u) \<and> (us_role a = ''admin'' \<or> up_user u = Some (us_id a))"
proof -
  from assms(2) obtain s where s: "s \<in> set (steps cfg)" "file_id_attr s = PStr f"
    by (auto simp: referenced_files_def split: pyval.splits if_splits)
  then obtain al where fields: "cfg_fields s = LoadFields (PStr f) al" by (auto simp: file_id_attr_def split: step_fields.splits)
  from assms(1) s(1) have "load_ok (owned_file_ids db a) s" "required_ok s" "step_type s \<in> range Inr"
    by (auto simp: well_formed_def list_all_iff)
  then have "f \<in> set (owned_file_ids db a)" by (auto simp: load_ok_def required_ok_def fields)
  then show ?thesis by (auto simp: owned_file_ids_def)
qed

lemma file_uuids_text: "(\<And>f. f \<in> set fs \<Longrightarrow> \<exists>u < 2 ^ 128. f = uuid_text u) \<Longrightarrow>
    \<exists>us. file_uuids fs = Inr us \<and> (\<forall>u < 2 ^ 128. u \<in> set us \<longleftrightarrow> uuid_text u \<in> set fs)"
proof (induction fs)
  case Nil
  then show ?case by simp
next
  case (Cons f fs)
  then obtain u us where u: "u < 2 ^ 128" "f = uuid_text u" and us: "file_uuids fs = Inr us"
    "\<forall>u < 2 ^ 128. u \<in> set us \<longleftrightarrow> uuid_text u \<in> set fs"
    by (metis list.set_intros)
  have "\<forall>v < 2 ^ 128. v \<in> set (u # us) \<longleftrightarrow> uuid_text v \<in> set (f # fs)"
    using us(2) u uuid_text_inj [of _ u] by auto
  with us(1) show ?case using u by (auto simp: py_uuid_text)
qed

text \<open>Queueing a run whose references are stored files.\<close>

definition small_ids :: "api_db \<Rightarrow> bool" where
  "small_ids db \<longleftrightarrow> (\<forall>f \<in> set (db_files db). up_id f < 2 ^ 128)"

definition reads_own_files :: "api_db \<Rightarrow> account \<Rightarrow> pipeline_config \<Rightarrow> bool" where
  "reads_own_files db a cfg \<longleftrightarrow> (\<forall>f \<in> set (referenced_files (steps cfg)). \<exists>u \<in> set (db_files db).
     f = uuid_text (up_id u) \<and> (us_role a = ''admin'' \<or> up_user u = Some (us_id a)))"

definition queued_task_of :: "pipeline_config \<Rightarrow> string \<Rightarrow> queued_task" where
  "queued_task_of cfg run_id = (if has_stream_consume cfg then StreamingTask run_id else ExecuteTask run_id)"

definition queued_row :: "api_env \<Rightarrow> pipeline_config \<Rightarrow> string \<Rightarrow> string \<Rightarrow> string \<Rightarrow> run_row" where
  "queued_row env cfg run_id n yaml = queued_run env (has_stream_consume cfg) (pending_run run_id n yaml (ap_now env))"

text \<open>The run is there, with its task and a snapshot of each file that it reads.\<close>

definition run_queued :: "api_env \<Rightarrow> uuid \<Rightarrow> account \<Rightarrow> string \<Rightarrow> string \<Rightarrow> pipeline_config \<Rightarrow> api_db \<Rightarrow> api_db \<Rightarrow> bool" where
  "run_queued env i a n yaml cfg db db' \<longleftrightarrow>
     db_runs db' = db_runs db @ [(queued_row env cfg (uuid_text i) n yaml, Some (us_id a))] \<and>
     db_queue db' = db_queue db @ [queued_task_of cfg (uuid_text i)] \<and>
     (\<exists>new. db_snapshots db' = db_snapshots db @ new \<and> list_all (\<lambda>s. ss_run s = uuid_text i) new \<and>
        (\<forall>f \<in> set (db_files db). uuid_text (up_id f) \<in> set (referenced_files (steps cfg)) \<longleftrightarrow> snapshot_of (uuid_text i) f \<in> set new))"

lemma create_and_queue_cases:
  assumes "small_ids db" and "\<And>f. f \<in> set (referenced_files (steps cfg)) \<Longrightarrow> \<exists>u \<in> set (db_files db). f = uuid_text (up_id u)"
    and "requested_name name cfg = PStr n"
  shows "case create_and_queue_pipeline_run env i a yaml name cfg db of
      (db', Inl e) \<Rightarrow> db_queue db' = db_queue db \<and> (ap_broker_up env \<longrightarrow> db' = db)
    | (db', Inr (run_id, st)) \<Rightarrow> run_queued env i a n yaml cfg db db' \<and> run_id = uuid_text i \<and>
        st = status_value (rw_status (queued_row env cfg run_id n yaml)) \<and> db_grants db' = db_grants db"
proof -
  have "\<exists>u < 2 ^ 128. f = uuid_text u" if "f \<in> set (referenced_files (steps cfg))" for f
    using assms(1,2) that by (force simp: small_ids_def)
  then obtain us where us: "file_uuids (referenced_files (steps cfg)) = Inr us"
    "\<forall>u < 2 ^ 128. u \<in> set us \<longleftrightarrow> uuid_text u \<in> set (referenced_files (steps cfg))"
    using file_uuids_text [of "referenced_files (steps cfg)"] by blast
  let ?new = "map (snapshot_of (uuid_text i)) (filter (\<lambda>f. up_id f \<in> set us) (db_files db))"
  have runs: "list_all (\<lambda>s. ss_run s = uuid_text i) ?new" by (simp add: list_all_iff snapshot_of_def)
  have files: "uuid_text (up_id f) \<in> set (referenced_files (steps cfg)) \<longleftrightarrow> snapshot_of (uuid_text i) f \<in> set ?new"
    if "f \<in> set (db_files db)" for f
  proof -
    have ids: "up_id g = up_id f" if "snapshot_of (uuid_text i) f = snapshot_of (uuid_text i) g" for g
      using that by (simp add: snapshot_of_def)
    have "snapshot_of (uuid_text i) f \<in> set ?new \<longleftrightarrow> up_id f \<in> set us"
    proof
      assume "snapshot_of (uuid_text i) f \<in> set ?new"
      then have "snapshot_of (uuid_text i) f \<in> snapshot_of (uuid_text i) ` {g \<in> set (db_files db). up_id g \<in> set us}" by (simp only: list.set_map set_filter)
      then obtain g where "snapshot_of (uuid_text i) f = snapshot_of (uuid_text i) g" "up_id g \<in> set us" by (elim imageE) blast
      with ids show "up_id f \<in> set us" by metis
    next
      assume "up_id f \<in> set us"
      with that show "snapshot_of (uuid_text i) f \<in> set ?new" by simp
    qed
    moreover have "up_id f < 2 ^ 128" using assms(1) that by (simp only: small_ids_def)
    ultimately show ?thesis using us(2) by blast
  qed
  have snaps: "create_run_schema_snapshots (uuid_text i) cfg db0 = (db0\<lparr>db_snapshots := db_snapshots db0 @ ?new\<rparr>, Inr ())"
    if "db_files db0 = db_files db" for db0
    by (simp add: create_run_schema_snapshots_def us(1) that)
  show ?thesis
  proof (cases "fits_column n \<and> ap_broker_up env")
    case False
    then show ?thesis by (auto simp: create_and_queue_pipeline_run_def assms(3) Let_def snaps)
  next
    case True
    define db' where "db' = log_action ''pipeline_run'' a ''pipeline'' i [(''name'', n)] (db\<lparr>db_snapshots := db_snapshots db @ ?new,
      db_runs := db_runs db @ [(queued_row env cfg (uuid_text i) n yaml, Some (us_id a))],
      db_queue := db_queue db @ [queued_task_of cfg (uuid_text i)]\<rparr>)"
    have result: "create_and_queue_pipeline_run env i a yaml name cfg db =
        (db', Inr (uuid_text i, status_value (rw_status (queued_row env cfg (uuid_text i) n yaml))))"
      using True by (simp add: create_and_queue_pipeline_run_def assms(3) Let_def snaps db'_def queued_row_def queued_task_of_def)
    have tables: "db_runs db' = db_runs db @ [(queued_row env cfg (uuid_text i) n yaml, Some (us_id a))]"
      "db_queue db' = db_queue db @ [queued_task_of cfg (uuid_text i)]" "db_snapshots db' = db_snapshots db @ ?new" "db_grants db' = db_grants db"
      by (simp_all add: db'_def log_action_def)
    have "run_queued env i a n yaml cfg db db'"
      unfolding run_queued_def tables using runs files by blast
    with tables(4) show ?thesis by (simp add: result)
  qed
qed

lemma check_named_admin: "us_role a = ''admin'' \<Longrightarrow> check_named_permission a v lvls gr db = (db, Inr ())"
  by (simp add: check_named_permission_def check_pipeline_permission_def split: pyval.split)

lemma well_formed_name_text:
  assumes "well_formed k ids cfg"
  shows "\<exists>n. requested_name name cfg = PStr n"
proof -
  from assms obtain m where "pipeline_name cfg = PStr m"
    by (cases "pipeline_name cfg") (auto simp: well_formed_def nonblank_def)
  then show ?thesis by (auto simp: requested_name_def split: option.split)
qed

text \<open>Nothing but the grants differs after the check.\<close>

lemma check_tables:
  assumes "check_named_permission a v lvls gr db = (db1, r)"
  shows "db_runs db1 = db_runs db" "db_queue db1 = db_queue db" "db_snapshots db1 = db_snapshots db" "db_files db1 = db_files db"
    "db_schedules db1 = db_schedules db"
proof -
  have "\<exists>gs. db1 = db\<lparr>db_grants := gs\<rparr>"
  proof (cases v)
    case (PStr n)
    with assms have "check_pipeline_permission a n lvls gr db = (db1, r)" by (simp add: check_named_permission_def)
    then show ?thesis
      by (cases rule: check_cases [of a n lvls gr db]) (auto simp: add_grant_def intro: exI [of _ "db_grants db"])
  qed (use assms in \<open>auto simp: check_named_permission_def intro: exI [of _ "db_grants db"]\<close>)
  then show "db_runs db1 = db_runs db" "db_queue db1 = db_queue db" "db_snapshots db1 = db_snapshots db" "db_files db1 = db_files db"
    "db_schedules db1 = db_schedules db" by auto
qed

lemma same_files: "db_files db1 = db_files db \<Longrightarrow> owned_file_ids db1 a = owned_file_ids db a \<and> stored_columns db1 = stored_columns db \<and>
    small_ids db1 = small_ids db"
  by (simp add: owned_file_ids_def small_ids_def stored_columns_def find_file_def fun_eq_iff split: option.split)

text \<open>C14.  A run request that is accepted comes from an administrator, an owner (of the pipeline or of a contract), a runner, or the first user
  of an unused name, who becomes its owner; its pipeline is well formed, reads only files of the user (or of anybody, for an
  administrator), and the column check found nothing; the run is stored under the requested name with a snapshot of every file it reads and
  its task is on the queue, that of the daemon exactly if a step consumes a stream.  A refused request queues nothing, and stores no run unless the
  broker is down.\<close>

theorem accepted_run:
  assumes "small_ids db"
  shows "case run_pipeline_request env i j a yaml name db of
      (db', Inl e) \<Rightarrow> db_queue db' = db_queue db \<and> (ap_broker_up env \<longrightarrow> db_runs db' = db_runs db \<and> db_snapshots db' = db_snapshots db)
    | (db', Inr (run_id, st)) \<Rightarrow>
        (\<exists>cfg n. parsed_pipeline (ap_yaml env) yaml = Inr cfg \<and> requested_name name cfg = PStr n \<and>
           (entitled db n a \<or> (\<not> name_in_use db n \<and> levels db' (n, us_id a) = Some OWNER)) \<and>
           well_formed (ap_max_steps env) (owned_file_ids db a) cfg \<and> reads_own_files db a cfg \<and>
           collect_schema_validation_errors (stored_columns db) cfg = Inr [] \<and>
           run_queued env i a n yaml cfg db db' \<and> run_id = uuid_text i \<and>
           st = status_value (rw_status (queued_row env cfg run_id n yaml)))"
proof (cases "run_request_ok env yaml name \<and> (\<exists>cfg. parsed_pipeline (ap_yaml env) yaml = Inr cfg)")
  case False
  then have "\<exists>e. run_pipeline_request env i j a yaml name db = (db, Inl e)"
    by (cases "parsed_pipeline (ap_yaml env) yaml") (auto simp: run_pipeline_request_def)
  then show ?thesis by auto
next
  case True
  then obtain cfg where cfg: "run_request_ok env yaml name" "parsed_pipeline (ap_yaml env) yaml = Inr cfg" by blast
  obtain db1 r where check: "check_named_permission a (requested_name name cfg) [OWNER, RUNNER] (Some j) db = (db1, r)" by fastforce
  note tables = check_tables [OF check]
  note files = same_files [OF tables(4), of a]
  show ?thesis
  proof (cases "\<exists>v. r = Inr () \<and> validate (ap_max_steps env) cfg (owned_file_ids db a) = Inr v \<and> is_valid v \<and>
      collect_schema_validation_errors (stored_columns db) cfg = Inr []")
    case False
    then have "\<exists>e. run_pipeline_request env i j a yaml name db = (db1, Inl e)"
      using files by (auto simp: run_pipeline_request_def cfg check split: sum.split)
    with tables show ?thesis by auto
  next
    case True
    then obtain v where v: "r = Inr ()" "validate (ap_max_steps env) cfg (owned_file_ids db a) = Inr v" "is_valid v"
      "collect_schema_validation_errors (stored_columns db) cfg = Inr []" by blast
    have result: "run_pipeline_request env i j a yaml name db = create_and_queue_pipeline_run env i a yaml name cfg db1"
      using v files by (simp add: run_pipeline_request_def cfg check)
    have wf: "well_formed (ap_max_steps env) (owned_file_ids db a) cfg" using validate_Inr [OF v(2)] v(3) by simp
    then obtain n where n: "requested_name name cfg = PStr n" using well_formed_name_text by blast
    have own: "reads_own_files db a cfg" using referenced_registered [OF wf] by (simp add: reads_own_files_def)
    have "check_pipeline_permission a n [OWNER, RUNNER] (Some j) db = (db1, Inr ())" using check n v(1) by (simp add: check_named_permission_def)
    note ent = check_entitled [OF this]
    have refs: "\<exists>u \<in> set (db_files db1). f = uuid_text (up_id u)" if "f \<in> set (referenced_files (steps cfg))" for f
      using referenced_registered [OF wf that] tables(4) by auto
    have small: "small_ids db1" using files assms by simp
    have queued: "run_queued env i a n yaml cfg db1 db' = run_queued env i a n yaml cfg db db'" for db'
      by (simp add: run_queued_def tables)
    obtain db2 res where q: "create_and_queue_pipeline_run env i a yaml name cfg db1 = (db2, res)" by fastforce
    have done': "case create_and_queue_pipeline_run env i a yaml name cfg db1 of
        (db', Inl e) \<Rightarrow> db_queue db' = db_queue db1 \<and> (ap_broker_up env \<longrightarrow> db' = db1)
      | (db', Inr (run_id, st)) \<Rightarrow> run_queued env i a n yaml cfg db1 db' \<and> run_id = uuid_text i \<and>
          st = status_value (rw_status (queued_row env cfg run_id n yaml)) \<and> db_grants db' = db_grants db1"
      by (rule create_and_queue_cases [OF small refs n])
    show ?thesis
    proof (cases res)
      case (Inl e)
      with done' tables show ?thesis by (auto simp: result q)
    next
      case (Inr p)
      obtain run_id st where p: "p = (run_id, st)" by (cases p)
      have d: "run_queued env i a n yaml cfg db db2" "run_id = uuid_text i" "st = status_value (rw_status (queued_row env cfg run_id n yaml))"
        "db_grants db2 = db_grants db1"
        using done' by (simp_all add: q Inr p queued)
      from d(4) have "levels db2 = levels db1" by (simp add: levels_def grant_of_def fun_eq_iff)
      then have "entitled db n a \<or> (\<not> name_in_use db n \<and> levels db2 (n, us_id a) = Some OWNER)" using ent by auto
      with d(1-3) cfg(2) n wf own v(4) show ?thesis by (auto simp: result q Inr p)
    qed
  qed
qed

text \<open>A pipeline over the file of its owner.\<close>

definition demo_file_id :: string where
  "demo_file_id = ''00000000-0000-0000-0000-000000000005''"

definition api_document :: "pydict list \<Rightarrow> pyval" where
  "api_document rest = PDict [(PStr ''name'', PStr ''p''), (PStr ''steps'', PList (PDict
     [(PStr ''name'', PStr ''a''), (PStr ''type'', PStr ''load''), (PStr ''file_id'', PStr demo_file_id)] # map PDict rest))]"

definition api_load :: step_config where
  "api_load = \<lparr>step_name = PStr ''a'', step_type = Inr LOAD, contract = PNone, cfg_fields = LoadFields (PStr demo_file_id) PNone\<rparr>"

definition api_config :: "step_config list \<Rightarrow> pipeline_config" where
  "api_config rest = \<lparr>pipeline_name = PStr ''p'', description = PNone, steps = api_load # rest\<rparr>"

lemma demo_file: "uuid_text 5 = demo_file_id" "py_uuid demo_file_id = Some 5"
  by code_simp+

lemma demo_owned: "owned_file_ids used_db demo_alice = [demo_file_id]"
  by (simp add: owned_file_ids_def used_db_def demo_alice_def demo_file)

lemma demo_stored: "stored_columns used_db (PStr demo_file_id) = Some [''id'']"
  by (simp add: stored_columns_def py_str_def demo_file find_file_def used_db_def)

lemma demo_parsed: "parsed_pipeline (\<lambda>_. Inr (api_document [])) ''name: p, steps'' = Inr (api_config [])"
  by code_simp

lemma demo_request: "run_request_ok (demo_api v) ''name: p, steps'' None"
  by (simp add: run_request_ok_def demo_api_def)

lemma demo_let_in: "check_named_permission demo_alice (PStr ''p'') [OWNER, RUNNER] (Some j) used_db = (used_db, Inr ())"
  by (simp add: check_named_permission_def check_pipeline_permission_def grant_of_def used_db_def demo_db_def demo_alice_def)

lemma demo_name: "requested_name None (api_config ss) = PStr ''p''"
  by (simp add: requested_name_def api_config_def)

lemma demo_api_sel [simp]: "ap_yaml (demo_api v) = (\<lambda>_. Inr v)" "ap_max_steps (demo_api v) = 50" "ap_broker_up (demo_api v)"
  by (simp_all add: demo_api_def)

lemma demo_accepted: "succeeded (snd (run_pipeline_request (demo_api (api_document [])) 30 31 demo_alice ''name: p, steps'' None used_db))"
proof -
  obtain r where valid: "validate 50 (api_config []) [demo_file_id] = Inr r" "is_valid r"
  proof -
    have "map_sum (\<lambda>_. ()) is_valid (validate 50 (api_config []) [demo_file_id]) = Inr True" by code_simp
    with that show thesis by (cases "validate 50 (api_config []) [demo_file_id]") auto
  qed
  have columns: "collect_schema_validation_errors (stored_columns used_db) (api_config []) = Inr []"
    by (simp add: collect_schema_validation_errors_def api_config_def api_load_def flow_step_def demo_stored Let_def hashable_def)
  have "file_uuids (referenced_files (steps (api_config []))) = Inr [5]"
    by (simp add: referenced_files_def api_config_def api_load_def file_id_attr_def demo_file) (simp add: demo_file_id_def)
  then show ?thesis
    by (simp add: run_pipeline_request_def demo_request demo_parsed demo_name demo_let_in demo_owned valid columns
        create_and_queue_pipeline_run_def create_run_schema_snapshots_def fits_column_def succeeded_def Let_def)
qed

theorem accepted_run_witness:
  "\<exists>db' run_id st cfg. run_pipeline_request (demo_api (api_document [])) 30 31 demo_alice ''name: p, steps'' None used_db = (db', Inr (run_id, st)) \<and>
     run_queued (demo_api (api_document [])) 30 demo_alice ''p'' ''name: p, steps'' cfg used_db db'"
proof -
  obtain db' run_id st where
    run: "run_pipeline_request (demo_api (api_document [])) 30 31 demo_alice ''name: p, steps'' None used_db = (db', Inr (run_id, st))"
    using demo_accepted by (auto simp: succeeded_def split: sum.splits prod.splits)
      (metis prod.exhaust_sel)
  have "small_ids used_db" by (simp add: small_ids_def used_db_def)
  from accepted_run [OF this, where env = "demo_api (api_document [])" and i = 30 and j = 31 and a = demo_alice and
      yaml = "''name: p, steps''" and name = None] run demo_parsed
  show ?thesis by (auto simp: demo_name)
qed

section \<open>Accepted schedules\<close>

lemma schedule_checks_Inr:
  assumes "schedule_checks env cfg yaml a db = Inr x"
  shows "well_formed (ap_max_steps env) (owned_file_ids db a) cfg \<and> \<not> has_stream_consume cfg \<and>
    collect_schema_validation_errors (stored_columns db) cfg = Inr []"
proof -
  obtain r where r: "validate (ap_max_steps env) cfg (owned_file_ids db a) = Inr r"
    using assms by (auto simp: schedule_checks_def split: sum.splits)
  with assms have "filter is_stream_consume (steps cfg) = []" "errors r = []"
    "collect_schema_validation_errors (stored_columns db) cfg = Inr []"
    by (auto simp: schedule_checks_def Let_def split: if_splits sum.splits)
  moreover from r have "is_valid r \<longleftrightarrow> errors r = []" by (auto simp: validate_def)
  ultimately show ?thesis using validate_Inr [OF r] by (auto simp: has_stream_consume_def filter_empty_conv list_ex_iff)
qed

lemma create_schedule_Inr:
  assumes "create_schedule env i j a name yaml cron db = (db', Inr s)"
  obtains cfg e t db1 x where "schedule_request_ok env name yaml cron = Inr e" "get_next_run_at (ap_croniter env) e (ap_now env) = Inr t"
    "parsed_pipeline (ap_yaml env) yaml = Inr cfg" "check_pipeline_permission a name [OWNER, RUNNER] (Some j) db = (db1, Inr ())"
    "schedule_checks env cfg yaml a db1 = Inr x" "s = new_schedule (uuid_text i) name yaml e t"
    "db' = log_action ''schedule_created'' a ''schedule'' i [(''pipeline_name'', name), (''cron'', e)]
       (db1\<lparr>db_schedules := db_schedules db1 @ [(s, us_id a)]\<rparr>)"
proof -
  obtain e where e: "schedule_request_ok env name yaml cron = Inr e"
    using assms by (cases "schedule_request_ok env name yaml cron") (auto simp: create_schedule_def)
  obtain t where t: "get_next_run_at (ap_croniter env) e (ap_now env) = Inr t"
    using assms e by (cases "get_next_run_at (ap_croniter env) e (ap_now env)") (auto simp: create_schedule_def)
  obtain cfg where cfg: "parsed_pipeline (ap_yaml env) yaml = Inr cfg"
    using assms e t by (cases "parsed_pipeline (ap_yaml env) yaml") (auto simp: create_schedule_def)
  obtain db1 r where check: "check_pipeline_permission a name [OWNER, RUNNER] (Some j) db = (db1, r)" by fastforce
  have r: "r = Inr ()" using assms e t cfg check by (cases r) (auto simp: create_schedule_def)
  obtain x where x: "schedule_checks env cfg yaml a db1 = Inr x"
    using assms e t cfg check r by (cases "schedule_checks env cfg yaml a db1") (auto simp: create_schedule_def)
  show thesis by (rule that [OF e t cfg _ x]) (use assms e t cfg check r x in \<open>auto simp: create_schedule_def Let_def\<close>)
qed

text \<open>C16.  A schedule that is stored belongs to somebody who may run its pipeline, or who was the first to use the name and now owns it;
  its pipeline is well formed over the files of that user, passes the column check and consumes no stream, so that the task which
  the schedule starts has an executor for each step; it is active and due from its first time on.\<close>

theorem accepted_schedule:
  assumes "create_schedule env i j a name yaml cron db = (db', Inr s)"
  shows "\<exists>cfg. parsed_pipeline (ap_yaml env) yaml = Inr cfg \<and>
     (entitled db name a \<or> (\<not> name_in_use db name \<and> levels db' (name, us_id a) = Some OWNER)) \<and>
     well_formed (ap_max_steps env) (owned_file_ids db a) cfg \<and> reads_own_files db a cfg \<and>
     (\<forall>st \<in> set (steps cfg). step_type st \<noteq> Inr STREAM_CONSUME \<and> step_type st \<noteq> Inr TRANSFORM) \<and>
     collect_schema_validation_errors (stored_columns db) cfg = Inr [] \<and>
     db_schedules db' = db_schedules db @ [(s, us_id a)] \<and> db_runs db' = db_runs db \<and> db_queue db' = db_queue db \<and>
     sc_pipeline_name s = name \<and> sc_yaml_config s = yaml \<and>
     (\<exists>t. get_next_run_at (ap_croniter env) (sc_cron_expression s) (ap_now env) = Inr t \<and> (\<forall>now. is_due now s \<longleftrightarrow> t \<le> now))"
  using assms
proof (rule create_schedule_Inr)
  fix cfg e t db1 x
  assume t: "get_next_run_at (ap_croniter env) e (ap_now env) = Inr t" and cfg: "parsed_pipeline (ap_yaml env) yaml = Inr cfg"
    and check: "check_pipeline_permission a name [OWNER, RUNNER] (Some j) db = (db1, Inr ())"
    and x: "schedule_checks env cfg yaml a db1 = Inr x" and s: "s = new_schedule (uuid_text i) name yaml e t"
    and db': "db' = log_action ''schedule_created'' a ''schedule'' i [(''pipeline_name'', name), (''cron'', e)]
       (db1\<lparr>db_schedules := db_schedules db1 @ [(s, us_id a)]\<rparr>)"
  have "check_named_permission a (PStr name) [OWNER, RUNNER] (Some j) db = (db1, Inr ())" by (simp add: check_named_permission_def check)
  note tables = check_tables [OF this]
  have "db_grants db' = db_grants db1" by (simp add: db' log_action_def)
  then have "levels db' = levels db1" by (simp add: levels_def grant_of_def fun_eq_iff)
  moreover have "is_due now s \<longleftrightarrow> t \<le> now" for now by (simp add: s new_schedule_def is_due_def)
  moreover have "\<not> has_stream_consume cfg \<Longrightarrow> st \<in> set (steps cfg) \<Longrightarrow> step_type st \<noteq> Inr STREAM_CONSUME" for st
    by (auto simp: has_stream_consume_def list_ex_iff is_stream_consume_def)
  moreover have "reads_own_files db a cfg" if "well_formed (ap_max_steps env) (owned_file_ids db a) cfg"
    using referenced_registered [OF that] by (simp add: reads_own_files_def)
  moreover note schedule_checks_Inr [OF x] check_entitled [OF check] same_files [OF tables(4), of a]
  ultimately show ?thesis using cfg t tables
    by (auto simp: db' log_action_def s new_schedule_def well_formed_def list_all_iff)
qed

theorem accepted_schedule_witness:
  "\<exists>s db'. create_schedule (demo_api (api_document [])) 40 41 demo_alice ''p'' ''name: p, steps'' ''daily'' used_db = (db', Inr s) \<and>
     sc_cron_expression s = ''0 0 * * *'' \<and> is_due 160 s \<and> \<not> is_due 159 s"
proof -
  have cron: "schedule_request_ok (demo_api v) ''p'' ''name: p, steps'' ''daily'' = Inr ''0 0 * * *''" for v
  proof -
    have "requested_cron cr ''daily'' = Inr ''0 0 * * *''" for cr by code_simp
    then show ?thesis by (simp add: schedule_request_ok_def)
  qed
  have next_run: "get_next_run_at (ap_croniter (demo_api v)) e (ap_now (demo_api v)) = Inr 160" for v e
    by (simp add: get_next_run_at_def demo_api_def)
  have check: "check_pipeline_permission demo_alice ''p'' [OWNER, RUNNER] (Some 41) used_db = (used_db, Inr ())"
    using demo_let_in [of 41] by (simp add: check_named_permission_def)
  obtain r where valid: "validate 50 (api_config []) [demo_file_id] = Inr r" "errors r = []"
  proof -
    have "map_sum (\<lambda>_. ()) errors (validate 50 (api_config []) [demo_file_id]) = Inr []" by code_simp
    with that show thesis by (cases "validate 50 (api_config []) [demo_file_id]") auto
  qed
  have columns: "collect_schema_validation_errors (stored_columns used_db) (api_config []) = Inr []"
    by (simp add: collect_schema_validation_errors_def api_config_def api_load_def flow_step_def demo_stored Let_def hashable_def)
  have no_stream: "filter is_stream_consume (steps (api_config [])) = []" by (simp add: api_config_def api_load_def is_stream_consume_def)
  have "schedule_checks (demo_api v) (api_config []) yaml demo_alice used_db = Inr ()" for v yaml
    using no_stream by (simp add: schedule_checks_def demo_owned valid columns Let_def)
  then obtain s db' where sched: "create_schedule (demo_api (api_document [])) 40 41 demo_alice ''p'' ''name: p, steps'' ''daily'' used_db = (db', Inr s)"
    "sc_cron_expression s = ''0 0 * * *''"
    by (simp add: create_schedule_def cron next_run demo_parsed check Let_def new_schedule_def)
  from accepted_schedule [OF sched(1)] obtain t where
    "get_next_run_at (ap_croniter (demo_api (api_document []))) (sc_cron_expression s) (ap_now (demo_api (api_document []))) = Inr t"
    "\<forall>now. is_due now s \<longleftrightarrow> t \<le> now" by blast
  with sched next_run show ?thesis by simp
qed

section \<open>Pages\<close>

lemma take_pages: "concat (map (\<lambda>p. take n (drop (p * n) xs)) [0..<k]) = take (k * n) xs"
proof (induction k)
  case 0
  then show ?case by simp
next
  case (Suc k)
  have "take (Suc k * n) xs = take (k * n) xs @ take n (drop (k * n) xs)" by (simp only: mult_Suc add.commute [of n] take_add)
  with Suc show ?case by simp
qed

text \<open>No page has more than a hundred runs, and the pages, put together, are the runs of the user in their order, each once.\<close>

lemma pages_cover:
  assumes "length (run_query a flt db) \<le> k * nat (page_limit limit)"
  shows "concat (map (\<lambda>p. fst (list_pipeline_runs a (int p + 1) limit flt db)) [0..<k]) =
      sort_key (\<lambda>r. - rw_created_at (fst r)) (run_query a flt db) \<and>
    length (fst (list_pipeline_runs a page limit flt db)) \<le> 100"
proof -
  let ?n = "nat (page_limit limit)" and ?xs = "sort_key (\<lambda>r. - rw_created_at (fst r)) (run_query a flt db)"
  have n: "int ?n = page_limit limit" "?n \<le> 100" by (simp_all add: page_limit_def)
  have "fst (list_pipeline_runs a (int p + 1) limit flt db) = take ?n (drop (p * ?n) ?xs)" for p
  proof -
    have "nat (int p * page_limit limit) = p * ?n" using n(1) by (metis nat_int of_nat_mult)
    then show ?thesis by (simp add: list_pipeline_runs_def Let_def)
  qed
  then have "concat (map (\<lambda>p. fst (list_pipeline_runs a (int p + 1) limit flt db)) [0..<k]) = take (k * ?n) ?xs"
    by (simp only: take_pages)
  moreover have "length ?xs \<le> k * ?n" using assms by simp
  ultimately show ?thesis using n(2) by (simp add: list_pipeline_runs_def Let_def)
qed

section \<open>Where the requests deviate\<close>

text \<open>The name is taken before the pipeline is looked at: a request that is refused because its configuration is invalid leaves its user as
  the owner of a name that nothing was run under.\<close>

theorem refused_run_takes_name:
  assumes "run_request_ok env yaml None" and "parsed_pipeline (ap_yaml env) yaml = Inr cfg" and "pipeline_name cfg = PStr n"
    and "us_role a \<noteq> ''admin''" and "\<not> name_in_use db n" and "fits_column n"
    and "validate (ap_max_steps env) cfg (owned_file_ids db a) = Inr r" and "\<not> is_valid r"
  shows "\<exists>db' e. run_pipeline_request env i j a yaml None db = (db', Inl e) \<and> levels db' (n, us_id a) = Some OWNER"
proof -
  let ?db = "add_grant \<lparr>gr_id = j, gr_pipeline = n, gr_user = us_id a, gr_level = OWNER\<rparr> db"
  have none: "\<not> owns_contract db n (us_id a)" "grant_of db n (us_id a) = None"
    using assms(5) by (auto simp: name_in_use_def owns_contract_def grant_of_None list_ex_iff)
  then have "check_named_permission a (requested_name None cfg) [OWNER, RUNNER] (Some j) db = (?db, Inr ())"
    using assms(3-6) by (simp add: check_named_permission_def requested_name_def check_pipeline_permission_def)
  moreover have "owned_file_ids ?db a = owned_file_ids db a" by (simp add: owned_file_ids_def add_grant_def)
  ultimately have "\<exists>e. run_pipeline_request env i j a yaml None db = (?db, Inl e)"
    using assms(1,2,7,8) by (simp add: run_pipeline_request_def)
  moreover have "levels ?db (n, us_id a) = Some OWNER"
    using levels_add_grant [of db "\<lparr>gr_id = j, gr_pipeline = n, gr_user = us_id a, gr_level = OWNER\<rparr>"] none(2) by simp
  ultimately show ?thesis by blast
qed

text \<open>The message on a step that has no executor has the word by which missing files are recognised.\<close>

theorem transform_reported_as_missing_file:
  assumes "cfg = api_config [\<lparr>step_name = PStr ''b'', step_type = Inr TRANSFORM, contract = PNone,
      cfg_fields = TransformFields (PStr ''a'') (PStr ''x'')\<rparr>]"
    and "run_request_ok env yaml None" and "parsed_pipeline (ap_yaml env) yaml = Inr cfg" and "ap_max_steps env = 50"
    and "us_role a = ''admin''" and "owned_file_ids db a = [demo_file_id]"
  shows "\<exists>m. run_pipeline_request env i j a yaml None db = (db, Inl (HTTP 404 (''Referenced file not found: '' @ m))) \<and>
    starts_with m (''Step type '' @ quoted ''transform'')"
proof -
  let ?run = "map_sum (\<lambda>_. ()) (\<lambda>r. (is_valid r, map_option (\<lambda>e. starts_with (err_message e) (''Step type '' @ quoted ''transform'')) (find file_message (errors r))))
      (validate 50 cfg [demo_file_id])"
  have "?run = Inr (False, Some True)" unfolding assms(1) by code_simp
  then obtain r e where r: "validate 50 cfg [demo_file_id] = Inr r" "\<not> is_valid r" "find file_message (errors r) = Some e"
    "starts_with (err_message e) (''Step type '' @ quoted ''transform'')"
    by (cases "validate 50 cfg [demo_file_id]") auto
  then show ?thesis
    using assms(2-6) by (simp add: run_pipeline_request_def check_named_admin)
qed

text \<open>The older request does not look at the columns: it queues a run that the newer one refuses.\<close>

lemma missing_column_config:
  "cfg = api_config [\<lparr>step_name = PStr ''b'', step_type = Inr SELECT, contract = PNone,
      cfg_fields = SelectFields (PStr ''a'') (PList [PStr ''ssn''])\<rparr>] \<Longrightarrow>
   map_sum (\<lambda>_. ()) is_valid (validate 50 cfg [demo_file_id]) = Inr True \<and>
   map_sum (\<lambda>_. ()) (map err_field) (collect_schema_validation_errors (\<lambda>_. Some [''id'']) cfg) = Inr [''columns'']"
  by (rule conjI; hypsubst; code_simp)

theorem legacy_skips_columns:
  assumes "cfg = api_config [\<lparr>step_name = PStr ''b'', step_type = Inr SELECT, contract = PNone,
      cfg_fields = SelectFields (PStr ''a'') (PList [PStr ''ssn''])\<rparr>]"
    and "run_request_ok env yaml None" and "parsed_pipeline (ap_yaml env) yaml = Inr cfg" and "ap_max_steps env = 50" and "ap_broker_up env"
    and "us_role a = ''admin''" and "owned_file_ids db a = [demo_file_id]" and "stored_columns db = (\<lambda>_. Some [''id''])"
    and "legacy_yaml (legacy_payload env raw) = PStr yaml" and "legacy_name (legacy_payload env raw) = Some None" and "py_strip yaml \<noteq> []"
  shows "\<exists>es. run_pipeline_request env i j a yaml None db = (db, Inl (Invalid ''Schema mismatch detected before execution'' es))"
    and "succeeded (snd (run_pipeline_legacy env i j a raw db))"
proof -
  obtain r es where r: "validate 50 cfg [demo_file_id] = Inr r" "is_valid r" "collect_schema_validation_errors (\<lambda>_. Some [''id'']) cfg = Inr es" "es \<noteq> []"
    using missing_column_config [OF assms(1)]
    by (cases "validate 50 cfg [demo_file_id]"; cases "collect_schema_validation_errors (\<lambda>_. Some [''id'']) cfg") auto
  then show "\<exists>es. run_pipeline_request env i j a yaml None db = (db, Inl (Invalid ''Schema mismatch detected before execution'' es))"
    using assms(2-8) by (simp add: run_pipeline_request_def check_named_admin)
  have "file_uuids (referenced_files (steps cfg)) = Inr [5]"
    by (simp add: assms(1) referenced_files_def api_config_def api_load_def file_id_attr_def demo_file) (simp add: demo_file_id_def)
  moreover have "requested_name None cfg = PStr ''p''" by (simp add: assms(1) demo_name)
  ultimately show "succeeded (snd (run_pipeline_legacy env i j a raw db))"
    using assms(3-7,9-11) r(1,2)
    by (simp add: run_pipeline_legacy_def Let_def check_named_admin create_and_queue_pipeline_run_def create_run_schema_snapshots_def
        fits_column_def succeeded_def)
qed

text \<open>The status that a daemon has reached before the request ends is overwritten: one that has failed at once is shown as active, and the
  reconciliation does not look at such runs.\<close>

theorem daemon_failure_overwritten:
  assumes "has_stream_consume cfg" and "\<And>r. rw_status (ap_meanwhile env r) = FAILED"
  shows "rw_status (queued_row env cfg run_id n yaml) = STREAMING_ACTIVE \<and> \<not> reconcilable (rw_status (queued_row env cfg run_id n yaml))"
  using assms(1) by (simp add: queued_row_def queued_run_def Let_def reconcilable_def)

text \<open>While the broker is down an accepted request is answered by an error, but its run stays, without a task.\<close>

theorem unsent_run_stays:
  assumes "\<not> ap_broker_up env" and "requested_name name cfg = PStr n" and "fits_column n"
    and "create_run_schema_snapshots (uuid_text i) cfg (db\<lparr>db_runs := db_runs db @ [(pending_run (uuid_text i) n yaml (ap_now env), Some (us_id a))]\<rparr>) = (db2, Inr x)"
  shows "create_and_queue_pipeline_run env i a yaml name cfg db = (db2, Inl (Unhandled (OtherError ''OperationalError''))) \<and>
    db_runs db2 = db_runs db @ [(pending_run (uuid_text i) n yaml (ap_now env), Some (us_id a))] \<and> db_queue db2 = db_queue db"
  using assms by (auto simp: create_and_queue_pipeline_run_def Let_def create_run_schema_snapshots_def split: sum.splits)

end
