(* ===== verification/Webhooks.thy ===== *)
theory Webhooks
  imports PyNum "HOL-Library.Word"
begin

text \<open>
  Outgoing webhooks: the egress check of \<^verbatim>\<open>backend/utils/url_security.py\<close>, and the choice, signing, redirecting, recording and
  retrying of deliveries in \<^verbatim>\<open>backend/tasks/webhook_tasks.py\<close> and \<^verbatim>\<open>backend/services/webhook_service.py\<close>.  The parsing and
  joining of URLs, name resolution, JSON, the keyed hash and the remote servers are parameters; the last ones may
  answer differently each time.  IPv4 addresses are words of 32 bits with the networks of Python's \<^verbatim>\<open>ipaddress\<close>; of an IPv6
  address only the answer of that module is known.  Times and log texts are left out.
\<close>

unbundle bit_operations_syntax

section \<open>Addresses\<close>

datatype ip_address = IPv4 "32 word" | IPv6 bool

text \<open>Whether an address is in the network of the given address and prefix length.\<close>

definition in_network :: "32 word \<Rightarrow> 32 word \<times> nat \<Rightarrow> bool" where
  "in_network a n = (drop_bit (32 - snd n) a = drop_bit (32 - snd n) (fst n))"

definition ipv4 :: "nat \<Rightarrow> nat \<Rightarrow> nat \<Rightarrow> nat \<Rightarrow> 32 word" where
  "ipv4 a b c d = word_of_nat (((a * 256 + b) * 256 + c) * 256 + d)"

definition private_networks :: "(32 word \<times> nat) list" where
  "private_networks =
     [(ipv4 0 0 0 0, 8), (ipv4 10 0 0 0, 8), (ipv4 127 0 0 0, 8), (ipv4 169 254 0 0, 16), (ipv4 172 16 0 0, 12), (ipv4 192 0 0 0, 24),
      (ipv4 192 0 0 170, 31), (ipv4 192 0 2 0, 24), (ipv4 192 168 0 0, 16), (ipv4 198 18 0 0, 15), (ipv4 198 51 100 0, 24),
      (ipv4 203 0 113 0, 24), (ipv4 240 0 0 0, 4), (ipv4 255 255 255 255, 32)]"

definition private_exceptions :: "(32 word \<times> nat) list" where
  "private_exceptions = [(ipv4 192 0 0 9, 32), (ipv4 192 0 0 10, 32)]"

definition is_private :: "32 word \<Rightarrow> bool" where
  "is_private a \<longleftrightarrow> list_ex (in_network a) private_networks \<and> \<not> list_ex (in_network a) private_exceptions"

definition is_loopback :: "32 word \<Rightarrow> bool" where
  "is_loopback a \<longleftrightarrow> in_network a (ipv4 127 0 0 0, 8)"

definition is_link_local :: "32 word \<Rightarrow> bool" where
  "is_link_local a \<longleftrightarrow> in_network a (ipv4 169 254 0 0, 16)"

definition is_multicast :: "32 word \<Rightarrow> bool" where
  "is_multicast a \<longleftrightarrow> in_network a (ipv4 224 0 0 0, 4)"

definition is_reserved :: "32 word \<Rightarrow> bool" where
  "is_reserved a \<longleftrightarrow> in_network a (ipv4 240 0 0 0, 4)"

definition is_unspecified :: "32 word \<Rightarrow> bool" where
  "is_unspecified a \<longleftrightarrow> a = 0"

fun forbidden_address :: "ip_address \<Rightarrow> bool" where
  "forbidden_address (IPv4 a) =
     (is_private a \<or> is_loopback a \<or> is_link_local a \<or> is_multicast a \<or> is_reserved a \<or> is_unspecified a)"
| "forbidden_address (IPv6 forbidden) = forbidden"

section \<open>The egress check\<close>

text \<open>The parts of a URL; a port that cannot be read raises.\<close>

record url_parts =
  up_scheme :: string
  up_hostname :: "string option"
  up_username :: "string option"
  up_password :: "string option"
  up_port :: "int option result"

datatype http_method = POST | GET

record http_request =
  rq_method :: http_method
  rq_url :: string
  rq_body :: "string option"
  rq_headers :: "(string \<times> string) list"

record http_response =
  rs_status :: int
  rs_location :: "string option"
  rs_text :: string

text \<open>What sending a request can come to besides a response.\<close>

datatype web_error = UnsafeURL string | RequestError string | OtherFailure string

text \<open>The outside world: the numbers count the look-ups and the requests.\<close>

record web_env =
  parse_url :: "string \<Rightarrow> url_parts"
  url_join :: "string \<Rightarrow> string \<Rightarrow> string"
  getaddrinfo :: "nat \<Rightarrow> string \<Rightarrow> ip_address list option"
  send :: "nat \<Rightarrow> http_request \<Rightarrow> web_error + http_response"
  hmac_sha256 :: "string \<Rightarrow> string \<Rightarrow> string"
  dumps_sorted :: "pyval \<Rightarrow> string"

definition truthy_text :: "string option \<Rightarrow> bool" where
  "truthy_text s \<longleftrightarrow> (case s of None \<Rightarrow> False | Some t \<Rightarrow> t \<noteq> [])"

definition validate_public_http_url :: "web_env \<Rightarrow> nat \<Rightarrow> string \<Rightarrow> web_error + string" where
  "validate_public_http_url env n url =
     (let p = parse_url env url in
      if up_scheme p \<notin> {''http'', ''https''} then Inl (UnsafeURL ''URL must start with http:// or https://'')
      else if \<not> truthy_text (up_hostname p) then Inl (UnsafeURL ''URL must include a hostname'')
      else if truthy_text (up_username p) \<or> truthy_text (up_password p) then Inl (UnsafeURL ''URL credentials are not allowed'')
      else case up_port p of
          Inl e \<Rightarrow> Inl (UnsafeURL ''URL port is invalid'')
        | Inr port \<Rightarrow>
            if (case port of None \<Rightarrow> False | Some i \<Rightarrow> \<not> (1 \<le> i \<and> i \<le> 65535)) then Inl (UnsafeURL ''URL port is invalid'')
            else (case getaddrinfo env n (the (up_hostname p)) of
                None \<Rightarrow> Inl (UnsafeURL ''URL hostname could not be resolved'')
              | Some addresses \<Rightarrow>
                  if addresses = [] then Inl (UnsafeURL ''URL hostname could not be resolved'')
                  else if list_ex forbidden_address addresses then Inl (UnsafeURL ''URL resolves to a private or reserved address'')
                  else Inr url))"

section \<open>Redirects\<close>

definition redirect_statuses :: "int list" where
  "redirect_statuses = [301, 302, 303, 307, 308]"

definition max_redirect_hops :: nat where
  "max_redirect_hops = 3"

text \<open>The loop with \<open>n\<close> requests left to send; \<open>k\<close> counts those sent.  The requests are returned in order.\<close>

fun post_hops ::
    "web_env \<Rightarrow> nat \<Rightarrow> nat \<Rightarrow> http_method \<Rightarrow> string \<Rightarrow> string option \<Rightarrow> (string \<times> string) list \<Rightarrow>
     http_request list \<times> (web_error + http_response)" where
  "post_hops env 0 k meth url body headers = ([], Inl (RequestError ''Too many redirects (>3 hops)''))"
| "post_hops env (Suc n) k meth url body headers =
     (let rq = \<lparr>rq_method = meth, rq_url = url, rq_body = body, rq_headers = headers\<rparr> in
      case send env k rq of
        Inl e \<Rightarrow> ([rq], Inl e)
      | Inr resp \<Rightarrow>
          if rs_status resp \<notin> set redirect_statuses \<or> \<not> truthy_text (rs_location resp) then ([rq], Inr resp)
          else let url' = url_join env url (the (rs_location resp)) in
            (case validate_public_http_url env (Suc (Suc k)) url' of
               Inl e \<Rightarrow> ([rq], Inl e)
             | Inr _ \<Rightarrow>
                 let to_get = meth = POST \<and> rs_status resp \<in> {301, 302, 303} in
                 (case post_hops env n (Suc k) (if to_get then GET else meth) url' (if to_get then None else body) headers of
                    (rqs, r) \<Rightarrow> (rq # rqs, r))))"

definition post_with_safe_redirects ::
    "web_env \<Rightarrow> string \<Rightarrow> string \<Rightarrow> (string \<times> string) list \<Rightarrow> http_request list \<times> (web_error + http_response)" where
  "post_with_safe_redirects env url body headers =
     (case validate_public_http_url env 1 url of
        Inl e \<Rightarrow> ([], Inl e)
      | Inr _ \<Rightarrow> post_hops env (max_redirect_hops + 1) 0 POST url (Some body) headers)"

section \<open>Deliveries\<close>

record webhook =
  wk_id :: string
  wk_user_id :: string
  wk_url :: string
  wk_secret :: "string option"
  wk_events :: "string list"
  wk_is_active :: bool

record delivery_row =
  dl_webhook_id :: string
  dl_event_type :: pyval
  dl_attempt_number :: nat
  dl_response_status :: "int option"
  dl_response_body :: "string option"
  dl_delivered :: bool
  dl_failed :: bool
  dl_error_message :: "string option"

datatype delivery_answer =
    NoWebhook
  | InactiveSkipped
  | NotAllowed
  | RedirectBlocked string
  | Delivered int

definition delivery :: "webhook \<Rightarrow> pydict \<Rightarrow> nat \<Rightarrow> delivery_row" where
  "delivery w payload attempt =
     \<lparr>dl_webhook_id = wk_id w, dl_event_type = get_or payload ''event_type'' (PStr ''unknown''), dl_attempt_number = attempt,
      dl_response_status = None, dl_response_body = None, dl_delivered = False, dl_failed = False, dl_error_message = None\<rparr>"

definition delivery_headers :: "web_env \<Rightarrow> webhook \<Rightarrow> pydict \<Rightarrow> string \<Rightarrow> string \<Rightarrow> (string \<times> string) list" where
  "delivery_headers env w payload body task_id =
     [(''Content-Type'', ''application/json''), (''X-PipelineIQ-Event'', py_str (get_or payload ''event_type'' (PStr ''unknown''))),
      (''X-PipelineIQ-Delivery-ID'', task_id), (''User-Agent'', ''PipelineIQ/2.12.0'')] @
     (if truthy_text (wk_secret w) then [(''X-PipelineIQ-Signature'', ''sha256='' @ hmac_sha256 env (the (wk_secret w)) body)] else [])"

definition is_success :: "int \<Rightarrow> bool" where
  "is_success status \<longleftrightarrow> 200 \<le> status \<and> status < 300"

definition answered :: "http_response \<Rightarrow> delivery_row \<Rightarrow> delivery_row" where
  "answered resp row = row\<lparr>dl_response_status := Some (rs_status resp),
     dl_response_body := (if rs_text resp = [] then None else Some (take 1000 (rs_text resp))),
     dl_delivered := is_success (rs_status resp), dl_failed := \<not> is_success (rs_status resp),
     dl_error_message := (if is_success (rs_status resp) then None else Some (''HTTP '' @ int_str (rs_status resp)))\<rparr>"

definition failed_row :: "string \<Rightarrow> delivery_row \<Rightarrow> delivery_row" where
  "failed_row msg row = row\<lparr>dl_failed := True, dl_error_message := Some msg\<rparr>"

definition bad_status :: "http_response \<Rightarrow> string" where
  "bad_status resp = ''Webhook returned '' @ int_str (rs_status resp) @ '': '' @ take 200 (rs_text resp)"

text \<open>One attempt: the requests, the rows, and the answer or what it raises.  A response that is no success is raised inside the
  block whose handler records request errors.\<close>

definition deliver_async ::
    "web_env \<Rightarrow> string \<Rightarrow> webhook option \<Rightarrow> pydict \<Rightarrow> nat \<Rightarrow> http_request list \<times> delivery_row list \<times> (web_error + delivery_answer)" where
  "deliver_async env task_id found payload retries =
     (case found of
        None \<Rightarrow> ([], [], Inr NoWebhook)
      | Some w \<Rightarrow>
          if \<not> wk_is_active w then ([], [], Inr InactiveSkipped)
          else case validate_public_http_url env 0 (wk_url w) of
              Inl e \<Rightarrow> ([], [], Inr NotAllowed)
            | Inr _ \<Rightarrow>
                (let body = dumps_sorted env (PDict payload); row = delivery w payload (retries + 1) in
                 case post_with_safe_redirects env (wk_url w) body (delivery_headers env w payload body task_id) of
                   (rqs, Inr resp) \<Rightarrow>
                     if is_success (rs_status resp) then (rqs, [answered resp row], Inr (Delivered (rs_status resp)))
                     else (rqs, [answered resp row, failed_row (take 500 (bad_status resp)) row], Inl (RequestError (bad_status resp)))
                 | (rqs, Inl (UnsafeURL msg)) \<Rightarrow>
                     (let text = ''Redirect target blocked: '' @ msg in (rqs, [failed_row text row], Inr (RedirectBlocked text)))
                 | (rqs, Inl (RequestError msg)) \<Rightarrow> (rqs, [failed_row (take 500 msg) row], Inl (RequestError msg))
                 | (rqs, Inl e) \<Rightarrow> (rqs, [], Inl e)))"

definition max_retries :: nat where
  "max_retries = 3"

text \<open>The task with its automatic retries: each attempt meets the world as it is then.\<close>

fun deliver_from ::
    "(nat \<Rightarrow> web_env) \<Rightarrow> string \<Rightarrow> (nat \<Rightarrow> webhook option) \<Rightarrow> pydict \<Rightarrow> nat \<Rightarrow> nat \<Rightarrow> delivery_row list \<times> (web_error + delivery_answer)" where
  "deliver_from env task_id found payload k left =
     (case deliver_async (env k) task_id (found k) payload k of
        (rqs, rows, Inl (RequestError msg)) \<Rightarrow>
          (case left of
             0 \<Rightarrow> (rows, Inl (RequestError msg))
           | Suc l \<Rightarrow> (case deliver_from env task_id found payload (Suc k) l of (rows', r) \<Rightarrow> (rows @ rows', r)))
      | (rqs, rows, r) \<Rightarrow> (rows, r))"

definition deliver_webhook ::
    "(nat \<Rightarrow> web_env) \<Rightarrow> string \<Rightarrow> (nat \<Rightarrow> webhook option) \<Rightarrow> pydict \<Rightarrow> delivery_row list \<times> (web_error + delivery_answer)" where
  "deliver_webhook env task_id found payload = deliver_from env task_id found payload 0 max_retries"

section \<open>Choosing webhooks\<close>

definition event_type_of :: "string \<Rightarrow> string" where
  "event_type_of status = ''pipeline_'' @ py_lower status"

text \<open>The identifiers of the webhooks for which a delivery is enqueued after a run, and for an event of a user.\<close>

definition webhooks_for_run :: "string \<Rightarrow> string \<Rightarrow> webhook list \<Rightarrow> string list" where
  "webhooks_for_run status user_id ws =
     map wk_id (filter (\<lambda>w. event_type_of status \<in> set (wk_events w))
       (filter (\<lambda>w. user_id = [] \<or> wk_user_id w = user_id) (filter wk_is_active ws)))"

definition fire_webhooks_for_event :: "string \<Rightarrow> string \<Rightarrow> webhook list \<Rightarrow> string list" where
  "fire_webhooks_for_event event_type user_id ws =
     (if user_id = [] then []
      else map wk_id (filter (\<lambda>w. event_type \<in> set (wk_events w)) (filter (\<lambda>w. wk_user_id w = user_id \<and> wk_is_active w) ws)))"

section \<open>Networks as ranges\<close>

lemma in_network_div: "in_network a (b, l) \<longleftrightarrow> unat a div 2 ^ (32 - l) = unat b div 2 ^ (32 - l)"
  unfolding in_network_def word_unat_eq_iff unat_drop_bit_eq by (simp add: drop_bit_eq_div)

lemma div_range: "0 < m \<Longrightarrow> x div m = c \<longleftrightarrow> m * c \<le> x \<and> x < m * c + m" for x m c :: nat
  using div_nat_eqI [of m c x] mod_less_divisor [of m x] mult_div_mod_eq [of m x] by (metis add.commute add_less_cancel_left le_add1 mult_Suc_right)

lemma in_network_range:
  assumes "unat b = 2 ^ (32 - l) * c"
  shows "in_network a (b, l) \<longleftrightarrow> unat b \<le> unat a \<and> unat a < unat b + 2 ^ (32 - l)"
  using div_range [of "2 ^ (32 - l)" "unat a" c] assms by (simp add: in_network_div)

text \<open>A network whose address has no host part.\<close>

lemma in_network_nat: "unat b mod 2 ^ (32 - l) = 0 \<Longrightarrow> in_network a (b, l) \<longleftrightarrow> unat b \<le> unat a \<and> unat a < unat b + 2 ^ (32 - l)"
  using in_network_range [of b l "unat b div 2 ^ (32 - l)" a] mult_div_mod_eq [of "2 ^ (32 - l)" "unat b"] by simp

text \<open>The addresses that are refused, as ranges of numbers.\<close>

definition forbidden_ranges :: "(nat \<times> nat) list" where
  "forbidden_ranges =
     [(0, 16777216), (167772160, 184549376), (2130706432, 2147483648), (2851995648, 2852061184), (2886729728, 2887778304),
      (3221225472, 3221225481), (3221225483, 3221225728), (3221225984, 3221226240), (3232235520, 3232301056), (3323068416, 3323199488),
      (3325256704, 3325256960), (3405803776, 3405804032), (3758096384, 4294967296)]"

definition in_range :: "nat \<Rightarrow> nat \<times> nat \<Rightarrow> bool" where
  "in_range n r \<longleftrightarrow> fst r \<le> n \<and> n < snd r"

lemma in_network_in_range:
  "unat b mod 2 ^ (32 - l) = 0 \<Longrightarrow> in_network a (b, l) \<longleftrightarrow> in_range (unat a) (unat b, unat b + 2 ^ (32 - l))"
  by (simp add: in_network_nat in_range_def)

lemmas network_ranges = in_network_in_range [of _ 8] in_network_in_range [of _ 16] in_network_in_range [of _ 12] in_network_in_range [of _ 24]
  in_network_in_range [of _ 31] in_network_in_range [of _ 15] in_network_in_range [of _ 4] in_network_in_range [of _ 32]

lemma forbidden_v4:
  "forbidden_address (IPv4 a) \<longleftrightarrow> list_ex (in_range (unat a)) forbidden_ranges"
proof -
  let ?r = "\<lambda>i j. in_range (unat a) (i, j)"
  have special: "(?r 3221225472 3221225728 \<or> ?r 3221225642 3221225644) \<and> \<not> ?r 3221225481 3221225482 \<and> \<not> ?r 3221225482 3221225483 \<longleftrightarrow>
      ?r 3221225472 3221225481 \<or> ?r 3221225483 3221225728" unfolding in_range_def fst_conv snd_conv by linarith
  have elsewhere: "\<not> (?r 0 16777216 \<or> ?r 167772160 184549376 \<or> ?r 2130706432 2147483648 \<or> ?r 2851995648 2852061184 \<or> ?r 2886729728 2887778304 \<or>
      ?r 3221225984 3221226240 \<or> ?r 3232235520 3232301056 \<or> ?r 3323068416 3323199488 \<or> ?r 3325256704 3325256960 \<or> ?r 3405803776 3405804032 \<or>
      ?r 4026531840 4294967296 \<or> ?r 4294967295 4294967296)" if "?r 3221225481 3221225482 \<or> ?r 3221225482 3221225483"
    using that by (auto simp: in_range_def)
  have top_network: "?r 3758096384 4026531840 \<or> ?r 4026531840 4294967296 \<longleftrightarrow> ?r 3758096384 4294967296"
    "?r 4294967295 4294967296 \<Longrightarrow> ?r 4026531840 4294967296" unfolding in_range_def fst_conv snd_conv by linarith+
  have "is_private a \<longleftrightarrow> ?r 0 16777216 \<or> ?r 167772160 184549376 \<or> ?r 2130706432 2147483648 \<or> ?r 2851995648 2852061184 \<or>
      ?r 2886729728 2887778304 \<or> ?r 3221225472 3221225481 \<or> ?r 3221225483 3221225728 \<or> ?r 3221225984 3221226240 \<or> ?r 3232235520 3232301056 \<or>
      ?r 3323068416 3323199488 \<or> ?r 3325256704 3325256960 \<or> ?r 3405803776 3405804032 \<or> ?r 4026531840 4294967296"
    using special elsewhere top_network(2) by (simp add: is_private_def private_networks_def private_exceptions_def ipv4_def network_ranges) blast
  moreover have "is_loopback a \<longleftrightarrow> ?r 2130706432 2147483648" "is_link_local a \<longleftrightarrow> ?r 2851995648 2852061184"
    "is_multicast a \<longleftrightarrow> ?r 3758096384 4026531840" "is_reserved a \<longleftrightarrow> ?r 4026531840 4294967296"
    by (simp_all add: is_loopback_def is_link_local_def is_multicast_def is_reserved_def ipv4_def network_ranges)
  moreover have "is_unspecified a \<Longrightarrow> ?r 0 16777216" by (simp add: is_unspecified_def in_range_def)
  ultimately show ?thesis using top_network(1) by (simp add: forbidden_ranges_def) blast
qed

lemma forbidden_ipv4: "((a * 256 + b) * 256 + c) * 256 + d < 2 ^ 32 \<Longrightarrow>
    forbidden_address (IPv4 (ipv4 a b c d)) \<longleftrightarrow> list_ex (in_range (((a * 256 + b) * 256 + c) * 256 + d)) forbidden_ranges"
  unfolding forbidden_v4 ipv4_def by (simp only: unat_of_nat take_bit_nat_eq_self len_num1 len_bit0 len_bit1) (simp add: take_bit_nat_eq_self)

section \<open>Requests\<close>

text \<open>What the check guarantees of a URL at the time of the given look-up.\<close>

definition public_at :: "web_env \<Rightarrow> nat \<Rightarrow> string \<Rightarrow> bool" where
  "public_at env n url \<longleftrightarrow>
     (\<exists>host addresses. up_scheme (parse_url env url) \<in> {''http'', ''https''} \<and> up_hostname (parse_url env url) = Some host \<and> host \<noteq> [] \<and>
        \<not> truthy_text (up_username (parse_url env url)) \<and> \<not> truthy_text (up_password (parse_url env url)) \<and>
        getaddrinfo env n host = Some addresses \<and> addresses \<noteq> [] \<and> (\<forall>a \<in> set addresses. \<not> forbidden_address a))"

lemma validated_public: "validate_public_http_url env n url = Inr url' \<Longrightarrow> url' = url \<and> public_at env n url"
  by (auto simp: validate_public_http_url_def public_at_def truthy_text_def Let_def list_ex_iff split: if_splits sum.splits option.splits)

lemma validate_unsafe: "validate_public_http_url env n url = Inl e \<Longrightarrow> \<exists>msg. e = UnsafeURL msg"
  by (auto simp: validate_public_http_url_def Let_def split: if_splits sum.splits option.splits)

definition well_formed_request :: "http_request \<Rightarrow> bool" where
  "well_formed_request rq \<longleftrightarrow> (rq_method rq = GET \<longleftrightarrow> rq_body rq = None)"

lemma post_hops_checked:
  assumes "post_hops env n k meth url body headers = (rqs, r)" and "public_at env (Suc k) url" and "meth = GET \<longleftrightarrow> body = None"
  shows "length rqs \<le> n \<and> (\<forall>i < length rqs. public_at env (Suc k + i) (rq_url (rqs ! i))) \<and>
    (\<forall>rq \<in> set rqs. well_formed_request rq \<and> rq_headers rq = headers \<and> (body = None \<or> rq_body rq \<in> {None, body})) \<and>
    (n > 0 \<longrightarrow> rqs \<noteq> [] \<and> rq_method (hd rqs) = meth \<and> rq_url (hd rqs) = url \<and> rq_body (hd rqs) = body) \<and>
    (body = None \<longrightarrow> (\<forall>rq \<in> set rqs. rq_body rq = None))"
  using assms
proof (induction env n k meth url body headers arbitrary: rqs r rule: post_hops.induct)
  case (2 env n k meth url body headers)
  let ?rq = "\<lparr>rq_method = meth, rq_url = url, rq_body = body, rq_headers = headers\<rparr>"
  have one: "well_formed_request ?rq" using "2.prems"(3) by (simp add: well_formed_request_def)
  have zero: "public_at env (Suc k + i) (rq_url ([?rq] ! i))" if "i < 1" for i using that "2.prems"(2) by simp
  show ?case
  proof (cases "send env k ?rq")
    case (Inl e)
    then show ?thesis using "2.prems"(1) one zero by auto
  next
    case (Inr resp)
    show ?thesis
    proof (cases "rs_status resp \<notin> set redirect_statuses \<or> \<not> truthy_text (rs_location resp)")
      case True
      then show ?thesis using "2.prems"(1) Inr one zero by auto
    next
      case False
      let ?url = "url_join env url (the (rs_location resp))"
      let ?get = "meth = POST \<and> rs_status resp \<in> {301, 302, 303}"
      show ?thesis
      proof (cases "validate_public_http_url env (Suc (Suc k)) ?url")
        case (Inl e)
        then show ?thesis using "2.prems"(1) Inr False one zero by auto
      next
        case (Inr u)
        obtain rest q where rest: "post_hops env n (Suc k) (if ?get then GET else meth) ?url (if ?get then None else body) headers = (rest, q)"
          by fastforce
        have rqs: "rqs = ?rq # rest" using "2.prems"(1) \<open>send env k ?rq = Inr resp\<close> False Inr rest by (auto simp: Let_def)
        have "(if ?get then GET else meth) = GET \<longleftrightarrow> (if ?get then None else body) = None" using "2.prems"(3) by auto
        note ih = "2.IH" [OF refl \<open>send env k ?rq = Inr resp\<close> False refl Inr refl rest conjunct2 [OF validated_public [OF Inr]] this]
        have "public_at env (Suc k + i) (rq_url (rqs ! i))" if "i < length rqs" for i
          using that ih "2.prems"(2) rqs by (cases i) auto
        then show ?thesis using ih rqs one by (cases ?get; cases body) auto
      qed
    qed
  qed
qed simp

section \<open>Rows\<close>

definition row_ok :: "delivery_row \<Rightarrow> bool" where
  "row_ok row \<longleftrightarrow> (dl_delivered row \<longleftrightarrow> \<not> dl_failed row) \<and>
     (dl_delivered row \<longrightarrow> (\<exists>s. dl_response_status row = Some s \<and> is_success s)) \<and> (dl_failed row \<longrightarrow> dl_error_message row \<noteq> None)"

lemma deliver_async_rows:
  assumes "deliver_async env task_id found payload retries = (rqs, rows, r)"
  shows "(\<forall>row \<in> set rows. row_ok row \<and> dl_attempt_number row = retries + 1) \<and>
    (case r of Inr (Delivered s) \<Rightarrow> \<exists>row. rows = [row] \<and> dl_delivered row \<and> dl_response_status row = Some s | _ \<Rightarrow> \<forall>row \<in> set rows. dl_failed row)"
  using assms
  by (auto simp: deliver_async_def Let_def answered_def failed_row_def delivery_def row_ok_def
      split: option.splits if_splits sum.splits prod.splits web_error.splits)

declare deliver_from.simps [simp del]

lemma deliver_from_rows:
  assumes "deliver_from env task_id found payload k left = (rows, r)"
  shows "(\<forall>row \<in> set rows. row_ok row \<and> k + 1 \<le> dl_attempt_number row \<and> dl_attempt_number row \<le> k + left + 1) \<and>
    sorted (map dl_attempt_number rows) \<and>
    (case r of Inr (Delivered s) \<Rightarrow> \<exists>front row. rows = front @ [row] \<and> dl_delivered row \<and> dl_response_status row = Some s \<and> is_success s \<and>
         (\<forall>x \<in> set front. dl_failed x)
     | _ \<Rightarrow> \<forall>row \<in> set rows. dl_failed row)"
  using assms
proof (induction left arbitrary: k rows r)
  case 0
  obtain rqs rows1 r1 where one: "deliver_async (env k) task_id (found k) payload k = (rqs, rows1, r1)" by (metis prod_cases3)
  from "0.prems" one have "rows = rows1" "r = r1" by (auto simp: deliver_from.simps split: sum.splits web_error.splits)
  with deliver_async_rows [OF one] show ?case
    by (auto simp: row_ok_def sorted_wrt_map sorted_wrt_iff_nth_less split: sum.splits delivery_answer.splits)
next
  case (Suc l)
  obtain rqs rows1 r1 where one: "deliver_async (env k) task_id (found k) payload k = (rqs, rows1, r1)" by (metis prod_cases3)
  note first = deliver_async_rows [OF one]
  have sorted1: "sorted (map dl_attempt_number rows1)" using first by (auto simp: sorted_wrt_map sorted_wrt_iff_nth_less)
  show ?case
  proof (cases "\<exists>msg. r1 = Inl (RequestError msg)")
    case True
    then obtain msg where r1: "r1 = Inl (RequestError msg)" by blast
    obtain rows2 r2 where rest: "deliver_from env task_id found payload (Suc k) l = (rows2, r2)" by fastforce
    from Suc.prems one r1 rest have "rows = rows1 @ rows2" "r = r2" by (auto simp: deliver_from.simps [of _ _ _ _ k])
    moreover note ih = Suc.IH [OF rest]
    moreover have "\<forall>row \<in> set rows1. dl_failed row" using first r1 by simp
    moreover have "sorted (map dl_attempt_number (rows1 @ rows2))" using sorted1 ih first by (fastforce simp: sorted_append)
    ultimately show ?thesis using first by (fastforce split: sum.splits delivery_answer.splits)
  next
    case False
    with Suc.prems one have "rows = rows1" "r = r1" by (auto simp: deliver_from.simps split: sum.splits web_error.splits)
    with first sorted1 show ?thesis by (auto simp: row_ok_def split: sum.splits delivery_answer.splits)
  qed
qed

section \<open>Properties\<close>


text \<open>C33.  Nothing is sent to an address that was not checked.  A delivery sends at most four requests, each to a URL that was
  found public just before, all with the headers of the delivery; the first one posts the payload to the URL of
  the webhook, and a redirect either repeats it or turns it into a request without a body.  Requests are only
  sent for an active webhook.\<close>

theorem requests_checked:
  assumes "deliver_async env task_id found payload retries = (rqs, rows, r)"
  shows "length rqs \<le> 4 \<and> (\<forall>i < length rqs. public_at env (Suc i) (rq_url (rqs ! i))) \<and>
    (\<forall>rq \<in> set rqs. well_formed_request rq \<and> rq_body rq \<in> {None, Some (dumps_sorted env (PDict payload))}) \<and>
    (rqs \<noteq> [] \<longrightarrow> (\<exists>w. found = Some w \<and> wk_is_active w \<and> rq_method (hd rqs) = POST \<and> rq_url (hd rqs) = wk_url w \<and>
       rq_body (hd rqs) = Some (dumps_sorted env (PDict payload)) \<and>
       (\<forall>rq \<in> set rqs. rq_headers rq = delivery_headers env w payload (dumps_sorted env (PDict payload)) task_id)))"
proof (cases "rqs = []")
  case False
  then obtain w where w: "found = Some w" "wk_is_active w"
    and post: "fst (post_with_safe_redirects env (wk_url w) (dumps_sorted env (PDict payload))
      (delivery_headers env w payload (dumps_sorted env (PDict payload)) task_id)) = rqs"
    using assms by (auto simp: deliver_async_def Let_def split: option.splits if_splits sum.splits prod.splits web_error.splits)
  let ?body = "dumps_sorted env (PDict payload)"
  let ?headers = "delivery_headers env w payload ?body task_id"
  from post False obtain u where v: "validate_public_http_url env 1 (wk_url w) = Inr u"
    and hops: "fst (post_hops env 4 0 POST (wk_url w) (Some ?body) ?headers) = rqs"
    by (auto simp: post_with_safe_redirects_def max_redirect_hops_def numeral_eq_Suc split: sum.splits)
  obtain q where run: "post_hops env 4 0 POST (wk_url w) (Some ?body) ?headers = (rqs, q)" using hops by (metis prod.collapse)
  have "public_at env (Suc 0) (wk_url w)" using validated_public [OF v] by simp
  from post_hops_checked [OF run this] False w show ?thesis by auto
qed simp

definition open_resolver :: "string \<Rightarrow> ip_address list option" where
  "open_resolver host = (if host = ''a'' then Some [IPv4 (ipv4 93 184 216 34)] else if host = ''b'' then Some [IPv4 (ipv4 169 254 169 254)] else None)"

text \<open>A world in which the host a redirects to the host b, whose address is link-local, after the given number of answers
  with status 500.\<close>

definition redirecting :: "nat \<Rightarrow> nat \<Rightarrow> web_env" where
  "redirecting n k = \<lparr>parse_url = (\<lambda>u. \<lparr>up_scheme = ''https'', up_hostname = Some u, up_username = None, up_password = None, up_port = Inr None\<rparr>),
     url_join = (\<lambda>u l. l), getaddrinfo = (\<lambda>i. open_resolver),
     send = (\<lambda>i rq. if k < n then Inr \<lparr>rs_status = 500, rs_location = None, rs_text = []\<rparr>
       else Inr \<lparr>rs_status = 302, rs_location = Some ''b'', rs_text = []\<rparr>),
     hmac_sha256 = (\<lambda>s b. b), dumps_sorted = (\<lambda>v. ''body'')\<rparr>"

lemma redirecting_checks:
  "validate_public_http_url (redirecting n k) i ''a'' = Inr ''a''"
  "validate_public_http_url (redirecting n k) i ''b'' = Inl (UnsafeURL ''URL resolves to a private or reserved address'')"
  by (simp_all add: validate_public_http_url_def redirecting_def open_resolver_def truthy_text_def forbidden_ipv4 forbidden_ranges_def in_range_def
      del: forbidden_address.simps)

lemma redirecting_posts:
  "post_with_safe_redirects (redirecting n k) ''a'' body headers =
     ([\<lparr>rq_method = POST, rq_url = ''a'', rq_body = Some body, rq_headers = headers\<rparr>],
      if k < n then Inr \<lparr>rs_status = 500, rs_location = None, rs_text = []\<rparr>
      else Inl (UnsafeURL ''URL resolves to a private or reserved address''))"
proof -
  have hops: "max_redirect_hops + 1 = Suc 3" by (simp add: max_redirect_hops_def)
  have send: "send (redirecting n k) i rq = Inr (if k < n then \<lparr>rs_status = 500, rs_location = None, rs_text = []\<rparr>
      else \<lparr>rs_status = 302, rs_location = Some ''b'', rs_text = []\<rparr>)" "url_join (redirecting n k) u l = l" for i rq u l
    by (simp_all add: redirecting_def)
  show ?thesis unfolding post_with_safe_redirects_def hops post_hops.simps(2)
    by (simp add: redirecting_checks send redirect_statuses_def truthy_text_def Let_def)
qed

definition hook :: webhook where
  "hook = \<lparr>wk_id = ''w'', wk_user_id = ''u'', wk_url = ''a'', wk_secret = None, wk_events = [''pipeline_completed''], wk_is_active = True\<rparr>"

theorem requests_checked_witness:
  "\<exists>rqs rows r. deliver_async (redirecting 0 0) ''t'' (Some hook) [] 0 = (rqs, rows, r) \<and> map rq_url rqs = [''a''] \<and>
     public_at (redirecting 0 0) (Suc 0) ''a''"
proof -
  obtain rqs rows r where run: "deliver_async (redirecting 0 0) ''t'' (Some hook) [] 0 = (rqs, rows, r)" by (metis prod_cases3)
  have urls: "map rq_url rqs = [''a'']" using run
    by (auto simp: deliver_async_def hook_def redirecting_checks redirecting_posts Let_def)
  then have "length rqs = 1" "rq_url (rqs ! 0) = ''a''" by (auto simp: map_eq_Cons_conv)
  with requests_checked [OF run] run urls show ?thesis by auto
qed



section \<open>Where deliveries do not do what they mean to\<close>

text \<open>An attempt answered with an error status is recorded twice: the exception raised for it is caught by the handler that
  records requests that could not be sent.\<close>

theorem bad_status_recorded_twice:
  assumes "validate_public_http_url env 0 (wk_url w) = Inr u" and "wk_is_active w"
    and "post_with_safe_redirects env (wk_url w) (dumps_sorted env (PDict payload)) (delivery_headers env w payload (dumps_sorted env (PDict payload)) task_id) =
      (rqs, Inr resp)" and "\<not> is_success (rs_status resp)"
  shows "length (fst (snd (deliver_async env task_id (Some w) payload retries))) = 2"
  using assms by (simp add: deliver_async_def Let_def)

text \<open>The outcome of a run without a user is sent to the webhooks of all users.\<close>

theorem run_without_user_notifies_all:
  "webhooks_for_run status [] ws = map wk_id (filter (\<lambda>w. wk_is_active w \<and> event_type_of status \<in> set (wk_events w)) ws)"
  by (simp add: webhooks_for_run_def conj_commute)

text \<open>Addresses of the shared address space of providers are not refused.\<close>

theorem shared_addresses_allowed:
  "\<not> forbidden_address (IPv4 (ipv4 100 64 0 1))"
  by (simp add: forbidden_ipv4 forbidden_ranges_def in_range_def del: forbidden_address.simps)

end
