(* ===== verification/Storage.thy ===== *)
theory Storage
  imports SaveStep
begin

text \<open>
  \<^verbatim>\<open>backend/services/storage_service.py\<close>: keys of stored objects, and the two providers behind the storage service, the local file
  system and an S3 bucket.  Contents are byte strings.  A file system is what is below the base directory, whose paths lead nowhere
  else unless a predicate says that they are resolved outside it; a bucket is a map.  The locale \<open>object_store\<close> is what the service
  asks of a provider; both are interpreted.  Presigned URLs are left out.
\<close>

section \<open>Keys\<close>

definition slashes :: "string \<Rightarrow> string" where
  "slashes s = map (\<lambda>c. if c = CHR 0x5C then CHR ''/'' else c) s"

text \<open>\<^verbatim>\<open>posixpath.normpath\<close>: the components kept so far, last one first.\<close>

definition norm_step :: "bool \<Rightarrow> string \<Rightarrow> string list \<Rightarrow> string list" where
  "norm_step absolute part kept =
     (if part = [] \<or> part = ''.'' then kept
      else if part \<noteq> ''..'' \<or> (\<not> absolute \<and> kept = []) \<or> (kept \<noteq> [] \<and> hd kept = ''..'') then part # kept
      else tl kept)"

definition initial_slashes :: "string \<Rightarrow> nat" where
  "initial_slashes s =
     (if starts_with s ''/'' then if starts_with s ''//'' \<and> \<not> starts_with s ''///'' then 2 else 1 else 0)"

definition normpath :: "string \<Rightarrow> string" where
  "normpath s =
     (if s = [] then ''.''
      else let n = initial_slashes s;
               t = replicate n (CHR ''/'') @ join ''/'' (rev (fold (norm_step (n > 0)) (split_on (CHR ''/'') s) []))
        in if t = [] then ''.'' else t)"

definition invalid_key :: "string \<Rightarrow> pyexn" where
  "invalid_key key = ValueError (''Invalid storage key: '' @ repr_str key)"

definition validate_storage_key :: "string \<Rightarrow> string result" where
  "validate_storage_key key =
     (if key = [] \<or> CHR 0x00 \<in> set key then Inl (invalid_key key)
      else let n = normpath (slashes key) in
        if n = ''.'' \<or> n = [] \<or> starts_with n ''/'' then Inl (invalid_key key)
        else if list_ex (\<lambda>p. p \<in> {[], ''.'', ''..''}) (split_on (CHR ''/'') n) then Inl (invalid_key key)
        else Inr n)"

section \<open>The local file system\<close>

record local_fs =
  fs_base :: string
  fs_files :: "string \<Rightarrow> string option"
  fs_dirs :: "string list"
  fs_outside :: "string \<Rightarrow> bool"

definition get_full_path :: "string \<Rightarrow> local_fs \<Rightarrow> string result" where
  "get_full_path path fs =
     bindE (validate_storage_key path) (\<lambda>key.
       if fs_outside fs key then Inl (ValueError (''Storage key escapes base directory: '' @ repr_str path)) else Inr key)"

text \<open>The directories above a key.\<close>

definition parents :: "string \<Rightarrow> string list" where
  "parents key = (let ps = split_on (CHR ''/'') key in map (\<lambda>i. join ''/'' (take i ps)) [1..<length ps])"

text \<open>Opening a file for writing: its directories are made, which a file in their place prevents; a directory cannot be opened.\<close>

definition open_write :: "string \<Rightarrow> local_fs \<Rightarrow> local_fs \<times> unit result" where
  "open_write key fs =
     (if list_ex (\<lambda>d. fs_files fs d \<noteq> None) (parents key)
      then (fs, Inl (OtherError (if fs_files fs (last (parents key)) \<noteq> None then ''FileExistsError'' else ''NotADirectoryError'')))
      else let fs1 = fs\<lparr>fs_dirs := fs_dirs fs @ parents key\<rparr> in
        if key \<in> set (fs_dirs fs1) then (fs1, Inl (OtherError ''IsADirectoryError''))
        else (fs1\<lparr>fs_files := (fs_files fs1)(key := Some [])\<rparr>, Inr ()))"

definition local_upload :: "string \<Rightarrow> string \<Rightarrow> local_fs \<Rightarrow> local_fs \<times> string result" where
  "local_upload path content fs =
     (case get_full_path path fs of
        Inl e \<Rightarrow> (fs, Inl e)
      | Inr key \<Rightarrow>
          (case open_write key fs of
             (fs1, Inl e) \<Rightarrow> (fs1, Inl e)
           | (fs1, Inr _) \<Rightarrow> (fs1\<lparr>fs_files := (fs_files fs1)(key := Some content)\<rparr>, Inr (fs_base fs @ ''/'' @ key))))"

text \<open>The bytes of a stream up to the chunk that exceeds the limit, and whether one does.\<close>

fun read_stream :: "nat \<Rightarrow> string list \<Rightarrow> string \<Rightarrow> string \<times> bool" where
  "read_stream max_size [] acc = (acc, False)"
| "read_stream max_size (c # cs) acc =
     (if length (acc @ c) > max_size then (acc, True) else read_stream max_size cs (acc @ c))"

definition too_large :: "nat \<Rightarrow> pyexn" where
  "too_large max_size = OtherError (''File size exceeds maximum ('' @ nat_str max_size @ '' bytes)'')"

definition empty_upload :: pyexn where
  "empty_upload = OtherError ''Uploaded file is empty''"

definition local_upload_stream :: "string list \<Rightarrow> string \<Rightarrow> nat \<Rightarrow> local_fs \<Rightarrow> local_fs \<times> nat result" where
  "local_upload_stream chunks path max_size fs =
     (case get_full_path path fs of
        Inl e \<Rightarrow> (fs, Inl e)
      | Inr key \<Rightarrow>
          (case open_write key fs of
             (fs1, Inl e) \<Rightarrow> (fs1, Inl e)
           | (fs1, Inr _) \<Rightarrow>
               (case read_stream max_size chunks [] of
                  (content, over) \<Rightarrow>
                    if over then (fs1\<lparr>fs_files := (fs_files fs1)(key := None)\<rparr>, Inl (too_large max_size))
                    else if content = [] then (fs1\<lparr>fs_files := (fs_files fs1)(key := None)\<rparr>, Inl empty_upload)
                    else (fs1\<lparr>fs_files := (fs_files fs1)(key := Some content)\<rparr>, Inr (length content)))))"

definition local_exists :: "string \<Rightarrow> local_fs \<Rightarrow> bool result" where
  "local_exists path fs = bindE (get_full_path path fs) (\<lambda>key. Inr (fs_files fs key \<noteq> None \<or> key \<in> set (fs_dirs fs)))"

definition local_download :: "string \<Rightarrow> local_fs \<Rightarrow> string result" where
  "local_download path fs =
     bindE (get_full_path path fs) (\<lambda>key.
       case fs_files fs key of
         Some content \<Rightarrow> Inr content
       | None \<Rightarrow> if key \<in> set (fs_dirs fs) then Inl (OtherError ''IsADirectoryError'')
           else Inl (OtherError (''File not found: '' @ path)))"

definition local_delete :: "string \<Rightarrow> local_fs \<Rightarrow> local_fs \<times> unit result" where
  "local_delete path fs =
     (case get_full_path path fs of
        Inl e \<Rightarrow> (fs, Inl e)
      | Inr key \<Rightarrow>
          if fs_files fs key \<noteq> None then (fs\<lparr>fs_files := (fs_files fs)(key := None)\<rparr>, Inr ())
          else if key \<in> set (fs_dirs fs) then (fs, Inl (OtherError ''IsADirectoryError'')) else (fs, Inr ()))"

definition local_get_size :: "string \<Rightarrow> local_fs \<Rightarrow> nat result" where
  "local_get_size path fs =
     bindE (get_full_path path fs) (\<lambda>key. case fs_files fs key of Some content \<Rightarrow> Inr (length content) | None \<Rightarrow> Inl (OtherError ''FileNotFoundError''))"

section \<open>The bucket\<close>

type_synonym bucket = "string \<Rightarrow> string option"

definition s3_upload :: "string \<Rightarrow> string \<Rightarrow> bucket \<Rightarrow> bucket \<times> string result" where
  "s3_upload path content b =
     (case validate_storage_key path of Inl e \<Rightarrow> (b, Inl e) | Inr key \<Rightarrow> (b(key := Some content), Inr key))"

definition s3_upload_stream :: "string list \<Rightarrow> string \<Rightarrow> nat \<Rightarrow> bucket \<Rightarrow> bucket \<times> nat result" where
  "s3_upload_stream chunks path max_size b =
     (case validate_storage_key path of
        Inl e \<Rightarrow> (b, Inl e)
      | Inr key \<Rightarrow>
          (case read_stream max_size chunks [] of
             (content, over) \<Rightarrow>
               if over then (b, Inl (too_large max_size)) else if content = [] then (b, Inl empty_upload)
               else (b(key := Some content), Inr (length content))))"

definition s3_exists :: "string \<Rightarrow> bucket \<Rightarrow> bool result" where
  "s3_exists path b = bindE (validate_storage_key path) (\<lambda>key. Inr (b key \<noteq> None))"

definition s3_download :: "string \<Rightarrow> bucket \<Rightarrow> string result" where
  "s3_download path b =
     bindE (validate_storage_key path) (\<lambda>key. case b key of Some content \<Rightarrow> Inr content | None \<Rightarrow> Inl (OtherError ''ClientError''))"

definition s3_delete :: "string \<Rightarrow> bucket \<Rightarrow> bucket \<times> unit result" where
  "s3_delete path b = (case validate_storage_key path of Inl e \<Rightarrow> (b, Inl e) | Inr key \<Rightarrow> (b(key := None), Inr ()))"

definition s3_get_size :: "string \<Rightarrow> bucket \<Rightarrow> nat result" where
  "s3_get_size path b =
     bindE (validate_storage_key path) (\<lambda>key. case b key of Some content \<Rightarrow> Inr (length content) | None \<Rightarrow> Inl (OtherError ''ClientError''))"

section \<open>The service\<close>

text \<open>The settings choose the provider.\<close>

datatype storage = Local local_fs | S3 bucket

definition service_upload :: "string \<Rightarrow> string \<Rightarrow> storage \<Rightarrow> storage \<times> string result" where
  "service_upload path content v =
     (case v of Local fs \<Rightarrow> map_prod Local (\<lambda>r. r) (local_upload path content fs)
      | S3 b \<Rightarrow> map_prod S3 (\<lambda>r. r) (s3_upload path content b))"

definition service_upload_stream :: "string list \<Rightarrow> string \<Rightarrow> nat \<Rightarrow> storage \<Rightarrow> storage \<times> nat result" where
  "service_upload_stream chunks path max_size v =
     (case v of Local fs \<Rightarrow> map_prod Local (\<lambda>r. r) (local_upload_stream chunks path max_size fs)
      | S3 b \<Rightarrow> map_prod S3 (\<lambda>r. r) (s3_upload_stream chunks path max_size b))"

definition service_download :: "string \<Rightarrow> storage \<Rightarrow> string result" where
  "service_download path v = (case v of Local fs \<Rightarrow> local_download path fs | S3 b \<Rightarrow> s3_download path b)"

definition service_delete :: "string \<Rightarrow> storage \<Rightarrow> storage \<times> unit result" where
  "service_delete path v =
     (case v of Local fs \<Rightarrow> map_prod Local (\<lambda>r. r) (local_delete path fs) | S3 b \<Rightarrow> map_prod S3 (\<lambda>r. r) (s3_delete path b))"

definition service_exists :: "string \<Rightarrow> storage \<Rightarrow> bool result" where
  "service_exists path v = (case v of Local fs \<Rightarrow> local_exists path fs | S3 b \<Rightarrow> s3_exists path b)"

definition service_get_size :: "string \<Rightarrow> storage \<Rightarrow> nat result" where
  "service_get_size path v = (case v of Local fs \<Rightarrow> local_get_size path fs | S3 b \<Rightarrow> s3_get_size path b)"

text \<open>A call that changes the store, and what it leaves whether it succeeds or not.\<close>

datatype store_call = Upload string string | UploadStream "string list" string nat | Delete string

fun call_path :: "store_call \<Rightarrow> string" where
  "call_path (Upload path content) = path"
| "call_path (UploadStream chunks path max_size) = path"
| "call_path (Delete path) = path"

fun service_call :: "store_call \<Rightarrow> storage \<Rightarrow> storage" where
  "service_call (Upload path content) v = fst (service_upload path content v)"
| "service_call (UploadStream chunks path max_size) v = fst (service_upload_stream chunks path max_size v)"
| "service_call (Delete path) v = fst (service_delete path v)"

section \<open>Normal paths\<close>

definition proper_part :: "string \<Rightarrow> bool" where
  "proper_part p \<longleftrightarrow> p \<noteq> [] \<and> p \<noteq> ''.'' \<and> p \<noteq> ''..'' \<and> CHR ''/'' \<notin> set p"

lemma split_on_ne [simp]: "split_on d s \<noteq> []"
  by (induction s) (auto split: list.split)

lemma split_on_parts: "p \<in> set (split_on d s) \<Longrightarrow> d \<notin> set p"
proof (induction s arbitrary: p)
  case (Cons c s)
  obtain w ws where w: "split_on d s = w # ws" by (cases "split_on d s") simp_all
  with Cons.IH have "d \<notin> set w" "\<forall>q \<in> set ws. d \<notin> set q" by auto
  with Cons.prems w show ?case by (auto split: if_splits)
qed simp

lemma join_split_on: "join [d] (split_on d s) = s"
proof (induction s)
  case (Cons c s)
  then show ?case by (cases "split_on d s" rule: remdups_adj.cases) simp_all
qed simp

text \<open>Proper parts are kept as they are.\<close>

lemma fold_norm_proper: "\<forall>p \<in> set ps. proper_part p \<Longrightarrow> fold (norm_step a) ps kept = rev ps @ kept"
  by (induction ps arbitrary: kept) (auto simp: norm_step_def proper_part_def)

lemma validated_parts:
  assumes "validate_storage_key key = Inr n"
  shows "\<forall>p \<in> set (split_on (CHR ''/'') n). proper_part p"
proof
  fix p
  assume "p \<in> set (split_on (CHR ''/'') n)"
  with assms show "proper_part p" using split_on_parts [of p "CHR ''/''" n]
    by (auto simp: validate_storage_key_def Let_def proper_part_def list_ex_iff split: if_splits)
qed

lemma proper_path_start:
  assumes "\<forall>p \<in> set (split_on (CHR ''/'') n). proper_part p"
  shows "n \<noteq> [] \<and> n \<noteq> ''.'' \<and> \<not> starts_with n ''/''"
proof -
  have "proper_part (hd (split_on (CHR ''/'') n))" using assms by simp
  then show ?thesis by (cases n) (auto simp: proper_part_def starts_with_def)
qed

lemma starts_with_slashes: "\<not> starts_with n ''/'' \<Longrightarrow> initial_slashes n = 0"
  by (simp add: initial_slashes_def)

lemma normpath_proper:
  assumes "\<forall>p \<in> set (split_on (CHR ''/'') n). proper_part p"
  shows "normpath n = n"
proof -
  have "n \<noteq> []" "initial_slashes n = 0" using proper_path_start [OF assms] by (simp_all add: starts_with_slashes)
  then show ?thesis using assms by (simp add: normpath_def Let_def fold_norm_proper join_split_on)
qed

text \<open>A key of proper parts without backslashes and null bytes is accepted as it is.\<close>

lemma proper_key_accepted:
  assumes "\<forall>p \<in> set (split_on (CHR ''/'') n). proper_part p" and "CHR 0x5C \<notin> set n" and "CHR 0x00 \<notin> set n"
  shows "validate_storage_key n = Inr n"
proof -
  have "slashes n = n" unfolding slashes_def using assms(2) by (auto intro: map_idI)
  moreover have "\<not> list_ex (\<lambda>p. p \<in> {[], ''.'', ''..''}) (split_on (CHR ''/'') n)"
    using assms(1) by (auto simp: list_ex_iff proper_part_def)
  ultimately show ?thesis using normpath_proper [OF assms(1)] proper_path_start [OF assms(1)] assms(3)
    by (simp add: validate_storage_key_def Let_def)
qed

text \<open>Normalising brings in no character but the slash and the dot.\<close>

lemma join_set: "set (join sep ps) \<subseteq> set sep \<union> (\<Union>p \<in> set ps. set p)"
  by (induction sep ps rule: join.induct) auto

lemma fold_norm_set: "set (fold (norm_step a) ps kept) \<subseteq> set ps \<union> set kept"
proof (induction ps arbitrary: kept)
  case (Cons p ps)
  have "set (norm_step a p kept) \<subseteq> insert p (set kept)" by (cases kept) (auto simp: norm_step_def)
  with Cons [of "norm_step a p kept"] show ?case by auto
qed simp

lemma split_on_set: "p \<in> set (split_on d s) \<Longrightarrow> set p \<subseteq> set s"
proof (induction s arbitrary: p)
  case (Cons c s)
  obtain w ws where w: "split_on d s = w # ws" by (cases "split_on d s") simp_all
  with Cons.IH have "set w \<subseteq> set s" "\<forall>q \<in> set ws. set q \<subseteq> set s" by auto
  with Cons.prems w show ?case by (auto split: if_splits)
qed simp

lemma normpath_set: "set (normpath s) \<subseteq> set s \<union> set ''/.''"
proof -
  have "(\<Union>p \<in> set (rev (fold (norm_step a) (split_on (CHR ''/'') s) [])). set p) \<subseteq> set s" for a
    using fold_norm_set [of a "split_on (CHR ''/'') s" "[]"] split_on_set [of _ "CHR ''/''" s] by auto
  then have "set (join ''/'' (rev (fold (norm_step a) (split_on (CHR ''/'') s) []))) \<subseteq> set s \<union> set ''/.''" for a
    using join_set [of "''/''"] by (fastforce simp del: set_rev)
  then show ?thesis by (auto simp: normpath_def Let_def)
qed

text \<open>Validation of a storage key is sound and stable: what it returns is a relative path without empty, \<^verbatim>\<open>.\<close> and
  \<^verbatim>\<open>..\<close> parts, null bytes and backslashes, and validating that again changes nothing.\<close>

theorem validated_key_canonical:
  assumes "validate_storage_key key = Inr n"
  shows "(\<forall>p \<in> set (split_on (CHR ''/'') n). proper_part p) \<and> CHR 0x00 \<notin> set n \<and> CHR 0x5C \<notin> set n \<and>
    validate_storage_key n = Inr n"
proof -
  note parts = validated_parts [OF assms]
  have n: "n = normpath (slashes key)" "CHR 0x00 \<notin> set key"
    using assms by (auto simp: validate_storage_key_def Let_def split: if_splits)
  then have "CHR 0x00 \<notin> set (slashes key)" "CHR 0x5C \<notin> set (slashes key)" by (auto simp: slashes_def split: if_splits)
  with normpath_set [of "slashes key"] have "CHR 0x00 \<notin> set n" "CHR 0x5C \<notin> set n" unfolding n(1) by auto
  with parts proper_key_accepted [OF parts] show ?thesis by blast
qed

theorem validated_key_canonical_witness:
  "validate_storage_key ''./a//b'' = Inr ''a/b'' \<and> validate_storage_key ''a/b'' = Inr ''a/b''"
proof -
  have "validate_storage_key ''./a//b'' = Inr ''a/b''" by code_simp
  with validated_key_canonical [OF this] show ?thesis by blast
qed

text \<open>A parent step is refused only when it would leave the key space; one inside is resolved.\<close>

theorem inner_parent_step_accepted:
  "validate_storage_key ''outputs/run1/../run2/out.csv'' = Inr ''outputs/run2/out.csv'' \<and>
   validate_storage_key ''../run2/out.csv'' = Inl (invalid_key ''../run2/out.csv'')"
  by code_simp

section \<open>What a provider promises\<close>

lemma read_stream_content: "read_stream m cs acc = (content, False) \<Longrightarrow> content = acc @ concat cs"
  by (induction m cs acc rule: read_stream.induct) (auto split: if_splits)

locale object_store =
  fixes objects :: "'s \<Rightarrow> string \<Rightarrow> string option"
    and barred :: "'s \<Rightarrow> string \<Rightarrow> bool"
    and upload :: "string \<Rightarrow> string \<Rightarrow> 's \<Rightarrow> 's \<times> string result"
    and upload_stream :: "string list \<Rightarrow> string \<Rightarrow> nat \<Rightarrow> 's \<Rightarrow> 's \<times> nat result"
    and delete :: "string \<Rightarrow> 's \<Rightarrow> 's \<times> unit result"
    and download :: "string \<Rightarrow> 's \<Rightarrow> string result"
  assumes upload_done: "upload p c s = (s', Inr r) \<Longrightarrow>
      \<exists>k. validate_storage_key p = Inr k \<and> \<not> barred s k \<and> objects s' = (objects s)(k \<mapsto> c)"
    and stream_done: "upload_stream cs p m s = (s', Inr n) \<Longrightarrow>
      \<exists>k. validate_storage_key p = Inr k \<and> \<not> barred s k \<and> objects s' = (objects s)(k \<mapsto> concat cs) \<and> n = length (concat cs)"
    and upload_local: "validate_storage_key p \<noteq> Inr k \<Longrightarrow> objects (fst (upload p c s)) k = objects s k"
    and stream_local: "validate_storage_key p \<noteq> Inr k \<Longrightarrow> objects (fst (upload_stream cs p m s)) k = objects s k"
    and delete_local: "validate_storage_key p \<noteq> Inr k \<Longrightarrow> objects (fst (delete p s)) k = objects s k"
    and barred_kept: "barred (fst (upload p c s)) = barred s" "barred (fst (upload_stream cs p m s)) = barred s"
      "barred (fst (delete p s)) = barred s"
    and download_present: "validate_storage_key p = Inr k \<Longrightarrow> \<not> barred s k \<Longrightarrow> objects s k = Some c \<Longrightarrow> download p s = Inr c"
begin

fun call :: "store_call \<Rightarrow> 's \<Rightarrow> 's" where
  "call (Upload p c) s = fst (upload p c s)"
| "call (UploadStream cs p m) s = fst (upload_stream cs p m s)"
| "call (Delete p) s = fst (delete p s)"

lemma call_local: "validate_storage_key (call_path x) \<noteq> Inr k \<Longrightarrow> objects (call x s) k = objects s k"
  by (cases x) (simp_all add: upload_local stream_local delete_local)

lemma call_barred: "barred (call x s) = barred s"
  by (cases x) (simp_all add: barred_kept)

lemma calls_local:
  "\<forall>x \<in> set xs. validate_storage_key (call_path x) \<noteq> Inr k \<Longrightarrow>
   objects (fold call xs s) k = objects s k \<and> barred (fold call xs s) = barred s"
  by (induction xs arbitrary: s) (simp_all add: call_local call_barred)

lemma present_after:
  assumes "validate_storage_key p = Inr k" and "\<not> barred s k" and "objects s k = Some c"
    and "\<forall>x \<in> set xs. validate_storage_key (call_path x) \<noteq> validate_storage_key p"
  shows "download p (fold call xs s) = Inr c"
  using download_present [OF assms(1), of "fold call xs s" c] calls_local [of xs k s] assms by simp

lemma uploaded_read_back:
  assumes "upload p c s = (s', Inr r)"
    and "\<forall>x \<in> set xs. validate_storage_key (call_path x) \<noteq> validate_storage_key p"
  shows "download p (fold call xs s') = Inr c"
proof -
  from upload_done [OF assms(1)] obtain k where k: "validate_storage_key p = Inr k" "\<not> barred s k" "objects s' k = Some c" by auto
  then show ?thesis using barred_kept(1) [of p c s] assms by (intro present_after [of p k]) auto
qed

lemma streamed_read_back:
  assumes "upload_stream cs p m s = (s', Inr n)"
    and "\<forall>x \<in> set xs. validate_storage_key (call_path x) \<noteq> validate_storage_key p"
  shows "download p (fold call xs s') = Inr (concat cs)"
proof -
  from stream_done [OF assms(1)] obtain k where k: "validate_storage_key p = Inr k" "\<not> barred s k" "objects s' k = Some (concat cs)"
    by auto
  then show ?thesis using barred_kept(2) [of cs p m s] assms by (intro present_after [of p k]) auto
qed

end

lemmas provider_defs = bindE_def get_full_path_def open_write_def local_upload_def local_upload_stream_def local_download_def
  local_delete_def local_exists_def local_get_size_def s3_upload_def s3_upload_stream_def s3_download_def s3_delete_def
  s3_exists_def s3_get_size_def Let_def

interpretation files: object_store fs_files fs_outside local_upload local_upload_stream local_delete local_download
  by unfold_locales
    (auto simp: provider_defs dest!: read_stream_content split: sum.splits prod.splits if_splits)

interpretation objs: object_store "\<lambda>b. b" "\<lambda>b k. False" s3_upload s3_upload_stream s3_delete s3_download
  by unfold_locales
    (auto simp: provider_defs dest!: read_stream_content split: sum.splits prod.splits if_splits)

text \<open>The service promises what its provider promises.\<close>

definition service_objects :: "storage \<Rightarrow> string \<Rightarrow> string option" where
  "service_objects v = (case v of Local fs \<Rightarrow> fs_files fs | S3 b \<Rightarrow> b)"

definition service_barred :: "storage \<Rightarrow> string \<Rightarrow> bool" where
  "service_barred v = (case v of Local fs \<Rightarrow> fs_outside fs | S3 b \<Rightarrow> (\<lambda>k. False))"

lemmas service_defs = service_objects_def service_barred_def service_upload_def service_upload_stream_def service_delete_def
  service_download_def

lemma map_prod_eq: "map_prod f (\<lambda>r. r) q = (s, r) \<longleftrightarrow> (\<exists>t. q = (t, r) \<and> s = f t)"
  by (cases q) auto

interpretation serv: object_store service_objects service_barred service_upload service_upload_stream service_delete service_download
proof (unfold_locales, goal_cases)
  case 1
  then show ?case by (auto simp: service_defs map_prod_eq split: storage.splits dest!: files.upload_done objs.upload_done)
next
  case 2
  then show ?case by (auto simp: service_defs map_prod_eq split: storage.splits dest!: files.stream_done objs.stream_done)
next
  case 3
  then show ?case by (auto simp: service_defs files.upload_local objs.upload_local split: storage.splits)
next
  case 4
  then show ?case by (auto simp: service_defs files.stream_local objs.stream_local split: storage.splits)
next
  case 5
  then show ?case by (auto simp: service_defs files.delete_local objs.delete_local split: storage.splits)
next
  case 6
  then show ?case by (auto simp: service_defs files.barred_kept split: storage.splits)
next
  case 7
  then show ?case by (auto simp: service_defs files.barred_kept split: storage.splits)
next
  case 8
  then show ?case by (auto simp: service_defs files.barred_kept split: storage.splits)
next
  case 9
  then show ?case by (auto simp: service_defs intro: files.download_present objs.download_present split: storage.splits)
qed

lemma service_call_eq: "service_call = serv.call"
proof (intro ext)
  fix x v
  show "service_call x v = serv.call x v" by (cases x) simp_all
qed

section \<open>Properties of the service\<close>

text \<open>C36.  What was stored is read back: after an upload that succeeded, with either provider, and any calls for other keys,
  whether they succeed or fail, a download returns the content.\<close>

theorem stored_object_read_back:
  assumes "service_upload path content v = (v1, Inr r)"
    and "\<forall>x \<in> set calls. validate_storage_key (call_path x) \<noteq> validate_storage_key path"
  shows "service_download path (fold service_call calls v1) = Inr content"
  unfolding service_call_eq using assms by (rule serv.uploaded_read_back)

definition empty_fs :: local_fs where
  "empty_fs = \<lparr>fs_base = ''/data'', fs_files = (\<lambda>k. None), fs_dirs = [], fs_outside = (\<lambda>k. False)\<rparr>"

theorem stored_object_read_back_witness:
  "service_download ''r1/a.csv''
     (fold service_call [Upload ''r1/b.csv'' ''y'', Delete ''uploads/c'', UploadStream [''too'', ''long''] ''c.csv'' 5]
       (fst (service_upload ''r1/a.csv'' ''x'' (Local empty_fs)))) = Inr ''x''"
proof -
  have "snd (service_upload ''r1/a.csv'' ''x'' (Local empty_fs)) = Inr ''/data/r1/a.csv''" by code_simp
  then have "service_upload ''r1/a.csv'' ''x'' (Local empty_fs)
      = (fst (service_upload ''r1/a.csv'' ''x'' (Local empty_fs)), Inr ''/data/r1/a.csv'')" by (metis prod.collapse)
  moreover have "\<forall>x \<in> set [Upload ''r1/b.csv'' ''y'', Delete ''uploads/c'', UploadStream [''too'', ''long''] ''c.csv'' 5].
      validate_storage_key (call_path x) \<noteq> validate_storage_key ''r1/a.csv''" by code_simp
  ultimately show ?thesis by (rule stored_object_read_back)
qed

text \<open>The file system behaves as a bucket where it succeeds: a call that succeeds on files succeeds on a bucket that holds
  the same objects, with the same answer but for the location an upload reports, and leaves the same objects.\<close>

theorem files_refine_bucket:
  "(local_upload p c fs = (fs1, Inr r) \<longrightarrow> (\<exists>k. s3_upload p c (fs_files fs) = (fs_files fs1, Inr k) \<and> r = fs_base fs @ ''/'' @ k)) \<and>
   (local_upload_stream cs p m fs = (fs1, Inr n) \<longrightarrow> s3_upload_stream cs p m (fs_files fs) = (fs_files fs1, Inr n)) \<and>
   (local_delete p fs = (fs1, Inr ()) \<longrightarrow> s3_delete p (fs_files fs) = (fs_files fs1, Inr ())) \<and>
   (local_download p fs = Inr d \<longrightarrow> s3_download p (fs_files fs) = Inr d) \<and>
   (local_get_size p fs = Inr z \<longrightarrow> s3_get_size p (fs_files fs) = Inr z)"
  by (auto simp: provider_defs fun_eq_iff split: sum.splits prod.splits if_splits option.splits)

theorem files_refine_bucket_witness:
  "s3_get_size ''a.csv'' (\<lambda>k. if k = ''a.csv'' then Some ''xyz'' else None) = Inr 3"
proof -
  define fs where "fs = empty_fs\<lparr>fs_files := (\<lambda>k. if k = ''a.csv'' then Some ''xyz'' else None)\<rparr>"
  have "validate_storage_key ''a.csv'' = Inr ''a.csv''" by code_simp
  then have "local_get_size ''a.csv'' fs = Inr 3" by (simp add: fs_def empty_fs_def provider_defs)
  then show ?thesis using files_refine_bucket [where p = "''a.csv''" and fs = fs and z = 3] by (simp add: fs_def)
qed

text \<open>A stream that is refused destroys the object that the key had on the file system; a bucket keeps it.\<close>

theorem refused_stream_deletes_file:
  assumes "fs_files fs ''a.csv'' = Some ''old''" and "\<not> fs_outside fs ''a.csv''" and "''a.csv'' \<notin> set (fs_dirs fs)"
  shows "fs_files (fst (local_upload_stream [''too long''] ''a.csv'' 3 fs)) ''a.csv'' = None \<and>
    fst (s3_upload_stream [''too long''] ''a.csv'' 3 (fs_files fs)) ''a.csv'' = Some ''old''"
proof -
  have "validate_storage_key ''a.csv'' = Inr ''a.csv''" "parents ''a.csv'' = []" by code_simp+
  then show ?thesis using assms by (simp add: provider_defs)
qed

text \<open>The key of a saved output is one that the storage service takes as it is: for a file name that the validator
  accepts, without null bytes, and a run that is a proper part.\<close>

theorem saved_output_key_accepted:
  assumes "execute_save_step ops t filename run_id = Inr r" and "is_safe_filename filename"
    and "proper_part run_id" and "CHR 0x00 \<notin> set filename \<union> set run_id" and "CHR 0x5C \<notin> set run_id"
  shows "validate_storage_key (sv_object_name r) = Inr (sv_object_name r)"
proof -
  have run: "run_id \<noteq> []" "CHR ''/'' \<notin> set run_id" using assms(3) by (simp_all add: proper_part_def)
  note folder = saved_output_in_run_folder [OF assms(1,2) run]
  have "char_of (92 :: nat) = CHR 0x5C" by code_simp
  with assms(2) have plain: "CHR ''/'' \<notin> set filename" "CHR 0x5C \<notin> set filename"
    by (auto simp: is_safe_filename_def contains_single split: if_splits)
  have "set (path_stem filename) \<subseteq> set filename"
    using plain(1) by (auto simp: path_stem_def path_name_plain dest: in_set_takeD split: if_splits)
  with plain assms(4) folder have nm: "CHR ''/'' \<notin> set (sv_filename r)" "CHR 0x5C \<notin> set (sv_filename r)"
      "CHR 0x00 \<notin> set (sv_filename r)" by auto
  have key: "sv_object_name r = join ''/'' [''outputs'', run_id, sv_filename r]"
    using folder join_split_on [of "CHR ''/''" "sv_object_name r"] by simp
  have parts: "\<forall>p \<in> set (split_on (CHR ''/'') (sv_object_name r)). proper_part p"
  proof -
    have "proper_part (sv_filename r)" unfolding proper_part_def using folder nm(1) by blast
    then show ?thesis using folder assms(3) by (simp add: proper_part_def [of "''outputs''"])
  qed
  have "CHR 0x5C \<notin> set (sv_object_name r)" "CHR 0x00 \<notin> set (sv_object_name r)"
    using key nm(2,3) assms(4,5) by simp_all
  with parts show ?thesis by (rule proper_key_accepted)
qed

theorem saved_output_key_accepted_witness:
  "\<exists>r. execute_save_step demo_store 3 ''out.json'' ''r1'' = Inr r \<and>
     validate_storage_key (sv_object_name r) = Inr (sv_object_name r)"
proof -
  have "is_safe_filename ''out.json''" by code_simp
  moreover have "proper_part ''r1''" by (simp add: proper_part_def)
  moreover have "\<exists>r. execute_save_step demo_store 3 ''out.json'' ''r1'' = Inr r" 
  proof -
    have "resolve_extension (resolve_filename ''out.json'' ''r1'') = ''json''" by code_simp
    then show ?thesis by (simp add: execute_save_step_def Let_def bind_attempt_def serialize_def demo_store_def)
  qed
  ultimately show ?thesis using saved_output_key_accepted [of demo_store 3 "''out.json''" "''r1''"] by fastforce
qed

end
