(* ===== verification/Spec2Isabelle.thy ===== *)
theory Spec2Isabelle
  imports StepExecutor StreamDaemon RunnerBus RunApi Webhooks Storage "HOL-Library.Sublist"
begin

text \<open>
  \<^bold>\<open>PipelineIQ\<close> runs data pipelines that users write as YAML texts.  A text is parsed and validated, a Celery task runs
  its steps one after the other, tables travel between steps over a registry and an Arrow bus, lineage is recorded by column,
  failing runs may be healed by patches of a language model, results are persisted and announced to browsers, schedules and
  webhooks.  This development models that path, from the text to the announcement.

  \<^bold>\<open>How the parts interact.\<close>  \<^verbatim>\<open>execute_pipeline_task\<close> (PipelineTask) asks the cache of texts (YamlCache) for the parsed
  pipeline (PipelineParser), hands it to \<^verbatim>\<open>PipelineRunner.execute\<close> (Runner), which for each step calls the smart executor
  (SmartExecutor), and that either the SQL builders for DuckDB (SqlBuilder) or the pandas executors (StepExecutor).  Executors
  record lineage (Lineage), apply column policies (ColumnSecurity), check rules (Rules) and save outputs (SaveStep, Storage);
  the runner checks the contracts of steps (Contracts) and puts tables on the bus (ArrowBus, RunnerBus).  A failed run goes to
  the healing agent (HealingAgent, PatchApplier, SchemaDiff), whose patches are saved as versions (Versioning, TextDiff).
  The task then persists rows, checks the contract of the pipeline (ContractEngine), publishes events (ProgressStream, with
  texts cleaned by ErrorText), counts schedules (RunLifecycle) and enqueues webhooks (Webhooks).  Parsed texts are
  checked before a run is created (PipelineValidator), and so are the columns of their steps against those of the stored
  files (SchemaFlow).  The requests that start, show and cancel runs and keep schedules (RunApi, with the times of CronText) put these
  checks behind those of permissions (AccessControl, with the identifiers of UuidText) and queue the task.  Pipelines over topics of Kafka run in a daemon of their own (StreamDaemon), which reads and produces through
  the broker client (BrokerClient), parses its text with the same parser and runs single steps on the smart executor.

  \<^bold>\<open>Theories and sources\<close> (below \<^verbatim>\<open>src/backend\<close>).

  \<^item> PyBase, PyNum: values, exceptions and strings of Python; numbers, \<open>binary64\<close> rounding, number texts.  Not code of the
    repository, but what it uses of its language.
  \<^item> StringUtils: \<^verbatim>\<open>utils/string_utils.py\<close>, \<^verbatim>\<open>pipeline/diff_utils.py\<close>.  TextDiff: \<^verbatim>\<open>difflib.unified_diff\<close>, which versioning uses.
  \<^item> SqlScan, SqlBuilder: \<^verbatim>\<open>execution/sql_builder.py\<close>, the masking scan with its states as an automaton over characters, quoting,
    the acceptance of queries; one builder per step type.
  \<^item> PipelineParser, PipelineValidator: \<^verbatim>\<open>pipeline/parser.py\<close>; the seventeen checks, each with a declarative counterpart.
  \<^item> SmartExecutor, Runner: \<^verbatim>\<open>execution/smart_executor.py\<close>, \<^verbatim>\<open>pipeline/runner.py\<close>; the state of a run is a record of results, registry,
    consumer counts, lineage and events.
  \<^item> ArrowBus, RunnerBus: \<^verbatim>\<open>execution/arrow_bus.py\<close>, \<^verbatim>\<open>execution/shm_store.py\<close>; Redis, shared memory, object storage and the
    local locations are explicit stores, faults are inputs.
  \<^item> NxDigraph, Lineage: \<^verbatim>\<open>pipeline/lineage.py\<close> over an interface of \<^verbatim>\<open>networkx\<close> digraphs.
  \<^item> StepErrors, StepExecutor, SaveStep, Rules, Contracts, ColumnSecurity: \<^verbatim>\<open>pipeline/exceptions.py\<close>, \<^verbatim>\<open>pipeline/steps/_core.py\<close>,
    \<^verbatim>\<open>execution/steps/save_step.py\<close>, \<^verbatim>\<open>pipeline/validators.py\<close>, \<^verbatim>\<open>pipeline/contracts.py\<close>, \<^verbatim>\<open>security/column_security.py\<close>.
  \<^item> PatchApplier, SchemaDiff, HealingAgent: \<^verbatim>\<open>execution/patch_applier.py\<close>, \<^verbatim>\<open>execution/schema_diff.py\<close> and
    \<^verbatim>\<open>pipeline/schema_drift.py\<close>, \<^verbatim>\<open>execution/healing_classifier.py\<close> and \<^verbatim>\<open>execution/healing_agent.py\<close>.
  \<^item> Versioning: \<^verbatim>\<open>pipeline/versioning.py\<close>.  ContractEngine: \<^verbatim>\<open>contracts/validator.py\<close>.  YamlCache: \<^verbatim>\<open>pipeline/cache.py\<close>.
  \<^item> RunLifecycle: rows of runs and schedules, \<^verbatim>\<open>tasks/schedule_tasks.py\<close>, \<^verbatim>\<open>tasks/reconciliation.py\<close>, the cancellation in
    \<^verbatim>\<open>api/pipelines.py\<close>.  ErrorText and PipelineTask: \<^verbatim>\<open>tasks/pipeline_tasks.py\<close>.
  \<^item> ProgressStream: \<^verbatim>\<open>api/sse.py\<close>, \<^verbatim>\<open>utils/sse_security.py\<close> and the publishing half of the task.
  \<^item> Webhooks: \<^verbatim>\<open>tasks/webhook_tasks.py\<close>, \<^verbatim>\<open>utils/url_security.py\<close>.  Storage: \<^verbatim>\<open>services/storage_service.py\<close>.
  \<^item> SchemaFlow: \<^verbatim>\<open>services/pipeline_validation.py\<close>, one transfer of columns per step type over the schema of the frames.
  \<^item> BrokerClient: \<^verbatim>\<open>streaming/redpanda_client.py\<close>.  StreamDaemon: \<^verbatim>\<open>tasks/streaming_pipeline.py\<close>,
    \<^verbatim>\<open>routers/streaming.py\<close>; a round of the loop takes what broker, database and other sessions do as its input.
  \<^item> AccessControl: \<^verbatim>\<open>api/permissions.py\<close>, \<^verbatim>\<open>api/contracts.py\<close>, \<^verbatim>\<open>api/versions.py\<close> and the checks of
    \<^verbatim>\<open>api/pipelines.py\<close> over the tables \<open>api_db\<close>.  UuidText: \<^verbatim>\<open>utils/uuid_utils.py\<close> with the identifiers of the standard library.
  \<^item> RunApi: \<^verbatim>\<open>api/pipelines.py\<close> and \<^verbatim>\<open>api/schedules.py\<close>, from the request to the queue.  CronText: \<^verbatim>\<open>scheduling/cron_utils.py\<close>.
  \<^item> This theory: the properties that span parser, validator, executors, runner and lineage.

  Definitions bear the names of the functions and classes they translate.  Exceptions are the left side of a sum; a
  procedure that changes state takes and returns it; a database is the record of the rows that the code touches.

  \<^bold>\<open>Interfaces.\<close>  \<open>nx_digraph\<close> is what the lineage recorder asks of \<^verbatim>\<open>networkx\<close>, interpreted on adjacency lists; \<open>record_op\<close>
  extends it by a recording and holds of all of them.  \<open>step_check\<close> and \<open>config_check\<close> are the contract of the passes of the
  validator, \<open>sql_builder\<close> that of the builders, \<open>field_handler\<close> that of the patch handlers, \<open>executor\<close> that of the pandas executors.
  \<open>table_bus\<close> is what the runner expects of a bus; \<open>arrow_laws\<close>, the assumptions on serialisation, time and keys under which
  the Arrow bus provides it, is interpreted with tables that are texts.  \<open>text_cache\<close> holds of the cache of the process and of
  Redis, \<open>object_store\<close> of both storage providers and of the service.
  \<open>permission_check\<close> is what the four checks of permissions share: nobody is let in by rows of other names, a stranger to a name in use
  is refused.

  \<^bold>\<open>What is shown.\<close>  A validated pipeline finds its inputs at run time and leaves an acyclic lineage; validation decides a
  declarative specification; generated SQL cannot be broken out of; redacted columns do not come through; the runner
  evicts a table exactly when nothing reads it any more, and its summary is that of its events; a run that completes has
  its tables on the bus; ancestry and impact are reachability; healing stops after three attempts and keeps what
  its patch does not name; versions stay unique against concurrent saves; the task ends in a final state whatever others
  do, stores the prescribed outcome, counts its schedule once and leaves a terminal event; streams send the verified payloads
  up to the first terminal one; no webhook request goes to an address that was not found public; stored objects are
  read back; columns that the preflight accepts are those that the executors then find; an outage of the broker opens the
  circuit after the stated number of failures and its messages are kept and sent in order; every message that the daemon reads is
  processed, dropped as a duplicate, or put into the dead letters, none is processed twice, and a stop ends the loop; an accepted run or schedule comes from somebody entitled to its name
  and is well formed over the files of that user; grants are a map from names and users to levels, and a stranger to a name in use stays
  one through any requests unless somebody else lets it in.  Theorems in sections on where code deviates prove behaviour that it does not mean to have.

  \<^bold>\<open>Termination and bounds.\<close>  Loops are structural or have a measure.  The only counters beside those of the code are that of
  \<open>adj_topo\<close>, the number of nodes, which each round decreases, and the measures of the difflib matcher, the lengths of the blocks
  that remain.  Healing is bounded by its three attempts, a delivery by its three retries and three redirect hops, saving a
  version by its attempts.  The daemon takes the list of its rounds; theorems on its end say after which round it returns.  Searches in the lineage graph are while loops whose invariant shows that each node enters the queue once.
  IPv4 addresses are words of 32 bits.

  \<^bold>\<open>Limits of the model.\<close>  Characters are code points below 256.  YAML, JSON, Arrow, Parquet, pandas, DuckDB, the keyed
  hash, name resolution, HTTP, croniter and the language model are parameters; where a theorem relies on one of them, its
  hypotheses say on what, with a witness.  Anchors of YAML, whose nodes are shared, are copied.  Callbacks of the runner return,
  commits succeed, and other sessions change only the rows that the environment of a definition says.  Configurations reach the pandas
  executors as their annotations describe them.  Clocks are numbers; trace identifiers, log lines, rates
  and latencies are left out.  In RunApi requests are served one after the other, identifiers are numbers that are new when they are given
  out, tables keep the order of insertion, and audit records are always written.

  \<^bold>\<open>Not modelled.\<close>  The requests on files, previews, statistics, exports, webhooks, accounts and AI, the status of contracts and the lists
  of their breaches, the limits of rates, authentication, the cost estimator, the database schema and catalog, DuckDB and Wasm
  executors and the process sandbox (calls to foreign engines), AI generation, the
  text of the healing prompt, telemetry, profiling over pandas frames, notifications, and the scripts.
\<close>

section \<open>What a valid configuration gives the runner\<close>

text \<open>The references that the runner follows are those that the validator checks, provided that
  they are texts.\<close>

lemma inputs_earlier:
  assumes "references_ok earlier s" and "list_all is_str (step_inputs s)"
  shows "set (step_inputs s) \<subseteq> set earlier"
proof
  fix x
  assume x: "x \<in> set (step_inputs s)"
  with assms(2) obtain t where t: "x = PStr t" by (auto simp: list_all_iff elim: is_strE)
  from x t have "\<exists>f. (f, x) \<in> set (step_refs (cfg_fields s)) \<and> truthy x"
    by (cases "cfg_fields s") (auto simp: step_inputs_def split: if_splits option.splits)
  with assms(1) t show "x \<in> set earlier" by (fastforce simp: references_ok_def)
qed

lemma references_nth:
  assumes "all_references_ok earlier ss" and "k < length ss"
  shows "references_ok (earlier @ map step_name (take k ss)) (ss ! k)"
  using assms
proof (induction ss arbitrary: earlier k)
  case Nil
  then show ?case by simp
next
  case (Cons s ss)
  then show ?case by (cases k) (force dest: Cons.IH [of "earlier @ [step_name s]"])+
qed

lemma distinct_names_distinct: "distinct_names ns \<Longrightarrow> list_all is_str ns \<Longrightarrow> distinct ns"
  by (induction ns) (auto simp: distinct_names_def list_all_iff elim!: is_strE)

lemma well_formed_name:
  assumes "well_formed max_steps registered cfg" and "s \<in> set (steps cfg)"
  obtains n where "step_name s = PStr n" "is_valid_identifier n"
proof -
  from assms have "name_format_ok s" "nonblank (step_name s)"
    by (auto simp: well_formed_def list_all_iff required_ok_def)
  moreover from this(2) have "truthy (step_name s)"
    by (auto simp: nonblank_def py_strip_def lstrip_def split: pyval.splits)
  ultimately show ?thesis using that by (auto simp: name_format_ok_def)
qed

lemma well_formed_runnable:
  assumes wf: "well_formed max_steps registered cfg"
    and texts: "\<forall>s \<in> set (steps cfg). list_all is_str (step_inputs s)"
  shows "runnable (steps cfg)"
proof -
  have strs: "\<forall>s \<in> set (steps cfg). is_str (step_name s)"
  proof
    fix s
    assume "s \<in> set (steps cfg)"
    then obtain n where "step_name s = PStr n" by (rule well_formed_name [OF wf])
    then show "is_str (step_name s)" by (simp add: is_str_def)
  qed
  moreover have "distinct (map step_name (steps cfg))"
    using wf strs by (intro distinct_names_distinct) (auto simp: well_formed_def list_all_iff)
  moreover have "set (step_inputs (steps cfg ! k)) \<subseteq> set (map step_name (take k (steps cfg)))"
    if "k < length (steps cfg)" for k
    using inputs_earlier [OF references_nth [OF _ that, of "[]"]] wf texts that
    by (simp add: well_formed_def)
  ultimately show ?thesis by (simp add: runnable_def)
qed

section \<open>What the steps of a valid configuration record\<close>

definition plain_name :: "pyval \<Rightarrow> bool" where
  "plain_name v \<longleftrightarrow> (\<exists>n. v = PStr n \<and> CHR '':'' \<notin> set n)"

lemma recorded_calls_ordered:
  assumes "subseq ts ss" and "list_all2 records ts calls" and "all_references_ok earlier ss"
    and "\<forall>s \<in> set ss. list_all is_str (step_inputs s)" and "distinct (PStr [] # earlier @ map step_name ss)"
    and "\<forall>v \<in> set earlier \<union> step_name ` set ss. plain_name v" and "PStr ` set seen \<subseteq> insert (PStr []) (set earlier)"
  shows "calls_ordered seen calls"
  using assms
proof (induction ss arbitrary: ts calls earlier seen rule: list.induct)
  case Nil
  then show ?case by (auto dest: list_emb_Nil2)
next
  case (Cons s ss)
  let ?earlier = "earlier @ [step_name s]"
  have rest: "all_references_ok ?earlier ss" "\<forall>s \<in> set ss. list_all is_str (step_inputs s)"
    "distinct (PStr [] # ?earlier @ map step_name ss)" "\<forall>v \<in> set ?earlier \<union> step_name ` set ss. plain_name v"
    using Cons.prems by auto
  show ?case
  proof (cases "subseq ts ss")
    case True
    then show ?thesis using Cons.prems(2,7) by (intro Cons.IH [OF _ _ rest]) auto
  next
    case False
    with Cons.prems(1) obtain ts' where ts: "ts = s # ts'" "subseq ts' ss" by (cases ts) (auto split: if_splits)
    with Cons.prems(2) obtain c cs where cs: "calls = c # cs" "records s c" "list_all2 records ts' cs"
      by (auto simp: list_all2_Cons1)
    have ins: "PStr ` set (call_inputs c) \<subseteq> insert (PStr []) (set earlier)"
      using cs(2) inputs_earlier [of earlier s] Cons.prems(3,4) by (auto simp: records_def)
    have "step_name s \<notin> insert (PStr []) (set earlier)" using Cons.prems(5) by auto
    with cs(2) ins Cons.prems(7) have "call_step c \<notin> set (call_inputs c) \<union> set seen"
      by (auto simp: records_def)
    moreover have "\<forall>n \<in> set (call_step c # call_inputs c). CHR '':'' \<notin> set n"
      using cs(2) ins Cons.prems(6) by (fastforce simp: records_def plain_name_def)
    moreover have "calls_ordered (call_step c # call_inputs c @ seen) cs"
      using cs ins Cons.prems(7) by (intro Cons.IH [OF ts(2) cs(3) rest]) (auto simp: records_def)
    ultimately show ?thesis by (simp add: cs(1))
  qed
qed

lemma well_formed_calls_ordered:
  assumes wf: "well_formed max_steps registered cfg"
    and texts: "\<forall>s \<in> set (steps cfg). list_all is_str (step_inputs s)"
    and "subseq ts (steps cfg)" and "list_all2 records ts calls"
  shows "calls_ordered [] calls"
proof (rule recorded_calls_ordered [OF assms(3,4) _ texts])
  show "all_references_ok [] (steps cfg)" using wf by (simp add: well_formed_def)
  have "PStr [] \<noteq> step_name s" if s: "s \<in> set (steps cfg)" for s
  proof -
    obtain n where "step_name s = PStr n" "is_valid_identifier n" by (rule well_formed_name [OF wf s])
    then show ?thesis by (cases n) (auto simp: is_valid_identifier_def is_identifier_def)
  qed
  then show "distinct (PStr [] # [] @ map step_name (steps cfg))"
    using well_formed_runnable [OF wf texts] by (auto simp: runnable_def)
  show "\<forall>v \<in> set [] \<union> step_name ` set (steps cfg). plain_name v"
  proof
    fix v
    assume "v \<in> set [] \<union> step_name ` set (steps cfg)"
    then obtain s where "s \<in> set (steps cfg)" "v = step_name s" by auto
    moreover from this(1) obtain n where "step_name s = PStr n" "is_valid_identifier n"
      by (rule well_formed_name [OF wf])
    ultimately show "plain_name v" by (simp add: is_valid_identifier_no_colon plain_name_def)
  qed
qed simp

section \<open>What a run leaves in the recorder\<close>

lemma fst_enrich [simp]: "fst (enrich_result eng rr) = fst rr"
  by (simp add: enrich_result_def split: prod.splits)

lemma smart_join_recorder:
  "fst (smart_join en ms eng extra st reg rec) = rec \<or>
   fst (smart_join en ms eng extra st reg rec) = fst (pandas_execute en st reg rec)"
  by (auto simp: smart_join_def run_pandas_def run_duckdb_def split: sum.splits option.splits)

lemma smart_execute_recorder:
  obtains "fst (smart_execute en ms extra st reg rec) = rec"
  | "fst (smart_execute en ms extra st reg rec) = fst (pandas_load en st reg rec)"
  | "fst (smart_execute en ms extra st reg rec) = fst (pandas_execute en st reg rec)"
proof -
  have "fst (smart_execute en ms extra st reg rec) \<in> {rec, fst (pandas_load en st reg rec), fst (pandas_execute en st reg rec)}"
    using smart_join_recorder [of en ms _ extra st reg rec]
    by (auto simp: smart_execute_def run_pandas_def run_duckdb_def Let_def split: sum.splits option.splits)
  with that show ?thesis by blast
qed

lemma commit_records:
  assumes "\<And>c res. r = Inr (c, res) \<Longrightarrow> records st c"
  shows "fst (commit nx r rec) = rec \<or> (\<exists>c. records st c \<and> fst (commit nx r rec) = apply_call nx c rec)"
  using assms by (cases r) (auto simp: commit_def)

text \<open>A call of the smart executor leaves the recorder as it is or makes one call of the step.\<close>

definition steps_recorded :: "'g nx_ops \<Rightarrow> step_config list \<Rightarrow> 'g \<Rightarrow> 'g \<Rightarrow> bool" where
  "steps_recorded nx ss rec rec' \<longleftrightarrow>
     (\<exists>ts calls. subseq ts ss \<and> list_all2 records ts calls \<and> rec' = fold (apply_call nx) calls rec)"

lemma steps_recorded_refl: "steps_recorded nx ss rec rec"
  by (auto simp: steps_recorded_def intro!: exI [of _ "[]"])

lemma steps_recorded_one: "records s c \<Longrightarrow> steps_recorded nx [s] rec (apply_call nx c rec)"
  by (auto simp: steps_recorded_def intro!: exI [of _ "[s]"] exI [of _ "[c]"])

lemma steps_recorded_append:
  assumes "steps_recorded nx ss rec rec'" and "steps_recorded nx ss' rec' rec''"
  shows "steps_recorded nx (ss @ ss') rec rec''"
proof -
  from assms obtain ts calls ts' calls' where
    "subseq ts ss" "list_all2 records ts calls" "rec' = fold (apply_call nx) calls rec"
    "subseq ts' ss'" "list_all2 records ts' calls'" "rec'' = fold (apply_call nx) calls' rec'"
    by (auto simp: steps_recorded_def)
  then show ?thesis unfolding steps_recorded_def
    by (intro exI [of _ "ts @ ts'"] exI [of _ "calls @ calls'"]) (auto intro: list_emb_append_mono list_all2_appendI)
qed

lemma smart_execute_records:
  "steps_recorded nx [st] rec (fst (smart_execute (executor_engines pd nx ms fs duckdb) ms' extra st reg rec))"
proof (rule smart_execute_recorder [of "executor_engines pd nx ms fs duckdb" ms' extra st reg rec])
  assume "fst (smart_execute (executor_engines pd nx ms fs duckdb) ms' extra st reg rec) = rec"
  then show ?thesis by (simp add: steps_recorded_refl)
next
  assume "fst (smart_execute (executor_engines pd nx ms fs duckdb) ms' extra st reg rec) =
    fst (pandas_load (executor_engines pd nx ms fs duckdb) st reg rec)"
  then show ?thesis
    using commit_records [of "run_load pd ms fs st" st nx rec] run_load_records [of pd ms fs st]
    by (auto simp: executor_engines_def steps_recorded_refl steps_recorded_one)
next
  assume "fst (smart_execute (executor_engines pd nx ms fs duckdb) ms' extra st reg rec) =
    fst (pandas_execute (executor_engines pd nx ms fs duckdb) st reg rec)"
  then show ?thesis
    using commit_records [of "execute_step pd ms (fs\<lparr>file_paths := [], file_metadata := []\<rparr>) st reg" st nx rec]
      execute_step_records [of pd ms "fs\<lparr>file_paths := [], file_metadata := []\<rparr>" st reg]
    by (auto simp: executor_engines_def steps_recorded_refl steps_recorded_one)
qed

lemma execute_single_step_recorder:
  "recorder (fst (execute_single_step env run_id total_steps i step st)) = fst (step_execute env step (registry st) (recorder st))"
  by (auto simp: execute_single_step_def run_and_publish_def emit_def Let_def split: prod.splits sum.splits pyexn.splits)

lemma run_steps_recorded:
  assumes "\<And>step reg rec. steps_recorded nx [step] rec (fst (step_execute env step reg rec))"
  shows "steps_recorded nx ss (recorder st) (recorder (fst (run_steps env run_id total_steps i ss st)))"
proof (induction ss arbitrary: st i)
  case Nil
  then show ?case by (simp add: steps_recorded_refl)
next
  case (Cons step ss)
  obtain st1 r where ex: "execute_single_step env run_id total_steps i step st = (st1, r)" by fastforce
  have first: "steps_recorded nx [step] (recorder st) (recorder st1)"
    using assms [of step "recorder st" "registry st"] execute_single_step_recorder [of env run_id total_steps i step st] ex
    by simp
  have stop: "steps_recorded nx (step # ss) (recorder st) (recorder st1)"
    using steps_recorded_append [OF first steps_recorded_refl, of ss] by simp
  have go: "steps_recorded nx (step # ss) (recorder st) (recorder (fst (run_steps env run_id total_steps (Suc i) ss st2)))"
    if "recorder st2 = recorder st1" for st2
    using steps_recorded_append [OF first, of ss] Cons.IH [of st2 "Suc i"] that by simp
  show ?case using stop by (auto simp: ex Let_def go split: sum.splits)
qed

lemma execute_state:
  "fst (execute env rec b elapsed run_id cfg) =
     (case compute_consumer_counts (steps cfg) of
        Inl e \<Rightarrow> start_state rec b []
      | Inr consumers \<Rightarrow> fst (run_steps env run_id (length (steps cfg)) 0 (steps cfg) (start_state rec b consumers)))"
  by (simp add: execute_def split: sum.splits prod.splits pyexn.splits)

lemma execute_recorded:
  assumes "\<And>step reg rec. steps_recorded nx [step] rec (fst (step_execute env step reg rec))"
  shows "steps_recorded nx (steps cfg) rec (recorder (fst (execute env rec b elapsed run_id cfg)))"
proof -
  have start: "recorder (start_state rec b c) = rec" for c :: "(pyval \<times> int) list"
    by (simp add: start_state_def)
  show ?thesis
    using run_steps_recorded [OF assms, of "steps cfg" "start_state rec b c" for c]
    by (simp add: execute_state start steps_recorded_refl split: sum.splits)
qed

section \<open>Properties\<close>

lemma sample_accepted:
  obtains r where "validate 50 (sample_config (PStr ''a'')) [''f1''] = Inr r" "is_valid r"
  using sample_validates [of "PStr ''a''"] by (auto simp: input_ok_def nonblank_def)

lemma sample_text_inputs: "\<forall>s \<in> set (steps (sample_config (PStr ''a''))). list_all is_str (step_inputs s)"
  by (simp add: sample_config_def step_inputs_def is_str_def)


text \<open>C1.  A pipeline that the validator accepts never misses a table at run time.  When the references
  are texts, the consumer counts exist and, after any number of steps that ran, the registry holds for
  every input of the next step the very table that the step of that name produced.\<close>

theorem validated_pipeline_finds_inputs:
  assumes "validate max_steps cfg registered = Inr r" and "is_valid r"
    and "\<forall>s \<in> set (steps cfg). list_all is_str (step_inputs s)"
  shows "\<exists>consumers. compute_consumer_counts (steps cfg) = Inr consumers \<and>
    (\<forall>k st x. k < length (steps cfg) \<longrightarrow>
       run_steps env run_id total_steps 0 (take k (steps cfg)) (start_state rec b consumers) = (st, Inr ()) \<longrightarrow>
       x \<in> set (step_inputs (steps cfg ! k)) \<longrightarrow>
       (\<exists>j < k. step_name (steps cfg ! j) = x \<and> dict_get (registry st) x = Some (output_table (results st ! j))))"
proof -
  have run: "runnable (steps cfg)"
    using well_formed_runnable [OF _ assms(3)] validate_Inr [OF assms(1)] assms(2) by simp
  obtain consumers where "compute_consumer_counts (steps cfg) = Inr consumers"
    using consumer_counts_total [of "steps cfg"] assms(3) by (auto simp: list_all_iff)
  then show ?thesis
    by (intro exI [of _ consumers] conjI allI impI) (auto intro!: prefix_inputs_available [OF run])
qed

theorem validated_pipeline_finds_inputs_witness:
  "\<exists>consumers. compute_consumer_counts (steps (sample_config (PStr ''a''))) = Inr consumers \<and>
     dict_get (registry (fst (run_steps demo_env ''r'' 2 0 (take 1 (steps (sample_config (PStr ''a''))))
       (start_state () () consumers)))) (PStr ''a'') = Some 7"
proof -
  let ?ss = "steps (sample_config (PStr ''a''))"
  obtain r where r: "validate 50 (sample_config (PStr ''a'')) [''f1''] = Inr r" "is_valid r"
    by (rule sample_accepted)
  obtain consumers where c: "compute_consumer_counts ?ss = Inr consumers"
    and found: "\<And>st. run_steps demo_env ''r'' 2 0 (take 1 ?ss) (start_state () () consumers) = (st, Inr ()) \<Longrightarrow>
      \<exists>j < 1. step_name (?ss ! j) = PStr ''a'' \<and>
        dict_get (registry st) (PStr ''a'') = Some (output_table (results st ! j))"
    using validated_pipeline_finds_inputs [OF r sample_text_inputs, of demo_env "''r''" 2 "()" "()"]
    by (force simp: sample_config_def step_inputs_def)
  let ?run = "run_steps demo_env ''r'' 2 0 (take 1 ?ss) (start_state () () consumers)"
  have consumers: "consumers = [(PStr ''a'', 1)]"
    using c by (simp add: compute_consumer_counts_def sample_config_def step_inputs_def count_ref_def hashable_def)
  have ran: "snd ?run = Inr ()" and seven: "output_table (results (fst ?run) ! 0) = 7"
    unfolding consumers by code_simp+
  from ran have "?run = (fst ?run, Inr ())" by (metis prod.collapse)
  from found [OF this] c seven show ?thesis by auto
qed

text \<open>C24.  The lineage of a run never has a cycle.  For a pipeline that the validator accepts, run by the
  runner over the smart executor and the Pandas executors, the graph that the run leaves behind is
  acyclic: whichever engine took a step, whatever the data are and whether or not the run failed.\<close>

theorem run_lineage_acyclic:
  fixes nx :: "'g nx_ops" and env :: "('t, 'g, 'b) runner_env"
  assumes "validate max_steps cfg registered = Inr r" and "is_valid r"
    and "\<forall>s \<in> set (steps cfg). list_all is_str (step_inputs s)" and "nx_digraph nx gwf"
    and "\<And>step reg rec. \<exists>(pd :: ('t, 'd) pandas) ms fs duckdb extra.
       step_execute env step reg rec = smart_execute (executor_engines pd nx ms fs duckdb) ms extra step reg rec"
  shows "acyclic (nx_rel nx (recorder (fst (execute env (nx_empty nx) b elapsed run_id cfg))))"
proof -
  have one: "steps_recorded nx [step] rec (fst (step_execute env step reg rec))" for step reg rec
    using assms(5) [of step reg rec] smart_execute_records by metis
  from execute_recorded [OF one, of cfg "nx_empty nx" b elapsed run_id]
  obtain ts calls where "subseq ts (steps cfg)" "list_all2 records ts calls"
    and rec: "recorder (fst (execute env (nx_empty nx) b elapsed run_id cfg)) = recorded nx calls"
    by (auto simp: steps_recorded_def recorded_def)
  then have "calls_ordered [] calls"
    using well_formed_calls_ordered [OF _ assms(3)] validate_Inr [OF assms(1)] assms(2) by blast
  then show ?thesis using nx_digraph.recorded_acyclic(2) [OF assms(4)] rec by metis
qed

definition demo_runner :: "string list \<Rightarrow> (frame, adj, unit) runner_env" where
  "demo_runner fs =
     \<lparr>step_execute = (\<lambda>step reg rec. smart_execute
        (executor_engines (demo_pandas (Inr [])) adj_nx 3
          \<lparr>file_paths = map (\<lambda>f. (f, f @ ''.csv'')) fs, file_metadata = [], wasm_modules = [], user_role = None, current_run_id = ''r''\<rparr>
          (\<lambda>st t tables. Inr t)) 3 [] step reg rec),
      bus_put = (\<lambda>n t b. (b, Inr ())), check_contract = (\<lambda>c t n. Inr []), wants_lineage = False\<rparr>"

theorem run_lineage_acyclic_witness:
  "acyclic (nx_rel adj_nx (recorder (fst (execute (demo_runner [''f1'']) (nx_empty adj_nx) () 5 ''r'' (sample_config (PStr ''a''))))))"
proof -
  obtain r where r: "validate 50 (sample_config (PStr ''a'')) [''f1''] = Inr r" "is_valid r"
    by (rule sample_accepted)
  show ?thesis
    by (rule run_lineage_acyclic [where 'd = frame, OF r sample_text_inputs adj.nx_digraph_axioms])
      (unfold demo_runner_def runner_env.simps, blast)
qed

text \<open>An error that is not a \<^verbatim>\<open>StepExecutionError\<close> ends the run without a summary: an unpivot whose
  \<^verbatim>\<open>id_vars\<close> and \<^verbatim>\<open>value_vars\<close> share a column, which the validator accepts, makes the runner raise a
  \<^verbatim>\<open>ValueError\<close>, and the last event says that the step is running.\<close>

definition overlapping_unpivot :: pipeline_config where
  "overlapping_unpivot =
     (sample_config (PStr ''a''))\<lparr>steps := [hd (steps (sample_config (PStr ''a''))),
       \<lparr>step_name = PStr ''u'', step_type = Inr UNPIVOT, contract = PNone,
        cfg_fields = UnpivotFields (PStr ''a'') (PList [PStr ''id'']) (PList [PStr ''id'']) (PStr ''variable'') (PStr ''value'')\<rparr>]\<rparr>"

theorem unpivot_overlap_aborts_run:
  "(\<exists>r. validate 50 overlapping_unpivot [''f1''] = Inr r \<and> is_valid r) \<and>
   snd (execute (demo_runner [''f1'']) (nx_empty adj_nx) () 5 ''r'' overlapping_unpivot) = Inl (overlap_error [''id'']) \<and>
   map ev_status (events (fst (execute (demo_runner [''f1'']) (nx_empty adj_nx) () 5 ''r'' overlapping_unpivot))) =
     [SS_RUNNING, SS_COMPLETED, SS_RUNNING]"
proof (intro conjI)
  have "map_sum (\<lambda>_. ()) is_valid (validate 50 overlapping_unpivot [''f1'']) = Inr True" by code_simp
  then show "\<exists>r. validate 50 overlapping_unpivot [''f1''] = Inr r \<and> is_valid r"
    by (cases "validate 50 overlapping_unpivot [''f1'']") auto
qed code_simp+

end
